(* ===== verification/Go_Prelude.thy ===== *)
theory Go_Prelude
  imports Main "HOL-Library.Word" "HOL-Library.Sublist"
begin

text \<open>
  Shared vocabulary of the development: the parts of the Go language and of its standard
  library that the gateway's sources use.
  \<^item> \<open>time.Duration\<close> is an \<open>int64\<close> count of nanoseconds: durations are \<open>int\<close>, and the
    operations that can leave the 64-bit range wrap with \<open>wrap64\<close>.
  \<^item> \<open>time.Time\<close> is an instant: \<open>int\<close> nanoseconds since the zero \<open>Time\<close>, so that
    \<open>IsZero\<close> is equality with 0; \<open>Sub\<close> saturates as the library's does.
  \<^item> a Go \<open>string\<close> is a byte sequence: HOL's \<open>string\<close>, whose characters are bytes.
    \<open>strings.TrimSpace\<close> works on the UTF-8 encodings of the Unicode white space
    characters; \<open>strings.ToLower\<close> is exact on ASCII strings and takes the Unicode case
    mapping of other strings as a parameter.
  \<^item> a Go map whose iteration order can be observed is an association list, read with
    \<open>map_of\<close>: the order of the list is the order in which a \<open>range\<close> loop visits the
    keys, and a theorem for every list is a theorem for every iteration order.
\<close>

named_theorems go_defs \<open>unfolding rules of the Go vocabulary\<close>
named_theorems trim_simps \<open>rewrite rules of the white space trimming functions\<close>

section \<open>Integers and time\<close>

type_synonym duration = int
type_synonym gotime = int

definition wrap64 :: "int \<Rightarrow> int" where
  "wrap64 x = (x + 2 ^ 63) mod 2 ^ 64 - 2 ^ 63"

definition minInt64 :: int where
  "minInt64 = - (2 ^ 63)"

definition maxInt64 :: int where
  "maxInt64 = 2 ^ 63 - 1"

definition in_int64 :: "int \<Rightarrow> bool" where
  "in_int64 x \<longleftrightarrow> minInt64 \<le> x \<and> x \<le> maxInt64"

abbreviation Millisecond :: duration where
  "Millisecond \<equiv> 1000000"

abbreviation Second :: duration where
  "Second \<equiv> 1000000000"

abbreviation Minute :: duration where
  "Minute \<equiv> 60000000000"

abbreviation Hour :: duration where
  "Hour \<equiv> 3600000000000"

definition IsZero :: "gotime \<Rightarrow> bool" where
  "IsZero t \<longleftrightarrow> t = 0"

definition time_Sub :: "gotime \<Rightarrow> gotime \<Rightarrow> duration" where
  "time_Sub t u = max minInt64 (min maxInt64 (t - u))"

definition time_Add :: "gotime \<Rightarrow> duration \<Rightarrow> gotime" where
  "time_Add t d = t + d"

definition time_After :: "gotime \<Rightarrow> gotime \<Rightarrow> bool" where
  "time_After t u \<longleftrightarrow> u < t"

definition time_Before :: "gotime \<Rightarrow> gotime \<Rightarrow> bool" where
  "time_Before t u \<longleftrightarrow> t < u"

definition unixEpoch :: gotime where
  "unixEpoch = 62135596800 * Second"

definition UnixMilli :: "gotime \<Rightarrow> int" where
  "UnixMilli t = (t - unixEpoch) div Millisecond"

definition Unix :: "gotime \<Rightarrow> int" where
  "Unix t = (t - unixEpoch) div Second"

lemmas time_defs [go_defs] =
  IsZero_def time_Sub_def time_Add_def time_After_def time_Before_def

section \<open>Strings\<close>

type_synonym gostring = string

abbreviation byte_of :: "char \<Rightarrow> nat" where
  "byte_of \<equiv> of_char"

definition runeSelf :: nat where
  "runeSelf = 128"

definition isASCII :: "char \<Rightarrow> bool" where
  "isASCII c \<longleftrightarrow> byte_of c < runeSelf"

definition asciiSpaces :: "char list" where
  "asciiSpaces = [CHR '' '', CHR 0x09, CHR 0x0A, CHR 0x0D, CHR 0x0C, CHR 0x0B]"

definition asciiSpace :: "char \<Rightarrow> bool" where
  "asciiSpace c \<longleftrightarrow> c \<in> set asciiSpaces"

text \<open>The UTF-8 encodings of the white space characters beyond ASCII, as
  \<open>unicode.IsSpace\<close> lists them.\<close>

definition wideSpaces :: "string list" where
  "wideSpaces =
     [[CHR 0xC2, CHR 0x85], [CHR 0xC2, CHR 0xA0], [CHR 0xE1, CHR 0x9A, CHR 0x80],
      [CHR 0xE2, CHR 0x80, CHR 0x80], [CHR 0xE2, CHR 0x80, CHR 0x81],
      [CHR 0xE2, CHR 0x80, CHR 0x82], [CHR 0xE2, CHR 0x80, CHR 0x83],
      [CHR 0xE2, CHR 0x80, CHR 0x84], [CHR 0xE2, CHR 0x80, CHR 0x85],
      [CHR 0xE2, CHR 0x80, CHR 0x86], [CHR 0xE2, CHR 0x80, CHR 0x87],
      [CHR 0xE2, CHR 0x80, CHR 0x88], [CHR 0xE2, CHR 0x80, CHR 0x89],
      [CHR 0xE2, CHR 0x80, CHR 0x8A], [CHR 0xE2, CHR 0x80, CHR 0xA8],
      [CHR 0xE2, CHR 0x80, CHR 0xA9], [CHR 0xE2, CHR 0x80, CHR 0xAF],
      [CHR 0xE2, CHR 0x81, CHR 0x9F], [CHR 0xE3, CHR 0x80, CHR 0x80]]"

text \<open>Remove leading occurrences of the given byte sequences, as long as one matches.\<close>

function strip :: "string list \<Rightarrow> string \<Rightarrow> string" where
  "strip encs [] = []"
| "strip encs (c # cs) =
     (if asciiSpace c then strip encs cs
      else case find (\<lambda>e. e \<noteq> [] \<and> prefix e (c # cs)) encs of
             None \<Rightarrow> c # cs
           | Some e \<Rightarrow> strip encs (drop (length e) (c # cs)))"
  by pat_completeness auto
termination
  by (relation "measure (\<lambda>(encs, s). length s)") (auto simp: find_Some_iff)

definition TrimLeftSpace :: "string \<Rightarrow> string" where
  "TrimLeftSpace s = strip wideSpaces s"

definition TrimRightSpace :: "string \<Rightarrow> string" where
  "TrimRightSpace s = rev (strip (map rev wideSpaces) (rev s))"

definition TrimSpace :: "string \<Rightarrow> string" where
  "TrimSpace s = TrimRightSpace (TrimLeftSpace s)"

definition asciiLower :: "char \<Rightarrow> char" where
  "asciiLower c = (if 65 \<le> byte_of c \<and> byte_of c \<le> 90 then char_of (byte_of c + 32) else c)"

definition asciiUpper :: "char \<Rightarrow> char" where
  "asciiUpper c = (if 97 \<le> byte_of c \<and> byte_of c \<le> 122 then char_of (byte_of c - 32) else c)"

text \<open>\<open>strings.EqualFold\<close> with a word whose letters have no case variant beyond ASCII.\<close>

definition EqualFoldWord :: "string \<Rightarrow> string \<Rightarrow> bool" where
  "EqualFoldWord s word \<longleftrightarrow> map asciiLower s = word"

definition ToLower :: "(string \<Rightarrow> string) \<Rightarrow> string \<Rightarrow> string" where
  "ToLower uniLower s = (if list_all isASCII s then map asciiLower s else uniLower s)"

definition ToUpper :: "(string \<Rightarrow> string) \<Rightarrow> string \<Rightarrow> string" where
  "ToUpper uniUpper s = (if list_all isASCII s then map asciiUpper s else uniUpper s)"

fun Contains :: "string \<Rightarrow> string \<Rightarrow> bool" where
  "Contains [] sub = (sub = [])"
| "Contains (c # cs) sub = (prefix sub (c # cs) \<or> Contains cs sub)"

definition decDigit :: "nat \<Rightarrow> char" where
  "decDigit d = char_of (48 + d)"

fun FormatUint :: "nat \<Rightarrow> string" where
  "FormatUint n = (if n < 10 then [decDigit n] else FormatUint (n div 10) @ [decDigit (n mod 10)])"

declare FormatUint.simps [simp del]

definition FormatInt :: "int \<Rightarrow> string" where
  "FormatInt i = (if i < 0 then ''-'' @ FormatUint (nat (- i)) else FormatUint (nat i))"

text \<open>Slices \<open>s[i:j]\<close> and the two index loops every trimming routine of the sources has.\<close>

definition gslice :: "'a list \<Rightarrow> nat \<Rightarrow> nat \<Rightarrow> 'a list" where
  "gslice s i j = take (j - i) (drop i s)"

function scanUp :: "(nat \<Rightarrow> bool) \<Rightarrow> nat \<Rightarrow> nat \<Rightarrow> nat" where
  "scanUp p start stop = (if start < stop \<and> p start then scanUp p (Suc start) stop else start)"
  by pat_completeness auto
termination
  by (relation "measure (\<lambda>(p, start, stop). stop - start)") auto

fun scanDown :: "(nat \<Rightarrow> bool) \<Rightarrow> nat \<Rightarrow> nat \<Rightarrow> nat" where
  "scanDown p start stop =
     (if start < stop \<and> p (stop - 1) then scanDown p start (stop - 1) else stop)"

declare scanUp.simps [simp del] scanDown.simps [simp del]

section \<open>Facts about integers and time\<close>

lemma wrap64_in_range: "in_int64 (wrap64 x)"
proof -
  have "0 \<le> (x + 2 ^ 63) mod 2 ^ 64" and "(x + 2 ^ 63) mod 2 ^ 64 < (2::int) ^ 64"
    by simp_all
  then show ?thesis
    by (simp add: in_int64_def wrap64_def minInt64_def maxInt64_def)
qed

lemma wrap64_id [simp]: "in_int64 x \<Longrightarrow> wrap64 x = x"
  by (simp add: in_int64_def wrap64_def minInt64_def maxInt64_def)

lemma time_Sub_in_range: "in_int64 (time_Sub t u)"
  by (simp add: time_Sub_def in_int64_def minInt64_def maxInt64_def)

text \<open>Saturation does not disturb a comparison with a bound that itself fits.\<close>

lemma time_Sub_ge_iff:
  "in_int64 d \<Longrightarrow> minInt64 < d \<Longrightarrow> d \<le> time_Sub t u \<longleftrightarrow> u + d \<le> t"
  by (auto simp: time_Sub_def in_int64_def minInt64_def maxInt64_def)

lemma time_Sub_gt_iff:
  "in_int64 d \<Longrightarrow> d < maxInt64 \<Longrightarrow> d < time_Sub t u \<longleftrightarrow> u + d < t"
  by (auto simp: time_Sub_def in_int64_def minInt64_def maxInt64_def)

section \<open>Facts about trimming\<close>

lemma asciiSpace_isASCII: "asciiSpace c \<Longrightarrow> isASCII c"
  by (auto simp: asciiSpace_def asciiSpaces_def isASCII_def runeSelf_def)

text \<open>A list of encodings is \<open>wide\<close> when every one starts with a byte beyond ASCII.\<close>

definition wide :: "string list \<Rightarrow> bool" where
  "wide encs \<longleftrightarrow> list_all (\<lambda>e. e = [] \<or> \<not> isASCII (hd e)) encs"

lemma wide_wideSpaces: "wide wideSpaces" and wide_rev_wideSpaces: "wide (map rev wideSpaces)"
  by (simp_all add: wide_def wideSpaces_def isASCII_def runeSelf_def)

lemma find_wide_None:
  assumes "wide encs" and "isASCII c"
  shows "find (\<lambda>e. e \<noteq> [] \<and> prefix e (c # cs)) encs = None"
proof -
  have "\<not> (e \<noteq> [] \<and> prefix e (c # cs))" if "e \<in> set encs" for e
    using that assms by (cases e rule: list.exhaust) (auto simp: wide_def list_all_iff)
  then show ?thesis
    by (auto simp: find_None_iff)
qed

lemma strip_space [trim_simps]: "asciiSpace c \<Longrightarrow> strip encs (c # cs) = strip encs cs"
  by simp

lemma strip_stop [trim_simps]:
  "wide encs \<Longrightarrow> isASCII c \<Longrightarrow> \<not> asciiSpace c \<Longrightarrow> strip encs (c # cs) = c # cs"
  by (simp add: find_wide_None)

lemma strip_suffix: "suffix (strip encs s) s"
proof (induction encs s rule: strip.induct)
  case (2 encs c cs)
  show ?case
  proof (cases "asciiSpace c")
    case True
    with "2.IH"(1) show ?thesis by (auto intro: suffix_ConsI)
  next
    case sp: False
    show ?thesis
    proof (cases "find (\<lambda>e. e \<noteq> [] \<and> prefix e (c # cs)) encs")
      case None
      with sp show ?thesis by simp
    next
      case (Some e)
      have "suffix (strip encs (drop (length e) (c # cs))) (drop (length e) (c # cs))"
        using "2.IH"(2)[OF sp Some] .
      with sp Some show ?thesis
        by (auto intro: suffix_order.trans suffix_drop)
    qed
  qed
qed simp

text \<open>A string is \<open>stripped\<close> when no encoding and no ASCII space stands at its front.\<close>

definition stripped :: "string list \<Rightarrow> string \<Rightarrow> bool" where
  "stripped encs s \<longleftrightarrow>
     s = [] \<or> (\<not> asciiSpace (hd s) \<and> find (\<lambda>e. e \<noteq> [] \<and> prefix e s) encs = None)"

lemma strip_stripped: "stripped encs (strip encs s)"
proof (induction encs s rule: strip.induct)
  case (2 encs c cs)
  show ?case
  proof (cases "asciiSpace c")
    case True
    with "2.IH"(1) show ?thesis by simp
  next
    case sp: False
    show ?thesis
    proof (cases "find (\<lambda>e. e \<noteq> [] \<and> prefix e (c # cs)) encs")
      case None
      with sp show ?thesis by (simp add: stripped_def)
    next
      case (Some e)
      with sp "2.IH"(2)[OF sp Some] show ?thesis by simp
    qed
  qed
qed (simp add: stripped_def)

lemma strip_id: "stripped encs s \<Longrightarrow> strip encs s = s"
  by (cases s) (auto simp: stripped_def)

lemma stripped_prefix:
  assumes "stripped encs s" and "prefix p s"
  shows "stripped encs p"
proof (cases p)
  case (Cons c p')
  then have s: "s \<noteq> []" "hd s = c" using assms(2) by (auto simp: prefix_def)
  have "\<not> (e \<noteq> [] \<and> prefix e p)" if "e \<in> set encs" for e
    using that assms s by (auto simp: stripped_def find_None_iff dest: prefix_order.trans)
  then show ?thesis using assms(1) s Cons by (auto simp: stripped_def find_None_iff)
qed (simp add: stripped_def)

lemma TrimRightSpace_prefix: "prefix (TrimRightSpace s) s"
  using strip_suffix[of "map rev wideSpaces" "rev s"]
  by (simp add: TrimRightSpace_def suffix_to_prefix)

lemma TrimSpace_idem [simp]: "TrimSpace (TrimSpace s) = TrimSpace s"
proof -
  have "stripped wideSpaces (TrimSpace s)"
    unfolding TrimSpace_def TrimLeftSpace_def
    by (rule stripped_prefix [OF strip_stripped TrimRightSpace_prefix])
  then have "TrimLeftSpace (TrimSpace s) = TrimSpace s"
    by (simp add: TrimLeftSpace_def strip_id)
  then show ?thesis
    by (simp add: TrimSpace_def TrimRightSpace_def strip_id strip_stripped)
qed

lemma strip_spaces: "list_all asciiSpace xs \<Longrightarrow> strip encs (xs @ s) = strip encs s"
  by (induction xs) auto

lemma TrimSpace_core:
  assumes "list_all asciiSpace A" and "list_all asciiSpace B" and "m \<noteq> []"
    and "isASCII (hd m)" and "\<not> asciiSpace (hd m)"
    and "isASCII (last m)" and "\<not> asciiSpace (last m)"
  shows "TrimSpace (A @ m @ B) = m"
proof -
  have "TrimLeftSpace (A @ m @ B) = m @ B"
    using assms(1,3-5) strip_stop[OF wide_wideSpaces, of "hd m" "tl m @ B"]
    by (simp add: TrimLeftSpace_def strip_spaces flip: append_Cons)
  moreover have "rev m = last m # rev (butlast m)"
    using assms(3) by (metis append_butlast_last_id rev_eq_Cons_iff rev_rev_ident)
  then have "strip (map rev wideSpaces) (rev m) = rev m"
    using assms(6,7) strip_stop[OF wide_rev_wideSpaces] by (simp only:)
  then have "strip (map rev wideSpaces) (rev B @ rev m) = rev m"
    using assms(2) by (simp add: strip_spaces list_all_iff)
  ultimately show ?thesis
    by (simp add: TrimSpace_def TrimRightSpace_def)
qed

lemma somes_simps [simp]:
  "List.map_filter id [] = []"
  "List.map_filter id (None # xs) = List.map_filter id xs"
  "List.map_filter id (Some x # xs) = x # List.map_filter id xs"
  by (simp_all add: map_filter_def)

lemma somes_ident [simp]: "List.map_filter (\<lambda>a. a) xs = List.map_filter id xs"
  by (simp add: id_def)

lemma somes_set: "x \<in> set (List.map_filter id xs) \<longleftrightarrow> Some x \<in> set xs"
proof (induction xs)
  case (Cons y xs)
  then show ?case by (cases y) auto
qed simp

lemma TrimSpace_plain:
  "m \<noteq> [] \<Longrightarrow> isASCII (hd m) \<Longrightarrow> \<not> asciiSpace (hd m) \<Longrightarrow> isASCII (last m) \<Longrightarrow> \<not> asciiSpace (last m) \<Longrightarrow>
     TrimSpace m = m"
  using TrimSpace_core[of "[]" "[]" m] by simp

lemma bit_Suc0_0 [simp]: "bit (Suc 0) 0"
  by (simp add: bit_0)

lemmas ascii_eval = isASCII_def runeSelf_def asciiSpace_def asciiSpaces_def asciiLower_def asciiUpper_def
  ToLower_def ToUpper_def char_of_def of_char_of

lemma scanUp_takeWhile:
  "i \<le> length s \<Longrightarrow> scanUp (\<lambda>k. P (s ! k)) i (length s) = i + length (takeWhile P (drop i s))"
proof (induction "length s - i" arbitrary: i)
  case 0
  then show ?case by (simp add: scanUp.simps)
next
  case (Suc n)
  then have i: "i < length s" by simp
  have step: "scanUp (\<lambda>k. P (s ! k)) (Suc i) (length s)
      = Suc i + length (takeWhile P (drop (Suc i) s))"
    using Suc.hyps(1)[of "Suc i"] Suc.hyps(2) i by simp
  show ?case
    using i step by (subst scanUp.simps) (simp add: Cons_nth_drop_Suc [symmetric])
qed

lemma scanDown_takeWhile:
  "start \<le> stop \<Longrightarrow> stop \<le> length s \<Longrightarrow>
   scanDown (\<lambda>k. P (s ! k)) start stop =
   stop - length (takeWhile P (rev (gslice s start stop)))"
proof (induction stop)
  case 0
  then show ?case by (simp add: scanDown.simps gslice_def)
next
  case (Suc n)
  show ?case
  proof (cases "start \<le> n")
    case True
    then have "gslice s start (Suc n) = gslice s start n @ [s ! n]"
      using Suc.prems by (simp add: gslice_def Suc_diff_le take_Suc_conv_app_nth)
    with True Suc show ?thesis by (subst scanDown.simps) auto
  next
    case False
    with Suc.prems show ?thesis by (simp add: scanDown.simps gslice_def)
  qed
qed

lemma TrimSpace_Nil [simp]: "TrimSpace [] = []"
  by (simp add: TrimSpace_def TrimLeftSpace_def TrimRightSpace_def)

end
