(* ===== verification/Go_Text.thy ===== *)
theory Go_Text
  imports Go_Prelude
begin

text \<open>
  The text functions of Go's library that the platform packages use: \<open>strings.Split\<close> and
  \<open>strings.Join\<close> with a separator of one byte, \<open>strings.EqualFold\<close> against an ASCII word,
  \<open>strings.IndexByte\<close>, \<open>strconv.Atoi\<close>, \<open>hex.EncodeToString\<close>, and the unpadded URL alphabet of
  \<open>encoding/base64\<close>. Base 64 decoding undoes encoding; joining undoes splitting.
\<close>

section \<open>Splitting and joining\<close>

fun strSplit :: "char \<Rightarrow> string \<Rightarrow> string list" where
  "strSplit sep [] = [[]]"
| "strSplit sep (c # cs) =
     (if c = sep then [] # strSplit sep cs
      else (case strSplit sep cs of [] \<Rightarrow> [[c]] | part # parts \<Rightarrow> (c # part) # parts))"

fun strJoin :: "char \<Rightarrow> string list \<Rightarrow> string" where
  "strJoin sep [] = []"
| "strJoin sep [part] = part"
| "strJoin sep (part # parts) = part @ sep # strJoin sep parts"

fun indexByte :: "char \<Rightarrow> string \<Rightarrow> nat option" where
  "indexByte b [] = None"
| "indexByte b (c # cs) = (if c = b then Some 0 else map_option Suc (indexByte b cs))"

lemma strSplit_not_Nil [simp]: "strSplit sep s \<noteq> []"
  by (induction s) (auto split: list.splits)

lemma strSplit_free [simp]: "sep \<notin> set s \<Longrightarrow> strSplit sep s = [s]"
  by (induction s) auto

lemma strSplit_append [simp]: "sep \<notin> set s \<Longrightarrow> strSplit sep (s @ sep # rest) = s # strSplit sep rest"
  by (induction s) auto

lemma strJoin_Cons: "parts \<noteq> [] \<Longrightarrow> strJoin sep (part # parts) = part @ sep # strJoin sep parts"
  by (cases parts) auto

lemma strJoin_strSplit: "strJoin sep (strSplit sep s) = s"
proof (induction s)
  case (Cons c cs)
  show ?case
  proof (cases "c = sep")
    case True
    with Cons show ?thesis by (simp add: strJoin_Cons)
  next
    case False
    obtain part parts where "strSplit sep cs = part # parts"
      by (meson neq_Nil_conv strSplit_not_Nil)
    with Cons False show ?thesis
      by (cases parts) auto
  qed
qed simp

lemma strSplit_strJoin:
  "parts \<noteq> [] \<Longrightarrow> (\<And>part. part \<in> set parts \<Longrightarrow> sep \<notin> set part) \<Longrightarrow> strSplit sep (strJoin sep parts) = parts"
  by (induction parts rule: strJoin.induct) auto

lemma indexByte_append [simp]: "b \<notin> set s \<Longrightarrow> indexByte b (s @ b # rest) = Some (length s)"
  by (induction s) auto

section \<open>Numbers\<close>

definition decDigitValue :: "char \<Rightarrow> nat option" where
  "decDigitValue c = (if 48 \<le> byte_of c \<and> byte_of c \<le> 57 then Some (byte_of c - 48) else None)"

definition decValue :: "string \<Rightarrow> nat option" where
  "decValue ds = map_option (foldl (\<lambda>n d. 10 * n + d) 0) (those (map decDigitValue ds))"

definition Atoi :: "string \<Rightarrow> int option" where
  "Atoi s =
     (let (negative, digits) =
            (case s of [] \<Rightarrow> (False, [])
             | c # cs \<Rightarrow> if c = CHR ''-'' then (True, cs) else if c = CHR ''+'' then (False, cs) else (False, s))
      in if digits = [] then None
         else case decValue digits of
                None \<Rightarrow> None
              | Some n \<Rightarrow> let v = (if negative then - int n else int n) in if in_int64 v then Some v else None)"

lemma Atoi_in_range: "Atoi s = Some v \<Longrightarrow> in_int64 v"
  by (auto simp: Atoi_def Let_def split: list.splits if_splits option.splits)

definition hexNibble :: "nat \<Rightarrow> char" where
  "hexNibble n = ''0123456789abcdef'' ! n"

definition hexEncode :: "string \<Rightarrow> string" where
  "hexEncode s = concat (map (\<lambda>c. [hexNibble (byte_of c div 16), hexNibble (byte_of c mod 16)]) s)"

lemma length_hexEncode [simp]: "length (hexEncode s) = 2 * length s"
  by (induction s) (auto simp: hexEncode_def)

section \<open>Base 64\<close>

definition b64Alphabet :: string where
  "b64Alphabet = ''ABCDEFGHIJKLMNOPQRSTUVWXYZabcdefghijklmnopqrstuvwxyz0123456789-_''"

definition b64Char :: "nat \<Rightarrow> char" where
  "b64Char n = b64Alphabet ! n"

definition b64Value :: "char \<Rightarrow> nat option" where
  "b64Value = map_of (zip b64Alphabet [0..<64])"

fun sextets :: "nat list \<Rightarrow> nat list" where
  "sextets [] = []"
| "sextets [a] = [a div 4, (a mod 4) * 16]"
| "sextets [a, b] = [a div 4, (a mod 4) * 16 + b div 16, (b mod 16) * 4]"
| "sextets (a # b # c # rest) =
     [a div 4, (a mod 4) * 16 + b div 16, (b mod 16) * 4 + c div 64, c mod 64] @ sextets rest"

text \<open>A single trailing sextet is an error; the spare bits of the last one are ignored.\<close>

fun octets :: "nat list \<Rightarrow> nat list option" where
  "octets [] = Some []"
| "octets [a] = None"
| "octets [a, b] = Some [a * 4 + b div 16]"
| "octets [a, b, c] = Some [a * 4 + b div 16, (b mod 16) * 16 + c div 4]"
| "octets (a # b # c # d # rest) =
     map_option (\<lambda>bs. [a * 4 + b div 16, (b mod 16) * 16 + c div 4, (c mod 4) * 64 + d] @ bs) (octets rest)"

definition b64Encode :: "string \<Rightarrow> string" where
  "b64Encode s = map b64Char (sextets (map byte_of s))"

definition b64Decode :: "string \<Rightarrow> string option" where
  "b64Decode s =
     (case those (map b64Value (filter (\<lambda>c. c \<noteq> CHR 0x0A \<and> c \<noteq> CHR 0x0D) s)) of
        None \<Rightarrow> None
      | Some vs \<Rightarrow> map_option (map char_of) (octets vs))"

lemma sextets_small: "list_all (\<lambda>b. b < 256) bs \<Longrightarrow> list_all (\<lambda>v. v < 64) (sextets bs)"
  by (induction bs rule: sextets.induct) auto

lemma digit_div_mod: "y < k \<Longrightarrow> (x * k + y) div k = x" "y < k \<Longrightarrow> (x * k + y) mod k = y" for x y k :: nat
  by (simp_all add: div_mult_self3 div_add1_eq)

lemma octets_sextets: "list_all (\<lambda>b. b < 256) bs \<Longrightarrow> octets (sextets bs) = Some bs"
proof (induction bs rule: sextets.induct)
  case (4 a b c rest)
  then have rest: "octets (sextets rest) = Some rest" and "b div 16 < 16" "c div 64 < 4" by (auto simp: less_mult_imp_div_less)
  with rest show ?case
    by (simp add: digit_div_mod)
next
  case (3 a b)
  then have "b div 16 < 16" by (simp add: less_mult_imp_div_less)
  then show ?case by (simp add: digit_div_mod)
qed auto

lemma distinct_b64Alphabet: "distinct b64Alphabet" and length_b64Alphabet: "length b64Alphabet = 64"
  by (simp_all add: b64Alphabet_def)

lemma b64Value_b64Char [simp]: "n < 64 \<Longrightarrow> b64Value (b64Char n) = Some n"
  using map_of_zip_nth [OF _ distinct_b64Alphabet, of "[0..<64]" n]
  by (simp add: b64Value_def b64Char_def length_b64Alphabet)

lemma b64Char_plain: "n < 64 \<Longrightarrow> b64Char n \<in> set b64Alphabet"
  by (simp add: b64Char_def length_b64Alphabet)

lemma b64Alphabet_plain: "c \<in> set b64Alphabet \<Longrightarrow> c \<noteq> CHR 0x0A \<and> c \<noteq> CHR 0x0D \<and> c \<noteq> CHR ''.''"
  by (auto simp: b64Alphabet_def)

lemma those_b64Char: "list_all (\<lambda>v. v < 64) vs \<Longrightarrow> those (map b64Value (map b64Char vs)) = Some vs"
  by (induction vs) auto

lemma list_all_bytes: "list_all (\<lambda>b. b < 256) (map byte_of s)"
  by (simp add: list_all_iff)

lemma b64Encode_alphabet: "c \<in> set (b64Encode s) \<Longrightarrow> c \<in> set b64Alphabet"
  using sextets_small [OF list_all_bytes, of s] by (auto simp: b64Encode_def list_all_iff intro: b64Char_plain)

lemma b64Encode_no_dot [simp]: "CHR ''.'' \<notin> set (b64Encode s)"
  using b64Encode_alphabet b64Alphabet_plain by blast

lemma b64Decode_b64Encode [simp]: "b64Decode (b64Encode s) = Some s"
proof -
  have "filter (\<lambda>c. c \<noteq> CHR 0x0A \<and> c \<noteq> CHR 0x0D) (b64Encode s) = b64Encode s"
    using b64Encode_alphabet b64Alphabet_plain by (intro filter_True) blast
  moreover have "those (map b64Value (b64Encode s)) = Some (sextets (map byte_of s))"
    unfolding b64Encode_def by (intro those_b64Char sextets_small list_all_bytes)
  moreover have "octets (sextets (map byte_of s)) = Some (map byte_of s)"
    by (intro octets_sextets list_all_bytes)
  ultimately show ?thesis
    by (simp add: b64Decode_def comp_def)
qed

end
