(* ===== verification/Field_Names.thy ===== *)
theory Field_Names
  imports Go_Prelude
begin

text \<open>
  Field name normalisation. Four packages carry a copy of the same white space trimming
  routine with an ASCII fast path (collector, models, driver, database); each copy is
  modelled from its own source, and each is proved equal to \<open>strings.TrimSpace\<close>.
  The locale \<open>field_trimmer\<close> is what the callers rely on: trimming is idempotent, and
  so a list of names that are already clean is not changed by normalisation. Every copy
  interprets it, and the callers' fast paths are justified by the facts of these
  interpretations.
\<close>

section \<open>The trimming routines\<close>

definition isASCIICollectorSpace :: "char \<Rightarrow> bool" where
  "isASCIICollectorSpace c \<longleftrightarrow>
     c = CHR '' '' \<or> c = CHR 0x09 \<or> c = CHR 0x0A \<or> c = CHR 0x0D \<or> c = CHR 0x0C \<or> c = CHR 0x0B"

definition trimCollectorText :: "string \<Rightarrow> string" where
  "trimCollectorText s =
     (if s = [] then []
      else let start = scanUp (\<lambda>i. isASCIICollectorSpace (s ! i)) 0 (length s) in
        if start = length s then []
        else let stop = scanDown (\<lambda>i. isASCIICollectorSpace (s ! i)) start (length s) in
          if start = 0 \<and> stop = length s
          then (if isASCII (s ! 0) \<and> isASCII (s ! (length s - 1)) then s else TrimSpace s)
          else if isASCII (s ! start) \<and> isASCII (s ! (stop - 1)) then gslice s start stop
          else TrimSpace s)"

definition isASCIIModelSpace :: "char \<Rightarrow> bool" where
  "isASCIIModelSpace c \<longleftrightarrow>
     c = CHR '' '' \<or> c = CHR 0x09 \<or> c = CHR 0x0A \<or> c = CHR 0x0D \<or> c = CHR 0x0C \<or> c = CHR 0x0B"

definition trimCollectFieldName :: "string \<Rightarrow> string" where
  "trimCollectFieldName s =
     (if s = [] then []
      else let start = scanUp (\<lambda>i. isASCIIModelSpace (s ! i)) 0 (length s) in
        if start = length s then []
        else let stop = scanDown (\<lambda>i. isASCIIModelSpace (s ! i)) start (length s) in
          if start = 0 \<and> stop = length s
          then (if isASCII (s ! 0) \<and> isASCII (s ! (length s - 1)) then s else TrimSpace s)
          else if isASCII (s ! start) \<and> isASCII (s ! (stop - 1)) then gslice s start stop
          else TrimSpace s)"

definition isASCIIDriverSpace :: "char \<Rightarrow> bool" where
  "isASCIIDriverSpace c \<longleftrightarrow>
     c = CHR '' '' \<or> c = CHR 0x09 \<or> c = CHR 0x0A \<or> c = CHR 0x0D \<or> c = CHR 0x0C \<or> c = CHR 0x0B"

definition trimDriverFieldName :: "string \<Rightarrow> string" where
  "trimDriverFieldName s =
     (if s = [] then []
      else let start = scanUp (\<lambda>i. isASCIIDriverSpace (s ! i)) 0 (length s) in
        if start = length s then []
        else let stop = scanDown (\<lambda>i. isASCIIDriverSpace (s ! i)) start (length s) in
          if start = 0 \<and> stop = length s
          then (if isASCII (s ! 0) \<and> isASCII (s ! (length s - 1)) then s else TrimSpace s)
          else if isASCII (s ! start) \<and> isASCII (s ! (stop - 1)) then gslice s start stop
          else TrimSpace s)"

definition isASCIIDataPointSpace :: "char \<Rightarrow> bool" where
  "isASCIIDataPointSpace c \<longleftrightarrow>
     c = CHR '' '' \<or> c = CHR 0x09 \<or> c = CHR 0x0A \<or> c = CHR 0x0D \<or> c = CHR 0x0C \<or> c = CHR 0x0B"

definition trimDataPointFieldName :: "string \<Rightarrow> string" where
  "trimDataPointFieldName s =
     (if s = [] then []
      else let start = scanUp (\<lambda>i. isASCIIDataPointSpace (s ! i)) 0 (length s) in
        if start = length s then []
        else let stop = scanDown (\<lambda>i. isASCIIDataPointSpace (s ! i)) start (length s) in
          if start = 0 \<and> stop = length s
          then (if isASCII (s ! 0) \<and> isASCII (s ! (length s - 1)) then s else TrimSpace s)
          else if isASCII (s ! start) \<and> isASCII (s ! (stop - 1)) then gslice s start stop
          else TrimSpace s)"

section \<open>What the callers rely on\<close>

locale field_trimmer =
  fixes trim :: "string \<Rightarrow> string"
  assumes trim_idem: "trim (trim s) = trim s"
    and trim_empty: "trim [] = []"
begin

lemma clean_filter:
  assumes "list_all (\<lambda>k. trim k \<noteq> [] \<and> k = trim k) ks"
  shows "map trim (filter (\<lambda>k. trim k \<noteq> []) ks) = ks"
  using assms by (induction ks) auto

lemma trimmed_clean: "trim k \<noteq> [] \<Longrightarrow> trim (trim k) \<noteq> [] \<and> trim k = trim (trim k)"
  by (simp add: trim_idem)

lemma normalised_is_clean:
  "list_all (\<lambda>k. trim k \<noteq> [] \<and> k = trim k) (map trim (filter (\<lambda>k. trim k \<noteq> []) ks))"
  by (auto simp: list_all_iff trim_idem)

lemma normalise_twice:
  "map trim (filter (\<lambda>k. trim k \<noteq> []) (map trim (filter (\<lambda>k. trim k \<noteq> []) ks)))
   = map trim (filter (\<lambda>k. trim k \<noteq> []) ks)"
  by (rule clean_filter [OF normalised_is_clean])

end

section \<open>Every copy is strings.TrimSpace\<close>

lemma model_spaces:
  "isASCIICollectorSpace = asciiSpace" "isASCIIModelSpace = asciiSpace"
  "isASCIIDriverSpace = asciiSpace" "isASCIIDataPointSpace = asciiSpace"
  by (auto simp: fun_eq_iff isASCIICollectorSpace_def isASCIIModelSpace_def
      isASCIIDriverSpace_def isASCIIDataPointSpace_def asciiSpace_def asciiSpaces_def)

text \<open>The fast path over an arbitrary split of the input at its outer spaces.\<close>

lemma takeWhile_split:
  obtains A m B where "s = A @ m @ B" "list_all P A" "list_all P B"
    "A = takeWhile P s" "m @ B = dropWhile P s"
    "rev B = takeWhile P (rev (dropWhile P s))"
    "m \<noteq> [] \<Longrightarrow> \<not> P (hd m) \<and> \<not> P (last m)"
proof -
  let ?d = "dropWhile P s"
  let ?B = "rev (takeWhile P (rev ?d))"
  let ?m = "rev (dropWhile P (rev ?d))"
  have d: "?d = ?m @ ?B"
    by (metis rev_append rev_rev_ident takeWhile_dropWhile_id)
  have hd: "\<not> P (hd ?m)" if "?m \<noteq> []"
    using that d by (metis append_is_Nil_conv hd_append2 hd_dropWhile)
  have last: "\<not> P (last ?m)" if "?m \<noteq> []"
    using that by (simp add: hd_dropWhile last_rev)
  have all: "list_all P (takeWhile P xs)" for xs
    by (auto simp: list_all_iff dest: set_takeWhileD)
  show thesis
    by (rule that [of "takeWhile P s" ?m ?B])
      (use d hd last all in \<open>auto simp: list_all_iff dest: set_takeWhileD\<close>)
qed

lemma fast_trim_body:
  "(if s = [] then []
    else let start = scanUp (\<lambda>i. asciiSpace (s ! i)) 0 (length s) in
      if start = length s then []
      else let stop = scanDown (\<lambda>i. asciiSpace (s ! i)) start (length s) in
        if start = 0 \<and> stop = length s
        then (if isASCII (s ! 0) \<and> isASCII (s ! (length s - 1)) then s else TrimSpace s)
        else if isASCII (s ! start) \<and> isASCII (s ! (stop - 1)) then gslice s start stop
        else TrimSpace s) = TrimSpace s"
proof -
  obtain A m B where s: "s = A @ m @ B" and A: "list_all asciiSpace A"
    and B: "list_all asciiSpace B" and Aw: "A = takeWhile asciiSpace s"
    and mB: "m @ B = dropWhile asciiSpace s"
    and Bw: "rev B = takeWhile asciiSpace (rev (dropWhile asciiSpace s))"
    and ends: "m \<noteq> [] \<Longrightarrow> \<not> asciiSpace (hd m) \<and> \<not> asciiSpace (last m)"
    using takeWhile_split[of s asciiSpace] by blast
  have up: "scanUp (\<lambda>i. asciiSpace (s ! i)) 0 (length s) = length A"
    using scanUp_takeWhile[of 0 s asciiSpace] Aw by simp
  have drop: "gslice s (length A) (length s) = m @ B"
    using s by (simp add: gslice_def)
  have lB: "length (takeWhile asciiSpace (rev (m @ B))) = length B"
    using Bw mB by (metis length_rev)
  have down: "scanDown (\<lambda>i. asciiSpace (s ! i)) (length A) (length s) = length A + length m"
    using scanDown_takeWhile[of "length A" "length s" s asciiSpace] s drop lB
    by simp
  show ?thesis
  proof (cases "m = []")
    case True
    then have "m @ B = []" using Bw mB A B ends s
      by (metis append_Nil append_is_Nil_conv dropWhile_eq_Nil_conv list_all_append list_all_iff)
    then have "TrimSpace s = []" "length A = length s"
      using s A strip_spaces[of A wideSpaces "[]"]
      by (auto simp: TrimSpace_def TrimLeftSpace_def TrimRightSpace_def)
    then show ?thesis by (simp add: up)
  next
    case False
    have core: "TrimSpace s = m" if "isASCII (hd m)" "isASCII (last m)"
      unfolding s by (rule TrimSpace_core [OF A B False]) (use that ends[OF False] in auto)
    have hd_at: "s ! length A = hd m"
      using s False by (simp add: nth_append hd_conv_nth)
    have "length A + length m - 1 = length A + (length m - 1)" "length m - 1 < length m"
      using False by (cases m; simp)+
    then have last_at: "s ! (length A + length m - 1) = last m"
      unfolding s by (simp only: nth_append_length_plus) (simp add: nth_append last_conv_nth False)
    have core_at: "gslice s (length A) (length A + length m) = m"
      using s by (simp add: gslice_def)
    note at = hd_at last_at core_at
    have len: "length s = length A + length m + length B" "s \<noteq> []"
      using s False by simp_all
    show ?thesis
    proof (cases "length A = 0 \<and> length A + length m = length s")
      case True
      then have "s ! 0 = hd m" "s ! (length s - 1) = last m" "m = s"
        using at s by simp_all
      with True core len(2) down show ?thesis by (auto simp: up)
    next
      case neq: False
      have "length A \<noteq> length s" using len False by auto
      with neq core at len(2) show ?thesis by (auto simp: up down Let_def)
    qed
  qed
qed

lemma trimCollectorText_eq: "trimCollectorText s = TrimSpace s"
  by (simp only: trimCollectorText_def model_spaces fast_trim_body)

lemma trimCollectFieldName_eq: "trimCollectFieldName s = TrimSpace s"
  by (simp only: trimCollectFieldName_def model_spaces fast_trim_body)

lemma trimDriverFieldName_eq: "trimDriverFieldName s = TrimSpace s"
  by (simp only: trimDriverFieldName_def model_spaces fast_trim_body)

lemma trimDataPointFieldName_eq: "trimDataPointFieldName s = TrimSpace s"
  by (simp only: trimDataPointFieldName_def model_spaces fast_trim_body)

lemmas trim_eqs [trim_simps] =
  trimCollectorText_eq trimCollectFieldName_eq trimDriverFieldName_eq trimDataPointFieldName_eq

interpretation collector_trim: field_trimmer trimCollectorText
  by unfold_locales (simp_all add: trim_eqs)

interpretation model_trim: field_trimmer trimCollectFieldName
  by unfold_locales (simp_all add: trim_eqs)

interpretation driver_trim: field_trimmer trimDriverFieldName
  by unfold_locales (simp_all add: trim_eqs)

interpretation datapoint_trim: field_trimmer trimDataPointFieldName
  by unfold_locales (simp_all add: trim_eqs)

text \<open>C31: The four hand-written trimming routines (of the collector, the data model, the driver
  host and the database) return what \<open>strings.TrimSpace\<close> returns, on every byte string: the ASCII
  fast path never differs from the Unicode-aware library function.\<close>
theorem fast_trim_is_TrimSpace:
  "trimCollectorText s = TrimSpace s \<and> trimCollectFieldName s = TrimSpace s \<and>
   trimDriverFieldName s = TrimSpace s \<and> trimDataPointFieldName s = TrimSpace s"
  by (simp add: trim_eqs)

end
