(* ===== verification/Circuit.thy ===== *)
theory Circuit
  imports Go_Prelude
begin

text \<open>
  The circuit breaker of \<open>internal/circuit/circuit.go\<close>. \<open>CircuitBreaker\<close> is the Go
  struct without its mutex: every method runs under it, so a method is one atomic state
  transformer, and \<open>time.Now\<close> is an argument of the method that reads it. \<open>Execute\<close>
  takes the lock three times with the protected call in between, so other requests
  interleave with it: besides the sequential \<open>Execute\<close> there is a step relation whose
  steps are the atomic sections, over the breaker and the number of calls in flight.
\<close>

section \<open>State\<close>

datatype CircuitState = Closed | Open | HalfOpen

definition CircuitState_String :: "CircuitState \<Rightarrow> string" where
  "CircuitState_String s =
     (case s of Closed \<Rightarrow> ''closed'' | Open \<Rightarrow> ''open'' | HalfOpen \<Rightarrow> ''half_open'')"

record Config =
  FailureThreshold :: int
  FailureWindow :: duration
  SuccessThreshold :: int
  RecoveryTimeout :: duration
  RequestTimeout :: duration

definition DefaultConfig :: Config where
  "DefaultConfig = \<lparr>FailureThreshold = 5, FailureWindow = Minute, SuccessThreshold = 3,
     RecoveryTimeout = 30 * Second, RequestTimeout = 10 * Second\<rparr>"

record CircuitBreaker =
  state :: CircuitState
  config :: Config
  failures :: "gotime list"
  successes :: "gotime list"
  lastFailure :: gotime
  requestCount :: int
  failureCount :: int
  successCount :: int

definition NewCircuitBreaker :: "Config option \<Rightarrow> CircuitBreaker" where
  "NewCircuitBreaker cfg = \<lparr>state = Closed, config = (case cfg of None \<Rightarrow> DefaultConfig | Some c \<Rightarrow> c),
     failures = [], successes = [], lastFailure = 0,
     requestCount = 0, failureCount = 0, successCount = 0\<rparr>"

section \<open>Methods\<close>

definition toHalfOpen :: "CircuitBreaker \<Rightarrow> CircuitBreaker" where
  "toHalfOpen cb = cb\<lparr>state := HalfOpen, successes := [], failures := []\<rparr>"

definition allowRequest :: "gotime \<Rightarrow> CircuitBreaker \<Rightarrow> bool \<times> CircuitBreaker" where
  "allowRequest now cb =
     (case state cb of
        Closed \<Rightarrow> (True, cb)
      | Open \<Rightarrow>
          (if RecoveryTimeout (config cb) \<le> time_Sub now (lastFailure cb)
           then (True, toHalfOpen cb) else (False, cb))
      | HalfOpen \<Rightarrow> (True, cb))"

definition cleanup :: "gotime \<Rightarrow> CircuitBreaker \<Rightarrow> CircuitBreaker" where
  "cleanup now cb =
     (let windowStart = time_Add now (wrap64 (- FailureWindow (config cb))) in
      cb\<lparr>failures := filter (\<lambda>t. time_After t windowStart) (failures cb),
         successes := filter (\<lambda>t. time_After t windowStart) (successes cb)\<rparr>)"

definition recordResult :: "gotime \<Rightarrow> bool \<Rightarrow> CircuitBreaker \<Rightarrow> CircuitBreaker" where
  "recordResult now success cb =
     (if success then
        (let cb1 = cleanup now (cb\<lparr>successCount := wrap64 (successCount cb + 1),
                                   successes := successes cb @ [now]\<rparr>) in
         if state cb1 = HalfOpen \<and> SuccessThreshold (config cb1) \<le> int (length (successes cb1))
         then cb1\<lparr>state := Closed, failures := []\<rparr> else cb1)
      else
        (let cb1 = cleanup now (cb\<lparr>failureCount := wrap64 (failureCount cb + 1),
                                   lastFailure := now, failures := failures cb @ [now]\<rparr>) in
         if state cb1 = HalfOpen then cb1\<lparr>state := Open\<rparr>
         else if state cb1 = Closed \<and> FailureThreshold (config cb1) \<le> int (length (failures cb1))
         then cb1\<lparr>state := Open\<rparr> else cb1))"

definition retryAfter :: "gotime \<Rightarrow> CircuitBreaker \<Rightarrow> duration" where
  "retryAfter now cb = wrap64 (RecoveryTimeout (config cb) - time_Sub now (lastFailure cb))"

datatype 'e execResult = CircuitOpenError duration | FnReturned "'e option"

text \<open>\<open>Execute\<close>: \<open>t1\<close> is read by \<open>allowRequest\<close>, \<open>t2\<close> by \<open>retryAfter\<close> or by
  \<open>recordResult\<close>; \<open>fn\<close> is the outcome of the protected call, \<open>None\<close> for a nil error.\<close>

definition Execute ::
  "gotime \<Rightarrow> gotime \<Rightarrow> 'e option \<Rightarrow> CircuitBreaker \<Rightarrow> 'e execResult \<times> CircuitBreaker" where
  "Execute t1 t2 fn cb =
     (let cb0 = cb\<lparr>requestCount := wrap64 (requestCount cb + 1)\<rparr>;
          (ok, cb1) = allowRequest t1 cb0 in
      if \<not> ok then (CircuitOpenError (retryAfter t2 cb1), cb1)
      else (FnReturned fn, recordResult t2 (fn = None) cb1))"

definition State :: "gotime \<Rightarrow> CircuitBreaker \<Rightarrow> CircuitState \<times> CircuitBreaker" where
  "State now cb =
     (let cb1 = (if state cb = Open \<and> RecoveryTimeout (config cb) \<le> time_Sub now (lastFailure cb)
                 then toHalfOpen cb else cb)
      in (state cb1, cb1))"

definition Reset :: "CircuitBreaker \<Rightarrow> CircuitBreaker" where
  "Reset cb = cb\<lparr>state := Closed, failures := [], successes := [],
     requestCount := 0, failureCount := 0, successCount := 0\<rparr>"

lemmas method_defs =
  allowRequest_def toHalfOpen_def cleanup_def recordResult_def Execute_def State_def Reset_def Let_def

section \<open>Interleaved execution\<close>

datatype breakerEvent =
    Admit gotime
  | Refuse gotime
  | Finish gotime bool
  | Observe gotime
  | ResetAll

inductive breaker_step ::
  "CircuitBreaker \<times> nat \<Rightarrow> breakerEvent \<Rightarrow> CircuitBreaker \<times> nat \<Rightarrow> bool" where
  admit: "allowRequest t (cb\<lparr>requestCount := wrap64 (requestCount cb + 1)\<rparr>) = (True, cb') \<Longrightarrow>
     breaker_step (cb, n) (Admit t) (cb', Suc n)"
| refuse: "allowRequest t (cb\<lparr>requestCount := wrap64 (requestCount cb + 1)\<rparr>) = (False, cb') \<Longrightarrow>
     breaker_step (cb, n) (Refuse t) (cb', n)"
| finish: "breaker_step (cb, Suc n) (Finish t ok) (recordResult t ok cb, n)"
| observe: "State t cb = (s, cb') \<Longrightarrow> breaker_step (cb, n) (Observe t) (cb', n)"
| reset: "breaker_step (cb, n) ResetAll (Reset cb, n)"

inductive breaker_reachable :: "Config \<Rightarrow> CircuitBreaker \<times> nat \<Rightarrow> bool" for cfg where
  start: "breaker_reachable cfg (NewCircuitBreaker (Some cfg), 0)"
| step: "breaker_reachable cfg s \<Longrightarrow> breaker_step s e s' \<Longrightarrow> breaker_reachable cfg s'"

inductive_cases breaker_stepE [elim!]: "breaker_step (cb, n) e (cb', n')"

definition breaker_inv :: "Config \<Rightarrow> CircuitBreaker \<Rightarrow> bool" where
  "breaker_inv cfg cb \<longleftrightarrow> config cb = cfg \<and>
     (state cb = Closed \<longrightarrow> int (length (failures cb)) < FailureThreshold cfg) \<and>
     (state cb = HalfOpen \<longrightarrow>
        failures cb = [] \<and> int (length (successes cb)) < SuccessThreshold cfg)"

section \<open>Lemmas\<close>

lemma config_simps [simp]:
  "config (cleanup t cb) = config cb" "config (recordResult t ok cb) = config cb"
  "config (Reset cb) = config cb" "config (toHalfOpen cb) = config cb"
  by (simp_all add: method_defs)

lemma state_cleanup [simp]: "state (cleanup t cb) = state cb"
  by (simp add: cleanup_def Let_def)

lemma cleanup_shrinks:
  "length (failures (cleanup t cb)) \<le> length (failures cb)"
  "length (successes (cleanup t cb)) \<le> length (successes cb)"
  by (simp_all add: cleanup_def Let_def)

lemma filter_eq_Nil_of: "xs = [] \<Longrightarrow> filter P xs = []"
  by simp

lemma breaker_inv_recordResult:
  assumes "breaker_inv cfg cb" and "0 < FailureThreshold cfg"
  shows "breaker_inv cfg (recordResult t ok cb)"
proof (cases ok)
  case True
  let ?cb1 = "cleanup t (cb\<lparr>successCount := wrap64 (successCount cb + 1),
                            successes := successes cb @ [t]\<rparr>)"
  have "length (failures ?cb1) \<le> length (failures cb)"
    using cleanup_shrinks(1)[of t "cb\<lparr>successCount := wrap64 (successCount cb + 1),
                            successes := successes cb @ [t]\<rparr>"] by simp
  with True assms show ?thesis
    by (auto simp: breaker_inv_def recordResult_def Let_def)
next
  case False
  with assms show ?thesis by (auto simp: breaker_inv_def recordResult_def Let_def)
qed

lemma breaker_inv_allowRequest:
  assumes "breaker_inv cfg cb" and "0 < SuccessThreshold cfg"
  shows "breaker_inv cfg (snd (allowRequest t cb))"
  using assms by (auto simp: breaker_inv_def allowRequest_def toHalfOpen_def split: CircuitState.splits)

lemma breaker_inv_requestCount [simp]:
  "breaker_inv cfg (cb\<lparr>requestCount := k\<rparr>) = breaker_inv cfg cb"
  by (simp add: breaker_inv_def)

lemma breaker_step_inv:
  assumes "breaker_step (cb, n) e (cb', n')" and "breaker_inv cfg cb"
    and "0 < FailureThreshold cfg" and "0 < SuccessThreshold cfg"
  shows "breaker_inv cfg cb'"
  using assms(1)
proof cases
  case (admit t)
  with breaker_inv_allowRequest[of cfg "cb\<lparr>requestCount := wrap64 (requestCount cb + 1)\<rparr>" t] assms
  show ?thesis by simp
next
  case (refuse t)
  with breaker_inv_allowRequest[of cfg "cb\<lparr>requestCount := wrap64 (requestCount cb + 1)\<rparr>" t] assms
  show ?thesis by simp
next
  case (finish t ok)
  with assms show ?thesis by (simp add: breaker_inv_recordResult)
next
  case (observe t s)
  with assms show ?thesis
    by (auto simp: breaker_inv_def State_def toHalfOpen_def Let_def split: if_splits)
next
  case reset
  with assms show ?thesis by (simp add: breaker_inv_def Reset_def)
qed

lemma breaker_reachable_inv_aux:
  assumes "breaker_reachable cfg s" and "0 < FailureThreshold cfg" and "0 < SuccessThreshold cfg"
  shows "breaker_inv cfg (fst s)"
  using assms(1)
proof induction
  case start
  show ?case using assms(2) by (simp add: breaker_inv_def NewCircuitBreaker_def)
next
  case (step s e s')
  then show ?case
    using breaker_step_inv[of "fst s" "snd s" e "fst s'" "snd s'"] assms(2,3) by simp
qed

text \<open>Runs of outcomes, each recorded at its own time.\<close>

definition runResults :: "bool \<Rightarrow> gotime list \<Rightarrow> CircuitBreaker \<Rightarrow> CircuitBreaker" where
  "runResults ok ts cb = foldl (\<lambda>cb t. recordResult t ok cb) cb ts"

text \<open>All times of the run lie in the window that ends at \<open>M\<close>.\<close>

definition inWindow :: "Config \<Rightarrow> gotime \<Rightarrow> gotime list \<Rightarrow> bool" where
  "inWindow cfg M ts \<longleftrightarrow> list_all (\<lambda>t. t \<le> M \<and> M - t < FailureWindow cfg) ts"

lemma cleanup_keeps:
  assumes "inWindow cfg M xs" and "in_int64 (FailureWindow cfg)" and "minInt64 < FailureWindow cfg"
    and "t \<le> M"
  shows "filter (\<lambda>u. time_After u (time_Add t (wrap64 (- FailureWindow cfg)))) xs = xs"
proof -
  have w: "wrap64 (- FailureWindow cfg) = - FailureWindow cfg"
    using assms(2,3) by (auto simp: in_int64_def minInt64_def maxInt64_def)
  show ?thesis
    using assms(1,4) by (auto simp: w inWindow_def list_all_iff time_defs intro!: filter_True)
qed

lemmas window_facts = inWindow_def cleanup_keeps

lemma runFailures_closed:
  assumes "state cb = Closed" and "config cb = cfg" and "inWindow cfg M (failures cb @ ts)"
    and "in_int64 (FailureWindow cfg)" and "minInt64 < FailureWindow cfg"
    and "int (length (failures cb @ ts)) < FailureThreshold cfg"
  shows "state (runResults False ts cb) = Closed \<and> config (runResults False ts cb) = cfg
     \<and> failures (runResults False ts cb) = failures cb @ ts"
  using assms(1-3,6)
proof (induction ts arbitrary: cb)
  case Nil
  then show ?case by (simp add: runResults_def)
next
  case (Cons t ts)
  let ?cb1 = "recordResult t False cb"
  have w: "inWindow cfg M (failures cb @ [t])" "t \<le> M"
    using Cons.prems(3) by (auto simp: inWindow_def)
  have f: "failures (cleanup t (cb\<lparr>failureCount := wrap64 (failureCount cb + 1), lastFailure := t,
             failures := failures cb @ [t]\<rparr>)) = failures cb @ [t]"
    using cleanup_keeps[OF w(1) assms(4,5) w(2)] Cons.prems(2) by (simp add: cleanup_def Let_def)
  have "state ?cb1 = Closed" "config ?cb1 = cfg" "failures ?cb1 = failures cb @ [t]"
    using Cons.prems(1,2,4) f by (auto simp: recordResult_def Let_def)
  then show ?case
    using Cons.IH[of ?cb1] Cons.prems(3,4) by (simp add: runResults_def)
qed

lemma runSuccesses_halfOpen:
  assumes "state cb = HalfOpen" and "config cb = cfg" and "inWindow cfg M (successes cb @ ts)"
    and "in_int64 (FailureWindow cfg)" and "minInt64 < FailureWindow cfg"
    and "int (length (successes cb @ ts)) < SuccessThreshold cfg"
  shows "state (runResults True ts cb) = HalfOpen \<and> config (runResults True ts cb) = cfg
     \<and> successes (runResults True ts cb) = successes cb @ ts"
  using assms(1-3,6)
proof (induction ts arbitrary: cb)
  case Nil
  then show ?case by (simp add: runResults_def)
next
  case (Cons t ts)
  let ?cb1 = "recordResult t True cb"
  have w: "inWindow cfg M (successes cb @ [t])" "t \<le> M"
    using Cons.prems(3) by (auto simp: inWindow_def)
  have f: "successes (cleanup t (cb\<lparr>successCount := wrap64 (successCount cb + 1),
             successes := successes cb @ [t]\<rparr>)) = successes cb @ [t]"
    using cleanup_keeps[OF w(1) assms(4,5) w(2)] Cons.prems(2) by (simp add: cleanup_def Let_def)
  have "state ?cb1 = HalfOpen" "config ?cb1 = cfg" "successes ?cb1 = successes cb @ [t]"
    using Cons.prems(1,2,4) f by (auto simp: recordResult_def Let_def)
  then show ?case
    using Cons.IH[of ?cb1] Cons.prems(3,4) by (simp add: runResults_def)
qed

lemma runResults_snoc: "runResults ok (ts @ [t]) cb = recordResult t ok (runResults ok ts cb)"
  by (simp add: runResults_def)

section \<open>Properties\<close>

text \<open>in every state that any interleaving of requests, results, state queries and
  resets can reach, a closed breaker holds fewer recorded failures than the failure
  threshold, and a half-open one holds no failure and fewer successes than the success
  threshold: the breaker never stays closed past its threshold.\<close>

theorem breaker_reachable_inv:
  assumes "breaker_reachable cfg s" and "0 < FailureThreshold cfg" and "0 < SuccessThreshold cfg"
  shows "breaker_inv cfg (fst s)"
  using assms by (rule breaker_reachable_inv_aux)

theorem breaker_reachable_inv_witness:
  "breaker_inv DefaultConfig
     (fst (recordResult 7 False (NewCircuitBreaker (Some DefaultConfig)\<lparr>requestCount := 1\<rparr>), 0::nat))"
proof -
  let ?c0 = "NewCircuitBreaker (Some DefaultConfig)"
  have "breaker_step (?c0, 0) (Admit 5) (?c0\<lparr>requestCount := 1\<rparr>, Suc 0)"
    by (rule admit) (simp add: allowRequest_def NewCircuitBreaker_def in_int64_def minInt64_def maxInt64_def)
  with breaker_reachable.start have "breaker_reachable DefaultConfig (?c0\<lparr>requestCount := 1\<rparr>, Suc 0)"
    by (rule breaker_reachable.step)
  then have r: "breaker_reachable DefaultConfig (recordResult 7 False (?c0\<lparr>requestCount := 1\<rparr>), 0)"
    by (rule breaker_reachable.step) (rule breaker_step.finish)
  show ?thesis
    by (rule breaker_reachable_inv [OF r]) (simp_all add: DefaultConfig_def)
qed

text \<open>failures trip the breaker. If a closed breaker without recorded failures sees as
  many failures as its threshold, all within one failure window, it is closed before the
  last of them and open after it, and it then refuses every request that arrives before
  the recovery timeout has passed since that last failure, without running the protected
  call.\<close>

theorem failures_trip_breaker:
  assumes "state cb = Closed" and "failures cb = []"
    and "inWindow (config cb) t (ts @ [t])"
    and "in_int64 (FailureWindow (config cb))" and "minInt64 < FailureWindow (config cb)"
    and "int (length (ts @ [t])) = FailureThreshold (config cb)"
    and "time_Sub t1 t < RecoveryTimeout (config cb)"
  shows "state (runResults False ts cb) = Closed
    \<and> state (runResults False (ts @ [t]) cb) = Open
    \<and> (\<exists>d cb'. Execute t1 t2 fn (runResults False (ts @ [t]) cb) = (CircuitOpenError d, cb')
         \<and> state cb' = Open)"
proof -
  let ?cb1 = "runResults False ts cb"
  let ?cb2 = "recordResult t False ?cb1"
  have w: "inWindow (config cb) t (failures cb @ ts)"
    using assms(2,3) by (simp add: inWindow_def)
  have one: "state ?cb1 = Closed" "config ?cb1 = config cb" "failures ?cb1 = ts"
    using runFailures_closed[OF assms(1) refl w assms(4,5)] assms(2,6) by simp_all
  have f: "failures (cleanup t (?cb1\<lparr>failureCount := wrap64 (failureCount ?cb1 + 1), lastFailure := t,
             failures := failures ?cb1 @ [t]\<rparr>)) = ts @ [t]"
    using cleanup_keeps[OF assms(3-5) order.refl] one by (simp add: cleanup_def Let_def)
  have two: "state ?cb2 = Open" "config ?cb2 = config cb" "lastFailure ?cb2 = t"
    using one f assms(6) by (auto simp: recordResult_def Let_def cleanup_def)
  then have "\<exists>d cb'. Execute t1 t2 fn ?cb2 = (CircuitOpenError d, cb') \<and> state cb' = Open"
    using assms(7) by (simp add: Execute_def allowRequest_def Let_def)
  with one two show ?thesis by (simp add: runResults_snoc)
qed

theorem failures_trip_breaker_witness:
  "state (runResults False [1, 2, 3, 4] (NewCircuitBreaker None)) = Closed
    \<and> state (runResults False ([1, 2, 3, 4] @ [5]) (NewCircuitBreaker None)) = Open
    \<and> (\<exists>d cb'. Execute 6 7 (None :: string option)
           (runResults False ([1, 2, 3, 4] @ [5]) (NewCircuitBreaker None)) = (CircuitOpenError d, cb')
         \<and> state cb' = Open)"
  by (rule failures_trip_breaker)
    (simp_all add: NewCircuitBreaker_def DefaultConfig_def inWindow_def in_int64_def minInt64_def
      maxInt64_def time_Sub_def)

text \<open>recovery. In half-open state as many successes as the success threshold, all
  within one window, close the breaker and forget its failures, whereas a single failure
  opens it again at once, whatever came before.\<close>

theorem half_open_recovers_or_reopens:
  assumes "state cb = HalfOpen" and "successes cb = []"
    and "inWindow (config cb) t (ts @ [t])"
    and "in_int64 (FailureWindow (config cb))" and "minInt64 < FailureWindow (config cb)"
    and "int (length (ts @ [t])) = SuccessThreshold (config cb)"
  shows "state (runResults True ts cb) = HalfOpen
    \<and> state (runResults True (ts @ [t]) cb) = Closed
    \<and> failures (runResults True (ts @ [t]) cb) = []
    \<and> state (recordResult u False (runResults True ts cb)) = Open"
proof -
  let ?cb1 = "runResults True ts cb"
  have w: "inWindow (config cb) t (successes cb @ ts)"
    using assms(2,3) by (simp add: inWindow_def)
  have one: "state ?cb1 = HalfOpen" "config ?cb1 = config cb" "successes ?cb1 = ts"
    using runSuccesses_halfOpen[OF assms(1) refl w assms(4,5)] assms(2,6) by simp_all
  have f: "successes (cleanup t (?cb1\<lparr>successCount := wrap64 (successCount ?cb1 + 1),
             successes := successes ?cb1 @ [t]\<rparr>)) = ts @ [t]"
    using cleanup_keeps[OF assms(3-5) order.refl] one by (simp add: cleanup_def Let_def)
  show ?thesis
    using one f assms(6) by (auto simp: runResults_snoc recordResult_def Let_def)
qed

theorem half_open_recovers_or_reopens_witness:
  "state (runResults True [1, 2] (toHalfOpen (NewCircuitBreaker None))) = HalfOpen
    \<and> state (runResults True ([1, 2] @ [3]) (toHalfOpen (NewCircuitBreaker None))) = Closed
    \<and> failures (runResults True ([1, 2] @ [3]) (toHalfOpen (NewCircuitBreaker None))) = []
    \<and> state (recordResult 9 False (runResults True [1, 2] (toHalfOpen (NewCircuitBreaker None)))) = Open"
  by (rule half_open_recovers_or_reopens)
    (simp_all add: NewCircuitBreaker_def DefaultConfig_def toHalfOpen_def inWindow_def in_int64_def
      minInt64_def maxInt64_def)



end
