(* ===== verification/Models.thy ===== *)
theory Models
  imports Field_Names "HOL-Library.AList"
begin

text \<open>
  The data model of \<open>internal/models/models.go\<close> as far as the modelled components use
  it: devices, thresholds, alarms, collected data and northbound commands as records;
  a value of Go type \<open>any\<close> as the datatype \<open>any\<close> with one constructor per dynamic type
  the sources distinguish; \<open>float64\<close> as its 64 IEEE-754 bits with the comparison
  operators on them, so that NaN, infinities and signed zeros behave as in Go.

  Three things come from outside the modelled code and are parameters, collected in the
  record \<open>golib\<close>: the Unicode case tables behind \<open>strings.ToLower\<close>/\<open>ToUpper\<close> for
  non-ASCII text, the decimal reader \<open>strconv.ParseFloat\<close> and the decimal printer
  \<open>strconv.FormatFloat\<close>.
\<close>

unbundle bit_operations_syntax

section \<open>float64\<close>

type_synonym float64 = "64 word"

record golib =
  uniLower :: "string \<Rightarrow> string"
  uniUpper :: "string \<Rightarrow> string"
  parseFloat :: "string \<Rightarrow> float64 option"
  formatFloat :: "nat \<Rightarrow> float64 \<Rightarrow> string"

definition f64_isNaN :: "float64 \<Rightarrow> bool" where
  "f64_isNaN w \<longleftrightarrow> take_bit 11 (drop_bit 52 w) = 0x7FF \<and> take_bit 52 w \<noteq> 0"

text \<open>Sign and magnitude as one integer: for two values that are not NaN the order of
  these integers is the IEEE order, and both zeros have key 0.\<close>

definition f64_key :: "float64 \<Rightarrow> int" where
  "f64_key w = (if bit w 63 then - uint (take_bit 63 w) else uint (take_bit 63 w))"

definition f64_lt :: "float64 \<Rightarrow> float64 \<Rightarrow> bool" where
  "f64_lt a b \<longleftrightarrow> \<not> f64_isNaN a \<and> \<not> f64_isNaN b \<and> f64_key a < f64_key b"

definition f64_le :: "float64 \<Rightarrow> float64 \<Rightarrow> bool" where
  "f64_le a b \<longleftrightarrow> \<not> f64_isNaN a \<and> \<not> f64_isNaN b \<and> f64_key a \<le> f64_key b"

definition f64_eq :: "float64 \<Rightarrow> float64 \<Rightarrow> bool" where
  "f64_eq a b \<longleftrightarrow> \<not> f64_isNaN a \<and> \<not> f64_isNaN b \<and> f64_key a = f64_key b"

lemmas f64_defs = f64_lt_def f64_le_def f64_eq_def

text \<open>The conversion \<open>float64(v)\<close> of an integer: round to nearest, ties to even.\<close>

fun bitlen :: "nat \<Rightarrow> nat" where
  "bitlen n = (if n < 2 then 0 else Suc (bitlen (n div 2)))"

declare bitlen.simps [simp del]

definition f64_of_nat :: "nat \<Rightarrow> nat" where
  "f64_of_nat n =
     (if n = 0 then 0
      else let e = bitlen n in
        if e \<le> 52 then (e + 1023) * 2 ^ 52 + (n * 2 ^ (52 - e) - 2 ^ 52)
        else let sh = e - 52; q = n div 2 ^ sh; r = n mod 2 ^ sh; half = 2 ^ (sh - 1);
                 q' = (if half < r \<or> (r = half \<and> odd q) then q + 1 else q)
             in (e + 1023) * 2 ^ 52 + (q' - 2 ^ 52))"

definition f64_of_int :: "int \<Rightarrow> float64" where
  "f64_of_int i = (if i < 0 then of_nat (2 ^ 63 + f64_of_nat (nat (- i))) else of_nat (f64_of_nat (nat i)))"

section \<open>Dynamic values\<close>

datatype intKind = KInt | KInt8 | KInt16 | KInt32 | KInt64
datatype uintKind = KUint | KUint8 | KUint16 | KUint32 | KUint64

text \<open>A \<open>float32\<close> is carried as its exact widening to \<open>float64\<close>; a value of any other
  type is carried as the text \<open>fmt.Sprintf\<close> gives it with the verb for default format.\<close>

datatype any =
    AnyNil
  | AnyString string
  | AnyBytes string
  | AnyBool bool
  | AnyInt intKind int
  | AnyUint uintKind nat
  | AnyFloat32 float64
  | AnyFloat64 float64
  | AnyOther string

definition FormatBool :: "bool \<Rightarrow> string" where
  "FormatBool b = (if b then ''true'' else ''false'')"

definition CollectPointValueString :: "golib \<Rightarrow> any \<Rightarrow> string" where
  "CollectPointValueString L v =
     (case v of
        AnyNil \<Rightarrow> []
      | AnyString s \<Rightarrow> s
      | AnyBytes s \<Rightarrow> s
      | AnyBool b \<Rightarrow> FormatBool b
      | AnyInt _ i \<Rightarrow> FormatInt i
      | AnyUint _ n \<Rightarrow> FormatUint n
      | AnyFloat32 f \<Rightarrow> formatFloat L 32 f
      | AnyFloat64 f \<Rightarrow> formatFloat L 64 f
      | AnyOther s \<Rightarrow> s)"

section \<open>Records\<close>

record Device =
  dev_ID :: int
  dev_Name :: string
  dev_Description :: string
  dev_ProductKey :: string
  dev_DeviceKey :: string
  dev_DriverType :: string
  dev_SerialPort :: string
  dev_BaudRate :: int
  dev_DataBits :: int
  dev_StopBits :: int
  dev_Parity :: string
  dev_IPAddress :: string
  dev_PortNum :: int
  dev_DeviceAddress :: string
  dev_CollectInterval :: int
  dev_StorageInterval :: int
  dev_Timeout :: int
  dev_DriverID :: "int option"
  dev_ResourceID :: "int option"
  dev_ResourceType :: string
  dev_Enabled :: int

record Threshold =
  th_ID :: int
  th_DeviceID :: int
  th_FieldName :: string
  th_Operator :: string
  th_Value :: float64
  th_Severity :: string
  th_Shielded :: int
  th_Message :: string

record AlarmLog =
  al_DeviceID :: int
  al_ThresholdID :: int
  al_FieldName :: string
  al_ActualValue :: float64
  al_ThresholdValue :: float64
  al_Operator :: string
  al_Severity :: string
  al_Message :: string

record AlarmPayload =
  ap_DeviceID :: int
  ap_DeviceName :: string
  ap_ProductKey :: string
  ap_DeviceKey :: string
  ap_FieldName :: string
  ap_ActualValue :: float64
  ap_Threshold :: float64
  ap_Operator :: string
  ap_Severity :: string
  ap_Message :: string

record CollectPoint =
  cp_FieldName :: string
  cp_Value :: any
  cp_RW :: string

type_synonym fieldMap = "(string \<times> string) list"

record CollectData =
  cd_DeviceID :: int
  cd_DeviceName :: string
  cd_ProductKey :: string
  cd_DeviceKey :: string
  cd_Timestamp :: gotime
  cd_Fields :: fieldMap
  cd_Points :: "CollectPoint list"
  cd_fieldsDone :: bool

record NorthboundCommand =
  nc_RequestID :: string
  nc_ProductKey :: string
  nc_DeviceKey :: string
  nc_FieldName :: string
  nc_Value :: string
  nc_Source :: string

record NorthboundCommandResult =
  nr_RequestID :: string
  nr_ProductKey :: string
  nr_DeviceKey :: string
  nr_FieldName :: string
  nr_Value :: string
  nr_Source :: string
  nr_Success :: bool
  nr_Code :: int
  nr_Message :: string

record DriverResult =
  dr_Success :: bool
  dr_Data :: fieldMap
  dr_Points :: "CollectPoint list"
  dr_ProductKey :: string
  dr_ProductKeyAlt :: string
  dr_Error :: string
  dr_Timestamp :: gotime

definition DefaultStorageIntervalSeconds :: int where
  "DefaultStorageIntervalSeconds = 300"

definition SystemStatsDeviceID :: int where
  "SystemStatsDeviceID = -1"

definition SystemStatsDeviceName :: string where
  "SystemStatsDeviceName = ''__system__''"

section \<open>Merging points into fields\<close>

fun mergePoints :: "golib \<Rightarrow> fieldMap \<Rightarrow> CollectPoint list \<Rightarrow> fieldMap" where
  "mergePoints L fs [] = fs"
| "mergePoints L fs (p # ps) =
     (let name = trimCollectFieldName (cp_FieldName p) in
      if name = [] then mergePoints L fs ps
      else mergePoints L (AList.update name (CollectPointValueString L (cp_Value p)) fs) ps)"

definition EnsureFields :: "golib \<Rightarrow> CollectData \<Rightarrow> fieldMap \<times> CollectData" where
  "EnsureFields L c =
     (if cd_Points c = [] \<or> cd_fieldsDone c then (cd_Fields c, c)
      else let fs = mergePoints L (cd_Fields c) (cd_Points c) in
        if fs = [] then ([], c)
        else (fs, c\<lparr>cd_Fields := fs, cd_fieldsDone := True\<rparr>))"

section \<open>Lemmas\<close>

lemma f64_trichotomy:
  "\<not> f64_isNaN a \<Longrightarrow> \<not> f64_isNaN b \<Longrightarrow>
     (f64_le b a \<longleftrightarrow> \<not> f64_lt a b) \<and> (f64_le a b \<longleftrightarrow> f64_lt a b \<or> f64_eq a b)"
  by (auto simp: f64_defs)

lemma mergePoints_append:
  "mergePoints L fs (ps @ qs) = mergePoints L (mergePoints L fs ps) qs"
  by (induction ps arbitrary: fs) (auto simp: Let_def)

text \<open>The value a field has after the merge: that of the last point whose trimmed name is
  the field, else the field's old value.\<close>

definition lastPoint :: "string \<Rightarrow> CollectPoint list \<Rightarrow> CollectPoint option" where
  "lastPoint k ps = find (\<lambda>p. trimCollectFieldName (cp_FieldName p) = k) (rev ps)"

lemma mergePoints_lookup:
  assumes "k \<noteq> []"
  shows "map_of (mergePoints L fs ps) k =
    (case lastPoint k ps of None \<Rightarrow> map_of fs k
     | Some p \<Rightarrow> Some (CollectPointValueString L (cp_Value p)))"
proof (induction ps rule: rev_induct)
  case Nil
  then show ?case by (simp add: lastPoint_def)
next
  case (snoc p ps)
  then show ?case
    using assms by (auto simp: mergePoints_append lastPoint_def update_conv' Let_def)
qed

lemma mergePoints_empty_key: "map_of (mergePoints L fs ps) [] = map_of fs []"
  by (induction ps arbitrary: fs) (auto simp: Let_def update_conv')

lemma EnsureFields_twice:
  "EnsureFields L (snd (EnsureFields L c)) = (fst (EnsureFields L c), snd (EnsureFields L c))"
  by (auto simp: EnsureFields_def Let_def)

end
