(* ===== verification/Alarm_State.thy ===== *)
theory Alarm_State
  imports Models
begin

text \<open>
  The alarm throttle of \<open>internal/collector/alarm_state.go\<close>: the package state
  \<open>alarmStates\<close> (two maps to the instant an alarm was last triggered), the call counter
  that decides when stale entries are pruned, the cached repeat interval, and every
  function of the file. The mutex makes each function one atomic step, so that a run of
  the package is a sequence of calls.

  Go compares the keys of \<open>alarmStates.data\<close> with \<open>==\<close>, which is IEEE equality on the
  field \<open>ThresholdValue\<close>: a key with a NaN is equal to no key, not even to itself. The
  map is therefore an association list read and written through \<open>alarmKeyEq\<close>.
  \<open>clock\<close> is the value \<open>time.Now()\<close> has when a function falls back to it.
\<close>

section \<open>Constants and state\<close>

definition defaultAlarmRepeatInterval :: duration where
  "defaultAlarmRepeatInterval = Minute"

definition alarmRepeatIntervalRefreshWindow :: duration where
  "alarmRepeatIntervalRefreshWindow = 5 * Second"

definition defaultAlarmStateTTL :: duration where
  "defaultAlarmStateTTL = 24 * Hour"

definition maxAlarmStateTTL :: duration where
  "maxAlarmStateTTL = 7 * 24 * Hour"

definition alarmStatePruneEveryCalls :: "64 word" where
  "alarmStatePruneEveryCalls = 512"

lemmas alarm_consts = defaultAlarmRepeatInterval_def alarmRepeatIntervalRefreshWindow_def
  defaultAlarmStateTTL_def maxAlarmStateTTL_def alarmStatePruneEveryCalls_def

record alarmStateKey =
  ak_DeviceID :: int
  ak_ThresholdID :: int
  ak_FieldName :: string
  ak_Operator :: string
  ak_ThresholdValue :: float64

record alarmStateIDKey =
  ik_DeviceID :: int
  ik_ThresholdID :: int

definition alarmKeyEq :: "alarmStateKey \<Rightarrow> alarmStateKey \<Rightarrow> bool" where
  "alarmKeyEq a b \<longleftrightarrow>
     ak_DeviceID a = ak_DeviceID b \<and> ak_ThresholdID a = ak_ThresholdID b \<and>
     ak_FieldName a = ak_FieldName b \<and> ak_Operator a = ak_Operator b \<and>
     f64_eq (ak_ThresholdValue a) (ak_ThresholdValue b)"

text \<open>The value type \<open>alarmState\<close> has the single field \<open>LastTriggered\<close>.\<close>

type_synonym alarmState = gotime

record alarmStore =
  as_data :: "(alarmStateKey \<times> alarmState) list"
  as_byID :: "(alarmStateIDKey \<times> alarmState) list"
  as_counter :: "64 word"
  as_valueNS :: int
  as_expiresAtNS :: int

definition initAlarmStore :: alarmStore where
  "initAlarmStore = \<lparr>as_data = [], as_byID = [], as_counter = 0, as_valueNS = 0, as_expiresAtNS = 0\<rparr>"

section \<open>Go maps under a given key equality\<close>

definition mapGet :: "('k \<Rightarrow> 'k \<Rightarrow> bool) \<Rightarrow> ('k \<times> 'v) list \<Rightarrow> 'k \<Rightarrow> 'v option" where
  "mapGet eq m k = map_option snd (find (\<lambda>e. eq (fst e) k) m)"

fun mapPut :: "('k \<Rightarrow> 'k \<Rightarrow> bool) \<Rightarrow> 'k \<Rightarrow> 'v \<Rightarrow> ('k \<times> 'v) list \<Rightarrow> ('k \<times> 'v) list" where
  "mapPut eq k v [] = [(k, v)]"
| "mapPut eq k v (e # m) = (if eq (fst e) k then (fst e, v) # m else e # mapPut eq k v m)"

definition mapDel :: "('k \<Rightarrow> 'k \<Rightarrow> bool) \<Rightarrow> 'k \<Rightarrow> ('k \<times> 'v) list \<Rightarrow> ('k \<times> 'v) list" where
  "mapDel eq k m = filter (\<lambda>e. \<not> eq (fst e) k) m"

text \<open>The loop \<open>for key, v := range m { if cond { delete(m, key); removed++ } }\<close>.\<close>

definition mapDelWhere ::
  "('k \<Rightarrow> 'k \<Rightarrow> bool) \<Rightarrow> ('k \<times> 'v \<Rightarrow> bool) \<Rightarrow> ('k \<times> 'v) list \<Rightarrow> ('k \<times> 'v) list \<times> nat" where
  "mapDelWhere eq cond m =
     fold (\<lambda>e (m', n). if cond e then (mapDel eq (fst e) m', Suc n) else (m', n)) m (m, 0)"

section \<open>Operations\<close>

definition buildAlarmStateKey :: "golib \<Rightarrow> int \<Rightarrow> Threshold option \<Rightarrow> alarmStateKey" where
  "buildAlarmStateKey L deviceID threshold =
     (case threshold of
        None \<Rightarrow> \<lparr>ak_DeviceID = deviceID, ak_ThresholdID = 0, ak_FieldName = [],
                 ak_Operator = [], ak_ThresholdValue = 0\<rparr>
      | Some th \<Rightarrow>
          if th_ID th > 0 then
            \<lparr>ak_DeviceID = deviceID, ak_ThresholdID = th_ID th, ak_FieldName = [],
             ak_Operator = [], ak_ThresholdValue = 0\<rparr>
          else
            \<lparr>ak_DeviceID = deviceID, ak_ThresholdID = 0,
             ak_FieldName = ToLower (uniLower L) (TrimSpace (th_FieldName th)),
             ak_Operator = TrimSpace (th_Operator th), ak_ThresholdValue = th_Value th\<rparr>)"

definition alarmStateIDFromKey :: "alarmStateKey \<Rightarrow> alarmStateIDKey option" where
  "alarmStateIDFromKey key =
     (if ak_ThresholdID key \<le> 0 then None
      else Some \<lparr>ik_DeviceID = ak_DeviceID key, ik_ThresholdID = ak_ThresholdID key\<rparr>)"

definition getAlarmStateLocked :: "alarmStore \<Rightarrow> alarmStateKey \<Rightarrow> alarmState option" where
  "getAlarmStateLocked s key =
     (case alarmStateIDFromKey key of
        Some idKey \<Rightarrow> mapGet (=) (as_byID s) idKey
      | None \<Rightarrow> mapGet alarmKeyEq (as_data s) key)"

definition setAlarmStateLocked :: "alarmStore \<Rightarrow> alarmStateKey \<Rightarrow> alarmState \<Rightarrow> alarmStore" where
  "setAlarmStateLocked s key st =
     (case alarmStateIDFromKey key of
        Some idKey \<Rightarrow> s\<lparr>as_byID := mapPut (=) idKey st (as_byID s)\<rparr>
      | None \<Rightarrow> s\<lparr>as_data := mapPut alarmKeyEq key st (as_data s)\<rparr>)"

definition hasAlarmStateLocked :: "alarmStore \<Rightarrow> alarmStateKey \<Rightarrow> bool" where
  "hasAlarmStateLocked s key =
     (case alarmStateIDFromKey key of
        Some idKey \<Rightarrow> mapGet (=) (as_byID s) idKey \<noteq> None
      | None \<Rightarrow> mapGet alarmKeyEq (as_data s) key \<noteq> None)"

text \<open>\<open>dbReady\<close> tells whether \<open>database.ParamDB\<close> is set and \<open>loaded\<close> is what
  \<open>database.GetAlarmRepeatIntervalSeconds\<close> answers, \<open>None\<close> being its error.\<close>

definition resolveAlarmRepeatInterval ::
  "bool \<Rightarrow> int \<Rightarrow> int option \<Rightarrow> alarmStore \<Rightarrow> duration \<times> alarmStore" where
  "resolveAlarmRepeatInterval dbReady nowNS loaded s =
     (if \<not> dbReady then (defaultAlarmRepeatInterval, s)
      else if as_valueNS s > 0 \<and> nowNS < as_expiresAtNS s then (as_valueNS s, s)
      else let resolved = (case loaded of
                  None \<Rightarrow> defaultAlarmRepeatInterval
                | Some seconds \<Rightarrow> if seconds > 0 then wrap64 (seconds * Second)
                                   else defaultAlarmRepeatInterval)
           in (resolved, s\<lparr>as_valueNS := resolved,
                 as_expiresAtNS := wrap64 (nowNS + alarmRepeatIntervalRefreshWindow)\<rparr>))"

definition resolveAlarmStateTTL :: "duration \<Rightarrow> duration" where
  "resolveAlarmStateTTL repeatInterval =
     (let ttl = defaultAlarmStateTTL;
          ttl = (if repeatInterval > 0 then
                   let candidate = wrap64 (repeatInterval * 120)
                   in if candidate > ttl then candidate else ttl
                 else ttl)
      in if ttl > maxAlarmStateTTL then maxAlarmStateTTL else ttl)"

definition alarmStale :: "gotime \<Rightarrow> duration \<Rightarrow> alarmState \<Rightarrow> bool" where
  "alarmStale now ttl st \<longleftrightarrow> IsZero st \<or> time_Sub now st > ttl"

definition pruneAlarmStatesLocked ::
  "gotime \<Rightarrow> alarmStore \<Rightarrow> gotime \<Rightarrow> duration \<Rightarrow> nat \<times> alarmStore" where
  "pruneAlarmStatesLocked clock s now ttl =
     (let now = (if IsZero now then clock else now);
          ttl = (if ttl \<le> 0 then defaultAlarmStateTTL else ttl);
          (d, r1) = mapDelWhere alarmKeyEq (\<lambda>e. alarmStale now ttl (snd e)) (as_data s);
          (b, r2) = mapDelWhere (=) (\<lambda>e. alarmStale now ttl (snd e)) (as_byID s)
      in (r1 + r2, s\<lparr>as_data := d, as_byID := b\<rparr>))"

definition maybePruneAlarmStates ::
  "gotime \<Rightarrow> alarmStore \<Rightarrow> gotime \<Rightarrow> duration \<Rightarrow> alarmStore" where
  "maybePruneAlarmStates clock s now repeatInterval =
     (let s = s\<lparr>as_counter := as_counter s + 1\<rparr>
      in if as_counter s mod alarmStatePruneEveryCalls \<noteq> 0 then s
         else snd (pruneAlarmStatesLocked clock s now (resolveAlarmStateTTL repeatInterval)))"

definition InvalidateAlarmRepeatIntervalCache :: "alarmStore \<Rightarrow> alarmStore" where
  "InvalidateAlarmRepeatIntervalCache s = s\<lparr>as_valueNS := 0, as_expiresAtNS := 0\<rparr>"

definition shouldEmitAlarmForIDKey ::
  "gotime \<Rightarrow> alarmStore \<Rightarrow> alarmStateIDKey \<Rightarrow> gotime \<Rightarrow> duration \<Rightarrow> bool \<times> alarmStore" where
  "shouldEmitAlarmForIDKey clock s key now repeatInterval =
     (let now = (if IsZero now then clock else now);
          repeatInterval = (if repeatInterval \<le> 0 then defaultAlarmRepeatInterval else repeatInterval);
          found = mapGet (=) (as_byID s) key
      in if (case found of
               None \<Rightarrow> False
             | Some st \<Rightarrow> \<not> IsZero st \<and> time_Sub now st < repeatInterval)
         then (False, s)
         else (True, s\<lparr>as_byID := mapPut (=) key now (as_byID s)\<rparr>))"

definition shouldEmitAlarmForKey ::
  "gotime \<Rightarrow> alarmStore \<Rightarrow> alarmStateKey \<Rightarrow> gotime \<Rightarrow> duration \<Rightarrow> bool \<times> alarmStore" where
  "shouldEmitAlarmForKey clock s key now repeatInterval =
     (let now = (if IsZero now then clock else now);
          repeatInterval = (if repeatInterval \<le> 0 then defaultAlarmRepeatInterval else repeatInterval)
      in case alarmStateIDFromKey key of
           Some idKey \<Rightarrow> shouldEmitAlarmForIDKey clock s idKey now repeatInterval
         | None \<Rightarrow>
             let emit = (case getAlarmStateLocked s key of
                           None \<Rightarrow> True
                         | Some st \<Rightarrow> IsZero st \<or> time_Sub now st \<ge> repeatInterval)
             in if \<not> emit then (False, s) else (True, setAlarmStateLocked s key now))"

definition shouldEmitAlarm ::
  "golib \<Rightarrow> gotime \<Rightarrow> alarmStore \<Rightarrow> int \<Rightarrow> Threshold option \<Rightarrow> bool \<Rightarrow> gotime \<Rightarrow> duration
     \<Rightarrow> bool \<times> alarmStore" where
  "shouldEmitAlarm L clock s deviceID threshold matched now repeatInterval =
     (if threshold = None then (False, s)
      else let now = (if IsZero now then clock else now);
               repeatInterval = (if repeatInterval \<le> 0 then defaultAlarmRepeatInterval else repeatInterval);
               s = maybePruneAlarmStates clock s now repeatInterval
           in if \<not> matched then (False, s)
              else shouldEmitAlarmForKey clock s (buildAlarmStateKey L deviceID threshold) now repeatInterval)"

definition clearAlarmStateForDevice :: "alarmStore \<Rightarrow> int \<Rightarrow> alarmStore" where
  "clearAlarmStateForDevice s deviceID =
     s\<lparr>as_data := fst (mapDelWhere alarmKeyEq (\<lambda>e. ak_DeviceID (fst e) = deviceID) (as_data s)),
       as_byID := fst (mapDelWhere (=) (\<lambda>e. ik_DeviceID (fst e) = deviceID) (as_byID s))\<rparr>"

section \<open>Maps with a partial equivalence as key equality\<close>

text \<open>Go's \<open>==\<close> on a key type is symmetric and transitive, but not reflexive where the type
  has floating-point fields. That is all the map operations need.\<close>

locale go_map_key =
  fixes eq :: "'k \<Rightarrow> 'k \<Rightarrow> bool"
  assumes eq_sym: "eq a b \<Longrightarrow> eq b a"
    and eq_trans: "eq a b \<Longrightarrow> eq b c \<Longrightarrow> eq a c"
begin

definition keysOK :: "('k \<times> 'v) list \<Rightarrow> bool" where
  "keysOK m \<longleftrightarrow> sorted_wrt (\<lambda>a b. \<not> eq (fst a) (fst b)) m"

lemma keysOK_Nil [simp]: "keysOK []"
  by (simp add: keysOK_def)

lemma eq_cong: "eq a b \<Longrightarrow> eq a c \<longleftrightarrow> eq b c"
  using eq_sym eq_trans by blast

lemma eq_self: "eq a b \<Longrightarrow> eq b b" "eq a b \<Longrightarrow> eq a a"
  using eq_sym eq_trans by blast+

lemma get_put: "mapGet eq (mapPut eq k v m) k' = (if eq k k' then Some v else mapGet eq m k')"
proof (induction m)
  case (Cons e m)
  have "\<not> (\<not> eq (fst e) k \<and> eq (fst e) k' \<and> eq k k')"
    using eq_sym eq_trans by blast
  moreover have "eq (fst e) k \<Longrightarrow> eq (fst e) k' = eq k k'" by (rule eq_cong)
  ultimately show ?case using Cons by (cases "eq (fst e) k"; cases "eq k k'"; simp add: mapGet_def)
qed (simp add: mapGet_def)

lemma put_keys: "e \<in> set (mapPut eq k v m) \<Longrightarrow> fst e = k \<or> fst e \<in> fst ` set m"
  by (induction m) (auto split: if_splits)

lemma put_keysOK: "keysOK m \<Longrightarrow> keysOK (mapPut eq k v m)"
proof (induction m)
  case Nil
  then show ?case by (simp add: keysOK_def)
next
  case (Cons e m)
  then show ?case
    by (auto simp: keysOK_def dest!: put_keys)
qed

lemma delWhere_fold:
  "fst (fold (\<lambda>e (m', n). if cond e then (mapDel eq (fst e) m', Suc n) else (m', n)) es (m, n))
     = filter (\<lambda>e. \<not> (\<exists>e'\<in>set es. cond e' \<and> eq (fst e) (fst e'))) m"
  by (induction es arbitrary: m n) (auto simp: mapDel_def intro: filter_cong)

lemma delWhere_filter:
  "fst (mapDelWhere eq cond m) = filter (\<lambda>e. \<not> (\<exists>e'\<in>set m. cond e' \<and> eq (fst e) (fst e'))) m"
  unfolding mapDelWhere_def by (rule delWhere_fold)

lemma delWhere_keysOK: "keysOK m \<Longrightarrow> keysOK (fst (mapDelWhere eq cond m))"
  unfolding delWhere_filter by (simp add: keysOK_def sorted_wrt_filter)

lemma keysOK_same:
  assumes "keysOK m" and "e \<in> set m" and "e' \<in> set m" and "eq (fst e) (fst e')"
  shows "e = e'"
  using assms by (induction m) (auto simp: keysOK_def dest: eq_sym)

lemma find_filter_keep: "find P m = Some e \<Longrightarrow> Q e \<Longrightarrow> find P (filter Q m) = Some e"
  by (induction m) (auto split: if_splits)

lemma find_filter_None: "find P m = None \<Longrightarrow> find P (filter Q m) = None"
  by (auto simp: find_None_iff)

lemma get_delWhere_keep:
  assumes ok: "keysOK m" and get: "mapGet eq m k = Some v"
    and keep: "\<And>k'. eq k' k \<Longrightarrow> \<not> cond (k', v)"
  shows "mapGet eq (fst (mapDelWhere eq cond m)) k = Some v"
proof -
  obtain k0 where f: "find (\<lambda>e. eq (fst e) k) m = Some (k0, v)"
    using get by (auto simp: mapGet_def)
  then have mem: "(k0, v) \<in> set m" and k0: "eq k0 k"
    by (auto simp: find_Some_iff dest: nth_mem) (metis fst_conv)
  have "\<not> (\<exists>e'\<in>set m. cond e' \<and> eq (fst (k0, v)) (fst e'))"
    using keysOK_same[OF ok mem] keep[OF k0] by blast
  then show ?thesis
    using find_filter_keep[OF f, of "\<lambda>e. \<not> (\<exists>e'\<in>set m. cond e' \<and> eq (fst e) (fst e'))"]
    by (simp add: mapGet_def delWhere_filter)
qed

lemma get_delWhere_None:
  "mapGet eq m k = None \<Longrightarrow> mapGet eq (fst (mapDelWhere eq cond m)) k = None"
  by (auto simp: mapGet_def delWhere_filter find_filter_None)

lemma get_Some_iff: "keysOK m \<Longrightarrow> mapGet eq m k = Some v \<longleftrightarrow> (\<exists>k0. (k0, v) \<in> set m \<and> eq k0 k)"
proof
  assume "mapGet eq m k = Some v"
  then obtain k0 where "find (\<lambda>e. eq (fst e) k) m = Some (k0, v)" by (auto simp: mapGet_def)
  then show "\<exists>k0. (k0, v) \<in> set m \<and> eq k0 k"
    by (auto simp: find_Some_iff) (metis fst_conv nth_mem)
next
  assume ok: "keysOK m" and "\<exists>k0. (k0, v) \<in> set m \<and> eq k0 k"
  then obtain k0 where k0: "(k0, v) \<in> set m" "eq k0 k" by blast
  then obtain e where e: "find (\<lambda>e. eq (fst e) k) m = Some e"
    by (cases "find (\<lambda>e. eq (fst e) k) m") (auto simp: find_None_iff)
  then have "e \<in> set m" "eq (fst e) k" by (auto simp: find_Some_iff)
  then have "e = (k0, v)"
    using keysOK_same[OF ok _ k0(1)] k0(2) eq_sym eq_trans by (metis fst_conv)
  with e show "mapGet eq m k = Some v" by (simp add: mapGet_def)
qed

lemma get_delWhere_weak:
  assumes "keysOK m"
  shows "mapGet eq (fst (mapDelWhere eq cond m)) k = None \<or>
         mapGet eq (fst (mapDelWhere eq cond m)) k = mapGet eq m k"
proof (cases "mapGet eq (fst (mapDelWhere eq cond m)) k")
  case (Some v)
  then obtain k0 where "(k0, v) \<in> set (fst (mapDelWhere eq cond m))" "eq k0 k"
    using get_Some_iff[OF delWhere_keysOK[OF assms]] by blast
  then have "mapGet eq m k = Some v"
    using get_Some_iff[OF assms] by (auto simp: delWhere_filter)
  with Some show ?thesis by simp
qed simp

lemma get_delWhere_stale:
  assumes "keysOK m" and "mapGet eq m k = Some v" and "\<And>k'. cond (k', v)"
  shows "mapGet eq (fst (mapDelWhere eq cond m)) k = None"
proof (rule ccontr)
  assume "mapGet eq (fst (mapDelWhere eq cond m)) k \<noteq> None"
  then have "mapGet eq (fst (mapDelWhere eq cond m)) k = Some v"
    using get_delWhere_weak[OF assms(1), of cond k] assms(2) by auto
  then obtain k0 where "(k0, v) \<in> set (fst (mapDelWhere eq cond m))" "eq k0 k"
    using get_Some_iff[OF delWhere_keysOK[OF assms(1)]] by blast
  then show False using assms(3) eq_self(2)[of k0 k] by (auto simp: delWhere_filter)
qed

lemma get_same: "eq k k' \<Longrightarrow> mapGet eq m k = mapGet eq m k'"
  unfolding mapGet_def using eq_sym eq_trans by (metis (lifting))

lemma get_delWhere_gone:
  assumes "eq k k" and "\<And>k' v. eq k' k \<Longrightarrow> cond (k', v)"
  shows "mapGet eq (fst (mapDelWhere eq cond m)) k = None"
  using assms eq_self by (force simp: mapGet_def delWhere_filter find_None_iff)

lemma get_irrefl: "\<not> eq k k \<Longrightarrow> mapGet eq m k = None"
  using eq_self(1) by (fastforce simp: mapGet_def find_None_iff)

end

interpretation idMap: go_map_key "(=) :: alarmStateIDKey \<Rightarrow> alarmStateIDKey \<Rightarrow> bool"
  by unfold_locales auto

interpretation keyMap: go_map_key alarmKeyEq
  by unfold_locales (auto simp: alarmKeyEq_def f64_eq_def)

section \<open>Throttling, over an interface\<close>

datatype 'k throttleOp = OpEmit 'k gotime | OpPrune gotime | OpClear int

text \<open>The alarms a sequence of calls lets through, as pairs of key and instant.\<close>

fun throttleRun ::
  "('s \<Rightarrow> 'k \<Rightarrow> gotime \<Rightarrow> duration \<Rightarrow> bool \<times> 's) \<Rightarrow> ('s \<Rightarrow> gotime \<Rightarrow> duration \<Rightarrow> 's) \<Rightarrow>
   ('s \<Rightarrow> int \<Rightarrow> 's) \<Rightarrow> duration \<Rightarrow> 's \<Rightarrow> 'k throttleOp list \<Rightarrow> ('k \<times> gotime) list" where
  "throttleRun emit prune clear ri s [] = []"
| "throttleRun emit prune clear ri s (OpEmit k t # ops) =
     (let (b, s') = emit s k t ri; rest = throttleRun emit prune clear ri s' ops
      in if b then (k, t) # rest else rest)"
| "throttleRun emit prune clear ri s (OpPrune t # ops) =
     throttleRun emit prune clear ri (prune s t ri) ops"
| "throttleRun emit prune clear ri s (OpClear d # ops) =
     throttleRun emit prune clear ri (clear s d) ops"

text \<open>The instants of the calls never go back.\<close>

fun timesFrom :: "gotime \<Rightarrow> 'k throttleOp list \<Rightarrow> bool" where
  "timesFrom t0 [] = True"
| "timesFrom t0 (OpEmit k t # ops) = (t0 \<le> t \<and> timesFrom t ops)"
| "timesFrom t0 (OpPrune t # ops) = (t0 \<le> t \<and> timesFrom t ops)"
| "timesFrom t0 (OpClear d # ops) = timesFrom t0 ops"

definition emissionsOf :: "('k \<Rightarrow> 'k \<Rightarrow> bool) \<Rightarrow> 'k \<Rightarrow> ('k \<times> gotime) list \<Rightarrow> gotime list" where
  "emissionsOf same k es = map snd (filter (\<lambda>e. same (fst e) k) es)"

definition spaced :: "duration \<Rightarrow> gotime list \<Rightarrow> bool" where
  "spaced ri ts \<longleftrightarrow> sorted_wrt (\<lambda>a b. a + ri \<le> b) ts"

text \<open>What a throttle promises: a call for a key lets the alarm through exactly when the key
  has no entry or its entry is at least the interval old, and then stores the instant;
  pruning keeps an entry that is still inside the window; clearing a device leaves the
  keys of other devices alone. The law holds for intervals up to \<open>limit\<close>.\<close>

locale throttle =
  fixes inv :: "'s \<Rightarrow> bool"
    and get :: "'s \<Rightarrow> 'k \<Rightarrow> gotime option"
    and emit :: "'s \<Rightarrow> 'k \<Rightarrow> gotime \<Rightarrow> duration \<Rightarrow> bool \<times> 's"
    and prune :: "'s \<Rightarrow> gotime \<Rightarrow> duration \<Rightarrow> 's"
    and clear :: "'s \<Rightarrow> int \<Rightarrow> 's"
    and same :: "'k \<Rightarrow> 'k \<Rightarrow> bool"
    and dev :: "'k \<Rightarrow> int"
    and limit :: duration
  assumes emit_inv: "inv s \<Longrightarrow> inv (snd (emit s k t ri))"
    and prune_inv: "inv s \<Longrightarrow> inv (prune s t ri)"
    and clear_inv: "inv s \<Longrightarrow> inv (clear s d)"
    and get_same: "same k k' \<Longrightarrow> get s k = get s k'"
    and emit_fst: "0 < t \<Longrightarrow> 0 < ri \<Longrightarrow> ri \<le> limit \<Longrightarrow>
      fst (emit s k t ri) = (case get s k of None \<Rightarrow> True | Some u \<Rightarrow> u = 0 \<or> ri \<le> t - u)"
    and emit_get: "0 < t \<Longrightarrow> 0 < ri \<Longrightarrow>
      get (snd (emit s k t ri)) k' = (if fst (emit s k t ri) \<and> same k k' then Some t else get s k')"
    and prune_keep: "inv s \<Longrightarrow> 0 < t \<Longrightarrow> 0 < ri \<Longrightarrow> ri \<le> limit \<Longrightarrow> get s k = Some u \<Longrightarrow>
      u \<noteq> 0 \<Longrightarrow> t - u \<le> ri \<Longrightarrow> get (prune s t ri) k = Some u"
    and prune_weak: "inv s \<Longrightarrow> get (prune s t ri) k = None \<or> get (prune s t ri) k = get s k"
    and clear_other: "inv s \<Longrightarrow> dev k \<noteq> d \<Longrightarrow> get (clear s d) k = get s k"
begin

text \<open>\<open>lo\<close> is a lower bound of the instant of the key's next alarm.\<close>

lemma emissions_spaced_from:
  assumes "0 < ri" and "ri \<le> limit"
  shows "inv s \<Longrightarrow> 0 < t0 \<Longrightarrow> timesFrom t0 ops \<Longrightarrow> OpClear (dev k) \<notin> set ops \<Longrightarrow>
    (case get s k of None \<Rightarrow> lo \<le> t0 | Some u \<Rightarrow> 0 < u \<and> lo \<le> u + ri) \<Longrightarrow>
    (\<forall>t\<in>set (emissionsOf same k (throttleRun emit prune clear ri s ops)). lo \<le> t) \<and>
    spaced ri (emissionsOf same k (throttleRun emit prune clear ri s ops))"
proof (induction ops arbitrary: s t0 lo)
  case Nil
  then show ?case by (simp add: emissionsOf_def spaced_def)
next
  case (Cons op ops)
  show ?case
  proof (cases op)
    case (OpEmit k' t)
    let ?s' = "snd (emit s k' t ri)"
    have t: "t0 \<le> t" "0 < t" using Cons.prems OpEmit by auto
    note get' = emit_get[OF t(2) assms(1), of s k' k]
    show ?thesis
    proof (cases "fst (emit s k' t ri) \<and> same k' k")
      case True
      then have "lo \<le> t"
        using emit_fst[OF t(2) assms, of s k'] get_same[of k' k s] Cons.prems(5) t(1)
        by (auto split: option.splits)
      moreover have
        "(\<forall>t'\<in>set (emissionsOf same k (throttleRun emit prune clear ri ?s' ops)). t + ri \<le> t') \<and>
         spaced ri (emissionsOf same k (throttleRun emit prune clear ri ?s' ops))"
        using Cons.IH[of ?s' t "t + ri"] Cons.prems OpEmit t get' True emit_inv by auto
      moreover have "emissionsOf same k (throttleRun emit prune clear ri s (op # ops)) =
          t # emissionsOf same k (throttleRun emit prune clear ri ?s' ops)"
        using OpEmit True by (simp add: emissionsOf_def case_prod_beta Let_def)
      ultimately show ?thesis
        using assms(1) by (fastforce simp: spaced_def)
    next
      case False
      then have "get ?s' k = get s k" using get' by auto
      then have "case get ?s' k of None \<Rightarrow> lo \<le> t | Some u \<Rightarrow> 0 < u \<and> lo \<le> u + ri"
        using Cons.prems(5) t(1) by (cases "get s k") auto
      from Cons.IH[OF emit_inv[OF Cons.prems(1)] t(2) _ _ this] Cons.prems(3,4) OpEmit
      have "(\<forall>t'\<in>set (emissionsOf same k (throttleRun emit prune clear ri ?s' ops)). lo \<le> t') \<and>
         spaced ri (emissionsOf same k (throttleRun emit prune clear ri ?s' ops))" by simp
      moreover have "emissionsOf same k (throttleRun emit prune clear ri s (op # ops)) =
          emissionsOf same k (throttleRun emit prune clear ri ?s' ops)"
        using OpEmit False by (auto simp: emissionsOf_def case_prod_beta Let_def)
      ultimately show ?thesis by simp
    qed
  next
    case (OpPrune t)
    have t: "t0 \<le> t" "0 < t" using Cons.prems OpPrune by auto
    have "case get (prune s t ri) k of None \<Rightarrow> lo \<le> t | Some u \<Rightarrow> 0 < u \<and> lo \<le> u + ri"
      using prune_weak[OF Cons.prems(1), of t ri k] prune_keep[OF Cons.prems(1) t(2) assms, of k]
        Cons.prems(5) t(1) by (cases "get s k") fastforce+
    then show ?thesis
      using Cons.IH[of "prune s t ri" t lo] Cons.prems OpPrune t prune_inv by simp
  next
    case (OpClear d)
    then show ?thesis
      using Cons.IH[of "clear s d" t0 lo] Cons.prems clear_other[OF Cons.prems(1), of k d] clear_inv
      by simp
  qed
qed

lemma emissions_spaced:
  assumes "0 < ri" and "ri \<le> limit" and "inv s" and "get s k = None" and "0 < t0"
    and "timesFrom t0 ops" and "OpClear (dev k) \<notin> set ops"
  shows "spaced ri (emissionsOf same k (throttleRun emit prune clear ri s ops))"
  using emissions_spaced_from[OF assms(1,2,3,5,6,7), of t0] assms(4) by simp

end

section \<open>The store as a throttle\<close>

definition storeOK :: "alarmStore \<Rightarrow> bool" where
  "storeOK s \<longleftrightarrow> idMap.keysOK (as_byID s) \<and> keyMap.keysOK (as_data s)"

definition alarmKeySame :: "alarmStateKey \<Rightarrow> alarmStateKey \<Rightarrow> bool" where
  "alarmKeySame a b =
     (case (alarmStateIDFromKey a, alarmStateIDFromKey b) of
        (Some i, Some j) \<Rightarrow> i = j
      | (None, None) \<Rightarrow> alarmKeyEq a b
      | _ \<Rightarrow> False)"

lemma resolveAlarmStateTTL_bounds_aux:
  "defaultAlarmStateTTL \<le> resolveAlarmStateTTL ri \<and> resolveAlarmStateTTL ri \<le> maxAlarmStateTTL"
  by (auto simp: resolveAlarmStateTTL_def Let_def alarm_consts)

lemma resolveAlarmStateTTL_covers:
  assumes "0 < ri" and "ri \<le> maxAlarmStateTTL"
  shows "ri \<le> resolveAlarmStateTTL ri"
proof -
  have "in_int64 (ri * 120)"
    using assms by (simp add: alarm_consts in_int64_def minInt64_def maxInt64_def)
  then show ?thesis
    using assms by (auto simp: resolveAlarmStateTTL_def Let_def alarm_consts)
qed

lemma prune_id_get:
  assumes "storeOK s" and "0 < ri" and "ri \<le> maxAlarmStateTTL" and "0 < t"
  shows "mapGet (=) (as_byID s) i = Some u \<Longrightarrow> u \<noteq> 0 \<Longrightarrow> t - u \<le> ri \<Longrightarrow>
           mapGet (=) (as_byID (maybePruneAlarmStates clock s t ri)) i = Some u"
    and "mapGet alarmKeyEq (as_data s) k = Some u \<Longrightarrow> u \<noteq> 0 \<Longrightarrow> t - u \<le> ri \<Longrightarrow>
           mapGet alarmKeyEq (as_data (maybePruneAlarmStates clock s t ri)) k = Some u"
proof -
  let ?ttl = "resolveAlarmStateTTL ri"
  have ttl: "0 < ?ttl" "ri \<le> ?ttl" "?ttl < maxInt64"
    using resolveAlarmStateTTL_covers[OF assms(2,3)] assms(2) resolveAlarmStateTTL_bounds_aux[of ri]
    by (auto simp: maxInt64_def alarm_consts)
  have fresh: "\<not> alarmStale t ?ttl u" if "u \<noteq> 0" "t - u \<le> ri" for u
    using that ttl by (auto simp: alarmStale_def time_defs minInt64_def)
  show "mapGet (=) (as_byID s) i = Some u \<Longrightarrow> u \<noteq> 0 \<Longrightarrow> t - u \<le> ri \<Longrightarrow>
           mapGet (=) (as_byID (maybePruneAlarmStates clock s t ri)) i = Some u"
    using idMap.get_delWhere_keep[of "as_byID s" i u] assms ttl(1) fresh
    by (auto simp: maybePruneAlarmStates_def pruneAlarmStatesLocked_def Let_def storeOK_def
        case_prod_beta IsZero_def)
  show "mapGet alarmKeyEq (as_data s) k = Some u \<Longrightarrow> u \<noteq> 0 \<Longrightarrow> t - u \<le> ri \<Longrightarrow>
           mapGet alarmKeyEq (as_data (maybePruneAlarmStates clock s t ri)) k = Some u"
    using keyMap.get_delWhere_keep[of "as_data s" k u] assms ttl(1) fresh
    by (auto simp: maybePruneAlarmStates_def pruneAlarmStatesLocked_def Let_def storeOK_def
        case_prod_beta IsZero_def)
qed

lemmas alarm_ops = maybePruneAlarmStates_def pruneAlarmStatesLocked_def clearAlarmStateForDevice_def
  shouldEmitAlarmForKey_def shouldEmitAlarmForIDKey_def setAlarmStateLocked_def
  getAlarmStateLocked_def Let_def case_prod_beta

lemma maybePrune_cases:
  "\<exists>c c'. (as_byID (maybePruneAlarmStates clock s t ri) = as_byID s \<or>
           as_byID (maybePruneAlarmStates clock s t ri) = fst (mapDelWhere (=) c (as_byID s))) \<and>
          (as_data (maybePruneAlarmStates clock s t ri) = as_data s \<or>
           as_data (maybePruneAlarmStates clock s t ri) = fst (mapDelWhere alarmKeyEq c' (as_data s)))"
  unfolding maybePruneAlarmStates_def pruneAlarmStatesLocked_def Let_def case_prod_beta
  by (simp split: if_splits) blast

lemma storeOK_preserved:
  assumes "storeOK s"
  shows "storeOK (snd (shouldEmitAlarmForIDKey clock s i t ri))"
    and "storeOK (snd (shouldEmitAlarmForKey clock s k t ri))"
    and "storeOK (maybePruneAlarmStates clock s t ri)"
    and "storeOK (clearAlarmStateForDevice s d)"
proof -
  show id: "storeOK (snd (shouldEmitAlarmForIDKey clock s i t ri))" for i t ri
    using assms by (simp add: shouldEmitAlarmForIDKey_def Let_def storeOK_def idMap.put_keysOK)
  show "storeOK (snd (shouldEmitAlarmForKey clock s k t ri))"
    using assms id
    by (simp add: shouldEmitAlarmForKey_def setAlarmStateLocked_def Let_def storeOK_def
        keyMap.put_keysOK split: option.split)
  show "storeOK (maybePruneAlarmStates clock s t ri)"
    using maybePrune_cases[of clock s t ri] assms
    unfolding storeOK_def by (metis idMap.delWhere_keysOK keyMap.delWhere_keysOK)
  show "storeOK (clearAlarmStateForDevice s d)"
    using assms
    by (simp add: clearAlarmStateForDevice_def storeOK_def idMap.delWhere_keysOK keyMap.delWhere_keysOK)
qed

lemma prune_weak_get:
  assumes "storeOK s"
  shows "mapGet (=) (as_byID (maybePruneAlarmStates clock s t ri)) i = None \<or>
         mapGet (=) (as_byID (maybePruneAlarmStates clock s t ri)) i = mapGet (=) (as_byID s) i"
    and "mapGet alarmKeyEq (as_data (maybePruneAlarmStates clock s t ri)) k = None \<or>
         mapGet alarmKeyEq (as_data (maybePruneAlarmStates clock s t ri)) k = mapGet alarmKeyEq (as_data s) k"
  using assms maybePrune_cases[of clock s t ri]
  unfolding storeOK_def by (metis idMap.get_delWhere_weak, metis keyMap.get_delWhere_weak)

lemma clear_other_get:
  assumes "storeOK s"
  shows "ik_DeviceID i \<noteq> d \<Longrightarrow>
           mapGet (=) (as_byID (clearAlarmStateForDevice s d)) i = mapGet (=) (as_byID s) i"
    and "ak_DeviceID k \<noteq> d \<Longrightarrow>
           mapGet alarmKeyEq (as_data (clearAlarmStateForDevice s d)) k = mapGet alarmKeyEq (as_data s) k"
proof -
  show "mapGet (=) (as_byID (clearAlarmStateForDevice s d)) i = mapGet (=) (as_byID s) i"
    if "ik_DeviceID i \<noteq> d"
    using that assms idMap.get_delWhere_keep[of "as_byID s" i] idMap.get_delWhere_None[of "as_byID s" i]
    by (cases "mapGet (=) (as_byID s) i") (auto simp: clearAlarmStateForDevice_def storeOK_def)
  show "mapGet alarmKeyEq (as_data (clearAlarmStateForDevice s d)) k = mapGet alarmKeyEq (as_data s) k"
    if "ak_DeviceID k \<noteq> d"
    using that assms keyMap.get_delWhere_keep[of "as_data s" k] keyMap.get_delWhere_None[of "as_data s" k]
    by (cases "mapGet alarmKeyEq (as_data s) k")
      (auto simp: clearAlarmStateForDevice_def storeOK_def alarmKeyEq_def)
qed

lemma maxTTL_small: "ri \<le> maxAlarmStateTTL \<Longrightarrow> ri \<le> maxInt64"
  by (simp add: alarm_consts maxInt64_def)

interpretation byIDThrottle: throttle storeOK "\<lambda>s. mapGet (=) (as_byID s)"
  "shouldEmitAlarmForIDKey clock" "maybePruneAlarmStates clock" clearAlarmStateForDevice
  "(=)" ik_DeviceID maxAlarmStateTTL
  for clock
proof (unfold_locales, goal_cases)
  case (5 t ri s k)
  then show ?case
    using maxTTL_small[of ri]
    by (auto simp: shouldEmitAlarmForIDKey_def Let_def time_defs minInt64_def split: option.splits)
next
  case (6 t ri s k k')
  then show ?case
    by (auto simp: shouldEmitAlarmForIDKey_def Let_def IsZero_def idMap.get_put)
qed (auto simp: storeOK_preserved prune_id_get clear_other_get prune_weak_get)

lemma alarmKeySame_cases:
  "alarmKeySame a b \<Longrightarrow>
     (\<exists>i. alarmStateIDFromKey a = Some i \<and> alarmStateIDFromKey b = Some i) \<or>
     (alarmStateIDFromKey a = None \<and> alarmStateIDFromKey b = None \<and> alarmKeyEq a b)"
  by (auto simp: alarmKeySame_def split: option.splits)

lemma keyEq_ID: "alarmKeyEq a b \<Longrightarrow> alarmStateIDFromKey a = alarmStateIDFromKey b"
  by (simp add: alarmKeyEq_def alarmStateIDFromKey_def)

lemma emitForKey_fst:
  assumes "0 < t" and "0 < ri" and "ri \<le> maxAlarmStateTTL"
  shows "fst (shouldEmitAlarmForKey clock s k t ri) =
    (case getAlarmStateLocked s k of None \<Rightarrow> True | Some u \<Rightarrow> u = 0 \<or> ri \<le> t - u)"
proof (cases "alarmStateIDFromKey k")
  case None
  with assms show ?thesis
    using maxTTL_small[OF assms(3)]
    by (auto simp: shouldEmitAlarmForKey_def Let_def getAlarmStateLocked_def time_defs minInt64_def
        split: option.split)
next
  case (Some i)
  with assms show ?thesis
    by (simp add: shouldEmitAlarmForKey_def Let_def getAlarmStateLocked_def IsZero_def
        byIDThrottle.emit_fst)
qed

lemma emitForKey_get:
  assumes "0 < t" and "0 < ri"
  shows "getAlarmStateLocked (snd (shouldEmitAlarmForKey clock s k t ri)) k' =
    (if fst (shouldEmitAlarmForKey clock s k t ri) \<and> alarmKeySame k k' then Some t
     else getAlarmStateLocked s k')"
proof (cases "alarmStateIDFromKey k")
  case None
  with assms show ?thesis
    by (auto simp: shouldEmitAlarmForKey_def Let_def getAlarmStateLocked_def setAlarmStateLocked_def
        IsZero_def alarmKeySame_def keyMap.get_put split: option.split)
next
  case (Some i)
  then have *: "shouldEmitAlarmForKey clock s k t ri = shouldEmitAlarmForIDKey clock s i t ri"
    using assms by (simp add: shouldEmitAlarmForKey_def Let_def IsZero_def)
  have data: "as_data (snd (shouldEmitAlarmForIDKey clock s i t ri)) = as_data s"
    by (simp add: shouldEmitAlarmForIDKey_def Let_def)
  show ?thesis
    unfolding * using Some byIDThrottle.emit_get[OF assms, of clock s i] data
    by (auto simp: getAlarmStateLocked_def alarmKeySame_def split: option.split)
qed

interpretation keyThrottle: throttle storeOK getAlarmStateLocked
  "shouldEmitAlarmForKey clock" "maybePruneAlarmStates clock" clearAlarmStateForDevice
  alarmKeySame ak_DeviceID maxAlarmStateTTL
  for clock
proof (unfold_locales, goal_cases)
  case (4 k k' s)
  then show ?case
    using keyMap.get_same[of k k' "as_data s"]
    by (auto simp: getAlarmStateLocked_def dest!: alarmKeySame_cases)
next
  case (7 s t ri k u)
  then show ?case
    using prune_id_get[of s ri t] by (auto simp: getAlarmStateLocked_def split: option.splits)
next
  case (8 s t ri k)
  then show ?case
    using prune_weak_get[of s] by (auto simp: getAlarmStateLocked_def split: option.split)
next
  case (9 s k d)
  then show ?case
    using clear_other_get[of s]
    by (auto simp: getAlarmStateLocked_def alarmStateIDFromKey_def split: option.split)
qed (simp_all add: storeOK_preserved emitForKey_fst emitForKey_get)

lemma initAlarmStore_OK: "storeOK initAlarmStore" and
  initAlarmStore_get: "getAlarmStateLocked initAlarmStore k = None"
  by (simp_all add: storeOK_def initAlarmStore_def getAlarmStateLocked_def mapGet_def
      idMap.keysOK_def keyMap.keysOK_def split: option.split)

lemma emit_first:
  assumes "getAlarmStateLocked s k = None"
  shows "fst (shouldEmitAlarmForKey clock s k t r)"
proof (cases "alarmStateIDFromKey k")
  case None
  with assms show ?thesis by (simp add: shouldEmitAlarmForKey_def Let_def)
next
  case (Some i)
  with assms have "mapGet (=) (as_byID s) i = None" by (simp add: getAlarmStateLocked_def)
  with Some show ?thesis by (simp add: shouldEmitAlarmForKey_def shouldEmitAlarmForIDKey_def Let_def)
qed

lemma shouldEmitAlarm_steps:
  "t \<noteq> 0 \<Longrightarrow> 0 < ri \<Longrightarrow> shouldEmitAlarm L clock s d (Some th) True t ri =
     shouldEmitAlarmForKey clock (maybePruneAlarmStates clock s t ri) (buildAlarmStateKey L d (Some th)) t ri"
  by (simp add: shouldEmitAlarm_def Let_def IsZero_def)

section \<open>Properties\<close>



text \<open>a repeat interval above seven days is not honoured. \<open>resolveAlarmStateTTL\<close> cuts the
  life of an entry at \<open>maxAlarmStateTTL\<close>, so on the call that prunes (every 512th) an
  entry older than that is dropped and the same threshold alarms again, although less than the
  repeat interval has passed since its last alarm.\<close>

theorem long_interval_forgotten:
  assumes "storeOK s" and "maxAlarmStateTTL < ri"
    and "(as_counter s + 1) mod alarmStatePruneEveryCalls = 0"
    and "getAlarmStateLocked s (buildAlarmStateKey L d (Some th)) = Some u" and "0 < u"
    and "maxAlarmStateTTL < now - u" and "now - u < ri"
  shows "fst (shouldEmitAlarm L clock s d (Some th) True now ri)"
proof -
  let ?k = "buildAlarmStateKey L d (Some th)"
  let ?p = "maybePruneAlarmStates clock s now ri"
  let ?ttl = "resolveAlarmStateTTL ri"
  have now: "0 < now" and ri: "0 < ri" and ttl: "0 < ?ttl" "?ttl \<le> maxAlarmStateTTL"
    using assms(2,5,6) resolveAlarmStateTTL_bounds_aux[of ri] by (auto simp: alarm_consts)
  have stale: "alarmStale now ?ttl u"
    using assms(6) ttl(2) by (auto simp: alarmStale_def time_defs alarm_consts maxInt64_def minInt64_def)
  have p: "as_data ?p = fst (mapDelWhere alarmKeyEq (\<lambda>e. alarmStale now ?ttl (snd e)) (as_data s))"
      "as_byID ?p = fst (mapDelWhere (=) (\<lambda>e. alarmStale now ?ttl (snd e)) (as_byID s))"
    using assms(3) now ttl
    by (simp_all add: maybePruneAlarmStates_def pruneAlarmStatesLocked_def Let_def case_prod_beta IsZero_def)
  have ok: "idMap.keysOK (as_byID s)" "keyMap.keysOK (as_data s)"
    using assms(1) by (auto simp: storeOK_def)
  have "getAlarmStateLocked ?p ?k = None"
  proof (cases "alarmStateIDFromKey ?k")
    case None
    then show ?thesis
      using assms(4) keyMap.get_delWhere_stale[OF ok(2), of ?k u] stale p by (simp add: getAlarmStateLocked_def)
  next
    case (Some i)
    then show ?thesis
      using assms(4) idMap.get_delWhere_stale[OF ok(1), of i u] stale p by (simp add: getAlarmStateLocked_def)
  qed
  then show ?thesis
    using shouldEmitAlarm_steps[of now ri L clock s d th] now ri emit_first by simp
qed

theorem long_interval_forgotten_witness:
  "fst (shouldEmitAlarm \<lparr>uniLower = id, uniUpper = id, parseFloat = \<lambda>_. None, formatFloat = \<lambda>_ _. []\<rparr> 1
     (initAlarmStore\<lparr>as_counter := 511,
        as_byID := [(\<lparr>ik_DeviceID = 1, ik_ThresholdID = 7\<rparr>, 1)]\<rparr>) 1
     (Some \<lparr>th_ID = 7, th_DeviceID = 1, th_FieldName = ''temp'', th_Operator = ''>'', th_Value = 0,
            th_Severity = [], th_Shielded = 0, th_Message = []\<rparr>) True
     (1 + 8 * 24 * Hour) (30 * 24 * Hour))"
  by (rule long_interval_forgotten [where u = 1])
    (simp_all add: storeOK_def initAlarmStore_def idMap.keysOK_def alarm_consts mapGet_def
      getAlarmStateLocked_def buildAlarmStateKey_def alarmStateIDFromKey_def)

text \<open>clearing a device's alarm state re-arms it: the next matching check of any threshold
  of that device raises the alarm at once, whatever the repeat interval, and the
  entries of all other devices are as before.\<close>

theorem clear_rearms_device:
  assumes "storeOK s"
  shows "fst (shouldEmitAlarm L clock (clearAlarmStateForDevice s d) d (Some th) True now ri)
    \<and> (ak_DeviceID k \<noteq> d \<longrightarrow>
        getAlarmStateLocked (clearAlarmStateForDevice s d) k = getAlarmStateLocked s k)"
proof
  define c where "c = clearAlarmStateForDevice s d"
  define t r where "t = (if IsZero now then clock else now)"
    and "r = (if ri \<le> 0 then defaultAlarmRepeatInterval else ri)"
  let ?k = "buildAlarmStateKey L d (Some th)"
  have ok: "storeOK c" using assms storeOK_preserved(4) by (simp add: c_def)
  have dev: "ak_DeviceID ?k = d" by (simp add: buildAlarmStateKey_def)
  have "getAlarmStateLocked c ?k = None"
  proof (cases "alarmStateIDFromKey ?k")
    case None
    have "mapGet alarmKeyEq (as_data c) ?k = None"
    proof (cases "alarmKeyEq ?k ?k")
      case True
      then show ?thesis
        using dev unfolding c_def clearAlarmStateForDevice_def
        by (simp, intro keyMap.get_delWhere_gone) (auto simp: alarmKeyEq_def)
    qed (rule keyMap.get_irrefl)
    with None show ?thesis by (simp add: getAlarmStateLocked_def)
  next
    case (Some i)
    then have "ik_DeviceID i = d" using dev by (auto simp: alarmStateIDFromKey_def split: if_splits)
    then show ?thesis
      using Some unfolding getAlarmStateLocked_def c_def clearAlarmStateForDevice_def
      by (simp, intro idMap.get_delWhere_gone) auto
  qed
  then have "getAlarmStateLocked (maybePruneAlarmStates clock c t r) ?k = None"
    using keyThrottle.prune_weak[OF ok, of clock t r ?k] by auto
  then have "fst (shouldEmitAlarmForKey clock (maybePruneAlarmStates clock c t r) ?k t r)"
    by (rule emit_first)
  then show "fst (shouldEmitAlarm L clock (clearAlarmStateForDevice s d) d (Some th) True now ri)"
    by (simp add: shouldEmitAlarm_def Let_def t_def r_def c_def)
  show "ak_DeviceID k \<noteq> d \<longrightarrow>
      getAlarmStateLocked (clearAlarmStateForDevice s d) k = getAlarmStateLocked s k"
    using keyThrottle.clear_other[OF assms] by blast
qed

theorem clear_rearms_device_witness:
  "\<exists>s L th. \<not> fst (shouldEmitAlarm L 1 s 1 (Some th) True 101 Minute) \<and>
     fst (shouldEmitAlarm L 1 (clearAlarmStateForDevice s 1) 1 (Some th) True 101 Minute)"
proof -
  define s where "s = initAlarmStore\<lparr>as_byID := [(\<lparr>ik_DeviceID = 1, ik_ThresholdID = 7\<rparr>, 100)]\<rparr>"
  define L where "L = \<lparr>uniLower = id, uniUpper = id, parseFloat = \<lambda>_. None, formatFloat = \<lambda>_ _. []\<rparr>"
  define th where "th = \<lparr>th_ID = 7, th_DeviceID = 1, th_FieldName = ''temp'', th_Operator = ''>'',
    th_Value = 0, th_Severity = [], th_Shielded = 0, th_Message = []\<rparr>"
  have "storeOK s" by (simp add: s_def storeOK_def initAlarmStore_def idMap.keysOK_def)
  from clear_rearms_device [OF this, of L 1 1 th 101 Minute]
  have "fst (shouldEmitAlarm L 1 (clearAlarmStateForDevice s 1) 1 (Some th) True 101 Minute)" by blast
  moreover have "\<not> fst (shouldEmitAlarm L 1 s 1 (Some th) True 101 Minute)"
    by (simp add: s_def L_def th_def shouldEmitAlarm_def alarm_ops initAlarmStore_def alarm_consts
        buildAlarmStateKey_def alarmStateIDFromKey_def mapGet_def time_defs minInt64_def maxInt64_def)
  ultimately show ?thesis by blast
qed

text \<open>The life of an entry is between a day and a week for every repeat interval,
  negative, zero or so large that \<open>repeatInterval * 120\<close> overflows \<open>int64\<close>; and for
  intervals up to a week it is never shorter than the interval.\<close>

theorem alarm_ttl_bounds:
  "defaultAlarmStateTTL \<le> resolveAlarmStateTTL ri \<and> resolveAlarmStateTTL ri \<le> maxAlarmStateTTL \<and>
   (0 < ri \<and> ri \<le> maxAlarmStateTTL \<longrightarrow> ri \<le> resolveAlarmStateTTL ri)"
  using resolveAlarmStateTTL_bounds_aux resolveAlarmStateTTL_covers by blast

theorem alarm_ttl_bounds_witness:
  "3 * 24 * Hour \<le> resolveAlarmStateTTL (3 * 24 * Hour) \<and> resolveAlarmStateTTL Minute = defaultAlarmStateTTL"
  using alarm_ttl_bounds [of "3 * 24 * Hour"]
  by (simp add: alarm_consts) (simp add: resolveAlarmStateTTL_def alarm_consts wrap64_def)

end
