(* ===== verification/Threshold_Check.thy ===== *)
theory Threshold_Check
  imports Alarm_State
begin

text \<open>
  Threshold evaluation: \<open>internal/collector/threshold_eval.go\<close>, \<open>threshold_cache.go\<close> and
  \<open>threshold_check.go\<close>.
  \<^item> \<open>numericFieldLookup\<close> finds the number behind a field name in one collected sample. Its
    lazily built maps are \<open>option\<close>s, \<open>None\<close> being Go's nil map. A \<open>range\<close> loop over the map
    \<open>pointRaw\<close> visits the keys in an order Go does not fix: \<open>ord\<close> is that order. The
    field map \<open>raw\<close> is an association list in the order its loop visits it. The maps come
    from a \<open>sync.Pool\<close>; \<open>poolOK\<close> is the invariant that a pooled map is empty.
  \<^item> \<open>thresholdCache\<close> caches the thresholds of each device with their evaluation rules. The
    database's answers are an argument, \<open>thresholdDB\<close>, in which \<open>None\<close> is an error and a
    list element \<open>None\<close> a nil pointer.
  \<^item> \<open>checkThresholds\<close> evaluates the rules of a device on a sample, throttles the alarms
    through \<open>Alarm_State\<close> and returns what it does to the outside: alarm log rows and
    northbound alarms.
\<close>

section \<open>Comparison\<close>

definition thresholdMatch :: "float64 \<Rightarrow> string \<Rightarrow> float64 \<Rightarrow> bool" where
  "thresholdMatch val operator threshold =
     (if operator = ''>'' then f64_lt threshold val
      else if operator = ''<'' then f64_lt val threshold
      else if operator = ''>='' then f64_le threshold val
      else if operator = ''<='' then f64_le val threshold
      else if operator = ''=='' then f64_eq val threshold
      else if operator = ''!='' then \<not> f64_eq val threshold
      else False)"

section \<open>Pools\<close>

text \<open>\<open>sync.Pool.Get\<close> returns any pooled map, or a new one: \<open>pick\<close> chooses.\<close>

type_synonym 'v mapPool = "(string \<times> 'v) list list"

definition acquireMap :: "nat option \<Rightarrow> 'v mapPool \<Rightarrow> (string \<times> 'v) list \<times> 'v mapPool" where
  "acquireMap pick pool =
     (case pick of
        Some i \<Rightarrow> if i < length pool then (pool ! i, take i pool @ drop (Suc i) pool) else ([], pool)
      | None \<Rightarrow> ([], pool))"

definition releaseMap :: "(string \<times> 'v) list option \<Rightarrow> 'v mapPool \<Rightarrow> 'v mapPool" where
  "releaseMap m pool =
     (case m of None \<Rightarrow> pool
      | Some es \<Rightarrow> fold (\<lambda>key m'. AList.delete key m') (map fst es) es # pool)"

definition poolOK :: "'v mapPool \<Rightarrow> bool" where
  "poolOK pool \<longleftrightarrow> list_all (\<lambda>m. m = []) pool"

section \<open>The lookup\<close>

record numericFieldLookup =
  nl_raw :: fieldMap
  nl_points :: "CollectPoint list"
  nl_normalized :: "fieldMap option"
  nl_parsed :: "(string \<times> float64) list option"
  nl_invalid :: "string list option"
  nl_pointRaw :: "(string \<times> any) list option"
  nl_pointNorm :: "(string \<times> any) list option"

definition newNumericFieldLookup :: "fieldMap \<Rightarrow> CollectPoint list \<Rightarrow> numericFieldLookup" where
  "newNumericFieldLookup fs ps =
     \<lparr>nl_raw = fs, nl_points = ps, nl_normalized = None, nl_parsed = None, nl_invalid = None,
      nl_pointRaw = None, nl_pointNorm = None\<rparr>"

definition release_lookup :: "numericFieldLookup \<Rightarrow> numericFieldLookup" where
  "release_lookup l = l\<lparr>nl_normalized := None, nl_parsed := None, nl_invalid := None,
     nl_pointRaw := None, nl_pointNorm := None\<rparr>"

abbreviation lower :: "golib \<Rightarrow> string \<Rightarrow> string" where
  "lower L \<equiv> ToLower (uniLower L)"

definition normalizeFieldName :: "golib \<Rightarrow> string \<Rightarrow> string" where
  "normalizeFieldName L field =
     (let field = trimCollectorText field in if field = [] then [] else lower L field)"

definition prepareLookupKeys :: "golib \<Rightarrow> string \<Rightarrow> string \<Rightarrow> (string \<times> string) option" where
  "prepareLookupKeys L field normalized =
     (let trimmed = trimCollectorText field in
      if trimmed = [] then None
      else let normalized = (if normalized = [] then lower L trimmed else normalized)
           in if normalized \<noteq> [] then Some (trimmed, normalized) else None)"

definition getCachedFloat :: "numericFieldLookup \<Rightarrow> string \<Rightarrow> string \<Rightarrow> float64 option" where
  "getCachedFloat l primaryKey fallbackKey =
     (case nl_parsed l of None \<Rightarrow> None
      | Some m \<Rightarrow>
          (case (if primaryKey \<noteq> [] then map_of m primaryKey else None) of
             Some v \<Rightarrow> Some v
           | None \<Rightarrow> if fallbackKey \<noteq> [] \<and> fallbackKey \<noteq> primaryKey then map_of m fallbackKey else None))"

definition isKnownInvalid :: "numericFieldLookup \<Rightarrow> string \<Rightarrow> string \<Rightarrow> bool" where
  "isKnownInvalid l primaryKey fallbackKey =
     (case nl_invalid l of None \<Rightarrow> False
      | Some m \<Rightarrow> (primaryKey \<noteq> [] \<and> primaryKey \<in> set m) \<or>
                  (fallbackKey \<noteq> [] \<and> fallbackKey \<noteq> primaryKey \<and> fallbackKey \<in> set m))"

definition cacheParsedFloat :: "numericFieldLookup \<Rightarrow> string \<Rightarrow> float64 \<Rightarrow> numericFieldLookup" where
  "cacheParsedFloat l key val =
     (if key = [] then l
      else l\<lparr>nl_parsed := Some (AList.update key val (case nl_parsed l of None \<Rightarrow> [] | Some m \<Rightarrow> m))\<rparr>)"

definition cacheInvalidFloat :: "numericFieldLookup \<Rightarrow> string \<Rightarrow> numericFieldLookup" where
  "cacheInvalidFloat l key =
     (if key = [] then l
      else l\<lparr>nl_invalid := Some (List.insert key (case nl_invalid l of None \<Rightarrow> [] | Some m \<Rightarrow> m))\<rparr>)"

text \<open>Insert the pairs whose key is not empty, keeping the first value of each key.\<close>

fun insertFirst :: "(string \<times> 'v) list \<Rightarrow> (string \<times> 'v) list \<Rightarrow> (string \<times> 'v) list" where
  "insertFirst m [] = m"
| "insertFirst m ((k, v) # es) =
     (if k = [] then insertFirst m es
      else if map_of m k \<noteq> None then insertFirst m es
      else insertFirst (AList.update k v m) es)"

definition ensurePointRaw :: "numericFieldLookup \<Rightarrow> numericFieldLookup" where
  "ensurePointRaw l =
     (if nl_points l = [] \<or> nl_pointRaw l \<noteq> None then l
      else l\<lparr>nl_pointRaw := Some (insertFirst []
               (map (\<lambda>p. (trimCollectorText (cp_FieldName p), cp_Value p)) (nl_points l)))\<rparr>)"

type_synonym mapOrder = "(string \<times> any) list \<Rightarrow> (string \<times> any) list"

definition ensurePointNormalized :: "golib \<Rightarrow> mapOrder \<Rightarrow> numericFieldLookup \<Rightarrow> numericFieldLookup" where
  "ensurePointNormalized L ord l =
     (if nl_points l = [] \<or> nl_pointNorm l \<noteq> None then l
      else let l = ensurePointRaw l
           in l\<lparr>nl_pointNorm := Some (insertFirst []
                  (map (\<lambda>(name, val). (lower L name, val))
                       (ord (case nl_pointRaw l of None \<Rightarrow> [] | Some m \<Rightarrow> m))))\<rparr>)"

definition mapLookup :: "(string \<times> 'v) list option \<Rightarrow> string \<Rightarrow> 'v option" where
  "mapLookup m k = (case m of None \<Rightarrow> None | Some es \<Rightarrow> map_of es k)"

definition getPointRawValue ::
  "golib \<Rightarrow> mapOrder \<Rightarrow> numericFieldLookup \<Rightarrow> string \<Rightarrow> string
     \<Rightarrow> (string \<times> string) option \<times> numericFieldLookup" where
  "getPointRawValue L ord l field normalized =
     (if nl_points l = [] then (None, l)
      else let l = ensurePointRaw l in
        case mapLookup (nl_pointRaw l) field of
          Some raw \<Rightarrow> (Some (field, CollectPointValueString L raw), l)
        | None \<Rightarrow>
            let l = ensurePointNormalized L ord l in
            (case mapLookup (nl_pointNorm l) normalized of
               None \<Rightarrow> (None, l)
             | Some raw \<Rightarrow> (Some (normalized, CollectPointValueString L raw), l)))"

definition ensureNormalized :: "golib \<Rightarrow> numericFieldLookup \<Rightarrow> numericFieldLookup" where
  "ensureNormalized L l =
     (if nl_normalized l \<noteq> None then l
      else l\<lparr>nl_normalized := Some (insertFirst []
               (map (\<lambda>(key, candidate). (normalizeFieldName L key, candidate)) (nl_raw l)))\<rparr>)"

definition getRawValueWithNormalized ::
  "golib \<Rightarrow> mapOrder \<Rightarrow> numericFieldLookup \<Rightarrow> string \<Rightarrow> string
     \<Rightarrow> (string \<times> string) option \<times> numericFieldLookup" where
  "getRawValueWithNormalized L ord l field normalized =
     (case prepareLookupKeys L field normalized of
        None \<Rightarrow> (None, l)
      | Some (trimmed, normalizedKey) \<Rightarrow>
          if nl_raw l \<noteq> [] then
            (case map_of (nl_raw l) trimmed of
               Some val \<Rightarrow> (Some (trimmed, val), l)
             | None \<Rightarrow>
                 let l = ensureNormalized L l in
                 (case mapLookup (nl_normalized l) normalizedKey of
                    Some val \<Rightarrow> (Some (normalizedKey, val), l)
                  | None \<Rightarrow> getPointRawValue L ord l trimmed normalizedKey))
          else getPointRawValue L ord l trimmed normalizedKey)"

text \<open>The result is the number, if the value has one, and whether it is worth caching.\<close>

definition parseNumericPointValue :: "golib \<Rightarrow> any \<Rightarrow> float64 option \<times> bool" where
  "parseNumericPointValue L v =
     (case v of
        AnyFloat64 f \<Rightarrow> (Some f, False)
      | AnyFloat32 f \<Rightarrow> (Some f, False)
      | AnyInt _ i \<Rightarrow> (Some (f64_of_int i), False)
      | AnyUint _ n \<Rightarrow> (Some (f64_of_int (int n)), False)
      | AnyString s \<Rightarrow> (parseFloat L (TrimSpace s), True)
      | AnyBytes s \<Rightarrow> (parseFloat L (TrimSpace s), True)
      | _ \<Rightarrow> (None, True))"

text \<open>The three stages of \<open>getFloatByPreparedKeys\<close>, last first: the text of the field or point, the
  point with the normalised name, the point with the exact name after the caches.\<close>

definition getFloatFromText ::
  "golib \<Rightarrow> mapOrder \<Rightarrow> string \<Rightarrow> string \<Rightarrow> numericFieldLookup \<Rightarrow> string
     \<Rightarrow> float64 option \<times> numericFieldLookup" where
  "getFloatFromText L ord trimmed normalizedKey l pointInvalidKey =
     (case getRawValueWithNormalized L ord l trimmed normalizedKey of
        (None, l) \<Rightarrow> (None, cacheInvalidFloat l pointInvalidKey)
      | (Some (cacheKey, valueStr), l) \<Rightarrow>
          (case getCachedFloat l cacheKey normalizedKey of
             Some v \<Rightarrow> (Some v, l)
           | None \<Rightarrow>
               if isKnownInvalid l cacheKey normalizedKey then (None, l)
               else case parseFloat L (TrimSpace valueStr) of
                      None \<Rightarrow> (None, cacheInvalidFloat l
                                (if cacheKey = [] then pointInvalidKey else cacheKey))
                    | Some v \<Rightarrow> (Some v, cacheParsedFloat l cacheKey v)))"

definition getFloatFromNorm ::
  "golib \<Rightarrow> mapOrder \<Rightarrow> string \<Rightarrow> string \<Rightarrow> numericFieldLookup \<Rightarrow> string
     \<Rightarrow> float64 option \<times> numericFieldLookup" where
  "getFloatFromNorm L ord trimmed normalizedKey l pointInvalidKey =
     (let l = ensurePointNormalized L ord l in
      case mapLookup (nl_pointNorm l) normalizedKey of
        None \<Rightarrow> getFloatFromText L ord trimmed normalizedKey l pointInvalidKey
      | Some raw \<Rightarrow>
          (case parseNumericPointValue L raw of
             (Some v, cacheable) \<Rightarrow>
               (Some v, if cacheable then cacheParsedFloat l normalizedKey v else l)
           | (None, _) \<Rightarrow>
               getFloatFromText L ord trimmed normalizedKey l
                 (if pointInvalidKey = [] then normalizedKey else pointInvalidKey)))"

definition getFloatByPreparedKeys ::
  "golib \<Rightarrow> mapOrder \<Rightarrow> numericFieldLookup \<Rightarrow> string \<Rightarrow> string
     \<Rightarrow> float64 option \<times> numericFieldLookup" where
  "getFloatByPreparedKeys L ord l trimmed normalizedKey =
     (case getCachedFloat l trimmed normalizedKey of
        Some v \<Rightarrow> (Some v, l)
      | None \<Rightarrow>
          if isKnownInvalid l trimmed normalizedKey then (None, l)
          else if nl_points l = [] then getFloatFromText L ord trimmed normalizedKey l []
          else let l = ensurePointRaw l in
            (case mapLookup (nl_pointRaw l) trimmed of
               None \<Rightarrow> getFloatFromNorm L ord trimmed normalizedKey l []
             | Some raw \<Rightarrow>
                 (case parseNumericPointValue L raw of
                    (Some v, cacheable) \<Rightarrow>
                      (Some v, if cacheable then cacheParsedFloat l trimmed v else l)
                  | (None, _) \<Rightarrow> getFloatFromNorm L ord trimmed normalizedKey l trimmed)))"

definition getFloatWithNormalized ::
  "golib \<Rightarrow> mapOrder \<Rightarrow> numericFieldLookup \<Rightarrow> string \<Rightarrow> string
     \<Rightarrow> float64 option \<times> numericFieldLookup" where
  "getFloatWithNormalized L ord l field normalized =
     (case prepareLookupKeys L field normalized of
        None \<Rightarrow> (None, l)
      | Some (trimmed, normalizedKey) \<Rightarrow> getFloatByPreparedKeys L ord l trimmed normalizedKey)"

section \<open>The threshold cache\<close>

record thresholdEvalRule =
  er_threshold :: "Threshold option"
  er_fieldName :: string
  er_normalizedFieldName :: string
  er_operator :: string
  er_alarmKey :: alarmStateKey
  er_alarmIDKey :: "alarmStateIDKey option"
  er_shielded :: bool
  er_thresholdValue :: float64

record thresholdCache =
  tc_thresholds :: "int \<Rightarrow> (Threshold option) list option"
  tc_rules :: "int \<Rightarrow> thresholdEvalRule list option"
  tc_lastRefresh :: gotime
  tc_interval :: duration
  tc_running :: bool

definition initThresholdCache :: thresholdCache where
  "initThresholdCache = \<lparr>tc_thresholds = Map.empty, tc_rules = Map.empty, tc_lastRefresh = 0,
     tc_interval = Minute, tc_running = False\<rparr>"

record thresholdDB =
  db_ListDevices :: "Device option list option"
  db_ListThresholds :: "Threshold option list option"
  db_ListThresholdsByDevice :: "int \<Rightarrow> Threshold option list option"

definition normalizeThresholdForRuntime :: "Threshold \<Rightarrow> Threshold" where
  "normalizeThresholdForRuntime th = th\<lparr>th_FieldName := TrimSpace (th_FieldName th)\<rparr>"

definition buildThresholdEvalRule :: "golib \<Rightarrow> Threshold option \<Rightarrow> thresholdEvalRule" where
  "buildThresholdEvalRule L threshold =
     (let alarmKey = buildAlarmStateKey L 0 threshold;
          blank = \<lparr>er_threshold = threshold, er_fieldName = [], er_normalizedFieldName = [],
                   er_operator = [], er_alarmKey = alarmKey,
                   er_alarmIDKey = alarmStateIDFromKey alarmKey,
                   er_shielded = False, er_thresholdValue = 0\<rparr>
      in case threshold of
           None \<Rightarrow> blank
         | Some th \<Rightarrow>
             let fieldName = TrimSpace (th_FieldName th)
             in blank\<lparr>er_fieldName := fieldName,
                      er_normalizedFieldName := normalizeFieldName L fieldName,
                      er_operator := TrimSpace (th_Operator th),
                      er_thresholdValue := th_Value th,
                      er_shielded := (th_Shielded th = 1)\<rparr>)"

text \<open>The loop that normalises the loaded thresholds and builds their rules; nil pointers stay
  in the list of thresholds and have no rule.\<close>

definition buildRules :: "golib \<Rightarrow> Threshold option list \<Rightarrow> thresholdEvalRule list" where
  "buildRules L ths =
     map (\<lambda>th. buildThresholdEvalRule L (Some (normalizeThresholdForRuntime th))) (List.map_filter id ths)"

definition appendAt :: "(int \<Rightarrow> 'v list option) \<Rightarrow> int \<Rightarrow> 'v \<Rightarrow> (int \<Rightarrow> 'v list option)" where
  "appendAt m k v = m(k \<mapsto> (case m k of None \<Rightarrow> [] | Some vs \<Rightarrow> vs) @ [v])"

fun refreshThresholds ::
  "golib \<Rightarrow> (int \<Rightarrow> bool) \<Rightarrow> (int \<Rightarrow> (Threshold option) list option) \<Rightarrow>
   (int \<Rightarrow> thresholdEvalRule list option) \<Rightarrow> Threshold option list \<Rightarrow>
   (int \<Rightarrow> (Threshold option) list option) \<times> (int \<Rightarrow> thresholdEvalRule list option)" where
  "refreshThresholds L valid next nextRules [] = (next, nextRules)"
| "refreshThresholds L valid next nextRules (None # ths) = refreshThresholds L valid next nextRules ths"
| "refreshThresholds L valid next nextRules (Some th # ths) =
     (if th_DeviceID th = 0 then refreshThresholds L valid next nextRules ths
      else if \<not> valid (th_DeviceID th) then refreshThresholds L valid next nextRules ths
      else let th = normalizeThresholdForRuntime th in
        refreshThresholds L valid (appendAt next (th_DeviceID th) (Some th))
          (appendAt nextRules (th_DeviceID th) (buildThresholdEvalRule L (Some th))) ths)"

definition Refresh :: "golib \<Rightarrow> thresholdDB \<Rightarrow> gotime \<Rightarrow> thresholdCache \<Rightarrow> thresholdCache" where
  "Refresh L db now c =
     (case db_ListDevices db of
        None \<Rightarrow> c
      | Some devices \<Rightarrow>
          (case db_ListThresholds db of
             None \<Rightarrow> c
           | Some thresholds \<Rightarrow>
               let valid = (\<lambda>d. d \<noteq> 0 \<and> d \<in> dev_ID ` set (List.map_filter id devices));
                   (next, nextRules) = refreshThresholds L valid Map.empty Map.empty thresholds
               in c\<lparr>tc_thresholds := next, tc_rules := nextRules, tc_lastRefresh := now\<rparr>))"

definition StartThresholdCache :: "golib \<Rightarrow> thresholdDB \<Rightarrow> gotime \<Rightarrow> thresholdCache \<Rightarrow> thresholdCache" where
  "StartThresholdCache L db now c =
     (if tc_running c then c else Refresh L db now (c\<lparr>tc_running := True\<rparr>))"

definition StopThresholdCache :: "thresholdCache \<Rightarrow> thresholdCache" where
  "StopThresholdCache c = (if \<not> tc_running c then c else c\<lparr>tc_running := False\<rparr>)"

definition getThresholdCacheEntry ::
  "golib \<Rightarrow> thresholdDB \<Rightarrow> gotime \<Rightarrow> thresholdCache \<Rightarrow> int
     \<Rightarrow> (Threshold option list \<times> thresholdEvalRule list) option \<times> thresholdCache" where
  "getThresholdCacheEntry L db now c deviceID =
     (let needsRefresh = time_Sub now (tc_lastRefresh c) > wrap64 (tc_interval c * 2);
          c = (if needsRefresh then Refresh L db now c else c);
          rules = (case tc_rules c deviceID of None \<Rightarrow> [] | Some rs \<Rightarrow> rs)
      in case tc_thresholds c deviceID of
           None \<Rightarrow>
             (case db_ListThresholdsByDevice db deviceID of
                None \<Rightarrow> (None, c)
              | Some loaded \<Rightarrow>
                  if loaded \<noteq> [] then
                    let loadedRules = buildRules L loaded;
                        loaded' = map (map_option normalizeThresholdForRuntime) loaded
                    in (Some (loaded', loadedRules),
                        c\<lparr>tc_thresholds := (tc_thresholds c)(deviceID \<mapsto> loaded'),
                          tc_rules := (tc_rules c)(deviceID \<mapsto> loadedRules)\<rparr>)
                  else (Some (loaded, []), c))
         | Some thresholds \<Rightarrow>
             if thresholds \<noteq> [] \<and> rules = [] then
               let rebuiltRules = buildRules L thresholds;
                   thresholds' = map (map_option normalizeThresholdForRuntime) thresholds
               in (Some (thresholds', rebuiltRules),
                   c\<lparr>tc_thresholds := (tc_thresholds c)(deviceID \<mapsto> thresholds'),
                     tc_rules := (tc_rules c)(deviceID \<mapsto> rebuiltRules)\<rparr>)
             else (Some (thresholds, rules), c))"

definition getDeviceThresholdRules ::
  "golib \<Rightarrow> thresholdDB \<Rightarrow> gotime \<Rightarrow> thresholdCache \<Rightarrow> int
     \<Rightarrow> thresholdEvalRule list option \<times> thresholdCache" where
  "getDeviceThresholdRules L db now c deviceID =
     (case getThresholdCacheEntry L db now c deviceID of (r, c) \<Rightarrow> (map_option snd r, c))"

definition InvalidateDeviceCache :: "thresholdCache \<Rightarrow> int \<Rightarrow> thresholdCache" where
  "InvalidateDeviceCache c deviceID =
     c\<lparr>tc_thresholds := (tc_thresholds c)(deviceID := None),
       tc_rules := (tc_rules c)(deviceID := None)\<rparr>"

section \<open>Checking a sample\<close>

datatype alarmEffect = CreateAlarmLog AlarmLog | SendAlarm AlarmPayload

definition handleAlarm :: "bool \<Rightarrow> Device \<Rightarrow> Threshold \<Rightarrow> float64 \<Rightarrow> alarmEffect list" where
  "handleAlarm hasNorthbound device th actualValue =
     CreateAlarmLog \<lparr>al_DeviceID = dev_ID device, al_ThresholdID = th_ID th,
        al_FieldName = th_FieldName th, al_ActualValue = actualValue,
        al_ThresholdValue = th_Value th, al_Operator = th_Operator th,
        al_Severity = th_Severity th, al_Message = th_Message th\<rparr> #
     (if \<not> hasNorthbound then []
      else [SendAlarm \<lparr>ap_DeviceID = dev_ID device, ap_DeviceName = dev_Name device,
              ap_ProductKey = dev_ProductKey device, ap_DeviceKey = dev_DeviceKey device,
              ap_FieldName = th_FieldName th, ap_ActualValue = actualValue,
              ap_Threshold = th_Value th, ap_Operator = th_Operator th,
              ap_Severity = th_Severity th, ap_Message = th_Message th\<rparr>])"

text \<open>The body of the loop over the rules: the threshold that raises an alarm with its value.\<close>

definition checkRule ::
  "golib \<Rightarrow> mapOrder \<Rightarrow> gotime \<Rightarrow> duration \<Rightarrow> int \<Rightarrow> thresholdEvalRule \<Rightarrow>
   numericFieldLookup \<times> alarmStore \<Rightarrow> (Threshold \<times> float64) option \<times> (numericFieldLookup \<times> alarmStore)" where
  "checkRule L ord now repeatInterval deviceID rule = (\<lambda>(l, s).
     case er_threshold rule of
       None \<Rightarrow> (None, (l, s))
     | Some th \<Rightarrow>
         if er_shielded rule then (None, (l, s))
         else case getFloatByPreparedKeys L ord l (er_fieldName rule) (er_normalizedFieldName rule) of
           (None, l) \<Rightarrow> (None, (l, s))
         | (Some v, l) \<Rightarrow>
             if \<not> thresholdMatch v (er_operator rule) (er_thresholdValue rule) then (None, (l, s))
             else let (emit, s) =
                    (case er_alarmIDKey rule of
                       Some alarmIDKey \<Rightarrow>
                         shouldEmitAlarmForIDKey now s (alarmIDKey\<lparr>ik_DeviceID := deviceID\<rparr>) now repeatInterval
                     | None \<Rightarrow>
                         shouldEmitAlarmForKey now s ((er_alarmKey rule)\<lparr>ak_DeviceID := deviceID\<rparr>) now repeatInterval)
                  in (if emit then Some (th, v) else None, (l, s)))"

fun checkRules ::
  "golib \<Rightarrow> mapOrder \<Rightarrow> gotime \<Rightarrow> duration \<Rightarrow> int \<Rightarrow> numericFieldLookup \<times> alarmStore \<Rightarrow>
   thresholdEvalRule list \<Rightarrow> (Threshold \<times> float64) list \<times> (numericFieldLookup \<times> alarmStore)" where
  "checkRules L ord now repeatInterval deviceID st [] = ([], st)"
| "checkRules L ord now repeatInterval deviceID st (rule # rules) =
     (let (alarm, st) = checkRule L ord now repeatInterval deviceID rule st;
          (alarms, st) = checkRules L ord now repeatInterval deviceID st rules
      in (case alarm of None \<Rightarrow> alarms | Some a \<Rightarrow> a # alarms, st))"

text \<open>\<open>dbReady\<close>, \<open>nowNS\<close> and \<open>seconds\<close> are what the cached repeat interval is resolved
  from; the result is \<open>None\<close> when the rules cannot be loaded.\<close>

definition checkThresholds ::
  "golib \<Rightarrow> mapOrder \<Rightarrow> thresholdDB \<Rightarrow> bool \<Rightarrow> int \<Rightarrow> int option \<Rightarrow> bool \<Rightarrow> gotime \<Rightarrow>
   thresholdCache \<times> alarmStore \<Rightarrow> Device option \<Rightarrow> CollectData option \<Rightarrow>
   alarmEffect list option \<times> (thresholdCache \<times> alarmStore)" where
  "checkThresholds L ord db dbReady nowNS seconds hasNorthbound now = (\<lambda>(c, s) device data.
     case (device, data) of
       (Some device, Some data) \<Rightarrow>
         (case getDeviceThresholdRules L db now c (dev_ID device) of
            (None, c) \<Rightarrow> (None, (c, s))
          | (Some rules, c) \<Rightarrow>
              let (repeatInterval, s) = resolveAlarmRepeatInterval dbReady nowNS seconds s;
                  s = maybePruneAlarmStates now s now repeatInterval;
                  l = newNumericFieldLookup (cd_Fields data) (cd_Points data);
                  (alarms, (l, s)) = checkRules L ord now repeatInterval (dev_ID device) (l, s) rules
              in (Some (concat (map (\<lambda>(th, v). handleAlarm hasNorthbound device th v) alarms)), (c, s)))
     | _ \<Rightarrow> (Some [], (c, s)))"

section \<open>The lookup against a reference\<close>

text \<open>What the lookup relies on: lower-casing is idempotent and erases nothing, and a \<open>range\<close> loop
  visits the entries of the map.\<close>

definition goodLower :: "golib \<Rightarrow> bool" where
  "goodLower L \<longleftrightarrow> (\<forall>s. lower L (lower L s) = lower L s) \<and> (\<forall>s. s \<noteq> [] \<longrightarrow> lower L s \<noteq> [])"

definition goodOrder :: "mapOrder \<Rightarrow> bool" where
  "goodOrder ord \<longleftrightarrow> (\<forall>m. set (ord m) = set m)"

text \<open>No two names of the sample differ in case or outer white space only.\<close>

definition noCaseClash :: "golib \<Rightarrow> fieldMap \<Rightarrow> CollectPoint list \<Rightarrow> bool" where
  "noCaseClash L fs ps \<longleftrightarrow>
     (\<forall>a\<in>set ps. \<forall>b\<in>set ps. normalizeFieldName L (cp_FieldName a) = normalizeFieldName L (cp_FieldName b)
        \<longrightarrow> trimCollectorText (cp_FieldName a) = trimCollectorText (cp_FieldName b)) \<and>
     (\<forall>a\<in>set fs. \<forall>b\<in>set fs. normalizeFieldName L (fst a) = normalizeFieldName L (fst b)
        \<longrightarrow> fst a = fst b)"

text \<open>The reference: value of a point, text of a field and number, all by normalised name.\<close>

definition pointByName :: "golib \<Rightarrow> CollectPoint list \<Rightarrow> string \<Rightarrow> any option" where
  "pointByName L ps k = (if k = [] then None
     else map_of (map (\<lambda>p. (normalizeFieldName L (cp_FieldName p), cp_Value p)) ps) k)"

definition fieldByName :: "golib \<Rightarrow> fieldMap \<Rightarrow> string \<Rightarrow> string option" where
  "fieldByName L fs k = (if k = [] then None
     else map_of (map (\<lambda>(key, c). (normalizeFieldName L key, c)) fs) k)"

definition textByName :: "golib \<Rightarrow> fieldMap \<Rightarrow> CollectPoint list \<Rightarrow> string \<Rightarrow> string option" where
  "textByName L fs ps k = (case fieldByName L fs k of Some str \<Rightarrow> Some str
     | None \<Rightarrow> map_option (CollectPointValueString L) (pointByName L ps k))"

definition numberByName :: "golib \<Rightarrow> fieldMap \<Rightarrow> CollectPoint list \<Rightarrow> string \<Rightarrow> float64 option" where
  "numberByName L fs ps k =
     (case Option.bind (pointByName L ps k) (\<lambda>raw. fst (parseNumericPointValue L raw)) of
        Some v \<Rightarrow> Some v
      | None \<Rightarrow> Option.bind (textByName L fs ps k) (\<lambda>str. parseFloat L (TrimSpace str)))"

lemma map_of_insertFirst:
  "map_of (insertFirst m es) k =
     (case map_of m k of Some v \<Rightarrow> Some v | None \<Rightarrow> if k = [] then None else map_of es k)"
  by (induction m es rule: insertFirst.induct) (auto simp: update_conv' split: option.splits)

lemma insertFirst_keys: "k \<in> fst ` set (insertFirst m es) \<Longrightarrow> k \<in> fst ` set m \<or> k \<in> fst ` set es"
  by (induction m es rule: insertFirst.induct) (auto simp: dom_update split: if_splits)

lemma lower_Nil [simp]: "lower L [] = []"
  by (simp add: ToLower_def)

lemma normalize_lower: "normalizeFieldName L s = lower L (trimCollectorText s)"
  by (simp add: normalizeFieldName_def Let_def)

lemma map_of_by_image:
  assumes "map_of es k = Some v" and "\<And>e. e \<in> set es \<Longrightarrow> f (fst e) = f k \<Longrightarrow> fst e = k"
  shows "map_of (map (\<lambda>(a, b). (f a, b)) es) (f k) = Some v"
  using assms by (induction es) (fastforce split: if_splits)+

text \<open>A map searched under an injective renaming of its keys does not depend on the order in
  which it was visited.\<close>

lemma map_of_renamed_order:
  assumes set: "set es' = set es" and inj: "\<And>a b. a \<in> fst ` set es \<Longrightarrow> b \<in> fst ` set es \<Longrightarrow> f a = f b \<Longrightarrow> a = b"
    and dist: "distinct (map fst es)"
  shows "map_of (map (\<lambda>(a, b). (f a, b)) es') k = map_of (map (\<lambda>(a, b). (f a, b)) es) k"
proof -
  have uniq: "v = w" if "(a, v) \<in> set es" "(b, w) \<in> set es" "f a = f b" for a b v w
  proof -
    have "a = b" using that inj by force
    then show ?thesis using that dist by (metis eq_key_imp_eq_value)
  qed
  have key: "\<exists>a. f a = k \<and> (a, v) \<in> set es" if "map_of (map (\<lambda>(a, b). (f a, b)) xs) k = Some v" "set xs = set es" for xs v
    using that by (auto dest!: map_of_SomeD)
  show ?thesis
  proof (cases "map_of (map (\<lambda>(a, b). (f a, b)) es) k")
    case None
    then have "k \<notin> f ` fst ` set es" by (auto simp: map_of_eq_None_iff image_image case_prod_beta)
    then have "map_of (map (\<lambda>(a, b). (f a, b)) es') k = None"
      using set by (auto simp: map_of_eq_None_iff image_image case_prod_beta)
    with None show ?thesis by simp
  next
    case (Some v)
    then obtain a where a: "f a = k" "(a, v) \<in> set es" using key by blast
    then have "(f a, v) \<in> set (map (\<lambda>(a, b). (f a, b)) es')" using set by force
    then obtain w where w: "map_of (map (\<lambda>(a, b). (f a, b)) es') k = Some w"
      using a(1) by (metis weak_map_of_SomeI)
    with key[OF w set] uniq a have "w = v" by blast
    with w Some show ?thesis by simp
  qed
qed

lemma insertFirst_distinct: "distinct (map fst m) \<Longrightarrow> distinct (map fst (insertFirst m es))"
  by (induction m es rule: insertFirst.induct) (auto intro: distinct_update)

definition pointTable :: "CollectPoint list \<Rightarrow> (string \<times> any) list" where
  "pointTable ps = insertFirst [] (map (\<lambda>p. (trimCollectorText (cp_FieldName p), cp_Value p)) ps)"

definition normTable :: "golib \<Rightarrow> mapOrder \<Rightarrow> CollectPoint list \<Rightarrow> (string \<times> any) list" where
  "normTable L ord ps = insertFirst [] (map (\<lambda>(name, val). (lower L name, val)) (ord (pointTable ps)))"

definition fieldTable :: "golib \<Rightarrow> fieldMap \<Rightarrow> fieldMap" where
  "fieldTable L fs = insertFirst [] (map (\<lambda>(key, c). (normalizeFieldName L key, c)) fs)"

lemma fieldTable_lookup: "map_of (fieldTable L fs) k = fieldByName L fs k"
  by (simp add: fieldTable_def fieldByName_def map_of_insertFirst)

lemma field_exact:
  assumes "noCaseClash L fs ps" and "goodLower L" and "trimCollectorText t = t" and "t \<noteq> []"
    and "map_of fs t = Some str"
  shows "fieldByName L fs (lower L t) = Some str"
proof -
  have mem: "(t, str) \<in> set fs" using assms(5) by (rule map_of_SomeD)
  have nt: "normalizeFieldName L t = lower L t" using assms(3) by (simp add: normalize_lower)
  have "map_of (map (\<lambda>(key, c). (normalizeFieldName L key, c)) fs) (normalizeFieldName L t) = Some str"
    using assms(5)
  proof (rule map_of_by_image)
    fix e assume "e \<in> set fs" "normalizeFieldName L (fst e) = normalizeFieldName L t"
    with assms(1) mem show "fst e = t" unfolding noCaseClash_def by fastforce
  qed
  then show ?thesis using assms(2,4) nt by (simp add: fieldByName_def goodLower_def)
qed

lemma pointTable_keys:
  "n \<in> fst ` set (pointTable ps) \<Longrightarrow> \<exists>p\<in>set ps. trimCollectorText (cp_FieldName p) = n"
  unfolding pointTable_def by (drule insertFirst_keys) (auto simp: image_iff)

lemma pointTable_lookup:
  "map_of (pointTable ps) t =
     (if t = [] then None else map_of (map (\<lambda>p. (trimCollectorText (cp_FieldName p), cp_Value p)) ps) t)"
  by (simp add: pointTable_def map_of_insertFirst)

lemma point_exact:
  assumes clash: "noCaseClash L fs ps" and low: "goodLower L" and "map_of (pointTable ps) t = Some v"
  shows "pointByName L ps (lower L t) = Some v"
proof -
  let ?es = "map (\<lambda>p. (trimCollectorText (cp_FieldName p), cp_Value p)) ps"
  have t: "t \<noteq> []" and get: "map_of ?es t = Some v"
    using assms(3) by (auto simp: pointTable_lookup split: if_splits)
  then obtain p where p: "p \<in> set ps" "t = trimCollectorText (cp_FieldName p)"
    by (auto dest!: map_of_SomeD)
  have "map_of (map (\<lambda>(a, b). (lower L a, b)) ?es) (lower L t) = Some v"
    using get
  proof (rule map_of_by_image)
    fix e assume "e \<in> set ?es" and e: "lower L (fst e) = lower L t"
    then obtain q where "q \<in> set ps" "fst e = trimCollectorText (cp_FieldName q)" by force
    with clash p e show "fst e = t" unfolding noCaseClash_def normalize_lower by metis
  qed
  then show ?thesis using t low
    by (simp add: pointByName_def goodLower_def normalize_lower comp_def)
qed

lemma normTable_lookup:
  assumes clash: "noCaseClash L fs ps" and low: "goodLower L" and ord: "goodOrder ord"
  shows "map_of (normTable L ord ps) k = pointByName L ps k"
proof (cases "k = []")
  case True
  then show ?thesis by (simp add: normTable_def map_of_insertFirst pointByName_def)
next
  case k: False
  let ?PT = "pointTable ps" and ?low = "map (\<lambda>(a, b). (lower L a, b))"
  have dist: "distinct (map fst ?PT)" by (simp add: pointTable_def insertFirst_distinct)
  have inj: "a = b" if "a \<in> fst ` set ?PT" "b \<in> fst ` set ?PT" "lower L a = lower L b" for a b
    using that clash unfolding noCaseClash_def normalize_lower by (metis pointTable_keys)
  have "map_of (normTable L ord ps) k = map_of (?low (ord ?PT)) k"
    using k by (simp add: normTable_def map_of_insertFirst)
  also have "\<dots> = map_of (?low ?PT) k"
    by (rule map_of_renamed_order) (use ord inj dist in \<open>auto simp: goodOrder_def\<close>)
  also have "\<dots> = pointByName L ps k"
  proof (cases "map_of (?low ?PT) k")
    case (Some v)
    then obtain n where n: "lower L n = k" "(n, v) \<in> set ?PT" by (auto dest!: map_of_SomeD)
    then have "map_of ?PT n = Some v" using dist by simp
    from point_exact[OF clash low this] n Some show ?thesis by simp
  next
    case None
    have "pointByName L ps k = None"
    proof (rule ccontr)
      assume "pointByName L ps k \<noteq> None"
      then obtain v where "(k, v) \<in> set (map (\<lambda>p. (normalizeFieldName L (cp_FieldName p), cp_Value p)) ps)"
        by (auto simp: pointByName_def split: if_splits dest!: map_of_SomeD)
      then obtain p where p: "p \<in> set ps" "lower L (trimCollectorText (cp_FieldName p)) = k"
        by (auto simp: normalize_lower)
      let ?n = "trimCollectorText (cp_FieldName p)"
      have "?n \<noteq> []" using p(2) k by auto
      then have "map_of ?PT ?n \<noteq> None"
        using p(1) by (auto simp: pointTable_lookup map_of_eq_None_iff image_image)
      then have "?n \<in> fst ` set ?PT" by (simp add: map_of_eq_None_iff)
      then have "k \<in> fst ` set (?low ?PT)" using p(2) by force
      with None show False by (simp add: map_of_eq_None_iff)
    qed
    with None show ?thesis by simp
  qed
  finally show ?thesis .
qed

text \<open>The invariant of a lookup in use: the lazily built maps are either absent or complete, and
  what is cached agrees with the reference.\<close>

definition tablesInv :: "golib \<Rightarrow> mapOrder \<Rightarrow> fieldMap \<Rightarrow> CollectPoint list \<Rightarrow> numericFieldLookup \<Rightarrow> bool" where
  "tablesInv L ord fs ps l \<longleftrightarrow>
     nl_raw l = fs \<and> nl_points l = ps \<and>
     (nl_normalized l = None \<or> nl_normalized l = Some (fieldTable L fs)) \<and>
     (nl_pointRaw l = None \<or> nl_pointRaw l = Some (pointTable ps)) \<and>
     (nl_pointNorm l = None \<or> nl_pointNorm l = Some (normTable L ord ps))"

definition cacheInv :: "golib \<Rightarrow> fieldMap \<Rightarrow> CollectPoint list \<Rightarrow> numericFieldLookup \<Rightarrow> bool" where
  "cacheInv L fs ps l \<longleftrightarrow>
     (\<forall>k v. mapLookup (nl_parsed l) k = Some v \<longrightarrow> numberByName L fs ps (lower L k) = Some v) \<and>
     (\<forall>m k. nl_invalid l = Some m \<longrightarrow> k \<in> set m \<longrightarrow> numberByName L fs ps (lower L k) = None)"

definition lookupInv :: "golib \<Rightarrow> mapOrder \<Rightarrow> fieldMap \<Rightarrow> CollectPoint list \<Rightarrow> numericFieldLookup \<Rightarrow> bool" where
  "lookupInv L ord fs ps l \<longleftrightarrow> tablesInv L ord fs ps l \<and> cacheInv L fs ps l"

lemma lookupInv_base:
  "lookupInv L ord fs ps l \<Longrightarrow> nl_raw l = fs" "lookupInv L ord fs ps l \<Longrightarrow> nl_points l = ps"
  by (auto simp: lookupInv_def tablesInv_def)

lemma lookupInv_new: "lookupInv L ord fs ps (newNumericFieldLookup fs ps)"
  by (simp add: lookupInv_def tablesInv_def cacheInv_def newNumericFieldLookup_def mapLookup_def)

lemma lookupInv_upd:
  assumes "lookupInv L ord fs ps l"
  shows "lookupInv L ord fs ps (l\<lparr>nl_pointRaw := Some (pointTable ps)\<rparr>)"
    and "lookupInv L ord fs ps (l\<lparr>nl_pointNorm := Some (normTable L ord ps)\<rparr>)"
    and "lookupInv L ord fs ps (l\<lparr>nl_normalized := Some (fieldTable L fs)\<rparr>)"
  using assms by (simp_all add: lookupInv_def tablesInv_def cacheInv_def)

lemma lookupInv_pointRaw:
  assumes "lookupInv L ord fs ps l"
  shows "lookupInv L ord fs ps (ensurePointRaw l)"
    and "ps \<noteq> [] \<Longrightarrow> nl_pointRaw (ensurePointRaw l) = Some (pointTable ps)"
proof -
  have "nl_pointRaw l = None \<or> nl_pointRaw l = Some (pointTable ps)"
    using assms by (simp add: lookupInv_def tablesInv_def)
  then show "lookupInv L ord fs ps (ensurePointRaw l)"
      "ps \<noteq> [] \<Longrightarrow> nl_pointRaw (ensurePointRaw l) = Some (pointTable ps)"
    using assms lookupInv_upd(1)[OF assms]
    by (cases "ps = []"; cases "nl_pointRaw l"; simp add: ensurePointRaw_def lookupInv_base pointTable_def)+
qed

lemma lookupInv_pointNorm:
  assumes "lookupInv L ord fs ps l"
  shows "lookupInv L ord fs ps (ensurePointNormalized L ord l)"
    and "ps \<noteq> [] \<Longrightarrow> nl_pointNorm (ensurePointNormalized L ord l) = Some (normTable L ord ps)"
proof -
  have pn: "nl_pointNorm l = None \<or> nl_pointNorm l = Some (normTable L ord ps)"
    using assms by (simp add: lookupInv_def tablesInv_def)
  have "ensurePointNormalized L ord l = (ensurePointRaw l)\<lparr>nl_pointNorm := Some (normTable L ord ps)\<rparr>"
    if "ps \<noteq> []" "nl_pointNorm l = None"
    using that lookupInv_pointRaw(2)[OF assms] assms
    by (simp add: ensurePointNormalized_def Let_def lookupInv_base normTable_def)
  then show "lookupInv L ord fs ps (ensurePointNormalized L ord l)"
      "ps \<noteq> [] \<Longrightarrow> nl_pointNorm (ensurePointNormalized L ord l) = Some (normTable L ord ps)"
    using pn assms lookupInv_upd(2)[OF lookupInv_pointRaw(1)[OF assms]]
    by (cases "ps = []"; cases "nl_pointNorm l"; simp add: ensurePointNormalized_def lookupInv_base)+
qed

lemma lookupInv_normalized:
  assumes "lookupInv L ord fs ps l"
  shows "lookupInv L ord fs ps (ensureNormalized L l)"
    and "nl_normalized (ensureNormalized L l) = Some (fieldTable L fs)"
proof -
  have "nl_normalized l = None \<or> nl_normalized l = Some (fieldTable L fs)"
    using assms by (simp add: lookupInv_def tablesInv_def)
  then show "lookupInv L ord fs ps (ensureNormalized L l)"
      "nl_normalized (ensureNormalized L l) = Some (fieldTable L fs)"
    using assms lookupInv_upd(3)[OF assms]
    by (cases "nl_normalized l"; simp add: ensureNormalized_def lookupInv_base fieldTable_def)+
qed

lemma lookupInv_cacheParsed:
  assumes "lookupInv L ord fs ps l" and "numberByName L fs ps (lower L k) = Some v"
  shows "lookupInv L ord fs ps (cacheParsedFloat l k v)"
proof (cases "k = []")
  case False
  have "mapLookup (nl_parsed (cacheParsedFloat l k v)) k' = (if k' = k then Some v else mapLookup (nl_parsed l) k')" for k'
    using False by (cases "nl_parsed l") (simp_all add: cacheParsedFloat_def mapLookup_def update_conv')
  moreover have "tablesInv L ord fs ps (cacheParsedFloat l k v)"
      "nl_invalid (cacheParsedFloat l k v) = nl_invalid l"
    using assms(1) by (simp_all add: lookupInv_def tablesInv_def cacheParsedFloat_def)
  ultimately show ?thesis
    using assms by (simp add: lookupInv_def cacheInv_def)
qed (use assms in \<open>simp add: cacheParsedFloat_def\<close>)

lemma lookupInv_cacheInvalid:
  assumes "lookupInv L ord fs ps l" and "k \<noteq> [] \<Longrightarrow> numberByName L fs ps (lower L k) = None"
  shows "lookupInv L ord fs ps (cacheInvalidFloat l k)"
proof (cases "k = []")
  case False
  have "numberByName L fs ps (lower L k') = None"
    if "nl_invalid (cacheInvalidFloat l k) = Some m" "k' \<in> set m" for m k'
    using that assms(2)[OF False] assms(1) False
    by (cases "nl_invalid l") (auto simp: cacheInvalidFloat_def lookupInv_def cacheInv_def)
  moreover have "tablesInv L ord fs ps (cacheInvalidFloat l k)"
      "nl_parsed (cacheInvalidFloat l k) = nl_parsed l"
    using assms(1) by (simp_all add: lookupInv_def tablesInv_def cacheInvalidFloat_def)
  ultimately show ?thesis
    using assms(1) unfolding lookupInv_def cacheInv_def by simp
qed (use assms in \<open>simp add: cacheInvalidFloat_def\<close>)

lemma getCachedFloat_sound:
  assumes "lookupInv L ord fs ps l" and "goodLower L" and "p = t \<or> p = lower L t"
    and "getCachedFloat l p (lower L t) = Some v"
  shows "numberByName L fs ps (lower L t) = Some v"
proof -
  have "mapLookup (nl_parsed l) p = Some v \<or> mapLookup (nl_parsed l) (lower L t) = Some v"
    using assms(4) by (auto simp: getCachedFloat_def mapLookup_def split: option.splits if_splits)
  then have "numberByName L fs ps (lower L p) = Some v \<or> numberByName L fs ps (lower L (lower L t)) = Some v"
    using assms(1) by (auto simp: lookupInv_def cacheInv_def)
  then show ?thesis using assms(2,3) by (auto simp: goodLower_def)
qed

lemma isKnownInvalid_sound:
  assumes "lookupInv L ord fs ps l" and "goodLower L" and "p = t \<or> p = lower L t"
    and "isKnownInvalid l p (lower L t)"
  shows "numberByName L fs ps (lower L t) = None"
proof -
  obtain m where "nl_invalid l = Some m" "p \<in> set m \<or> lower L t \<in> set m"
    using assms(4) by (auto simp: isKnownInvalid_def split: option.splits)
  then have "numberByName L fs ps (lower L p) = None \<or> numberByName L fs ps (lower L (lower L t)) = None"
    using assms(1) by (auto simp: lookupInv_def cacheInv_def)
  then show ?thesis using assms(2,3) by (auto simp: goodLower_def)
qed

text \<open>The text behind a name.\<close>

lemma getPointRawValue_result:
  assumes sample: "noCaseClash L fs ps" "goodLower L" "goodOrder ord" and inv: "lookupInv L ord fs ps l"
    and eq: "getPointRawValue L ord l t (lower L t) = (r, l')"
  shows "lookupInv L ord fs ps l' \<and> map_option snd r = map_option (CollectPointValueString L) (pointByName L ps (lower L t))
    \<and> (\<forall>e. r = Some e \<longrightarrow> fst e = t \<or> fst e = lower L t)"
proof (cases "ps = []")
  case True
  with eq inv show ?thesis
    by (auto simp: getPointRawValue_def lookupInv_base pointByName_def)
next
  case ps: False
  let ?l1 = "ensurePointRaw l" and ?l2 = "ensurePointNormalized L ord (ensurePointRaw l)"
  note inv1 = lookupInv_pointRaw[OF inv] and inv2 = lookupInv_pointNorm[OF lookupInv_pointRaw(1)[OF inv]]
  have pr: "mapLookup (nl_pointRaw ?l1) t = map_of (pointTable ps) t"
    and pn: "mapLookup (nl_pointNorm ?l2) (lower L t) = pointByName L ps (lower L t)"
    using inv1(2)[OF ps] inv2(2)[OF ps] normTable_lookup[OF sample] by (simp_all add: mapLookup_def)
  show ?thesis
  proof (cases "map_of (pointTable ps) t")
    case None
    with eq pr pn ps inv inv2(1) show ?thesis
      by (cases "pointByName L ps (lower L t)")
        (auto simp: getPointRawValue_def lookupInv_base Let_def)
  next
    case (Some v)
    with eq pr ps inv inv1(1) point_exact[OF sample(1,2) Some] show ?thesis
      by (auto simp: getPointRawValue_def lookupInv_base Let_def)
  qed
qed

lemma getRawValue_result:
  assumes sample: "noCaseClash L fs ps" "goodLower L" "goodOrder ord" and inv: "lookupInv L ord fs ps l"
    and t: "trimCollectorText t = t"
    and eq: "getRawValueWithNormalized L ord l t (lower L t) = (r, l')"
  shows "lookupInv L ord fs ps l' \<and> map_option snd r = textByName L fs ps (lower L t)
    \<and> (\<forall>e. r = Some e \<longrightarrow> fst e = t \<or> fst e = lower L t)"
proof (cases "t = []")
  case True
  with eq inv t show ?thesis
    by (auto simp: getRawValueWithNormalized_def prepareLookupKeys_def textByName_def fieldByName_def
        pointByName_def)
next
  case False
  then have keys: "prepareLookupKeys L t (lower L t) = Some (t, lower L t)"
    using t sample(2) by (simp add: prepareLookupKeys_def goodLower_def)
  show ?thesis
  proof (cases "fs = []")
    case True
    then have "fieldByName L fs (lower L t) = None" by (simp add: fieldByName_def)
    moreover have "getPointRawValue L ord l t (lower L t) = (r, l')"
      using eq keys True inv by (simp add: getRawValueWithNormalized_def lookupInv_base)
    from getPointRawValue_result[OF sample inv this] calculation show ?thesis
      by (simp add: textByName_def)
  next
    case fs: False
    let ?l1 = "ensureNormalized L l"
    note inv1 = lookupInv_normalized[OF inv]
    have norm: "mapLookup (nl_normalized ?l1) (lower L t) = fieldByName L fs (lower L t)"
      using inv1(2) by (simp add: mapLookup_def fieldTable_lookup)
    show ?thesis
    proof (cases "map_of fs t")
      case (Some str)
      with eq keys fs inv field_exact[OF sample(1,2) t False Some] show ?thesis
        by (auto simp: getRawValueWithNormalized_def lookupInv_base textByName_def)
    next
      case None
      show ?thesis
      proof (cases "fieldByName L fs (lower L t)")
        case (Some str)
        with None eq keys fs inv inv1(1) norm show ?thesis
          by (auto simp: getRawValueWithNormalized_def lookupInv_base Let_def textByName_def)
      next
        case fnone: None
        with None eq keys fs inv norm have "getPointRawValue L ord ?l1 t (lower L t) = (r, l')"
          by (simp add: getRawValueWithNormalized_def lookupInv_base Let_def)
        from getPointRawValue_result[OF sample inv1(1) this] fnone show ?thesis
          by (simp add: textByName_def)
      qed
    qed
  qed
qed

text \<open>The number behind a name, stage by stage; a stage is only reached when the ones before it
  gave nothing.\<close>

lemma getFloatFromText_result:
  assumes sample: "noCaseClash L fs ps" "goodLower L" "goodOrder ord" and inv: "lookupInv L ord fs ps l"
    and t: "trimCollectorText t = t" and pik: "pik = [] \<or> pik = t \<or> pik = lower L t"
    and num: "Option.bind (pointByName L ps (lower L t)) (\<lambda>raw. fst (parseNumericPointValue L raw)) = None"
    and eq: "getFloatFromText L ord t (lower L t) l pik = (r, l')"
  shows "r = numberByName L fs ps (lower L t) \<and> lookupInv L ord fs ps l'"
proof -
  obtain q l1 where q: "getRawValueWithNormalized L ord l t (lower L t) = (q, l1)" by fastforce
  have inv1: "lookupInv L ord fs ps l1" and tq: "map_option snd q = textByName L fs ps (lower L t)"
    and key: "\<And>e. q = Some e \<Longrightarrow> fst e = t \<or> fst e = lower L t"
    using getRawValue_result[OF sample inv t q] by auto
  have spec: "numberByName L fs ps (lower L t) =
      Option.bind (map_option snd q) (\<lambda>str. parseFloat L (TrimSpace str))"
    using num tq by (simp add: numberByName_def)
  have low: "lower L (lower L t) = lower L t" using sample(2) by (simp add: goodLower_def)
  show ?thesis
  proof (cases q)
    case None
    with eq q spec have "r = None" "l' = cacheInvalidFloat l1 pik" "numberByName L fs ps (lower L t) = None"
      by (auto simp: getFloatFromText_def)
    with lookupInv_cacheInvalid[OF inv1, of pik] pik low show ?thesis by auto
  next
    case (Some e)
    obtain ck str where e: "e = (ck, str)" by fastforce
    have ck: "ck = t \<or> ck = lower L t" using key Some e by simp
    have lck: "lower L ck = lower L t" using ck low by auto
    show ?thesis
    proof (cases "getCachedFloat l1 ck (lower L t)")
      case (Some v)
      with eq q \<open>q = Some e\<close> e have "r = Some v" "l' = l1" by (auto simp: getFloatFromText_def)
      with getCachedFloat_sound[OF inv1 sample(2) ck Some] inv1 show ?thesis by simp
    next
      case cache: None
      show ?thesis
      proof (cases "isKnownInvalid l1 ck (lower L t)")
        case True
        with eq q Some e cache have "r = None" "l' = l1" by (auto simp: getFloatFromText_def)
        with isKnownInvalid_sound[OF inv1 sample(2) ck True] inv1 show ?thesis by simp
      next
        case False
        show ?thesis
        proof (cases "parseFloat L (TrimSpace str)")
          case None
          with eq q Some e cache False have "r = None"
            "l' = cacheInvalidFloat l1 (if ck = [] then pik else ck)" by (auto simp: getFloatFromText_def)
          moreover have spec0: "numberByName L fs ps (lower L t) = None" using None spec Some e by simp
          moreover have "lookupInv L ord fs ps (cacheInvalidFloat l1 (if ck = [] then pik else ck))"
            using lookupInv_cacheInvalid[OF inv1] spec0 pik low lck by auto
          ultimately show ?thesis by simp
        next
          case v: (Some v)
          with eq q Some e cache False have "r = Some v" "l' = cacheParsedFloat l1 ck v"
            by (auto simp: getFloatFromText_def)
          moreover have "numberByName L fs ps (lower L t) = Some v" using v spec Some e by simp
          ultimately show ?thesis using lookupInv_cacheParsed[OF inv1] lck by simp
        qed
      qed
    qed
  qed
qed

lemma getFloatFromNorm_result:
  assumes sample: "noCaseClash L fs ps" "goodLower L" "goodOrder ord" and inv: "lookupInv L ord fs ps l"
    and t: "trimCollectorText t = t" and pik: "pik = [] \<or> pik = t \<or> pik = lower L t" and ps: "ps \<noteq> []"
    and eq: "getFloatFromNorm L ord t (lower L t) l pik = (r, l')"
  shows "r = numberByName L fs ps (lower L t) \<and> lookupInv L ord fs ps l'"
proof -
  let ?l = "ensurePointNormalized L ord l"
  note inv1 = lookupInv_pointNorm[OF inv]
  have low: "lower L (lower L t) = lower L t" using sample(2) by (simp add: goodLower_def)
  have pn: "mapLookup (nl_pointNorm ?l) (lower L t) = pointByName L ps (lower L t)"
    using inv1(2)[OF ps] normTable_lookup[OF sample] by (simp add: mapLookup_def)
  show ?thesis
  proof (cases "pointByName L ps (lower L t)")
    case None
    with eq pn have "getFloatFromText L ord t (lower L t) ?l pik = (r, l')"
      by (simp add: getFloatFromNorm_def Let_def)
    with getFloatFromText_result[OF sample inv1(1) t pik] None show ?thesis by simp
  next
    case (Some raw)
    obtain num cacheable where raw: "parseNumericPointValue L raw = (num, cacheable)" by fastforce
    show ?thesis
    proof (cases num)
      case None
      with eq pn Some raw
      have "getFloatFromText L ord t (lower L t) ?l (if pik = [] then lower L t else pik) = (r, l')"
        by (simp add: getFloatFromNorm_def Let_def)
      moreover have "Option.bind (pointByName L ps (lower L t)) (\<lambda>raw. fst (parseNumericPointValue L raw)) = None"
        using Some raw None by simp
      ultimately show ?thesis
        using getFloatFromText_result[OF sample inv1(1) t, of "if pik = [] then lower L t else pik" r l'] pik
        by auto
    next
      case v: (Some v)
      with Some raw have spec: "numberByName L fs ps (lower L t) = Some v" by (simp add: numberByName_def)
      from eq pn Some raw v have "r = Some v" "l' = (if cacheable then cacheParsedFloat ?l (lower L t) v else ?l)"
        by (auto simp: getFloatFromNorm_def Let_def)
      with spec lookupInv_cacheParsed[OF inv1(1), of "lower L t" v] low inv1(1) show ?thesis by simp
    qed
  qed
qed

lemma getFloat_result:
  assumes sample: "noCaseClash L fs ps" "goodLower L" "goodOrder ord" and inv: "lookupInv L ord fs ps l"
    and t: "trimCollectorText t = t"
    and eq: "getFloatByPreparedKeys L ord l t (lower L t) = (r, l')"
  shows "r = numberByName L fs ps (lower L t) \<and> lookupInv L ord fs ps l'"
proof (cases "getCachedFloat l t (lower L t)")
  case (Some v)
  with eq have "r = Some v" "l' = l" by (auto simp: getFloatByPreparedKeys_def)
  with getCachedFloat_sound[OF inv sample(2) _ Some] inv show ?thesis by simp
next
  case cache: None
  show ?thesis
  proof (cases "isKnownInvalid l t (lower L t)")
    case True
    with eq cache have "r = None" "l' = l" by (auto simp: getFloatByPreparedKeys_def)
    with isKnownInvalid_sound[OF inv sample(2) _ True] inv show ?thesis by simp
  next
    case valid: False
    show ?thesis
    proof (cases "ps = []")
      case True
      with eq cache valid inv have "getFloatFromText L ord t (lower L t) l [] = (r, l')"
        by (simp add: getFloatByPreparedKeys_def lookupInv_base)
      moreover have "pointByName L ps (lower L t) = None" using True by (simp add: pointByName_def)
      ultimately show ?thesis using getFloatFromText_result[OF sample inv t, of "[]" r l'] by simp
    next
      case ps: False
      let ?l = "ensurePointRaw l"
      note inv1 = lookupInv_pointRaw[OF inv]
      have pr: "mapLookup (nl_pointRaw ?l) t = map_of (pointTable ps) t"
        using inv1(2)[OF ps] by (simp add: mapLookup_def)
      show ?thesis
      proof (cases "map_of (pointTable ps) t")
        case None
        with eq cache valid inv ps pr have "getFloatFromNorm L ord t (lower L t) ?l [] = (r, l')"
          by (simp add: getFloatByPreparedKeys_def lookupInv_base Let_def)
        then show ?thesis by (rule getFloatFromNorm_result[OF sample inv1(1) t _ ps, rotated]) simp
      next
        case (Some raw)
        obtain num cacheable where raw: "parseNumericPointValue L raw = (num, cacheable)" by fastforce
        show ?thesis
        proof (cases num)
          case None
          with eq cache valid inv ps pr Some raw
          have "getFloatFromNorm L ord t (lower L t) ?l t = (r, l')"
            by (simp add: getFloatByPreparedKeys_def lookupInv_base Let_def)
          then show ?thesis by (rule getFloatFromNorm_result[OF sample inv1(1) t _ ps, rotated]) simp
        next
          case v: (Some v)
          have spec: "numberByName L fs ps (lower L t) = Some v"
            using point_exact[OF sample(1,2) Some] raw v by (simp add: numberByName_def)
          from eq cache valid inv ps pr Some raw v
          have "r = Some v" "l' = (if cacheable then cacheParsedFloat ?l t v else ?l)"
            by (auto simp: getFloatByPreparedKeys_def lookupInv_base Let_def)
          with spec lookupInv_cacheParsed[OF inv1(1)] inv1(1) show ?thesis by simp
        qed
      qed
    qed
  qed
qed

section \<open>Pooled maps\<close>

lemma fold_delete_all: "fst ` set es \<subseteq> set ks \<Longrightarrow> fold (\<lambda>key m'. AList.delete key m') ks es = []"
proof (induction ks arbitrary: es)
  case (Cons k ks)
  have "fst ` set (AList.delete k es) \<subseteq> set ks" using Cons.prems by (auto simp: AList.delete_eq)
  with Cons.IH show ?case by simp
qed simp

text \<open>Releasing empties a map before it is pooled, so an acquired map is empty: the lookups may
  start their maps from \<open>[]\<close>.\<close>

lemma release_poolOK: "poolOK pool \<Longrightarrow> poolOK (releaseMap m pool)"
  by (auto simp: poolOK_def releaseMap_def fold_delete_all split: option.split)

lemma acquire_empty:
  assumes "poolOK pool"
  shows "fst (acquireMap pick pool) = [] \<and> poolOK (snd (acquireMap pick pool))"
  using assms by (auto simp: poolOK_def acquireMap_def list_all_iff split: option.split dest: in_set_takeD in_set_dropD)

section \<open>Sequences of lookups\<close>

definition queryField :: "golib \<Rightarrow> mapOrder \<Rightarrow> numericFieldLookup \<Rightarrow> string \<Rightarrow> float64 option \<times> numericFieldLookup" where
  "queryField L ord l field = getFloatByPreparedKeys L ord l (TrimSpace field) (normalizeFieldName L (TrimSpace field))"

fun queryFields :: "golib \<Rightarrow> mapOrder \<Rightarrow> numericFieldLookup \<Rightarrow> string list \<Rightarrow> float64 option list" where
  "queryFields L ord l [] = []"
| "queryFields L ord l (field # rest) =
     (let (r, l) = queryField L ord l field in r # queryFields L ord l rest)"

lemma queryField_result:
  assumes "noCaseClash L fs ps" "goodLower L" "goodOrder ord" "lookupInv L ord fs ps l"
    and "queryField L ord l field = (r, l')"
  shows "r = numberByName L fs ps (lower L (TrimSpace field)) \<and> lookupInv L ord fs ps l'"
proof -
  have t: "trimCollectorText (TrimSpace field) = TrimSpace field" by (simp add: trimCollectorText_eq)
  then show ?thesis
    using getFloat_result[OF assms(1-4) t] assms(5) by (simp add: queryField_def normalize_lower)
qed

lemma queryFields_reference:
  assumes "noCaseClash L fs ps" "goodLower L" "goodOrder ord"
  shows "lookupInv L ord fs ps l \<Longrightarrow>
    queryFields L ord l names = map (\<lambda>n. numberByName L fs ps (lower L (TrimSpace n))) names"
proof (induction names arbitrary: l)
  case (Cons n names)
  obtain r l' where q: "queryField L ord l n = (r, l')" by fastforce
  from queryField_result[OF assms Cons.prems q] Cons.IH[of l'] q show ?case by simp
qed simp

lemma asciiLower_idem [simp]: "asciiLower (asciiLower c) = asciiLower c"
  by (auto simp: asciiLower_def of_char_of)

lemma asciiLower_ASCII: "isASCII c \<Longrightarrow> isASCII (asciiLower c)"
  by (auto simp: asciiLower_def isASCII_def runeSelf_def of_char_of)

lemma goodLower_id: "uniLower L = id \<Longrightarrow> goodLower L"
  by (auto simp: goodLower_def ToLower_def list_all_iff asciiLower_ASCII)

definition exampleLib :: golib where
  "exampleLib = \<lparr>uniLower = id, uniUpper = id,
     parseFloat = (\<lambda>s. if s = ''1'' then Some (f64_of_int 1) else if s = ''2'' then Some (f64_of_int 2) else None),
     formatFloat = \<lambda>_ _. []\<rparr>"

section \<open>Checking rules\<close>

lemma buildRule_simps:
  "er_threshold (buildThresholdEvalRule L (Some th)) = Some th"
  "er_fieldName (buildThresholdEvalRule L (Some th)) = TrimSpace (th_FieldName th)"
  "er_normalizedFieldName (buildThresholdEvalRule L (Some th)) = normalizeFieldName L (TrimSpace (th_FieldName th))"
  "er_operator (buildThresholdEvalRule L (Some th)) = TrimSpace (th_Operator th)"
  "er_thresholdValue (buildThresholdEvalRule L (Some th)) = th_Value th"
  "er_shielded (buildThresholdEvalRule L (Some th)) = (th_Shielded th = 1)"
  "er_alarmKey (buildThresholdEvalRule L (Some th)) = buildAlarmStateKey L 0 (Some th)"
  "er_alarmIDKey (buildThresholdEvalRule L (Some th)) = alarmStateIDFromKey (buildAlarmStateKey L 0 (Some th))"
  by (simp_all add: buildThresholdEvalRule_def Let_def)

lemma buildKey_ID:
  "th_ID th > 0 \<Longrightarrow> alarmStateIDFromKey (buildAlarmStateKey L d (Some th)) =
     Some \<lparr>ik_DeviceID = d, ik_ThresholdID = th_ID th\<rparr>"
  "\<not> th_ID th > 0 \<Longrightarrow> alarmStateIDFromKey (buildAlarmStateKey L d (Some th)) = None"
  "(buildAlarmStateKey L 0 (Some th))\<lparr>ak_DeviceID := d\<rparr> = buildAlarmStateKey L d (Some th)"
  by (simp_all add: buildAlarmStateKey_def alarmStateIDFromKey_def)

text \<open>When the stored state lets an alarm of this threshold through at \<open>now\<close>.\<close>

definition armed :: "golib \<Rightarrow> int \<Rightarrow> gotime \<Rightarrow> duration \<Rightarrow> alarmStore \<Rightarrow> Threshold \<Rightarrow> bool" where
  "armed L d now ri s th \<longleftrightarrow>
     (case getAlarmStateLocked s (buildAlarmStateKey L d (Some th)) of
        None \<Rightarrow> True | Some u \<Rightarrow> u = 0 \<or> ri \<le> now - u)"

definition fires :: "golib \<Rightarrow> fieldMap \<Rightarrow> CollectPoint list \<Rightarrow> Threshold \<Rightarrow> float64 \<Rightarrow> bool" where
  "fires L fs ps th v \<longleftrightarrow> th_Shielded th \<noteq> 1 \<and>
     numberByName L fs ps (lower L (TrimSpace (th_FieldName th))) = Some v \<and>
     thresholdMatch v (TrimSpace (th_Operator th)) (th_Value th)"

text \<open>One rule: the throttle decides for a threshold that fires.\<close>

lemma checkRule_built:
  assumes "0 < now" "0 < ri" and q: "queryField L ord l (th_FieldName th) = (r, l1)"
  shows "checkRule L ord now ri d (buildThresholdEvalRule L (Some th)) (l, s) =
    (if th_Shielded th = 1 then (None, (l, s))
     else case r of None \<Rightarrow> (None, (l1, s))
       | Some v \<Rightarrow> if \<not> thresholdMatch v (TrimSpace (th_Operator th)) (th_Value th) then (None, (l1, s))
           else let (emit, s) = shouldEmitAlarmForKey now s (buildAlarmStateKey L d (Some th)) now ri
                in (if emit then Some (th, v) else None, (l1, s)))"
proof -
  have id: "shouldEmitAlarmForKey now s (buildAlarmStateKey L d (Some th)) now ri =
      shouldEmitAlarmForIDKey now s \<lparr>ik_DeviceID = d, ik_ThresholdID = th_ID th\<rparr> now ri" if "th_ID th > 0"
    using that assms(1,2) by (simp add: buildKey_ID shouldEmitAlarmForKey_def Let_def IsZero_def)
  show ?thesis
    using q unfolding checkRule_def queryField_def
    by (cases r; cases "th_ID th > 0"; simp add: buildRule_simps buildKey_ID id)
qed

lemma checkRule_result:
  assumes sample: "noCaseClash L fs ps" "goodLower L" "goodOrder ord" and inv: "lookupInv L ord fs ps l"
    and pos: "0 < now" "0 < ri"
    and eq: "checkRule L ord now ri d (buildThresholdEvalRule L (Some th)) (l, s) = (a, (l', s'))"
  shows "lookupInv L ord fs ps l' \<and>
    (if \<exists>v. fires L fs ps th v
     then s' = snd (shouldEmitAlarmForKey now s (buildAlarmStateKey L d (Some th)) now ri) \<and>
          (if fst (shouldEmitAlarmForKey now s (buildAlarmStateKey L d (Some th)) now ri)
           then \<exists>v. fires L fs ps th v \<and> a = Some (th, v) else a = None)
     else a = None \<and> s' = s)"
proof -
  obtain r l1 where q: "queryField L ord l (th_FieldName th) = (r, l1)" by fastforce
  have inv1: "lookupInv L ord fs ps l1" and r: "r = numberByName L fs ps (lower L (TrimSpace (th_FieldName th)))"
    using queryField_result[OF sample inv q] by auto
  have fires: "fires L fs ps th v \<longleftrightarrow> th_Shielded th \<noteq> 1 \<and> r = Some v \<and>
      thresholdMatch v (TrimSpace (th_Operator th)) (th_Value th)" for v
    using r by (auto simp: fires_def)
  show ?thesis
    using eq inv inv1 unfolding checkRule_built[OF pos q] fires
    by (cases r) (auto split: if_splits prod.splits)
qed

lemma emitForKey_armed:
  assumes "0 < now" "0 < ri" "ri \<le> maxAlarmStateTTL"
  shows "fst (shouldEmitAlarmForKey clock s (buildAlarmStateKey L d (Some th)) now ri) = armed L d now ri s th"
  using emitForKey_fst[OF assms] by (simp add: armed_def)

lemma armed_step:
  assumes "0 < now" "0 < ri" "ri \<le> maxAlarmStateTTL" and "armed L d now ri s th" "th_ID th > 0"
    and "th_ID th' \<noteq> th_ID th"
  shows "armed L d now ri (snd (shouldEmitAlarmForKey clock s (buildAlarmStateKey L d (Some th')) now ri)) th"
proof -
  have "\<not> alarmKeySame (buildAlarmStateKey L d (Some th')) (buildAlarmStateKey L d (Some th))"
    using assms(5,6) by (cases "th_ID th' > 0") (simp_all add: alarmKeySame_def buildKey_ID)
  then show ?thesis
    using emitForKey_get[OF assms(1,2)] assms(4) by (simp add: armed_def)
qed

lemma checkRules_sound:
  assumes sample: "noCaseClash L fs ps" "goodLower L" "goodOrder ord" and pos: "0 < now" "0 < ri"
  shows "lookupInv L ord fs ps l \<Longrightarrow>
    (th, v) \<in> set (fst (checkRules L ord now ri d (l, s) (map (\<lambda>th. buildThresholdEvalRule L (Some th)) ths))) \<Longrightarrow>
    th \<in> set ths \<and> fires L fs ps th v"
proof (induction ths arbitrary: l s)
  case (Cons th0 ths)
  obtain a l1 s1 where c: "checkRule L ord now ri d (buildThresholdEvalRule L (Some th0)) (l, s) = (a, (l1, s1))"
    by (metis prod_cases3)
  note res = checkRule_result[OF sample Cons.prems(1) pos c]
  have "a = Some (th, v) \<or>
      (th, v) \<in> set (fst (checkRules L ord now ri d (l1, s1) (map (\<lambda>th. buildThresholdEvalRule L (Some th)) ths)))"
    using Cons.prems(2) c by (auto simp: case_prod_beta Let_def split: option.splits)
  then show ?case
  proof
    assume "a = Some (th, v)"
    with res show ?thesis by (auto split: if_splits)
  next
    assume "(th, v) \<in> set (fst (checkRules L ord now ri d (l1, s1) (map (\<lambda>th. buildThresholdEvalRule L (Some th)) ths)))"
    with Cons.IH[of l1 s1] res show ?thesis by simp
  qed
qed simp

lemma checkRules_complete:
  assumes sample: "noCaseClash L fs ps" "goodLower L" "goodOrder ord" and pos: "0 < now" "0 < ri"
    and ri: "ri \<le> maxAlarmStateTTL" and th: "fires L fs ps th v" "th_ID th > 0"
  shows "lookupInv L ord fs ps l \<Longrightarrow> armed L d now ri s th \<Longrightarrow> th \<in> set ths \<Longrightarrow> distinct (map th_ID ths) \<Longrightarrow>
    (th, v) \<in> set (fst (checkRules L ord now ri d (l, s) (map (\<lambda>th. buildThresholdEvalRule L (Some th)) ths)))"
proof (induction ths arbitrary: l s)
  case (Cons th0 ths)
  obtain a l1 s1 where c: "checkRule L ord now ri d (buildThresholdEvalRule L (Some th0)) (l, s) = (a, (l1, s1))"
    by (metis prod_cases3)
  note res = checkRule_result[OF sample Cons.prems(1) pos c]
  have step: "fst (checkRules L ord now ri d (l, s) (map (\<lambda>th. buildThresholdEvalRule L (Some th)) (th0 # ths))) =
      (case a of None \<Rightarrow> [] | Some x \<Rightarrow> [x]) @
      fst (checkRules L ord now ri d (l1, s1) (map (\<lambda>th. buildThresholdEvalRule L (Some th)) ths))"
    using c by (simp add: case_prod_beta Let_def split: option.split)
  show ?case
  proof (cases "th0 = th")
    case True
    have "fires L fs ps th w \<Longrightarrow> w = v" for w using th(1) by (simp add: fires_def)
    moreover have "\<exists>w. fires L fs ps th w \<and> a = Some (th, w)"
      using res th(1) emitForKey_armed[OF pos ri, of now s L d th] Cons.prems(2) True by (simp split: if_splits)
    ultimately have "a = Some (th, v)" by blast
    then show ?thesis unfolding step by simp
  next
    case False
    then have mem: "th \<in> set ths" "th_ID th0 \<noteq> th_ID th" using Cons.prems(3,4) by auto
    have "armed L d now ri s1 th"
      using res armed_step[OF pos ri Cons.prems(2) th(2) mem(2), of now] Cons.prems(2)
      by (simp split: if_splits)
    with Cons.IH[of l1 s1] res mem(1) Cons.prems(4) show ?thesis unfolding step by simp
  qed
qed simp

section \<open>The cache against the database\<close>

text \<open>The database answers of one moment: the list of a device is the device's part of the list
  of all thresholds.\<close>

definition dbConsistent :: "thresholdDB \<Rightarrow> Threshold list \<Rightarrow> bool" where
  "dbConsistent db all \<longleftrightarrow> db_ListThresholds db = Some (map Some all) \<and>
     (\<forall>d. db_ListThresholdsByDevice db d = Some (map Some (filter (\<lambda>th. th_DeviceID th = d) all)))"

definition deviceRules :: "golib \<Rightarrow> Threshold list \<Rightarrow> int \<Rightarrow> thresholdEvalRule list" where
  "deviceRules L all d = map (\<lambda>th. buildThresholdEvalRule L (Some (normalizeThresholdForRuntime th)))
     (filter (\<lambda>th. th_DeviceID th = d) all)"

lemma map_filter_Some: "List.map_filter id (map Some xs) = xs"
  by (induction xs) simp_all

lemma normalize_DeviceID [simp]: "th_DeviceID (normalizeThresholdForRuntime th) = th_DeviceID th"
  by (simp add: normalizeThresholdForRuntime_def)

lemma appendAt_get: "appendAt m k v d = (if d = k then Some ((case m k of None \<Rightarrow> [] | Some vs \<Rightarrow> vs) @ [v]) else m d)"
  by (simp add: appendAt_def)

text \<open>The lists of one device after the loop: what was there, followed by what the loop adds.\<close>

lemma refreshThresholds_get:
  "fst (refreshThresholds L valid m r (map Some all)) d =
     (if d \<noteq> 0 \<and> valid d \<and> filter (\<lambda>th. th_DeviceID th = d) all \<noteq> []
      then Some ((case m d of None \<Rightarrow> [] | Some x \<Rightarrow> x) @
             map (\<lambda>th. Some (normalizeThresholdForRuntime th)) (filter (\<lambda>th. th_DeviceID th = d) all))
      else m d)"
  "snd (refreshThresholds L valid m r (map Some all)) d =
     (if d \<noteq> 0 \<and> valid d \<and> filter (\<lambda>th. th_DeviceID th = d) all \<noteq> []
      then Some ((case r d of None \<Rightarrow> [] | Some x \<Rightarrow> x) @ deviceRules L all d) else r d)"
  by (induction all arbitrary: m r) (auto simp: appendAt_get Let_def deviceRules_def)

lemma Refresh_get:
  assumes "dbConsistent db all"
  shows "Refresh L db now c = c \<or>
    (tc_thresholds (Refresh L db now c) d = None) \<or>
    (tc_thresholds (Refresh L db now c) d \<noteq> None \<and>
     tc_rules (Refresh L db now c) d = Some (deviceRules L all d) \<and> deviceRules L all d \<noteq> [])"
proof (cases "db_ListDevices db")
  case (Some devices)
  then show ?thesis
    using assms
    by (auto simp: Refresh_def dbConsistent_def Let_def case_prod_beta refreshThresholds_get deviceRules_def
        filter_empty_conv)
qed (simp add: Refresh_def)

lemma cacheEntry_missing:
  assumes "dbConsistent db all" and "tc_thresholds c' d = None"
    and "c' = (if time_Sub now (tc_lastRefresh c) > wrap64 (tc_interval c * 2) then Refresh L db now c else c)"
  shows "fst (getDeviceThresholdRules L db now c d) = Some (deviceRules L all d)"
  using assms
  by (auto simp: getDeviceThresholdRules_def getThresholdCacheEntry_def Let_def dbConsistent_def
      buildRules_def deviceRules_def map_filter_Some split: option.splits)

section \<open>Properties\<close>



text \<open>the caches are not transparent when two names of a sample differ in case only. With the
  points \<open>temp\<close> = 1 and \<open>TEMP\<close> = 2, a rule for \<open>TEMP\<close> that is evaluated after a rule
  for \<open>temp\<close> compares the value 1 of the other point, because the cached number of \<open>temp\<close>
  also answers the fallback key of \<open>TEMP\<close>; on its own it compares the value 2.\<close>

theorem lookup_cache_case_clash:
  "let ps = [\<lparr>cp_FieldName = ''temp'', cp_Value = AnyString ''1'', cp_RW = []\<rparr>,
             \<lparr>cp_FieldName = ''TEMP'', cp_Value = AnyString ''2'', cp_RW = []\<rparr>]
   in queryFields exampleLib id (newNumericFieldLookup [] ps) [''temp'', ''TEMP'']
        = [Some (f64_of_int 1), Some (f64_of_int 1)] \<and>
      queryFields exampleLib id (newNumericFieldLookup [] ps) [''TEMP''] = [Some (f64_of_int 2)]"
  by (simp add: queryField_def getFloatByPreparedKeys_def getCachedFloat_def isKnownInvalid_def
      newNumericFieldLookup_def ensurePointRaw_def mapLookup_def cacheParsedFloat_def
      parseNumericPointValue_def exampleLib_def normalize_lower trimCollectorText_eq TrimSpace_plain ascii_eval)

definition alarmLogOf :: "Device \<Rightarrow> Threshold \<Rightarrow> float64 \<Rightarrow> AlarmLog" where
  "alarmLogOf device th v = \<lparr>al_DeviceID = dev_ID device, al_ThresholdID = th_ID th,
     al_FieldName = th_FieldName th, al_ActualValue = v, al_ThresholdValue = th_Value th,
     al_Operator = th_Operator th, al_Severity = th_Severity th, al_Message = th_Message th\<rparr>"

lemma handleAlarm_log: "CreateAlarmLog log \<in> set (handleAlarm nb device th v) \<longleftrightarrow> log = alarmLogOf device th v"
  by (auto simp: handleAlarm_def alarmLogOf_def)

lemma armed_prune:
  "storeOK s \<Longrightarrow> armed L d now ri s th \<Longrightarrow> armed L d now ri (maybePruneAlarmStates clock s t r) th"
  using keyThrottle.prune_weak[of s clock t r "buildAlarmStateKey L d (Some th)"]
  by (auto simp: armed_def)

lemma resolve_keeps:
  assumes "resolveAlarmRepeatInterval dbReady nowNS seconds s = (ri, s')"
  shows "as_data s' = as_data s \<and> as_byID s' = as_byID s \<and> as_counter s' = as_counter s"
  using assms by (auto simp: resolveAlarmRepeatInterval_def Let_def split: if_splits)


definition exampleThreshold :: Threshold where
  "exampleThreshold = \<lparr>th_ID = 7, th_DeviceID = 1, th_FieldName = ''temp'', th_Operator = ''>'', th_Value = 0,
     th_Severity = [], th_Shielded = 0, th_Message = []\<rparr>"

definition exampleDB :: thresholdDB where
  "exampleDB = \<lparr>db_ListDevices = None, db_ListThresholds = Some [Some exampleThreshold],
     db_ListThresholdsByDevice = \<lambda>d. Some (if d = 1 then [Some exampleThreshold] else [])\<rparr>"

definition exampleDevice :: Device where
  "exampleDevice = \<lparr>dev_ID = 1, dev_Name = ''d'', dev_Description = [], dev_ProductKey = ''p'', dev_DeviceKey = ''k'',
     dev_DriverType = [], dev_SerialPort = [], dev_BaudRate = 9600, dev_DataBits = 8, dev_StopBits = 1,
     dev_Parity = [], dev_IPAddress = [], dev_PortNum = 0, dev_DeviceAddress = [], dev_CollectInterval = 1000,
     dev_StorageInterval = 300, dev_Timeout = 0, dev_DriverID = None, dev_ResourceID = None,
     dev_ResourceType = [], dev_Enabled = 1\<rparr>"

definition exampleData :: CollectData where
  "exampleData = \<lparr>cd_DeviceID = 1, cd_DeviceName = [], cd_ProductKey = [], cd_DeviceKey = [], cd_Timestamp = 5,
     cd_Fields = [(''Temp'', ''2'')], cd_Points = [], cd_fieldsDone = False\<rparr>"


text \<open>the threshold cache never serves stale rules after an invalidation. Once
  \<open>InvalidateDeviceCache\<close> has run for a device, the next read returns the rules of the thresholds
  the database has for the device at that moment, whatever the cache held, whether the
  cache is due for a refresh and whether that refresh succeeds.\<close>

theorem invalidate_then_read:
  assumes "dbConsistent db all"
  shows "fst (getDeviceThresholdRules L db now (InvalidateDeviceCache c d) d) = Some (deviceRules L all d)"
proof -
  let ?c = "InvalidateDeviceCache c d"
  let ?r = "if time_Sub now (tc_lastRefresh ?c) > wrap64 (tc_interval ?c * 2) then Refresh L db now ?c else ?c"
  have none: "tc_thresholds ?c d = None" by (simp add: InvalidateDeviceCache_def)
  show ?thesis
  proof (cases "tc_thresholds ?r d")
    case None
    then show ?thesis by (intro cacheEntry_missing[OF assms None]) simp
  next
    case (Some ths)
    with none have r: "?r = Refresh L db now ?c" "Refresh L db now ?c \<noteq> ?c" by (auto split: if_splits)
    with Refresh_get[OF assms, of L now ?c d] Some
    have "tc_rules ?r d = Some (deviceRules L all d)" "deviceRules L all d \<noteq> []" by auto
    with Some show ?thesis
      by (simp add: getDeviceThresholdRules_def getThresholdCacheEntry_def Let_def)
  qed
qed

theorem invalidate_then_read_witness:
  "fst (getDeviceThresholdRules exampleLib exampleDB 5 (InvalidateDeviceCache initThresholdCache 1) 1) =
     Some (deviceRules exampleLib [exampleThreshold] 1)"
  by (rule invalidate_then_read) (simp add: dbConsistent_def exampleDB_def exampleThreshold_def)

text \<open>Comparison operators and NaN. On numbers \<open>>=\<close> is the negation of \<open><\<close>, \<open><=\<close> that of
  \<open>>\<close> and \<open>!=\<close> that of \<open>==\<close>; a NaN value makes \<open>!=\<close> fire and nothing else; an
  operator outside the six never fires.\<close>

theorem thresholdMatch_operators:
  "(\<not> f64_isNaN v \<and> \<not> f64_isNaN w \<longrightarrow>
      thresholdMatch v ''>='' w = (\<not> thresholdMatch v ''<'' w) \<and>
      thresholdMatch v ''<='' w = (\<not> thresholdMatch v ''>'' w)) \<and>
   thresholdMatch v ''!='' w = (\<not> thresholdMatch v ''=='' w) \<and>
   (f64_isNaN v \<longrightarrow> thresholdMatch v op w = (op = ''!='')) \<and>
   (op \<notin> {''>'', ''<'', ''>='', ''<='', ''=='', ''!=''} \<longrightarrow> \<not> thresholdMatch v op w)"
  by (auto simp: thresholdMatch_def f64_defs)

theorem thresholdMatch_operators_witness:
  "thresholdMatch 0x4000000000000000 ''>='' 0x3FF0000000000000 \<and>
   \<not> thresholdMatch 0x7FF8000000000000 ''>'' 0 \<and> thresholdMatch 0x7FF8000000000000 ''!='' 0"
proof -
  have nan: "\<not> f64_isNaN 0x4000000000000000" "\<not> f64_isNaN 0x3FF0000000000000" "f64_isNaN 0x7FF8000000000000"
    by (simp_all add: f64_isNaN_def)
  have "\<not> thresholdMatch 0x4000000000000000 ''<'' 0x3FF0000000000000"
    by (simp add: thresholdMatch_def f64_lt_def f64_key_def)
  with nan show ?thesis
    using thresholdMatch_operators [of "0x4000000000000000" "0x3FF0000000000000" "''>''"]
      thresholdMatch_operators [of "0x7FF8000000000000" 0 "''>''"]
      thresholdMatch_operators [of "0x7FF8000000000000" 0 "''!=''"] by blast
qed

end
