(* ===== verification/Task_Heap.thy ===== *)
theory Task_Heap
  imports Models "HOL-Library.Multiset"
begin

text \<open>
  The priority queue of the collector (\<open>internal/collector/collector.go\<close>): the task record,
  the heap interface \<open>taskHeap\<close> (\<open>Less\<close>, \<open>Swap\<close>, \<open>Push\<close>, \<open>Pop\<close>) and the algorithms of
  the standard library's \<open>container/heap\<close> that the collector runs on it (\<open>Push\<close>, \<open>Pop\<close>,
  \<open>Remove\<close>, \<open>Fix\<close>).

  Tasks are shared by pointer between the task table, the heap and the goroutine that
  collects: a task is a reference into a store, and the heap is a list of references. \<open>Swap\<close>
  writes the position of a task into its field \<open>index\<close>, on which \<open>heap.Remove\<close> and \<open>heap.Fix\<close>
  later rely.
\<close>

section \<open>Tasks and the heap interface\<close>

datatype collectErrorKind =
    collectErrorKindNone | collectErrorKindTimeout | collectErrorKindNetwork
  | collectErrorKindResource | collectErrorKindDriver | collectErrorKindCanceled
  | collectErrorKindUnknown

type_synonym taskRef = nat

record collectTask =
  ct_device :: Device
  ct_deviceProductKey :: string
  ct_deviceKey :: string
  ct_interval :: duration
  ct_storageInterval :: duration
  ct_nextRun :: gotime
  ct_lastRun :: gotime
  ct_lastStored :: gotime
  ct_lastErrorAt :: gotime
  ct_lastError :: string
  ct_lastErrorKind :: collectErrorKind
  ct_consecutiveFailures :: int
  ct_index :: int

record taskQueue =
  tq_store :: "taskRef \<Rightarrow> collectTask"
  tq_heap :: "taskRef list"

abbreviation tq_len :: "taskQueue \<Rightarrow> nat" where
  "tq_len q \<equiv> length (tq_heap q)"

definition setIndex :: "taskRef \<Rightarrow> int \<Rightarrow> (taskRef \<Rightarrow> collectTask) \<Rightarrow> (taskRef \<Rightarrow> collectTask)" where
  "setIndex r i st = st(r := (st r)\<lparr>ct_index := i\<rparr>)"

definition taskHeap_Less :: "taskQueue \<Rightarrow> nat \<Rightarrow> nat \<Rightarrow> bool" where
  "taskHeap_Less q i j =
     time_Before (ct_nextRun (tq_store q (tq_heap q ! i))) (ct_nextRun (tq_store q (tq_heap q ! j)))"

definition taskHeap_Swap :: "taskQueue \<Rightarrow> nat \<Rightarrow> nat \<Rightarrow> taskQueue" where
  "taskHeap_Swap q i j =
     (let h = (tq_heap q)[i := tq_heap q ! j, j := tq_heap q ! i]
      in q\<lparr>tq_heap := h, tq_store := setIndex (h ! j) (int j) (setIndex (h ! i) (int i) (tq_store q))\<rparr>)"

definition taskHeap_Push :: "taskQueue \<Rightarrow> taskRef \<Rightarrow> taskQueue" where
  "taskHeap_Push q r =
     q\<lparr>tq_store := setIndex r (int (tq_len q)) (tq_store q), tq_heap := tq_heap q @ [r]\<rparr>"

definition taskHeap_Pop :: "taskQueue \<Rightarrow> taskRef \<times> taskQueue" where
  "taskHeap_Pop q =
     (let r = tq_heap q ! (tq_len q - 1)
      in (r, q\<lparr>tq_store := setIndex r (-1) (tq_store q), tq_heap := butlast (tq_heap q)\<rparr>))"

section \<open>container/heap\<close>

abbreviation parent :: "nat \<Rightarrow> nat" where
  "parent j \<equiv> (j - 1) div 2"

function heap_up :: "taskQueue \<Rightarrow> nat \<Rightarrow> taskQueue" where
  "heap_up q j =
     (let i = parent j
      in if i = j \<or> \<not> taskHeap_Less q j i then q else heap_up (taskHeap_Swap q i j) i)"
  by pat_completeness auto
termination by (relation "measure snd") auto

declare heap_up.simps [simp del]

definition smallerChild :: "taskQueue \<Rightarrow> nat \<Rightarrow> nat \<Rightarrow> nat" where
  "smallerChild q n i =
     (let j1 = 2 * i + 1; j2 = j1 + 1 in if j2 < n \<and> taskHeap_Less q j2 j1 then j2 else j1)"

text \<open>The loop of \<open>down\<close>: the queue and the position the element ends at.\<close>

function heap_downLoop :: "taskQueue \<Rightarrow> nat \<Rightarrow> nat \<Rightarrow> taskQueue \<times> nat" where
  "heap_downLoop q i n =
     (if 2 * i + 1 \<ge> n then (q, i)
      else let j = smallerChild q n i
           in if \<not> taskHeap_Less q j i then (q, i) else heap_downLoop (taskHeap_Swap q i j) j n)"
  by pat_completeness auto
termination
  by (relation "measure (\<lambda>(q, i, n). n - i)") (auto simp: smallerChild_def Let_def)

declare heap_downLoop.simps [simp del]

definition heap_down :: "taskQueue \<Rightarrow> nat \<Rightarrow> nat \<Rightarrow> bool \<times> taskQueue" where
  "heap_down q i0 n = (let (q', i) = heap_downLoop q i0 n in (i > i0, q'))"

definition heap_Push :: "taskQueue \<Rightarrow> taskRef \<Rightarrow> taskQueue" where
  "heap_Push q r = (let q = taskHeap_Push q r in heap_up q (tq_len q - 1))"

definition heap_Pop :: "taskQueue \<Rightarrow> taskRef \<times> taskQueue" where
  "heap_Pop q = (let n = tq_len q - 1; q = taskHeap_Swap q 0 n; (_, q) = heap_down q 0 n in taskHeap_Pop q)"

definition heap_Remove :: "taskQueue \<Rightarrow> nat \<Rightarrow> taskRef \<times> taskQueue" where
  "heap_Remove q i =
     (let n = tq_len q - 1;
          q = (if n \<noteq> i then
                 let q = taskHeap_Swap q i n; (moved, q) = heap_down q i n
                 in if \<not> moved then heap_up q i else q
               else q)
      in taskHeap_Pop q)"

definition heap_Fix :: "taskQueue \<Rightarrow> nat \<Rightarrow> taskQueue" where
  "heap_Fix q i = (let (moved, q') = heap_down q i (tq_len q) in if \<not> moved then heap_up q' i else q')"

section \<open>Invariant\<close>

text \<open>The instant at a position, the heap order on the first \<open>n\<close> positions, and the positions
  recorded in the tasks.\<close>

definition prioAt :: "taskQueue \<Rightarrow> nat \<Rightarrow> gotime" where
  "prioAt q i = ct_nextRun (tq_store q (tq_heap q ! i))"

definition heapOn :: "nat \<Rightarrow> taskQueue \<Rightarrow> bool" where
  "heapOn n q \<longleftrightarrow> (\<forall>k. 0 < k \<and> k < n \<longrightarrow> prioAt q (parent k) \<le> prioAt q k)"

definition indexOK :: "taskQueue \<Rightarrow> bool" where
  "indexOK q \<longleftrightarrow> distinct (tq_heap q) \<and>
     (\<forall>i < tq_len q. ct_index (tq_store q (tq_heap q ! i)) = int i)"

definition queueInv :: "taskQueue \<Rightarrow> bool" where
  "queueInv q \<longleftrightarrow> heapOn (tq_len q) q \<and> indexOK q \<and>
     (\<forall>r. r \<notin> set (tq_heap q) \<longrightarrow> ct_index (tq_store q r) = -1)"

text \<open>Rearranging: only the order of the heap and the positions recorded for its elements
  change.\<close>

definition rearranged :: "taskQueue \<Rightarrow> taskQueue \<Rightarrow> bool" where
  "rearranged q q' \<longleftrightarrow> mset (tq_heap q') = mset (tq_heap q) \<and>
     (\<forall>r. (tq_store q' r)\<lparr>ct_index := 0\<rparr> = (tq_store q r)\<lparr>ct_index := 0\<rparr>) \<and>
     (\<forall>r. r \<notin> set (tq_heap q) \<longrightarrow> tq_store q' r = tq_store q r) \<and>
     (indexOK q \<longrightarrow> indexOK q')"

section \<open>Swapping\<close>

lemma rearranged_refl [simp]: "rearranged q q"
  by (simp add: rearranged_def)

lemma rearranged_trans: "rearranged q q' \<Longrightarrow> rearranged q' q'' \<Longrightarrow> rearranged q q''"
  unfolding rearranged_def by (metis set_mset_mset)

lemma rearranged_len: "rearranged q q' \<Longrightarrow> tq_len q' = tq_len q"
  unfolding rearranged_def by (metis size_mset)

lemma rearranged_set: "rearranged q q' \<Longrightarrow> set (tq_heap q') = set (tq_heap q)"
  unfolding rearranged_def by (metis set_mset_mset)

lemma unindex_fields:
  assumes "t\<lparr>ct_index := 0\<rparr> = u\<lparr>ct_index := 0\<rparr>"
  shows "t = u\<lparr>ct_index := ct_index t\<rparr>"
  using assms by (cases t; cases u; simp)

lemma rearranged_nextRun: "rearranged q q' \<Longrightarrow> ct_nextRun (tq_store q' r) = ct_nextRun (tq_store q r)"
  unfolding rearranged_def by (metis collectTask.select_convs(6) collectTask.surjective collectTask.update_convs(13))

lemma Less_prio: "taskHeap_Less q i j \<longleftrightarrow> prioAt q i < prioAt q j"
  by (simp add: taskHeap_Less_def prioAt_def time_Before_def)

lemma setIndex_get: "setIndex r i st r' = (if r' = r then (st r)\<lparr>ct_index := i\<rparr> else st r')"
  by (simp add: setIndex_def)

lemma Swap_heap:
  "tq_heap (taskHeap_Swap q i j) = (tq_heap q)[i := tq_heap q ! j, j := tq_heap q ! i]"
  by (simp add: taskHeap_Swap_def Let_def)

lemma Swap_nextRun: "ct_nextRun (tq_store (taskHeap_Swap q i j) r) = ct_nextRun (tq_store q r)"
  by (simp add: taskHeap_Swap_def Let_def setIndex_get)

lemma Swap_prio:
  assumes "i < tq_len q" and "j < tq_len q"
  shows "prioAt (taskHeap_Swap q i j) k =
    (if k = j then prioAt q i else if k = i then prioAt q j else prioAt q k)"
  using assms by (simp add: prioAt_def Swap_heap Swap_nextRun nth_list_update)

lemma Swap_rearranged:
  assumes i: "i < tq_len q" and j: "j < tq_len q"
  shows "rearranged q (taskHeap_Swap q i j)"
proof -
  let ?h = "tq_heap q" and ?q = "taskHeap_Swap q i j"
  let ?h' = "?h[i := ?h ! j, j := ?h ! i]"
  have ms: "mset ?h' = mset ?h" by (rule mset_swap[OF j i])
  have at: "?h' ! i = ?h ! j" "?h' ! j = ?h ! i" using i j by (auto simp: nth_list_update)
  have store: "tq_store ?q = setIndex (?h ! i) (int j) (setIndex (?h ! j) (int i) (tq_store q))"
    by (simp add: taskHeap_Swap_def Let_def at)
  have "indexOK ?q" if ok: "indexOK q"
  proof -
    have d: "distinct ?h" and idx: "\<And>k. k < length ?h \<Longrightarrow> ct_index (tq_store q (?h ! k)) = int k"
      using ok by (auto simp: indexOK_def)
    have d': "distinct ?h'" using d ms by (metis mset_eq_imp_distinct_iff)
    have "ct_index (tq_store ?q (?h' ! k)) = int k" if k: "k < length ?h" for k
    proof -
      consider "k = j" | "k = i" "k \<noteq> j" | "k \<noteq> i" "k \<noteq> j" by blast
      then show ?thesis
      proof cases
        case 1
        then show ?thesis using at(2) unfolding store by (simp add: setIndex_get)
      next
        case 2
        then have "?h ! j \<noteq> ?h ! i" using d i j by (simp add: nth_eq_iff_index_eq)
        then show ?thesis using 2 at(1) unfolding store by (simp add: setIndex_get)
      next
        case 3
        then have "?h' ! k = ?h ! k" "?h ! k \<noteq> ?h ! i" "?h ! k \<noteq> ?h ! j"
          using d i j k by (simp_all add: nth_eq_iff_index_eq)
        then show ?thesis using idx[OF k] unfolding store by (simp add: setIndex_get)
      qed
    qed
    with d' show ?thesis by (simp add: indexOK_def Swap_heap)
  qed
  moreover have "tq_store ?q r = tq_store q r" if "r \<notin> set ?h" for r
    using that nth_mem[OF i] nth_mem[OF j] unfolding store setIndex_get by metis
  moreover have "(tq_store ?q r)\<lparr>ct_index := 0\<rparr> = (tq_store q r)\<lparr>ct_index := 0\<rparr>" for r
    unfolding store by (simp add: setIndex_get)
  ultimately show ?thesis
    unfolding rearranged_def Swap_heap ms by blast
qed

section \<open>Sifting\<close>

text \<open>The order holds everywhere but between \<open>j\<close> and its parent (\<open>upPre\<close>), or but between
  \<open>i\<close> and its children (\<open>downPre\<close>), or but around \<open>i\<close> (\<open>aroundPre\<close>); in each case the
  parent of the exceptional position is in order with its children.\<close>

definition bridge :: "nat \<Rightarrow> taskQueue \<Rightarrow> nat \<Rightarrow> bool" where
  "bridge n q j \<longleftrightarrow> (\<forall>k. 0 < k \<and> k < n \<and> parent k = j \<and> 0 < j \<longrightarrow> prioAt q (parent j) \<le> prioAt q k)"

definition upPre :: "nat \<Rightarrow> taskQueue \<Rightarrow> nat \<Rightarrow> bool" where
  "upPre n q j \<longleftrightarrow> (\<forall>k. 0 < k \<and> k < n \<and> k \<noteq> j \<longrightarrow> prioAt q (parent k) \<le> prioAt q k) \<and> bridge n q j"

definition downPre :: "nat \<Rightarrow> taskQueue \<Rightarrow> nat \<Rightarrow> bool" where
  "downPre n q i \<longleftrightarrow> (\<forall>k. 0 < k \<and> k < n \<and> parent k \<noteq> i \<longrightarrow> prioAt q (parent k) \<le> prioAt q k) \<and> bridge n q i"

definition aroundPre :: "nat \<Rightarrow> taskQueue \<Rightarrow> nat \<Rightarrow> bool" where
  "aroundPre n q i \<longleftrightarrow>
     (\<forall>k. 0 < k \<and> k < n \<and> k \<noteq> i \<and> parent k \<noteq> i \<longrightarrow> prioAt q (parent k) \<le> prioAt q k) \<and> bridge n q i"

lemma parent_less: "0 < k \<Longrightarrow> parent k < k"
  by auto

lemma upPre_step:
  assumes pre: "upPre n q j" and n: "n \<le> tq_len q" and j: "0 < j" "j < n" and less: "prioAt q j < prioAt q (parent j)"
  shows "upPre n (taskHeap_Swap q (parent j) j) (parent j)"
proof -
  let ?i = "parent j" and ?q = "taskHeap_Swap q (parent j) j"
  have ij: "?i < j" using j by auto
  then have prio: "prioAt ?q k = (if k = j then prioAt q ?i else if k = ?i then prioAt q j else prioAt q k)" for k
    using Swap_prio[of ?i q j k] j n by auto
  have h: "prioAt q (parent k) \<le> prioAt q k" if "0 < k" "k < n" "k \<noteq> j" for k
    using pre that by (simp add: upPre_def)
  have b: "prioAt q ?i \<le> prioAt q k" if "0 < k" "k < n" "parent k = j" for k
    using pre that j by (auto simp: upPre_def bridge_def)
  have "prioAt ?q (parent k) \<le> prioAt ?q k" if k: "0 < k" "k < n" "k \<noteq> ?i" for k
  proof (cases "k = j")
    case True
    then show ?thesis using prio ij less by auto
  next
    case False
    have pk: "parent k < k" using k(1) by auto
    consider "parent k = j" | "parent k = ?i" | "parent k \<noteq> j" "parent k \<noteq> ?i" by blast
    then show ?thesis
    proof cases
      case 1
      then show ?thesis using b[OF k(1,2)] prio[of j] prio[of k] False k(3) by simp
    next
      case 2
      then show ?thesis using h[OF k(1,2) False] less prio[of ?i] prio[of k] False k(3) ij by simp
    next
      case 3
      then show ?thesis using h[OF k(1,2) False] prio[of "parent k"] prio[of k] False k(3) by simp
    qed
  qed
  moreover have "prioAt ?q (parent ?i) \<le> prioAt ?q k" if k: "0 < k" "k < n" "parent k = ?i" "0 < ?i" for k
  proof -
    have "parent ?i < ?i" using k(4) by auto
    then have "prioAt ?q (parent ?i) = prioAt q (parent ?i)" using prio ij by simp
    moreover have up: "prioAt q (parent ?i) \<le> prioAt q ?i" using h[OF k(4)] ij j by simp
    moreover have "prioAt q ?i \<le> prioAt ?q k"
      using prio[of k] h[OF k(1,2)] k parent_less[OF k(1)] by (cases "k = j") auto
    ultimately show ?thesis by simp
  qed
  ultimately show ?thesis by (simp add: upPre_def bridge_def)
qed

lemma heap_up_correct:
  "j < n \<Longrightarrow> n \<le> tq_len q \<Longrightarrow> upPre n q j \<Longrightarrow>
     heapOn n (heap_up q j) \<and> rearranged q (heap_up q j)"
proof (induction q j rule: heap_up.induct)
  case (1 q j)
  let ?i = "parent j"
  show ?case
  proof (cases "?i = j \<or> \<not> taskHeap_Less q j ?i")
    case True
    then have "heap_up q j = q" by (subst heap_up.simps) simp
    moreover have "heapOn n q"
    proof (cases "0 < j")
      case True
      then have "prioAt q ?i \<le> prioAt q j"
        using \<open>?i = j \<or> \<not> taskHeap_Less q j ?i\<close> parent_less[OF True] by (auto simp: Less_prio)
      with "1.prems"(3) show ?thesis unfolding upPre_def heapOn_def by metis
    qed (use "1.prems"(3) in \<open>auto simp: upPre_def heapOn_def\<close>)
    ultimately show ?thesis by simp
  next
    case False
    then have j: "0 < j" and less: "prioAt q j < prioAt q ?i" by (auto simp: Less_prio)
    let ?q = "taskHeap_Swap q ?i j"
    have sw: "rearranged q ?q" using Swap_rearranged[of ?i q j] parent_less[OF j] "1.prems" by simp
    have "heapOn n (heap_up ?q ?i) \<and> rearranged ?q (heap_up ?q ?i)"
      using "1.IH"[OF refl False] upPre_step[OF "1.prems"(3,2) j "1.prems"(1) less] parent_less[OF j] "1.prems"
        rearranged_len[OF sw] by simp
    moreover have "heap_up q j = heap_up ?q ?i" using False by (subst heap_up.simps) (simp add: Let_def)
    ultimately show ?thesis using rearranged_trans[OF sw] by simp
  qed
qed

lemma smallerChild_props:
  assumes "2 * i + 1 < n"
  shows "parent (smallerChild q n i) = i" "smallerChild q n i < n" "i < smallerChild q n i"
    and "0 < k \<Longrightarrow> k < n \<Longrightarrow> parent k = i \<Longrightarrow> prioAt q (smallerChild q n i) \<le> prioAt q k"
proof -
  show "parent (smallerChild q n i) = i" "smallerChild q n i < n" "i < smallerChild q n i"
    using assms by (auto simp: smallerChild_def Let_def)
  assume k: "0 < k" "k < n" "parent k = i"
  then have "k = 2 * i + 1 \<or> k = 2 * i + 2" by presburger
  then show "prioAt q (smallerChild q n i) \<le> prioAt q k"
    using k(2) by (auto simp: smallerChild_def Let_def Less_prio)
qed

lemma aroundPre_step:
  assumes pre: "aroundPre n q i" and n: "n \<le> tq_len q" and c: "2 * i + 1 < n"
    and less: "prioAt q (smallerChild q n i) < prioAt q i"
  shows "downPre n (taskHeap_Swap q i (smallerChild q n i)) (smallerChild q n i)"
proof -
  let ?j = "smallerChild q n i" and ?q = "taskHeap_Swap q i (smallerChild q n i)"
  note sc = smallerChild_props[OF c, where q = q]
  have prio: "prioAt ?q k = (if k = ?j then prioAt q i else if k = i then prioAt q ?j else prioAt q k)" for k
    using Swap_prio[of i q ?j k] sc n by auto
  have h: "prioAt q (parent k) \<le> prioAt q k" if "0 < k" "k < n" "k \<noteq> i" "parent k \<noteq> i" for k
    using pre that by (simp add: aroundPre_def)
  have b: "prioAt q (parent i) \<le> prioAt q k" if "0 < k" "k < n" "parent k = i" "0 < i" for k
    using pre that by (simp add: aroundPre_def bridge_def)
  have "prioAt ?q (parent k) \<le> prioAt ?q k" if k: "0 < k" "k < n" "parent k \<noteq> ?j" for k
  proof -
    consider "k = ?j" | "k \<noteq> ?j" "parent k = i" | "k = i" "k \<noteq> ?j" | "k \<noteq> ?j" "parent k \<noteq> i" "k \<noteq> i" by blast
    then show ?thesis
    proof cases
      case 1
      then show ?thesis using prio[of "parent k"] prio[of k] sc less by simp
    next
      case 2
      then show ?thesis using prio[of i] prio[of k] sc(3,4) k parent_less[OF k(1)] by auto
    next
      case 3
      then have "parent i \<noteq> i" using k(1) by auto
      then show ?thesis using 3 prio[of "parent i"] prio[of i] b[of ?j] sc k by auto
    next
      case 4
      then show ?thesis using prio[of "parent k"] prio[of k] h[OF k(1,2)] k(3) by simp
    qed
  qed
  moreover have "prioAt ?q (parent ?j) \<le> prioAt ?q k" if k: "0 < k" "k < n" "parent k = ?j" for k
  proof -
    have "?j < k" using k(3) parent_less[OF k(1)] by simp
    then have "k \<noteq> ?j" "k \<noteq> i" using sc(3) by auto
    moreover have "prioAt q ?j \<le> prioAt q k" using h[OF k(1,2)] k(3) sc(3) \<open>k \<noteq> i\<close> by auto
    ultimately show ?thesis using prio[of i] prio[of k] sc(1,3) by simp
  qed
  ultimately show ?thesis by (simp add: downPre_def bridge_def)
qed

lemma downPre_around: "downPre n q i \<Longrightarrow> aroundPre n q i"
  by (simp add: downPre_def aroundPre_def)

lemma heap_downLoop_stop:
  assumes "2 * i + 1 \<ge> n \<or> \<not> taskHeap_Less q (smallerChild q n i) i"
  shows "heap_downLoop q i n = (q, i)"
    and "0 < k \<Longrightarrow> k < n \<Longrightarrow> parent k = i \<Longrightarrow> prioAt q i \<le> prioAt q k"
proof -
  show "heap_downLoop q i n = (q, i)" using assms by (subst heap_downLoop.simps) (auto simp: Let_def)
  assume k: "0 < k" "k < n" "parent k = i"
  then have "2 * i + 1 < n" by presburger
  with assms smallerChild_props(4)[OF this k, where q = q] show "prioAt q i \<le> prioAt q k"
    by (simp add: Less_prio)
qed

lemma heap_downLoop_step:
  assumes "2 * i + 1 < n" "taskHeap_Less q (smallerChild q n i) i"
  shows "heap_downLoop q i n = heap_downLoop (taskHeap_Swap q i (smallerChild q n i)) (smallerChild q n i) n"
  using assms by (subst heap_downLoop.simps) (auto simp: Let_def)

lemma heap_downLoop_correct:
  "n \<le> tq_len q \<Longrightarrow> downPre n q i \<Longrightarrow>
     heapOn n (fst (heap_downLoop q i n)) \<and> rearranged q (fst (heap_downLoop q i n)) \<and>
     i \<le> snd (heap_downLoop q i n)"
proof (induction q i n rule: heap_downLoop.induct)
  case (1 q i n)
  let ?j = "smallerChild q n i"
  show ?case
  proof (cases "2 * i + 1 \<ge> n \<or> \<not> taskHeap_Less q ?j i")
    case True
    note stop = heap_downLoop_stop[OF True]
    have "heapOn n q" using "1.prems"(2) stop(2) unfolding downPre_def heapOn_def by metis
    with stop(1) show ?thesis by simp
  next
    case False
    then have c: "2 * i + 1 < n" and l: "taskHeap_Less q ?j i" and nle: "\<not> n \<le> 2 * i + 1" by auto
    let ?q = "taskHeap_Swap q i ?j"
    have sw: "rearranged q ?q" using Swap_rearranged[of i q ?j] smallerChild_props[OF c, where q = q] "1.prems"(1) by simp
    have "downPre n ?q ?j"
      using aroundPre_step[OF downPre_around[OF "1.prems"(2)] "1.prems"(1) c] l by (simp add: Less_prio)
    with "1.IH"[OF nle refl] l "1.prems"(1) rearranged_len[OF sw]
    have "heapOn n (fst (heap_downLoop ?q ?j n)) \<and> rearranged ?q (fst (heap_downLoop ?q ?j n)) \<and>
        ?j \<le> snd (heap_downLoop ?q ?j n)" by simp
    with rearranged_trans[OF sw] smallerChild_props(3)[OF c, where q = q] heap_downLoop_step[OF c l] show ?thesis by auto
  qed
qed

text \<open>Restoring the order around one position: down, and up if it did not move.\<close>

lemma restore_around:
  assumes pre: "aroundPre n q i" and n: "n \<le> tq_len q" and i: "i < n" and d: "heap_down q i n = (moved, q')"
  shows "heapOn n (if \<not> moved then heap_up q' i else q') \<and> rearranged q (if \<not> moved then heap_up q' i else q')"
proof (cases "2 * i + 1 \<ge> n \<or> \<not> taskHeap_Less q (smallerChild q n i) i")
  case True
  note stop = heap_downLoop_stop[OF True]
  have "upPre n q i" using pre stop(2) unfolding aroundPre_def upPre_def by metis
  moreover have "q' = q" "\<not> moved" using d stop(1) by (auto simp: heap_down_def)
  ultimately show ?thesis using heap_up_correct[OF i n] by simp
next
  case False
  let ?j = "smallerChild q n i"
  let ?q = "taskHeap_Swap q i ?j"
  have c: "2 * i + 1 < n" and l: "taskHeap_Less q ?j i" using False by auto
  have sw: "rearranged q ?q" using Swap_rearranged[of i q ?j] smallerChild_props[OF c, where q = q] n i by simp
  have "downPre n ?q ?j" using aroundPre_step[OF pre n c] l by (simp add: Less_prio)
  from heap_downLoop_correct[OF _ this] n rearranged_len[OF sw]
  have r: "heapOn n (fst (heap_downLoop ?q ?j n)) \<and> rearranged ?q (fst (heap_downLoop ?q ?j n)) \<and>
        ?j \<le> snd (heap_downLoop ?q ?j n)" by simp
  have "q' = fst (heap_downLoop ?q ?j n)" "moved"
    using d heap_downLoop_step[OF c l] r smallerChild_props(3)[OF c, where q = q]
    by (auto simp: heap_down_def case_prod_beta Let_def)
  with r rearranged_trans[OF sw] show ?thesis by simp
qed

lemma heapOn_root: "heapOn n q \<Longrightarrow> k < n \<Longrightarrow> prioAt q 0 \<le> prioAt q k"
proof (induction k rule: less_induct)
  case (less k)
  show ?case
  proof (cases "k = 0")
    case False
    then have "parent k < k" by auto
    with less False show ?thesis unfolding heapOn_def by (meson less_trans order_trans neq0_conv)
  qed simp
qed

section \<open>The operations\<close>

definition payload :: "taskQueue \<Rightarrow> taskRef \<Rightarrow> collectTask" where
  "payload q r = (tq_store q r)\<lparr>ct_index := 0\<rparr>"

lemma payload_nextRun: "payload q r = payload q' r \<Longrightarrow> ct_nextRun (tq_store q r) = ct_nextRun (tq_store q' r)"
  unfolding payload_def by (metis collectTask.select_convs(6) collectTask.surjective collectTask.update_convs(13))

lemma rearranged_payload: "rearranged q q' \<Longrightarrow> payload q' r = payload q r"
  by (simp add: rearranged_def payload_def)

lemma heap_up_above: "j < k \<Longrightarrow> tq_heap (heap_up q j) ! k = tq_heap q ! k"
proof (induction q j rule: heap_up.induct)
  case (1 q j)
  show ?case
  proof (cases "parent j = j \<or> \<not> taskHeap_Less q j (parent j)")
    case False
    then have "parent j < j" by auto
    with False 1 show ?thesis by (subst heap_up.simps) (simp add: Let_def Swap_heap)
  qed (subst heap_up.simps, simp)
qed

lemma heap_downLoop_above: "n \<le> k \<Longrightarrow> i < n \<Longrightarrow> tq_heap (fst (heap_downLoop q i n)) ! k = tq_heap q ! k"
proof (induction q i n rule: heap_downLoop.induct)
  case (1 q i n)
  let ?j = "smallerChild q n i"
  show ?case
  proof (cases "2 * i + 1 \<ge> n \<or> \<not> taskHeap_Less q ?j i")
    case True
    from heap_downLoop_stop(1)[OF this] show ?thesis by simp
  next
    case False
    then have c: "2 * i + 1 < n" and l: "taskHeap_Less q ?j i" and nle: "\<not> n \<le> 2 * i + 1" by auto
    with "1.IH"[OF nle refl] "1.prems" smallerChild_props(2)[OF c, where q = q] show ?thesis
      unfolding heap_downLoop_step[OF c l] by (simp add: Swap_heap)
  qed
qed

text \<open>Removing the last element of a queue that is in order up to there.\<close>

lemma Pop_last:
  assumes ne: "tq_heap q \<noteq> []" and heap: "heapOn (tq_len q - 1) q" and idx: "indexOK q"
    and out: "\<And>r. r \<notin> set (tq_heap q) \<Longrightarrow> ct_index (tq_store q r) = -1"
    and eq: "taskHeap_Pop q = (r, q')"
  shows "queueInv q' \<and> r = tq_heap q ! (tq_len q - 1) \<and> mset (tq_heap q) = add_mset r (mset (tq_heap q')) \<and>
    (\<forall>x. payload q' x = payload q x)"
proof -
  let ?n = "tq_len q - 1"
  have r: "r = tq_heap q ! ?n" and h': "tq_heap q' = butlast (tq_heap q)"
    and st': "tq_store q' = setIndex r (-1) (tq_store q)"
    using eq by (auto simp: taskHeap_Pop_def Let_def)
  have last: "tq_heap q = tq_heap q' @ [r]" using r h' append_butlast_last_id[OF ne] last_conv_nth[OF ne] by simp
  have d: "distinct (tq_heap q)" and d': "distinct (tq_heap q')" and rn: "r \<notin> set (tq_heap q')"
    using idx last by (auto simp: indexOK_def)
  have at: "tq_heap q' ! k = tq_heap q ! k" if "k < ?n" for k
    using that h' by (simp add: nth_butlast)
  have len: "tq_len q' = ?n" using h' by simp
  have ne': "tq_heap q ! k \<noteq> r" if "k < ?n" for k
    using that rn at len nth_mem by metis
  have prio: "prioAt q' k = prioAt q k" if "k < ?n" for k
    using at[OF that] ne'[OF that] by (simp add: prioAt_def st' setIndex_get)
  have "heapOn ?n q'"
    using heap prio parent_less unfolding heapOn_def by (metis order_less_trans)
  moreover have "indexOK q'"
    using d' idx at ne' len unfolding indexOK_def st' by (simp add: setIndex_get)
  moreover have "ct_index (tq_store q' x) = -1" if "x \<notin> set (tq_heap q')" for x
    using that out[of x] last unfolding st' by (auto simp: setIndex_get)
  ultimately have "queueInv q'" using len by (simp add: queueInv_def)
  moreover have "mset (tq_heap q) = add_mset r (mset (tq_heap q'))" unfolding last by simp
  moreover have "payload q' x = payload q x" for x by (simp add: payload_def st' setIndex_get)
  ultimately show ?thesis using r by blast
qed

lemma heap_down_eq: "heap_down q i n = (snd (heap_downLoop q i n) > i, fst (heap_downLoop q i n))"
  by (simp add: heap_down_def case_prod_beta Let_def)

lemma queueInv_out: "queueInv q \<Longrightarrow> rearranged q q' \<Longrightarrow> r \<notin> set (tq_heap q') \<Longrightarrow> ct_index (tq_store q' r) = -1"
  by (metis queueInv_def rearranged_def rearranged_set)

lemma rearranged_index: "queueInv q \<Longrightarrow> rearranged q q' \<Longrightarrow> indexOK q'"
  by (auto simp: queueInv_def rearranged_def)

lemma heap_Pop_correct:
  assumes inv: "queueInv q" and ne: "tq_heap q \<noteq> []" and eq: "heap_Pop q = (r, q')"
  shows "queueInv q' \<and> r = tq_heap q ! 0 \<and> mset (tq_heap q) = add_mset r (mset (tq_heap q')) \<and>
    (\<forall>x. payload q' x = payload q x) \<and>
    (\<forall>x\<in>set (tq_heap q). ct_nextRun (tq_store q r) \<le> ct_nextRun (tq_store q x))"
proof -
  let ?n = "tq_len q - 1"
  let ?s = "taskHeap_Swap q 0 ?n"
  let ?d = "fst (heap_downLoop ?s 0 ?n)"
  have n: "?n < tq_len q" "0 < tq_len q" using ne by auto
  have sw: "rearranged q ?s" by (rule Swap_rearranged[OF n(2,1)])
  have heap: "heapOn (tq_len q) q" using inv by (simp add: queueInv_def)
  have prio: "prioAt ?s k = prioAt q k" if "k < ?n" "0 < k" for k
    using Swap_prio[OF n(2,1)] that by simp
  have par: "0 < k \<Longrightarrow> k < ?n \<Longrightarrow> parent k < ?n" for k using parent_less by (metis order_less_trans)
  have "downPre ?n ?s 0"
    unfolding downPre_def bridge_def
  proof (intro conjI allI impI)
    fix k assume k: "0 < k \<and> k < ?n \<and> parent k \<noteq> 0"
    then have "prioAt q (parent k) \<le> prioAt q k" using heap unfolding heapOn_def by (meson n(1) order_less_trans)
    with k prio[of k] prio[of "parent k"] par[of k] show "prioAt ?s (parent k) \<le> prioAt ?s k" by simp
  qed simp
  with heap_downLoop_correct[of ?n ?s 0] rearranged_len[OF sw] n
  have d: "heapOn ?n ?d" "rearranged q ?d" using rearranged_trans[OF sw] by auto
  have dl: "tq_len ?d = tq_len q" using rearranged_len[OF d(2)] .
  have last: "tq_heap ?d ! ?n = tq_heap q ! 0"
  proof (cases "?n = 0")
    case True
    then have "heap_downLoop ?s 0 ?n = (?s, 0)" by (subst heap_downLoop.simps) simp
    with True n show ?thesis by (simp add: Swap_heap)
  next
    case False
    then show ?thesis using heap_downLoop_above[of ?n ?n 0 ?s] n by (simp add: Swap_heap)
  qed
  have "taskHeap_Pop ?d = (r, q')" using eq by (simp add: heap_Pop_def Let_def heap_down_eq)
  from Pop_last[OF _ _ rearranged_index[OF inv d(2)] queueInv_out[OF inv d(2)] this] d(1) dl ne
  have P: "queueInv q'" "r = tq_heap ?d ! ?n" "mset (tq_heap ?d) = add_mset r (mset (tq_heap q'))"
      "\<And>x. payload q' x = payload ?d x" by (simp_all, metis length_0_conv)+
  have "prioAt q 0 \<le> prioAt q k" if "k < tq_len q" for k using heapOn_root[OF heap that] .
  then have "\<forall>x\<in>set (tq_heap q). ct_nextRun (tq_store q r) \<le> ct_nextRun (tq_store q x)"
    using P(2) last unfolding prioAt_def by (metis in_set_conv_nth)
  with P last d(2) rearranged_payload[OF d(2)] show ?thesis by (simp add: rearranged_def)
qed

lemma heap_Remove_correct:
  assumes inv: "queueInv q" and i: "i < tq_len q" and eq: "heap_Remove q i = (r, q')"
  shows "queueInv q' \<and> r = tq_heap q ! i \<and> mset (tq_heap q) = add_mset r (mset (tq_heap q')) \<and>
    (\<forall>x. payload q' x = payload q x)"
proof (cases "tq_len q - 1 = i")
  case True
  then have "taskHeap_Pop q = (r, q')" using eq by (simp add: heap_Remove_def Let_def)
  moreover have "tq_heap q \<noteq> []" "heapOn (tq_len q - 1) q" "indexOK q"
    "\<And>x. x \<notin> set (tq_heap q) \<Longrightarrow> ct_index (tq_store q x) = -1"
    using inv i by (auto simp: queueInv_def heapOn_def)
  ultimately show ?thesis using Pop_last[of q r q'] True by metis
next
  case False
  let ?n = "tq_len q - 1"
  let ?s = "taskHeap_Swap q i ?n"
  let ?d = "fst (heap_downLoop ?s i ?n)" and ?moved = "snd (heap_downLoop ?s i ?n) > i"
  let ?u = "if \<not> ?moved then heap_up ?d i else ?d"
  have n: "?n < tq_len q" "i < ?n" using i False by auto
  have sw: "rearranged q ?s" by (rule Swap_rearranged[OF i n(1)])
  have heap: "heapOn (tq_len q) q" using inv by (simp add: queueInv_def)
  have prio: "prioAt ?s k = prioAt q k" if "k < ?n" "k \<noteq> i" for k
    using Swap_prio[OF i n(1)] that by simp
  have h: "prioAt q (parent k) \<le> prioAt q k" if "0 < k" "k < ?n" for k
    using heap that unfolding heapOn_def by simp
  have par: "0 < k \<Longrightarrow> k < ?n \<Longrightarrow> parent k < ?n" for k using parent_less by (metis order_less_trans)
  have "aroundPre ?n ?s i"
    unfolding aroundPre_def bridge_def
  proof (intro conjI allI impI)
    fix k assume "0 < k \<and> k < ?n \<and> k \<noteq> i \<and> parent k \<noteq> i"
    then show "prioAt ?s (parent k) \<le> prioAt ?s k"
      using prio[of k] prio[of "parent k"] par[of k] h[of k] by simp
  next
    fix k assume k: "0 < k \<and> k < ?n \<and> parent k = i \<and> 0 < i"
    then have "k \<noteq> i" "parent i \<noteq> i" "parent i < ?n" using parent_less[of k] parent_less[of i] n(2) by auto
    then show "prioAt ?s (parent i) \<le> prioAt ?s k"
      using prio[of k] prio[of "parent i"] h[of k] h[of i] k n(2) by simp
  qed
  from restore_around[OF this _ n(2), of ?moved ?d] rearranged_len[OF sw]
  have u: "heapOn ?n ?u" "rearranged q ?u" using rearranged_trans[OF sw] by (auto simp: heap_down_eq)
  have ul: "tq_len ?u = tq_len q" using rearranged_len[OF u(2)] .
  have "tq_heap ?u ! ?n = tq_heap q ! i"
    using heap_downLoop_above[of ?n ?n i ?s] heap_up_above[of i ?n ?d] n i by (auto simp: Swap_heap)
  moreover have "taskHeap_Pop ?u = (r, q')"
    using eq False by (simp add: heap_Remove_def Let_def heap_down_eq split: if_splits)
  moreover have "tq_heap ?u \<noteq> []" using ul i by (metis length_0_conv less_nat_zero_code)
  moreover have "heapOn (tq_len ?u - 1) ?u" using u(1) unfolding ul .
  ultimately have "queueInv q' \<and> r = tq_heap ?u ! (tq_len ?u - 1) \<and>
      mset (tq_heap ?u) = add_mset r (mset (tq_heap q')) \<and> (\<forall>x. payload q' x = payload ?u x)"
    by (intro Pop_last[OF _ _ rearranged_index[OF inv u(2)] queueInv_out[OF inv u(2)]])
  moreover have "mset (tq_heap ?u) = mset (tq_heap q)" using u(2) unfolding rearranged_def by blast
  ultimately show ?thesis
    using \<open>tq_heap ?u ! ?n = tq_heap q ! i\<close> rearranged_payload[OF u(2)] unfolding ul by metis
qed

lemma Push_simps:
  "tq_heap (taskHeap_Push q r) = tq_heap q @ [r]"
  "tq_store (taskHeap_Push q r) = setIndex r (int (tq_len q)) (tq_store q)"
  by (simp_all add: taskHeap_Push_def)

lemma heap_Push_correct:
  assumes inv: "queueInv q" and r: "r \<notin> set (tq_heap q)"
  shows "queueInv (heap_Push q r) \<and> mset (tq_heap (heap_Push q r)) = add_mset r (mset (tq_heap q)) \<and>
    (\<forall>x. payload (heap_Push q r) x = payload q x)"
proof -
  let ?p = "taskHeap_Push q r" and ?n = "tq_len q"
  have heap: "heapOn ?n q" and idx: "indexOK q" using inv by (auto simp: queueInv_def)
  have prio: "prioAt ?p k = prioAt q k" if "k < ?n" for k
    using that by (simp add: prioAt_def Push_simps setIndex_get nth_append)
  have "upPre (tq_len ?p) ?p ?n"
    unfolding upPre_def bridge_def Push_simps
  proof (intro conjI allI impI)
    fix k assume k: "0 < k \<and> k < length (tq_heap q @ [r]) \<and> k \<noteq> ?n"
    then have "k < ?n" "parent k < ?n" using parent_less[of k] by auto
    with heap k prio show "prioAt ?p (parent k) \<le> prioAt ?p k" by (simp add: heapOn_def)
  next
    fix k assume "0 < k \<and> k < length (tq_heap q @ [r]) \<and> parent k = ?n \<and> 0 < ?n"
    then show "prioAt ?p (parent ?n) \<le> prioAt ?p k" using parent_less[of k] by simp
  qed
  from heap_up_correct[OF _ _ this] have u: "heapOn (tq_len ?p) (heap_up ?p ?n)" "rearranged ?p (heap_up ?p ?n)"
    by (auto simp: Push_simps)
  have "indexOK ?p"
    unfolding indexOK_def Push_simps
  proof (intro conjI allI impI)
    show "distinct (tq_heap q @ [r])" using idx r by (simp add: indexOK_def)
    fix i assume i: "i < length (tq_heap q @ [r])"
    show "ct_index (setIndex r (int ?n) (tq_store q) ((tq_heap q @ [r]) ! i)) = int i"
    proof (cases "i < ?n")
      case True
      then have "tq_heap q ! i \<noteq> r" using r nth_mem by metis
      with True idx show ?thesis by (simp add: nth_append setIndex_get indexOK_def)
    next
      case False
      with i have "i = ?n" by simp
      then show ?thesis by (simp add: setIndex_get)
    qed
  qed
  then have "indexOK (heap_up ?p ?n)" using u(2) by (simp add: rearranged_def)
  moreover have "ct_index (tq_store (heap_up ?p ?n) x) = -1" if x: "x \<notin> set (tq_heap (heap_up ?p ?n))" for x
  proof -
    have "x \<notin> set (tq_heap ?p)" using x rearranged_set[OF u(2)] by simp
    then have "tq_store (heap_up ?p ?n) x = tq_store q x" "x \<notin> set (tq_heap q)"
      using u(2) by (auto simp: rearranged_def Push_simps setIndex_get)
    then show ?thesis using inv by (simp add: queueInv_def)
  qed
  moreover have "payload (heap_up ?p ?n) x = payload q x" for x
    using rearranged_payload[OF u(2)] by (simp add: payload_def Push_simps setIndex_get)
  moreover have "mset (tq_heap (heap_up ?p ?n)) = add_mset r (mset (tq_heap q))"
    using u(2) by (simp add: rearranged_def Push_simps)
  ultimately show ?thesis
    using u(1) rearranged_len[OF u(2)] by (simp add: queueInv_def heap_Push_def Let_def Push_simps)
qed

text \<open>Replacing the contents of a task, which may change its priority, and restoring the order with
  \<open>heap.Fix\<close> if the task is in the heap.\<close>

definition writeTask :: "taskRef \<Rightarrow> collectTask \<Rightarrow> taskQueue \<Rightarrow> taskQueue" where
  "writeTask r t q = q\<lparr>tq_store := (tq_store q)(r := t\<lparr>ct_index := ct_index (tq_store q r)\<rparr>)\<rparr>"

definition fixTask :: "taskRef \<Rightarrow> taskQueue \<Rightarrow> taskQueue" where
  "fixTask r q =
     (if ct_index (tq_store q r) \<ge> 0 then heap_Fix q (nat (ct_index (tq_store q r))) else q)"

definition dropTask :: "taskRef \<Rightarrow> taskQueue \<Rightarrow> taskQueue" where
  "dropTask r q =
     (if ct_index (tq_store q r) \<ge> 0 then snd (heap_Remove q (nat (ct_index (tq_store q r)))) else q)"

lemma queueInv_index:
  assumes "queueInv q"
  shows "ct_index (tq_store q r) \<ge> 0 \<longleftrightarrow> r \<in> set (tq_heap q)"
    and "r \<in> set (tq_heap q) \<Longrightarrow> nat (ct_index (tq_store q r)) < tq_len q \<and>
      tq_heap q ! nat (ct_index (tq_store q r)) = r"
  using assms by (auto simp: queueInv_def indexOK_def in_set_conv_nth)

lemma dropTask_correct:
  assumes inv: "queueInv q"
  shows "queueInv (dropTask r q) \<and> mset (tq_heap (dropTask r q)) = mset (tq_heap q) - {#r#} \<and>
    (\<forall>x. payload (dropTask r q) x = payload q x)"
proof (cases "r \<in> set (tq_heap q)")
  case True
  let ?i = "nat (ct_index (tq_store q r))"
  obtain r' q' where rm: "heap_Remove q ?i = (r', q')" by fastforce
  have "queueInv q' \<and> r' = tq_heap q ! ?i \<and> mset (tq_heap q) = add_mset r' (mset (tq_heap q')) \<and>
      (\<forall>x. payload q' x = payload q x)"
    using heap_Remove_correct[OF inv _ rm] queueInv_index(2)[OF inv True] by blast
  with queueInv_index[OF inv] True rm show ?thesis by (simp add: dropTask_def)
next
  case False
  then have "dropTask r q = q" "r \<notin># mset (tq_heap q)"
    using queueInv_index(1)[OF inv, of r] by (auto simp: dropTask_def)
  with inv show ?thesis by simp
qed

lemma rewrite_correct:
  assumes inv: "queueInv q"
  shows "queueInv (fixTask r (writeTask r t q)) \<and>
    mset (tq_heap (fixTask r (writeTask r t q))) = mset (tq_heap q) \<and>
    (\<forall>x. payload (fixTask r (writeTask r t q)) x = (if x = r then t\<lparr>ct_index := 0\<rparr> else payload q x))"
proof -
  let ?w = "writeTask r t q"
  have h: "tq_heap ?w = tq_heap q" and idx: "ct_index (tq_store ?w x) = ct_index (tq_store q x)" for x
    by (auto simp: writeTask_def)
  have pay: "payload ?w x = (if x = r then t\<lparr>ct_index := 0\<rparr> else payload q x)" for x
    by (simp add: writeTask_def payload_def)
  have ok: "indexOK ?w" "\<And>x. x \<notin> set (tq_heap ?w) \<Longrightarrow> ct_index (tq_store ?w x) = -1"
    using inv h idx by (auto simp: queueInv_def indexOK_def)
  have prio: "prioAt ?w k = prioAt q k" if "tq_heap q ! k \<noteq> r" for k
    using that by (simp add: prioAt_def writeTask_def)
  have heap: "prioAt q (parent k) \<le> prioAt q k" if "0 < k" "k < tq_len q" for k
    using inv that by (simp add: queueInv_def heapOn_def)
  show ?thesis
  proof (cases "r \<in> set (tq_heap q)")
    case False
    then have "fixTask r ?w = ?w" using queueInv_index(1)[OF inv, of r] idx by (simp add: fixTask_def)
    moreover have "heapOn (tq_len q) ?w"
      unfolding heapOn_def
    proof (intro allI impI)
      fix k assume k: "0 < k \<and> k < tq_len q"
      then have "tq_heap q ! k \<noteq> r" "tq_heap q ! parent k \<noteq> r"
        using False nth_mem parent_less by (metis, metis order_less_trans)
      with heap k prio show "prioAt ?w (parent k) \<le> prioAt ?w k" by simp
    qed
    ultimately show ?thesis using ok h pay by (simp add: queueInv_def)
  next
    case True
    define i where "i = nat (ct_index (tq_store q r))"
    have i: "i < tq_len q" "tq_heap q ! i = r" using queueInv_index(2)[OF inv True] by (auto simp: i_def)
    have d: "distinct (tq_heap q)" using inv by (simp add: queueInv_def indexOK_def)
    have other: "tq_heap q ! k \<noteq> r" if "k < tq_len q" "k \<noteq> i" for k
      using that i d by (metis nth_eq_iff_index_eq)
    have "aroundPre (tq_len ?w) ?w i"
      unfolding aroundPre_def bridge_def h
    proof (intro conjI allI impI)
      fix k assume k: "0 < k \<and> k < tq_len q \<and> k \<noteq> i \<and> parent k \<noteq> i"
      then have "parent k < tq_len q" using parent_less[of k] by (metis order_less_trans)
      with k other prio heap show "prioAt ?w (parent k) \<le> prioAt ?w k" by simp
    next
      fix k assume k: "0 < k \<and> k < tq_len q \<and> parent k = i \<and> 0 < i"
      then have "k \<noteq> i" "parent i \<noteq> i" "parent i < tq_len q"
        using parent_less[of k] parent_less[of i] i(1) by (auto intro: order_less_trans)
      with k other prio have "prioAt ?w (parent i) = prioAt q (parent i)" "prioAt ?w k = prioAt q k" by auto
      with heap[of i] heap[of k] k i(1) show "prioAt ?w (parent i) \<le> prioAt ?w k" by simp
    qed
    moreover obtain moved w' where dn: "heap_down ?w i (tq_len ?w) = (moved, w')" by fastforce
    ultimately have R: "heapOn (tq_len ?w) (if \<not> moved then heap_up w' i else w') \<and>
        rearranged ?w (if \<not> moved then heap_up w' i else w')"
      using restore_around[of "tq_len ?w" ?w i moved w'] i(1) h by simp
    have fx: "fixTask r ?w = (if \<not> moved then heap_up w' i else w')"
      using queueInv_index(1)[OF inv, of r] True idx[of r] dn by (simp add: fixTask_def heap_Fix_def i_def)
    have re: "rearranged ?w (fixTask r ?w)" and ho: "heapOn (tq_len ?w) (fixTask r ?w)" using R fx by auto
    have "queueInv (fixTask r ?w)"
      using ho re ok rearranged_len[OF re] rearranged_set[OF re] by (auto simp: queueInv_def rearranged_def)
    moreover have "mset (tq_heap (fixTask r ?w)) = mset (tq_heap q)" using re h by (simp add: rearranged_def)
    ultimately show ?thesis using rearranged_payload[OF re] pay by simp
  qed
qed

section \<open>The queue as an interface\<close>

text \<open>What the collector needs of its queue: entering a task, taking out an earliest one, taking
  out a given one and changing a task's instant keep the invariant and do to the contents what
  they say.\<close>

locale timed_queue =
  fixes inv :: "'q \<Rightarrow> bool"
    and elems :: "'q \<Rightarrow> 'r multiset"
    and due :: "'q \<Rightarrow> 'r \<Rightarrow> gotime"
    and push :: "'q \<Rightarrow> 'r \<Rightarrow> 'q"
    and pop :: "'q \<Rightarrow> 'r \<times> 'q"
    and delete :: "'r \<Rightarrow> 'q \<Rightarrow> 'q"
    and rewrite :: "'r \<Rightarrow> 't \<Rightarrow> 'q \<Rightarrow> 'q"
    and time :: "'t \<Rightarrow> gotime"
  assumes push_law: "inv q \<Longrightarrow> r \<notin># elems q \<Longrightarrow>
      inv (push q r) \<and> elems (push q r) = add_mset r (elems q) \<and> due (push q r) = due q"
    and pop_law: "inv q \<Longrightarrow> elems q \<noteq> {#} \<Longrightarrow> pop q = (r, q') \<Longrightarrow>
      inv q' \<and> elems q = add_mset r (elems q') \<and> due q' = due q \<and> (\<forall>x\<in>#elems q. due q r \<le> due q x)"
    and delete_law: "inv q \<Longrightarrow>
      inv (delete r q) \<and> elems (delete r q) = elems q - {#r#} \<and> due (delete r q) = due q"
    and rewrite_law: "inv q \<Longrightarrow>
      inv (rewrite r t q) \<and> elems (rewrite r t q) = elems q \<and> due (rewrite r t q) = (due q)(r := time t)"
begin

text \<open>Taking tasks out one after the other gives all of them in order of their instants.\<close>

fun drain :: "nat \<Rightarrow> 'q \<Rightarrow> 'r list" where
  "drain 0 q = []"
| "drain (Suc n) q = (let (r, q') = pop q in r # drain n q')"

lemma drain_sorted:
  "inv q \<Longrightarrow> size (elems q) = n \<Longrightarrow>
     mset (drain n q) = elems q \<and> sorted (map (due q) (drain n q))"
proof (induction n arbitrary: q)
  case (Suc n)
  obtain r q' where p: "pop q = (r, q')" by fastforce
  have "elems q \<noteq> {#}" using Suc.prems(2) by auto
  note law = pop_law[OF Suc.prems(1) this p]
  then have IH: "mset (drain n q') = elems q'" "sorted (map (due q) (drain n q'))"
    using Suc.IH[of q'] Suc.prems(2) by auto
  then have "\<forall>x\<in>set (drain n q'). due q r \<le> due q x"
    using law by (metis set_mset_mset union_single_eq_member add_mset_commute insert_DiffM in_multiset_in_set set_mset_add_mset_insert insertCI)
  with IH law p show ?case by simp
qed simp

text \<open>A task that is moved to a later instant than another waiting task is not taken first.\<close>

lemma rewrite_not_first:
  assumes "inv q" and "x \<in># elems q" and "due q x < time t" and "x \<noteq> r" and "pop (rewrite r t q) = (y, q')"
  shows "y \<noteq> r"
proof -
  note rw = rewrite_law[OF assms(1), of r t]
  then have "elems (rewrite r t q) \<noteq> {#}" using assms(2) by auto
  from pop_law[OF _ this assms(5)] rw assms(2-4) show ?thesis by fastforce
qed

end

definition dueOf :: "taskQueue \<Rightarrow> taskRef \<Rightarrow> gotime" where
  "dueOf q r = ct_nextRun (tq_store q r)"

lemma dueOf_alt: "dueOf q r = ct_nextRun (payload q r)"
  by (simp add: dueOf_def payload_def)

lemma dueOf_payload: "\<forall>x. payload q' x = payload q x \<Longrightarrow> dueOf q' = dueOf q"
  by (simp add: fun_eq_iff dueOf_alt)

lemma dueOf_rewrite:
  "\<forall>x. payload q' x = (if x = r then t\<lparr>ct_index := 0\<rparr> else payload q x) \<Longrightarrow> dueOf q' = (dueOf q)(r := ct_nextRun t)"
  by (simp add: fun_eq_iff dueOf_alt)

interpretation taskPQ: timed_queue queueInv "\<lambda>q. mset (tq_heap q)" dueOf heap_Push heap_Pop dropTask
  "\<lambda>r t q. fixTask r (writeTask r t q)" ct_nextRun
proof (unfold_locales, goal_cases)
  case (1 q r)
  then have "r \<notin> set (tq_heap q)" by simp
  note P = heap_Push_correct[OF 1(1) this]
  show ?case using P dueOf_payload[of "heap_Push q r" q] by blast
next
  case (2 q r q')
  then have "tq_heap q \<noteq> []" by simp
  note P = heap_Pop_correct[OF 2(1) this 2(3)]
  have "dueOf q' = dueOf q" using P dueOf_payload[of q' q] by blast
  moreover have "\<forall>x\<in>#mset (tq_heap q). dueOf q r \<le> dueOf q x"
    unfolding dueOf_def set_mset_mset using P by blast
  ultimately show ?case using P by blast
next
  case (3 q r)
  show ?case using dropTask_correct[OF 3, of r] dueOf_payload[of "dropTask r q" q] by blast
next
  case (4 q r t)
  show ?case
    using rewrite_correct[OF 4, of r t] dueOf_rewrite[of "fixTask r (writeTask r t q)" r t q] by blast
qed

lemma queueInv_empty: "(\<And>r. ct_index (tq_store q r) = -1) \<Longrightarrow> tq_heap q = [] \<Longrightarrow> queueInv q"
  by (simp add: queueInv_def heapOn_def indexOK_def)

fun popAll :: "nat \<Rightarrow> taskQueue \<Rightarrow> taskRef list" where
  "popAll 0 q = []"
| "popAll (Suc n) q = (let (r, q') = heap_Pop q in r # popAll n q')"

lemma popAll_drain: "popAll n q = taskPQ.drain n q"
  by (induction n arbitrary: q) (auto simp: case_prod_beta Let_def)

text \<open>C5: the heap algorithms on the task queue are a priority queue. From a well-formed queue,
  taking out all tasks one by one gives every task of the queue once, in the order of
  their instants; removing a task by its recorded position removes that task; and after a
  task's instant was changed and \<open>heap.Fix\<close> run at its recorded position, a task that moved
  behind a waiting one is not taken first.\<close>

theorem task_heap_is_priority_queue:
  assumes "queueInv q"
  shows "(mset (popAll (tq_len q) q) = mset (tq_heap q) \<and>
      sorted (map (\<lambda>r. ct_nextRun (tq_store q r)) (popAll (tq_len q) q))) \<and>
    (mset (tq_heap (dropTask r q)) = mset (tq_heap q) - {#r#} \<and> queueInv (dropTask r q)) \<and>
    (x \<in> set (tq_heap q) \<and> x \<noteq> r \<and> ct_nextRun (tq_store q x) < ct_nextRun t \<longrightarrow>
       fst (heap_Pop (fixTask r (writeTask r t q))) \<noteq> r)"
proof -
  have "mset (popAll (tq_len q) q) = mset (tq_heap q) \<and>
      sorted (map (\<lambda>r. ct_nextRun (tq_store q r)) (popAll (tq_len q) q))"
    using taskPQ.drain_sorted[OF assms, of "tq_len q"] unfolding popAll_drain dueOf_def by simp
  moreover have "fst (heap_Pop (fixTask r (writeTask r t q))) \<noteq> r"
    if "x \<in> set (tq_heap q)" "x \<noteq> r" "ct_nextRun (tq_store q x) < ct_nextRun t"
    using taskPQ.rewrite_not_first[OF assms, of x t r] that by (metis dueOf_def prod.collapse set_mset_mset)
  ultimately show ?thesis using dropTask_correct[OF assms, of r] by blast
qed

definition exampleTask :: "gotime \<Rightarrow> int \<Rightarrow> collectTask" where
  "exampleTask t i = \<lparr>ct_device = \<lparr>dev_ID = 1, dev_Name = [], dev_Description = [], dev_ProductKey = [],
     dev_DeviceKey = [], dev_DriverType = [], dev_SerialPort = [], dev_BaudRate = 0, dev_DataBits = 0,
     dev_StopBits = 0, dev_Parity = [], dev_IPAddress = [], dev_PortNum = 0, dev_DeviceAddress = [],
     dev_CollectInterval = 0, dev_StorageInterval = 0, dev_Timeout = 0, dev_DriverID = None,
     dev_ResourceID = None, dev_ResourceType = [], dev_Enabled = 1\<rparr>,
     ct_deviceProductKey = [], ct_deviceKey = [], ct_interval = 0, ct_storageInterval = 0, ct_nextRun = t,
     ct_lastRun = 0, ct_lastStored = 0, ct_lastErrorAt = 0, ct_lastError = [],
     ct_lastErrorKind = collectErrorKindNone, ct_consecutiveFailures = 0, ct_index = i\<rparr>"

definition exampleQueue :: taskQueue where
  "exampleQueue = heap_Push (heap_Push \<lparr>tq_store = (\<lambda>r. exampleTask (if r = 0 then 20 else 10) (-1)), tq_heap = []\<rparr> 0) 1"

theorem task_heap_is_priority_queue_witness:
  "queueInv exampleQueue \<and> mset (popAll (tq_len exampleQueue) exampleQueue) = {#0, 1#} \<and>
   fst (heap_Pop (fixTask 1 (writeTask 1 (exampleTask 30 0) exampleQueue))) \<noteq> 1"
proof -
  let ?q0 = "\<lparr>tq_store = (\<lambda>r. exampleTask (if r = 0 then 20 else 10) (-1)), tq_heap = []\<rparr>"
  have "queueInv ?q0" by (rule queueInv_empty) (simp_all add: exampleTask_def)
  note P0 = heap_Push_correct[OF this, of 0]
  then have "queueInv (heap_Push ?q0 0)" and h0: "mset (tq_heap (heap_Push ?q0 0)) = {#0#}" by simp_all
  note P1 = heap_Push_correct[OF this(1), of 1]
  have "set (tq_heap (heap_Push ?q0 0)) = {0}" using h0 by (metis set_mset_mset set_mset_single)
  with P1 have q: "queueInv exampleQueue" "mset (tq_heap exampleQueue) = add_mset 1 {#0#}"
    using h0 by (simp_all add: exampleQueue_def)
  have "payload exampleQueue 0 = payload ?q0 0"
    using P0 P1 \<open>set (tq_heap (heap_Push ?q0 0)) = {0}\<close> by (simp add: exampleQueue_def)
  then have "ct_nextRun (tq_store exampleQueue 0) = 20"
    using payload_nextRun[of exampleQueue 0 ?q0] by (simp add: exampleTask_def)
  moreover have "0 \<in> set (tq_heap exampleQueue)" using q(2) by (metis set_mset_mset union_single_eq_member add_mset_commute)
  ultimately show ?thesis
    using task_heap_is_priority_queue [OF q(1), of 1 0 "exampleTask 30 0"] q
    by (simp add: exampleTask_def add_mset_commute)
qed

end
