(* ===== verification/Scheduler.thy ===== *)
theory Scheduler
  imports Task_Heap Alarm_State
begin

text \<open>
  The collector's scheduler (\<open>internal/collector/collector.go\<close>): the task table, its
  synchronisation with the device list of the database, the loop that takes due tasks from
  the heap under a concurrency limit, and the end of a collection, which puts its task back.

  Every function below runs under the collector's mutex (or is a section of a function that
  does), so that the collector's behaviour is a sequence of these steps. Beyond the fields of
  the Go struct the state has \<open>co_inflight\<close>, the tasks of the collecting goroutines that
  \<open>dispatchCollectTask\<close> has started, and \<open>co_nextRef\<close>, the next unused reference. The channel
  \<open>wakeChan\<close> has capacity one: \<open>co_wake\<close> tells whether it holds its token; a reset channel
  holds at most one duration. \<open>now\<close> is the value of \<open>time.Now()\<close> in the step, \<open>maxprocs\<close>
  that of \<open>runtime.GOMAXPROCS(0)\<close>.

  \<open>preparedRead\<close> of a task is a function of its device, computed anew whenever the device is
  set; it is not a field here.
\<close>

section \<open>State\<close>

definition defaultCollectIntervalMilliseconds :: int where
  "defaultCollectIntervalMilliseconds = 5000"

definition defaultDeviceSyncInterval :: duration where
  "defaultDeviceSyncInterval = 10 * Second"

definition defaultCommandPollInterval :: duration where
  "defaultCommandPollInterval = 500 * Millisecond"

definition defaultCollectConcurrency :: "int \<Rightarrow> int" where
  "defaultCollectConcurrency maxprocs = (if maxprocs \<le> 1 then 1 else if maxprocs > 8 then 8 else maxprocs)"

datatype deviceSyncAction =
    deviceSyncActionNone | deviceSyncActionAdded | deviceSyncActionUpdated | deviceSyncActionRemoved

record Collector =
  co_queue :: taskQueue
  co_tasks :: "(int \<times> taskRef) list"
  co_nextRef :: taskRef
  co_driverProductKeys :: "(int \<times> string) list"
  co_running :: bool
  co_wake :: bool
  co_deviceSyncReset :: "duration option"
  co_commandPollReset :: "duration option"
  co_deviceSyncInterval :: duration
  co_commandPollInterval :: duration
  co_maxConcurrentCollects :: int
  co_activeCollects :: int
  co_alarms :: alarmStore
  co_inflight :: "taskRef list"

abbreviation taskAt :: "Collector \<Rightarrow> taskRef \<Rightarrow> collectTask" where
  "taskAt c r \<equiv> tq_store (co_queue c) r"

definition resolveCollectInterval :: "int \<Rightarrow> duration" where
  "resolveCollectInterval milliseconds =
     (let ms = (if milliseconds \<le> 0 then defaultCollectIntervalMilliseconds else milliseconds)
      in wrap64 (ms * Millisecond))"

definition resolveStorageInterval :: "int \<Rightarrow> duration" where
  "resolveStorageInterval seconds =
     (let s = (if seconds \<le> 0 then DefaultStorageIntervalSeconds else seconds)
      in wrap64 (s * Second))"

definition newCollectTask :: "gotime \<Rightarrow> Device \<Rightarrow> collectTask option \<Rightarrow> collectTask" where
  "newCollectTask now device previous =
     (let interval = resolveCollectInterval (dev_CollectInterval device);
          task = \<lparr>ct_device = device,
                  ct_deviceProductKey = trimCollectorText (dev_ProductKey device),
                  ct_deviceKey = trimCollectorText (dev_DeviceKey device),
                  ct_interval = interval,
                  ct_storageInterval = resolveStorageInterval (dev_StorageInterval device),
                  ct_nextRun = time_Add now interval,
                  ct_lastRun = 0, ct_lastStored = 0, ct_lastErrorAt = 0, ct_lastError = [],
                  ct_lastErrorKind = collectErrorKindNone, ct_consecutiveFailures = 0, ct_index = -1\<rparr>
      in case previous of
           None \<Rightarrow> task
         | Some p \<Rightarrow> task\<lparr>ct_lastRun := ct_lastRun p, ct_lastStored := ct_lastStored p,
                         ct_lastErrorAt := ct_lastErrorAt p, ct_lastError := ct_lastError p,
                         ct_lastErrorKind := ct_lastErrorKind p,
                         ct_consecutiveFailures := ct_consecutiveFailures p\<rparr>)"

definition blankDevice :: Device where
  "blankDevice = \<lparr>dev_ID = 0, dev_Name = [], dev_Description = [], dev_ProductKey = [], dev_DeviceKey = [],
     dev_DriverType = [], dev_SerialPort = [], dev_BaudRate = 0, dev_DataBits = 0, dev_StopBits = 0,
     dev_Parity = [], dev_IPAddress = [], dev_PortNum = 0, dev_DeviceAddress = [], dev_CollectInterval = 0,
     dev_StorageInterval = 0, dev_Timeout = 0, dev_DriverID = None, dev_ResourceID = None,
     dev_ResourceType = [], dev_Enabled = 0\<rparr>"

definition emptyQueue :: taskQueue where
  "emptyQueue = \<lparr>tq_store = (\<lambda>_. newCollectTask 0 blankDevice None), tq_heap = []\<rparr>"

definition NewCollectorWithIntervals :: "int \<Rightarrow> duration \<Rightarrow> duration \<Rightarrow> Collector" where
  "NewCollectorWithIntervals maxprocs deviceSyncInterval commandPollInterval =
     \<lparr>co_queue = emptyQueue, co_tasks = [], co_nextRef = 0, co_driverProductKeys = [],
      co_running = False, co_wake = False, co_deviceSyncReset = None, co_commandPollReset = None,
      co_deviceSyncInterval =
        (if deviceSyncInterval \<le> 0 then defaultDeviceSyncInterval else deviceSyncInterval),
      co_commandPollInterval =
        (if commandPollInterval \<le> 0 then defaultCommandPollInterval else commandPollInterval),
      co_maxConcurrentCollects = defaultCollectConcurrency maxprocs, co_activeCollects = 0,
      co_alarms = initAlarmStore, co_inflight = []\<rparr>"

definition NewCollector :: "int \<Rightarrow> Collector" where
  "NewCollector maxprocs =
     NewCollectorWithIntervals maxprocs defaultDeviceSyncInterval defaultCommandPollInterval"

section \<open>Notifications\<close>

definition notifyTaskChangedLocked :: "Collector \<Rightarrow> Collector" where
  "notifyTaskChangedLocked c = c\<lparr>co_wake := True\<rparr>"

text \<open>A buffered channel of capacity one: send if empty, else drop the old value and send.\<close>

definition notifyIntervalChange :: "duration option \<Rightarrow> duration \<Rightarrow> duration option" where
  "notifyIntervalChange ch interval =
     (if interval \<le> 0 then ch
      else case ch of None \<Rightarrow> Some interval
           | Some _ \<Rightarrow> (let ch' = None in case ch' of None \<Rightarrow> Some interval | Some x \<Rightarrow> Some x))"

definition GetMaxConcurrentCollects :: "int \<Rightarrow> Collector \<Rightarrow> int" where
  "GetMaxConcurrentCollects maxprocs c =
     (if co_maxConcurrentCollects c \<le> 0 then defaultCollectConcurrency maxprocs
      else co_maxConcurrentCollects c)"

definition SetMaxConcurrentCollects :: "int \<Rightarrow> int \<Rightarrow> Collector \<Rightarrow> Collector" where
  "SetMaxConcurrentCollects maxprocs limit c =
     notifyTaskChangedLocked
       (c\<lparr>co_maxConcurrentCollects := (if limit \<le> 0 then defaultCollectConcurrency maxprocs else limit)\<rparr>)"

definition SetRuntimeIntervals :: "duration \<Rightarrow> duration \<Rightarrow> Collector \<Rightarrow> Collector" where
  "SetRuntimeIntervals deviceSyncInterval commandPollInterval c =
     (let c = (if deviceSyncInterval > 0 then c\<lparr>co_deviceSyncInterval := deviceSyncInterval\<rparr> else c);
          c = (if commandPollInterval > 0 then c\<lparr>co_commandPollInterval := commandPollInterval\<rparr> else c)
      in if \<not> co_running c then c
         else let c = (if deviceSyncInterval > 0
                       then c\<lparr>co_deviceSyncReset := notifyIntervalChange (co_deviceSyncReset c) (co_deviceSyncInterval c)\<rparr>
                       else c)
              in if commandPollInterval > 0
                 then c\<lparr>co_commandPollReset := notifyIntervalChange (co_commandPollReset c) (co_commandPollInterval c)\<rparr>
                 else c)"

section \<open>The task table\<close>

definition isTaskCurrentLocked :: "Collector \<Rightarrow> taskRef \<Rightarrow> bool" where
  "isTaskCurrentLocked c r \<longleftrightarrow> map_of (co_tasks c) (dev_ID (ct_device (taskAt c r))) = Some r"

definition findTask :: "Collector \<Rightarrow> int \<Rightarrow> taskRef option" where
  "findTask c deviceID = (if deviceID \<le> 0 then None else map_of (co_tasks c) deviceID)"

definition deviceDriverID :: "collectTask \<Rightarrow> int" where
  "deviceDriverID t = (case dev_DriverID (ct_device t) of None \<Rightarrow> 0 | Some i \<Rightarrow> i)"

definition sameOptionalInt64 :: "int option \<Rightarrow> int option \<Rightarrow> bool" where
  "sameOptionalInt64 a b =
     (case (a, b) of (Some x, Some y) \<Rightarrow> x = y | (None, None) \<Rightarrow> True | _ \<Rightarrow> False)"

definition sameTaskDeviceConfig :: "Device \<Rightarrow> Device \<Rightarrow> bool" where
  "sameTaskDeviceConfig current nxt \<longleftrightarrow>
     dev_Name current = dev_Name nxt \<and>
     dev_Description current = dev_Description nxt \<and>
     dev_ProductKey current = dev_ProductKey nxt \<and>
     dev_DeviceKey current = dev_DeviceKey nxt \<and>
     dev_DriverType current = dev_DriverType nxt \<and>
     dev_SerialPort current = dev_SerialPort nxt \<and>
     dev_BaudRate current = dev_BaudRate nxt \<and>
     dev_DataBits current = dev_DataBits nxt \<and>
     dev_StopBits current = dev_StopBits nxt \<and>
     dev_Parity current = dev_Parity nxt \<and>
     dev_IPAddress current = dev_IPAddress nxt \<and>
     dev_PortNum current = dev_PortNum nxt \<and>
     dev_DeviceAddress current = dev_DeviceAddress nxt \<and>
     dev_CollectInterval current = dev_CollectInterval nxt \<and>
     dev_StorageInterval current = dev_StorageInterval nxt \<and>
     dev_Timeout current = dev_Timeout nxt \<and>
     sameOptionalInt64 (dev_DriverID current) (dev_DriverID nxt) \<and>
     sameOptionalInt64 (dev_ResourceID current) (dev_ResourceID nxt) \<and>
     dev_Enabled current = dev_Enabled nxt"

definition shouldRefreshCollectTask :: "collectTask \<Rightarrow> Device \<Rightarrow> bool" where
  "shouldRefreshCollectTask current nextDevice =
     (if ct_interval current \<noteq> resolveCollectInterval (dev_CollectInterval nextDevice) \<or>
         ct_storageInterval current \<noteq> resolveStorageInterval (dev_StorageInterval nextDevice)
      then True
      else \<not> sameTaskDeviceConfig (ct_device current) nextDevice)"

definition refreshedTask :: "gotime \<Rightarrow> Device \<Rightarrow> collectTask \<Rightarrow> collectTask" where
  "refreshedTask now device t =
     (let interval = resolveCollectInterval (dev_CollectInterval device)
      in t\<lparr>ct_device := device,
           ct_deviceProductKey := trimCollectorText (dev_ProductKey device),
           ct_deviceKey := trimCollectorText (dev_DeviceKey device),
           ct_interval := interval,
           ct_storageInterval := resolveStorageInterval (dev_StorageInterval device),
           ct_nextRun := time_Add now interval\<rparr>)"

definition refreshTaskLocked :: "gotime \<Rightarrow> taskRef \<Rightarrow> Device \<Rightarrow> Collector \<Rightarrow> Collector" where
  "refreshTaskLocked now r device c =
     c\<lparr>co_queue := fixTask r (writeTask r (refreshedTask now device (taskAt c r)) (co_queue c))\<rparr>"

definition pruneUnusedDriverProductKeysLocked :: "Collector \<Rightarrow> Collector" where
  "pruneUnusedDriverProductKeysLocked c =
     (if co_tasks c = [] then c\<lparr>co_driverProductKeys := []\<rparr>
      else let active = filter (\<lambda>d. d > 0) (map (\<lambda>(_, r). deviceDriverID (taskAt c r)) (co_tasks c))
           in c\<lparr>co_driverProductKeys := filter (\<lambda>(driverID, _). driverID \<in> set active) (co_driverProductKeys c)\<rparr>)"

definition upsertTaskLocked :: "gotime \<Rightarrow> Device \<Rightarrow> Collector \<Rightarrow> deviceSyncAction \<times> Collector" where
  "upsertTaskLocked now device c =
     (case map_of (co_tasks c) (dev_ID device) of
        Some r \<Rightarrow>
          if \<not> shouldRefreshCollectTask (taskAt c r) device then (deviceSyncActionNone, c)
          else let oldDriverID = deviceDriverID (taskAt c r);
                   c = refreshTaskLocked now r device c;
                   c = (if oldDriverID \<noteq> deviceDriverID (taskAt c r)
                        then pruneUnusedDriverProductKeysLocked c else c)
               in (deviceSyncActionUpdated, c)
      | None \<Rightarrow>
          let r = co_nextRef c;
              q = (co_queue c)\<lparr>tq_store := (tq_store (co_queue c))(r := newCollectTask now device None)\<rparr>
          in (deviceSyncActionAdded,
              c\<lparr>co_nextRef := Suc r, co_tasks := AList.update (dev_ID device) r (co_tasks c),
                co_queue := heap_Push q r\<rparr>))"

definition removeTaskLocked :: "int \<Rightarrow> Collector \<Rightarrow> Collector" where
  "removeTaskLocked deviceID c =
     (let c = (case map_of (co_tasks c) deviceID of
                 None \<Rightarrow> c
               | Some r \<Rightarrow> c\<lparr>co_queue := dropTask r (co_queue c)\<rparr>);
          c = c\<lparr>co_tasks := AList.delete deviceID (co_tasks c),
                co_alarms := clearAlarmStateForDevice (co_alarms c) deviceID\<rparr>
      in pruneUnusedDriverProductKeysLocked c)"

definition syncDeviceTaskLocked :: "gotime \<Rightarrow> Device option \<Rightarrow> Collector \<Rightarrow> deviceSyncAction \<times> Collector" where
  "syncDeviceTaskLocked now device c =
     (case device of
        None \<Rightarrow> (deviceSyncActionNone, c)
      | Some device \<Rightarrow>
          if dev_Enabled device = 1 then upsertTaskLocked now device c
          else if map_of (co_tasks c) (dev_ID device) \<noteq> None
          then (deviceSyncActionRemoved, removeTaskLocked (dev_ID device) c)
          else (deviceSyncActionNone, c))"

definition pruneMissingTasksLocked :: "int list \<Rightarrow> Collector \<Rightarrow> nat \<times> Collector" where
  "pruneMissingTasksLocked seenDeviceIDs c =
     fold (\<lambda>deviceID (removed, c).
             if deviceID \<in> set seenDeviceIDs then (removed, c)
             else (Suc removed, removeTaskLocked deviceID c))
          (map fst (co_tasks c)) (0, c)"

fun syncDevices :: "gotime \<Rightarrow> Device option list \<Rightarrow> bool \<times> int list \<times> Collector \<Rightarrow> bool \<times> int list \<times> Collector" where
  "syncDevices now [] st = st"
| "syncDevices now (None # ds) st = syncDevices now ds st"
| "syncDevices now (Some device # ds) (changed, seen, c) =
     (let (action, c) = syncDeviceTaskLocked now (Some device) c
      in syncDevices now ds (changed \<or> action \<noteq> deviceSyncActionNone, dev_ID device # seen, c))"

text \<open>\<open>devices\<close> is the answer of \<open>database.ListDevices\<close>, \<open>None\<close> its error.\<close>

definition SyncDeviceStatus :: "gotime \<Rightarrow> Device option list option \<Rightarrow> Collector \<Rightarrow> Collector" where
  "SyncDeviceStatus now devices c =
     (case devices of
        None \<Rightarrow> c
      | Some ds \<Rightarrow>
          let (changed, seen, c) = syncDevices now ds (False, [], c);
              (removed, c) = pruneMissingTasksLocked seen c;
              changed = (changed \<or> removed > 0)
          in if changed then notifyTaskChangedLocked c else c)"

fun loadDevices :: "gotime \<Rightarrow> Device option list \<Rightarrow> nat \<times> Collector \<Rightarrow> nat \<times> Collector" where
  "loadDevices now [] st = st"
| "loadDevices now (d # ds) (n, c) =
     (case d of
        None \<Rightarrow> loadDevices now ds (n, c)
      | Some device \<Rightarrow>
          if dev_Enabled device \<noteq> 1 then loadDevices now ds (n, c)
          else let (action, c) = upsertTaskLocked now device c
               in loadDevices now ds (if action = deviceSyncActionAdded then Suc n else n, c))"

definition loadEnabledDevices :: "gotime \<Rightarrow> Device option list option \<Rightarrow> Collector \<Rightarrow> bool \<times> Collector" where
  "loadEnabledDevices now devices c =
     (case devices of
        None \<Rightarrow> (False, c)
      | Some ds \<Rightarrow>
          let (loadedCount, c) = loadDevices now ds (0, c)
          in (True, if loadedCount > 0 then notifyTaskChangedLocked c else c))"

section \<open>Starting and stopping\<close>

text \<open>The new task table drops every reference to the old tasks, so the store starts blank.\<close>

definition Start :: "gotime \<Rightarrow> Device option list option \<Rightarrow> Collector \<Rightarrow> string option \<times> Collector" where
  "Start now devices c =
     (if co_running c then (Some ''collector is already running'', c)
      else let c = c\<lparr>co_running := True, co_wake := False, co_deviceSyncReset := None,
                     co_commandPollReset := None, co_tasks := [], co_activeCollects := 0,
                     co_queue := emptyQueue, co_driverProductKeys := []\<rparr>
           in (None, snd (loadEnabledDevices now devices c)))"

text \<open>\<open>Stop\<close> returns after the collecting goroutines have finished; this is its locked section.\<close>

definition Stop :: "Collector \<Rightarrow> string option \<times> Collector" where
  "Stop c =
     (if \<not> co_running c then (Some ''collector is not running'', c)
      else (None, c\<lparr>co_running := False\<rparr>))"

section \<open>The collection loop\<close>

lemma Swap_len [simp]: "tq_len (taskHeap_Swap q i j) = tq_len q"
  by (simp add: Swap_heap)

lemma heap_downLoop_len [simp]: "tq_len (fst (heap_downLoop q i n)) = tq_len q"
proof (induction q i n rule: heap_downLoop.induct)
  case (1 q i n)
  then show ?case
    by (subst heap_downLoop.simps) (simp add: Let_def)
qed

lemma heap_Pop_len [simp]: "tq_len (snd (heap_Pop q)) = tq_len q - 1"
  by (simp add: heap_Pop_def Let_def heap_down_eq taskHeap_Pop_def)

function peekNextCurrentTaskLocked :: "Collector \<Rightarrow> taskRef option \<times> Collector" where
  "peekNextCurrentTaskLocked c =
     (if tq_heap (co_queue c) = [] then (None, c)
      else let candidate = tq_heap (co_queue c) ! 0
           in if isTaskCurrentLocked c candidate then (Some candidate, c)
              else peekNextCurrentTaskLocked (c\<lparr>co_queue := snd (heap_Pop (co_queue c))\<rparr>))"
  by pat_completeness auto
termination by (relation "measure (\<lambda>c. tq_len (co_queue c))") auto

declare peekNextCurrentTaskLocked.simps [simp del]

function popNextCurrentTaskLocked :: "Collector \<Rightarrow> taskRef option \<times> Collector" where
  "popNextCurrentTaskLocked c =
     (if tq_heap (co_queue c) = [] then (None, c)
      else let (candidate, q) = heap_Pop (co_queue c); c = c\<lparr>co_queue := q\<rparr>
           in if isTaskCurrentLocked c candidate then (Some candidate, c)
              else popNextCurrentTaskLocked c)"
  by pat_completeness auto
termination
proof (relation "measure (\<lambda>c. tq_len (co_queue c))")
  fix c :: Collector and x r q xa
  assume "tq_heap (co_queue c) \<noteq> []" "x = heap_Pop (co_queue c)" "(r, q) = x" "xa = c\<lparr>co_queue := q\<rparr>"
  then show "(xa, c) \<in> measure (\<lambda>c. tq_len (co_queue c))"
    using heap_Pop_len[of "co_queue c"] by (metis Collector.select_convs(1) Collector.surjective Collector.update_convs(1) diff_less in_measure length_greater_0_conv snd_conv zero_less_one)
qed simp

declare popNextCurrentTaskLocked.simps [simp del]

definition tryStartCollectTaskLocked :: "taskRef \<Rightarrow> Collector \<Rightarrow> bool \<times> Collector" where
  "tryStartCollectTaskLocked r c =
     (if co_activeCollects c \<ge> co_maxConcurrentCollects c then (False, c)
      else if \<not> isTaskCurrentLocked c r then (False, c)
      else (True, c\<lparr>co_activeCollects := co_activeCollects c + 1\<rparr>))"

text \<open>What an iteration of \<open>executeLoop\<close> ends in: waiting for a stop or wake signal, waiting at
  most for a duration, going round again, or having dispatched a task.\<close>

datatype loopOutcome = WaitForWake | WaitForDelay duration | LoopAgain | Dispatched taskRef

definition executeIteration :: "gotime \<Rightarrow> Collector \<Rightarrow> loopOutcome \<times> Collector" where
  "executeIteration now c =
     (case peekNextCurrentTaskLocked c of
        (None, c) \<Rightarrow> (WaitForWake, c)
      | (Some r, c) \<Rightarrow>
          let delay = time_Sub (ct_nextRun (taskAt c r)) now in
          if delay > 0 then (WaitForDelay delay, c)
          else if co_activeCollects c \<ge> co_maxConcurrentCollects c then (WaitForWake, c)
          else (case popNextCurrentTaskLocked c of
                  (None, c) \<Rightarrow> (LoopAgain, c)
                | (Some r, c) \<Rightarrow>
                    (case tryStartCollectTaskLocked r c of
                       (False, c) \<Rightarrow> (LoopAgain, c)
                     | (True, c) \<Rightarrow> (Dispatched r, c\<lparr>co_inflight := r # co_inflight c\<rparr>))))"

definition finishCollectTask :: "gotime \<Rightarrow> taskRef \<Rightarrow> Collector \<Rightarrow> Collector" where
  "finishCollectTask now r c =
     (let c = (if co_activeCollects c > 0 then c\<lparr>co_activeCollects := co_activeCollects c - 1\<rparr> else c);
          c = (if isTaskCurrentLocked c r
               then let t = taskAt c r;
                        q = writeTask r (t\<lparr>ct_nextRun := time_Add now (ct_interval t)\<rparr>) (co_queue c)
                    in c\<lparr>co_queue := heap_Push q r\<rparr>
               else c)
      in notifyTaskChangedLocked c)"

definition shouldStoreHistory :: "gotime \<Rightarrow> collectTask \<Rightarrow> gotime \<Rightarrow> bool" where
  "shouldStoreHistory now t collectedAt =
     (let interval = (if ct_storageInterval t \<le> 0 then resolveStorageInterval 0 else ct_storageInterval t)
      in if IsZero (ct_lastStored t) then True
         else let collectedAt = (if IsZero collectedAt then now else collectedAt)
              in time_Sub collectedAt (ct_lastStored t) \<ge> interval)"

definition markTaskCollected :: "gotime \<Rightarrow> taskRef \<Rightarrow> gotime \<Rightarrow> bool \<Rightarrow> Collector \<Rightarrow> Collector" where
  "markTaskCollected now r collectedAt stored c =
     (let collectedAt = (if IsZero collectedAt then now else collectedAt)
      in if \<not> isTaskCurrentLocked c r then c
         else let t = (taskAt c r)\<lparr>ct_lastRun := collectedAt\<rparr>;
                  t = (if stored then t\<lparr>ct_lastStored := collectedAt\<rparr> else t);
                  t = t\<lparr>ct_consecutiveFailures := 0, ct_lastError := [],
                        ct_lastErrorKind := collectErrorKindNone, ct_lastErrorAt := 0\<rparr>
              in c\<lparr>co_queue := writeTask r t (co_queue c)\<rparr>)"

definition markTaskFailed :: "gotime \<Rightarrow> taskRef \<Rightarrow> string \<Rightarrow> collectErrorKind \<Rightarrow> Collector \<Rightarrow> int \<times> Collector" where
  "markTaskFailed now r err kind c =
     (if \<not> isTaskCurrentLocked c r then (0, c)
      else let n = wrap64 (ct_consecutiveFailures (taskAt c r) + 1);
               t = (taskAt c r)\<lparr>ct_consecutiveFailures := n, ct_lastError := TrimSpace err,
                      ct_lastErrorKind := kind, ct_lastErrorAt := now\<rparr>
           in (n, c\<lparr>co_queue := writeTask r t (co_queue c)\<rparr>))"

section \<open>Steps\<close>

datatype collectorEvent =
    EvSync gotime "Device option list option"
  | EvLoop gotime
  | EvCollected gotime taskRef gotime bool
  | EvFailed gotime taskRef string collectErrorKind
  | EvFinish gotime taskRef
  | EvSetMax int int
  | EvSetIntervals duration duration
  | EvStop
  | EvStart gotime "Device option list option"

text \<open>A collecting goroutine marks its task and then finishes; the loop only runs while the
  collector does; a start follows the return of a stop, when no goroutine is left.\<close>

inductive collector_step :: "Collector \<Rightarrow> collectorEvent \<Rightarrow> Collector \<Rightarrow> bool" where
  sync: "collector_step c (EvSync now ds) (SyncDeviceStatus now ds c)"
| loop: "co_running c \<Longrightarrow> collector_step c (EvLoop now) (snd (executeIteration now c))"
| collected: "r \<in> set (co_inflight c) \<Longrightarrow>
    collector_step c (EvCollected now r at stored) (markTaskCollected now r at stored c)"
| failed: "r \<in> set (co_inflight c) \<Longrightarrow>
    collector_step c (EvFailed now r err kind) (snd (markTaskFailed now r err kind c))"
| finish: "r \<in> set (co_inflight c) \<Longrightarrow>
    collector_step c (EvFinish now r)
      ((finishCollectTask now r c)\<lparr>co_inflight := remove1 r (co_inflight c)\<rparr>)"
| setMax: "collector_step c (EvSetMax maxprocs limit) (SetMaxConcurrentCollects maxprocs limit c)"
| setIntervals: "collector_step c (EvSetIntervals a b) (SetRuntimeIntervals a b c)"
| stop: "collector_step c EvStop (snd (Stop c))"
| start: "co_inflight c = [] \<Longrightarrow> collector_step c (EvStart now ds) (snd (Start now ds c))"

inductive collector_reachable :: "Collector \<Rightarrow> bool" where
  init: "collector_reachable (NewCollectorWithIntervals maxprocs a b)"
| step: "collector_reachable c \<Longrightarrow> collector_step c e c' \<Longrightarrow> collector_reachable c'"

inductive_cases collector_stepE: "collector_step c e c'"

text \<open>The invariant: a well-formed queue; a table that maps each device to its own task; every task
  of the table either waits in the heap or is being collected, and never both; the
  counter of active collections counts the collecting goroutines.\<close>

definition tableOK :: "Collector \<Rightarrow> bool" where
  "tableOK c \<longleftrightarrow> distinct (map fst (co_tasks c)) \<and> distinct (map snd (co_tasks c)) \<and>
     (\<forall>(d, r)\<in>set (co_tasks c). dev_ID (ct_device (taskAt c r)) = d \<and> r < co_nextRef c)"

definition placedOK :: "Collector \<Rightarrow> bool" where
  "placedOK c \<longleftrightarrow> set (tq_heap (co_queue c)) \<union> (set (co_inflight c) \<inter> snd ` set (co_tasks c)) = snd ` set (co_tasks c) \<and>
     set (tq_heap (co_queue c)) \<inter> set (co_inflight c) = {}"

definition inflightOK :: "Collector \<Rightarrow> bool" where
  "inflightOK c \<longleftrightarrow> distinct (co_inflight c) \<and> (\<forall>r\<in>set (co_inflight c). r < co_nextRef c) \<and>
     co_activeCollects c = int (length (co_inflight c))"

definition collectorInv :: "Collector \<Rightarrow> bool" where
  "collectorInv c \<longleftrightarrow> queueInv (co_queue c) \<and> tableOK c \<and> placedOK c \<and> inflightOK c"

section \<open>Queue updates that keep the order\<close>

lemma writeTask_simps [simp]:
  "tq_heap (writeTask r t q) = tq_heap q"
  "payload (writeTask r t q) x = (if x = r then t\<lparr>ct_index := 0\<rparr> else payload q x)"
  by (simp_all add: writeTask_def payload_def)

lemma writeTask_queueInv:
  assumes "queueInv q" and "r \<notin> set (tq_heap q) \<or> ct_nextRun t = ct_nextRun (tq_store q r)"
  shows "queueInv (writeTask r t q)"
proof -
  have idx: "ct_index (tq_store (writeTask r t q) x) = ct_index (tq_store q x)" for x
    by (simp add: writeTask_def)
  have prio: "prioAt (writeTask r t q) k = prioAt q k" if "k < tq_len q" for k
    using assms(2) nth_mem[OF that] by (auto simp: prioAt_def writeTask_def)
  have "heapOn (tq_len q) (writeTask r t q)"
    unfolding heapOn_def
  proof (intro allI impI)
    fix k assume k: "0 < k \<and> k < tq_len q"
    then have "parent k < tq_len q" using parent_less by (metis order_less_trans)
    with k prio assms(1) show "prioAt (writeTask r t q) (parent k) \<le> prioAt (writeTask r t q) k"
      by (simp add: queueInv_def heapOn_def)
  qed
  with assms(1) idx show ?thesis by (simp add: queueInv_def indexOK_def)
qed

lemma fresh_queueInv:
  assumes "queueInv q" and "r \<notin> set (tq_heap q)" and "ct_index t = -1"
  shows "queueInv (q\<lparr>tq_store := (tq_store q)(r := t)\<rparr>)"
proof -
  have t: "t\<lparr>ct_index := -1\<rparr> = t" using assms(3) by (cases t) simp
  have "ct_index (tq_store q r) = -1" using assms by (simp add: queueInv_def)
  then have "writeTask r t q = q\<lparr>tq_store := (tq_store q)(r := t)\<rparr>"
    unfolding writeTask_def by (simp only: t)
  then show ?thesis using writeTask_queueInv[OF assms(1), of r t] assms(2) by metis
qed

lemma payload_device: "payload q' r = payload q r \<Longrightarrow> ct_device (tq_store q' r) = ct_device (tq_store q r)"
  unfolding payload_def by (metis collectTask.select_convs(1) collectTask.surjective collectTask.update_convs(13))

lemma device_payload: "ct_device (tq_store q r) = ct_device (payload q r)"
  by (simp add: payload_def)

lemma index_set: "mset (tq_heap q') = mset (tq_heap q) \<Longrightarrow> set (tq_heap q') = set (tq_heap q)"
  by (metis set_mset_mset)

lemma update_absent: "map_of m k = None \<Longrightarrow> AList.update k v m = m @ [(k, v)]"
  by (induction m) (auto split: if_splits)

section \<open>The invariant, operation by operation\<close>

lemma collectorInv_cong:
  assumes "co_queue c' = co_queue c" and "co_tasks c' = co_tasks c" and "co_nextRef c' = co_nextRef c"
    and "co_inflight c' = co_inflight c" and "co_activeCollects c' = co_activeCollects c"
  shows "collectorInv c' = collectorInv c"
  using assms by (simp add: collectorInv_def tableOK_def placedOK_def inflightOK_def)

lemma pruneKeys_simps [simp]:
  "co_queue (pruneUnusedDriverProductKeysLocked c) = co_queue c"
  "co_tasks (pruneUnusedDriverProductKeysLocked c) = co_tasks c"
  "co_nextRef (pruneUnusedDriverProductKeysLocked c) = co_nextRef c"
  "co_inflight (pruneUnusedDriverProductKeysLocked c) = co_inflight c"
  "co_activeCollects (pruneUnusedDriverProductKeysLocked c) = co_activeCollects c"
  "co_maxConcurrentCollects (pruneUnusedDriverProductKeysLocked c) = co_maxConcurrentCollects c"
  "co_running (pruneUnusedDriverProductKeysLocked c) = co_running c"
  by (simp_all add: pruneUnusedDriverProductKeysLocked_def Let_def)

lemma pruneKeys_inv [simp]: "collectorInv (pruneUnusedDriverProductKeysLocked c) = collectorInv c"
  by (rule collectorInv_cong) simp_all

lemma notify_inv [simp]: "collectorInv (notifyTaskChangedLocked c) = collectorInv c"
  by (rule collectorInv_cong) (simp_all add: notifyTaskChangedLocked_def)

lemma current_iff:
  assumes "tableOK c"
  shows "isTaskCurrentLocked c r \<longleftrightarrow> r \<in> snd ` set (co_tasks c)"
proof
  assume "isTaskCurrentLocked c r"
  then show "r \<in> snd ` set (co_tasks c)" by (force simp: isTaskCurrentLocked_def dest: map_of_SomeD)
next
  assume "r \<in> snd ` set (co_tasks c)"
  then obtain d where "(d, r) \<in> set (co_tasks c)" by auto
  with assms show "isTaskCurrentLocked c r" by (fastforce simp: isTaskCurrentLocked_def tableOK_def)
qed

lemma task_of_device:
  assumes "tableOK c" and "map_of (co_tasks c) d = Some r"
  shows "dev_ID (ct_device (taskAt c r)) = d" and "r \<in> snd ` set (co_tasks c)"
  using assms by (force simp: tableOK_def dest: map_of_SomeD)+

text \<open>Rewriting a task of the table with one for the same device.\<close>

lemma retask_inv:
  assumes inv: "collectorInv c" and q: "queueInv q'" "mset (tq_heap q') = mset (tq_heap (co_queue c))"
    and pay: "\<forall>x. payload q' x = (if x = r then t\<lparr>ct_index := 0\<rparr> else payload (co_queue c) x)"
    and dev: "r \<in> snd ` set (co_tasks c) \<Longrightarrow> dev_ID (ct_device t) = dev_ID (ct_device (taskAt c r))"
  shows "collectorInv (c\<lparr>co_queue := q'\<rparr>)"
proof -
  have ids: "dev_ID (ct_device (tq_store q' x)) = dev_ID (ct_device (taskAt c x))" if "x \<in> snd ` set (co_tasks c)" for x
    using pay dev that by (cases "x = r") (simp_all add: device_payload)
  then have "tableOK (c\<lparr>co_queue := q'\<rparr>)"
    using inv by (force simp: collectorInv_def tableOK_def)
  with q(1) inv index_set[OF q(2)] show ?thesis
    by (simp add: collectorInv_def placedOK_def inflightOK_def)
qed

lemma refreshTask_inv:
  assumes "collectorInv c" and "map_of (co_tasks c) (dev_ID device) = Some r"
  shows "collectorInv (refreshTaskLocked now r device c)"
proof -
  have "queueInv (co_queue c)" and t: "tableOK c" using assms(1) by (auto simp: collectorInv_def)
  note R = rewrite_correct[OF this(1), of r "refreshedTask now device (taskAt c r)"]
  have dev: "dev_ID (ct_device (refreshedTask now device (taskAt c r))) = dev_ID (ct_device (taskAt c r))"
    using task_of_device[OF t assms(2)] by (simp add: refreshedTask_def Let_def)
  show ?thesis
    unfolding refreshTaskLocked_def
    by (rule retask_inv[OF assms(1) _ _ _ dev]) (use R in blast)+
qed

lemma heap_refs:
  assumes "collectorInv c"
  shows "set (tq_heap (co_queue c)) \<subseteq> snd ` set (co_tasks c)"
    and "r \<in> set (tq_heap (co_queue c)) \<Longrightarrow> r < co_nextRef c"
    and "r \<in> set (tq_heap (co_queue c)) \<Longrightarrow> r \<notin> set (co_inflight c)"
proof -
  show sub: "set (tq_heap (co_queue c)) \<subseteq> snd ` set (co_tasks c)"
    using assms unfolding collectorInv_def placedOK_def by blast
  show "r \<in> set (tq_heap (co_queue c)) \<Longrightarrow> r < co_nextRef c"
    using sub assms unfolding collectorInv_def tableOK_def by fastforce
  show "r \<in> set (tq_heap (co_queue c)) \<Longrightarrow> r \<notin> set (co_inflight c)"
    using assms unfolding collectorInv_def placedOK_def by blast
qed

lemma addTask_inv:
  assumes inv: "collectorInv c" and new: "map_of (co_tasks c) (dev_ID device) = None"
  shows "collectorInv (snd (upsertTaskLocked now device c))"
proof -
  let ?r = "co_nextRef c"
  let ?q = "(co_queue c)\<lparr>tq_store := (tq_store (co_queue c))(?r := newCollectTask now device None)\<rparr>"
  have out: "?r \<notin> set (tq_heap (co_queue c))" "?r \<notin> set (co_inflight c)" "?r \<notin> snd ` set (co_tasks c)"
    using heap_refs(2)[OF inv] inv by (auto simp: collectorInv_def inflightOK_def tableOK_def)
  have "queueInv ?q"
    by (rule fresh_queueInv) (use inv out in \<open>auto simp: collectorInv_def newCollectTask_def Let_def\<close>)
  note P = heap_Push_correct[OF this, of ?r]
  have "mset (tq_heap (heap_Push ?q ?r)) = add_mset ?r (mset (tq_heap (co_queue c)))" using P out by simp
  from arg_cong[OF this, of set_mset]
  have heap: "set (tq_heap (heap_Push ?q ?r)) = insert ?r (set (tq_heap (co_queue c)))" by simp
  have pay: "payload (heap_Push ?q ?r) x = payload ?q x" for x using P out by simp
  have dev: "ct_device (tq_store (heap_Push ?q ?r) x) = (if x = ?r then device else ct_device (taskAt c x))" for x
    using payload_device[OF pay[of x]] by (simp add: newCollectTask_def Let_def)
  have upd: "AList.update (dev_ID device) ?r (co_tasks c) = co_tasks c @ [(dev_ID device, ?r)]"
    using update_absent[OF new] .
  have keys: "dev_ID device \<notin> fst ` set (co_tasks c)" using new by (simp add: map_of_eq_None_iff)
  have res: "snd (upsertTaskLocked now device c) =
      c\<lparr>co_nextRef := Suc ?r, co_tasks := co_tasks c @ [(dev_ID device, ?r)], co_queue := heap_Push ?q ?r\<rparr>"
    using new by (simp add: upsertTaskLocked_def Let_def upd)
  have old: "\<forall>(d, r)\<in>set (co_tasks c). dev_ID (ct_device (taskAt c r)) = d \<and> r < ?r"
      "distinct (map fst (co_tasks c))" "distinct (map snd (co_tasks c))"
    using inv by (auto simp: collectorInv_def tableOK_def)
  have "\<forall>(d, r)\<in>set (co_tasks c @ [(dev_ID device, ?r)]).
      dev_ID (ct_device (tq_store (heap_Push ?q ?r) r)) = d \<and> r < Suc ?r"
    using old(1) by (auto simp: dev)
  then have "tableOK (snd (upsertTaskLocked now device c))"
    using old(2,3) out(3) keys unfolding res tableOK_def by simp
  moreover have "placedOK (snd (upsertTaskLocked now device c))"
  proof -
    let ?R = "snd ` set (co_tasks c)" and ?H = "set (tq_heap (co_queue c))" and ?I = "set (co_inflight c)"
    have "?H \<union> (?I \<inter> ?R) = ?R" "?H \<inter> ?I = {}" using inv by (auto simp: collectorInv_def placedOK_def)
    then have "insert ?r ?H \<union> (?I \<inter> insert ?r ?R) = insert ?r ?R" "insert ?r ?H \<inter> ?I = {}"
      using out(2) by auto
    then show ?thesis unfolding res placedOK_def by (simp add: heap)
  qed
  moreover have "inflightOK (snd (upsertTaskLocked now device c))"
    using inv unfolding res by (auto simp: collectorInv_def inflightOK_def)
  moreover have "queueInv (co_queue (snd (upsertTaskLocked now device c)))"
    using P out unfolding res by simp
  ultimately show ?thesis by (simp add: collectorInv_def)
qed

lemma upsert_inv: "collectorInv c \<Longrightarrow> collectorInv (snd (upsertTaskLocked now device c))"
proof (cases "map_of (co_tasks c) (dev_ID device)")
  case (Some r)
  assume "collectorInv c"
  with refreshTask_inv[OF this Some, of now] Some show ?thesis
    by (simp add: upsertTaskLocked_def Let_def)
qed (rule addTask_inv)

lemma snd_delete:
  assumes "distinct (map snd m)" and "distinct (map fst m)" and "map_of m k = Some v"
  shows "snd ` set (AList.delete k m) = snd ` set m - {v}"
  using assms
proof (induction m)
  case (Cons e m)
  obtain a b where e: "e = (a, b)" by fastforce
  show ?case
  proof (cases "a = k")
    case True
    then have "k \<notin> fst ` set m" using Cons.prems(2) e by simp
    then have "AList.delete k m = m" by (simp add: delete_notin_dom)
    with True Cons.prems e show ?thesis by auto
  next
    case False
    then have "map_of m k = Some v" using Cons.prems(3) e by simp
    moreover from this have "b \<noteq> v" using Cons.prems(1) e map_of_SomeD by force
    ultimately show ?thesis using False Cons e by auto
  qed
qed simp

lemma delete_sub: "set (AList.delete k m) \<subseteq> set m"
  by (auto simp: AList.delete_eq)

lemma distinct_snd_delete: "distinct (map snd m) \<Longrightarrow> distinct (map snd (AList.delete k m))"
  by (simp add: AList.delete_eq distinct_map_filter)

text \<open>The placement of tasks, as facts on sets: the heap \<open>H\<close>, the collecting tasks \<open>I\<close> and the
  tasks \<open>R\<close> of the table.\<close>

lemma placed_remove:
  "H \<union> (I \<inter> R) = R \<Longrightarrow> H \<inter> I = {} \<Longrightarrow> (H - {r}) \<union> (I \<inter> (R - {r})) = R - {r} \<and> (H - {r}) \<inter> I = {}"
  by blast

lemma placed_finish:
  "H \<union> (I \<inter> R) = R \<Longrightarrow> H \<inter> I = {} \<Longrightarrow> r \<in> R \<Longrightarrow>
     insert r H \<union> ((I - {r}) \<inter> R) = R \<and> insert r H \<inter> (I - {r}) = {}"
  by blast

lemma placed_dispatch:
  "insert r H \<union> (I \<inter> R) = R \<and> insert r H \<inter> I = {} \<Longrightarrow> r \<notin> H \<Longrightarrow>
     H \<union> (insert r I \<inter> R) = R \<and> H \<inter> insert r I = {}"
  by blast

lemma removeTask_inv:
  assumes inv: "collectorInv c"
  shows "collectorInv (removeTaskLocked d c)"
proof (cases "map_of (co_tasks c) d")
  case None
  then have "AList.delete d (co_tasks c) = co_tasks c" by (simp add: delete_notin_dom map_of_eq_None_iff)
  then have "collectorInv (c\<lparr>co_tasks := AList.delete d (co_tasks c), co_alarms := A\<rparr>)" for A
    using inv collectorInv_cong[of "c\<lparr>co_tasks := co_tasks c, co_alarms := A\<rparr>" c] by simp
  then show ?thesis using None by (simp add: removeTaskLocked_def Let_def)
next
  case (Some r)
  let ?q = "dropTask r (co_queue c)" and ?t = "AList.delete d (co_tasks c)"
  let ?c = "c\<lparr>co_queue := ?q, co_tasks := ?t, co_alarms := clearAlarmStateForDevice (co_alarms c) d\<rparr>"
  have qi: "queueInv (co_queue c)" and dist: "distinct (map fst (co_tasks c))" "distinct (map snd (co_tasks c))"
    and tab: "\<forall>(d, r)\<in>set (co_tasks c). dev_ID (ct_device (taskAt c r)) = d \<and> r < co_nextRef c"
    using inv by (auto simp: collectorInv_def tableOK_def)
  note D = dropTask_correct[OF qi, of r]
  have hd: "distinct (tq_heap (co_queue c))" using qi by (simp add: queueInv_def indexOK_def)
  have "mset (tq_heap ?q) = mset (remove1 r (tq_heap (co_queue c)))" using D by simp
  then have "set (tq_heap ?q) = set (remove1 r (tq_heap (co_queue c)))" by (rule mset_eq_setD)
  then have heap: "set (tq_heap ?q) = set (tq_heap (co_queue c)) - {r}" using hd by simp
  have refs: "snd ` set ?t = snd ` set (co_tasks c) - {r}" by (rule snd_delete[OF dist(2,1) Some])
  have dev: "ct_device (tq_store ?q x) = ct_device (taskAt c x)" for x using D payload_device by blast
  have "tableOK ?c"
    using dist distinct_delete[OF dist(1)] distinct_snd_delete[OF dist(2)] tab delete_sub[of d "co_tasks c"] dev
    unfolding tableOK_def by (simp, blast)
  moreover have "placedOK ?c"
  proof -
    let ?R = "snd ` set (co_tasks c)" and ?H = "set (tq_heap (co_queue c))" and ?I = "set (co_inflight c)"
    have "?H \<union> (?I \<inter> ?R) = ?R" "?H \<inter> ?I = {}" using inv by (auto simp: collectorInv_def placedOK_def)
    then have "(?H - {r}) \<union> (?I \<inter> (?R - {r})) = ?R - {r} \<and> (?H - {r}) \<inter> ?I = {}" by (rule placed_remove)
    moreover have "placedOK ?c \<longleftrightarrow>
        (?H - {r}) \<union> (?I \<inter> (?R - {r})) = ?R - {r} \<and> (?H - {r}) \<inter> ?I = {}"
      by (simp add: placedOK_def heap refs)
    ultimately show ?thesis by blast
  qed
  moreover have "inflightOK ?c" using inv by (simp add: collectorInv_def inflightOK_def)
  ultimately have "collectorInv ?c" using D by (simp add: collectorInv_def)
  then show ?thesis using Some by (simp add: removeTaskLocked_def Let_def)
qed

lemma syncDeviceTask_inv: "collectorInv c \<Longrightarrow> collectorInv (snd (syncDeviceTaskLocked now d c))"
  by (auto simp: syncDeviceTaskLocked_def upsert_inv removeTask_inv split: option.split)

lemma syncDevices_inv: "collectorInv (snd (snd st)) \<Longrightarrow> collectorInv (snd (snd (syncDevices now ds st)))"
proof (induction now ds st rule: syncDevices.induct)
  case (3 now device ds changed seen c)
  then show ?case
    using syncDeviceTask_inv[of c now "Some device"] by (auto simp: case_prod_beta Let_def)
qed simp_all

lemma pruneFold_inv:
  "collectorInv (snd st) \<Longrightarrow>
     collectorInv (snd (fold (\<lambda>d (n, c). if d \<in> S then (n, c) else (Suc n, removeTaskLocked d c)) ids st))"
  by (induction ids arbitrary: st) (auto simp: case_prod_beta removeTask_inv)

lemma sync_inv: "collectorInv c \<Longrightarrow> collectorInv (SyncDeviceStatus now ds c)"
  using syncDevices_inv[of "(False, [], c)" now] pruneFold_inv
  by (auto simp: SyncDeviceStatus_def pruneMissingTasksLocked_def Let_def case_prod_beta split: option.split)

lemma loadDevices_inv: "collectorInv (snd st) \<Longrightarrow> collectorInv (snd (loadDevices now ds st))"
proof (induction now ds st rule: loadDevices.induct)
  case (2 now d ds n c)
  then show ?case
    by (cases d) (auto simp: case_prod_beta Let_def upsert_inv)
qed simp

lemma emptyQueue_inv: "queueInv emptyQueue"
  by (rule queueInv_empty) (simp_all add: emptyQueue_def newCollectTask_def Let_def)

lemma start_inv:
  assumes "collectorInv c" and "co_inflight c = []"
  shows "collectorInv (snd (Start now ds c))"
proof (cases "co_running c")
  case False
  let ?c = "c\<lparr>co_running := True, co_wake := False, co_deviceSyncReset := None, co_commandPollReset := None,
     co_tasks := [], co_activeCollects := 0, co_queue := emptyQueue, co_driverProductKeys := []\<rparr>"
  have "tq_heap emptyQueue = []" by (simp add: emptyQueue_def)
  then have "collectorInv ?c"
    using emptyQueue_inv assms(2) by (simp add: collectorInv_def tableOK_def placedOK_def inflightOK_def)
  with loadDevices_inv[of "(0, ?c)" now] False show ?thesis
    by (auto simp: Start_def loadEnabledDevices_def Let_def case_prod_beta split: option.split)
qed (simp add: Start_def assms(1))

lemma mark_inv:
  assumes inv: "collectorInv c" and nr: "ct_nextRun t = ct_nextRun (taskAt c r)"
    and dev: "ct_device t = ct_device (taskAt c r)"
  shows "collectorInv (c\<lparr>co_queue := writeTask r t (co_queue c)\<rparr>)"
proof -
  have "queueInv (co_queue c)" using inv by (simp add: collectorInv_def)
  then show ?thesis
    by (intro retask_inv[OF inv, where r = r and t = t]) (simp_all add: writeTask_queueInv nr dev)
qed

lemma markTaskCollected_inv: "collectorInv c \<Longrightarrow> collectorInv (markTaskCollected now r at stored c)"
  by (auto simp: markTaskCollected_def Let_def intro!: mark_inv)

lemma markTaskFailed_inv: "collectorInv c \<Longrightarrow> collectorInv (snd (markTaskFailed now r err kind c))"
  by (auto simp: markTaskFailed_def Let_def intro!: mark_inv)

lemma finish_inv:
  assumes inv: "collectorInv c" and r: "r \<in> set (co_inflight c)"
  shows "collectorInv ((finishCollectTask now r c)\<lparr>co_inflight := remove1 r (co_inflight c)\<rparr>)"
proof -
  have fl: "distinct (co_inflight c)" "co_activeCollects c = int (length (co_inflight c))"
    and fr: "\<forall>r\<in>set (co_inflight c). r < co_nextRef c"
    and pl: "set (tq_heap (co_queue c)) \<union> (set (co_inflight c) \<inter> snd ` set (co_tasks c)) = snd ` set (co_tasks c)"
      "set (tq_heap (co_queue c)) \<inter> set (co_inflight c) = {}"
    and qi: "queueInv (co_queue c)" and tab: "tableOK c"
    using inv by (auto simp: collectorInv_def inflightOK_def placedOK_def)
  have pos: "co_activeCollects c > 0" using fl(2) r by (cases "co_inflight c") auto
  have rm: "set (remove1 r (co_inflight c)) = set (co_inflight c) - {r}"
      "int (length (remove1 r (co_inflight c))) = co_activeCollects c - 1"
    using fl r by (simp_all add: length_remove1) (cases "co_inflight c", simp_all)
  let ?c = "c\<lparr>co_activeCollects := co_activeCollects c - 1\<rparr>"
  have cur: "isTaskCurrentLocked ?c r \<longleftrightarrow> r \<in> snd ` set (co_tasks c)"
    using current_iff[OF tab] by (simp add: isTaskCurrentLocked_def)
  show ?thesis
  proof (cases "r \<in> snd ` set (co_tasks c)")
    case False
    then have "finishCollectTask now r c = notifyTaskChangedLocked ?c"
      using pos cur by (simp add: finishCollectTask_def Let_def)
    moreover have "placedOK (c\<lparr>co_activeCollects := a, co_wake := True, co_inflight := remove1 r (co_inflight c)\<rparr>)" for a
      using pl False unfolding placedOK_def by (simp add: rm) blast
    ultimately show ?thesis
      using inv fl fr rm by (auto simp: collectorInv_def notifyTaskChangedLocked_def tableOK_def inflightOK_def)
  next
    case True
    let ?t = "(taskAt c r)\<lparr>ct_nextRun := time_Add now (ct_interval (taskAt c r))\<rparr>"
    let ?w = "writeTask r ?t (co_queue c)"
    let ?q = "heap_Push ?w r"
    have out: "r \<notin> set (tq_heap (co_queue c))" using pl(2) r by blast
    have eq: "finishCollectTask now r c = notifyTaskChangedLocked (?c\<lparr>co_queue := ?q\<rparr>)"
      using pos cur True by (simp add: finishCollectTask_def Let_def)
    have "queueInv ?w" using writeTask_queueInv[OF qi] out by blast
    note P = heap_Push_correct[OF this, of r]
    have m: "mset (tq_heap ?q) = mset (r # tq_heap (co_queue c))" using P out by simp
    have heap: "set (tq_heap ?q) = insert r (set (tq_heap (co_queue c)))" using mset_eq_setD[OF m] by simp
    have dev: "ct_device (tq_store ?q x) = ct_device (taskAt c x)" for x
      using P out by (simp add: device_payload)
    have "tableOK (c\<lparr>co_queue := ?q\<rparr>)" using tab dev by (simp add: tableOK_def)
    moreover note placed_finish[OF pl True]
    ultimately show ?thesis
      using P out fl fr rm unfolding eq collectorInv_def
      by (auto simp: notifyTaskChangedLocked_def tableOK_def inflightOK_def placedOK_def heap)
  qed
qed

text \<open>Under the invariant every task in the heap is current, so the loop takes the root.\<close>

lemma peek_root:
  assumes "collectorInv c"
  shows "peekNextCurrentTaskLocked c =
    (if tq_heap (co_queue c) = [] then (None, c) else (Some (tq_heap (co_queue c) ! 0), c))"
proof (cases "tq_heap (co_queue c) = []")
  case False
  then have "tq_heap (co_queue c) ! 0 \<in> snd ` set (co_tasks c)"
    using heap_refs(1)[OF assms] nth_mem[of 0 "tq_heap (co_queue c)"] by auto
  then have "isTaskCurrentLocked c (tq_heap (co_queue c) ! 0)"
    using current_iff assms by (simp add: collectorInv_def)
  with False show ?thesis by (subst peekNextCurrentTaskLocked.simps) (simp add: Let_def)
qed (subst peekNextCurrentTaskLocked.simps, simp)

lemma pop_root:
  assumes inv: "collectorInv c" and ne: "tq_heap (co_queue c) \<noteq> []" and p: "heap_Pop (co_queue c) = (r, q)"
  shows "popNextCurrentTaskLocked c = (Some r, c\<lparr>co_queue := q\<rparr>) \<and> isTaskCurrentLocked (c\<lparr>co_queue := q\<rparr>) r"
proof -
  have qi: "queueInv (co_queue c)" and tab: "tableOK c" using inv by (auto simp: collectorInv_def)
  note P = heap_Pop_correct[OF qi ne p]
  have "r \<in> snd ` set (co_tasks c)"
    using heap_refs(1)[OF inv] P ne nth_mem[of 0 "tq_heap (co_queue c)"] by auto
  then have "isTaskCurrentLocked c r" using current_iff[OF tab] by blast
  then have "isTaskCurrentLocked (c\<lparr>co_queue := q\<rparr>) r"
    using P payload_device[of q r "co_queue c"] by (simp add: isTaskCurrentLocked_def)
  with ne p show ?thesis by (subst popNextCurrentTaskLocked.simps) (simp add: Let_def)
qed

lemma executeIteration_eq:
  assumes inv: "collectorInv c"
  shows "executeIteration now c =
    (if tq_heap (co_queue c) = [] then (WaitForWake, c)
     else let r = tq_heap (co_queue c) ! 0; delay = time_Sub (ct_nextRun (taskAt c r)) now in
       if delay > 0 then (WaitForDelay delay, c)
       else if co_activeCollects c \<ge> co_maxConcurrentCollects c then (WaitForWake, c)
       else (Dispatched r, c\<lparr>co_queue := snd (heap_Pop (co_queue c)),
               co_activeCollects := co_activeCollects c + 1, co_inflight := r # co_inflight c\<rparr>))"
proof (cases "tq_heap (co_queue c) = []")
  case True
  then show ?thesis using peek_root[OF inv] by (simp add: executeIteration_def)
next
  case False
  obtain r q where p: "heap_Pop (co_queue c) = (r, q)" by fastforce
  have qi: "queueInv (co_queue c)" using inv by (simp add: collectorInv_def)
  have r: "r = tq_heap (co_queue c) ! 0" using heap_Pop_correct[OF qi False p] by blast
  from pop_root[OF inv False p] peek_root[OF inv] False r p show ?thesis
    by (simp add: executeIteration_def Let_def tryStartCollectTaskLocked_def)
qed

lemma loop_inv:
  assumes inv: "collectorInv c"
  shows "collectorInv (snd (executeIteration now c))"
proof -
  have "collectorInv (c\<lparr>co_queue := snd (heap_Pop (co_queue c)), co_activeCollects := co_activeCollects c + 1,
      co_inflight := (tq_heap (co_queue c) ! 0) # co_inflight c\<rparr>)" (is "collectorInv ?c")
    if ne: "tq_heap (co_queue c) \<noteq> []"
  proof -
    obtain r q where p: "heap_Pop (co_queue c) = (r, q)" by fastforce
    have qi: "queueInv (co_queue c)" and tab: "tableOK c" using inv by (auto simp: collectorInv_def)
    note P = heap_Pop_correct[OF qi ne p]
    have r: "r = tq_heap (co_queue c) ! 0" "r \<in> set (tq_heap (co_queue c))" using P ne nth_mem[of 0] by auto
    have d: "distinct (tq_heap (co_queue c))" using qi by (simp add: queueInv_def indexOK_def)
    have m: "mset (tq_heap (co_queue c)) = mset (r # tq_heap q)" using P by simp
    have heap: "set (tq_heap (co_queue c)) = insert r (set (tq_heap q))" "r \<notin> set (tq_heap q)"
      using mset_eq_setD[OF m] mset_eq_imp_distinct_iff[OF m] d by simp_all
    have dev: "ct_device (tq_store q x) = ct_device (taskAt c x)" for x using P payload_device by blast
    have "tableOK ?c" using tab dev p by (simp add: tableOK_def)
    moreover have "placedOK ?c"
    proof -
      let ?R = "snd ` set (co_tasks c)" and ?I = "set (co_inflight c)" and ?H = "set (tq_heap q)"
      have "insert r ?H \<union> (?I \<inter> ?R) = ?R \<and> insert r ?H \<inter> ?I = {}"
        using inv heap(1) by (simp add: collectorInv_def placedOK_def)
      then have "?H \<union> (insert r ?I \<inter> ?R) = ?R \<and> ?H \<inter> insert r ?I = {}" using heap(2) by (rule placed_dispatch)
      then show ?thesis using p r(1) by (simp add: placedOK_def)
    qed
    moreover have "inflightOK ?c"
      using inv heap_refs(2,3)[OF inv r(2)] r(1) by (auto simp: collectorInv_def inflightOK_def)
    ultimately show ?thesis using P p by (simp add: collectorInv_def)
  qed
  with inv show ?thesis unfolding executeIteration_eq[OF inv] by (simp add: Let_def)
qed

lemma new_inv: "collectorInv (NewCollectorWithIntervals maxprocs a b)"
proof -
  have "tq_heap emptyQueue = []" by (simp add: emptyQueue_def)
  then show ?thesis
    using emptyQueue_inv
    by (simp add: NewCollectorWithIntervals_def collectorInv_def tableOK_def placedOK_def inflightOK_def)
qed

lemma setMax_inv: "collectorInv c \<Longrightarrow> collectorInv (SetMaxConcurrentCollects m l c)"
  using collectorInv_cong[of "SetMaxConcurrentCollects m l c" c]
  by (simp add: SetMaxConcurrentCollects_def notifyTaskChangedLocked_def)

lemma setIntervals_inv: "collectorInv c \<Longrightarrow> collectorInv (SetRuntimeIntervals a b c)"
  using collectorInv_cong[of "SetRuntimeIntervals a b c" c]
  by (simp add: SetRuntimeIntervals_def Let_def)

lemma stop_inv: "collectorInv c \<Longrightarrow> collectorInv (snd (Stop c))"
  using collectorInv_cong[of "snd (Stop c)" c] by (simp add: Stop_def)

lemma step_inv: "collector_step c e c' \<Longrightarrow> collectorInv c \<Longrightarrow> collectorInv c'"
  by (erule collector_step.cases)
    (simp_all add: sync_inv loop_inv markTaskCollected_inv markTaskFailed_inv finish_inv setMax_inv
      setIntervals_inv stop_inv start_inv)

lemma reachable_inv_aux: "collector_reachable c \<Longrightarrow> collectorInv c"
  by (induction rule: collector_reachable.induct) (simp_all add: new_inv step_inv)

section \<open>The task table as a map from devices to tasks\<close>

definition devTask :: "Collector \<Rightarrow> int \<Rightarrow> collectTask option" where
  "devTask c d = map_option (payload (co_queue c)) (map_of (co_tasks c) d)"

lemma devTask_prune [simp]: "devTask (pruneUnusedDriverProductKeysLocked c) = devTask c"
  by (simp add: devTask_def fun_eq_iff)

lemma shouldRefresh_payload [simp]: "shouldRefreshCollectTask (t\<lparr>ct_index := i\<rparr>) d = shouldRefreshCollectTask t d"
  by (simp add: shouldRefreshCollectTask_def)

lemma refreshed_settled: "\<not> shouldRefreshCollectTask (refreshedTask now device t) device"
  by (simp add: shouldRefreshCollectTask_def refreshedTask_def Let_def sameTaskDeviceConfig_def
      sameOptionalInt64_def split: option.split)

lemma new_settled: "\<not> shouldRefreshCollectTask (newCollectTask now device None) device"
  by (simp add: shouldRefreshCollectTask_def newCollectTask_def Let_def sameTaskDeviceConfig_def
      sameOptionalInt64_def split: option.split)

lemma other_ref:
  assumes "tableOK c" and "map_of (co_tasks c) d = Some r" and "map_of (co_tasks c) d' = Some r'" and "d \<noteq> d'"
  shows "r \<noteq> r'"
  using task_of_device(1)[OF assms(1,2)] task_of_device(1)[OF assms(1,3)] assms(4) by auto

lemma upsert_view:
  assumes inv: "collectorInv c"
  shows "\<exists>t. \<not> shouldRefreshCollectTask t device \<and>
    devTask (snd (upsertTaskLocked now device c)) = (devTask c)(dev_ID device \<mapsto> t)"
proof (cases "map_of (co_tasks c) (dev_ID device)")
  case None
  let ?r = "co_nextRef c"
  let ?q = "(co_queue c)\<lparr>tq_store := (tq_store (co_queue c))(?r := newCollectTask now device None)\<rparr>"
  have out: "?r \<notin> set (tq_heap (co_queue c))" "?r \<notin> snd ` set (co_tasks c)"
    using heap_refs(2)[OF inv] inv by (auto simp: collectorInv_def tableOK_def)
  have "queueInv ?q"
    by (rule fresh_queueInv) (use inv out in \<open>auto simp: collectorInv_def newCollectTask_def Let_def\<close>)
  then have pay: "payload (heap_Push ?q ?r) x =
      (if x = ?r then (newCollectTask now device None)\<lparr>ct_index := 0\<rparr> else payload (co_queue c) x)" for x
    using heap_Push_correct[of ?q ?r] out(1) by (simp add: payload_def)
  have ne: "r \<noteq> ?r" if "map_of (co_tasks c) d = Some r" for d r
    using out(2) map_of_SomeD[OF that] by force
  have "devTask (snd (upsertTaskLocked now device c)) d =
      ((devTask c)(dev_ID device \<mapsto> (newCollectTask now device None)\<lparr>ct_index := 0\<rparr>)) d" for d
    using None ne[of d]
    by (cases "map_of (co_tasks c) d") (auto simp: upsertTaskLocked_def Let_def devTask_def update_conv' pay)
  then show ?thesis using new_settled[of now device] by (intro exI[of _ "(newCollectTask now device None)\<lparr>ct_index := 0\<rparr>"]) auto
next
  case (Some r)
  have tab: "tableOK c" and qi: "queueInv (co_queue c)" using inv by (auto simp: collectorInv_def)
  show ?thesis
  proof (cases "shouldRefreshCollectTask (taskAt c r) device")
    case False
    then have "snd (upsertTaskLocked now device c) = c" using Some by (simp add: upsertTaskLocked_def)
    moreover have "devTask c (dev_ID device) = Some (payload (co_queue c) r)" using Some by (simp add: devTask_def)
    ultimately show ?thesis
      using False by (intro exI[of _ "payload (co_queue c) r"]) (auto simp: payload_def)
  next
    case True
    let ?t = "refreshedTask now device (taskAt c r)"
    have R: "payload (fixTask r (writeTask r ?t (co_queue c))) x =
        (if x = r then ?t\<lparr>ct_index := 0\<rparr> else payload (co_queue c) x)" for x
      using rewrite_correct[OF qi, of r ?t] by blast
    have "devTask (snd (upsertTaskLocked now device c)) = devTask (refreshTaskLocked now r device c)"
      using Some True by (simp add: upsertTaskLocked_def Let_def)
    moreover have "devTask (refreshTaskLocked now r device c) d = ((devTask c)(dev_ID device \<mapsto> ?t\<lparr>ct_index := 0\<rparr>)) d" for d
      using Some other_ref[OF tab Some, of d] R
      by (cases "map_of (co_tasks c) d") (auto simp: refreshTaskLocked_def devTask_def)
    ultimately show ?thesis
      using refreshed_settled[of now device "taskAt c r"] by (intro exI[of _ "?t\<lparr>ct_index := 0\<rparr>"]) auto
  qed
qed

lemma remove_view:
  assumes inv: "collectorInv c"
  shows "devTask (removeTaskLocked d0 c) = (devTask c)(d0 := None)"
proof
  fix d
  have qi: "queueInv (co_queue c)" using inv by (simp add: collectorInv_def)
  show "devTask (removeTaskLocked d0 c) d = ((devTask c)(d0 := None)) d"
    using dropTask_correct[OF qi]
    by (cases "map_of (co_tasks c) d0"; cases "map_of (co_tasks c) d")
      (auto simp: removeTaskLocked_def Let_def devTask_def delete_conv')
qed

definition settledFor :: "Device \<Rightarrow> collectTask option \<Rightarrow> bool" where
  "settledFor device t \<longleftrightarrow>
     (if dev_Enabled device = 1 then (\<exists>t'. t = Some t' \<and> \<not> shouldRefreshCollectTask t' device) else t = None)"

lemma syncDeviceTask_view:
  assumes "collectorInv c"
  shows "\<exists>t. settledFor device t \<and> devTask (snd (syncDeviceTaskLocked now (Some device) c)) = (devTask c)(dev_ID device := t)"
proof (cases "dev_Enabled device = 1")
  case True
  with upsert_view[OF assms, of device now] show ?thesis
    by (auto simp: syncDeviceTaskLocked_def settledFor_def)
next
  case False
  then show ?thesis
    using remove_view[OF assms, of "dev_ID device"]
    by (auto simp: syncDeviceTaskLocked_def settledFor_def devTask_def fun_eq_iff)
qed

abbreviation deviceIDs :: "Device option list \<Rightarrow> int list" where
  "deviceIDs ds \<equiv> map dev_ID (List.map_filter id ds)"

lemma syncDevices_view:
  "collectorInv c \<Longrightarrow> distinct (deviceIDs ds) \<Longrightarrow> syncDevices now ds (changed, seen, c) = (changed', seen', c') \<Longrightarrow>
     collectorInv c' \<and> set seen' = set seen \<union> set (deviceIDs ds) \<and>
     (\<forall>device\<in>set (List.map_filter id ds). settledFor device (devTask c' (dev_ID device))) \<and>
     (\<forall>d. d \<notin> set (deviceIDs ds) \<longrightarrow> devTask c' d = devTask c d)"
proof (induction ds arbitrary: changed seen c)
  case Nil
  then show ?case by simp
next
  case (Cons x ds)
  show ?case
  proof (cases x)
    case None
    with Cons show ?thesis by simp
  next
    case (Some device)
    obtain action c1 where s: "syncDeviceTaskLocked now (Some device) c = (action, c1)" by fastforce
    have inv1: "collectorInv c1" using syncDeviceTask_inv[OF Cons.prems(1), of now "Some device"] s by simp
    obtain t where t: "settledFor device t" "devTask c1 = (devTask c)(dev_ID device := t)"
      using syncDeviceTask_view[OF Cons.prems(1), of device now] s by auto
    have d: "distinct (deviceIDs ds)" "dev_ID device \<notin> set (deviceIDs ds)"
      using Cons.prems(2) Some by simp_all
    have "syncDevices now ds (changed \<or> action \<noteq> deviceSyncActionNone, dev_ID device # seen, c1) = (changed', seen', c')"
      using Cons.prems(3) Some s by simp
    note IH = Cons.IH[OF inv1 d(1) this]
    then have "devTask c' (dev_ID device) = t" using t(2) d(2) by simp
    with IH t d show ?thesis using Some by auto
  qed
qed

lemma pruneFold_view:
  "collectorInv (snd st) \<Longrightarrow>
     devTask (snd (fold (\<lambda>d (n, c). if d \<in> S then (n, c) else (Suc n, removeTaskLocked d c)) ids st)) d =
       (if d \<in> set ids \<and> d \<notin> S then None else devTask (snd st) d)"
  by (induction ids arbitrary: st) (auto simp: case_prod_beta removeTask_inv remove_view)

lemma devTask_dom: "devTask c d = None \<longleftrightarrow> d \<notin> fst ` set (co_tasks c)"
  by (simp add: devTask_def map_of_eq_None_iff)

lemma sync_view:
  assumes inv: "collectorInv c" and d: "distinct (deviceIDs ds)"
  shows "(\<forall>device\<in>set (List.map_filter id ds). settledFor device (devTask (SyncDeviceStatus now (Some ds) c) (dev_ID device))) \<and>
    (\<forall>d. d \<notin> set (deviceIDs ds) \<longrightarrow> devTask (SyncDeviceStatus now (Some ds) c) d = None)"
proof -
  obtain changed seen c1 where s: "syncDevices now ds (False, [], c) = (changed, seen, c1)" by (metis prod_cases3)
  note V = syncDevices_view[OF inv d s]
  let ?p = "pruneMissingTasksLocked seen c1"
  have view: "devTask (SyncDeviceStatus now (Some ds) c) x = devTask (snd ?p) x" for x
    using s by (simp add: SyncDeviceStatus_def Let_def case_prod_beta notifyTaskChangedLocked_def devTask_def)
  have "devTask (snd ?p) x = (if x \<in> fst ` set (co_tasks c1) \<and> x \<notin> set seen then None else devTask c1 x)" for x
    using pruneFold_view[of "(0, c1)" "set seen" "map fst (co_tasks c1)" x] V
    by (simp add: pruneMissingTasksLocked_def)
  moreover have "devTask c1 x = None" if "x \<notin> fst ` set (co_tasks c1)" for x using that devTask_dom by blast
  ultimately have "devTask (snd ?p) x = (if x \<in> set seen then devTask c1 x else None)" for x by simp
  with V view show ?thesis by auto
qed

section \<open>Properties\<close>

text \<open>C1: no task is lost and none runs twice at a time. In every reachable state of the collector,
  whatever was synchronised, dispatched, finished, reconfigured, stopped and started, the
  priority queue is a heap whose recorded positions are right; every task of the table is
  either waiting in it or being collected, never both; nothing else waits; and the counter of
  active collections is the number of collecting goroutines.\<close>

theorem scheduler_reachable_inv:
  assumes "collector_reachable c"
  shows "queueInv (co_queue c) \<and>
    (\<forall>(d, r)\<in>set (co_tasks c). dev_ID (ct_device (taskAt c r)) = d \<and>
       (r \<in> set (tq_heap (co_queue c))) \<noteq> (r \<in> set (co_inflight c))) \<and>
    set (tq_heap (co_queue c)) \<subseteq> snd ` set (co_tasks c) \<and>
    co_activeCollects c = int (length (co_inflight c)) \<and> distinct (co_inflight c)"
proof -
  have inv: "collectorInv c" by (rule reachable_inv_aux[OF assms])
  have "\<forall>(d, r)\<in>set (co_tasks c). dev_ID (ct_device (taskAt c r)) = d \<and>
       (r \<in> set (tq_heap (co_queue c))) \<noteq> (r \<in> set (co_inflight c))"
  proof (intro ballI, clarify)
    fix d r assume "(d, r) \<in> set (co_tasks c)"
    then have "dev_ID (ct_device (taskAt c r)) = d" "r \<in> snd ` set (co_tasks c)"
      using inv by (force simp: collectorInv_def tableOK_def)+
    moreover from this inv have "r \<in> set (tq_heap (co_queue c)) \<or> r \<in> set (co_inflight c)"
      unfolding collectorInv_def placedOK_def by blast
    ultimately show "dev_ID (ct_device (taskAt c r)) = d \<and>
       (r \<in> set (tq_heap (co_queue c))) \<noteq> (r \<in> set (co_inflight c))"
      using heap_refs(3)[OF inv] by blast
  qed
  with inv heap_refs(1)[OF inv] show ?thesis by (simp add: collectorInv_def inflightOK_def)
qed

definition exampleSchedDevice :: Device where
  "exampleSchedDevice = blankDevice\<lparr>dev_ID := 1, dev_Name := ''d'', dev_CollectInterval := 1000, dev_Enabled := 1\<rparr>"

theorem scheduler_reachable_inv_witness:
  "let c = snd (Start 5 (Some [Some exampleSchedDevice]) (NewCollector 4))
   in collector_reachable c \<and> co_tasks c = [(1, 0)] \<and>
      (0 \<in> set (tq_heap (co_queue c))) \<noteq> (0 \<in> set (co_inflight c))"
proof -
  define c0 where "c0 = NewCollector 4"
  define c where "c = snd (Start 5 (Some [Some exampleSchedDevice]) c0)"
  have "collector_reachable c0" unfolding c0_def NewCollector_def by (rule collector_reachable.init)
  moreover have "collector_step c0 (EvStart 5 (Some [Some exampleSchedDevice])) c"
    unfolding c_def by (rule collector_step.start) (simp add: c0_def NewCollector_def NewCollectorWithIntervals_def)
  ultimately have r: "collector_reachable c" by (rule collector_reachable.step)
  have t: "co_tasks c = [(1, 0)]"
    by (simp add: c_def c0_def Start_def loadEnabledDevices_def upsertTaskLocked_def exampleSchedDevice_def
        NewCollector_def NewCollectorWithIntervals_def Let_def notifyTaskChangedLocked_def)
  with scheduler_reachable_inv [OF r] r show ?thesis
    by (simp add: c_def c0_def Let_def)
qed

text \<open>C2: the loop dispatches the right task. In a reachable state an iteration of \<open>executeLoop\<close>
  dispatches exactly when a task is due and the concurrency limit is not reached; the task is
  one with the earliest instant of all waiting tasks, it was not being collected, it leaves
  the heap and nothing else does, and the limit holds afterwards. The loop never drops a
  task on the way (it never goes round again).\<close>

theorem loop_dispatches_earliest:
  assumes "collector_reachable c" and "executeIteration now c = (out, c')"
  shows "out \<noteq> LoopAgain \<and>
    ((\<exists>r. out = Dispatched r) \<longleftrightarrow>
       (\<exists>r\<in>set (tq_heap (co_queue c)). ct_nextRun (taskAt c r) \<le> now) \<and>
       co_activeCollects c < co_maxConcurrentCollects c) \<and>
    (\<forall>r. out = Dispatched r \<longrightarrow>
       r \<in> set (tq_heap (co_queue c)) \<and> r \<notin> set (co_inflight c) \<and>
       ct_nextRun (taskAt c r) \<le> now \<and>
       (\<forall>x\<in>set (tq_heap (co_queue c)). ct_nextRun (taskAt c r) \<le> ct_nextRun (taskAt c x)) \<and>
       mset (tq_heap (co_queue c)) = add_mset r (mset (tq_heap (co_queue c'))) \<and>
       co_inflight c' = r # co_inflight c \<and> co_activeCollects c' \<le> co_maxConcurrentCollects c')"
proof -
  have inv: "collectorInv c" by (rule reachable_inv_aux[OF assms(1)])
  have qi: "queueInv (co_queue c)" using inv by (simp add: collectorInv_def)
  let ?h = "tq_heap (co_queue c)"
  have pos: "time_Sub a b > 0 \<longleftrightarrow> b < a" for a b by (auto simp: time_Sub_def minInt64_def maxInt64_def)
  show ?thesis
  proof (cases "?h = []")
    case True
    with assms(2) show ?thesis unfolding executeIteration_eq[OF inv] by simp
  next
    case False
    obtain r q where p: "heap_Pop (co_queue c) = (r, q)" by fastforce
    note P = heap_Pop_correct[OF qi False p]
    have r: "r = ?h ! 0" "r \<in> set ?h" using P False nth_mem[of 0 ?h] by auto
    have due: "(\<exists>x\<in>set ?h. ct_nextRun (taskAt c x) \<le> now) \<longleftrightarrow> ct_nextRun (taskAt c r) \<le> now"
      using P r(2) by (meson order_trans)
    have eq: "(out, c') = (if ct_nextRun (taskAt c r) > now then (WaitForDelay (time_Sub (ct_nextRun (taskAt c r)) now), c)
        else if co_activeCollects c \<ge> co_maxConcurrentCollects c then (WaitForWake, c)
        else (Dispatched r, c\<lparr>co_queue := q, co_activeCollects := co_activeCollects c + 1, co_inflight := r # co_inflight c\<rparr>))"
      using assms(2) False p unfolding executeIteration_eq[OF inv]
      by (auto simp: Let_def pos r(1) split: if_splits)
    show ?thesis
    proof (cases "ct_nextRun (taskAt c r) \<le> now \<and> co_activeCollects c < co_maxConcurrentCollects c")
      case True
      then have "out = Dispatched r" "c' = c\<lparr>co_queue := q, co_activeCollects := co_activeCollects c + 1, co_inflight := r # co_inflight c\<rparr>"
        using eq by simp_all
      with True due P r(2) heap_refs(3)[OF inv r(2)] show ?thesis by auto
    next
      case False
      then have "out \<noteq> LoopAgain" "\<nexists>x. out = Dispatched x" using eq by (auto split: if_splits)
      with False due show ?thesis by auto
    qed
  qed
qed

definition runningExample :: Collector where
  "runningExample = snd (Start 5 (Some [Some exampleSchedDevice]) (NewCollector 4))"

lemma runningExample_reachable: "collector_reachable runningExample"
proof -
  have "collector_reachable (NewCollector 4)" unfolding NewCollector_def by (rule collector_reachable.init)
  moreover have "collector_step (NewCollector 4) (EvStart 5 (Some [Some exampleSchedDevice])) runningExample"
    unfolding runningExample_def
    by (rule collector_step.start) (simp add: NewCollector_def NewCollectorWithIntervals_def)
  ultimately show ?thesis by (rule collector_reachable.step)
qed

lemma runningExample_state:
  "co_tasks runningExample = [(1, 0)]" "co_inflight runningExample = []" "co_activeCollects runningExample = 0"
  "co_maxConcurrentCollects runningExample = 4" "tq_heap (co_queue runningExample) = [0]"
  "ct_nextRun (taskAt runningExample 0) = 5 + Second" "ct_interval (taskAt runningExample 0) = Second"
  by (simp_all add: runningExample_def Start_def loadEnabledDevices_def upsertTaskLocked_def
      exampleSchedDevice_def NewCollector_def NewCollectorWithIntervals_def Let_def notifyTaskChangedLocked_def
      defaultCollectConcurrency_def heap_Push_def taskHeap_Push_def emptyQueue_def heap_up.simps setIndex_def
      newCollectTask_def resolveCollectInterval_def time_Add_def wrap64_def)

theorem loop_dispatches_earliest_witness:
  "fst (executeIteration (6 + Second) runningExample) = Dispatched 0"
proof -
  obtain out c' where e: "executeIteration (6 + Second) runningExample = (out, c')" by fastforce
  from loop_dispatches_earliest [OF runningExample_reachable e]
  have "\<exists>r. out = Dispatched r" "\<forall>r. out = Dispatched r \<longrightarrow> r \<in> set (tq_heap (co_queue runningExample))"
    by (auto simp: runningExample_state)
  with e show ?thesis by (auto simp: runningExample_state)
qed

text \<open>C4: synchronisation with the database. After \<open>SyncDeviceStatus\<close> the task table has a task
  exactly for each enabled device of the list, and the task's configuration is the one
  of the list; disabled and vanished devices have none. If the list cannot be read
  nothing changes.\<close>

theorem sync_matches_database:
  assumes "collector_reachable c" and "distinct (deviceIDs ds)"
  shows "(\<forall>d. d \<in> fst ` set (co_tasks (SyncDeviceStatus now (Some ds) c)) \<longleftrightarrow>
      (\<exists>device. Some device \<in> set ds \<and> dev_Enabled device = 1 \<and> dev_ID device = d)) \<and>
    (\<forall>device t. Some device \<in> set ds \<and> dev_Enabled device = 1 \<and>
       devTask (SyncDeviceStatus now (Some ds) c) (dev_ID device) = Some t \<longrightarrow>
       sameTaskDeviceConfig (ct_device t) device \<and>
       ct_interval t = resolveCollectInterval (dev_CollectInterval device) \<and>
       ct_storageInterval t = resolveStorageInterval (dev_StorageInterval device)) \<and>
    SyncDeviceStatus now None c = c"
proof -
  let ?c = "SyncDeviceStatus now (Some ds) c"
  have inv: "collectorInv c" by (rule reachable_inv_aux[OF assms(1)])
  note V = sync_view[OF inv assms(2), of now]
  have settled: "settledFor device (devTask ?c (dev_ID device))" if "Some device \<in> set ds" for device
    using V[THEN conjunct1, rule_format, of device] that by (simp add: somes_set)
  have dom: "d \<in> fst ` set (co_tasks ?c) \<longleftrightarrow>
      (\<exists>device. Some device \<in> set ds \<and> dev_Enabled device = 1 \<and> dev_ID device = d)" for d
  proof
    assume "d \<in> fst ` set (co_tasks ?c)"
    then have ne: "devTask ?c d \<noteq> None" by (simp add: devTask_dom)
    have "d \<in> set (deviceIDs ds)" by (rule ccontr) (use V[THEN conjunct2] ne in simp)
    then obtain device where dev: "Some device \<in> set ds" "dev_ID device = d" by (auto simp: somes_set)
    moreover have "dev_Enabled device = 1"
      using settled[OF dev(1)] ne dev(2) by (simp add: settledFor_def split: if_splits)
    ultimately show "\<exists>device. Some device \<in> set ds \<and> dev_Enabled device = 1 \<and> dev_ID device = d" by blast
  next
    assume "\<exists>device. Some device \<in> set ds \<and> dev_Enabled device = 1 \<and> dev_ID device = d"
    then obtain device where dev: "Some device \<in> set ds" "dev_Enabled device = 1" "dev_ID device = d" by blast
    with settled[OF dev(1)] have "devTask ?c d \<noteq> None" by (auto simp: settledFor_def)
    then show "d \<in> fst ` set (co_tasks ?c)" by (simp add: devTask_dom)
  qed
  have conf: "sameTaskDeviceConfig (ct_device t) device \<and>
       ct_interval t = resolveCollectInterval (dev_CollectInterval device) \<and>
       ct_storageInterval t = resolveStorageInterval (dev_StorageInterval device)"
    if "Some device \<in> set ds" "dev_Enabled device = 1" "devTask ?c (dev_ID device) = Some t" for device t
  proof -
    have "\<not> shouldRefreshCollectTask t device"
      using settled[OF that(1)] that(2,3) by (simp add: settledFor_def)
    then show ?thesis by (simp add: shouldRefreshCollectTask_def split: if_splits)
  qed
  show ?thesis
  proof (intro conjI allI impI)
    show "SyncDeviceStatus now None c = c" by (simp add: SyncDeviceStatus_def)
  qed (use dom conf in \<open>blast+\<close>)
qed

theorem sync_matches_database_witness:
  "fst ` set (co_tasks (SyncDeviceStatus 7 (Some [Some (exampleSchedDevice\<lparr>dev_ID := 2\<rparr>), None]) runningExample)) = {2}"
proof -
  have "distinct (deviceIDs [Some (exampleSchedDevice\<lparr>dev_ID := 2\<rparr>), None])" by simp
  from sync_matches_database [OF runningExample_reachable this, of 7]
  show ?thesis by (auto simp: exampleSchedDevice_def)
qed

text \<open>the end of a collection. A finished task that is still the one of its device goes back
  into the heap with the instant one interval after the end, whatever the device's
  configuration has become meanwhile; a task that was removed or replaced while it was
  collected does not come back. In both cases its slot is free again and the loop is woken.\<close>

theorem finish_reschedules:
  assumes "collector_reachable c" and "r \<in> set (co_inflight c)"
  shows "(if r \<in> snd ` set (co_tasks c)
      then set (tq_heap (co_queue (finishCollectTask now r c))) = insert r (set (tq_heap (co_queue c))) \<and>
           ct_nextRun (taskAt (finishCollectTask now r c) r) = time_Add now (ct_interval (taskAt c r))
      else co_queue (finishCollectTask now r c) = co_queue c) \<and>
    co_activeCollects (finishCollectTask now r c) = co_activeCollects c - 1 \<and>
    co_wake (finishCollectTask now r c)"
proof -
  have inv: "collectorInv c" by (rule reachable_inv_aux[OF assms(1)])
  have qi: "queueInv (co_queue c)" and tab: "tableOK c" and act: "co_activeCollects c = int (length (co_inflight c))"
    using inv by (auto simp: collectorInv_def inflightOK_def)
  have pos: "co_activeCollects c > 0" using act assms(2) by (cases "co_inflight c") auto
  have out: "r \<notin> set (tq_heap (co_queue c))" using heap_refs(3)[OF inv] assms(2) by blast
  have cur: "isTaskCurrentLocked (c\<lparr>co_activeCollects := a\<rparr>) r \<longleftrightarrow> r \<in> snd ` set (co_tasks c)" for a
    using current_iff[OF tab] by (simp add: isTaskCurrentLocked_def)
  let ?t = "(taskAt c r)\<lparr>ct_nextRun := time_Add now (ct_interval (taskAt c r))\<rparr>"
  let ?w = "writeTask r ?t (co_queue c)"
  have "queueInv ?w" using writeTask_queueInv[OF qi] out by blast
  note P = heap_Push_correct[OF this, of r]
  have m: "mset (tq_heap (heap_Push ?w r)) = mset (r # tq_heap (co_queue c))" using P out by simp
  have "dueOf (heap_Push ?w r) r = dueOf ?w r" using P out by (simp add: dueOf_alt)
  then have "ct_nextRun (tq_store (heap_Push ?w r) r) = time_Add now (ct_interval (taskAt c r))"
    by (simp add: dueOf_def writeTask_def)
  with pos cur mset_eq_setD[OF m] show ?thesis
    by (simp add: finishCollectTask_def Let_def notifyTaskChangedLocked_def)
qed

theorem finish_reschedules_witness:
  "let c = snd (executeIteration (6 + Second) runningExample)
   in ct_nextRun (taskAt (finishCollectTask (8 + Second) 0 c) 0) = 8 + 2 * Second"
proof -
  define c where "c = snd (executeIteration (6 + Second) runningExample)"
  have e: "executeIteration (6 + Second) runningExample =
      (Dispatched 0, runningExample\<lparr>co_queue := snd (heap_Pop (co_queue runningExample)),
         co_activeCollects := 1, co_inflight := [0]\<rparr>)"
    using executeIteration_eq[OF reachable_inv_aux[OF runningExample_reachable], of "6 + Second"]
    by (simp add: runningExample_state Let_def time_Sub_def minInt64_def maxInt64_def)
  have "collector_step runningExample (EvLoop (6 + Second)) c"
    unfolding c_def by (rule collector_step.loop)
      (simp add: runningExample_def Start_def loadEnabledDevices_def upsertTaskLocked_def exampleSchedDevice_def
        NewCollector_def NewCollectorWithIntervals_def Let_def notifyTaskChangedLocked_def)
  with runningExample_reachable have reach: "collector_reachable c" by (rule collector_reachable.step)
  have c: "c = runningExample\<lparr>co_queue := snd (heap_Pop (co_queue runningExample)),
         co_activeCollects := 1, co_inflight := [0]\<rparr>" unfolding c_def e by simp
  have r: "0 \<in> set (co_inflight c)" "0 \<in> snd ` set (co_tasks c)" by (simp_all add: c runningExample_state)
  have qi: "queueInv (co_queue runningExample)"
    using reachable_inv_aux[OF runningExample_reachable] by (simp add: collectorInv_def)
  have "payload (co_queue c) 0 = payload (co_queue runningExample) 0"
    using heap_Pop_correct[OF qi _ prod.collapse[symmetric]] by (simp add: c runningExample_state)
  then have "ct_interval (payload (co_queue c) 0) = ct_interval (payload (co_queue runningExample) 0)" by simp
  then have "ct_interval (taskAt c 0) = Second" by (simp add: payload_def runningExample_state)
  moreover have "ct_nextRun (taskAt (finishCollectTask (8 + Second) 0 c) 0) = time_Add (8 + Second) (ct_interval (taskAt c 0))"
    using finish_reschedules [OF reach r(1), of "8 + Second"] r(2) by simp
  ultimately show ?thesis unfolding Let_def c_def[symmetric] by (simp add: time_Add_def)
qed

text \<open>intervals. Zero and negative settings fall back to the defaults of five seconds and five
  minutes; every other setting is honoured exactly as long as it fits \<open>time.Duration\<close>.
  A collection interval of 9223372036855 milliseconds or more overflows: the
  resulting interval is negative and its task is due at once, every time.\<close>

theorem intervals_resolved:
  "(ms \<le> 0 \<longrightarrow> resolveCollectInterval ms = 5 * Second) \<and>
   (s \<le> 0 \<longrightarrow> resolveStorageInterval s = 5 * Minute) \<and>
   (0 < ms \<and> ms \<le> 9223372036854 \<longrightarrow> resolveCollectInterval ms = ms * Millisecond) \<and>
   (0 < s \<and> s \<le> 9223372036 \<longrightarrow> resolveStorageInterval s = s * Second) \<and>
   resolveCollectInterval 9223372036855 < 0"
  by (simp add: resolveCollectInterval_def resolveStorageInterval_def Let_def
      defaultCollectIntervalMilliseconds_def DefaultStorageIntervalSeconds_def in_int64_def minInt64_def
      maxInt64_def) (simp add: wrap64_def)

theorem intervals_resolved_witness:
  "resolveCollectInterval (-1) = 5 * Second \<and> resolveStorageInterval 60 = Minute"
  using intervals_resolved [of "-1" 60] by simp

end
