(* ===== verification/Collect.thy ===== *)
theory Collect
  imports Scheduler Threshold_Check
begin

text \<open>
  One collection of a device, from the driver's answer to the stored sample
  (\<open>modbus_collect.go\<close>, \<open>error_tracking.go\<close>, \<open>collectOnce\<close> of \<open>collector.go\<close>), the commands
  that come from the northbound side (\<open>command_poll.go\<close>), the runtime status that the API
  reads (\<open>runtime_status.go\<close>), and the identity rules for a driver's result
  (\<open>driver/result_identity.go\<close>).

  The driver executor, the SQL database and \<open>encoding/json\<close> are parameters: the executor is a
  function of the device, absent when the collector has none; what the collector writes to
  the outside is a list of effects in the order of the calls. A Go error is its text
  together with the answers of \<open>errors.Is\<close> for the two sentinels the code asks for.
\<close>

section \<open>Errors\<close>

record goerror =
  ge_Canceled :: bool
  ge_DeadlineExceeded :: bool
  ge_Text :: string

definition plainError :: "string \<Rightarrow> goerror" where
  "plainError s = \<lparr>ge_Canceled = False, ge_DeadlineExceeded = False, ge_Text = s\<rparr>"

definition classifyCollectError :: "golib \<Rightarrow> goerror option \<Rightarrow> collectErrorKind" where
  "classifyCollectError L err =
     (case err of
        None \<Rightarrow> collectErrorKindNone
      | Some e \<Rightarrow>
          if ge_Canceled e then collectErrorKindCanceled
          else if ge_DeadlineExceeded e then collectErrorKindTimeout
          else let msg = ToLower (uniLower L) (TrimSpace (ge_Text e)) in
            if Contains msg ''timeout'' \<or> Contains msg ''deadline exceeded'' \<or> Contains msg ''i/o timeout''
            then collectErrorKindTimeout
            else if Contains msg ''connection refused'' \<or> Contains msg ''connection reset'' \<or>
                    Contains msg ''broken pipe'' \<or> Contains msg ''network is unreachable'' \<or>
                    Contains msg ''no route to host''
            then collectErrorKindNetwork
            else if Contains msg ''serial'' \<or> Contains msg ''tty'' \<or> Contains msg ''resource'' \<or>
                    Contains msg ''port''
            then collectErrorKindResource
            else if Contains msg ''driver'' \<or> Contains msg ''plugin'' \<or> Contains msg ''wasm''
            then collectErrorKindDriver
            else collectErrorKindUnknown)"

definition handleCollectFailure :: "golib \<Rightarrow> gotime \<Rightarrow> taskRef \<Rightarrow> goerror option \<Rightarrow> Collector \<Rightarrow> Collector" where
  "handleCollectFailure L now r err c =
     (case err of
        None \<Rightarrow> c
      | Some e \<Rightarrow> snd (markTaskFailed now r (ge_Text e) (classifyCollectError L err) c))"

fun collectErrorKindText :: "collectErrorKind \<Rightarrow> string" where
  "collectErrorKindText collectErrorKindNone = ''none''"
| "collectErrorKindText collectErrorKindTimeout = ''timeout''"
| "collectErrorKindText collectErrorKindNetwork = ''network''"
| "collectErrorKindText collectErrorKindResource = ''resource''"
| "collectErrorKindText collectErrorKindDriver = ''driver''"
| "collectErrorKindText collectErrorKindCanceled = ''canceled''"
| "collectErrorKindText collectErrorKindUnknown = ''unknown''"

section \<open>The identity of a driver's result\<close>

record driverIdentityProbeData =
  pd_ProductKeyAlt :: string
  pd_ProductKey :: string

record driverIdentityProbe =
  ip_ProductKeyAlt :: string
  ip_ProductKey :: string
  ip_Data :: "driverIdentityProbeData option"

fun firstNonEmptyTrimmed :: "string list \<Rightarrow> string" where
  "firstNonEmptyTrimmed [] = []"
| "firstNonEmptyTrimmed (v # vs) = (if TrimSpace v \<noteq> [] then TrimSpace v else firstNonEmptyTrimmed vs)"

text \<open>Reading an absent key of a Go map gives the empty string.\<close>

definition mapGet :: "fieldMap \<Rightarrow> string \<Rightarrow> string" where
  "mapGet m k = (case map_of m k of None \<Rightarrow> [] | Some v \<Rightarrow> v)"

definition resolveDriverProductKeyFromResultData :: "fieldMap \<Rightarrow> string" where
  "resolveDriverProductKeyFromResultData data =
     (if data = [] then [] else firstNonEmptyTrimmed [mapGet data ''productKey'', mapGet data ''product_key''])"

definition parseDriverProductKeyFromResultOutput ::
  "(string \<Rightarrow> driverIdentityProbe option) \<Rightarrow> string \<Rightarrow> string" where
  "parseDriverProductKeyFromResultOutput unmarshal rawOutput =
     (case unmarshal rawOutput of
        None \<Rightarrow> []
      | Some probe \<Rightarrow>
          let value = firstNonEmptyTrimmed [ip_ProductKey probe, ip_ProductKeyAlt probe] in
          if value \<noteq> [] then value
          else case ip_Data probe of
                 None \<Rightarrow> []
               | Some d \<Rightarrow> firstNonEmptyTrimmed [pd_ProductKey d, pd_ProductKeyAlt d])"

definition removeDriverProductKeyFields :: "fieldMap \<Rightarrow> fieldMap" where
  "removeDriverProductKeyFields data = AList.delete ''product_key'' (AList.delete ''productKey'' data)"

definition normalizeDriverResultIdentity ::
  "(string \<Rightarrow> driverIdentityProbe option) \<Rightarrow> string \<Rightarrow> DriverResult \<Rightarrow> DriverResult" where
  "normalizeDriverResultIdentity unmarshal rawOutput result =
     (let k = firstNonEmptyTrimmed [dr_ProductKey result, dr_ProductKeyAlt result];
          k = (if k = [] then resolveDriverProductKeyFromResultData (dr_Data result) else k);
          k = (if k = [] \<and> length rawOutput > 0
               then parseDriverProductKeyFromResultOutput unmarshal rawOutput else k)
      in result\<lparr>dr_ProductKey := k, dr_ProductKeyAlt := [],
                dr_Data := removeDriverProductKeyFields (dr_Data result)\<rparr>)"

text \<open>\<open>strings.EqualFold\<close> against an ASCII word. The switch on the length has fixed the number of
  bytes to that of the word, so a longer encoding of a folded letter cannot match, and
  the comparison is the ASCII one.\<close>

definition EqualFoldASCII :: "string \<Rightarrow> string \<Rightarrow> bool" where
  "EqualFoldASCII s t \<longleftrightarrow> map asciiLower s = map asciiLower t"

definition isNormalizedDriverIdentityField :: "string \<Rightarrow> bool" where
  "isNormalizedDriverIdentityField field =
     (if length field = 9 then EqualFoldASCII field ''devicekey''
      else if length field = 10 then EqualFoldASCII field ''productkey'' \<or> EqualFoldASCII field ''device_key''
      else if length field = 11 then EqualFoldASCII field ''product_key''
      else False)"

definition isDriverIdentityField :: "string \<Rightarrow> bool" where
  "isDriverIdentityField field = isNormalizedDriverIdentityField (trimDriverFieldName field)"

section \<open>From a driver's result to a sample\<close>

definition canReuseCollectedPoints :: "CollectPoint list \<Rightarrow> bool" where
  "canReuseCollectedPoints points =
     list_all (\<lambda>p. trimCollectorText (cp_FieldName p) \<noteq> [] \<and>
                   cp_FieldName p = trimCollectorText (cp_FieldName p)) points"

text \<open>The compaction loop: it renames the point at the read index and moves it to the write
  index, both in the one slice.\<close>

function compactPoints :: "CollectPoint list \<Rightarrow> nat \<Rightarrow> nat \<Rightarrow> CollectPoint list \<times> nat" where
  "compactPoints points i wr =
     (if i < length points then
        let name = trimCollectorText (cp_FieldName (points ! i)) in
        if name = [] then compactPoints points (Suc i) wr
        else let points = points[i := (points ! i)\<lparr>cp_FieldName := name\<rparr>];
                 points = points[wr := points ! i]
             in compactPoints points (Suc i) (Suc wr)
      else (points, wr))"
  by pat_completeness auto
termination by (relation "measure (\<lambda>(points, i, wr). length points - i)") auto

declare compactPoints.simps [simp del]

definition normalizedCollectPoints :: "CollectPoint list \<Rightarrow> CollectPoint list" where
  "normalizedCollectPoints points =
     (if points = [] then []
      else if canReuseCollectedPoints points then points
      else let (points, wr) = compactPoints points 0 0 in
        if wr = 0 then [] else take wr points)"

definition canReuseCollectedDataFields :: "fieldMap \<Rightarrow> bool" where
  "canReuseCollectedDataFields data =
     list_all (\<lambda>(key, _). trimCollectorText key \<noteq> [] \<and> key = trimCollectorText key) data"

fun trimmedFields :: "fieldMap \<Rightarrow> fieldMap \<Rightarrow> fieldMap" where
  "trimmedFields [] fs = fs"
| "trimmedFields ((key, v) # data) fs =
     (if trimCollectorText key = [] then trimmedFields data fs
      else trimmedFields data (AList.update (trimCollectorText key) v fs))"

text \<open>\<open>extraCap\<close> only sizes the new map.\<close>

definition normalizedDataFieldsWithExtraCap :: "fieldMap \<Rightarrow> int \<Rightarrow> fieldMap" where
  "normalizedDataFieldsWithExtraCap data extraCap =
     (if data = [] then []
      else if canReuseCollectedDataFields data then data
      else trimmedFields data [])"

definition normalizedDataFields :: "fieldMap \<Rightarrow> fieldMap" where
  "normalizedDataFields data = normalizedDataFieldsWithExtraCap data 0"

definition resultFieldsForCollect :: "DriverResult option \<Rightarrow> fieldMap \<times> CollectPoint list" where
  "resultFieldsForCollect res =
     (case res of
        None \<Rightarrow> ([], [])
      | Some res \<Rightarrow>
          if length (dr_Points res) = 0 then (normalizedDataFields (dr_Data res), [])
          else let points = normalizedCollectPoints (dr_Points res) in
            if length (dr_Data res) = 0 then ([], points)
            else (normalizedDataFields (dr_Data res), points))"

definition blankResult :: DriverResult where
  "blankResult = \<lparr>dr_Success = False, dr_Data = [], dr_Points = [], dr_ProductKey = [],
     dr_ProductKeyAlt = [], dr_Error = [], dr_Timestamp = 0\<rparr>"

definition driverResultToCollectDataWithCache ::
  "gotime \<Rightarrow> Device option \<Rightarrow> DriverResult option \<Rightarrow> string \<Rightarrow> string \<Rightarrow> CollectData" where
  "driverResultToCollectDataWithCache now device res deviceProductKey deviceKey =
     (let res = (case res of None \<Rightarrow> blankResult | Some r \<Rightarrow> r);
          device = (case device of None \<Rightarrow> blankDevice | Some d \<Rightarrow> d);
          (fs, points) = resultFieldsForCollect (Some res);
          ts = (if IsZero (dr_Timestamp res) then now else dr_Timestamp res);
          resultProductKey = trimCollectorText (dr_ProductKey res);
          resultProductKey = (if resultProductKey = [] then deviceProductKey else resultProductKey)
      in \<lparr>cd_DeviceID = dev_ID device, cd_DeviceName = dev_Name device,
          cd_ProductKey = resultProductKey, cd_DeviceKey = deviceKey, cd_Timestamp = ts,
          cd_Fields = fs, cd_Points = points, cd_fieldsDone = False\<rparr>)"

text \<open>Both keys are read through the device pointer: a nil device panics, the value \<open>None\<close>.\<close>

definition driverResultToCollectData ::
  "gotime \<Rightarrow> Device option \<Rightarrow> DriverResult option \<Rightarrow> CollectData option" where
  "driverResultToCollectData now device res =
     (case device of
        None \<Rightarrow> None
      | Some d \<Rightarrow> Some (driverResultToCollectDataWithCache now device res
                         (trimCollectorText (dev_ProductKey d)) (trimCollectorText (dev_DeviceKey d))))"

definition driverResultToCollectDataWithTask ::
  "gotime \<Rightarrow> collectTask option \<Rightarrow> DriverResult option \<Rightarrow> CollectData option" where
  "driverResultToCollectDataWithTask now task res =
     (case task of
        None \<Rightarrow> driverResultToCollectData now None res
      | Some t \<Rightarrow> Some (driverResultToCollectDataWithCache now (Some (ct_device t)) res
                         (ct_deviceProductKey t) (ct_deviceKey t)))"

section \<open>One collection\<close>

datatype collectEffect =
    UpdateDeviceProductKey int string
  | EnqueueCollectDataWrite CollectData bool
  | AlarmEffect alarmEffect

text \<open>The surroundings of a collection: the driver executor's \<open>ExecutePrepared\<close> and
  \<open>ExecuteCommand\<close>, the parameter database, the tables behind the thresholds, and the
  settings that \<open>checkThresholds\<close> reads.\<close>

record collectEnv =
  ev_lib :: golib
  ev_order :: mapOrder
  ev_exec :: "(Device \<Rightarrow> goerror + DriverResult option) option"
  ev_command :: "Device \<Rightarrow> string \<Rightarrow> fieldMap \<Rightarrow> goerror + DriverResult option"
  ev_paramDB :: bool
  ev_updateKey :: "int \<Rightarrow> string \<Rightarrow> goerror option"
  ev_deviceByIdentity :: "string \<Rightarrow> string \<Rightarrow> goerror + Device option"
  ev_thresholds :: thresholdDB
  ev_repeatSeconds :: "int option"
  ev_hasNorthbound :: bool

definition canCollectTask :: "collectEnv \<Rightarrow> bool" where
  "canCollectTask env \<longleftrightarrow> ev_exec env \<noteq> None"

definition resolveFixedDriverProductKey :: "int option \<Rightarrow> string \<Rightarrow> Collector \<Rightarrow> string \<times> Collector" where
  "resolveFixedDriverProductKey driverID candidate c =
     (let candidate = trimCollectorText candidate in
      case driverID of
        None \<Rightarrow> (candidate, c)
      | Some i \<Rightarrow>
          if i \<le> 0 then (candidate, c)
          else let cached = trimCollectorText
                              (case map_of (co_driverProductKeys c) i of None \<Rightarrow> [] | Some k \<Rightarrow> k)
               in if cached = []
                  then (candidate,
                        if candidate \<noteq> []
                        then c\<lparr>co_driverProductKeys := AList.update i candidate (co_driverProductKeys c)\<rparr>
                        else c)
                  else (cached, c))"

text \<open>The device is the one of task \<open>r\<close>; the task found by its id may be another one.\<close>

definition syncDeviceProductKey ::
  "collectEnv \<Rightarrow> taskRef \<Rightarrow> CollectData \<Rightarrow> Collector \<Rightarrow>
   goerror option \<times> CollectData \<times> collectEffect list \<times> Collector" where
  "syncDeviceProductKey env r collect c =
     (let device = ct_device (taskAt c r);
          (nextProductKey, c) = resolveFixedDriverProductKey (dev_DriverID device) (cd_ProductKey collect) c
      in if nextProductKey = [] then (None, collect, [], c)
         else let collect = collect\<lparr>cd_ProductKey := nextProductKey\<rparr>;
                  currentProductKey = trimCollectorText (dev_ProductKey device)
              in if currentProductKey = nextProductKey then (None, collect, [], c)
                 else let err = (if ev_paramDB env then ev_updateKey env (dev_ID device) nextProductKey else None);
                          effs = (if ev_paramDB env
                                  then [UpdateDeviceProductKey (dev_ID device) nextProductKey] else [])
                      in if err \<noteq> None then (err, collect, effs, c)
                         else let c = c\<lparr>co_queue := writeTask r
                                          ((taskAt c r)\<lparr>ct_device := device\<lparr>dev_ProductKey := nextProductKey\<rparr>\<rparr>)
                                          (co_queue c)\<rparr>;
                                  c = (case findTask c (dev_ID device) of
                                         None \<Rightarrow> c
                                       | Some r' \<Rightarrow> c\<lparr>co_queue := writeTask r'
                                            ((taskAt c r')\<lparr>ct_deviceProductKey := nextProductKey\<rparr>) (co_queue c)\<rparr>)
                              in (None, collect, effs, c))"

definition collectDataFromDriver ::
  "collectEnv \<Rightarrow> gotime \<Rightarrow> (Device \<Rightarrow> goerror + DriverResult option) \<Rightarrow> taskRef \<Rightarrow> Collector \<Rightarrow>
   (goerror + CollectData) \<times> collectEffect list \<times> Collector" where
  "collectDataFromDriver env now exec r c =
     (case exec (ct_device (taskAt c r)) of
        Inl err \<Rightarrow> (Inl err, [], c)
      | Inr result \<Rightarrow>
          (case driverResultToCollectDataWithTask now (Some (taskAt c r)) result of
             None \<Rightarrow> (Inl (plainError ''panic''), [], c)
           | Some collect \<Rightarrow>
               let (_, collect, effs, c) = syncDeviceProductKey env r collect c
               in (Inr collect, effs, c)))"

definition persistCollectData ::
  "gotime \<Rightarrow> taskRef \<Rightarrow> CollectData \<Rightarrow> Collector \<Rightarrow> collectEffect list \<times> Collector" where
  "persistCollectData now r collect c =
     (let storeHistory = shouldStoreHistory now (taskAt c r) (cd_Timestamp collect)
      in ([EnqueueCollectDataWrite collect storeHistory],
          markTaskCollected now r (cd_Timestamp collect) storeHistory c))"

definition handleThresholdForDevice ::
  "collectEnv \<Rightarrow> gotime \<Rightarrow> Device \<Rightarrow> CollectData \<Rightarrow> thresholdCache \<times> Collector \<Rightarrow>
   collectEffect list \<times> (thresholdCache \<times> Collector)" where
  "handleThresholdForDevice env now device data = (\<lambda>(tc, c).
     let (alarms, (tc, s)) = checkThresholds (ev_lib env) (ev_order env) (ev_thresholds env)
                               (ev_paramDB env) now (ev_repeatSeconds env) (ev_hasNorthbound env) now
                               (tc, co_alarms c) (Some device) (Some data)
     in (case alarms of None \<Rightarrow> [] | Some as \<Rightarrow> map AlarmEffect as, (tc, c\<lparr>co_alarms := s\<rparr>)))"

definition collectOnce ::
  "collectEnv \<Rightarrow> gotime \<Rightarrow> taskRef \<Rightarrow> thresholdCache \<times> Collector \<Rightarrow>
   collectEffect list \<times> (thresholdCache \<times> Collector)" where
  "collectOnce env now r = (\<lambda>(tc, c).
     case ev_exec env of
       None \<Rightarrow> ([], (tc, c))
     | Some exec \<Rightarrow>
         (case collectDataFromDriver env now exec r c of
            (Inl err, effs, c) \<Rightarrow> (effs, (tc, handleCollectFailure (ev_lib env) now r (Some err) c))
          | (Inr collect, effs, c) \<Rightarrow>
              let (writes, c) = persistCollectData now r collect c;
                  (alarms, st) = handleThresholdForDevice env now (ct_device (taskAt c r)) collect (tc, c)
              in (effs @ writes @ alarms, st)))"

section \<open>Commands from the northbound side\<close>

definition commandDriverFunction :: string where
  "commandDriverFunction = ''handle''"

definition commandResultCodeSuccess :: int where
  "commandResultCodeSuccess = 200"

definition commandResultCodeFailure :: int where
  "commandResultCodeFailure = 500"

definition normalizeNorthboundCommand :: "NorthboundCommand option \<Rightarrow> goerror + NorthboundCommand" where
  "normalizeNorthboundCommand command =
     (case command of
        None \<Rightarrow> Inl (plainError ''northbound command is nil'')
      | Some cmd \<Rightarrow>
          let n = \<lparr>nc_RequestID = TrimSpace (nc_RequestID cmd), nc_ProductKey = TrimSpace (nc_ProductKey cmd),
                   nc_DeviceKey = TrimSpace (nc_DeviceKey cmd), nc_FieldName = TrimSpace (nc_FieldName cmd),
                   nc_Value = TrimSpace (nc_Value cmd), nc_Source = TrimSpace (nc_Source cmd)\<rparr>
          in if nc_ProductKey n = [] \<or> nc_DeviceKey n = []
             then Inl (plainError ''missing product_key/device_key'')
             else if nc_FieldName n = [] then Inl (plainError ''missing field_name'')
             else Inr n)"

definition loadNorthboundCommandDevice :: "collectEnv \<Rightarrow> NorthboundCommand \<Rightarrow> goerror + Device" where
  "loadNorthboundCommandDevice env command =
     (case ev_deviceByIdentity env (nc_ProductKey command) (nc_DeviceKey command) of
        Inr (Some device) \<Rightarrow>
          if dev_DriverID device = None then Inl (plainError ''device has no driver'') else Inr device
      | _ \<Rightarrow> Inl (plainError ''device not found by identity''))"

definition buildNorthboundCommandConfig :: "NorthboundCommand \<Rightarrow> Device \<Rightarrow> fieldMap" where
  "buildNorthboundCommandConfig command device =
     [(''func_name'', ''write''), (''field_name'', nc_FieldName command), (''value'', nc_Value command),
      (''product_key'', nc_ProductKey command), (''productKey'', nc_ProductKey command),
      (''device_key'', nc_DeviceKey command), (''deviceKey'', nc_DeviceKey command),
      (''device_address'', dev_DeviceAddress device)]"

definition validateNorthboundCommandExecutionResult :: "DriverResult option \<Rightarrow> goerror option" where
  "validateNorthboundCommandExecutionResult result =
     (case result of
        None \<Rightarrow> None
      | Some res \<Rightarrow>
          if dr_Success res then None
          else if TrimSpace (dr_Error res) \<noteq> [] then Some (plainError (TrimSpace (dr_Error res)))
          else Some (plainError ''driver write returned success=false''))"

text \<open>The result is the error, if any, with the calls of the driver that the command made.\<close>

definition executeNorthboundCommand ::
  "collectEnv \<Rightarrow> NorthboundCommand option \<Rightarrow> goerror option \<times> (Device \<times> fieldMap) list" where
  "executeNorthboundCommand env command =
     (if ev_exec env = None then (Some (plainError ''driver executor is nil''), [])
      else case normalizeNorthboundCommand command of
        Inl e \<Rightarrow> (Some e, [])
      | Inr cmd \<Rightarrow>
          (case loadNorthboundCommandDevice env cmd of
             Inl e \<Rightarrow> (Some e, [])
           | Inr device \<Rightarrow>
               let config = buildNorthboundCommandConfig cmd device in
               (case ev_command env device commandDriverFunction config of
                  Inl e \<Rightarrow> (Some e, [(device, config)])
                | Inr result \<Rightarrow> (validateNorthboundCommandExecutionResult result, [(device, config)]))))"

definition buildNorthboundCommandResult ::
  "NorthboundCommand option \<Rightarrow> goerror option \<Rightarrow> NorthboundCommandResult option" where
  "buildNorthboundCommandResult command execErr =
     (case command of
        None \<Rightarrow> None
      | Some cmd \<Rightarrow>
          let result = \<lparr>nr_RequestID = nc_RequestID cmd, nr_ProductKey = nc_ProductKey cmd,
                 nr_DeviceKey = nc_DeviceKey cmd, nr_FieldName = nc_FieldName cmd, nr_Value = nc_Value cmd,
                 nr_Source = nc_Source cmd, nr_Success = (execErr = None),
                 nr_Code = commandResultCodeSuccess, nr_Message = []\<rparr>
          in Some (case execErr of
                     None \<Rightarrow> result
                   | Some e \<Rightarrow> result\<lparr>nr_Code := commandResultCodeFailure, nr_Message := ge_Text e\<rparr>))"

text \<open>What \<open>processNorthboundCommands\<close> does in the order it does it: driver calls and reports.\<close>

datatype commandEffect = DriverCall Device fieldMap | ReportCommandResult NorthboundCommandResult

definition reportCommandResult :: "NorthboundCommand option \<Rightarrow> goerror option \<Rightarrow> commandEffect list" where
  "reportCommandResult command execErr =
     (case buildNorthboundCommandResult command execErr of
        None \<Rightarrow> [] | Some result \<Rightarrow> [ReportCommandResult result])"

fun processCommands :: "collectEnv \<Rightarrow> NorthboundCommand option list \<Rightarrow> commandEffect list" where
  "processCommands env [] = []"
| "processCommands env (None # cs) = processCommands env cs"
| "processCommands env (Some cmd # cs) =
     (let (err, calls) = executeNorthboundCommand env (Some cmd)
      in map (\<lambda>(d, f). DriverCall d f) calls @ reportCommandResult (Some cmd) err @ processCommands env cs)"

text \<open>\<open>pull\<close> is the manager's \<open>PullCommands\<close>, with \<open>None\<close> for its error.\<close>

definition processNorthboundCommands ::
  "collectEnv \<Rightarrow> (int \<Rightarrow> NorthboundCommand option list option) \<Rightarrow> commandEffect list" where
  "processNorthboundCommands env pull =
     (if \<not> ev_hasNorthbound env then []
      else case pull 20 of
             None \<Rightarrow> []
           | Some commands \<Rightarrow> if commands = [] then [] else processCommands env commands)"

section \<open>Runtime status\<close>

record DeviceRuntimeStatus =
  rs_DeviceID :: int
  rs_Registered :: bool
  rs_CollectIntervalMs :: int
  rs_StorageIntervalSec :: int
  rs_NextRunAt :: gotime
  rs_LastRunAt :: gotime
  rs_LastStoredAt :: gotime
  rs_ConsecutiveFailures :: int
  rs_LastError :: string
  rs_LastErrorKind :: string
  rs_LastErrorAt :: gotime

definition blankStatus :: DeviceRuntimeStatus where
  "blankStatus = \<lparr>rs_DeviceID = 0, rs_Registered = False, rs_CollectIntervalMs = 0, rs_StorageIntervalSec = 0,
     rs_NextRunAt = 0, rs_LastRunAt = 0, rs_LastStoredAt = 0, rs_ConsecutiveFailures = 0,
     rs_LastError = [], rs_LastErrorKind = [], rs_LastErrorAt = 0\<rparr>"

definition buildDeviceRuntimeStatus :: "collectTask \<Rightarrow> DeviceRuntimeStatus" where
  "buildDeviceRuntimeStatus t =
     (let st = blankStatus\<lparr>rs_Registered := True, rs_DeviceID := dev_ID (ct_device t)\<rparr>;
          st = (if ct_interval t > 0 then st\<lparr>rs_CollectIntervalMs := ct_interval t div Millisecond\<rparr> else st);
          st = (if ct_storageInterval t > 0
                then st\<lparr>rs_StorageIntervalSec := ct_storageInterval t div Second\<rparr> else st);
          st = st\<lparr>rs_NextRunAt := ct_nextRun t, rs_LastRunAt := ct_lastRun t,
                  rs_LastStoredAt := ct_lastStored t, rs_LastErrorAt := ct_lastErrorAt t,
                  rs_ConsecutiveFailures := ct_consecutiveFailures t, rs_LastError := ct_lastError t\<rparr>
      in if ct_lastErrorKind t \<noteq> collectErrorKindNone
         then st\<lparr>rs_LastErrorKind := collectErrorKindText (ct_lastErrorKind t)\<rparr> else st)"

definition GetDeviceRuntimeStatus :: "Collector \<Rightarrow> int \<Rightarrow> DeviceRuntimeStatus \<times> bool" where
  "GetDeviceRuntimeStatus c deviceID =
     (case map_of (co_tasks c) deviceID of
        None \<Rightarrow> (blankStatus, False)
      | Some r \<Rightarrow> (buildDeviceRuntimeStatus (taskAt c r), True))"

definition ListDeviceRuntimeStatus :: "Collector \<Rightarrow> (int \<times> DeviceRuntimeStatus) list" where
  "ListDeviceRuntimeStatus c = map (\<lambda>(d, r). (d, buildDeviceRuntimeStatus (taskAt c r))) (co_tasks c)"

section \<open>Normalisation of a sample\<close>

definition cleanPoints :: "CollectPoint list \<Rightarrow> CollectPoint list" where
  "cleanPoints ps = map (\<lambda>p. p\<lparr>cp_FieldName := TrimSpace (cp_FieldName p)\<rparr>)
                        (filter (\<lambda>p. TrimSpace (cp_FieldName p) \<noteq> []) ps)"

lemma compactPoints_clean:
  "wr \<le> i \<Longrightarrow> i \<le> length ps \<Longrightarrow> compactPoints ps i wr = (qs, w) \<Longrightarrow>
   take w qs = take wr ps @ cleanPoints (drop i ps)"
proof (induction ps i wr rule: compactPoints.induct)
  case (1 ps i wr)
  show ?case
  proof (cases "i < length ps")
    case False
    then have "(ps, wr) = (qs, w)" using "1.prems"(3) by (subst (asm) compactPoints.simps) simp
    with False "1.prems" show ?thesis
      by (simp add: cleanPoints_def) 
  next
    case i: True
    then have split: "drop i ps = ps ! i # drop (Suc i) ps" by (simp add: Cons_nth_drop_Suc)
    show ?thesis
    proof (cases "trimCollectorText (cp_FieldName (ps ! i)) = []")
      case True
      then have "compactPoints ps (Suc i) wr = (qs, w)"
        using "1.prems"(3) i by (subst (asm) compactPoints.simps) simp
      with "1.IH"(1)[OF i refl True] "1.prems" i True show ?thesis
        by (simp add: split cleanPoints_def trim_eqs)
    next
      case False
      let ?q = "(ps ! i)\<lparr>cp_FieldName := trimCollectorText (cp_FieldName (ps ! i))\<rparr>"
      let ?ps = "ps[i := ?q]"
      have nth: "?ps ! i = ?q" using i by simp
      have "compactPoints (?ps[wr := ?ps ! i]) (Suc i) (Suc wr) = (qs, w)"
        using "1.prems"(3) i False by (subst (asm) compactPoints.simps) (simp add: Let_def)
      then have "take w qs = take (Suc wr) (?ps[wr := ?q]) @ cleanPoints (drop (Suc i) (?ps[wr := ?q]))"
        using "1.IH"(2)[OF i refl False refl refl] "1.prems" i unfolding nth by simp
      moreover have "take (Suc wr) (?ps[wr := ?q]) = take wr ps @ [?q]"
        using "1.prems"(1) i by (simp add: take_Suc_conv_app_nth)
      ultimately show ?thesis
        using False "1.prems"(1) by (simp add: split cleanPoints_def trim_eqs)
    qed
  qed
qed

lemma cleanPoints_reuse: "canReuseCollectedPoints ps \<Longrightarrow> cleanPoints ps = ps"
  by (induction ps) (auto simp: canReuseCollectedPoints_def cleanPoints_def trim_eqs)

lemma normalizedCollectPoints_eq: "normalizedCollectPoints ps = cleanPoints ps"
proof (cases "ps = [] \<or> canReuseCollectedPoints ps")
  case True
  then show ?thesis
    using cleanPoints_reuse by (auto simp: normalizedCollectPoints_def) (simp add: cleanPoints_def)
next
  case False
  obtain qs w where "compactPoints ps 0 0 = (qs, w)" by (cases "compactPoints ps 0 0") auto
  with False compactPoints_clean[of 0 0 ps qs w] show ?thesis
    by (auto simp: normalizedCollectPoints_def)
qed

lemma trimmedFields_lookup:
  "map_of (trimmedFields data fs) k =
    (if k = [] then map_of fs k
     else (map_of fs ++ map_of (rev (map (\<lambda>(a, v). (TrimSpace a, v)) data))) k)"
  by (induction data fs rule: trimmedFields.induct)
     (auto simp: trim_eqs update_conv' map_add_def split: option.splits)

lemma reuseFields_map: "canReuseCollectedDataFields data \<Longrightarrow> map (\<lambda>(a, v). (TrimSpace a, v)) data = data"
  by (induction data) (auto simp: canReuseCollectedDataFields_def trim_eqs)

lemma reuseFields_nonempty: "canReuseCollectedDataFields data \<Longrightarrow> map_of data [] = None"
  by (induction data) (auto simp: canReuseCollectedDataFields_def trim_eqs)

lemma map_of_rev_distinct: "distinct (map fst m) \<Longrightarrow> map_of (rev m) = map_of m"
  by (metis map_of_inject_set rev_map set_rev distinct_rev)

text \<open>C13: Normalising a driver's result: the in-place compaction of the points, with its fast path
  for clean names, gives exactly the points whose trimmed name is not empty, renamed and in
  order; the normalised fields are the fields by trimmed name, the last entry of the
  iteration winning where two names collide, and no field has the empty name.\<close>
theorem sample_normalised:
  assumes "distinct (map fst data)"
  shows "normalizedCollectPoints ps =
           map (\<lambda>p. p\<lparr>cp_FieldName := TrimSpace (cp_FieldName p)\<rparr>)
               (filter (\<lambda>p. TrimSpace (cp_FieldName p) \<noteq> []) ps) \<and>
         map_of (normalizedDataFields data) k =
           (if k = [] then None else map_of (rev (map (\<lambda>(a, v). (TrimSpace a, v)) data)) k)"
proof -
  have "map_of (normalizedDataFields data) k =
           (if k = [] then None else map_of (rev (map (\<lambda>(a, v). (TrimSpace a, v)) data)) k)"
    using reuseFields_map reuseFields_nonempty map_of_rev_distinct[OF assms]
    by (auto simp: normalizedDataFields_def normalizedDataFieldsWithExtraCap_def trimmedFields_lookup
                   map_add_def split: option.splits)
  then show ?thesis by (simp add: normalizedCollectPoints_eq cleanPoints_def)
qed

theorem sample_normalised_witness:
  "normalizedCollectPoints [\<lparr>cp_FieldName = '' t'', cp_Value = AnyNil, cp_RW = ''R''\<rparr>,
       \<lparr>cp_FieldName = '' '', cp_Value = AnyNil, cp_RW = ''R''\<rparr>] =
     [\<lparr>cp_FieldName = ''t'', cp_Value = AnyNil, cp_RW = ''R''\<rparr>] \<and>
   map_of (normalizedDataFields [('' t'', ''1''), (''u'', ''2'')]) ''t'' = Some ''1''"
proof -
  have t: "TrimSpace '' t'' = ''t''" using TrimSpace_core[of "'' ''" "[]" "''t''"] by (simp add: ascii_eval)
  have u: "TrimSpace ''u'' = ''u''" by (rule TrimSpace_plain) (simp_all add: ascii_eval)
  have e: "TrimSpace '' '' = []" by (simp add: TrimSpace_def TrimLeftSpace_def TrimRightSpace_def ascii_eval)
  show ?thesis
    using sample_normalised[of "[('' t'', ''1''), (''u'', ''2'')]"
        "[\<lparr>cp_FieldName = '' t'', cp_Value = AnyNil, cp_RW = ''R''\<rparr>,
          \<lparr>cp_FieldName = '' '', cp_Value = AnyNil, cp_RW = ''R''\<rparr>]" "''t''"]
    by (simp add: t u e)
qed

section \<open>What a collection changes\<close>

text \<open>The part of a task that the product key does not touch.\<close>

definition taskCore :: "collectTask \<Rightarrow> collectTask" where
  "taskCore t = t\<lparr>ct_deviceProductKey := [], ct_device := (ct_device t)\<lparr>dev_ProductKey := []\<rparr>\<rparr>"

lemma taskCoreD:
  assumes "taskCore t = taskCore u"
  shows "ct_lastStored t = ct_lastStored u" "ct_storageInterval t = ct_storageInterval u"
    "ct_nextRun t = ct_nextRun u" "ct_index t = ct_index u"
    "ct_consecutiveFailures t = ct_consecutiveFailures u" "ct_interval t = ct_interval u"
    "dev_ID (ct_device t) = dev_ID (ct_device u)" "dev_DriverID (ct_device t) = dev_DriverID (ct_device u)"
proof -
  show "ct_lastStored t = ct_lastStored u" using arg_cong[OF assms, of ct_lastStored] by (simp add: taskCore_def)
  show "ct_storageInterval t = ct_storageInterval u"
    using arg_cong[OF assms, of ct_storageInterval] by (simp add: taskCore_def)
  show "ct_nextRun t = ct_nextRun u" using arg_cong[OF assms, of ct_nextRun] by (simp add: taskCore_def)
  show "ct_index t = ct_index u" using arg_cong[OF assms, of ct_index] by (simp add: taskCore_def)
  show "ct_consecutiveFailures t = ct_consecutiveFailures u"
    using arg_cong[OF assms, of ct_consecutiveFailures] by (simp add: taskCore_def)
  show "ct_interval t = ct_interval u" using arg_cong[OF assms, of ct_interval] by (simp add: taskCore_def)
  show "dev_ID (ct_device t) = dev_ID (ct_device u)"
    using arg_cong[OF assms, of "\<lambda>t. dev_ID (ct_device t)"] by (simp add: taskCore_def)
  show "dev_DriverID (ct_device t) = dev_DriverID (ct_device u)"
    using arg_cong[OF assms, of "\<lambda>t. dev_DriverID (ct_device t)"] by (simp add: taskCore_def)
qed

text \<open>The key the collector has cached for a driver.\<close>

definition cachedKey :: "Collector \<Rightarrow> int \<Rightarrow> string" where
  "cachedKey c i = TrimSpace (case map_of (co_driverProductKeys c) i of None \<Rightarrow> [] | Some k \<Rightarrow> k)"

lemma resolve_frame [simp]:
  "co_queue (snd (resolveFixedDriverProductKey d k c)) = co_queue c"
  "co_tasks (snd (resolveFixedDriverProductKey d k c)) = co_tasks c"
  "co_alarms (snd (resolveFixedDriverProductKey d k c)) = co_alarms c"
  by (simp_all add: resolveFixedDriverProductKey_def Let_def split: option.splits)

lemma resolve_key:
  assumes "0 < i"
  shows "fst (resolveFixedDriverProductKey (Some i) k c) = (if cachedKey c i = [] then TrimSpace k else cachedKey c i)"
    and "cachedKey (snd (resolveFixedDriverProductKey (Some i) k c)) i =
           (if cachedKey c i = [] then TrimSpace k else cachedKey c i)"
  using assms by (auto simp: resolveFixedDriverProductKey_def cachedKey_def trim_eqs Let_def update_conv')

lemma resolve_other:
  assumes "cachedKey c i \<noteq> [] \<or> d \<noteq> Some i"
  shows "cachedKey (snd (resolveFixedDriverProductKey d k c)) i = cachedKey c i"
  using assms by (auto simp: resolveFixedDriverProductKey_def cachedKey_def trim_eqs Let_def update_conv'
                       split: option.splits)

lemma writeTask_core:
  "taskCore t = taskCore (tq_store q r) \<Longrightarrow> taskCore (tq_store (writeTask r t q) x) = taskCore (tq_store q x)"
proof -
  assume t: "taskCore t = taskCore (tq_store q r)"
  from t have "ct_index t = ct_index (tq_store q r)" by (rule taskCoreD)
  then have "t\<lparr>ct_index := ct_index (tq_store q r)\<rparr> = t" by (metis collectTask.surjective collectTask.update_convs(13))
  with t show ?thesis by (simp add: writeTask_def)
qed

fun writesOf :: "collectEffect list \<Rightarrow> (CollectData \<times> bool) list" where
  "writesOf [] = []"
| "writesOf (EnqueueCollectDataWrite d b # es) = (d, b) # writesOf es"
| "writesOf (UpdateDeviceProductKey _ _ # es) = writesOf es"
| "writesOf (AlarmEffect _ # es) = writesOf es"

lemma writesOf_append [simp]: "writesOf (es @ fs) = writesOf es @ writesOf fs"
  by (induction es rule: writesOf.induct) auto

lemma writesOf_none [simp]: "writesOf (map AlarmEffect as) = []"
  by (induction as) auto

lemma syncDeviceProductKey_frame:
  assumes "syncDeviceProductKey env r collect c = (err, collect', effs, c')"
  shows "co_tasks c' = co_tasks c" and "co_alarms c' = co_alarms c"
    and "co_driverProductKeys c' = co_driverProductKeys
           (snd (resolveFixedDriverProductKey (dev_DriverID (ct_device (taskAt c r))) (cd_ProductKey collect) c))"
    and "taskCore (taskAt c' x) = taskCore (taskAt c x)"
    and "writesOf effs = []"
    and "cd_Timestamp collect' = cd_Timestamp collect" and "cd_DeviceID collect' = cd_DeviceID collect"
proof -
  let ?d = "ct_device (taskAt c r)"
  obtain k c1 where k: "resolveFixedDriverProductKey (dev_DriverID ?d) (cd_ProductKey collect) c = (k, c1)"
    by fastforce
  then have c1: "co_queue c1 = co_queue c" "co_tasks c1 = co_tasks c" "co_alarms c1 = co_alarms c"
    using resolve_frame[of "dev_DriverID ?d" "cd_ProductKey collect" c] by simp_all
  define t where "t = (taskAt c r)\<lparr>ct_device := ?d\<lparr>dev_ProductKey := k\<rparr>\<rparr>"
  define q where "q = writeTask r t (co_queue c)"
  have core_q: "taskCore (tq_store q y) = taskCore (taskAt c y)" for y
    unfolding q_def by (rule writeTask_core) (simp add: t_def taskCore_def)
  define q' where "q' r' = writeTask r' ((tq_store q r')\<lparr>ct_deviceProductKey := k\<rparr>) q" for r'
  have core_q': "taskCore (tq_store (q' r') y) = taskCore (taskAt c y)" for r' y
    unfolding q'_def using writeTask_core[of "(tq_store q r')\<lparr>ct_deviceProductKey := k\<rparr>" q r' y] core_q
    by (simp add: taskCore_def)
  have "c' = c1 \<or> c' = c1\<lparr>co_queue := q\<rparr> \<or> (\<exists>r'. c' = c1\<lparr>co_queue := q' r'\<rparr>)"
    using assms unfolding syncDeviceProductKey_def q_def t_def q'_def
    by (auto simp: k c1 Let_def split: if_splits option.splits)
  then show "co_tasks c' = co_tasks c" and "co_alarms c' = co_alarms c"
    and "co_driverProductKeys c' = co_driverProductKeys
           (snd (resolveFixedDriverProductKey (dev_DriverID ?d) (cd_ProductKey collect) c))"
    and "taskCore (taskAt c' x) = taskCore (taskAt c x)"
    using core_q core_q' by (auto simp: c1 k)
  show "writesOf effs = []"
    and "cd_Timestamp collect' = cd_Timestamp collect" and "cd_DeviceID collect' = cd_DeviceID collect"
    using assms unfolding syncDeviceProductKey_def
    by (auto simp: k Let_def split: if_splits option.splits)
qed

lemma syncDeviceProductKey_key:
  assumes "syncDeviceProductKey env r collect c = (err, collect', effs, c')"
    and "dev_DriverID (ct_device (taskAt c r)) = Some i" and "0 < i"
  shows "TrimSpace (cd_ProductKey collect') = (if cachedKey c i = [] then TrimSpace (cd_ProductKey collect) else cachedKey c i)"
proof -
  obtain k c1 where k: "resolveFixedDriverProductKey (Some i) (cd_ProductKey collect) c = (k, c1)"
    by fastforce
  have v: "k = (if cachedKey c i = [] then TrimSpace (cd_ProductKey collect) else cachedKey c i)"
    using resolve_key(1)[OF assms(3), of "cd_ProductKey collect" c] by (simp add: k)
  have "TrimSpace k = k" unfolding v by (simp add: cachedKey_def)
  then show ?thesis
    using assms(1) v unfolding syncDeviceProductKey_def
    by (auto simp: k assms(2) Let_def split: if_splits option.splits)
qed

lemma collectOnce_ok:
  assumes "collectOnce env now r (tc, c) = (effs, (tc', c'))" and "ev_exec env = Some exec"
    and "exec (ct_device (taskAt c r)) = Inr res"
  obtains err data upd c1 alarms s stored where
    "syncDeviceProductKey env r (driverResultToCollectDataWithCache now (Some (ct_device (taskAt c r))) res
        (ct_deviceProductKey (taskAt c r)) (ct_deviceKey (taskAt c r))) c = (err, data, upd, c1)"
    "stored = shouldStoreHistory now (taskAt c1 r) (cd_Timestamp data)"
    "effs = upd @ EnqueueCollectDataWrite data stored # map AlarmEffect alarms"
    "c' = (markTaskCollected now r (cd_Timestamp data) stored c1)\<lparr>co_alarms := s\<rparr>"
proof -
  obtain err data upd c1 where sy: "syncDeviceProductKey env r (driverResultToCollectDataWithCache now (Some (ct_device (taskAt c r))) res
        (ct_deviceProductKey (taskAt c r)) (ct_deviceKey (taskAt c r))) c = (err, data, upd, c1)"
    by (metis prod_cases4)
  define c2 where "c2 = markTaskCollected now r (cd_Timestamp data)
      (shouldStoreHistory now (taskAt c1 r) (cd_Timestamp data)) c1"
  obtain al tc2 s where th: "checkThresholds (ev_lib env) (ev_order env) (ev_thresholds env)
      (ev_paramDB env) now (ev_repeatSeconds env) (ev_hasNorthbound env) now (tc, co_alarms c2)
      (Some (ct_device (taskAt c2 r))) (Some data) = (al, (tc2, s))"
    by (metis prod_cases3)
  have "effs = upd @ [EnqueueCollectDataWrite data (shouldStoreHistory now (taskAt c1 r) (cd_Timestamp data))] @
          (case al of None \<Rightarrow> [] | Some as \<Rightarrow> map AlarmEffect as) \<and> c' = c2\<lparr>co_alarms := s\<rparr>"
    using assms th
    by (simp add: collectOnce_def collectDataFromDriver_def driverResultToCollectDataWithTask_def sy
          persistCollectData_def handleThresholdForDevice_def c2_def [symmetric])
  then show thesis
    using that[of err data upd c1 _ "case al of None \<Rightarrow> [] | Some as \<Rightarrow> as" s] sy
    unfolding c2_def by (cases al) auto
qed

lemma collectOnce_fail:
  assumes "collectOnce env now r (tc, c) = (effs, (tc', c'))" and "ev_exec env = Some exec"
    and "exec (ct_device (taskAt c r)) = Inl e"
  shows "effs = [] \<and> tc' = tc \<and> c' = handleCollectFailure (ev_lib env) now r (Some e) c"
  using assms by (auto simp: collectOnce_def collectDataFromDriver_def)

lemma collectOnce_none:
  "collectOnce env now r (tc, c) = (effs, (tc', c')) \<Longrightarrow> ev_exec env = None \<Longrightarrow> effs = [] \<and> tc' = tc \<and> c' = c"
  by (auto simp: collectOnce_def)

text \<open>What no collection changes: the task table, the identity of every task's device and driver,
  and its intervals.\<close>

definition taskFrame :: "collectTask \<Rightarrow> int \<times> int option \<times> duration \<times> duration \<times> gotime" where
  "taskFrame t = (dev_ID (ct_device t), dev_DriverID (ct_device t), ct_interval t, ct_storageInterval t, ct_nextRun t)"

lemma markTask_frame:
  "taskFrame (taskAt (markTaskCollected now r at stored c) x) = taskFrame (taskAt c x)"
  "taskFrame (taskAt (snd (markTaskFailed now r err kind c)) x) = taskFrame (taskAt c x)"
  "co_tasks (markTaskCollected now r at stored c) = co_tasks c"
  "co_tasks (snd (markTaskFailed now r err kind c)) = co_tasks c"
  "co_driverProductKeys (markTaskCollected now r at stored c) = co_driverProductKeys c"
  "co_driverProductKeys (snd (markTaskFailed now r err kind c)) = co_driverProductKeys c"
  by (auto simp: markTaskCollected_def markTaskFailed_def taskFrame_def writeTask_def Let_def)

lemma collectOnce_frame:
  assumes "collectOnce env now r (tc, c) = (effs, (tc', c'))"
  shows "co_tasks c' = co_tasks c \<and> taskFrame (taskAt c' x) = taskFrame (taskAt c x)"
proof (cases "ev_exec env")
  case None
  with collectOnce_none[OF assms] show ?thesis by simp
next
  case (Some exec)
  show ?thesis
  proof (cases "exec (ct_device (taskAt c r))")
    case (Inl e)
    with collectOnce_fail[OF assms Some Inl] show ?thesis
      by (simp add: handleCollectFailure_def markTask_frame)
  next
    case (Inr res)
    obtain err data upd c1 alarms s stored where
      sy: "syncDeviceProductKey env r (driverResultToCollectDataWithCache now (Some (ct_device (taskAt c r))) res
        (ct_deviceProductKey (taskAt c r)) (ct_deviceKey (taskAt c r))) c = (err, data, upd, c1)"
      and c': "c' = (markTaskCollected now r (cd_Timestamp data) stored c1)\<lparr>co_alarms := s\<rparr>"
      using collectOnce_ok[OF assms Some Inr] by metis
    note F = syncDeviceProductKey_frame[OF sy]
    have "taskFrame (taskAt c1 x) = taskFrame (taskAt c x)"
      using taskCoreD[OF F(4)] by (simp add: taskFrame_def)
    then show ?thesis by (simp add: c' F(1) markTask_frame)
  qed
qed

section \<open>Sequences of collections\<close>

fun collectRun ::
  "(collectEnv \<times> gotime \<times> taskRef) list \<Rightarrow> thresholdCache \<times> Collector \<Rightarrow>
   (taskRef \<times> collectEffect list) list" where
  "collectRun [] st = []"
| "collectRun ((env, now, r) # es) st =
     (let (effs, st) = collectOnce env now r st in (r, effs) # collectRun es st)"

definition keysOf :: "Collector \<Rightarrow> int \<Rightarrow> (taskRef \<times> collectEffect list) list \<Rightarrow> string list" where
  "keysOf c i out = concat (map (\<lambda>(r, effs).
     if dev_DriverID (ct_device (taskAt c r)) = Some i
     then map (\<lambda>(d, _). TrimSpace (cd_ProductKey d)) (writesOf effs) else []) out)"

definition storedTimes :: "taskRef \<Rightarrow> (taskRef \<times> collectEffect list) list \<Rightarrow> gotime list" where
  "storedTimes r out = concat (map (\<lambda>(x, effs).
     if x = r then map (\<lambda>(d, _). cd_Timestamp d) (filter snd (writesOf effs)) else []) out)"

definition storagePeriod :: "collectTask \<Rightarrow> duration" where
  "storagePeriod t = (if ct_storageInterval t \<le> 0 then resolveStorageInterval 0 else ct_storageInterval t)"

lemma keysOf_frame:
  "(\<And>x. taskFrame (taskAt c' x) = taskFrame (taskAt c x)) \<Longrightarrow> keysOf c' i out = keysOf c i out"
  by (simp add: keysOf_def taskFrame_def)

lemma collectOnce_key:
  assumes "collectOnce env now r (tc, c) = (effs, (tc', c'))" and "0 < i"
  shows "\<exists>k. keysOf c i [(r, effs)] = (if writesOf effs = [] \<or> dev_DriverID (ct_device (taskAt c r)) \<noteq> Some i then [] else [k]) \<and>
           (cachedKey c i \<noteq> [] \<longrightarrow> k = cachedKey c i) \<and>
           cachedKey c' i = (if keysOf c i [(r, effs)] = [] then cachedKey c i else k)"
proof (cases "ev_exec env")
  case None
  with collectOnce_none[OF assms(1)] show ?thesis by (auto simp: keysOf_def)
next
  case (Some exec)
  show ?thesis
  proof (cases "exec (ct_device (taskAt c r))")
    case (Inl e)
    from collectOnce_fail[OF assms(1) Some Inl]
    have "effs = []" "cachedKey c' i = cachedKey c i"
      by (simp_all add: handleCollectFailure_def markTask_frame cachedKey_def)
    then show ?thesis by (auto simp: keysOf_def)
  next
    case (Inr res)
    let ?d = "driverResultToCollectDataWithCache now (Some (ct_device (taskAt c r))) res
        (ct_deviceProductKey (taskAt c r)) (ct_deviceKey (taskAt c r))"
    obtain err data upd c1 alarms s stored where
      sy: "syncDeviceProductKey env r ?d c = (err, data, upd, c1)"
      and e: "effs = upd @ EnqueueCollectDataWrite data stored # map AlarmEffect alarms"
      and c': "c' = (markTaskCollected now r (cd_Timestamp data) stored c1)\<lparr>co_alarms := s\<rparr>"
      using collectOnce_ok[OF assms(1) Some Inr] by metis
    note F = syncDeviceProductKey_frame[OF sy]
    have w: "writesOf effs = [(data, stored)]" using F(5) by (simp add: e)
    have key: "cachedKey c' i = cachedKey (snd (resolveFixedDriverProductKey (dev_DriverID (ct_device (taskAt c r))) (cd_ProductKey ?d) c)) i"
      by (simp add: cachedKey_def c' markTask_frame F(3))
    show ?thesis
    proof (cases "dev_DriverID (ct_device (taskAt c r)) = Some i")
      case True
      with syncDeviceProductKey_key[OF sy True assms(2)] key resolve_key(2)[OF assms(2)] show ?thesis
        by (simp add: w keysOf_def)
    next
      case False
      with key resolve_other show ?thesis by (auto simp: w keysOf_def)
    qed
  qed
qed

lemma keysOf_Cons: "keysOf c i ((r, effs) # out) = keysOf c i [(r, effs)] @ keysOf c i out"
  by (simp add: keysOf_def)

lemma run_keys:
  assumes "0 < i"
  shows "\<exists>n m k. keysOf c i (collectRun es (tc, c)) = replicate n [] @ replicate m k \<and>
           (cachedKey c i \<noteq> [] \<longrightarrow> n = 0 \<and> k = cachedKey c i)"
proof (induction es arbitrary: tc c)
  case Nil
  have "keysOf c i (collectRun [] (tc, c)) = replicate 0 [] @ replicate 0 (cachedKey c i)" by (simp add: keysOf_def)
  then show ?case by blast
next
  case (Cons ev es)
  obtain env now r where ev: "ev = (env, now, r)" by (cases ev) auto
  obtain effs tc' c' where st: "collectOnce env now r (tc, c) = (effs, (tc', c'))" by (metis prod_cases3)
  obtain n m k where ih: "keysOf c' i (collectRun es (tc', c')) = replicate n [] @ replicate m k"
    "cachedKey c' i \<noteq> [] \<Longrightarrow> n = 0 \<and> k = cachedKey c' i" using Cons.IH[of c' tc'] by blast
  have same: "keysOf c i (collectRun es (tc', c')) = keysOf c' i (collectRun es (tc', c'))"
    by (rule keysOf_frame[symmetric]) (use collectOnce_frame[OF st] in simp)
  obtain k1 where k1: "keysOf c i [(r, effs)] = [] \<and> cachedKey c' i = cachedKey c i \<or>
      keysOf c i [(r, effs)] = [k1] \<and> cachedKey c' i = k1"
    "cachedKey c i \<noteq> [] \<longrightarrow> k1 = cachedKey c i"
    using collectOnce_key[OF st assms] by (metis list.distinct(1))
  have run: "keysOf c i (collectRun (ev # es) (tc, c)) = keysOf c i [(r, effs)] @ replicate n [] @ replicate m k"
    using keysOf_Cons[of c i r effs "collectRun es (tc', c')"] by (simp add: ev st same ih(1))
  from k1(1) show ?case
  proof (elim disjE conjE)
    assume "keysOf c i [(r, effs)] = []" "cachedKey c' i = cachedKey c i"
    with run ih(2) show ?thesis by (metis append_Nil)
  next
    assume one: "keysOf c i [(r, effs)] = [k1]" "cachedKey c' i = k1"
    show ?thesis
    proof (cases "k1 = []")
      case True
      then have "keysOf c i (collectRun (ev # es) (tc, c)) = replicate (Suc n) [] @ replicate m k"
        by (simp add: run one)
      with True k1(2) show ?thesis by metis
    next
      case False
      then have "keysOf c i (collectRun (ev # es) (tc, c)) = replicate 0 [] @ replicate (Suc m) k1"
        using ih(2) one by (simp add: run)
      with k1(2) show ?thesis by metis
    qed
  qed
qed

text \<open>The product key of a driver is fixed by its first answer that names one. Over any
  sequence of collections (of any tasks, with any answers of the drivers and the database),
  the samples of the devices of driver \<open>i\<close> carry no key at first and, from the first that has
  one, all carry that key, whatever the driver reports later.\<close>
theorem driver_key_fixed:
  assumes "0 < i"
  shows "\<exists>n m k. keysOf c i (collectRun es (tc, c)) = replicate n [] @ replicate m k"
  using run_keys[OF assms, of c es tc] by blast

definition exampleEnv :: collectEnv where
  "exampleEnv = \<lparr>ev_lib = exampleLib, ev_order = id,
     ev_exec = Some (\<lambda>_. Inr (Some (blankResult\<lparr>dr_Success := True, dr_ProductKey := ''pk''\<rparr>))),
     ev_command = (\<lambda>_ _ _. Inr (Some (blankResult\<lparr>dr_Error := ''busy''\<rparr>))),
     ev_paramDB = True, ev_updateKey = (\<lambda>_ _. None),
     ev_deviceByIdentity = (\<lambda>_ _. Inr (Some (exampleDevice\<lparr>dev_DriverID := Some 7\<rparr>))),
     ev_thresholds = exampleDB, ev_repeatSeconds = None, ev_hasNorthbound = True\<rparr>"

theorem driver_key_fixed_witness:
  "\<exists>n m k. keysOf runningExample 7 (collectRun [(exampleEnv, 5, 0), (exampleEnv, 9, 0)]
     (initThresholdCache, runningExample)) = replicate n [] @ replicate m k"
  by (rule driver_key_fixed) simp

lemma current_frame:
  "co_tasks c' = co_tasks c \<Longrightarrow> taskFrame (taskAt c' r) = taskFrame (taskAt c r) \<Longrightarrow>
   isTaskCurrentLocked c' r = isTaskCurrentLocked c r"
  by (simp add: isTaskCurrentLocked_def taskFrame_def)

lemma storagePeriod_frame: "taskFrame t = taskFrame u \<Longrightarrow> storagePeriod t = storagePeriod u"
  by (simp add: storagePeriod_def taskFrame_def)

lemma storagePeriod_pos: "0 < storagePeriod t"
  by (simp add: storagePeriod_def resolveStorageInterval_def DefaultStorageIntervalSeconds_def
      wrap64_def)

lemma markTask_lastStored:
  "x \<noteq> r \<Longrightarrow> ct_lastStored (taskAt (markTaskCollected now x at stored c) r) = ct_lastStored (taskAt c r)"
  "ct_lastStored (taskAt (snd (markTaskFailed now x err kind c)) r) = ct_lastStored (taskAt c r)"
  "isTaskCurrentLocked c r \<Longrightarrow> at \<noteq> 0 \<Longrightarrow>
     ct_lastStored (taskAt (markTaskCollected now r at stored c) r) = (if stored then at else ct_lastStored (taskAt c r))"
  by (auto simp: markTaskCollected_def markTaskFailed_def writeTask_def Let_def IsZero_def)

lemma collectOnce_store:
  assumes st: "collectOnce env now x (tc, c) = (effs, (tc', c'))" and cur: "isTaskCurrentLocked c r"
    and now: "now \<noteq> 0" and fit: "in_int64 (storagePeriod (taskAt c r))"
  shows "storedTimes r [(x, effs)] = [] \<and> ct_lastStored (taskAt c' r) = ct_lastStored (taskAt c r) \<or>
         (\<exists>t. t \<noteq> 0 \<and> storedTimes r [(x, effs)] = [t] \<and> ct_lastStored (taskAt c' r) = t \<and>
            (ct_lastStored (taskAt c r) = 0 \<or> ct_lastStored (taskAt c r) + storagePeriod (taskAt c r) \<le> t))"
proof (cases "ev_exec env")
  case None
  with collectOnce_none[OF st] show ?thesis by (simp add: storedTimes_def)
next
  case (Some exec)
  show ?thesis
  proof (cases "exec (ct_device (taskAt c x))")
    case (Inl e)
    with collectOnce_fail[OF st Some Inl] show ?thesis
      by (simp add: storedTimes_def handleCollectFailure_def markTask_lastStored)
  next
    case (Inr res)
    let ?d = "driverResultToCollectDataWithCache now (Some (ct_device (taskAt c x))) res
        (ct_deviceProductKey (taskAt c x)) (ct_deviceKey (taskAt c x))"
    obtain err data upd c1 alarms s stored where
      sy: "syncDeviceProductKey env x ?d c = (err, data, upd, c1)"
      and sd: "stored = shouldStoreHistory now (taskAt c1 x) (cd_Timestamp data)"
      and e: "effs = upd @ EnqueueCollectDataWrite data stored # map AlarmEffect alarms"
      and c': "c' = (markTaskCollected now x (cd_Timestamp data) stored c1)\<lparr>co_alarms := s\<rparr>"
      using collectOnce_ok[OF st Some Inr] by metis
    note F = syncDeviceProductKey_frame[OF sy]
    note C = taskCoreD[OF F(4)]
    have cur1: "isTaskCurrentLocked c1 r" using cur by (simp add: isTaskCurrentLocked_def F(1) C(7))
    have w: "writesOf effs = [(data, stored)]" using F(5) by (simp add: e)
    have "cd_Timestamp ?d \<noteq> 0"
      using now by (simp add: driverResultToCollectDataWithCache_def Let_def IsZero_def case_prod_beta)
    then have t0: "cd_Timestamp data \<noteq> 0" by (simp add: F(6))
    show ?thesis
    proof (cases "x = r")
      case False
      then show ?thesis by (simp add: storedTimes_def c' markTask_lastStored C(1))
    next
      case True
      have "stored \<longleftrightarrow> ct_lastStored (taskAt c r) = 0 \<or>
          storagePeriod (taskAt c r) \<le> time_Sub (cd_Timestamp data) (ct_lastStored (taskAt c r))"
        using t0 by (simp add: sd shouldStoreHistory_def Let_def IsZero_def True C storagePeriod_def)
      moreover have "storagePeriod (taskAt c r) \<le> time_Sub (cd_Timestamp data) (ct_lastStored (taskAt c r)) \<longleftrightarrow>
          ct_lastStored (taskAt c r) + storagePeriod (taskAt c r) \<le> cd_Timestamp data"
        using fit storagePeriod_pos[of "taskAt c r"] by (intro time_Sub_ge_iff) (auto simp: minInt64_def)
      ultimately show ?thesis
        using t0 cur1 C(1) by (auto simp: True storedTimes_def w c' markTask_lastStored)
    qed
  qed
qed

lemma run_spaced:
  assumes "isTaskCurrentLocked c r" and "in_int64 (storagePeriod (taskAt c r))" and "\<forall>(_, now, _)\<in>set es. now \<noteq> 0"
  shows "spaced (storagePeriod (taskAt c r)) (storedTimes r (collectRun es (tc, c))) \<and>
    (ct_lastStored (taskAt c r) \<noteq> 0 \<longrightarrow>
       (\<forall>t\<in>set (storedTimes r (collectRun es (tc, c))). ct_lastStored (taskAt c r) + storagePeriod (taskAt c r) \<le> t))"
  using assms
proof (induction es arbitrary: tc c)
  case Nil
  then show ?case by (simp add: storedTimes_def spaced_def)
next
  case (Cons ev es)
  obtain env now x where ev: "ev = (env, now, x)" by (cases ev) auto
  obtain effs tc' c' where st: "collectOnce env now x (tc, c) = (effs, (tc', c'))" by (metis prod_cases3)
  let ?P = "storagePeriod (taskAt c r)"
  have fr: "co_tasks c' = co_tasks c" "taskFrame (taskAt c' r) = taskFrame (taskAt c r)"
    using collectOnce_frame[OF st] by auto
  have P: "storagePeriod (taskAt c' r) = ?P" by (rule storagePeriod_frame[OF fr(2)])
  let ?out = "storedTimes r (collectRun es (tc', c'))"
  have ih: "spaced ?P ?out" "ct_lastStored (taskAt c' r) \<noteq> 0 \<longrightarrow> (\<forall>t\<in>set ?out. ct_lastStored (taskAt c' r) + ?P \<le> t)"
    using Cons.IH[of c' tc'] Cons.prems current_frame[OF fr] by (auto simp: P)
  have run: "storedTimes r (collectRun (ev # es) (tc, c)) = storedTimes r [(x, effs)] @ ?out"
    by (simp add: ev st storedTimes_def)
  have "now \<noteq> 0" using Cons.prems(3) by (simp add: ev)
  from collectOnce_store[OF st Cons.prems(1) this Cons.prems(2)]
  consider (skip) "storedTimes r [(x, effs)] = []" "ct_lastStored (taskAt c' r) = ct_lastStored (taskAt c r)"
    | (store) t where "t \<noteq> 0" "storedTimes r [(x, effs)] = [t]" "ct_lastStored (taskAt c' r) = t"
        "ct_lastStored (taskAt c r) = 0 \<or> ct_lastStored (taskAt c r) + ?P \<le> t" by blast
  then show ?case
  proof cases
    case skip
    with ih show ?thesis by (simp add: run)
  next
    case (store t)
    with ih have "spaced ?P (t # ?out)" "\<forall>u\<in>set ?out. t + ?P \<le> u" by (auto simp: spaced_def)
    with store(2,4) storagePeriod_pos[of "taskAt c r"] show ?thesis by (fastforce simp: run)
  qed
qed

text \<open>C8: History is written at most once per storage interval. Over any sequence of collections,
  with any answers of the driver (errors, time stamps that jump forward or back), the time
  stamps of the samples of one task that go to the history are at least the task's storage
  interval apart, in increasing order; a task without a positive interval uses 300 s.\<close>
theorem history_spaced:
  assumes "isTaskCurrentLocked c r" and "in_int64 (storagePeriod (taskAt c r))"
    and "\<forall>(_, now, _)\<in>set es. now \<noteq> 0"
  shows "spaced (storagePeriod (taskAt c r)) (storedTimes r (collectRun es (tc, c)))"
  using run_spaced[OF assms] by blast

lemma runningExample_current: "isTaskCurrentLocked runningExample 0"
  using current_iff[of runningExample 0] reachable_inv_aux[OF runningExample_reachable]
  by (simp add: runningExample_state collectorInv_def)

lemma runningExample_period: "storagePeriod (taskAt runningExample 0) = 300 * Second"
  by (simp add: runningExample_def Start_def loadEnabledDevices_def upsertTaskLocked_def
      exampleSchedDevice_def NewCollector_def NewCollectorWithIntervals_def Let_def notifyTaskChangedLocked_def
      heap_Push_def taskHeap_Push_def emptyQueue_def heap_up.simps setIndex_def storagePeriod_def
      newCollectTask_def resolveStorageInterval_def wrap64_def blankDevice_def DefaultStorageIntervalSeconds_def)

theorem history_spaced_witness:
  "spaced (300 * Second) (storedTimes 0 (collectRun [(exampleEnv, 5, 0), (exampleEnv, 9, 0)]
     (initThresholdCache, runningExample)))"
  using history_spaced[OF runningExample_current, of "[(exampleEnv, 5, 0), (exampleEnv, 9, 0)]"]
  by (simp add: runningExample_period in_int64_def minInt64_def maxInt64_def)

section \<open>The outcome of a collection\<close>

lemma core_write_inv:
  assumes inv: "collectorInv c" and core: "taskCore t = taskCore (taskAt c r)"
  shows "collectorInv (c\<lparr>co_queue := writeTask r t (co_queue c)\<rparr>)"
proof -
  have "queueInv (co_queue c)" using inv by (simp add: collectorInv_def)
  with taskCoreD[OF core] show ?thesis
    by (intro retask_inv[OF inv, where r = r and t = t]) (simp_all add: writeTask_queueInv)
qed

lemma resolve_inv [simp]: "collectorInv (snd (resolveFixedDriverProductKey d k c)) = collectorInv c"
  by (rule collectorInv_cong) (simp_all add: resolveFixedDriverProductKey_def Let_def split: option.splits)

lemma syncDeviceProductKey_inv:
  assumes "syncDeviceProductKey env r collect c = (err, collect', effs, c')" and "collectorInv c"
  shows "collectorInv c'"
proof -
  let ?d = "ct_device (taskAt c r)"
  obtain k c1 where k: "resolveFixedDriverProductKey (dev_DriverID ?d) (cd_ProductKey collect) c = (k, c1)"
    by fastforce
  have q1: "co_queue c1 = co_queue c"
    using resolve_frame(1)[of "dev_DriverID ?d" "cd_ProductKey collect" c] by (simp add: k)
  have i1: "collectorInv c1" using assms(2) resolve_inv[of "dev_DriverID ?d" "cd_ProductKey collect" c] by (simp add: k)
  define c2 where "c2 = c1\<lparr>co_queue := writeTask r ((taskAt c1 r)\<lparr>ct_device := ?d\<lparr>dev_ProductKey := k\<rparr>\<rparr>) (co_queue c1)\<rparr>"
  have i2: "collectorInv c2"
    unfolding c2_def by (rule core_write_inv[OF i1]) (simp add: taskCore_def q1)
  have i3: "collectorInv (c2\<lparr>co_queue := writeTask r' ((taskAt c2 r')\<lparr>ct_deviceProductKey := k\<rparr>) (co_queue c2)\<rparr>)" for r'
    by (rule core_write_inv[OF i2]) (simp add: taskCore_def)
  have "c' = c1 \<or> c' = c2 \<or>
      (\<exists>r'. c' = c2\<lparr>co_queue := writeTask r' ((taskAt c2 r')\<lparr>ct_deviceProductKey := k\<rparr>) (co_queue c2)\<rparr>)"
    using assms(1) unfolding syncDeviceProductKey_def c2_def
    by (auto simp: k Let_def split: if_splits option.splits)
  with i1 i2 i3 show ?thesis by auto
qed

lemma collectOnce_inv:
  assumes st: "collectOnce env now r (tc, c) = (effs, (tc', c'))" and inv: "collectorInv c"
  shows "collectorInv c'"
proof (cases "ev_exec env")
  case None
  with collectOnce_none[OF st] inv show ?thesis by simp
next
  case (Some exec)
  show ?thesis
  proof (cases "exec (ct_device (taskAt c r))")
    case (Inl e)
    with collectOnce_fail[OF st Some Inl] inv show ?thesis
      by (simp add: handleCollectFailure_def markTaskFailed_inv)
  next
    case (Inr res)
    obtain err data d upd c1 s stored where
      sy: "syncDeviceProductKey env r d c = (err, data, upd, c1)"
      and c': "c' = (markTaskCollected now r (cd_Timestamp data) stored c1)\<lparr>co_alarms := s\<rparr>"
      using collectOnce_ok[OF st Some Inr] by metis
    have "collectorInv (markTaskCollected now r (cd_Timestamp data) stored c1)"
      by (rule markTaskCollected_inv) (rule syncDeviceProductKey_inv[OF sy inv])
    then show ?thesis
      unfolding c' by (rule collectorInv_cong[THEN iffD2, rotated -1]) simp_all
  qed
qed

lemma classify_some: "classifyCollectError L (Some e) \<noteq> collectErrorKindNone"
  by (simp add: classifyCollectError_def Let_def)

lemma status_of_current:
  "isTaskCurrentLocked c r \<Longrightarrow>
   GetDeviceRuntimeStatus c (dev_ID (ct_device (taskAt c r))) = (buildDeviceRuntimeStatus (taskAt c r), True)"
  by (simp add: isTaskCurrentLocked_def GetDeviceRuntimeStatus_def)

lemma status_fields [simp]:
  "rs_Registered (buildDeviceRuntimeStatus t)"
  "rs_ConsecutiveFailures (buildDeviceRuntimeStatus t) = ct_consecutiveFailures t"
  "rs_LastError (buildDeviceRuntimeStatus t) = ct_lastError t"
  "rs_LastErrorAt (buildDeviceRuntimeStatus t) = ct_lastErrorAt t"
  "rs_LastRunAt (buildDeviceRuntimeStatus t) = ct_lastRun t"
  "rs_LastErrorKind (buildDeviceRuntimeStatus t) =
     (if ct_lastErrorKind t = collectErrorKindNone then [] else collectErrorKindText (ct_lastErrorKind t))"
  by (simp_all add: buildDeviceRuntimeStatus_def blankStatus_def Let_def)

lemma mark_status:
  assumes "isTaskCurrentLocked c r"
  shows "let t = taskAt (snd (markTaskFailed now r e k c)) r in
      ct_consecutiveFailures t = wrap64 (ct_consecutiveFailures (taskAt c r) + 1) \<and> ct_lastError t = TrimSpace e \<and>
      ct_lastErrorKind t = k \<and> ct_lastErrorAt t = now"
    and "let t = taskAt (markTaskCollected now r at stored c) r in
      ct_consecutiveFailures t = 0 \<and> ct_lastError t = [] \<and> ct_lastErrorKind t = collectErrorKindNone \<and>
      ct_lastErrorAt t = 0 \<and> ct_lastRun t = (if at = 0 then now else at)"
  using assms by (simp_all add: markTaskFailed_def markTaskCollected_def writeTask_def Let_def IsZero_def)

text \<open>C14: A collection and what the API shows of it. From a state that satisfies the scheduler's
  invariant a collection leads to one, for every answer of the driver. After a failed
  collection the status of the device shows one more consecutive failure, the trimmed error
  text, a kind that is never empty, and the instant; nothing is written. After a successful one
  the failures are gone, the run is dated with the time stamp of the sample, and exactly one
  write is enqueued, for this device.\<close>
theorem collection_outcome_visible:
  assumes "collectorInv c" and "isTaskCurrentLocked c r" and "ev_exec env = Some exec" and "now \<noteq> 0"
    and "collectOnce env now r (tc, c) = (effs, (tc', c'))"
  shows "collectorInv c' \<and>
    (let d = dev_ID (ct_device (taskAt c r)); status = fst (GetDeviceRuntimeStatus c' d) in
     snd (GetDeviceRuntimeStatus c' d) \<and> rs_Registered status \<and>
     (case exec (ct_device (taskAt c r)) of
        Inl e \<Rightarrow> effs = [] \<and>
          rs_ConsecutiveFailures status = wrap64 (ct_consecutiveFailures (taskAt c r) + 1) \<and>
          rs_LastError status = TrimSpace (ge_Text e) \<and> rs_LastErrorAt status = now \<and>
          rs_LastErrorKind status = collectErrorKindText (classifyCollectError (ev_lib env) (Some e)) \<and>
          rs_LastErrorKind status \<noteq> []
      | Inr _ \<Rightarrow> (\<exists>data stored. writesOf effs = [(data, stored)] \<and> cd_DeviceID data = d \<and>
          rs_LastRunAt status = cd_Timestamp data) \<and>
          rs_ConsecutiveFailures status = 0 \<and> rs_LastError status = [] \<and>
          rs_LastErrorKind status = [] \<and> rs_LastErrorAt status = 0))"
proof -
  let ?d = "dev_ID (ct_device (taskAt c r))"
  have fr: "co_tasks c' = co_tasks c" "taskFrame (taskAt c' r) = taskFrame (taskAt c r)"
    using collectOnce_frame[OF assms(5)] by auto
  then have d: "dev_ID (ct_device (taskAt c' r)) = ?d" by (simp add: taskFrame_def)
  have g: "GetDeviceRuntimeStatus c' ?d = (buildDeviceRuntimeStatus (taskAt c' r), True)"
    using status_of_current[of c' r] current_frame[OF fr] assms(2) by (simp add: d)
  have inv: "collectorInv c'" by (rule collectOnce_inv[OF assms(5,1)])
  show ?thesis
  proof (cases "exec (ct_device (taskAt c r))")
    case (Inl e)
    note N = collectOnce_fail[OF assms(5,3) Inl]
    have kind: "collectErrorKindText k \<noteq> []" for k by (cases k) simp_all
    have "ct_consecutiveFailures (taskAt c' r) = wrap64 (ct_consecutiveFailures (taskAt c r) + 1) \<and>
        ct_lastError (taskAt c' r) = TrimSpace (ge_Text e) \<and> ct_lastErrorAt (taskAt c' r) = now \<and>
        ct_lastErrorKind (taskAt c' r) = classifyCollectError (ev_lib env) (Some e)"
      using mark_status(1)[OF assms(2), of now "ge_Text e" "classifyCollectError (ev_lib env) (Some e)"] N
      by (simp add: handleCollectFailure_def Let_def)
    moreover have "effs = []" using N by simp
    ultimately show ?thesis using inv kind classify_some[of "ev_lib env" e] by (simp add: g Inl Let_def)
  next
    case (Inr res)
    let ?raw = "driverResultToCollectDataWithCache now (Some (ct_device (taskAt c r))) res
        (ct_deviceProductKey (taskAt c r)) (ct_deviceKey (taskAt c r))"
    obtain err data upd c1 alarms s stored where
      sy: "syncDeviceProductKey env r ?raw c = (err, data, upd, c1)"
      and e: "effs = upd @ EnqueueCollectDataWrite data stored # map AlarmEffect alarms"
      and c': "c' = (markTaskCollected now r (cd_Timestamp data) stored c1)\<lparr>co_alarms := s\<rparr>"
      using collectOnce_ok[OF assms(5,3) Inr] by metis
    note F = syncDeviceProductKey_frame[OF sy]
    have cur1: "isTaskCurrentLocked c1 r"
      using assms(2) taskCoreD[OF F(4)] by (simp add: isTaskCurrentLocked_def F(1))
    have "cd_Timestamp data \<noteq> 0" "cd_DeviceID data = ?d"
      using assms(4) by (simp_all add: F driverResultToCollectDataWithCache_def Let_def IsZero_def case_prod_beta)
    moreover from this have "ct_consecutiveFailures (taskAt c' r) = 0 \<and> ct_lastError (taskAt c' r) = [] \<and>
        ct_lastErrorKind (taskAt c' r) = collectErrorKindNone \<and> ct_lastErrorAt (taskAt c' r) = 0 \<and>
        ct_lastRun (taskAt c' r) = cd_Timestamp data"
      using mark_status(2)[OF cur1, of now "cd_Timestamp data" stored] by (simp add: c' Let_def)
    ultimately show ?thesis using inv F(5) by (simp add: g Inr e Let_def)
  qed
qed

lemma exampleExec:
  "ev_exec exampleEnv = Some (\<lambda>_. Inr (Some (blankResult\<lparr>dr_Success := True, dr_ProductKey := ''pk''\<rparr>)))"
  by (simp add: exampleEnv_def)

theorem collection_outcome_visible_witness:
  "rs_ConsecutiveFailures (fst (GetDeviceRuntimeStatus
      (snd (snd (collectOnce exampleEnv 9 0 (initThresholdCache, runningExample)))) 1)) = 0"
proof -
  obtain effs tc' c' where st: "collectOnce exampleEnv 9 0 (initThresholdCache, runningExample) = (effs, (tc', c'))"
    by (metis prod_cases3)
  have d: "dev_ID (ct_device (taskAt runningExample 0)) = 1"
    using reachable_inv_aux[OF runningExample_reachable] by (simp add: collectorInv_def tableOK_def runningExample_state)
  show ?thesis
    using collection_outcome_visible[OF reachable_inv_aux[OF runningExample_reachable] runningExample_current
        exampleExec _ st] by (simp add: st d Let_def)
qed

section \<open>Commands and identities\<close>

fun reportsOf :: "commandEffect list \<Rightarrow> NorthboundCommandResult list" where
  "reportsOf [] = []"
| "reportsOf (ReportCommandResult r # es) = r # reportsOf es"
| "reportsOf (DriverCall _ _ # es) = reportsOf es"

lemma reportsOf_append [simp]: "reportsOf (es @ fs) = reportsOf es @ reportsOf fs"
  by (induction es rule: reportsOf.induct) auto

lemma reportsOf_calls [simp]: "reportsOf (map (\<lambda>(d, f). DriverCall d f) calls) = []"
  by (induction calls) auto

definition reportFor :: "collectEnv \<Rightarrow> NorthboundCommand \<Rightarrow> NorthboundCommandResult" where
  "reportFor env cmd = (case fst (executeNorthboundCommand env (Some cmd)) of
     None \<Rightarrow> \<lparr>nr_RequestID = nc_RequestID cmd, nr_ProductKey = nc_ProductKey cmd,
       nr_DeviceKey = nc_DeviceKey cmd, nr_FieldName = nc_FieldName cmd, nr_Value = nc_Value cmd,
       nr_Source = nc_Source cmd, nr_Success = True, nr_Code = 200, nr_Message = []\<rparr>
   | Some e \<Rightarrow> \<lparr>nr_RequestID = nc_RequestID cmd, nr_ProductKey = nc_ProductKey cmd,
       nr_DeviceKey = nc_DeviceKey cmd, nr_FieldName = nc_FieldName cmd, nr_Value = nc_Value cmd,
       nr_Source = nc_Source cmd, nr_Success = False, nr_Code = 500, nr_Message = ge_Text e\<rparr>)"

lemma report_eq: "reportCommandResult (Some cmd) (fst (executeNorthboundCommand env (Some cmd))) = [ReportCommandResult (reportFor env cmd)]"
  by (simp add: reportCommandResult_def buildNorthboundCommandResult_def reportFor_def Let_def
      commandResultCodeSuccess_def commandResultCodeFailure_def split: option.splits)

lemma processCommands_reports:
  "reportsOf (processCommands env cs) = map (reportFor env) (List.map_filter id cs)"
proof (induction env cs rule: processCommands.induct)
  case (3 env cmd cs)
  obtain err calls where x: "executeNorthboundCommand env (Some cmd) = (err, calls)" by fastforce
  with report_eq[of cmd env] 3 show ?case by simp
qed simp_all

lemma command_calls:
  assumes "(d, f) \<in> set (snd (executeNorthboundCommand env (Some cmd)))"
  shows "ev_deviceByIdentity env (TrimSpace (nc_ProductKey cmd)) (TrimSpace (nc_DeviceKey cmd)) = Inr (Some d) \<and>
    dev_DriverID d \<noteq> None \<and> map_of f ''func_name'' = Some ''write'' \<and>
    map_of f ''field_name'' = Some (TrimSpace (nc_FieldName cmd)) \<and> TrimSpace (nc_FieldName cmd) \<noteq> [] \<and>
    map_of f ''value'' = Some (TrimSpace (nc_Value cmd))"
  using assms
  by (auto simp: executeNorthboundCommand_def normalizeNorthboundCommand_def loadNorthboundCommandDevice_def
      buildNorthboundCommandConfig_def Let_def split: if_splits sum.splits option.splits)

lemma processCommands_calls:
  "DriverCall d f \<in> set (processCommands env cs) \<Longrightarrow>
   \<exists>cmd. Some cmd \<in> set cs \<and> (d, f) \<in> set (snd (executeNorthboundCommand env (Some cmd)))"
proof (induction env cs rule: processCommands.induct)
  case (3 env cmd cs)
  obtain err calls where x: "executeNorthboundCommand env (Some cmd) = (err, calls)" by fastforce
  have "DriverCall d f \<in> set (processCommands env cs) \<or> (d, f) \<in> set calls"
    using "3.prems" x report_eq[of cmd env] by auto
  with "3.IH"[OF x [symmetric] refl] x show ?case
    by (metis list.set_intros(1,2) snd_conv)
qed auto



lemma firstNonEmptyTrimmed_idem [simp]:
  "firstNonEmptyTrimmed [firstNonEmptyTrimmed vs, []] = firstNonEmptyTrimmed vs"
  by (induction vs) auto

lemma probe_idem: "TrimSpace (parseDriverProductKeyFromResultOutput u raw) = parseDriverProductKeyFromResultOutput u raw"
  by (auto simp: parseDriverProductKeyFromResultOutput_def Let_def split: option.splits)

text \<open>Normalising the identity of a driver's result is complete and stable: afterwards the
  result has one product key, trimmed, no alternative spelling and no product key among its
  fields; every other field keeps its value; a key found in the result itself wins over one
  among the fields, which wins over one in the raw output; a second pass changes nothing.\<close>
theorem identity_normalised:
  "let n = normalizeDriverResultIdentity u raw res in
     dr_ProductKeyAlt n = [] \<and> TrimSpace (dr_ProductKey n) = dr_ProductKey n \<and>
     (\<forall>k. map_of (dr_Data n) k = (if k = ''productKey'' \<or> k = ''product_key'' then None else map_of (dr_Data res) k)) \<and>
     dr_ProductKey n = (case filter (\<lambda>k. k \<noteq> [])
         [TrimSpace (dr_ProductKey res), TrimSpace (dr_ProductKeyAlt res),
          TrimSpace (mapGet (dr_Data res) ''productKey''), TrimSpace (mapGet (dr_Data res) ''product_key''),
          if raw = [] then [] else parseDriverProductKeyFromResultOutput u raw] of [] \<Rightarrow> [] | k # _ \<Rightarrow> k) \<and>
     normalizeDriverResultIdentity u raw n = n"
proof -
  define n where "n = normalizeDriverResultIdentity u raw res"
  have data: "map_of (dr_Data n) k = (if k = ''productKey'' \<or> k = ''product_key'' then None else map_of (dr_Data res) k)" for k
    by (simp add: n_def normalizeDriverResultIdentity_def removeDriverProductKeyFields_def Let_def
        delete_conv' restrict_map_def)
  have del: "removeDriverProductKeyFields (dr_Data n) = dr_Data n"
    by (simp add: n_def normalizeDriverResultIdentity_def removeDriverProductKeyFields_def Let_def
        delete_idem delete_twist)
  have none: "resolveDriverProductKeyFromResultData (dr_Data n) = []"
    by (simp add: resolveDriverProductKeyFromResultData_def mapGet_def data)
  have key: "dr_ProductKey n = (case filter (\<lambda>k. k \<noteq> [])
         [TrimSpace (dr_ProductKey res), TrimSpace (dr_ProductKeyAlt res),
          TrimSpace (mapGet (dr_Data res) ''productKey''), TrimSpace (mapGet (dr_Data res) ''product_key''),
          if raw = [] then [] else parseDriverProductKeyFromResultOutput u raw] of [] \<Rightarrow> [] | k # _ \<Rightarrow> k)"
    by (auto simp: n_def normalizeDriverResultIdentity_def resolveDriverProductKeyFromResultData_def Let_def mapGet_def)
  have alt: "dr_ProductKeyAlt n = []" by (simp add: n_def normalizeDriverResultIdentity_def Let_def)
  have trim: "TrimSpace (dr_ProductKey n) = dr_ProductKey n"
    unfolding key by (simp add: probe_idem)
  have raw: "dr_ProductKey n = [] \<Longrightarrow> raw \<noteq> [] \<Longrightarrow> parseDriverProductKeyFromResultOutput u raw = []"
    unfolding key by (simp split: if_splits)
  have "normalizeDriverResultIdentity u raw n = n"
    using trim raw by (auto simp: normalizeDriverResultIdentity_def Let_def none del alt)
  with data key alt trim show ?thesis unfolding Let_def n_def[symmetric] by blast
qed

end
