(* ===== verification/Outbox.thy ===== *)
theory Outbox
  imports Models
begin

text \<open>
  The bounded queues of the northbound adapters (\<open>northbound/adapters/queue_append.go\<close>) and
  what an adapter may rely on when it buffers, flushes and requeues through them.

  The Go functions re-slice and clear one backing array; every slice they return has its
  capacity cut to its length, so a later append never writes into an array that another
  slice shares, and a queue is the list of its elements.

  The locale \<open>outbox\<close> is the contract of one buffered stream of an adapter: \<open>put\<close> appends
  to the queue, dropping the oldest element when it is full; \<open>flush\<close> takes a batch from the
  front, publishes it, and puts what was not confirmed back in front of what arrived
  meanwhile. Capacity, order and delivery are proved once from the contract; every stream of
  the five adapters interprets it in \<open>Adapters\<close>.
\<close>

section \<open>The queue functions\<close>

definition defaultAlarmBatch :: int where "defaultAlarmBatch = 20"
definition defaultAlarmQueue :: int where "defaultAlarmQueue = 200"
definition defaultRealtimeQueue :: int where "defaultRealtimeQueue = 200"

fun appendIncoming :: "'a option list \<Rightarrow> nat \<Rightarrow> 'a list \<Rightarrow> 'a list" where
  "appendIncoming [] skipIncoming queue = queue"
| "appendIncoming (None # incoming) skipIncoming queue = appendIncoming incoming skipIncoming queue"
| "appendIncoming (Some item # incoming) skipIncoming queue =
     (if skipIncoming > 0 then appendIncoming incoming (skipIncoming - 1) queue
      else appendIncoming incoming skipIncoming (queue @ [item]))"

definition appendCommandQueueWithCap :: "'a list \<Rightarrow> 'a option list \<Rightarrow> int \<Rightarrow> 'a list" where
  "appendCommandQueueWithCap queue incoming capLimit =
     (let capLimit = nat (if capLimit \<le> 0 then defaultRealtimeQueue else capLimit);
          queue = (if length queue > capLimit then drop (length queue - capLimit) queue else queue)
      in if incoming = [] then queue
         else let validIncoming = length (filter (\<lambda>item. item \<noteq> None) incoming)
              in if validIncoming = 0 then queue
                 else let overflow = int (length queue) + int validIncoming - int capLimit;
                          dropExisting = (if overflow > 0
                                          then (if overflow > int (length queue) then int (length queue) else overflow)
                                          else 0);
                          queue = drop (nat dropExisting) queue;
                          skipIncoming = (if overflow > 0 then overflow - dropExisting else 0);
                          queue = appendIncoming incoming (nat skipIncoming) queue
                      in if length queue > capLimit then drop (length queue - capLimit) queue else queue)"

definition appendQueueItemWithCap :: "'a list \<Rightarrow> 'a \<Rightarrow> int \<Rightarrow> 'a list" where
  "appendQueueItemWithCap queue item capLimit =
     (let capLimit = nat (if capLimit \<le> 0 then 1 else capLimit);
          queue = (if length queue \<ge> capLimit then drop 1 queue else queue)
      in queue @ [item])"

definition prependQueueWithCap :: "'a list \<Rightarrow> 'a list \<Rightarrow> int \<Rightarrow> 'a list" where
  "prependQueueWithCap queue items capLimit =
     (let capLimit = nat (if capLimit \<le> 0 then 1 else capLimit);
          queue = (if length queue > capLimit then drop (length queue - capLimit) queue else queue)
      in if items = [] then queue
         else let merged = items @ queue
              in if length merged > capLimit then take capLimit merged else merged)"

section \<open>Reference: the last elements of a list\<close>

definition lastN :: "nat \<Rightarrow> 'a list \<Rightarrow> 'a list" where
  "lastN n xs = drop (length xs - n) xs"

lemma lastN_all [simp]: "length xs \<le> n \<Longrightarrow> lastN n xs = xs"
  by (simp add: lastN_def)

lemma lastN_length [simp]: "length (lastN n xs) = min n (length xs)"
  by (simp add: lastN_def)

lemma lastN_append_eq: "lastN n (xs @ ys) = lastN (n - length ys) xs @ lastN n ys"
  by (cases "length ys \<le> n") (simp_all add: lastN_def)

lemma lastN_min: "lastN m (lastN n xs) = lastN (min m n) xs"
  by (cases "length xs \<le> n") (auto simp: lastN_def min_def intro!: arg_cong2[where f = drop])

lemma lastN_lastN [simp]: "lastN n (lastN n xs @ ys) = lastN n (xs @ ys)"
  by (simp add: lastN_append_eq lastN_min min_absorb1)

lemma appendIncoming_eq:
  "appendIncoming incoming skip queue = queue @ drop skip (List.map_filter id incoming)"
  by (induction incoming skip queue rule: appendIncoming.induct) (auto simp: drop_Cons')

lemma valid_somes: "length (filter (\<lambda>item. item \<noteq> None) xs) = length (List.map_filter id xs)"
proof (induction xs)
  case (Cons x xs)
  then show ?case by (cases x) auto
qed simp

lemma trim_to_lastN: "(if length q > n then drop (length q - n) q else q) = lastN n q"
  by (simp add: lastN_def)

lemma appendCommand_lastN:
  "appendCommandQueueWithCap queue incoming capLimit =
     lastN (nat (if capLimit \<le> 0 then defaultRealtimeQueue else capLimit)) (queue @ List.map_filter id incoming)"
proof -
  define n where "n = nat (if capLimit \<le> 0 then defaultRealtimeQueue else capLimit)"
  define q where "q = lastN n queue"
  define v where "v = List.map_filter id incoming"
  have qn: "length q \<le> n" by (simp add: q_def)
  let ?o = "int (length q) + int (length v) - int n"
  let ?d = "if ?o > 0 then (if ?o > int (length q) then int (length q) else ?o) else 0"
  let ?s = "if ?o > 0 then ?o - ?d else 0"
  have all: "lastN n (queue @ v) = lastN n (q @ v)" by (simp add: q_def)
  have "drop (nat ?d) q @ drop (nat ?s) v = lastN n (q @ v)"
    using qn by (auto simp: lastN_append_eq lastN_def nat_diff_distrib nat_add_distrib intro!: arg_cong2[where f = drop])
  then have "lastN n (drop (nat ?d) q @ drop (nat ?s) v) = lastN n (queue @ v)"
    using all by (simp add: lastN_def)
  moreover have "v = [] \<Longrightarrow> lastN n (queue @ v) = q" by (simp add: q_def)
  moreover have "incoming = [] \<Longrightarrow> v = []" by (simp add: v_def)
  ultimately show ?thesis
    unfolding appendCommandQueueWithCap_def Let_def n_def[symmetric] trim_to_lastN q_def[symmetric]
      valid_somes appendIncoming_eq v_def[symmetric] by auto
qed

lemma appendItem_eq:
  "0 < n \<Longrightarrow> appendQueueItemWithCap q x (int n) = (if n \<le> length q then drop 1 q else q) @ [x]"
  by (simp add: appendQueueItemWithCap_def)

lemma appendItem_lastN: "0 < n \<Longrightarrow> length q \<le> n \<Longrightarrow> appendQueueItemWithCap q x (int n) = lastN n (q @ [x])"
  by (auto simp: appendItem_eq lastN_def)

lemma prepend_eq:
  "0 < n \<Longrightarrow> length q \<le> n \<Longrightarrow> prependQueueWithCap q items (int n) = take n (items @ q)"
  by (auto simp: prependQueueWithCap_def Let_def)

lemma foldl_append_lastN:
  "0 < n \<Longrightarrow> length q \<le> n \<Longrightarrow>
   foldl (\<lambda>q x. appendQueueItemWithCap q x (int n)) q xs = lastN n (q @ xs)"
proof (induction xs arbitrary: q)
  case (Cons x xs)
  then have "foldl (\<lambda>q x. appendQueueItemWithCap q x (int n)) q (x # xs) = lastN n (lastN n (q @ [x]) @ xs)"
    by (simp add: appendItem_lastN)
  then show ?case by simp
qed simp

section \<open>The contract of a buffered stream\<close>

datatype ('a, 'o) outboxOp = Put 'a | Flush "nat \<Rightarrow> 'o" "'a list"

text \<open>Sequences of operations on a stream, with everything published.\<close>

fun outStep ::
  "('a \<Rightarrow> 's \<Rightarrow> 's) \<Rightarrow> ((nat \<Rightarrow> 'o) \<Rightarrow> 'a list \<Rightarrow> 's \<Rightarrow> 'a list \<times> 's) \<Rightarrow>
   ('a, 'o) outboxOp \<Rightarrow> 's \<Rightarrow> 'a list \<times> 's" where
  "outStep put flush (Put x) s = ([], put x s)"
| "outStep put flush (Flush ok arr) s = flush ok arr s"

fun outRun ::
  "('a \<Rightarrow> 's \<Rightarrow> 's) \<Rightarrow> ((nat \<Rightarrow> 'o) \<Rightarrow> 'a list \<Rightarrow> 's \<Rightarrow> 'a list \<times> 's) \<Rightarrow>
   ('a, 'o) outboxOp list \<Rightarrow> 's \<Rightarrow> 'a list \<times> 's" where
  "outRun put flush [] s = ([], s)"
| "outRun put flush (e # es) s =
     (fst (outStep put flush e s) @ fst (outRun put flush es (snd (outStep put flush e s))),
      snd (outRun put flush es (snd (outStep put flush e s))))"

fun given :: "('a, 'o) outboxOp \<Rightarrow> 'a list" where
  "given (Put x) = [x]"
| "given (Flush ok arr) = arr"

text \<open>
  \<open>flush ok arr s\<close>: \<open>ok i\<close> is the answer of the broker to the \<open>i\<close>-th publication of the call,
  \<open>arr\<close> what other goroutines put while the call is under way. \<open>reach s ok b\<close> is how many items
  of the batch \<open>b\<close> the broker confirmed, \<open>keep k\<close> the position in the batch from which a
  failed flush requeues it: \<open>k\<close> where the code resumes, 0 where it retries the whole batch.\<close>

locale outbox =
  fixes pend :: "'s \<Rightarrow> 'a list" and capOf :: "'s \<Rightarrow> nat" and batchOf :: "'s \<Rightarrow> nat"
    and put :: "'a \<Rightarrow> 's \<Rightarrow> 's" and flush :: "(nat \<Rightarrow> 'o) \<Rightarrow> 'a list \<Rightarrow> 's \<Rightarrow> 'a list \<times> 's"
    and reach :: "'s \<Rightarrow> (nat \<Rightarrow> 'o) \<Rightarrow> 'a list \<Rightarrow> nat" and keep :: "nat \<Rightarrow> nat"
  assumes cap_pos: "0 < capOf s"
    and put_pend: "length (pend s) \<le> capOf s \<Longrightarrow> pend (put x s) = lastN (capOf s) (pend s @ [x])"
    and put_cap: "capOf (put x s) = capOf s"
    and flush_cap: "capOf (snd (flush ok arr s)) = capOf s"
    and flush_sent: "length (pend s) \<le> capOf s \<Longrightarrow> fst (flush ok arr s) =
      take (reach s ok (take (batchOf s) (pend s))) (take (batchOf s) (pend s))"
    and flush_pend: "length (pend s) \<le> capOf s \<Longrightarrow> pend (snd (flush ok arr s)) =
      (let b = take (batchOf s) (pend s); rest = lastN (capOf s) (drop (batchOf s) (pend s) @ arr);
           k = reach s ok b
       in if k = length b then rest else take (capOf s) (drop (keep k) b @ rest))"
    and reach_le: "reach s ok b \<le> length b"
    and keep_le: "keep k \<le> k"
begin

abbreviation step :: "('a, 'o) outboxOp \<Rightarrow> 's \<Rightarrow> 'a list \<times> 's" where
  "step \<equiv> outStep put flush"

abbreviation run :: "('a, 'o) outboxOp list \<Rightarrow> 's \<Rightarrow> 'a list \<times> 's" where
  "run \<equiv> outRun put flush"

lemma step_cap: "capOf (snd (step e s)) = capOf s"
  by (cases e) (simp_all add: put_cap flush_cap)

lemma step_bounded:
  assumes "length (pend s) \<le> capOf s"
  shows "length (pend (snd (step e s))) \<le> capOf s"
proof (cases e)
  case (Put x)
  with assms show ?thesis by (simp add: put_pend)
next
  case (Flush ok arr)
  have take: "length (take (capOf s) ys) \<le> capOf s" and last: "length (lastN (capOf s) ys) \<le> capOf s" for ys :: "'a list"
    by simp_all
  show ?thesis
    unfolding Flush outStep.simps flush_pend[OF assms] Let_def by (simp only: take last split: if_split) simp
qed

lemma run_bounded:
  "length (pend s) \<le> capOf s \<Longrightarrow> length (pend (snd (run es s))) \<le> capOf s"
proof (induction es arbitrary: s)
  case (Cons e es)
  then show ?case using step_bounded[of s e] step_cap[of e s] Cons.IH[of "snd (step e s)"] by simp
qed simp

text \<open>What leaves the queue in a step, when nothing overflows: \<open>gone\<close>. It was published.\<close>

definition gone :: "('a, 'o) outboxOp \<Rightarrow> 's \<Rightarrow> 'a list" where
  "gone e s = (case e of Put x \<Rightarrow> []
     | Flush ok arr \<Rightarrow> (let b = take (batchOf s) (pend s); k = reach s ok b
                       in if k = length b then b else take (keep k) b))"

lemma step_conserves:
  assumes "length (pend s) + length (given e) \<le> capOf s"
  shows "gone e s @ pend (snd (step e s)) = pend s @ given e"
proof (cases e)
  case (Put x)
  with assms show ?thesis by (simp add: gone_def put_pend)
next
  case (Flush ok arr)
  define b where "b = take (batchOf s) (pend s)"
  define k where "k = reach s ok b"
  have parts: "b @ drop (batchOf s) (pend s) = pend s" by (simp add: b_def)
  have fits: "length (drop m b @ drop (batchOf s) (pend s) @ arr) \<le> capOf s" for m
    using assms Flush arg_cong[OF parts, of length] by simp
  from fits[of "length b"] have rest: "lastN (capOf s) (drop (batchOf s) (pend s) @ arr) = drop (batchOf s) (pend s) @ arr"
    by simp
  have "pend (snd (step e s)) = (if k = length b then drop (batchOf s) (pend s) @ arr
      else drop (keep k) b @ drop (batchOf s) (pend s) @ arr)"
    using fits[of "keep k"] assms by (simp add: Flush flush_pend Let_def rest flip: b_def k_def)
  then show ?thesis
    using parts by (auto simp: gone_def Flush Let_def simp flip: b_def k_def append_assoc)
qed

lemma gone_prefix_sent:
  "length (pend s) \<le> capOf s \<Longrightarrow> prefix (gone e s) (fst (step e s))"
proof (cases e)
  case (Flush ok arr)
  assume len: "length (pend s) \<le> capOf s"
  define b where "b = take (batchOf s) (pend s)"
  have "prefix (take (keep (reach s ok b)) b) (take (reach s ok b) b)"
    using keep_le[of "reach s ok b"] by (metis min_absorb1 take_is_prefix take_take)
  with len show ?thesis by (auto simp: Flush gone_def flush_sent Let_def simp flip: b_def)
qed (simp add: gone_def)

fun runGone :: "('a, 'o) outboxOp list \<Rightarrow> 's \<Rightarrow> 'a list" where
  "runGone [] s = []"
| "runGone (e # es) s = gone e s @ runGone es (snd (step e s))"

lemma run_conserves:
  "length (pend s) + length (concat (map given es)) \<le> capOf s \<Longrightarrow>
   runGone es s @ pend (snd (run es s)) = pend s @ concat (map given es) \<and> subseq (runGone es s) (fst (run es s))"
proof (induction es arbitrary: s)
  case (Cons e es)
  have c: "gone e s @ pend (snd (step e s)) = pend s @ given e"
    by (rule step_conserves) (use Cons.prems in simp)
  have "length (pend (snd (step e s))) + length (concat (map given es)) \<le> capOf (snd (step e s))"
    using Cons.prems arg_cong[OF c, of length] by (simp add: step_cap)
  from Cons.IH[OF this] have ih:
    "runGone es (snd (step e s)) @ pend (snd (run es (snd (step e s)))) = pend (snd (step e s)) @ concat (map given es)"
    "subseq (runGone es (snd (step e s))) (fst (run es (snd (step e s))))" by auto
  have "prefix (gone e s) (fst (step e s))" by (rule gone_prefix_sent) (use Cons.prems in simp)
  then have "subseq (gone e s @ runGone es (snd (step e s))) (fst (step e s) @ fst (run es (snd (step e s))))"
    using ih(2) by (intro list_emb_append_mono) (auto simp: prefix_imp_subseq)
  moreover have "gone e s @ runGone es (snd (step e s)) @ pend (snd (run es (snd (step e s)))) =
      pend s @ given e @ concat (map given es)"
    using ih(1) c by (metis append.assoc)
  ultimately show ?case by simp
qed simp

text \<open>At least once, in order: as long as nothing overflows, everything given is published or
  still pending, and it leaves in the order it came.\<close>

lemma at_least_once:
  assumes "pend s = []" and "length (concat (map given es)) \<le> capOf s" and "run es s = (sent, s')"
  shows "\<exists>done. subseq done sent \<and> done @ pend s' = concat (map given es)"
proof -
  have "runGone es s @ pend (snd (run es s)) = pend s @ concat (map given es) \<and> subseq (runGone es s) (fst (run es s))"
    by (rule run_conserves) (simp add: assms)
  with assms show ?thesis by (metis append_Nil fst_conv snd_conv)
qed

lemma never_over_capacity:
  assumes "pend s = []" and "run es s = (sent, s')"
  shows "length (pend s') \<le> capOf s"
  using run_bounded[of s es] assms by simp

end

text \<open>A stream that resumes a failed batch where it failed: exactly once.\<close>

locale exact_outbox = outbox +
  assumes keep_all: "keep k = k"
begin

lemma gone_is_sent:
  "length (pend s) \<le> capOf s \<Longrightarrow> fst (step e s) = gone e s"
  by (cases e) (auto simp: gone_def flush_sent Let_def keep_all min_def)

lemma run_gone_is_sent:
  "length (pend s) \<le> capOf s \<Longrightarrow> fst (run es s) = runGone es s"
proof (induction es arbitrary: s)
  case (Cons e es)
  then show ?case
    using step_bounded[of s e] by (simp add: gone_is_sent step_cap)
qed simp

lemma exactly_once:
  assumes "pend s = []" and "length (concat (map given es)) \<le> capOf s" and "run es s = (sent, s')"
  shows "sent @ pend s' = concat (map given es)"
proof -
  have "runGone es s @ pend (snd (run es s)) = pend s @ concat (map given es)"
    using run_conserves[of s es] assms by simp
  moreover have "fst (run es s) = runGone es s" by (rule run_gone_is_sent) (simp add: assms)
  ultimately show ?thesis using assms by simp
qed

end

text \<open>The bounded queues keep what they promise. Appending commands keeps exactly the newest
  \<open>cap\<close> of the old queue followed by the incoming commands that are not nil, in order (the
  drop counters of the code never lose or keep one too many); appending an item to a queue
  within its capacity keeps the newest; requeueing keeps the oldest of items followed by queue.
  A capacity that is not positive is replaced by the default.\<close>
theorem queue_functions_reference:
  "appendCommandQueueWithCap queue incoming capLimit =
     lastN (nat (if capLimit \<le> 0 then 200 else capLimit)) (queue @ List.map_filter id incoming) \<and>
   (length q \<le> nat (if n \<le> 0 then 1 else n) \<longrightarrow>
     appendQueueItemWithCap q x n = lastN (nat (if n \<le> 0 then 1 else n)) (q @ [x]) \<and>
     prependQueueWithCap q items n = take (nat (if n \<le> 0 then 1 else n)) (items @ q))"
proof (intro conjI impI)
  show "appendCommandQueueWithCap queue incoming capLimit =
     lastN (nat (if capLimit \<le> 0 then 200 else capLimit)) (queue @ List.map_filter id incoming)"
    by (simp add: appendCommand_lastN defaultRealtimeQueue_def)
  assume l: "length q \<le> nat (if n \<le> 0 then 1 else n)"
  have pos: "0 < nat (if n \<le> 0 then 1 else n)" by simp
  have eq: "appendQueueItemWithCap q x n = appendQueueItemWithCap q x (int (nat (if n \<le> 0 then 1 else n)))"
    "prependQueueWithCap q items n = prependQueueWithCap q items (int (nat (if n \<le> 0 then 1 else n)))"
    by (simp_all add: appendQueueItemWithCap_def prependQueueWithCap_def)
  show "appendQueueItemWithCap q x n = lastN (nat (if n \<le> 0 then 1 else n)) (q @ [x])"
    unfolding eq by (rule appendItem_lastN[OF pos l])
  show "prependQueueWithCap q items n = take (nat (if n \<le> 0 then 1 else n)) (items @ q)"
    unfolding eq by (rule prepend_eq[OF pos l])
qed

theorem queue_functions_reference_witness:
  "appendCommandQueueWithCap [1::nat] [Some 2, None, Some 3] 2 = [2, 3] \<and>
   appendQueueItemWithCap [1, 2] (3::nat) 2 = [2, 3] \<and> prependQueueWithCap [3::nat] [1, 2] 2 = [1, 2]"
  using queue_functions_reference[of "[1::nat]" "[Some 2, None, Some 3]" 2 "[1::nat, 2]" 2 3 "[]"]
    queue_functions_reference[of "[1::nat]" "[Some 2, None, Some 3]" 2 "[3::nat]" 2 3 "[1, 2]"]
  by (simp add: lastN_def)

end
