(* ===== verification/Adapter_Life.thy ===== *)
theory Adapter_Life
  imports Go_Prelude
begin

text \<open>
  The life cycle that the northbound adapters share (\<open>adapter_state.go\<close>,
  \<open>adapter_lifecycle.go\<close>, \<open>adapter_reconnect.go\<close>, \<open>reconnect_timer.go\<close>, \<open>alarm_drain.go\<close>,
  \<open>mqtt_flush_loop.go\<close>, and the back-off of \<open>pandax_transport.go\<close>).

  A stop channel has an identity (a number), because the code compares channels and closing
  one twice panics; a signal channel of capacity one is \<open>None\<close> when nil, else whether it holds
  its token. \<open>lc_loops\<close> has the stop channel of each running loop goroutine: the wait group
  counts them. The manager calls \<open>Start\<close>, \<open>Stop\<close> and \<open>Close\<close> under its own lock, so these calls
  do not overlap; \<open>stop\<close> waits for the loop, which ends because its channel is closed.
\<close>

section \<open>States and signals\<close>

datatype adapterLoopState = adapterLoopStopped | adapterLoopRunning | adapterLoopStopping

record loopStateTransition =
  lt_from :: adapterLoopState
  lt_to :: adapterLoopState
  lt_changed :: bool

fun adapterLoopState_String :: "adapterLoopState \<Rightarrow> string" where
  "adapterLoopState_String adapterLoopRunning = ''running''"
| "adapterLoopState_String adapterLoopStopping = ''stopping''"
| "adapterLoopState_String adapterLoopStopped = ''stopped''"

definition updateLoopState ::
  "adapterLoopState \<Rightarrow> adapterLoopState \<Rightarrow> loopStateTransition \<times> adapterLoopState" where
  "updateLoopState state nxt =
     (if state = nxt then (\<lparr>lt_from = state, lt_to = nxt, lt_changed = False\<rparr>, state)
      else (\<lparr>lt_from = state, lt_to = nxt, lt_changed = True\<rparr>, nxt))"

definition signalStructChan :: "bool option \<Rightarrow> bool option" where
  "signalStructChan ch = (case ch of None \<Rightarrow> None | Some _ \<Rightarrow> Some True)"

record lifecycle =
  lc_initialized :: bool
  lc_enabled :: bool
  lc_connected :: bool
  lc_loopState :: adapterLoopState
  lc_stopChan :: "nat option"
  lc_workSignal :: "bool option"
  lc_reconnect :: "bool option"
  lc_client :: "bool option"
  lc_nextChan :: nat
  lc_closed :: "nat list"
  lc_loops :: "nat list"

text \<open>\<open>lc_client\<close>: nil, or a client with its answer to \<open>IsConnected\<close>.\<close>

section \<open>Reconnection\<close>

definition defaultReconnectInterval :: duration where "defaultReconnectInterval = 5 * Second"
definition defaultPandaXReconnectInterval :: duration where "defaultPandaXReconnectInterval = 5 * Second"
definition maxPandaXReconnectInterval :: duration where "maxPandaXReconnectInterval = 5 * Minute"

definition normalizeReconnectInterval :: "duration \<Rightarrow> duration" where
  "normalizeReconnectInterval interval = (if interval \<le> 0 then defaultReconnectInterval else interval)"

definition normalizePandaXReconnectInterval :: "duration \<Rightarrow> duration" where
  "normalizePandaXReconnectInterval interval =
     (if interval \<le> 0 then defaultPandaXReconnectInterval
      else if interval > maxPandaXReconnectInterval then maxPandaXReconnectInterval
      else interval)"

definition signalReconnect :: "lifecycle \<Rightarrow> lifecycle" where
  "signalReconnect l = l\<lparr>lc_reconnect := signalStructChan (lc_reconnect l)\<rparr>"

definition markDisconnected :: "lifecycle \<Rightarrow> lifecycle" where
  "markDisconnected l =
     (let l = l\<lparr>lc_connected := False\<rparr> in if lc_enabled l then signalReconnect l else l)"

definition shouldReconnect :: "lifecycle \<Rightarrow> bool" where
  "shouldReconnect l =
     (if \<not> lc_initialized l \<or> \<not> lc_enabled l then False
      else case lc_client l of None \<Rightarrow> False | Some up \<Rightarrow> \<not> up)"

definition isConnected :: "lifecycle \<Rightarrow> bool" where
  "isConnected l \<longleftrightarrow> lc_connected l \<and> lc_client l = Some True"

text \<open>The back-off: doubled per failure up to the maximum.\<close>

fun backoffLoop :: "nat \<Rightarrow> duration \<Rightarrow> duration" where
  "backoffLoop 0 delay = (if delay > maxPandaXReconnectInterval then maxPandaXReconnectInterval else delay)"
| "backoffLoop (Suc n) delay =
     (if delay \<ge> maxPandaXReconnectInterval div 2 then maxPandaXReconnectInterval
      else backoffLoop n (delay * 2))"

definition pandaXReconnectDelay :: "duration \<Rightarrow> int \<Rightarrow> duration" where
  "pandaXReconnectDelay base failures =
     (let base = (if base \<le> 0 then defaultPandaXReconnectInterval else base);
          base = (if base > maxPandaXReconnectInterval then maxPandaXReconnectInterval else base)
      in if failures \<le> 0 then base else backoffLoop (nat (failures - 1)) base)"

section \<open>The reconnect timer\<close>

text \<open>A \<open>time.Timer\<close>: when it is due, if it is running, and whether its channel holds a tick.
  \<open>timer.Stop\<close> reports whether it was running.\<close>

record timer =
  tm_deadline :: "gotime option"
  tm_tick :: bool

record reconnectScheduler =
  rs_timer :: "timer option"
  rs_ch :: bool

definition timerHalt :: "timer \<Rightarrow> timer" where
  "timerHalt t = (if tm_deadline t \<noteq> None then t\<lparr>tm_deadline := None\<rparr> else t\<lparr>tm_tick := False\<rparr>)"

definition rs_Schedule :: "gotime \<Rightarrow> duration \<Rightarrow> reconnectScheduler \<Rightarrow> reconnectScheduler" where
  "rs_Schedule now delay s =
     (case rs_timer s of
        None \<Rightarrow> s\<lparr>rs_timer := Some \<lparr>tm_deadline = Some (now + delay), tm_tick = False\<rparr>, rs_ch := True\<rparr>
      | Some t \<Rightarrow> s\<lparr>rs_timer := Some ((timerHalt t)\<lparr>tm_deadline := Some (now + delay)\<rparr>), rs_ch := True\<rparr>)"

definition rs_Stop :: "reconnectScheduler \<Rightarrow> reconnectScheduler" where
  "rs_Stop s =
     (case rs_timer s of
        None \<Rightarrow> s\<lparr>rs_ch := False\<rparr>
      | Some t \<Rightarrow> s\<lparr>rs_timer := Some (timerHalt t), rs_ch := False\<rparr>)"

definition rs_Close :: "reconnectScheduler \<Rightarrow> reconnectScheduler" where
  "rs_Close s = (rs_Stop s)\<lparr>rs_timer := None\<rparr>"

text \<open>The runtime fires a due timer; the loop receives from \<open>Channel()\<close>.\<close>

definition rs_fire :: "gotime \<Rightarrow> reconnectScheduler \<Rightarrow> reconnectScheduler" where
  "rs_fire now s =
     (case rs_timer s of
        None \<Rightarrow> s
      | Some t \<Rightarrow> (case tm_deadline t of
                    Some d \<Rightarrow> if d \<le> now then s\<lparr>rs_timer := Some \<lparr>tm_deadline = None, tm_tick = True\<rparr>\<rparr> else s
                  | None \<Rightarrow> s))"

definition rs_ready :: "reconnectScheduler \<Rightarrow> bool" where
  "rs_ready s = (rs_ch s \<and> (case rs_timer s of None \<Rightarrow> False | Some t \<Rightarrow> tm_tick t))"

definition rs_receive :: "reconnectScheduler \<Rightarrow> reconnectScheduler" where
  "rs_receive s = s\<lparr>rs_timer := map_option (\<lambda>t. t\<lparr>tm_tick := False\<rparr>) (rs_timer s)\<rparr>"

section \<open>The flush and reconnect loop\<close>

datatype loopSignal = StopSignal | DataSignal | DataTick | AlarmTick | ReconnectSignal | TimerSignal

datatype loopEffect = FlushData | FlushAlarm | ReconnectOnce

text \<open>One iteration of \<open>executeMQTTFlushReconnectLoop\<close>: what it calls, whether the loop goes on.
  \<open>should\<close> is the answer of \<open>shouldReconnect\<close>, \<open>okay\<close> that of \<open>reconnectOnce\<close>.\<close>

definition mqttLoopIteration ::
  "gotime \<Rightarrow> bool \<Rightarrow> bool \<Rightarrow> duration \<Rightarrow> loopSignal \<Rightarrow> reconnectScheduler \<Rightarrow>
   loopEffect list \<times> bool \<times> reconnectScheduler" where
  "mqttLoopIteration now should okay delay signal s =
     (case signal of
        StopSignal \<Rightarrow> ([FlushData, FlushAlarm], False, rs_Close (rs_Stop s))
      | DataSignal \<Rightarrow> ([FlushData, FlushAlarm], True, s)
      | DataTick \<Rightarrow> ([FlushData], True, s)
      | AlarmTick \<Rightarrow> ([FlushAlarm], True, s)
      | ReconnectSignal \<Rightarrow> ([], True, rs_Schedule now 0 s)
      | TimerSignal \<Rightarrow>
          let s = rs_receive s in
          if \<not> should then ([], True, rs_Stop s)
          else if \<not> okay then ([ReconnectOnce], True, rs_Schedule now delay s)
          else ([ReconnectOnce], True, rs_Stop s))"

section \<open>Start, stop, close\<close>

definition makeChan :: "lifecycle \<Rightarrow> lifecycle" where
  "makeChan l = l\<lparr>lc_stopChan := Some (lc_nextChan l), lc_nextChan := Suc (lc_nextChan l)\<rparr>"

text \<open>\<open>hasReconnect\<close>: whether the adapter passes a reconnect channel and a \<open>signalReconnect\<close>.\<close>

definition lifecycle_start :: "bool \<Rightarrow> lifecycle \<Rightarrow> lifecycle" where
  "lifecycle_start hasReconnect l =
     (if lc_initialized l \<and> \<not> lc_enabled l \<and> lc_loopState l = adapterLoopStopped
      then let l = (if lc_stopChan l = None then makeChan l else l);
               l = (if lc_workSignal l = None then l\<lparr>lc_workSignal := Some False\<rparr> else l);
               l = (if hasReconnect \<and> lc_reconnect l = None then l\<lparr>lc_reconnect := Some False\<rparr> else l);
               l = l\<lparr>lc_enabled := True, lc_loopState := snd (updateLoopState (lc_loopState l) adapterLoopRunning)\<rparr>;
               needReconnect = (\<not> lc_connected l);
               l = l\<lparr>lc_loops := the (lc_stopChan l) # lc_loops l\<rparr>
           in if needReconnect \<and> hasReconnect then signalReconnect l else l
      else l)"

text \<open>The first locked section of \<open>stop\<close>; closing a closed channel panics: \<open>None\<close>.\<close>

definition lifecycle_stopBegin :: "lifecycle \<Rightarrow> lifecycle option" where
  "lifecycle_stopBegin l =
     (if lc_enabled l
      then let l = l\<lparr>lc_enabled := False,
                     lc_loopState := snd (updateLoopState (lc_loopState l) adapterLoopStopping)\<rparr>
           in case lc_stopChan l of
                None \<Rightarrow> Some l
              | Some ch \<Rightarrow> if ch \<in> set (lc_closed l) then None else Some (l\<lparr>lc_closed := ch # lc_closed l\<rparr>)
      else Some l)"

text \<open>The end of a loop goroutine whose stop channel is closed.\<close>

definition loopsExit :: "lifecycle \<Rightarrow> lifecycle" where
  "loopsExit l =
     (let live = filter (\<lambda>ch. ch \<notin> set (lc_closed l)) (lc_loops l)
      in if length live < length (lc_loops l)
         then l\<lparr>lc_loops := live, lc_loopState := snd (updateLoopState (lc_loopState l) adapterLoopStopped)\<rparr>
         else l)"

definition lifecycle_stopEnd :: "nat option \<Rightarrow> lifecycle \<Rightarrow> lifecycle" where
  "lifecycle_stopEnd stopChan l =
     (if stopChan \<noteq> None
      then let l = (if lc_stopChan l = stopChan then l\<lparr>lc_stopChan := None\<rparr> else l)
           in l\<lparr>lc_loopState := snd (updateLoopState (lc_loopState l) adapterLoopStopped)\<rparr>
      else l)"

text \<open>\<open>None\<close> also when the wait for the loops would never end.\<close>

definition lifecycle_stop :: "lifecycle \<Rightarrow> lifecycle option" where
  "lifecycle_stop l =
     (case lifecycle_stopBegin l of
        None \<Rightarrow> None
      | Some l' \<Rightarrow>
          let l'' = loopsExit l'
          in if lc_loops l'' \<noteq> [] then None else Some (lifecycle_stopEnd (lc_stopChan l) l''))"

text \<open>The locked section of \<open>close\<close> after the final flushes.\<close>

definition lifecycle_closeEnd :: "bool \<Rightarrow> lifecycle \<Rightarrow> lifecycle" where
  "lifecycle_closeEnd hasReconnect l =
     l\<lparr>lc_initialized := False, lc_connected := False, lc_enabled := False,
       lc_loopState := snd (updateLoopState (lc_loopState l) adapterLoopStopped),
       lc_client := None, lc_stopChan := None, lc_workSignal := None,
       lc_reconnect := (if hasReconnect then None else lc_reconnect l)\<rparr>"

text \<open>\<open>applyConfig\<close> of an adapter, as far as the life cycle is concerned; the Sagoo and iThings
  adapters make new channels.\<close>

definition lifecycle_configured :: "bool \<Rightarrow> lifecycle \<Rightarrow> lifecycle" where
  "lifecycle_configured remake l =
     (if remake then (makeChan l)\<lparr>lc_workSignal := Some False\<rparr> else l)
       \<lparr>lc_client := Some True, lc_initialized := True, lc_connected := True,
        lc_loopState := adapterLoopStopped\<rparr>"

section \<open>Draining the alarms\<close>

text \<open>The loop of \<open>drainAlarmQueueOnStop\<close>: flush until an error or until the queue is empty.
  \<open>flush\<close> returns what was confirmed, the messages and whether it failed; \<open>outs\<close> gives the broker's
  answers to each flush; \<open>alarmQueueEmpty\<close> may be nil. The fuel bounds the number of flushes: \<open>None\<close> is
  a loop that has not returned by then. The flag of the result is the error.\<close>

fun drainAlarmQueueOnStop ::
  "nat \<Rightarrow> ('o \<Rightarrow> 's \<Rightarrow> 'a list \<times> 'm list \<times> bool \<times> 's) \<Rightarrow> ('s \<Rightarrow> bool) option \<Rightarrow> (nat \<Rightarrow> 'o) \<Rightarrow> 's \<Rightarrow>
   ('m list \<times> bool \<times> 's) option" where
  "drainAlarmQueueOnStop 0 flush alarmQueueEmpty outs s = None"
| "drainAlarmQueueOnStop (Suc fuel) flush alarmQueueEmpty outs s =
     (let (sent, ms, err, s) = flush (outs 0) s
      in if err then Some (ms, True, s)
         else if (case alarmQueueEmpty of None \<Rightarrow> True | Some isEmpty \<Rightarrow> isEmpty s) then Some (ms, False, s)
         else case drainAlarmQueueOnStop fuel flush alarmQueueEmpty (\<lambda>i. outs (Suc i)) s of
                None \<Rightarrow> None
              | Some (ms', err, s) \<Rightarrow> Some (ms @ ms', err, s))"

section \<open>Lemmas\<close>

lemma updateLoopState_snd [simp]: "snd (updateLoopState s t) = t"
  by (simp add: updateLoopState_def)

text \<open>The states between the manager's calls.\<close>

definition lifeOK :: "lifecycle \<Rightarrow> bool" where
  "lifeOK l \<longleftrightarrow>
     (\<forall>ch. lc_stopChan l = Some ch \<longrightarrow> ch < lc_nextChan l \<and> ch \<notin> set (lc_closed l)) \<and>
     (\<forall>ch\<in>set (lc_closed l). ch < lc_nextChan l) \<and>
     (if lc_enabled l
      then lc_initialized l \<and> lc_loopState l = adapterLoopRunning \<and>
           (\<exists>ch. lc_stopChan l = Some ch \<and> lc_loops l = [ch])
      else lc_loopState l = adapterLoopStopped \<and> lc_loops l = [])"

lemma start_ok: "lifeOK l \<Longrightarrow> lifeOK (lifecycle_start rc l)"
  by (auto simp: lifeOK_def lifecycle_start_def makeChan_def signalReconnect_def Let_def split: if_splits)

lemma stop_ok:
  assumes "lifeOK l"
  shows "\<exists>l'. lifecycle_stop l = Some l' \<and> lifeOK l' \<and> \<not> lc_enabled l' \<and> lc_loops l' = [] \<and>
    lc_loopState l' = adapterLoopStopped \<and> lc_initialized l' = lc_initialized l \<and> lc_client l' = lc_client l"
proof (cases "lc_enabled l")
  case True
  with assms obtain ch where "lc_stopChan l = Some ch" "lc_loops l = [ch]" "ch < lc_nextChan l"
    "ch \<notin> set (lc_closed l)" "\<forall>c\<in>set (lc_closed l). c < lc_nextChan l" by (auto simp: lifeOK_def)
  with True show ?thesis
    by (simp add: lifecycle_stop_def lifecycle_stopBegin_def loopsExit_def lifecycle_stopEnd_def lifeOK_def Let_def)
next
  case False
  with assms show ?thesis
    by (auto simp: lifecycle_stop_def lifecycle_stopBegin_def loopsExit_def lifecycle_stopEnd_def lifeOK_def Let_def)
qed

lemma close_ok: "lifeOK l \<Longrightarrow> \<not> lc_enabled l \<Longrightarrow> lifeOK (lifecycle_closeEnd rc l)"
  by (auto simp: lifeOK_def lifecycle_closeEnd_def)

lemma configured_ok: "lifeOK l \<Longrightarrow> \<not> lc_enabled l \<Longrightarrow> lifeOK (lifecycle_configured remake l)"
  by (auto simp: lifeOK_def lifecycle_configured_def makeChan_def)

section \<open>Sequences of calls\<close>

datatype lifeCall = CallStart | CallStop | CallClose | CallConfigure bool

text \<open>Configuring (\<open>Initialize\<close>) happens to an adapter that is not running: the code closes it first,
  or has just made it.\<close>

fun lifeStep :: "bool \<Rightarrow> lifeCall \<Rightarrow> lifecycle \<Rightarrow> lifecycle option" where
  "lifeStep rc CallStart l = Some (lifecycle_start rc l)"
| "lifeStep rc CallStop l = lifecycle_stop l"
| "lifeStep rc CallClose l = map_option (lifecycle_closeEnd rc) (lifecycle_stop l)"
| "lifeStep rc (CallConfigure remake) l =
     map_option (\<lambda>l. lifecycle_configured remake (lifecycle_closeEnd rc l)) (lifecycle_stop l)"

fun lifeRun :: "bool \<Rightarrow> lifeCall list \<Rightarrow> lifecycle \<Rightarrow> lifecycle option" where
  "lifeRun rc [] l = Some l"
| "lifeRun rc (c # cs) l = (case lifeStep rc c l of None \<Rightarrow> None | Some l \<Rightarrow> lifeRun rc cs l)"

lemma lifeStep_ok: "lifeOK l \<Longrightarrow> \<exists>l'. lifeStep rc c l = Some l' \<and> lifeOK l'"
proof (cases c)
  case (CallConfigure remake)
  assume "lifeOK l"
  then obtain l' where "lifecycle_stop l = Some l'" "lifeOK l'" "\<not> lc_enabled l'" using stop_ok by blast
  moreover from this have "lifeOK (lifecycle_configured remake (lifecycle_closeEnd rc l'))"
    using configured_ok[OF close_ok] by (simp add: lifecycle_closeEnd_def)
  ultimately show ?thesis by (simp add: CallConfigure)
next
  case CallClose
  assume "lifeOK l"
  then obtain l' where "lifecycle_stop l = Some l'" "lifeOK l'" "\<not> lc_enabled l'" using stop_ok by blast
  with close_ok show ?thesis by (simp add: CallClose)
qed (auto dest: stop_ok start_ok)

lemma lifeRun_ok: "lifeOK l \<Longrightarrow> \<exists>l'. lifeRun rc cs l = Some l' \<and> lifeOK l'"
proof (induction cs arbitrary: l)
  case (Cons c cs)
  then obtain l1 where "lifeStep rc c l = Some l1" "lifeOK l1" using lifeStep_ok by blast
  with Cons.IH show ?case by simp
qed simp

text \<open>C9: The life cycle of an adapter under the manager's calls. Any sequence of start, stop, close
  and configure runs through: no stop channel is closed twice and every wait for the loop
  ends. Afterwards at most one loop runs, it runs exactly when the adapter is enabled, its
  state is then "running" and otherwise "stopped", and its stop channel is open. A start from a
  configured, stopped adapter leaves it running.\<close>
theorem lifecycle_calls_run_through:
  assumes "lifeOK l"
  shows "\<exists>l'. lifeRun rc cs l = Some l' \<and> length (lc_loops l') \<le> 1 \<and>
    (lc_enabled l' \<longleftrightarrow> lc_loops l' \<noteq> []) \<and>
    lc_loopState l' = (if lc_enabled l' then adapterLoopRunning else adapterLoopStopped) \<and>
    (\<forall>ch\<in>set (lc_loops l'). lc_stopChan l' = Some ch \<and> ch \<notin> set (lc_closed l')) \<and>
    (lc_initialized l' \<longrightarrow> lc_enabled (lifecycle_start rc l'))"
proof -
  obtain l' where l': "lifeRun rc cs l = Some l'" "lifeOK l'" using lifeRun_ok[OF assms] by blast
  moreover have "lc_initialized l' \<longrightarrow> lc_enabled (lifecycle_start rc l')"
  proof (cases "lc_enabled l'")
    case True
    then show ?thesis by (simp add: lifecycle_start_def)
  next
    case False
    with l'(2) have "lc_loopState l' = adapterLoopStopped" by (simp add: lifeOK_def)
    with False show ?thesis by (simp add: lifecycle_start_def signalReconnect_def Let_def)
  qed
  ultimately show ?thesis by (auto simp: lifeOK_def split: if_splits)
qed

definition freshLife :: lifecycle where
  "freshLife = \<lparr>lc_initialized = False, lc_enabled = False, lc_connected = False, lc_loopState = adapterLoopStopped,
     lc_stopChan = Some 0, lc_workSignal = Some False, lc_reconnect = Some False, lc_client = None,
     lc_nextChan = 1, lc_closed = [], lc_loops = []\<rparr>"

theorem lifecycle_calls_run_through_witness:
  "\<exists>l'. lifeRun True [CallConfigure False, CallStart, CallStop, CallStart, CallClose] freshLife = Some l' \<and> length (lc_loops l') \<le> 1"
proof -
  have "lifeOK freshLife" by (simp add: lifeOK_def freshLife_def)
  from lifecycle_calls_run_through[OF this] show ?thesis by blast
qed

section \<open>Reconnecting\<close>

lemma backoffLoop_eq:
  "0 < d \<Longrightarrow> d \<le> maxPandaXReconnectInterval \<Longrightarrow> backoffLoop n d = min maxPandaXReconnectInterval (d * 2 ^ n)"
proof (induction n arbitrary: d)
  case (Suc n)
  show ?case
  proof (cases "d \<ge> maxPandaXReconnectInterval div 2")
    case True
    have "maxPandaXReconnectInterval \<le> d * 2" using True by (simp add: maxPandaXReconnectInterval_def)
    also have "\<dots> \<le> d * 2 * 2 ^ n" using Suc.prems mult_left_mono[of 1 "2 ^ n" "d * 2"] by simp
    finally show ?thesis using True by (simp add: mult.assoc)
  next
    case False
    then have "d * 2 \<le> maxPandaXReconnectInterval" by (simp add: maxPandaXReconnectInterval_def)
    with Suc False show ?thesis by (simp add: mult.assoc)
  qed
qed simp

text \<open>The back-off of the PandaX adapter: for any base and any number of failures the delay is
  the base (5 s if not positive, at most 5 minutes), doubled for each failure after the first,
  capped at 5 minutes: it never overflows and is always positive.\<close>
theorem pandax_backoff_closed_form:
  "pandaXReconnectDelay base failures =
     min (5 * Minute) ((if base \<le> 0 then 5 * Second else min base (5 * Minute)) * 2 ^ nat (failures - 1)) \<and>
   0 < pandaXReconnectDelay base failures \<and> in_int64 (pandaXReconnectDelay base failures)"
proof -
  define b where "b = (if base \<le> 0 then 5 * Second else min base (5 * Minute))"
  have b: "0 < b" "b \<le> maxPandaXReconnectInterval" by (auto simp: b_def maxPandaXReconnectInterval_def)
  have "pandaXReconnectDelay base failures = (if failures \<le> 0 then b else backoffLoop (nat (failures - 1)) b)"
    by (auto simp: pandaXReconnectDelay_def b_def defaultPandaXReconnectInterval_def maxPandaXReconnectInterval_def Let_def)
  also have "\<dots> = min (5 * Minute) (b * 2 ^ nat (failures - 1))"
    using b by (auto simp: backoffLoop_eq maxPandaXReconnectInterval_def)
  finally have eq: "pandaXReconnectDelay base failures = min (5 * Minute) (b * 2 ^ nat (failures - 1))" .
  moreover have "0 < b * 2 ^ nat (failures - 1)" using b(1) by simp
  ultimately have pos: "0 < pandaXReconnectDelay base failures"
    and "pandaXReconnectDelay base failures \<le> 5 * Minute" by auto
  then have "in_int64 (pandaXReconnectDelay base failures)"
    by (simp add: in_int64_def minInt64_def maxInt64_def)
  with eq pos show ?thesis unfolding b_def by blast
qed

lemma fire_early:
  "rs_timer s = Some \<lparr>tm_deadline = Some d, tm_tick = False\<rparr> \<Longrightarrow> (\<forall>t\<in>set ts. t < d) \<Longrightarrow> fold rs_fire ts s = s"
  by (induction ts) (simp_all add: rs_fire_def)

lemma fire_dead:
  "\<not> rs_ch s \<Longrightarrow> \<not> rs_ready (fold rs_fire ts s)"
proof (induction ts arbitrary: s)
  case (Cons t ts)
  then have "\<not> rs_ch (rs_fire t s)" by (simp add: rs_fire_def split: option.splits)
  with Cons.IH show ?case by simp
qed (simp add: rs_ready_def)

text \<open>The timers the loop can meet: a running one has no tick waiting.\<close>

definition timerOK :: "reconnectScheduler \<Rightarrow> bool" where
  "timerOK s \<longleftrightarrow> (\<forall>t. rs_timer s = Some t \<longrightarrow> tm_deadline t = None \<or> \<not> tm_tick t)"

text \<open>C32: The reconnect timer never fires early and a failed attempt is always followed by another.
  Whatever the timer did before (running, expired with its tick still unread), once an attempt
  is scheduled the loop sees no signal before the delay is over and sees one then; after a stop
  it sees none; and in the loop a failed reconnect schedules the next attempt.\<close>
theorem reconnect_timer_exact:
  assumes "timerOK s"
  shows "((\<forall>t\<in>set ts. t < now + delay) \<longrightarrow> \<not> rs_ready (fold rs_fire ts (rs_Schedule now delay s))) \<and>
    (now + delay \<le> t \<longrightarrow> rs_ready (rs_fire t (rs_Schedule now delay s))) \<and>
    \<not> rs_ready (fold rs_fire ts (rs_Stop s)) \<and>
    timerOK (rs_Schedule now delay s) \<and> timerOK (rs_Stop s) \<and> timerOK (rs_fire t s) \<and>
    (\<exists>s'. mqttLoopIteration now True False delay TimerSignal s = ([ReconnectOnce], True, s') \<and>
       rs_ready (rs_fire (now + delay) s'))"
proof -
  have sch: "rs_timer (rs_Schedule now delay u) = Some \<lparr>tm_deadline = Some (now + delay), tm_tick = False\<rparr> \<and> rs_ch (rs_Schedule now delay u)"
    if "timerOK u" for u
    using that by (auto simp: rs_Schedule_def timerHalt_def timerOK_def split: option.splits)
  have early: "\<not> rs_ready (fold rs_fire ts (rs_Schedule now delay s))" if "\<forall>t\<in>set ts. t < now + delay"
    using fire_early[OF conjunct1[OF sch[OF assms]] that] sch[OF assms] by (simp add: rs_ready_def)
  have due: "rs_ready (rs_fire t (rs_Schedule now delay u))" if "timerOK u" "now + delay \<le> t" for u t
    using sch[OF that(1)] that(2) by (simp add: rs_fire_def rs_ready_def)
  have dead: "\<not> rs_ready (fold rs_fire ts (rs_Stop s))"
    by (rule fire_dead) (simp add: rs_Stop_def split: option.splits)
  have oks: "timerOK (rs_Schedule now delay s)" "timerOK (rs_Stop s)" "timerOK (rs_fire t s)" "timerOK (rs_receive s)"
    using sch[OF assms] assms by (auto simp: timerOK_def rs_Stop_def timerHalt_def rs_fire_def rs_receive_def split: option.splits)
  have "mqttLoopIteration now True False delay TimerSignal s = ([ReconnectOnce], True, rs_Schedule now delay (rs_receive s))"
    by (simp add: mqttLoopIteration_def)
  with due[OF oks(4)] early due[OF assms] dead oks show ?thesis by simp
qed

theorem reconnect_timer_exact_witness:
  "\<not> rs_ready (fold rs_fire [3, 9] (rs_Schedule 5 (10::int) \<lparr>rs_timer = Some \<lparr>tm_deadline = None, tm_tick = True\<rparr>, rs_ch = True\<rparr>))"
  using reconnect_timer_exact[of "\<lparr>rs_timer = Some \<lparr>tm_deadline = None, tm_tick = True\<rparr>, rs_ch = True\<rparr>" "[3, 9]" 5 10]
  by (simp add: timerOK_def)

end
