(* ===== verification/Adapters.thy ===== *)
theory Adapters
  imports Outbox Adapter_Life Collect
begin

text \<open>
  The five northbound adapters (\<open>mqtt_*.go\<close>, \<open>xunji_*.go\<close>, \<open>sagoo_*.go\<close>, \<open>pandax_*.go\<close>,
  \<open>ithings_*.go\<close>): their buffers of samples and alarms, the messages they build, publishing
  with its error branches, flushing, requeueing and closing.

  The MQTT client library is outside: one call of \<open>publish\<close> gets a \<open>pubOutcome\<close>, the answers
  of \<open>Connect\<close> and \<open>Publish\<close>. \<open>encoding/json\<close> turns the message records into text; the records
  are modelled, the text is not. A flush has two critical sections; \<open>meanwhile\<close> are the
  items that other goroutines send between them.
\<close>

section \<open>Shared pieces\<close>

definition pickFirstNonEmpty :: "string list \<Rightarrow> string" where
  "pickFirstNonEmpty values =
     (case filter (\<lambda>v. TrimSpace v \<noteq> []) values of [] \<Rightarrow> [] | v # _ \<Rightarrow> TrimSpace v)"

definition defaultDeviceToken :: "int \<Rightarrow> string" where
  "defaultDeviceToken deviceID = ''device_'' @ FormatInt deviceID"

definition nextPrefixedID :: "gotime \<Rightarrow> string \<Rightarrow> nat \<Rightarrow> string \<times> nat" where
  "nextPrefixedID now prefx seq =
     (let n = (seq + 1) mod 2 ^ 64
      in (prefx @ ''_'' @ FormatInt (UnixMilli now) @ ''_'' @ FormatUint n, n))"

text \<open>The three naming modes that Xunji and PandaX share.\<close>

definition subTokenByMode :: "golib \<Rightarrow> string \<Rightarrow> string \<Rightarrow> string \<Rightarrow> string \<Rightarrow> int \<Rightarrow> string" where
  "subTokenByMode L mode pk name dk deviceID =
     (let m = ToLower (uniLower L) (TrimSpace mode);
          first = (if m \<in> {''devicekey'', ''device_key''} then dk
                   else if m \<in> {''product_devicekey'', ''product_device_key''}
                        then (if pk \<noteq> [] \<and> dk \<noteq> [] then pk @ ''_'' @ dk else [])
                   else if m \<in> {''product_devicename'', ''product_device_name''}
                        then (if pk \<noteq> [] \<and> name \<noteq> [] then pk @ ''_'' @ name else [])
                   else name)
      in if first \<noteq> [] then first
         else if dk \<noteq> [] then dk
         else if name \<noteq> [] then name
         else defaultDeviceToken deviceID)"

datatype pubResult = PubOK | PubTimeout | PubError
datatype connResult = ConnOK | ConnTimeout | ConnError

record pubOutcome =
  po_connect :: connResult
  po_publish :: pubResult

text \<open>The loop of every item-wise flush: build the message, publish it, stop at the first error.
  It returns the confirmed items and their messages.\<close>

fun publishItems ::
  "('a \<Rightarrow> 's \<Rightarrow> 'm option \<times> 's) \<Rightarrow> (pubOutcome \<Rightarrow> 's \<Rightarrow> bool \<times> 's) \<Rightarrow> (nat \<Rightarrow> pubOutcome) \<Rightarrow>
   'a list \<Rightarrow> 's \<Rightarrow> 'a list \<times> 'm list \<times> 's" where
  "publishItems build pub outs [] s = ([], [], s)"
| "publishItems build pub outs (x # xs) s =
     (case build x s of
        (None, s) \<Rightarrow> ([], [], s)
      | (Some m, s) \<Rightarrow>
          (case pub (outs 0) s of
             (False, s) \<Rightarrow> ([], [], s)
           | (True, s) \<Rightarrow>
               let (sent, ms, s) = publishItems build pub (\<lambda>i. outs (Suc i)) xs s
               in (x # sent, m # ms, s)))"

section \<open>MQTT\<close>

definition mqttPendingDataCap :: int where "mqttPendingDataCap = 1000"
definition mqttPendingAlarmCap :: int where "mqttPendingAlarmCap = 100"

record MQTTAdapter =
  mq_life :: lifecycle
  mq_topic :: string
  mq_alarmTopic :: string
  mq_pendingData :: "CollectData list"
  mq_pendingAlarms :: "AlarmPayload list"
  mq_lastSend :: gotime
  mq_interval :: duration

record mqttDataMessage =
  md_topic :: string
  md_device_name :: string
  md_device_id :: int
  md_timestamp :: int
  md_fields :: fieldMap

record mqttAlarmMessage =
  ma_topic :: string
  ma_device_id :: int
  ma_device_name :: string
  ma_field_name :: string
  ma_actual_value :: float64
  ma_threshold :: float64
  ma_operator :: string
  ma_severity :: string
  ma_message :: string
  ma_timestamp :: int

definition mqtt_Send :: "CollectData option \<Rightarrow> MQTTAdapter \<Rightarrow> MQTTAdapter" where
  "mqtt_Send data a =
     (case data of
        None \<Rightarrow> a
      | Some d \<Rightarrow>
          let a = a\<lparr>mq_pendingData := appendQueueItemWithCap (mq_pendingData a) d mqttPendingDataCap\<rparr>
          in a\<lparr>mq_life := (mq_life a)\<lparr>lc_workSignal := signalStructChan (lc_workSignal (mq_life a))\<rparr>\<rparr>)"

definition mqtt_SendAlarm :: "AlarmPayload option \<Rightarrow> MQTTAdapter \<Rightarrow> MQTTAdapter" where
  "mqtt_SendAlarm alarm a =
     (case alarm of
        None \<Rightarrow> a
      | Some x \<Rightarrow>
          let a = a\<lparr>mq_pendingAlarms := appendQueueItemWithCap (mq_pendingAlarms a) x mqttPendingAlarmCap\<rparr>
          in a\<lparr>mq_life := (mq_life a)\<lparr>lc_workSignal := signalStructChan (lc_workSignal (mq_life a))\<rparr>\<rparr>)"

definition mqtt_dataMessage :: "string \<Rightarrow> CollectData \<Rightarrow> mqttDataMessage" where
  "mqtt_dataMessage topic data =
     \<lparr>md_topic = topic, md_device_name = cd_DeviceName data, md_device_id = cd_DeviceID data,
      md_timestamp = Unix (cd_Timestamp data), md_fields = cd_Fields data\<rparr>"

definition mqtt_alarmMessage :: "gotime \<Rightarrow> string \<Rightarrow> AlarmPayload \<Rightarrow> mqttAlarmMessage" where
  "mqtt_alarmMessage now topic alarm =
     \<lparr>ma_topic = topic, ma_device_id = ap_DeviceID alarm, ma_device_name = ap_DeviceName alarm,
      ma_field_name = ap_FieldName alarm, ma_actual_value = ap_ActualValue alarm,
      ma_threshold = ap_Threshold alarm, ma_operator = ap_Operator alarm,
      ma_severity = ap_Severity alarm, ma_message = ap_Message alarm, ma_timestamp = Unix now\<rparr>"

text \<open>The guards of \<open>publish\<close> and its branches after the client's answer.\<close>

definition lifecycle_publish :: "lifecycle \<Rightarrow> pubOutcome \<Rightarrow> bool \<times> lifecycle" where
  "lifecycle_publish l out =
     (if \<not> lc_initialized l \<or> \<not> lc_enabled l then (False, l)
      else if lc_client l \<noteq> Some True then (False, l)
      else case po_publish out of
             PubTimeout \<Rightarrow> (False, l)
           | PubError \<Rightarrow> (False, markDisconnected l)
           | PubOK \<Rightarrow> (True, l\<lparr>lc_connected := True\<rparr>))"

definition mqtt_publish :: "gotime \<Rightarrow> pubOutcome \<Rightarrow> MQTTAdapter \<Rightarrow> bool \<times> MQTTAdapter" where
  "mqtt_publish now out a =
     (let (ok, l) = lifecycle_publish (mq_life a) out; a = a\<lparr>mq_life := l\<rparr>
      in (ok, if ok then a\<lparr>mq_lastSend := now\<rparr> else a))"

text \<open>After a failed publication: requeue, and ask for a reconnect when the connection is gone.\<close>

definition mqtt_askReconnect :: "MQTTAdapter \<Rightarrow> MQTTAdapter" where
  "mqtt_askReconnect a =
     (if \<not> isConnected (mq_life a) then a\<lparr>mq_life := signalReconnect (mq_life a)\<rparr> else a)"

definition mqtt_flushPendingData ::
  "gotime \<Rightarrow> (nat \<Rightarrow> pubOutcome) \<Rightarrow> CollectData list \<Rightarrow> MQTTAdapter \<Rightarrow>
   CollectData list \<times> mqttDataMessage list \<times> MQTTAdapter" where
  "mqtt_flushPendingData now outs meanwhile a =
     (if mq_pendingData a = [] then ([], [], fold (\<lambda>d. mqtt_Send (Some d)) meanwhile a)
      else let batch = mq_pendingData a;
               (sent, ms, a) = publishItems (\<lambda>d a. (Some (mqtt_dataMessage (mq_topic a) d), a))
                                 (mqtt_publish now) outs batch (a\<lparr>mq_pendingData := []\<rparr>);
               a = fold (\<lambda>d. mqtt_Send (Some d)) meanwhile a;
               remaining = drop (length sent) batch
           in (sent, ms,
               if remaining = [] then a
               else mqtt_askReconnect
                      (a\<lparr>mq_pendingData := prependQueueWithCap (mq_pendingData a) remaining mqttPendingDataCap\<rparr>)))"

definition mqtt_flushAlarms ::
  "gotime \<Rightarrow> (nat \<Rightarrow> pubOutcome) \<Rightarrow> AlarmPayload list \<Rightarrow> MQTTAdapter \<Rightarrow>
   AlarmPayload list \<times> mqttAlarmMessage list \<times> MQTTAdapter" where
  "mqtt_flushAlarms now outs meanwhile a =
     (if mq_pendingAlarms a = [] then ([], [], fold (\<lambda>d. mqtt_SendAlarm (Some d)) meanwhile a)
      else let batch = mq_pendingAlarms a;
               (sent, ms, a) = publishItems (\<lambda>d a. (Some (mqtt_alarmMessage now (mq_alarmTopic a) d), a))
                                 (mqtt_publish now) outs batch (a\<lparr>mq_pendingAlarms := []\<rparr>);
               a = fold (\<lambda>d. mqtt_SendAlarm (Some d)) meanwhile a;
               remaining = drop (length sent) batch
           in (sent, ms,
               if remaining = [] then a
               else mqtt_askReconnect
                      (a\<lparr>mq_pendingAlarms := prependQueueWithCap (mq_pendingAlarms a) remaining mqttPendingAlarmCap\<rparr>)))"

text \<open>\<open>Stop\<close>: the running loop flushes once more when it sees the closed channel, and ends.
  \<open>None\<close> when closing panics or the wait never ends.\<close>

definition mqtt_Stop ::
  "gotime \<Rightarrow> (nat \<Rightarrow> pubOutcome) \<Rightarrow> (nat \<Rightarrow> pubOutcome) \<Rightarrow> MQTTAdapter \<Rightarrow>
   (mqttDataMessage list \<times> mqttAlarmMessage list \<times> MQTTAdapter) option" where
  "mqtt_Stop now dataOuts alarmOuts a =
     (case lifecycle_stopBegin (mq_life a) of
        None \<Rightarrow> None
      | Some l \<Rightarrow>
          let (ds, as, a') = (if lc_loops l \<noteq> []
                              then let (_, ds, a') = mqtt_flushPendingData now dataOuts [] (a\<lparr>mq_life := l\<rparr>);
                                       (_, as, a') = mqtt_flushAlarms now alarmOuts [] a'
                                   in (ds, as, a')
                              else ([], [], a\<lparr>mq_life := l\<rparr>));
              l = loopsExit (mq_life a')
          in if lc_loops l \<noteq> [] then None
             else Some (ds, as, a'\<lparr>mq_life := lifecycle_stopEnd (lc_stopChan (mq_life a)) l\<rparr>))"

definition mqtt_Close ::
  "gotime \<Rightarrow> (nat \<Rightarrow> pubOutcome) \<Rightarrow> (nat \<Rightarrow> pubOutcome) \<Rightarrow> (nat \<Rightarrow> pubOutcome) \<Rightarrow> (nat \<Rightarrow> pubOutcome) \<Rightarrow>
   MQTTAdapter \<Rightarrow> (mqttDataMessage list \<times> mqttAlarmMessage list \<times> MQTTAdapter) option" where
  "mqtt_Close now stopDataOuts stopAlarmOuts dataOuts alarmOuts a =
     (case mqtt_Stop now stopDataOuts stopAlarmOuts a of
        None \<Rightarrow> None
      | Some (ds, as, a) \<Rightarrow>
          let (_, ds', a) = mqtt_flushPendingData now dataOuts [] a;
              (_, as', a) = mqtt_flushAlarms now alarmOuts [] a
          in Some (ds @ ds', as @ as', a\<lparr>mq_life := lifecycle_closeEnd True (mq_life a)\<rparr>))"

section \<open>Xunji\<close>

definition xunjiPendingDataCap :: int where "xunjiPendingDataCap = 1000"
definition xunjiPendingAlarmCap :: int where "xunjiPendingAlarmCap = 100"

record XunjiAdapter =
  xj_life :: lifecycle
  xj_topic :: string
  xj_alarmTopic :: string
  xj_subDeviceTokenMode :: string
  xj_pendingData :: "CollectData list"
  xj_pendingAlarms :: "AlarmPayload list"
  xj_lastSend :: gotime
  xj_interval :: duration

record xunjiRealtimePayloadItem =
  xi_TS :: int
  xi_Values :: fieldMap

record xunjiAlarmMessage =
  xm_DeviceID :: int
  xm_DeviceName :: string
  xm_FieldName :: string
  xm_ActualValue :: float64
  xm_Threshold :: float64
  xm_Operator :: string
  xm_Severity :: string
  xm_Message :: string
  xm_Timestamp :: int

definition xunji_Send :: "CollectData option \<Rightarrow> XunjiAdapter \<Rightarrow> XunjiAdapter" where
  "xunji_Send data a =
     (case data of
        None \<Rightarrow> a
      | Some d \<Rightarrow>
          let a = a\<lparr>xj_pendingData := appendQueueItemWithCap (xj_pendingData a) d xunjiPendingDataCap\<rparr>
          in a\<lparr>xj_life := (xj_life a)\<lparr>lc_workSignal := signalStructChan (lc_workSignal (xj_life a))\<rparr>\<rparr>)"

definition xunji_SendAlarm :: "AlarmPayload option \<Rightarrow> XunjiAdapter \<Rightarrow> XunjiAdapter" where
  "xunji_SendAlarm alarm a =
     (case alarm of
        None \<Rightarrow> a
      | Some x \<Rightarrow>
          let a = a\<lparr>xj_pendingAlarms := appendQueueItemWithCap (xj_pendingAlarms a) x xunjiPendingAlarmCap\<rparr>
          in a\<lparr>xj_life := (xj_life a)\<lparr>lc_workSignal := signalStructChan (lc_workSignal (xj_life a))\<rparr>\<rparr>)"

definition buildXunjiSubToken :: "golib \<Rightarrow> CollectData \<Rightarrow> string \<Rightarrow> string" where
  "buildXunjiSubToken L data mode =
     subTokenByMode L mode (TrimSpace (cd_ProductKey data))
       (pickFirstNonEmpty [cd_DeviceName data, cd_DeviceKey data])
       (pickFirstNonEmpty [cd_DeviceKey data, cd_DeviceName data]) (cd_DeviceID data)"

definition positiveMillis :: "gotime \<Rightarrow> gotime \<Rightarrow> int" where
  "positiveMillis now t = (if UnixMilli t \<le> 0 then UnixMilli now else UnixMilli t)"

definition xunji_buildBatchRealtimePayload ::
  "golib \<Rightarrow> gotime \<Rightarrow> CollectData list \<Rightarrow> XunjiAdapter \<Rightarrow> (string \<times> xunjiRealtimePayloadItem) list" where
  "xunji_buildBatchRealtimePayload L now batch a =
     fold (\<lambda>data payload.
             AList.update (buildXunjiSubToken L data (xj_subDeviceTokenMode a))
               \<lparr>xi_TS = positiveMillis now (cd_Timestamp data), xi_Values = cd_Fields data\<rparr> payload)
          batch []"

definition xunji_buildAlarmMessage :: "gotime \<Rightarrow> AlarmPayload \<Rightarrow> xunjiAlarmMessage" where
  "xunji_buildAlarmMessage now alarm =
     \<lparr>xm_DeviceID = ap_DeviceID alarm, xm_DeviceName = ap_DeviceName alarm, xm_FieldName = ap_FieldName alarm,
      xm_ActualValue = ap_ActualValue alarm, xm_Threshold = ap_Threshold alarm,
      xm_Operator = ap_Operator alarm, xm_Severity = ap_Severity alarm, xm_Message = ap_Message alarm,
      xm_Timestamp = UnixMilli now\<rparr>"

definition xunji_publishBytes :: "gotime \<Rightarrow> pubOutcome \<Rightarrow> XunjiAdapter \<Rightarrow> bool \<times> XunjiAdapter" where
  "xunji_publishBytes now out a =
     (let (ok, l) = lifecycle_publish (xj_life a) out; a = a\<lparr>xj_life := l\<rparr>
      in (ok, if ok then a\<lparr>xj_lastSend := now\<rparr> else a))"

definition xunji_askReconnect :: "XunjiAdapter \<Rightarrow> XunjiAdapter" where
  "xunji_askReconnect a =
     (if \<not> isConnected (xj_life a) then a\<lparr>xj_life := signalReconnect (xj_life a)\<rparr> else a)"

text \<open>The whole batch is one message.\<close>

definition xunji_flushPendingData ::
  "golib \<Rightarrow> gotime \<Rightarrow> (nat \<Rightarrow> pubOutcome) \<Rightarrow> CollectData list \<Rightarrow> XunjiAdapter \<Rightarrow>
   CollectData list \<times> (string \<times> xunjiRealtimePayloadItem) list list \<times> XunjiAdapter" where
  "xunji_flushPendingData L now outs meanwhile a =
     (if xj_pendingData a = [] then ([], [], fold (\<lambda>d. xunji_Send (Some d)) meanwhile a)
      else let batch = xj_pendingData a; a = a\<lparr>xj_pendingData := []\<rparr>;
               body = xunji_buildBatchRealtimePayload L now batch a;
               (ok, a) = xunji_publishBytes now (outs 0) a;
               a = fold (\<lambda>d. xunji_Send (Some d)) meanwhile a
           in if ok then (batch, [body], a)
              else ([], [], xunji_askReconnect
                 (a\<lparr>xj_pendingData := prependQueueWithCap (xj_pendingData a) batch xunjiPendingDataCap\<rparr>)))"

definition xunji_flushAlarms ::
  "gotime \<Rightarrow> (nat \<Rightarrow> pubOutcome) \<Rightarrow> AlarmPayload list \<Rightarrow> XunjiAdapter \<Rightarrow>
   AlarmPayload list \<times> xunjiAlarmMessage list \<times> XunjiAdapter" where
  "xunji_flushAlarms now outs meanwhile a =
     (if xj_pendingAlarms a = [] then ([], [], fold (\<lambda>d. xunji_SendAlarm (Some d)) meanwhile a)
      else let batch = xj_pendingAlarms a;
               (sent, ms, a) = publishItems (\<lambda>d a. (Some (xunji_buildAlarmMessage now d), a))
                                 (xunji_publishBytes now) outs batch (a\<lparr>xj_pendingAlarms := []\<rparr>);
               a = fold (\<lambda>d. xunji_SendAlarm (Some d)) meanwhile a;
               remaining = drop (length sent) batch
           in (sent, ms,
               if remaining = [] then a
               else xunji_askReconnect
                      (a\<lparr>xj_pendingAlarms := prependQueueWithCap (xj_pendingAlarms a) remaining xunjiPendingAlarmCap\<rparr>)))"

definition xunji_Stop ::
  "golib \<Rightarrow> gotime \<Rightarrow> (nat \<Rightarrow> pubOutcome) \<Rightarrow> (nat \<Rightarrow> pubOutcome) \<Rightarrow> XunjiAdapter \<Rightarrow>
   ((string \<times> xunjiRealtimePayloadItem) list list \<times> xunjiAlarmMessage list \<times> XunjiAdapter) option" where
  "xunji_Stop L now dataOuts alarmOuts a =
     (case lifecycle_stopBegin (xj_life a) of
        None \<Rightarrow> None
      | Some l \<Rightarrow>
          let (ds, as, a') = (if lc_loops l \<noteq> []
                              then let (_, ds, a') = xunji_flushPendingData L now dataOuts [] (a\<lparr>xj_life := l\<rparr>);
                                       (_, as, a') = xunji_flushAlarms now alarmOuts [] a'
                                   in (ds, as, a')
                              else ([], [], a\<lparr>xj_life := l\<rparr>));
              l = loopsExit (xj_life a')
          in if lc_loops l \<noteq> [] then None
             else Some (ds, as, a'\<lparr>xj_life := lifecycle_stopEnd (lc_stopChan (xj_life a)) l\<rparr>))"

definition xunji_Close ::
  "golib \<Rightarrow> gotime \<Rightarrow> (nat \<Rightarrow> pubOutcome) \<Rightarrow> (nat \<Rightarrow> pubOutcome) \<Rightarrow> (nat \<Rightarrow> pubOutcome) \<Rightarrow> (nat \<Rightarrow> pubOutcome) \<Rightarrow>
   XunjiAdapter \<Rightarrow>
   ((string \<times> xunjiRealtimePayloadItem) list list \<times> xunjiAlarmMessage list \<times> XunjiAdapter) option" where
  "xunji_Close L now stopDataOuts stopAlarmOuts dataOuts alarmOuts a =
     (case xunji_Stop L now stopDataOuts stopAlarmOuts a of
        None \<Rightarrow> None
      | Some (ds, as, a) \<Rightarrow>
          let (_, ds', a) = xunji_flushPendingData L now dataOuts [] a;
              (_, as', a) = xunji_flushAlarms now alarmOuts [] a
          in Some (ds @ ds', as @ as', a\<lparr>xj_life := lifecycle_closeEnd True (xj_life a)\<rparr>))"

section \<open>Sagoo\<close>

text \<open>\<open>sg_config\<close> has the product key and device key of the configuration, or is nil. The batch size
  is 0 before the adapter is configured and positive afterwards (\<open>resolvePositive\<close>).\<close>

record SagooAdapter =
  sg_life :: lifecycle
  sg_config :: "(string \<times> string) option"
  sg_topic :: string
  sg_alarmTopic :: string
  sg_alarmBatch :: int
  sg_alarmCap :: int
  sg_realtimeCap :: int
  sg_commandCap :: int
  sg_latestData :: "CollectData list"
  sg_alarmQueue :: "AlarmPayload list"
  sg_commandQueue :: "NorthboundCommand list"
  sg_seq :: nat
  sg_reportEvery :: duration

record sagooIdentityPayload =
  sp_ProductKey :: string
  sp_DeviceKey :: string

record sagooRealtimeMessage =
  sr_topic :: string
  sr_ID :: string
  sr_Version :: string
  sr_Ack :: int
  sr_Method :: string
  sr_SubDevices :: "(sagooIdentityPayload \<times> fieldMap) list"

record sagooAlarmValue =
  sv_FieldName :: string
  sv_ActualValue :: float64
  sv_Threshold :: float64
  sv_Operator :: string
  sv_Message :: string

record sagooAlarmMessage =
  sa_topic :: string
  sa_ID :: string
  sa_Version :: string
  sa_Ack :: int
  sa_Method :: string
  sa_SubDevices :: "(sagooIdentityPayload \<times> sagooAlarmValue \<times> int) list"

definition sagoo_enqueueRealtimeLocked :: "CollectData \<Rightarrow> SagooAdapter \<Rightarrow> SagooAdapter" where
  "sagoo_enqueueRealtimeLocked item a =
     (let a = (if sg_realtimeCap a \<le> 0 then a\<lparr>sg_realtimeCap := defaultRealtimeQueue\<rparr> else a)
      in a\<lparr>sg_latestData := appendQueueItemWithCap (sg_latestData a) item (sg_realtimeCap a)\<rparr>)"

definition sagoo_prependRealtime :: "CollectData list \<Rightarrow> SagooAdapter \<Rightarrow> SagooAdapter" where
  "sagoo_prependRealtime items a =
     (if items = [] then a
      else let a = (if sg_realtimeCap a \<le> 0 then a\<lparr>sg_realtimeCap := defaultRealtimeQueue\<rparr> else a)
           in a\<lparr>sg_latestData := prependQueueWithCap (sg_latestData a) items (sg_realtimeCap a)\<rparr>)"

definition sagoo_enqueueAlarmLocked :: "AlarmPayload \<Rightarrow> SagooAdapter \<Rightarrow> SagooAdapter" where
  "sagoo_enqueueAlarmLocked alarm a =
     (let a = (if sg_alarmCap a \<le> 0 then a\<lparr>sg_alarmCap := defaultAlarmQueue\<rparr> else a)
      in a\<lparr>sg_alarmQueue := appendQueueItemWithCap (sg_alarmQueue a) alarm (sg_alarmCap a)\<rparr>)"

definition sagoo_prependAlarms :: "AlarmPayload list \<Rightarrow> SagooAdapter \<Rightarrow> SagooAdapter" where
  "sagoo_prependAlarms alarms a =
     (if alarms = [] then a
      else let a = (if sg_alarmCap a \<le> 0 then a\<lparr>sg_alarmCap := defaultAlarmQueue\<rparr> else a)
           in a\<lparr>sg_alarmQueue := prependQueueWithCap (sg_alarmQueue a) alarms (sg_alarmCap a)\<rparr>)"

definition sagoo_Send :: "CollectData option \<Rightarrow> SagooAdapter \<Rightarrow> SagooAdapter" where
  "sagoo_Send data a = (case data of None \<Rightarrow> a | Some d \<Rightarrow> sagoo_enqueueRealtimeLocked d a)"

definition sagoo_SendAlarm :: "AlarmPayload option \<Rightarrow> SagooAdapter \<Rightarrow> SagooAdapter" where
  "sagoo_SendAlarm alarm a =
     (case alarm of
        None \<Rightarrow> a
      | Some x \<Rightarrow>
          let a = sagoo_enqueueAlarmLocked x a;
              needFlush = (int (length (sg_alarmQueue a)) \<ge> sg_alarmBatch a)
          in if needFlush
             then a\<lparr>sg_life := (sg_life a)\<lparr>lc_workSignal := signalStructChan (lc_workSignal (sg_life a))\<rparr>\<rparr>
             else a)"

definition sagoo_defaultIdentity :: "SagooAdapter \<Rightarrow> string \<times> string" where
  "sagoo_defaultIdentity a =
     (case sg_config a of None \<Rightarrow> ([], []) | Some (pk, dk) \<Rightarrow> (TrimSpace pk, TrimSpace dk))"

definition sagoo_nextID :: "gotime \<Rightarrow> string \<Rightarrow> SagooAdapter \<Rightarrow> string \<times> SagooAdapter" where
  "sagoo_nextID now prefx a = (let (i, n) = nextPrefixedID now prefx (sg_seq a) in (i, a\<lparr>sg_seq := n\<rparr>))"

definition sagoo_buildMessage ::
  "gotime \<Rightarrow> string \<Rightarrow> CollectData \<Rightarrow> SagooAdapter \<Rightarrow> sagooRealtimeMessage option \<times> SagooAdapter" where
  "sagoo_buildMessage now topic data a =
     (let (defaultPK, defaultDK) = sagoo_defaultIdentity a;
          subPK = (if cd_ProductKey data = [] then defaultPK else cd_ProductKey data);
          subDK = (if cd_DeviceKey data = [] then defaultDK else cd_DeviceKey data);
          (i, a) = sagoo_nextID now ''msg'' a
      in (Some \<lparr>sr_topic = topic, sr_ID = i, sr_Version = ''1.0'', sr_Ack = 0,
                sr_Method = ''thing.event.property.pack.post'',
                sr_SubDevices = [(\<lparr>sp_ProductKey = subPK, sp_DeviceKey = subDK\<rparr>, cd_Fields data)]\<rparr>, a))"

definition sagoo_buildAlarmMessage ::
  "gotime \<Rightarrow> string \<Rightarrow> AlarmPayload \<Rightarrow> SagooAdapter \<Rightarrow> sagooAlarmMessage option \<times> SagooAdapter" where
  "sagoo_buildAlarmMessage now topic alarm a =
     (let (defaultPK, defaultDK) = sagoo_defaultIdentity a;
          (i, a) = sagoo_nextID now ''alarm'' a
      in (Some \<lparr>sa_topic = topic, sa_ID = i, sa_Version = ''1.0'', sa_Ack = 0,
                sa_Method = ''thing.event.property.pack.post'',
                sa_SubDevices = [(\<lparr>sp_ProductKey = pickFirstNonEmpty [ap_ProductKey alarm, defaultPK],
                                   sp_DeviceKey = pickFirstNonEmpty [ap_DeviceKey alarm, defaultDK]\<rparr>,
                  \<lparr>sv_FieldName = ap_FieldName alarm, sv_ActualValue = ap_ActualValue alarm,
                   sv_Threshold = ap_Threshold alarm, sv_Operator = ap_Operator alarm,
                   sv_Message = ap_Message alarm\<rparr>, UnixMilli now)]\<rparr>, a))"

definition sagoo_publish :: "pubOutcome \<Rightarrow> SagooAdapter \<Rightarrow> bool \<times> SagooAdapter" where
  "sagoo_publish out a =
     (case lc_client (sg_life a) of
        None \<Rightarrow> (False, a)
      | Some up \<Rightarrow>
          if \<not> up \<and> po_connect out \<noteq> ConnOK then (False, a)
          else let a = (if up then a else a\<lparr>sg_life := (sg_life a)\<lparr>lc_client := Some True\<rparr>\<rparr>)
               in (po_publish out = PubOK, a))"

definition sagoo_flushLatestData ::
  "gotime \<Rightarrow> (nat \<Rightarrow> pubOutcome) \<Rightarrow> CollectData list \<Rightarrow> SagooAdapter \<Rightarrow>
   CollectData list \<times> sagooRealtimeMessage list \<times> bool \<times> SagooAdapter" where
  "sagoo_flushLatestData now outs meanwhile a =
     (if sg_latestData a = [] then ([], [], False, fold (\<lambda>d. sagoo_Send (Some d)) meanwhile a)
      else let batch = sg_latestData a;
               (sent, ms, a) = publishItems (sagoo_buildMessage now (sg_topic a)) sagoo_publish outs batch
                                 (a\<lparr>sg_latestData := []\<rparr>);
               a = fold (\<lambda>d. sagoo_Send (Some d)) meanwhile a
           in (sent, ms, length sent \<noteq> length batch, if length sent = length batch then a else sagoo_prependRealtime batch a))"

definition sagoo_flushAlarmBatch ::
  "gotime \<Rightarrow> (nat \<Rightarrow> pubOutcome) \<Rightarrow> AlarmPayload list \<Rightarrow> SagooAdapter \<Rightarrow>
   AlarmPayload list \<times> sagooAlarmMessage list \<times> bool \<times> SagooAdapter" where
  "sagoo_flushAlarmBatch now outs meanwhile a =
     (if sg_alarmQueue a = [] then ([], [], False, fold (\<lambda>d. sagoo_SendAlarm (Some d)) meanwhile a)
      else let count = min (nat (sg_alarmBatch a)) (length (sg_alarmQueue a));
               batch = take count (sg_alarmQueue a);
               (sent, ms, a) = publishItems (sagoo_buildAlarmMessage now (sg_alarmTopic a)) sagoo_publish outs batch
                                 (a\<lparr>sg_alarmQueue := drop count (sg_alarmQueue a)\<rparr>);
               a = fold (\<lambda>d. sagoo_SendAlarm (Some d)) meanwhile a
           in (sent, ms, length sent \<noteq> length batch, if length sent = length batch then a else sagoo_prependAlarms batch a))"

definition sagoo_PullCommands ::
  "int \<Rightarrow> SagooAdapter \<Rightarrow> NorthboundCommand list option \<times> SagooAdapter" where
  "sagoo_PullCommands limit a =
     (let limit = (if limit \<le> 0 then 20 else limit) in
      if \<not> lc_initialized (sg_life a) then (None, a)
      else if sg_commandQueue a = [] then (Some [], a)
      else let limit = min (nat limit) (length (sg_commandQueue a))
           in (Some (take limit (sg_commandQueue a)), a\<lparr>sg_commandQueue := drop limit (sg_commandQueue a)\<rparr>))"

definition sagoo_drain ::
  "nat \<Rightarrow> gotime \<Rightarrow> (nat \<Rightarrow> nat \<Rightarrow> pubOutcome) \<Rightarrow> SagooAdapter \<Rightarrow>
   (sagooAlarmMessage list \<times> bool \<times> SagooAdapter) option" where
  "sagoo_drain fuel now outs a =
     drainAlarmQueueOnStop fuel (\<lambda>ob. sagoo_flushAlarmBatch now ob []) (Some (\<lambda>a. sg_alarmQueue a = [])) outs a"

text \<open>\<open>Stop\<close> waits for the loop, which drains; \<open>Close\<close> then flushes once more and clears the rest.\<close>

definition sagoo_Stop ::
  "nat \<Rightarrow> gotime \<Rightarrow> (nat \<Rightarrow> nat \<Rightarrow> pubOutcome) \<Rightarrow> SagooAdapter \<Rightarrow>
   (sagooAlarmMessage list \<times> SagooAdapter) option" where
  "sagoo_Stop fuel now outs a =
     (case lifecycle_stopBegin (sg_life a) of
        None \<Rightarrow> None
      | Some l \<Rightarrow>
          (case (if lc_loops l \<noteq> [] then sagoo_drain fuel now outs (a\<lparr>sg_life := l\<rparr>)
                 else Some ([], False, a\<lparr>sg_life := l\<rparr>)) of
             None \<Rightarrow> None
           | Some (ms, _, a') \<Rightarrow>
               let l = loopsExit (sg_life a')
               in if lc_loops l \<noteq> [] then None
                  else Some (ms, a'\<lparr>sg_life := lifecycle_stopEnd (lc_stopChan (sg_life a)) l\<rparr>)))"

definition sagoo_Close ::
  "nat \<Rightarrow> gotime \<Rightarrow> (nat \<Rightarrow> nat \<Rightarrow> pubOutcome) \<Rightarrow> (nat \<Rightarrow> pubOutcome) \<Rightarrow> (nat \<Rightarrow> pubOutcome) \<Rightarrow> SagooAdapter \<Rightarrow>
   (sagooRealtimeMessage list \<times> sagooAlarmMessage list \<times> SagooAdapter) option" where
  "sagoo_Close fuel now outs dataOuts alarmOuts a =
     (case sagoo_Stop fuel now outs a of
        None \<Rightarrow> None
      | Some (ms, a) \<Rightarrow>
          let (_, ds, _, a) = sagoo_flushLatestData now dataOuts [] a;
              (_, as, _, a) = sagoo_flushAlarmBatch now alarmOuts [] a
          in Some (ds, ms @ as,
                   a\<lparr>sg_life := lifecycle_closeEnd False (sg_life a), sg_config := None,
                     sg_latestData := [], sg_alarmQueue := [], sg_commandQueue := []\<rparr>))"

section \<open>PandaX\<close>

record PandaXAdapter =
  px_life :: lifecycle
  px_config :: "(string \<times> string \<times> string) option"
  px_gatewayTelemetryTopic :: string
  px_alarmTopic :: string
  px_rpcResponseTopic :: string
  px_alarmBatch :: int
  px_alarmCap :: int
  px_realtimeCap :: int
  px_commandCap :: int
  px_realtimeQueue :: "CollectData list"
  px_alarmQueue :: "AlarmPayload list"
  px_commandQueue :: "NorthboundCommand list"
  px_lastSend :: gotime
  px_reportEvery :: duration

text \<open>\<open>px_config\<close> has the product key, the device key and the token mode of the configuration.\<close>

record pandaXRealtimePayloadItem =
  pi_TS :: int
  pi_Values :: fieldMap

record pandaXAlarmPublishPayload =
  pa_topic :: string
  pa_DeviceName :: string
  pa_ProductKey :: string
  pa_DeviceKey :: string
  pa_FieldName :: string
  pa_ActualValue :: float64
  pa_Threshold :: float64
  pa_Operator :: string
  pa_Severity :: string
  pa_Message :: string
  pa_TS :: int

definition pandax_resolveSubDeviceToken :: "golib \<Rightarrow> CollectData \<Rightarrow> PandaXAdapter \<Rightarrow> string" where
  "pandax_resolveSubDeviceToken L data a =
     (case px_config a of
        None \<Rightarrow>
          if TrimSpace (cd_DeviceName data) \<noteq> [] then TrimSpace (cd_DeviceName data)
          else if TrimSpace (cd_DeviceKey data) \<noteq> [] then TrimSpace (cd_DeviceKey data)
          else defaultDeviceToken (cd_DeviceID data)
      | Some (productKey, _, mode) \<Rightarrow>
          subTokenByMode L mode (pickFirstNonEmpty [cd_ProductKey data, productKey])
            (pickFirstNonEmpty [cd_DeviceName data, cd_DeviceKey data])
            (pickFirstNonEmpty [cd_DeviceKey data, cd_DeviceName data]) (cd_DeviceID data))"

definition pandax_enqueueRealtimeLocked :: "CollectData \<Rightarrow> PandaXAdapter \<Rightarrow> PandaXAdapter" where
  "pandax_enqueueRealtimeLocked item a =
     (let a = (if px_realtimeCap a \<le> 0 then a\<lparr>px_realtimeCap := defaultRealtimeQueue\<rparr> else a)
      in a\<lparr>px_realtimeQueue := appendQueueItemWithCap (px_realtimeQueue a) item (px_realtimeCap a)\<rparr>)"

definition pandax_prependRealtime :: "CollectData list \<Rightarrow> PandaXAdapter \<Rightarrow> PandaXAdapter" where
  "pandax_prependRealtime items a =
     (if items = [] then a
      else let a = (if px_realtimeCap a \<le> 0 then a\<lparr>px_realtimeCap := defaultRealtimeQueue\<rparr> else a)
           in a\<lparr>px_realtimeQueue := prependQueueWithCap (px_realtimeQueue a) items (px_realtimeCap a)\<rparr>)"

definition pandax_enqueueAlarmLocked :: "AlarmPayload \<Rightarrow> PandaXAdapter \<Rightarrow> PandaXAdapter" where
  "pandax_enqueueAlarmLocked item a =
     (let a = (if px_alarmCap a \<le> 0 then a\<lparr>px_alarmCap := defaultAlarmQueue\<rparr> else a)
      in a\<lparr>px_alarmQueue := appendQueueItemWithCap (px_alarmQueue a) item (px_alarmCap a)\<rparr>)"

definition pandax_prependAlarms :: "AlarmPayload list \<Rightarrow> PandaXAdapter \<Rightarrow> PandaXAdapter" where
  "pandax_prependAlarms items a =
     (if items = [] then a
      else let a = (if px_alarmCap a \<le> 0 then a\<lparr>px_alarmCap := defaultAlarmQueue\<rparr> else a)
           in a\<lparr>px_alarmQueue := prependQueueWithCap (px_alarmQueue a) items (px_alarmCap a)\<rparr>)"

definition pandax_Send :: "CollectData option \<Rightarrow> PandaXAdapter \<Rightarrow> PandaXAdapter" where
  "pandax_Send data a = (case data of None \<Rightarrow> a | Some d \<Rightarrow> pandax_enqueueRealtimeLocked d a)"

definition pandax_SendAlarm :: "AlarmPayload option \<Rightarrow> PandaXAdapter \<Rightarrow> PandaXAdapter" where
  "pandax_SendAlarm alarm a = (case alarm of None \<Rightarrow> a | Some x \<Rightarrow> pandax_enqueueAlarmLocked x a)"

definition pandax_buildBatchRealtimePublish ::
  "golib \<Rightarrow> gotime \<Rightarrow> CollectData list \<Rightarrow> PandaXAdapter \<Rightarrow> string \<times> (string \<times> pandaXRealtimePayloadItem) list" where
  "pandax_buildBatchRealtimePublish L now batch a =
     (px_gatewayTelemetryTopic a,
      fold (\<lambda>data payload.
              AList.update (pandax_resolveSubDeviceToken L data a)
                \<lparr>pi_TS = positiveMillis now (cd_Timestamp data), pi_Values = cd_Fields data\<rparr> payload)
           batch [])"

definition pandax_buildAlarmPublish ::
  "gotime \<Rightarrow> AlarmPayload \<Rightarrow> PandaXAdapter \<Rightarrow> pandaXAlarmPublishPayload option \<times> PandaXAdapter" where
  "pandax_buildAlarmPublish now alarm a =
     (Some \<lparr>pa_topic = px_alarmTopic a, pa_DeviceName = ap_DeviceName alarm, pa_ProductKey = ap_ProductKey alarm,
            pa_DeviceKey = ap_DeviceKey alarm, pa_FieldName = ap_FieldName alarm,
            pa_ActualValue = ap_ActualValue alarm, pa_Threshold = ap_Threshold alarm,
            pa_Operator = ap_Operator alarm, pa_Severity = ap_Severity alarm, pa_Message = ap_Message alarm,
            pa_TS = UnixMilli now\<rparr>, a)"

definition pandax_publish :: "gotime \<Rightarrow> pubOutcome \<Rightarrow> PandaXAdapter \<Rightarrow> bool \<times> PandaXAdapter" where
  "pandax_publish now out a =
     (if lc_client (px_life a) \<noteq> Some True then (False, a\<lparr>px_life := markDisconnected (px_life a)\<rparr>)
      else if po_publish out \<noteq> PubOK then (False, a\<lparr>px_life := markDisconnected (px_life a)\<rparr>)
      else (True, a\<lparr>px_lastSend := now, px_life := (px_life a)\<lparr>lc_connected := True\<rparr>\<rparr>))"

definition pandax_flushRealtime ::
  "golib \<Rightarrow> gotime \<Rightarrow> (nat \<Rightarrow> pubOutcome) \<Rightarrow> CollectData list \<Rightarrow> PandaXAdapter \<Rightarrow>
   CollectData list \<times> (string \<times> (string \<times> pandaXRealtimePayloadItem) list) list \<times> bool \<times> PandaXAdapter" where
  "pandax_flushRealtime L now outs meanwhile a =
     (if px_realtimeQueue a = [] then ([], [], False, fold (\<lambda>d. pandax_Send (Some d)) meanwhile a)
      else let batch = px_realtimeQueue a; a = a\<lparr>px_realtimeQueue := []\<rparr>;
               msg = pandax_buildBatchRealtimePublish L now batch a;
               (ok, a) = pandax_publish now (outs 0) a;
               a = fold (\<lambda>d. pandax_Send (Some d)) meanwhile a
           in if ok then (batch, [msg], False, a) else ([], [], True, pandax_prependRealtime batch a))"

definition pandax_flushAlarmBatch ::
  "gotime \<Rightarrow> (nat \<Rightarrow> pubOutcome) \<Rightarrow> AlarmPayload list \<Rightarrow> PandaXAdapter \<Rightarrow>
   AlarmPayload list \<times> pandaXAlarmPublishPayload list \<times> bool \<times> PandaXAdapter" where
  "pandax_flushAlarmBatch now outs meanwhile a =
     (if px_alarmQueue a = [] then ([], [], False, fold (\<lambda>d. pandax_SendAlarm (Some d)) meanwhile a)
      else let count = min (nat (px_alarmBatch a)) (length (px_alarmQueue a));
               batch = take count (px_alarmQueue a);
               (sent, ms, a) = publishItems (pandax_buildAlarmPublish now) (pandax_publish now) outs batch
                                 (a\<lparr>px_alarmQueue := drop count (px_alarmQueue a)\<rparr>);
               a = fold (\<lambda>d. pandax_SendAlarm (Some d)) meanwhile a
           in (sent, ms, length sent \<noteq> length batch, if length sent = length batch then a else pandax_prependAlarms batch a))"

definition pandax_drain ::
  "nat \<Rightarrow> gotime \<Rightarrow> (nat \<Rightarrow> nat \<Rightarrow> pubOutcome) \<Rightarrow> PandaXAdapter \<Rightarrow>
   (pandaXAlarmPublishPayload list \<times> bool \<times> PandaXAdapter) option" where
  "pandax_drain fuel now outs a =
     drainAlarmQueueOnStop fuel (\<lambda>ob. pandax_flushAlarmBatch now ob []) (Some (\<lambda>a. px_alarmQueue a = [])) outs a"

text \<open>The adapter has its own copy of \<open>start\<close> and \<open>stop\<close>; they do what the shared ones do.\<close>

definition pandax_Start :: "PandaXAdapter \<Rightarrow> PandaXAdapter" where
  "pandax_Start a =
     (let l = px_life a in
      if lc_initialized l \<and> \<not> lc_enabled l \<and> lc_loopState l = adapterLoopStopped
      then let l = l\<lparr>lc_enabled := True, lc_loopState := snd (updateLoopState (lc_loopState l) adapterLoopRunning)\<rparr>;
               l = (if lc_stopChan l = None then makeChan l else l);
               l = (if lc_workSignal l = None then l\<lparr>lc_workSignal := Some False\<rparr> else l);
               l = (if lc_reconnect l = None then l\<lparr>lc_reconnect := Some False\<rparr> else l);
               needReconnect = (\<not> lc_connected l);
               l = l\<lparr>lc_loops := the (lc_stopChan l) # lc_loops l\<rparr>
           in a\<lparr>px_life := (if needReconnect then signalReconnect l else l)\<rparr>
      else a)"

definition pandax_Stop ::
  "nat \<Rightarrow> gotime \<Rightarrow> (nat \<Rightarrow> nat \<Rightarrow> pubOutcome) \<Rightarrow> PandaXAdapter \<Rightarrow>
   (pandaXAlarmPublishPayload list \<times> PandaXAdapter) option" where
  "pandax_Stop fuel now outs a =
     (case lifecycle_stopBegin (px_life a) of
        None \<Rightarrow> None
      | Some l \<Rightarrow>
          (case (if lc_loops l \<noteq> [] then pandax_drain fuel now outs (a\<lparr>px_life := l\<rparr>)
                 else Some ([], False, a\<lparr>px_life := l\<rparr>)) of
             None \<Rightarrow> None
           | Some (ms, _, a') \<Rightarrow>
               let l = loopsExit (px_life a')
               in if lc_loops l \<noteq> [] then None
                  else Some (ms, a'\<lparr>px_life := lifecycle_stopEnd (lc_stopChan (px_life a)) l\<rparr>)))"

definition pandax_Close ::
  "golib \<Rightarrow> nat \<Rightarrow> gotime \<Rightarrow> (nat \<Rightarrow> nat \<Rightarrow> pubOutcome) \<Rightarrow> (nat \<Rightarrow> pubOutcome) \<Rightarrow> (nat \<Rightarrow> pubOutcome) \<Rightarrow> PandaXAdapter \<Rightarrow>
   ((string \<times> (string \<times> pandaXRealtimePayloadItem) list) list \<times> pandaXAlarmPublishPayload list \<times> PandaXAdapter) option" where
  "pandax_Close L fuel now outs dataOuts alarmOuts a =
     (case pandax_Stop fuel now outs a of
        None \<Rightarrow> None
      | Some (ms, a) \<Rightarrow>
          let a = a\<lparr>px_life := (px_life a)\<lparr>lc_initialized := False, lc_connected := False, lc_enabled := False,
                      lc_loopState := snd (updateLoopState (lc_loopState (px_life a)) adapterLoopStopped)\<rparr>\<rparr>;
              (_, ds, _, a) = pandax_flushRealtime L now dataOuts [] a;
              (_, as, _, a) = pandax_flushAlarmBatch now alarmOuts [] a
          in Some (ds, ms @ as,
                   a\<lparr>px_life := (px_life a)\<lparr>lc_client := None, lc_workSignal := None, lc_stopChan := None, lc_reconnect := None\<rparr>,
                     px_config := None, px_realtimeQueue := [], px_alarmQueue := [], px_commandQueue := []\<rparr>))"

section \<open>iThings\<close>

record iThingsRequestState =
  rq_RequestID :: string
  rq_ProductID :: string
  rq_DeviceName :: string
  rq_Method :: string
  rq_TopicType :: string
  rq_ActionID :: string
  rq_Pending :: int
  rq_Success :: bool
  rq_Code :: int
  rq_Message :: string
  rq_FieldName :: string
  rq_Value :: string

text \<open>The map of the requests is nil (\<open>None\<close>) in a closed adapter.\<close>

record IThingsAdapter =
  it_life :: lifecycle
  it_config :: "(string \<times> string) option"
  it_upPropertyTopicTemplate :: string
  it_upEventTopicTemplate :: string
  it_upActionTopicTemplate :: string
  it_alarmEventID :: string
  it_alarmEventType :: string
  it_deviceNameMode :: string
  it_subDeviceNameMode :: string
  it_alarmBatch :: int
  it_alarmCap :: int
  it_realtimeCap :: int
  it_commandCap :: int
  it_realtimeQueue :: "CollectData list"
  it_alarmQueue :: "AlarmPayload list"
  it_commandQueue :: "NorthboundCommand list"
  it_requestStates :: "(string \<times> iThingsRequestState) list option"
  it_lastSend :: gotime
  it_seq :: nat
  it_reportEvery :: duration

record iThingsRealtimePublishPayload =
  ir_topic :: string
  ir_Method :: string
  ir_MsgToken :: string
  ir_Timestamp :: int
  ir_SubDevices :: "(string \<times> string \<times> (int \<times> fieldMap) list) list"

record iThingsAlarmPublishPayload =
  ia_topic :: string
  ia_Method :: string
  ia_MsgToken :: string
  ia_Timestamp :: int
  ia_EventID :: string
  ia_Type :: string
  ia_DeviceName :: string
  ia_ProductKey :: string
  ia_DeviceKey :: string
  ia_FieldName :: string
  ia_ActualValue :: float64
  ia_Threshold :: float64
  ia_Operator :: string
  ia_Severity :: string
  ia_Message :: string

text \<open>\<open>strings.ReplaceAll\<close> for a pattern that is not empty.\<close>

function ReplaceAll :: "string \<Rightarrow> string \<Rightarrow> string \<Rightarrow> string" where
  "ReplaceAll s old new =
     (if s = [] \<or> old = [] then s
      else if prefix old s then new @ ReplaceAll (drop (length old) s) old new
      else hd s # ReplaceAll (tl s) old new)"
  by pat_completeness auto
termination by (relation "measure (\<lambda>(s, old, new). length s)") auto

declare ReplaceAll.simps [simp del]

definition renderIThingsTopic :: "string \<Rightarrow> string \<Rightarrow> string \<Rightarrow> string" where
  "renderIThingsTopic template productID deviceName =
     (let topic = TrimSpace template in
      if topic = [] then []
      else let topic = ReplaceAll topic ''{productID}'' (TrimSpace productID)
           in ReplaceAll topic ''{deviceName}'' (TrimSpace deviceName))"

definition resolveDeviceNameByMode :: "golib \<Rightarrow> string \<Rightarrow> string \<Rightarrow> string \<Rightarrow> string" where
  "resolveDeviceNameByMode L deviceName deviceKey mode =
     (let name = TrimSpace deviceName; key = TrimSpace deviceKey
      in if ToLower (uniLower L) (TrimSpace mode) \<in> {''devicename'', ''device_name''}
         then pickFirstNonEmpty [name, key] else pickFirstNonEmpty [key, name])"

definition ithings_nextID :: "gotime \<Rightarrow> string \<Rightarrow> IThingsAdapter \<Rightarrow> string \<times> IThingsAdapter" where
  "ithings_nextID now prefx a = (let (i, n) = nextPrefixedID now prefx (it_seq a) in (i, a\<lparr>it_seq := n\<rparr>))"

definition ithings_buildRealtimePublish ::
  "golib \<Rightarrow> gotime \<Rightarrow> CollectData \<Rightarrow> IThingsAdapter \<Rightarrow> iThingsRealtimePublishPayload option \<times> IThingsAdapter" where
  "ithings_buildRealtimePublish L now data a =
     (let ts = positiveMillis now (cd_Timestamp data) in
      case it_config a of
        None \<Rightarrow> (None, a)
      | Some (productKey, deviceKey) \<Rightarrow>
          let gatewayProductID = TrimSpace productKey; gatewayDeviceName = TrimSpace deviceKey in
          if gatewayProductID = [] \<or> gatewayDeviceName = [] then (None, a)
          else let topic = renderIThingsTopic (it_upPropertyTopicTemplate a) gatewayProductID gatewayDeviceName;
                   subProductID = pickFirstNonEmpty [TrimSpace (cd_ProductKey data), gatewayProductID];
                   subDeviceName = pickFirstNonEmpty
                     [resolveDeviceNameByMode L (cd_DeviceName data) (cd_DeviceKey data) (it_subDeviceNameMode a),
                      resolveDeviceNameByMode L (cd_DeviceName data) (cd_DeviceKey data) (it_deviceNameMode a)];
                   subDeviceName = (if subDeviceName = [] then defaultDeviceToken (cd_DeviceID data) else subDeviceName);
                   (token, a) = ithings_nextID now ''pack'' a
               in (Some \<lparr>ir_topic = topic, ir_Method = ''packReport'', ir_MsgToken = token, ir_Timestamp = ts,
                         ir_SubDevices = [(subProductID, subDeviceName, [(ts, cd_Fields data)])]\<rparr>, a))"

definition ithings_buildAlarmPublish ::
  "golib \<Rightarrow> gotime \<Rightarrow> AlarmPayload \<Rightarrow> IThingsAdapter \<Rightarrow> iThingsAlarmPublishPayload option \<times> IThingsAdapter" where
  "ithings_buildAlarmPublish L now alarm a =
     (case it_config a of
        None \<Rightarrow> (None, a)
      | Some (productKey, deviceKey) \<Rightarrow>
          let gatewayProductID = TrimSpace productKey; gatewayDeviceName = TrimSpace deviceKey in
          if gatewayProductID = [] \<or> gatewayDeviceName = [] then (None, a)
          else let topic = renderIThingsTopic (it_upEventTopicTemplate a) gatewayProductID gatewayDeviceName;
                   subProductID = pickFirstNonEmpty [TrimSpace (ap_ProductKey alarm), gatewayProductID];
                   subDeviceName = TrimSpace
                     (resolveDeviceNameByMode L (ap_DeviceName alarm) (ap_DeviceKey alarm) (it_deviceNameMode a));
                   subDeviceName = (if subDeviceName = [] then defaultDeviceToken (ap_DeviceID alarm) else subDeviceName);
                   (token, a) = ithings_nextID now ''alarm'' a
               in (Some \<lparr>ia_topic = topic, ia_Method = ''eventPost'', ia_MsgToken = token,
                         ia_Timestamp = UnixMilli now, ia_EventID = it_alarmEventID a, ia_Type = it_alarmEventType a,
                         ia_DeviceName = ap_DeviceName alarm, ia_ProductKey = subProductID,
                         ia_DeviceKey = subDeviceName, ia_FieldName = ap_FieldName alarm,
                         ia_ActualValue = ap_ActualValue alarm, ia_Threshold = ap_Threshold alarm,
                         ia_Operator = ap_Operator alarm, ia_Severity = ap_Severity alarm,
                         ia_Message = ap_Message alarm\<rparr>, a))"

definition ithings_publish :: "gotime \<Rightarrow> pubOutcome \<Rightarrow> IThingsAdapter \<Rightarrow> bool \<times> IThingsAdapter" where
  "ithings_publish now out a =
     (case lc_client (it_life a) of
        None \<Rightarrow> (False, a)
      | Some up \<Rightarrow>
          if \<not> up \<and> po_connect out = ConnTimeout then (False, a)
          else if \<not> up \<and> po_connect out = ConnError then (False, a\<lparr>it_life := (it_life a)\<lparr>lc_connected := False\<rparr>\<rparr>)
          else let a = (if up then a else a\<lparr>it_life := (it_life a)\<lparr>lc_client := Some True\<rparr>\<rparr>)
               in case po_publish out of
                    PubTimeout \<Rightarrow> (False, a)
                  | PubError \<Rightarrow> (False, a\<lparr>it_life := (it_life a)\<lparr>lc_connected := False\<rparr>\<rparr>)
                  | PubOK \<Rightarrow> (True, a\<lparr>it_lastSend := now, it_life := (it_life a)\<lparr>lc_connected := True\<rparr>\<rparr>))"

definition ithings_enqueueRealtimeLocked :: "CollectData \<Rightarrow> IThingsAdapter \<Rightarrow> IThingsAdapter" where
  "ithings_enqueueRealtimeLocked item a =
     (let a = (if it_realtimeCap a \<le> 0 then a\<lparr>it_realtimeCap := defaultRealtimeQueue\<rparr> else a)
      in a\<lparr>it_realtimeQueue := appendQueueItemWithCap (it_realtimeQueue a) item (it_realtimeCap a)\<rparr>)"

definition ithings_prependRealtime :: "CollectData list \<Rightarrow> IThingsAdapter \<Rightarrow> IThingsAdapter" where
  "ithings_prependRealtime items a =
     (if items = [] then a
      else let a = (if it_realtimeCap a \<le> 0 then a\<lparr>it_realtimeCap := defaultRealtimeQueue\<rparr> else a)
           in a\<lparr>it_realtimeQueue := prependQueueWithCap (it_realtimeQueue a) items (it_realtimeCap a)\<rparr>)"

definition ithings_enqueueAlarmLocked :: "AlarmPayload \<Rightarrow> IThingsAdapter \<Rightarrow> IThingsAdapter" where
  "ithings_enqueueAlarmLocked item a =
     (let a = (if it_alarmCap a \<le> 0 then a\<lparr>it_alarmCap := defaultAlarmQueue\<rparr> else a)
      in a\<lparr>it_alarmQueue := appendQueueItemWithCap (it_alarmQueue a) item (it_alarmCap a)\<rparr>)"

definition ithings_prependAlarms :: "AlarmPayload list \<Rightarrow> IThingsAdapter \<Rightarrow> IThingsAdapter" where
  "ithings_prependAlarms items a =
     (if items = [] then a
      else let a = (if it_alarmCap a \<le> 0 then a\<lparr>it_alarmCap := defaultAlarmQueue\<rparr> else a)
           in a\<lparr>it_alarmQueue := prependQueueWithCap (it_alarmQueue a) items (it_alarmCap a)\<rparr>)"

definition ithings_Send :: "CollectData option \<Rightarrow> IThingsAdapter \<Rightarrow> IThingsAdapter" where
  "ithings_Send data a = (case data of None \<Rightarrow> a | Some d \<Rightarrow> ithings_enqueueRealtimeLocked d a)"

definition ithings_SendAlarm :: "AlarmPayload option \<Rightarrow> IThingsAdapter \<Rightarrow> IThingsAdapter" where
  "ithings_SendAlarm alarm a =
     (case alarm of
        None \<Rightarrow> a
      | Some x \<Rightarrow>
          let a = ithings_enqueueAlarmLocked x a;
              needFlush = (int (length (it_alarmQueue a)) \<ge> it_alarmBatch a)
          in if needFlush
             then a\<lparr>it_life := (it_life a)\<lparr>lc_workSignal := signalStructChan (lc_workSignal (it_life a))\<rparr>\<rparr>
             else a)"

definition ithings_flushRealtime ::
  "golib \<Rightarrow> gotime \<Rightarrow> (nat \<Rightarrow> pubOutcome) \<Rightarrow> CollectData list \<Rightarrow> IThingsAdapter \<Rightarrow>
   CollectData list \<times> iThingsRealtimePublishPayload list \<times> bool \<times> IThingsAdapter" where
  "ithings_flushRealtime L now outs meanwhile a =
     (if it_realtimeQueue a = [] then ([], [], False, fold (\<lambda>d. ithings_Send (Some d)) meanwhile a)
      else let batch = it_realtimeQueue a;
               (sent, ms, a) = publishItems (ithings_buildRealtimePublish L now) (ithings_publish now) outs batch
                                 (a\<lparr>it_realtimeQueue := []\<rparr>);
               a = fold (\<lambda>d. ithings_Send (Some d)) meanwhile a
           in (sent, ms, length sent \<noteq> length batch,
               if length sent = length batch then a else ithings_prependRealtime batch a))"

definition ithings_flushAlarmBatch ::
  "golib \<Rightarrow> gotime \<Rightarrow> (nat \<Rightarrow> pubOutcome) \<Rightarrow> AlarmPayload list \<Rightarrow> IThingsAdapter \<Rightarrow>
   AlarmPayload list \<times> iThingsAlarmPublishPayload list \<times> bool \<times> IThingsAdapter" where
  "ithings_flushAlarmBatch L now outs meanwhile a =
     (if it_alarmQueue a = [] then ([], [], False, fold (\<lambda>d. ithings_SendAlarm (Some d)) meanwhile a)
      else let count = min (nat (it_alarmBatch a)) (length (it_alarmQueue a));
               batch = take count (it_alarmQueue a);
               (sent, ms, a) = publishItems (ithings_buildAlarmPublish L now) (ithings_publish now) outs batch
                                 (a\<lparr>it_alarmQueue := drop count (it_alarmQueue a)\<rparr>);
               a = fold (\<lambda>d. ithings_SendAlarm (Some d)) meanwhile a
           in (sent, ms, length sent \<noteq> length batch,
               if length sent = length batch then a else ithings_prependAlarms batch a))"

definition ithings_drain ::
  "golib \<Rightarrow> nat \<Rightarrow> gotime \<Rightarrow> (nat \<Rightarrow> nat \<Rightarrow> pubOutcome) \<Rightarrow> IThingsAdapter \<Rightarrow>
   (iThingsAlarmPublishPayload list \<times> bool \<times> IThingsAdapter) option" where
  "ithings_drain L fuel now outs a =
     drainAlarmQueueOnStop fuel (\<lambda>ob. ithings_flushAlarmBatch L now ob []) (Some (\<lambda>a. it_alarmQueue a = [])) outs a"

definition ithings_Stop ::
  "golib \<Rightarrow> nat \<Rightarrow> gotime \<Rightarrow> (nat \<Rightarrow> nat \<Rightarrow> pubOutcome) \<Rightarrow> IThingsAdapter \<Rightarrow>
   (iThingsAlarmPublishPayload list \<times> IThingsAdapter) option" where
  "ithings_Stop L fuel now outs a =
     (case lifecycle_stopBegin (it_life a) of
        None \<Rightarrow> None
      | Some l \<Rightarrow>
          (case (if lc_loops l \<noteq> [] then ithings_drain L fuel now outs (a\<lparr>it_life := l\<rparr>)
                 else Some ([], False, a\<lparr>it_life := l\<rparr>)) of
             None \<Rightarrow> None
           | Some (ms, _, a') \<Rightarrow>
               let l = loopsExit (it_life a')
               in if lc_loops l \<noteq> [] then None
                  else Some (ms, a'\<lparr>it_life := lifecycle_stopEnd (lc_stopChan (it_life a)) l\<rparr>)))"

definition ithings_Close ::
  "golib \<Rightarrow> nat \<Rightarrow> gotime \<Rightarrow> (nat \<Rightarrow> nat \<Rightarrow> pubOutcome) \<Rightarrow> (nat \<Rightarrow> pubOutcome) \<Rightarrow> (nat \<Rightarrow> pubOutcome) \<Rightarrow> IThingsAdapter \<Rightarrow>
   (iThingsRealtimePublishPayload list \<times> iThingsAlarmPublishPayload list \<times> IThingsAdapter) option" where
  "ithings_Close L fuel now outs dataOuts alarmOuts a =
     (case ithings_Stop L fuel now outs a of
        None \<Rightarrow> None
      | Some (ms, a) \<Rightarrow>
          let (_, ds, _, a) = ithings_flushRealtime L now dataOuts [] a;
              (_, as, _, a) = ithings_flushAlarmBatch L now alarmOuts [] a
          in Some (ds, ms @ as,
                   a\<lparr>it_life := lifecycle_closeEnd False (it_life a), it_config := None,
                     it_realtimeQueue := [], it_alarmQueue := [], it_commandQueue := [], it_requestStates := None\<rparr>))"

end
