(* ===== verification/Delivery.thy ===== *)
theory Delivery
  imports Adapters
begin

text \<open>
  What the adapters deliver. Every buffered stream of the five adapters interprets the
  contract of \<open>Outbox\<close>: the streams that resume a failed batch (MQTT samples and alarms,
  Xunji alarms) and those that publish a batch as one message (Xunji and PandaX samples)
  deliver exactly once, the others (Sagoo, iThings, PandaX alarms) put a failed batch back as a
  whole and deliver at least once. The last section is about stopping: the adapters whose
  \<open>publish\<close> asks for the enabled flag cannot flush once they are stopped.
\<close>

section \<open>Publishing item by item\<close>

lemma publishItems_Cons:
  "publishItems build pub outs (x # xs) s =
     (if fst (build x s) = None then ([], [], snd (build x s))
      else if \<not> fst (pub (outs 0) (snd (build x s))) then ([], [], snd (pub (outs 0) (snd (build x s))))
      else let r = publishItems build pub (\<lambda>i. outs (Suc i)) xs (snd (pub (outs 0) (snd (build x s))))
           in (x # fst r, the (fst (build x s)) # fst (snd r), snd (snd r)))"
  by (auto simp: case_prod_beta Let_def split: option.splits bool.splits)

lemma publishItems_prefix: "prefix (fst (publishItems build pub outs xs s)) xs"
proof (induction xs arbitrary: outs s)
  case (Cons x xs)
  then show ?case unfolding publishItems_Cons by (simp add: Let_def)
qed simp

lemma publishItems_take:
  "fst (publishItems build pub outs xs s) = take (length (fst (publishItems build pub outs xs s))) xs"
  using publishItems_prefix[of build pub outs xs s] by (metis append_eq_conv_conj prefix_def)

lemma publishItems_le: "length (fst (publishItems build pub outs xs s)) \<le> length xs"
  using publishItems_prefix by (rule prefix_length_le)

lemma publishItems_keeps:
  assumes "\<And>x s. f (snd (build x s)) = f s" and "\<And>out s. f (snd (pub out s)) = f s"
  shows "f (snd (snd (publishItems build pub outs xs s))) = f s"
proof (induction xs arbitrary: outs s)
  case (Cons x xs)
  then show ?case unfolding publishItems_Cons by (simp add: Let_def assms)
qed simp

lemma fold_put_lastN:
  assumes "\<And>x s. P s \<Longrightarrow> length (pend s) \<le> n \<Longrightarrow> pend (put x s) = lastN n (pend s @ [x]) \<and> P (put x s)"
    and "P s" and "length (pend s) \<le> n"
  shows "pend (fold put xs s) = lastN n (pend s @ xs) \<and> P (fold put xs s)"
  using assms(2,3)
proof (induction xs arbitrary: s)
  case (Cons x xs)
  from assms(1)[OF Cons.prems] have p: "pend (put x s) = lastN n (pend s @ [x])" "P (put x s)" by auto
  then have "pend (fold put xs (put x s)) = lastN n (pend (put x s) @ xs) \<and> P (fold put xs (put x s))"
    by (intro Cons.IH) simp_all
  then show ?case by (simp add: p(1))
qed simp

lemma fold_put_keeps: "(\<And>x s. f (put x s) = f s) \<Longrightarrow> f (fold put xs s) = f s"
  by (induction xs arbitrary: s) simp_all

section \<open>The two shapes of a flush\<close>

text \<open>Item by item: take a batch, publish until an error, then put the tail from \<open>keep\<close> on back.
  The builder may depend on the state at the start of the flush (a topic that was read there).\<close>

definition itemFlush ::
  "('s \<Rightarrow> 'a list) \<Rightarrow> ('s \<Rightarrow> nat) \<Rightarrow> ('a \<Rightarrow> 's \<Rightarrow> 's) \<Rightarrow> ('s \<Rightarrow> 'a \<Rightarrow> 's \<Rightarrow> 'm option \<times> 's) \<Rightarrow>
   (pubOutcome \<Rightarrow> 's \<Rightarrow> bool \<times> 's) \<Rightarrow> ('a list \<Rightarrow> 's \<Rightarrow> 's) \<Rightarrow> (nat \<Rightarrow> 'a list \<Rightarrow> 's \<Rightarrow> 's) \<Rightarrow>
   (nat \<Rightarrow> pubOutcome) \<Rightarrow> 'a list \<Rightarrow> 's \<Rightarrow> 'a list \<times> 's" where
  "itemFlush pend batchOf put build pub setQ requeue outs arr s =
     (if pend s = [] then ([], fold put arr s)
      else let b = take (batchOf s) (pend s);
               (sent, _, s1) = publishItems (build s) pub outs b (setQ (drop (batchOf s) (pend s)) s);
               s2 = fold put arr s1
           in (sent, if length sent = length b then s2 else requeue (length sent) b s2))"

definition itemReach ::
  "('s \<Rightarrow> 'a list) \<Rightarrow> ('s \<Rightarrow> nat) \<Rightarrow> ('s \<Rightarrow> 'a \<Rightarrow> 's \<Rightarrow> 'm option \<times> 's) \<Rightarrow>
   (pubOutcome \<Rightarrow> 's \<Rightarrow> bool \<times> 's) \<Rightarrow> ('a list \<Rightarrow> 's \<Rightarrow> 's) \<Rightarrow>
   's \<Rightarrow> (nat \<Rightarrow> pubOutcome) \<Rightarrow> 'a list \<Rightarrow> nat" where
  "itemReach pend batchOf build pub setQ s outs b =
     length (fst (publishItems (build s) pub outs b (setQ (drop (batchOf s) (pend s)) s)))"

locale item_stream =
  fixes pend :: "'s \<Rightarrow> 'a list" and capOf :: "'s \<Rightarrow> nat" and batchOf :: "'s \<Rightarrow> nat"
    and put :: "'a \<Rightarrow> 's \<Rightarrow> 's" and build :: "'s \<Rightarrow> 'a \<Rightarrow> 's \<Rightarrow> 'm option \<times> 's"
    and pub :: "pubOutcome \<Rightarrow> 's \<Rightarrow> bool \<times> 's" and setQ :: "'a list \<Rightarrow> 's \<Rightarrow> 's"
    and requeue :: "nat \<Rightarrow> 'a list \<Rightarrow> 's \<Rightarrow> 's" and keep :: "nat \<Rightarrow> nat"
  assumes positive: "0 < capOf s"
    and put_law: "length (pend s) \<le> capOf s \<Longrightarrow> pend (put x s) = lastN (capOf s) (pend s @ [x])"
    and put_frame: "capOf (put x s) = capOf s"
    and build_frame: "pend (snd (build t x s)) = pend s \<and> capOf (snd (build t x s)) = capOf s"
    and pub_frame: "pend (snd (pub out s)) = pend s \<and> capOf (snd (pub out s)) = capOf s"
    and setQ_law: "pend (setQ q s) = q \<and> capOf (setQ q s) = capOf s"
    and requeue_law: "length (pend s) \<le> capOf s \<Longrightarrow> k < length b \<Longrightarrow>
      pend (requeue k b s) = take (capOf s) (drop (keep k) b @ pend s)"
    and requeue_frame: "capOf (requeue k b s) = capOf s"
    and keep_below: "keep k \<le> k"
begin

lemma puts: "length (pend s) \<le> capOf s \<Longrightarrow>
    pend (fold put arr s) = lastN (capOf s) (pend s @ arr) \<and> capOf (fold put arr s) = capOf s"
  using fold_put_lastN[where P = "\<lambda>t. capOf t = capOf s" and pend = pend and n = "capOf s" and put = put and s = s]
    put_law put_frame by auto

lemma publish_frame:
  "pend (snd (snd (publishItems (build t) pub outs b s))) = pend s"
  "capOf (snd (snd (publishItems (build t) pub outs b s))) = capOf s"
  using publishItems_keeps[of pend "build t" pub outs b s] publishItems_keeps[of capOf "build t" pub outs b s]
    build_frame pub_frame by auto

lemma flush_parts:
  fixes outs :: "nat \<Rightarrow> pubOutcome" and arr :: "'a list" and s :: 's
  assumes "length (pend s) \<le> capOf s" and "pend s \<noteq> []"
  defines "b \<equiv> take (batchOf s) (pend s)"
  defines "k \<equiv> itemReach pend batchOf build pub setQ s outs b"
  defines "rest \<equiv> lastN (capOf s) (drop (batchOf s) (pend s) @ arr)"
  shows "fst (itemFlush pend batchOf put build pub setQ requeue outs arr s) = take k b \<and>
    capOf (snd (itemFlush pend batchOf put build pub setQ requeue outs arr s)) = capOf s \<and>
    pend (snd (itemFlush pend batchOf put build pub setQ requeue outs arr s)) =
      (if k = length b then rest else take (capOf s) (drop (keep k) b @ rest))"
proof -
  let ?s0 = "setQ (drop (batchOf s) (pend s)) s"
  obtain sent ms s1 where r: "publishItems (build s) pub outs b ?s0 = (sent, ms, s1)" by (metis prod_cases3)
  have s1: "pend s1 = drop (batchOf s) (pend s)" "capOf s1 = capOf s"
    using publish_frame[of s outs b ?s0] setQ_law r by auto
  have le: "length sent \<le> length b" and eq: "sent = take (length sent) b"
    using publishItems_le[of "build s" pub outs b ?s0] publishItems_take[of "build s" pub outs b ?s0] r by auto
  have k: "k = length sent" by (simp add: k_def itemReach_def r)
  have f: "pend (fold put arr s1) = rest" "capOf (fold put arr s1) = capOf s"
    using puts[of s1 arr] s1 assms(1) by (auto simp: rest_def)
  have len: "length rest \<le> capOf s" by (simp add: rest_def)
  have flush: "itemFlush pend batchOf put build pub setQ requeue outs arr s =
      (sent, if length sent = length b then fold put arr s1 else requeue (length sent) b (fold put arr s1))"
    using assms(2) r unfolding itemFlush_def b_def by simp
  show ?thesis
  proof (cases "length sent = length b")
    case True
    with flush f eq k show ?thesis by simp
  next
    case False
    then have "length sent < length b" using le by simp
    with requeue_law[of "fold put arr s1" "length sent" b] len f
    have "pend (requeue (length sent) b (fold put arr s1)) = take (capOf s) (drop (keep (length sent)) b @ rest)" by simp
    with False flush f eq k requeue_frame show ?thesis by simp
  qed
qed

lemma flush_empty:
  assumes "pend s = []"
  shows "itemFlush pend batchOf put build pub setQ requeue outs arr s = ([], fold put arr s) \<and>
    pend (fold put arr s) = lastN (capOf s) arr \<and> capOf (fold put arr s) = capOf s"
  using assms puts[of s arr] positive[of s] by (simp add: itemFlush_def)

lemma flush_cap_any:
  "capOf (snd (itemFlush pend batchOf put build pub setQ requeue outs arr s)) = capOf s"
proof -
  have f: "capOf (fold put arr t) = capOf t" for t by (rule fold_put_keeps) (rule put_frame)
  show ?thesis
    unfolding itemFlush_def using publish_frame(2) setQ_law requeue_frame
    by (simp add: f case_prod_beta Let_def)
qed

end

sublocale item_stream \<subseteq> outbox pend capOf batchOf put
  "itemFlush pend batchOf put build pub setQ requeue" "itemReach pend batchOf build pub setQ" keep
proof unfold_locales
  fix s x ok arr b k
  show "0 < capOf s" by (rule positive)
  show "capOf (put x s) = capOf s" by (rule put_frame)
  show "keep k \<le> k" by (rule keep_below)
  show "itemReach pend batchOf build pub setQ s ok b \<le> length b"
    by (simp add: itemReach_def publishItems_le)
  show "capOf (snd (itemFlush pend batchOf put build pub setQ requeue ok arr s)) = capOf s" by (rule flush_cap_any)
  assume len: "length (pend s) \<le> capOf s"
  show "pend (put x s) = lastN (capOf s) (pend s @ [x])" by (rule put_law[OF len])
  show "fst (itemFlush pend batchOf put build pub setQ requeue ok arr s) =
      take (itemReach pend batchOf build pub setQ s ok (take (batchOf s) (pend s))) (take (batchOf s) (pend s))"
    using flush_parts[OF len] flush_empty[of s ok arr] by (cases "pend s = []") auto
  show "pend (snd (itemFlush pend batchOf put build pub setQ requeue ok arr s)) =
      (let b = take (batchOf s) (pend s); rest = lastN (capOf s) (drop (batchOf s) (pend s) @ arr);
           k = itemReach pend batchOf build pub setQ s ok b
       in if k = length b then rest else take (capOf s) (drop (keep k) b @ rest))"
    using flush_parts[OF len] flush_empty[of s ok arr]
    by (cases "pend s = []") (auto simp: Let_def itemReach_def)
qed

locale exact_item_stream = item_stream +
  assumes keep_is_all: "keep k = k"

sublocale exact_item_stream \<subseteq> exact_outbox pend capOf batchOf put
  "itemFlush pend batchOf put build pub setQ requeue" "itemReach pend batchOf build pub setQ" keep
  by unfold_locales (rule keep_is_all)

text \<open>All at once: the whole queue is one message.\<close>

definition batchFlush ::
  "('s \<Rightarrow> 'a list) \<Rightarrow> ('a \<Rightarrow> 's \<Rightarrow> 's) \<Rightarrow> (pubOutcome \<Rightarrow> 's \<Rightarrow> bool \<times> 's) \<Rightarrow> ('a list \<Rightarrow> 's \<Rightarrow> 's) \<Rightarrow>
   ('a list \<Rightarrow> 's \<Rightarrow> 's) \<Rightarrow> (nat \<Rightarrow> pubOutcome) \<Rightarrow> 'a list \<Rightarrow> 's \<Rightarrow> 'a list \<times> 's" where
  "batchFlush pend put pub setQ requeue outs arr s =
     (if pend s = [] then ([], fold put arr s)
      else let (ok, s1) = pub (outs 0) (setQ [] s); s2 = fold put arr s1
           in if ok then (pend s, s2) else ([], requeue (pend s) s2))"

definition batchReach ::
  "(pubOutcome \<Rightarrow> 's \<Rightarrow> bool \<times> 's) \<Rightarrow> ('a list \<Rightarrow> 's \<Rightarrow> 's) \<Rightarrow> 's \<Rightarrow> (nat \<Rightarrow> pubOutcome) \<Rightarrow> 'a list \<Rightarrow> nat" where
  "batchReach pub setQ s outs b = (if fst (pub (outs 0) (setQ [] s)) then length b else 0)"

locale batch_stream =
  fixes pend :: "'s \<Rightarrow> 'a list" and capOf :: "'s \<Rightarrow> nat" and put :: "'a \<Rightarrow> 's \<Rightarrow> 's"
    and pub :: "pubOutcome \<Rightarrow> 's \<Rightarrow> bool \<times> 's" and setQ :: "'a list \<Rightarrow> 's \<Rightarrow> 's" and requeue :: "'a list \<Rightarrow> 's \<Rightarrow> 's"
  assumes positive: "0 < capOf s"
    and put_law: "length (pend s) \<le> capOf s \<Longrightarrow> pend (put x s) = lastN (capOf s) (pend s @ [x])"
    and put_frame: "capOf (put x s) = capOf s"
    and pub_frame: "pend (snd (pub out s)) = pend s \<and> capOf (snd (pub out s)) = capOf s"
    and setQ_law: "pend (setQ q s) = q \<and> capOf (setQ q s) = capOf s"
    and requeue_law: "length (pend s) \<le> capOf s \<Longrightarrow> b \<noteq> [] \<Longrightarrow>
      pend (requeue b s) = take (capOf s) (b @ pend s)"
    and requeue_frame: "capOf (requeue b s) = capOf s"
begin

lemma puts: "length (pend s) \<le> capOf s \<Longrightarrow>
    pend (fold put arr s) = lastN (capOf s) (pend s @ arr) \<and> capOf (fold put arr s) = capOf s"
  using fold_put_lastN[where P = "\<lambda>t. capOf t = capOf s" and pend = pend and n = "capOf s" and put = put and s = s]
    put_law put_frame by auto

lemma flush_cap_any: "capOf (snd (batchFlush pend put pub setQ requeue outs arr s)) = capOf s"
proof -
  have f: "capOf (fold put arr t) = capOf t" for t by (rule fold_put_keeps) (rule put_frame)
  show ?thesis
    unfolding batchFlush_def using pub_frame setQ_law requeue_frame by (simp add: f case_prod_beta Let_def)
qed

lemma flush_parts:
  fixes outs :: "nat \<Rightarrow> pubOutcome" and arr :: "'a list" and s :: 's
  assumes "length (pend s) \<le> capOf s"
  defines "k \<equiv> batchReach pub setQ s outs (pend s)"
  shows "fst (batchFlush pend put pub setQ requeue outs arr s) = take k (pend s) \<and>
    pend (snd (batchFlush pend put pub setQ requeue outs arr s)) =
      (if k = length (pend s) then lastN (capOf s) arr
       else take (capOf s) (drop k (pend s) @ lastN (capOf s) arr))"
proof (cases "pend s = []")
  case True
  with puts[of s arr] positive[of s] show ?thesis by (simp add: batchFlush_def k_def batchReach_def)
next
  case False
  define s1 where "s1 = snd (pub (outs 0) (setQ [] s))"
  have "pend s1 = [] \<and> capOf s1 = capOf s" using pub_frame setQ_law by (simp add: s1_def)
  with puts[of s1 arr] have f: "pend (fold put arr s1) = lastN (capOf s) arr" "capOf (fold put arr s1) = capOf s" by auto
  then have "pend (requeue (pend s) (fold put arr s1)) = take (capOf s) (pend s @ lastN (capOf s) arr)"
    using requeue_law[of "fold put arr s1" "pend s"] False by simp
  with False f show ?thesis
    by (simp add: batchFlush_def case_prod_beta Let_def k_def batchReach_def flip: s1_def)
qed

end

sublocale batch_stream \<subseteq> exact_outbox pend capOf "\<lambda>s. length (pend s)" put
  "batchFlush pend put pub setQ requeue" "batchReach pub setQ" "\<lambda>k. k"
proof unfold_locales
  fix s x ok arr b k
  show "0 < capOf s" by (rule positive)
  show "capOf (put x s) = capOf s" by (rule put_frame)
  show "k \<le> (k::nat)" by simp
  show "batchReach pub setQ s ok b \<le> length b" by (simp add: batchReach_def)
  show "capOf (snd (batchFlush pend put pub setQ requeue ok arr s)) = capOf s" by (rule flush_cap_any)
  assume len: "length (pend s) \<le> capOf s"
  show "pend (put x s) = lastN (capOf s) (pend s @ [x])" by (rule put_law[OF len])
  show "fst (batchFlush pend put pub setQ requeue ok arr s) =
      take (batchReach pub setQ s ok (take (length (pend s)) (pend s))) (take (length (pend s)) (pend s))"
    using flush_parts[OF len] by simp
  show "pend (snd (batchFlush pend put pub setQ requeue ok arr s)) =
      (let b = take (length (pend s)) (pend s); rest = lastN (capOf s) (drop (length (pend s)) (pend s) @ arr);
           k = batchReach pub setQ s ok b
       in if k = length b then rest else take (capOf s) (drop k b @ rest))"
    using flush_parts[OF len] by (simp add: Let_def)
qed simp

section \<open>The streams of the adapters\<close>

lemma prepend_cap: "0 < n \<Longrightarrow> length q \<le> nat n \<Longrightarrow> prependQueueWithCap q items n = take (nat n) (items @ q)"
  using prepend_eq[of "nat n" q items] by simp

lemma append_cap: "0 < n \<Longrightarrow> length q \<le> nat n \<Longrightarrow> appendQueueItemWithCap q x n = lastN (nat n) (q @ [x])"
  using appendItem_lastN[of "nat n" q x] by simp

lemmas stream_simps = append_cap prepend_cap mqttPendingDataCap_def mqttPendingAlarmCap_def
  xunjiPendingDataCap_def xunjiPendingAlarmCap_def defaultRealtimeQueue_def defaultAlarmQueue_def
  case_prod_beta Let_def

interpretation mqttData: exact_item_stream mq_pendingData "\<lambda>_. 1000" "\<lambda>s. length (mq_pendingData s)"
  "\<lambda>d. mqtt_Send (Some d)" "\<lambda>_ d a. (Some (mqtt_dataMessage (mq_topic a) d), a)" "mqtt_publish now"
  "\<lambda>q s. s\<lparr>mq_pendingData := q\<rparr>"
  "\<lambda>k b s. mqtt_askReconnect (s\<lparr>mq_pendingData := prependQueueWithCap (mq_pendingData s) (drop k b) mqttPendingDataCap\<rparr>)"
  "\<lambda>k. k" for now
  by unfold_locales (simp_all add: stream_simps mqtt_Send_def mqtt_publish_def mqtt_askReconnect_def)

interpretation mqttAlarms: exact_item_stream mq_pendingAlarms "\<lambda>_. 100" "\<lambda>s. length (mq_pendingAlarms s)"
  "\<lambda>d. mqtt_SendAlarm (Some d)" "\<lambda>_ d a. (Some (mqtt_alarmMessage now (mq_alarmTopic a) d), a)" "mqtt_publish now"
  "\<lambda>q s. s\<lparr>mq_pendingAlarms := q\<rparr>"
  "\<lambda>k b s. mqtt_askReconnect (s\<lparr>mq_pendingAlarms := prependQueueWithCap (mq_pendingAlarms s) (drop k b) mqttPendingAlarmCap\<rparr>)"
  "\<lambda>k. k" for now
  by unfold_locales (simp_all add: stream_simps mqtt_SendAlarm_def mqtt_publish_def mqtt_askReconnect_def)

interpretation xunjiAlarms: exact_item_stream xj_pendingAlarms "\<lambda>_. 100" "\<lambda>s. length (xj_pendingAlarms s)"
  "\<lambda>d. xunji_SendAlarm (Some d)" "\<lambda>_ d a. (Some (xunji_buildAlarmMessage now d), a)" "xunji_publishBytes now"
  "\<lambda>q s. s\<lparr>xj_pendingAlarms := q\<rparr>"
  "\<lambda>k b s. xunji_askReconnect (s\<lparr>xj_pendingAlarms := prependQueueWithCap (xj_pendingAlarms s) (drop k b) xunjiPendingAlarmCap\<rparr>)"
  "\<lambda>k. k" for now
  by unfold_locales (simp_all add: stream_simps xunji_SendAlarm_def xunji_publishBytes_def xunji_askReconnect_def)

interpretation xunjiData: batch_stream xj_pendingData "\<lambda>_. 1000"
  "\<lambda>d. xunji_Send (Some d)" "xunji_publishBytes now" "\<lambda>q s. s\<lparr>xj_pendingData := q\<rparr>"
  "\<lambda>b s. xunji_askReconnect (s\<lparr>xj_pendingData := prependQueueWithCap (xj_pendingData s) b xunjiPendingDataCap\<rparr>)" for now
  by unfold_locales (simp_all add: stream_simps xunji_Send_def xunji_publishBytes_def xunji_askReconnect_def)

text \<open>The configured capacities, with their default.\<close>

definition effectiveCap :: "int \<Rightarrow> nat" where
  "effectiveCap c = nat (if c \<le> 0 then 200 else c)"

interpretation sagooData: item_stream sg_latestData "\<lambda>s. effectiveCap (sg_realtimeCap s)" "\<lambda>s. length (sg_latestData s)"
  "\<lambda>d. sagoo_Send (Some d)" "\<lambda>t. sagoo_buildMessage now (sg_topic t)" sagoo_publish
  "\<lambda>q s. s\<lparr>sg_latestData := q\<rparr>" "\<lambda>k b. sagoo_prependRealtime b" "\<lambda>k. 0" for now
  by unfold_locales
     (auto simp: stream_simps effectiveCap_def sagoo_Send_def sagoo_enqueueRealtimeLocked_def sagoo_buildMessage_def
       sagoo_nextID_def sagoo_publish_def sagoo_prependRealtime_def split: option.splits)

interpretation sagooAlarms: item_stream sg_alarmQueue "\<lambda>s. effectiveCap (sg_alarmCap s)" "\<lambda>s. nat (sg_alarmBatch s)"
  "\<lambda>d. sagoo_SendAlarm (Some d)" "\<lambda>t. sagoo_buildAlarmMessage now (sg_alarmTopic t)" sagoo_publish
  "\<lambda>q s. s\<lparr>sg_alarmQueue := q\<rparr>" "\<lambda>k b. sagoo_prependAlarms b" "\<lambda>k. 0" for now
  by unfold_locales
     (auto simp: stream_simps effectiveCap_def sagoo_SendAlarm_def sagoo_enqueueAlarmLocked_def sagoo_buildAlarmMessage_def
       sagoo_nextID_def sagoo_publish_def sagoo_prependAlarms_def split: option.splits)

interpretation pandaxData: batch_stream px_realtimeQueue "\<lambda>s. effectiveCap (px_realtimeCap s)"
  "\<lambda>d. pandax_Send (Some d)" "pandax_publish now" "\<lambda>q s. s\<lparr>px_realtimeQueue := q\<rparr>" pandax_prependRealtime for now
  by unfold_locales
     (auto simp: stream_simps effectiveCap_def pandax_Send_def pandax_enqueueRealtimeLocked_def pandax_publish_def
       pandax_prependRealtime_def)

interpretation pandaxAlarms: item_stream px_alarmQueue "\<lambda>s. effectiveCap (px_alarmCap s)" "\<lambda>s. nat (px_alarmBatch s)"
  "\<lambda>d. pandax_SendAlarm (Some d)" "\<lambda>t. pandax_buildAlarmPublish now" "pandax_publish now"
  "\<lambda>q s. s\<lparr>px_alarmQueue := q\<rparr>" "\<lambda>k b. pandax_prependAlarms b" "\<lambda>k. 0" for now
  by unfold_locales
     (auto simp: stream_simps effectiveCap_def pandax_SendAlarm_def pandax_enqueueAlarmLocked_def pandax_buildAlarmPublish_def
       pandax_publish_def pandax_prependAlarms_def)

interpretation ithingsData: item_stream it_realtimeQueue "\<lambda>s. effectiveCap (it_realtimeCap s)" "\<lambda>s. length (it_realtimeQueue s)"
  "\<lambda>d. ithings_Send (Some d)" "\<lambda>t. ithings_buildRealtimePublish L now" "ithings_publish now"
  "\<lambda>q s. s\<lparr>it_realtimeQueue := q\<rparr>" "\<lambda>k b. ithings_prependRealtime b" "\<lambda>k. 0" for L now
  by unfold_locales
     (auto simp: stream_simps effectiveCap_def ithings_Send_def ithings_enqueueRealtimeLocked_def
       ithings_buildRealtimePublish_def ithings_nextID_def ithings_publish_def ithings_prependRealtime_def
       split: option.splits pubResult.splits)

interpretation ithingsAlarms: item_stream it_alarmQueue "\<lambda>s. effectiveCap (it_alarmCap s)" "\<lambda>s. nat (it_alarmBatch s)"
  "\<lambda>d. ithings_SendAlarm (Some d)" "\<lambda>t. ithings_buildAlarmPublish L now" "ithings_publish now"
  "\<lambda>q s. s\<lparr>it_alarmQueue := q\<rparr>" "\<lambda>k b. ithings_prependAlarms b" "\<lambda>k. 0" for L now
  by unfold_locales
     (auto simp: stream_simps effectiveCap_def ithings_SendAlarm_def ithings_enqueueAlarmLocked_def
       ithings_buildAlarmPublish_def ithings_nextID_def ithings_publish_def ithings_prependAlarms_def
       split: option.splits pubResult.splits)

section \<open>The flushes have these shapes\<close>

text \<open>What a flush confirms and the state it leaves; the messages are left out.\<close>

definition confirmed3 :: "'a list \<times> 'm list \<times> 's \<Rightarrow> 'a list \<times> 's" where
  "confirmed3 r = (fst r, snd (snd r))"

definition confirmed4 :: "'a list \<times> 'm list \<times> bool \<times> 's \<Rightarrow> 'a list \<times> 's" where
  "confirmed4 r = (fst r, snd (snd (snd r)))"

lemmas shape_simps = itemFlush_def batchFlush_def confirmed3_def confirmed4_def case_prod_beta Let_def

lemma sent_all: "length (fst (publishItems build pub outs b s)) = length b \<longleftrightarrow>
    drop (length (fst (publishItems build pub outs b s))) b = []"
  using publishItems_le[of build pub outs b s] by auto

lemma mqttData_shape: "(\<lambda>outs arr s. confirmed3 (mqtt_flushPendingData now outs arr s)) =
    itemFlush mq_pendingData (\<lambda>s. length (mq_pendingData s)) (\<lambda>d. mqtt_Send (Some d))
      (\<lambda>_ d a. (Some (mqtt_dataMessage (mq_topic a) d), a)) (mqtt_publish now) (\<lambda>q s. s\<lparr>mq_pendingData := q\<rparr>)
      (\<lambda>k b s. mqtt_askReconnect (s\<lparr>mq_pendingData := prependQueueWithCap (mq_pendingData s) (drop k b) mqttPendingDataCap\<rparr>))"
  by (intro ext) (simp add: mqtt_flushPendingData_def shape_simps sent_all)

lemma mqttAlarms_shape: "(\<lambda>outs arr s. confirmed3 (mqtt_flushAlarms now outs arr s)) =
    itemFlush mq_pendingAlarms (\<lambda>s. length (mq_pendingAlarms s)) (\<lambda>d. mqtt_SendAlarm (Some d))
      (\<lambda>_ d a. (Some (mqtt_alarmMessage now (mq_alarmTopic a) d), a)) (mqtt_publish now) (\<lambda>q s. s\<lparr>mq_pendingAlarms := q\<rparr>)
      (\<lambda>k b s. mqtt_askReconnect (s\<lparr>mq_pendingAlarms := prependQueueWithCap (mq_pendingAlarms s) (drop k b) mqttPendingAlarmCap\<rparr>))"
  by (intro ext) (simp add: mqtt_flushAlarms_def shape_simps sent_all)

lemma xunjiAlarms_shape: "(\<lambda>outs arr s. confirmed3 (xunji_flushAlarms now outs arr s)) =
    itemFlush xj_pendingAlarms (\<lambda>s. length (xj_pendingAlarms s)) (\<lambda>d. xunji_SendAlarm (Some d))
      (\<lambda>_ d a. (Some (xunji_buildAlarmMessage now d), a)) (xunji_publishBytes now) (\<lambda>q s. s\<lparr>xj_pendingAlarms := q\<rparr>)
      (\<lambda>k b s. xunji_askReconnect (s\<lparr>xj_pendingAlarms := prependQueueWithCap (xj_pendingAlarms s) (drop k b) xunjiPendingAlarmCap\<rparr>))"
  by (intro ext) (simp add: xunji_flushAlarms_def shape_simps sent_all)

lemma xunjiData_shape: "(\<lambda>outs arr s. confirmed3 (xunji_flushPendingData L now outs arr s)) =
    batchFlush xj_pendingData (\<lambda>d. xunji_Send (Some d)) (xunji_publishBytes now) (\<lambda>q s. s\<lparr>xj_pendingData := q\<rparr>)
      (\<lambda>b s. xunji_askReconnect (s\<lparr>xj_pendingData := prependQueueWithCap (xj_pendingData s) b xunjiPendingDataCap\<rparr>))"
  by (intro ext) (simp add: xunji_flushPendingData_def shape_simps)

lemma pandaxData_shape: "(\<lambda>outs arr s. confirmed4 (pandax_flushRealtime L now outs arr s)) =
    batchFlush px_realtimeQueue (\<lambda>d. pandax_Send (Some d)) (pandax_publish now) (\<lambda>q s. s\<lparr>px_realtimeQueue := q\<rparr>)
      pandax_prependRealtime"
  by (intro ext) (simp add: pandax_flushRealtime_def shape_simps)

lemma min_batch:
  "take (min n (length xs)) xs = take n xs" "drop (min n (length xs)) xs = drop n xs"
  "take (min (length xs) n) xs = take n xs" "drop (min (length xs) n) xs = drop n xs"
  "min (length xs) n = min n (length xs)"
  by (auto simp: min_def)

lemma sagooData_shape: "(\<lambda>outs arr s. confirmed4 (sagoo_flushLatestData now outs arr s)) =
    itemFlush sg_latestData (\<lambda>s. length (sg_latestData s)) (\<lambda>d. sagoo_Send (Some d))
      (\<lambda>t. sagoo_buildMessage now (sg_topic t)) sagoo_publish (\<lambda>q s. s\<lparr>sg_latestData := q\<rparr>) (\<lambda>k. sagoo_prependRealtime)"
  by (intro ext) (simp add: sagoo_flushLatestData_def shape_simps)

lemma sagooAlarms_shape: "(\<lambda>outs arr s. confirmed4 (sagoo_flushAlarmBatch now outs arr s)) =
    itemFlush sg_alarmQueue (\<lambda>s. nat (sg_alarmBatch s)) (\<lambda>d. sagoo_SendAlarm (Some d))
      (\<lambda>t. sagoo_buildAlarmMessage now (sg_alarmTopic t)) sagoo_publish (\<lambda>q s. s\<lparr>sg_alarmQueue := q\<rparr>) (\<lambda>k. sagoo_prependAlarms)"
  by (intro ext) (simp add: sagoo_flushAlarmBatch_def shape_simps min_batch)

lemma pandaxAlarms_shape: "(\<lambda>outs arr s. confirmed4 (pandax_flushAlarmBatch now outs arr s)) =
    itemFlush px_alarmQueue (\<lambda>s. nat (px_alarmBatch s)) (\<lambda>d. pandax_SendAlarm (Some d))
      (\<lambda>t. pandax_buildAlarmPublish now) (pandax_publish now) (\<lambda>q s. s\<lparr>px_alarmQueue := q\<rparr>) (\<lambda>k. pandax_prependAlarms)"
  by (intro ext) (simp add: pandax_flushAlarmBatch_def shape_simps min_batch)

lemma ithingsData_shape: "(\<lambda>outs arr s. confirmed4 (ithings_flushRealtime L now outs arr s)) =
    itemFlush it_realtimeQueue (\<lambda>s. length (it_realtimeQueue s)) (\<lambda>d. ithings_Send (Some d))
      (\<lambda>t. ithings_buildRealtimePublish L now) (ithings_publish now) (\<lambda>q s. s\<lparr>it_realtimeQueue := q\<rparr>) (\<lambda>k. ithings_prependRealtime)"
  by (intro ext) (simp add: ithings_flushRealtime_def shape_simps)

lemma ithingsAlarms_shape: "(\<lambda>outs arr s. confirmed4 (ithings_flushAlarmBatch L now outs arr s)) =
    itemFlush it_alarmQueue (\<lambda>s. nat (it_alarmBatch s)) (\<lambda>d. ithings_SendAlarm (Some d))
      (\<lambda>t. ithings_buildAlarmPublish L now) (ithings_publish now) (\<lambda>q s. s\<lparr>it_alarmQueue := q\<rparr>) (\<lambda>k. ithings_prependAlarms)"
  by (intro ext) (simp add: ithings_flushAlarmBatch_def shape_simps min_batch)

section \<open>Delivery\<close>


text \<open>A configured adapter with its loop running, and outcomes for the examples.\<close>

definition exampleLife :: lifecycle where
  "exampleLife = \<lparr>lc_initialized = True, lc_enabled = True, lc_connected = True, lc_loopState = adapterLoopRunning,
     lc_stopChan = Some 0, lc_workSignal = Some False, lc_reconnect = Some False, lc_client = Some True,
     lc_nextChan = 1, lc_closed = [], lc_loops = [0]\<rparr>"

definition exampleMQTT :: MQTTAdapter where
  "exampleMQTT = \<lparr>mq_life = exampleLife, mq_topic = ''t'', mq_alarmTopic = ''t/alarm'', mq_pendingData = [],
     mq_pendingAlarms = [], mq_lastSend = 0, mq_interval = Second\<rparr>"

definition exampleXunji :: XunjiAdapter where
  "exampleXunji = \<lparr>xj_life = exampleLife, xj_topic = ''t'', xj_alarmTopic = ''t'', xj_subDeviceTokenMode = [],
     xj_pendingData = [], xj_pendingAlarms = [], xj_lastSend = 0, xj_interval = Second\<rparr>"

definition failsAt :: "nat \<Rightarrow> nat \<Rightarrow> pubOutcome" where
  "failsAt k i = \<lparr>po_connect = ConnOK, po_publish = (if i = k then PubTimeout else PubOK)\<rparr>"



definition exampleSagoo :: SagooAdapter where
  "exampleSagoo = \<lparr>sg_life = exampleLife, sg_config = Some (''p'', ''d''), sg_topic = ''t'', sg_alarmTopic = ''t'',
     sg_alarmBatch = 2, sg_alarmCap = 5, sg_realtimeCap = 5, sg_commandCap = 5, sg_latestData = [],
     sg_alarmQueue = [], sg_commandQueue = [], sg_seq = 0, sg_reportEvery = Second\<rparr>"

definition examplePandaX :: PandaXAdapter where
  "examplePandaX = \<lparr>px_life = exampleLife, px_config = None, px_gatewayTelemetryTopic = ''t'', px_alarmTopic = ''a'', px_rpcResponseTopic = ''r'',
     px_alarmBatch = 2, px_alarmCap = 5, px_realtimeCap = 5, px_commandCap = 5, px_realtimeQueue = [], px_alarmQueue = [],
     px_commandQueue = [], px_lastSend = 0, px_reportEvery = Second\<rparr>"

definition exampleIThings :: IThingsAdapter where
  "exampleIThings = \<lparr>it_life = exampleLife, it_config = Some (''p'', ''d''), it_upPropertyTopicTemplate = ''t'',
     it_upEventTopicTemplate = ''e'', it_upActionTopicTemplate = ''c'', it_alarmEventID = [], it_alarmEventType = [], it_deviceNameMode = [],
     it_subDeviceNameMode = [], it_alarmBatch = 2, it_alarmCap = 5, it_realtimeCap = 5, it_commandCap = 5,
     it_realtimeQueue = [], it_alarmQueue = [], it_commandQueue = [], it_requestStates = Some [], it_lastSend = 0, it_seq = 0, it_reportEvery = Second\<rparr>"


text \<open>A failed batch is sent again from its start. When a flush of the Sagoo adapter fails after
  confirming some samples, these samples are back at the front of the queue, so that the next
  flush publishes them a second time; what the capacity cuts off on the way is the newest data,
  not the oldest.\<close>
theorem sagoo_resends_confirmed:
  assumes "length (sg_latestData a) \<le> effectiveCap (sg_realtimeCap a)"
    and "sagoo_flushLatestData now outs meanwhile a = (sent, ms, err, a')" and "err"
  shows "prefix sent (sg_latestData a') \<and> prefix sent (sg_latestData a) \<and>
    sg_latestData a' = take (effectiveCap (sg_realtimeCap a))
      (sg_latestData a @ lastN (effectiveCap (sg_realtimeCap a)) meanwhile)"
proof -
  let ?f = "itemFlush sg_latestData (\<lambda>s. length (sg_latestData s)) (\<lambda>d. sagoo_Send (Some d))
      (\<lambda>t. sagoo_buildMessage now (sg_topic t)) sagoo_publish (\<lambda>q s. s\<lparr>sg_latestData := q\<rparr>) (\<lambda>k. sagoo_prependRealtime)
      outs meanwhile a"
  have f: "?f = (sent, a')"
    using fun_cong[OF fun_cong[OF fun_cong[OF sagooData_shape[of now], of outs], of meanwhile], of a] assms(2)
    by (simp add: confirmed4_def)
  have ne: "sg_latestData a \<noteq> []" and short: "length sent \<noteq> length (sg_latestData a)"
    using assms(2,3) by (auto simp: sagoo_flushLatestData_def case_prod_beta Let_def split: if_splits)
  from sagooData.flush_parts[OF assms(1) ne, of now outs meanwhile] f short
  have sent: "prefix sent (sg_latestData a)"
    and q: "sg_latestData a' = take (effectiveCap (sg_realtimeCap a))
      (sg_latestData a @ lastN (effectiveCap (sg_realtimeCap a)) meanwhile)"
    by (auto simp: take_is_prefix split: if_splits)
  then have "prefix sent (sg_latestData a')" using assms(1) by simp
  with sent q show ?thesis by blast
qed

theorem sagoo_resends_confirmed_witness:
  "let a = exampleSagoo\<lparr>sg_latestData := [exampleData, exampleData]\<rparr>;
       (sent, ms, err, a') = sagoo_flushLatestData 5 (failsAt 1) [] a
   in sent = [exampleData] \<and> err \<and> prefix sent (sg_latestData a')"
proof -
  let ?a = "exampleSagoo\<lparr>sg_latestData := [exampleData, exampleData]\<rparr>"
  obtain sent ms err a' where r: "sagoo_flushLatestData 5 (failsAt 1) [] ?a = (sent, ms, err, a')" by (metis prod_cases4)
  have "sent = [exampleData]" "err"
    using r by (auto simp: sagoo_flushLatestData_def exampleSagoo_def exampleLife_def sagoo_publish_def failsAt_def
        sagoo_buildMessage_def case_prod_beta Let_def sagoo_nextID_def sagoo_defaultIdentity_def)
  with sagoo_resends_confirmed[OF _ r] r show ?thesis
    by (simp add: exampleSagoo_def effectiveCap_def)
qed

section \<open>Stopping\<close>

lemma lifecycle_publish_disabled: "\<not> lc_enabled l \<Longrightarrow> lifecycle_publish l out = (False, l)"
  by (simp add: lifecycle_publish_def)

text \<open>What asking for a reconnect leaves alone.\<close>

definition lifeFrame :: "lifecycle \<Rightarrow> bool \<times> bool \<times> adapterLoopState \<times> nat option \<times> nat list \<times> nat list \<times> nat" where
  "lifeFrame l = (lc_initialized l, lc_enabled l, lc_loopState l, lc_stopChan l, lc_closed l, lc_loops l, lc_nextChan l)"

lemma signalReconnect_frame [simp]: "lifeFrame (signalReconnect l) = lifeFrame l"
  by (simp add: signalReconnect_def lifeFrame_def)

lemma mqtt_flush_disabled:
  assumes "\<not> lc_enabled (mq_life a)" and "length (mq_pendingData a) \<le> 1000" and "length (mq_pendingAlarms a) \<le> 100"
  shows "\<exists>a'. mqtt_flushPendingData now outs [] a = ([], [], a') \<and> lifeFrame (mq_life a') = lifeFrame (mq_life a) \<and>
      mq_pendingData a' = mq_pendingData a \<and> mq_pendingAlarms a' = mq_pendingAlarms a"
    and "\<exists>a'. mqtt_flushAlarms now outs [] a = ([], [], a') \<and> lifeFrame (mq_life a') = lifeFrame (mq_life a) \<and>
      mq_pendingData a' = mq_pendingData a \<and> mq_pendingAlarms a' = mq_pendingAlarms a"
proof -
  have refuse: "mqtt_publish now out (a\<lparr>mq_pendingData := []\<rparr>) = (False, a\<lparr>mq_pendingData := []\<rparr>)"
    "mqtt_publish now out (a\<lparr>mq_pendingAlarms := []\<rparr>) = (False, a\<lparr>mq_pendingAlarms := []\<rparr>)" for out
    using assms(1) by (simp_all add: mqtt_publish_def lifecycle_publish_disabled)
  have d: "publishItems (\<lambda>d a. (Some (mqtt_dataMessage (mq_topic a) d), a)) (mqtt_publish now) outs (mq_pendingData a)
      (a\<lparr>mq_pendingData := []\<rparr>) = ([], [], a\<lparr>mq_pendingData := []\<rparr>)"
    by (cases "mq_pendingData a") (simp_all add: refuse)
  have al: "publishItems (\<lambda>d a. (Some (mqtt_alarmMessage now (mq_alarmTopic a) d), a)) (mqtt_publish now) outs
      (mq_pendingAlarms a) (a\<lparr>mq_pendingAlarms := []\<rparr>) = ([], [], a\<lparr>mq_pendingAlarms := []\<rparr>)"
    by (cases "mq_pendingAlarms a") (simp_all add: refuse)
  show "\<exists>a'. mqtt_flushPendingData now outs [] a = ([], [], a') \<and> lifeFrame (mq_life a') = lifeFrame (mq_life a) \<and>
      mq_pendingData a' = mq_pendingData a \<and> mq_pendingAlarms a' = mq_pendingAlarms a"
    using assms(2) by (simp add: mqtt_flushPendingData_def d stream_simps mqtt_askReconnect_def)
  show "\<exists>a'. mqtt_flushAlarms now outs [] a = ([], [], a') \<and> lifeFrame (mq_life a') = lifeFrame (mq_life a) \<and>
      mq_pendingData a' = mq_pendingData a \<and> mq_pendingAlarms a' = mq_pendingAlarms a"
    using assms(3) by (simp add: mqtt_flushAlarms_def al stream_simps mqtt_askReconnect_def)
qed

lemma xunji_flush_disabled:
  assumes "\<not> lc_enabled (xj_life a)" and "length (xj_pendingData a) \<le> 1000" and "length (xj_pendingAlarms a) \<le> 100"
  shows "\<exists>a'. xunji_flushPendingData L now outs [] a = ([], [], a') \<and> lifeFrame (xj_life a') = lifeFrame (xj_life a) \<and>
      xj_pendingData a' = xj_pendingData a \<and> xj_pendingAlarms a' = xj_pendingAlarms a"
    and "\<exists>a'. xunji_flushAlarms now outs [] a = ([], [], a') \<and> lifeFrame (xj_life a') = lifeFrame (xj_life a) \<and>
      xj_pendingData a' = xj_pendingData a \<and> xj_pendingAlarms a' = xj_pendingAlarms a"
proof -
  have refuse: "xunji_publishBytes now out (a\<lparr>xj_pendingData := []\<rparr>) = (False, a\<lparr>xj_pendingData := []\<rparr>)"
    "xunji_publishBytes now out (a\<lparr>xj_pendingAlarms := []\<rparr>) = (False, a\<lparr>xj_pendingAlarms := []\<rparr>)" for out
    using assms(1) by (simp_all add: xunji_publishBytes_def lifecycle_publish_disabled)
  have al: "publishItems (\<lambda>d a. (Some (xunji_buildAlarmMessage now d), a)) (xunji_publishBytes now) outs
      (xj_pendingAlarms a) (a\<lparr>xj_pendingAlarms := []\<rparr>) = ([], [], a\<lparr>xj_pendingAlarms := []\<rparr>)"
    by (cases "xj_pendingAlarms a") (simp_all add: refuse)
  show "\<exists>a'. xunji_flushPendingData L now outs [] a = ([], [], a') \<and> lifeFrame (xj_life a') = lifeFrame (xj_life a) \<and>
      xj_pendingData a' = xj_pendingData a \<and> xj_pendingAlarms a' = xj_pendingAlarms a"
    using assms(2) by (simp add: xunji_flushPendingData_def refuse stream_simps xunji_askReconnect_def)
  show "\<exists>a'. xunji_flushAlarms now outs [] a = ([], [], a') \<and> lifeFrame (xj_life a') = lifeFrame (xj_life a) \<and>
      xj_pendingData a' = xj_pendingData a \<and> xj_pendingAlarms a' = xj_pendingAlarms a"
    using assms(3) by (simp add: xunji_flushAlarms_def al stream_simps xunji_askReconnect_def)
qed

lemma stop_from_ok:
  assumes "lifeOK l"
  obtains l' where "lifecycle_stopBegin l = Some l'" "\<not> lc_enabled l'" 
    "\<And>m. lifeFrame m = lifeFrame l' \<Longrightarrow> lc_loops (loopsExit m) = [] \<and>
       \<not> lc_enabled (lifecycle_stopEnd (lc_stopChan l) (loopsExit m))"
proof (cases "lc_enabled l")
  case True
  with assms obtain ch where ch: "lc_stopChan l = Some ch" "lc_loops l = [ch]" "ch \<notin> set (lc_closed l)"
    by (auto simp: lifeOK_def)
  show thesis
    by (rule that[of "l\<lparr>lc_enabled := False, lc_loopState := adapterLoopStopping, lc_closed := ch # lc_closed l\<rparr>"])
       (use True ch in \<open>auto simp: lifecycle_stopBegin_def lifeFrame_def loopsExit_def lifecycle_stopEnd_def Let_def\<close>)
next
  case False
  with assms show thesis
    by (intro that[of l]) (auto simp: lifecycle_stopBegin_def lifeOK_def lifeFrame_def loopsExit_def lifecycle_stopEnd_def Let_def)
qed

lemma mqtt_Stop_silent:
  assumes "lifeOK (mq_life a)" and len: "length (mq_pendingData a) \<le> 1000" "length (mq_pendingAlarms a) \<le> 100"
  shows "\<exists>a'. mqtt_Stop now o1 o2 a = Some ([], [], a') \<and> \<not> lc_enabled (mq_life a') \<and>
    mq_pendingData a' = mq_pendingData a \<and> mq_pendingAlarms a' = mq_pendingAlarms a"
proof -
  obtain l where l: "lifecycle_stopBegin (mq_life a) = Some l" "\<not> lc_enabled l"
    and fin: "\<And>m. lifeFrame m = lifeFrame l \<Longrightarrow> lc_loops (loopsExit m) = [] \<and>
       \<not> lc_enabled (lifecycle_stopEnd (lc_stopChan (mq_life a)) (loopsExit m))"
    using stop_from_ok[OF assms(1)] by blast
  obtain b where b: "mqtt_flushPendingData now o1 [] (a\<lparr>mq_life := l\<rparr>) = ([], [], b)" "lifeFrame (mq_life b) = lifeFrame l"
    "mq_pendingData b = mq_pendingData a" "mq_pendingAlarms b = mq_pendingAlarms a"
    using mqtt_flush_disabled(1)[of "a\<lparr>mq_life := l\<rparr>" now o1] l len by auto
  then have "\<not> lc_enabled (mq_life b)" using l(2) by (simp add: lifeFrame_def)
  then obtain d where d: "mqtt_flushAlarms now o2 [] b = ([], [], d)" "lifeFrame (mq_life d) = lifeFrame l"
    "mq_pendingData d = mq_pendingData a" "mq_pendingAlarms d = mq_pendingAlarms a"
    using mqtt_flush_disabled(2)[of b now o2] b len by auto
  show ?thesis
    using fin[of l] fin[OF d(2)] b d by (cases "lc_loops l = []") (simp_all add: mqtt_Stop_def l Let_def)
qed

lemma xunji_Stop_silent:
  assumes "lifeOK (xj_life a)" and len: "length (xj_pendingData a) \<le> 1000" "length (xj_pendingAlarms a) \<le> 100"
  shows "\<exists>a'. xunji_Stop L now o1 o2 a = Some ([], [], a') \<and> \<not> lc_enabled (xj_life a') \<and>
    xj_pendingData a' = xj_pendingData a \<and> xj_pendingAlarms a' = xj_pendingAlarms a"
proof -
  obtain l where l: "lifecycle_stopBegin (xj_life a) = Some l" "\<not> lc_enabled l"
    and fin: "\<And>m. lifeFrame m = lifeFrame l \<Longrightarrow> lc_loops (loopsExit m) = [] \<and>
       \<not> lc_enabled (lifecycle_stopEnd (lc_stopChan (xj_life a)) (loopsExit m))"
    using stop_from_ok[OF assms(1)] by blast
  obtain b where b: "xunji_flushPendingData L now o1 [] (a\<lparr>xj_life := l\<rparr>) = ([], [], b)" "lifeFrame (xj_life b) = lifeFrame l"
    "xj_pendingData b = xj_pendingData a" "xj_pendingAlarms b = xj_pendingAlarms a"
    using xunji_flush_disabled(1)[of "a\<lparr>xj_life := l\<rparr>" L now o1] l len by auto
  then have "\<not> lc_enabled (xj_life b)" using l(2) by (simp add: lifeFrame_def)
  then obtain d where d: "xunji_flushAlarms now o2 [] b = ([], [], d)" "lifeFrame (xj_life d) = lifeFrame l"
    "xj_pendingData d = xj_pendingData a" "xj_pendingAlarms d = xj_pendingAlarms a"
    using xunji_flush_disabled(2)[of b now o2] b len by auto
  show ?thesis
    using fin[of l] fin[OF d(2)] b d by (cases "lc_loops l = []") (simp_all add: xunji_Stop_def l Let_def)
qed

text \<open>C29: The final flush of the MQTT and Xunji adapters never sends anything. \<open>stop\<close> clears the
  enabled flag before the loop and \<open>Close\<close> flush, and \<open>publish\<close> refuses a disabled adapter: for
  every state between the manager's calls and for every behaviour of the broker, closing
  publishes no sample and no alarm, and the pending ones stay behind in the closed adapter.
  (The closing itself neither panics nor hangs.)\<close>
theorem close_flushes_nothing:
  assumes "lifeOK (mq_life a)" "length (mq_pendingData a) \<le> 1000" "length (mq_pendingAlarms a) \<le> 100"
    and "lifeOK (xj_life b)" "length (xj_pendingData b) \<le> 1000" "length (xj_pendingAlarms b) \<le> 100"
  shows "(\<exists>a'. mqtt_Close now o1 o2 o3 o4 a = Some ([], [], a') \<and> lc_client (mq_life a') = None \<and>
      mq_pendingData a' = mq_pendingData a \<and> mq_pendingAlarms a' = mq_pendingAlarms a) \<and>
    (\<exists>b'. xunji_Close L now o1 o2 o3 o4 b = Some ([], [], b') \<and> lc_client (xj_life b') = None \<and>
      xj_pendingData b' = xj_pendingData b \<and> xj_pendingAlarms b' = xj_pendingAlarms b)"
proof
  obtain a1 where a1: "mqtt_Stop now o1 o2 a = Some ([], [], a1)" "\<not> lc_enabled (mq_life a1)"
    "mq_pendingData a1 = mq_pendingData a" "mq_pendingAlarms a1 = mq_pendingAlarms a"
    using mqtt_Stop_silent[OF assms(1-3)] by blast
  obtain a2 where a2: "mqtt_flushPendingData now o3 [] a1 = ([], [], a2)" "lifeFrame (mq_life a2) = lifeFrame (mq_life a1)"
    "mq_pendingData a2 = mq_pendingData a" "mq_pendingAlarms a2 = mq_pendingAlarms a"
    using mqtt_flush_disabled(1)[of a1 now o3] a1 assms by auto
  then have "\<not> lc_enabled (mq_life a2)" using a1(2) by (simp add: lifeFrame_def)
  then obtain a3 where a3: "mqtt_flushAlarms now o4 [] a2 = ([], [], a3)"
    "mq_pendingData a3 = mq_pendingData a" "mq_pendingAlarms a3 = mq_pendingAlarms a"
    using mqtt_flush_disabled(2)[of a2 now o4] a2 assms by auto
  show "\<exists>a'. mqtt_Close now o1 o2 o3 o4 a = Some ([], [], a') \<and> lc_client (mq_life a') = None \<and>
      mq_pendingData a' = mq_pendingData a \<and> mq_pendingAlarms a' = mq_pendingAlarms a"
    by (simp add: mqtt_Close_def a1 a2 a3 lifecycle_closeEnd_def)
next
  obtain b1 where b1: "xunji_Stop L now o1 o2 b = Some ([], [], b1)" "\<not> lc_enabled (xj_life b1)"
    "xj_pendingData b1 = xj_pendingData b" "xj_pendingAlarms b1 = xj_pendingAlarms b"
    using xunji_Stop_silent[OF assms(4-6)] by blast
  obtain b2 where b2: "xunji_flushPendingData L now o3 [] b1 = ([], [], b2)" "lifeFrame (xj_life b2) = lifeFrame (xj_life b1)"
    "xj_pendingData b2 = xj_pendingData b" "xj_pendingAlarms b2 = xj_pendingAlarms b"
    using xunji_flush_disabled(1)[of b1 L now o3] b1 assms by auto
  then have "\<not> lc_enabled (xj_life b2)" using b1(2) by (simp add: lifeFrame_def)
  then obtain b3 where b3: "xunji_flushAlarms now o4 [] b2 = ([], [], b3)"
    "xj_pendingData b3 = xj_pendingData b" "xj_pendingAlarms b3 = xj_pendingAlarms b"
    using xunji_flush_disabled(2)[of b2 now o4] b2 assms by auto
  show "\<exists>b'. xunji_Close L now o1 o2 o3 o4 b = Some ([], [], b') \<and> lc_client (xj_life b') = None \<and>
      xj_pendingData b' = xj_pendingData b \<and> xj_pendingAlarms b' = xj_pendingAlarms b"
    by (simp add: xunji_Close_def b1 b2 b3 lifecycle_closeEnd_def)
qed

lemma exampleLife_ok: "lifeOK exampleLife"
  by (simp add: exampleLife_def lifeOK_def)

theorem close_flushes_nothing_witness:
  "\<exists>a'. mqtt_Close 5 (failsAt 9) (failsAt 9) (failsAt 9) (failsAt 9) (exampleMQTT\<lparr>mq_pendingData := [exampleData]\<rparr>) = Some ([], [], a') \<and>
     mq_pendingData a' = [exampleData]"
  using close_flushes_nothing[of "exampleMQTT\<lparr>mq_pendingData := [exampleData]\<rparr>" exampleXunji 5 "failsAt 9" "failsAt 9" "failsAt 9" "failsAt 9"]
    exampleLife_ok by (auto simp: exampleMQTT_def exampleXunji_def)

lemma publishItems_messages:
  "length (fst (snd (publishItems build pub outs xs s))) = length (fst (publishItems build pub outs xs s))"
proof (induction xs arbitrary: outs s)
  case (Cons x xs)
  then show ?case unfolding publishItems_Cons by (simp add: Let_def)
qed simp

text \<open>The shape of the alarm flushes with their messages and their error.\<close>

definition alarmFlush ::
  "('s \<Rightarrow> 'a list) \<Rightarrow> ('s \<Rightarrow> nat) \<Rightarrow> ('s \<Rightarrow> 'a \<Rightarrow> 's \<Rightarrow> 'm option \<times> 's) \<Rightarrow> (pubOutcome \<Rightarrow> 's \<Rightarrow> bool \<times> 's) \<Rightarrow>
   ('a list \<Rightarrow> 's \<Rightarrow> 's) \<Rightarrow> ('a list \<Rightarrow> 's \<Rightarrow> 's) \<Rightarrow> (nat \<Rightarrow> pubOutcome) \<Rightarrow> 's \<Rightarrow> 'a list \<times> 'm list \<times> bool \<times> 's" where
  "alarmFlush pend batchOf build pub setQ requeue outs s =
     (if pend s = [] then ([], [], False, s)
      else let b = take (batchOf s) (pend s);
               (sent, ms, s1) = publishItems (build s) pub outs b (setQ (drop (batchOf s) (pend s)) s)
           in (sent, ms, length sent \<noteq> length b, if length sent = length b then s1 else requeue b s1))"

locale alarm_drain =
  fixes pend :: "'s \<Rightarrow> 'a list" and batchOf :: "'s \<Rightarrow> nat" and build :: "'s \<Rightarrow> 'a \<Rightarrow> 's \<Rightarrow> 'm option \<times> 's"
    and pub :: "pubOutcome \<Rightarrow> 's \<Rightarrow> bool \<times> 's" and setQ :: "'a list \<Rightarrow> 's \<Rightarrow> 's" and requeue :: "'a list \<Rightarrow> 's \<Rightarrow> 's"
  assumes build_frame: "pend (snd (build t x s)) = pend s \<and> batchOf (snd (build t x s)) = batchOf s"
    and pub_frame: "pend (snd (pub out s)) = pend s \<and> batchOf (snd (pub out s)) = batchOf s"
    and setQ_law: "pend (setQ q s) = q \<and> batchOf (setQ q s) = batchOf s"
begin

lemma flush_ok:
  assumes "alarmFlush pend batchOf build pub setQ requeue outs s = (sent, ms, False, s')"
  shows "pend s' = drop (batchOf s) (pend s) \<and> length ms = min (batchOf s) (length (pend s)) \<and> batchOf s' = batchOf s"
proof (cases "pend s = []")
  case True
  with assms show ?thesis by (simp add: alarmFlush_def)
next
  case False
  let ?b = "take (batchOf s) (pend s)"
  let ?p = "publishItems (build s) pub outs ?b (setQ (drop (batchOf s) (pend s)) s)"
  have "pend (snd (snd ?p)) = drop (batchOf s) (pend s)" "batchOf (snd (snd ?p)) = batchOf s"
    using publishItems_keeps[where f = pend and build = "build s" and pub = pub]
      publishItems_keeps[where f = batchOf and build = "build s" and pub = pub] build_frame pub_frame setQ_law
    by simp_all
  moreover have "length (fst ?p) = length ?b" "ms = fst (snd ?p)" "s' = snd (snd ?p)"
    using assms False by (auto simp: alarmFlush_def case_prod_beta Let_def split: if_splits)
  ultimately show ?thesis
    using publishItems_messages[of "build s" pub outs ?b "setQ (drop (batchOf s) (pend s)) s"] by (simp add: min.commute)
qed

lemma drain_ends:
  "0 < batchOf s \<Longrightarrow> length (pend s) < fuel \<Longrightarrow>
   \<exists>ms err s'. drainAlarmQueueOnStop fuel (alarmFlush pend batchOf build pub setQ requeue) (Some (\<lambda>s. pend s = [])) outs s =
       Some (ms, err, s') \<and> (\<not> err \<longrightarrow> pend s' = [] \<and> length ms = length (pend s))"
proof (induction fuel arbitrary: s outs)
  case (Suc fuel)
  obtain sent ms err s1 where f: "alarmFlush pend batchOf build pub setQ requeue (outs 0) s = (sent, ms, err, s1)"
    by (metis prod_cases4)
  show ?case
  proof (cases err)
    case True
    with f show ?thesis by auto
  next
    case False
    then have ok: "pend s1 = drop (batchOf s) (pend s)" "length ms = min (batchOf s) (length (pend s))" "batchOf s1 = batchOf s"
      using flush_ok[of "outs 0" s sent ms s1] f by auto
    show ?thesis
    proof (cases "pend s1 = []")
      case True
      with f False ok show ?thesis by auto
    next
      case more: False
      have "length (pend s1) < fuel" using ok(1) Suc.prems more by simp
      with Suc.IH[of s1 "\<lambda>i. outs (Suc i)"] ok(3) Suc.prems obtain ms' err' s2 where
        r: "drainAlarmQueueOnStop fuel (alarmFlush pend batchOf build pub setQ requeue) (Some (\<lambda>s. pend s = []))
              (\<lambda>i. outs (Suc i)) s1 = Some (ms', err', s2)"
        "\<not> err' \<longrightarrow> pend s2 = [] \<and> length ms' = length (pend s1)" by auto
      with f False more ok show ?thesis by auto
    qed
  qed
qed simp

end

interpretation sagooDrain: alarm_drain sg_alarmQueue "\<lambda>s. nat (sg_alarmBatch s)"
  "\<lambda>t. sagoo_buildAlarmMessage now (sg_alarmTopic t)" sagoo_publish "\<lambda>q s. s\<lparr>sg_alarmQueue := q\<rparr>" sagoo_prependAlarms for now
  by unfold_locales
     (auto simp: sagoo_buildAlarmMessage_def sagoo_nextID_def sagoo_publish_def case_prod_beta Let_def split: option.splits)

interpretation pandaxDrain: alarm_drain px_alarmQueue "\<lambda>s. nat (px_alarmBatch s)"
  "\<lambda>t. pandax_buildAlarmPublish now" "pandax_publish now" "\<lambda>q s. s\<lparr>px_alarmQueue := q\<rparr>" pandax_prependAlarms for now
  by unfold_locales (auto simp: pandax_buildAlarmPublish_def pandax_publish_def)

interpretation ithingsDrain: alarm_drain it_alarmQueue "\<lambda>s. nat (it_alarmBatch s)"
  "\<lambda>t. ithings_buildAlarmPublish L now" "ithings_publish now" "\<lambda>q s. s\<lparr>it_alarmQueue := q\<rparr>" ithings_prependAlarms for L now
  by unfold_locales
     (auto simp: ithings_buildAlarmPublish_def ithings_nextID_def ithings_publish_def case_prod_beta Let_def
       split: option.splits pubResult.splits)

lemma sagooDrain_shape: "(\<lambda>ob. sagoo_flushAlarmBatch now ob []) =
    alarmFlush sg_alarmQueue (\<lambda>s. nat (sg_alarmBatch s)) (\<lambda>t. sagoo_buildAlarmMessage now (sg_alarmTopic t)) sagoo_publish
      (\<lambda>q s. s\<lparr>sg_alarmQueue := q\<rparr>) sagoo_prependAlarms"
  by (intro ext) (simp add: sagoo_flushAlarmBatch_def alarmFlush_def case_prod_beta Let_def min_batch)

lemma pandaxDrain_shape: "(\<lambda>ob. pandax_flushAlarmBatch now ob []) =
    alarmFlush px_alarmQueue (\<lambda>s. nat (px_alarmBatch s)) (\<lambda>t. pandax_buildAlarmPublish now) (pandax_publish now)
      (\<lambda>q s. s\<lparr>px_alarmQueue := q\<rparr>) pandax_prependAlarms"
  by (intro ext) (simp add: pandax_flushAlarmBatch_def alarmFlush_def case_prod_beta Let_def min_batch)

lemma ithingsDrain_shape: "(\<lambda>ob. ithings_flushAlarmBatch L now ob []) =
    alarmFlush it_alarmQueue (\<lambda>s. nat (it_alarmBatch s)) (\<lambda>t. ithings_buildAlarmPublish L now) (ithings_publish now)
      (\<lambda>q s. s\<lparr>it_alarmQueue := q\<rparr>) ithings_prependAlarms"
  by (intro ext) (simp add: ithings_flushAlarmBatch_def alarmFlush_def case_prod_beta Let_def min_batch)

text \<open>C30: The alarm drains end. With a positive batch size, as the configuration gives, the loop of a
  stopping Sagoo, PandaX or iThings adapter needs at most one flush more than there are alarms; it
  ends with an error of the broker or with the queue empty and one message published per alarm.\<close>
theorem alarm_drains_end:
  assumes "0 < sg_alarmBatch a" and "0 < px_alarmBatch p" and "0 < it_alarmBatch t"
  shows "(\<exists>ms err a'. sagoo_drain (Suc (length (sg_alarmQueue a))) now outs a = Some (ms, err, a') \<and>
      (\<not> err \<longrightarrow> sg_alarmQueue a' = [] \<and> length ms = length (sg_alarmQueue a))) \<and>
    (\<exists>ms err p'. pandax_drain (Suc (length (px_alarmQueue p))) now outs p = Some (ms, err, p') \<and>
      (\<not> err \<longrightarrow> px_alarmQueue p' = [] \<and> length ms = length (px_alarmQueue p))) \<and>
    (\<exists>ms err t'. ithings_drain L (Suc (length (it_alarmQueue t))) now outs t = Some (ms, err, t') \<and>
      (\<not> err \<longrightarrow> it_alarmQueue t' = [] \<and> length ms = length (it_alarmQueue t)))"
  unfolding sagoo_drain_def pandax_drain_def ithings_drain_def sagooDrain_shape pandaxDrain_shape ithingsDrain_shape
  using assms by (intro conjI sagooDrain.drain_ends pandaxDrain.drain_ends ithingsDrain.drain_ends) simp_all

theorem alarm_drains_end_witness:
  "\<exists>r. ithings_drain exampleLib 1 5 (\<lambda>_. failsAt 9) exampleIThings = Some r"
  using alarm_drains_end[of exampleSagoo examplePandaX exampleIThings 5 "\<lambda>_. failsAt 9" exampleLib]
  by (auto simp: exampleSagoo_def examplePandaX_def exampleIThings_def)

section \<open>Capacity\<close>

text \<open>C28: No queue of an adapter outgrows its capacity. From an empty queue and over any sequence of
  sends and flushes, with arrivals during a flush and requeues after errors: the MQTT and
  Xunji adapters hold at most 1000 samples and 100 alarms, the others at most their configured
  capacity (200 by default).\<close>
theorem queues_within_capacity:
  "(mq_pendingData a = [] \<longrightarrow> length (mq_pendingData (snd (outRun (\<lambda>d. mqtt_Send (Some d))
      (\<lambda>outs arr s. confirmed3 (mqtt_flushPendingData now outs arr s)) es a))) \<le> 1000) \<and>
   (mq_pendingAlarms a = [] \<longrightarrow> length (mq_pendingAlarms (snd (outRun (\<lambda>d. mqtt_SendAlarm (Some d))
      (\<lambda>outs arr s. confirmed3 (mqtt_flushAlarms now outs arr s)) fs a))) \<le> 100) \<and>
   (xj_pendingData b = [] \<longrightarrow> length (xj_pendingData (snd (outRun (\<lambda>d. xunji_Send (Some d))
      (\<lambda>outs arr s. confirmed3 (xunji_flushPendingData L now outs arr s)) es b))) \<le> 1000) \<and>
   (xj_pendingAlarms b = [] \<longrightarrow> length (xj_pendingAlarms (snd (outRun (\<lambda>d. xunji_SendAlarm (Some d))
      (\<lambda>outs arr s. confirmed3 (xunji_flushAlarms now outs arr s)) fs b))) \<le> 100) \<and>
   (sg_latestData s = [] \<longrightarrow> length (sg_latestData (snd (outRun (\<lambda>d. sagoo_Send (Some d))
      (\<lambda>outs arr s. confirmed4 (sagoo_flushLatestData now outs arr s)) es s))) \<le> effectiveCap (sg_realtimeCap s)) \<and>
   (sg_alarmQueue s = [] \<longrightarrow> length (sg_alarmQueue (snd (outRun (\<lambda>d. sagoo_SendAlarm (Some d))
      (\<lambda>outs arr s. confirmed4 (sagoo_flushAlarmBatch now outs arr s)) fs s))) \<le> effectiveCap (sg_alarmCap s)) \<and>
   (px_realtimeQueue p = [] \<longrightarrow> length (px_realtimeQueue (snd (outRun (\<lambda>d. pandax_Send (Some d))
      (\<lambda>outs arr s. confirmed4 (pandax_flushRealtime L now outs arr s)) es p))) \<le> effectiveCap (px_realtimeCap p)) \<and>
   (px_alarmQueue p = [] \<longrightarrow> length (px_alarmQueue (snd (outRun (\<lambda>d. pandax_SendAlarm (Some d))
      (\<lambda>outs arr s. confirmed4 (pandax_flushAlarmBatch now outs arr s)) fs p))) \<le> effectiveCap (px_alarmCap p)) \<and>
   (it_realtimeQueue t = [] \<longrightarrow> length (it_realtimeQueue (snd (outRun (\<lambda>d. ithings_Send (Some d))
      (\<lambda>outs arr s. confirmed4 (ithings_flushRealtime L now outs arr s)) es t))) \<le> effectiveCap (it_realtimeCap t)) \<and>
   (it_alarmQueue t = [] \<longrightarrow> length (it_alarmQueue (snd (outRun (\<lambda>d. ithings_SendAlarm (Some d))
      (\<lambda>outs arr s. confirmed4 (ithings_flushAlarmBatch L now outs arr s)) fs t))) \<le> effectiveCap (it_alarmCap t))"
  unfolding mqttData_shape mqttAlarms_shape xunjiData_shape xunjiAlarms_shape sagooData_shape sagooAlarms_shape
    pandaxData_shape pandaxAlarms_shape ithingsData_shape ithingsAlarms_shape
  by (intro conjI impI; (rule mqttData.run_bounded mqttAlarms.run_bounded xunjiData.run_bounded xunjiAlarms.run_bounded
      sagooData.never_over_capacity sagooAlarms.never_over_capacity pandaxData.never_over_capacity
      pandaxAlarms.never_over_capacity ithingsData.never_over_capacity ithingsAlarms.never_over_capacity);
      simp add: prod_eq_iff)

theorem queues_within_capacity_witness:
  "length (mq_pendingAlarms (snd (outRun (\<lambda>d. mqtt_SendAlarm (Some d))
      (\<lambda>outs arr s. confirmed3 (mqtt_flushAlarms 5 outs arr s)) [Flush (failsAt 0) []] exampleMQTT))) \<le> 100"
  using queues_within_capacity[where a = exampleMQTT and now = 5 and fs = "[Flush (failsAt 0) []]"]
  by (simp add: exampleMQTT_def)

end
