(* ===== verification/Downlink.thy ===== *)
theory Downlink
  imports Delivery "HOL-Library.Char_ord" "HOL-Library.List_Lexorder"
begin

text \<open>
  Commands from the platforms (\<open>sagoo_topic.go\<close>, \<open>sagoo_downlink.go\<close>, \<open>pandax_rpc.go\<close>,
  \<open>ithings_downlink.go\<close>, the replies of the \<open>*_runtime.go\<close>): topics, the translation of a
  request into commands, the command queues, and the answers to the platform.

  A message is its topic and its payload as \<open>encoding/json\<close> decodes it (\<open>None\<close> when that fails).
  A JSON value that Go holds in an \<open>any\<close> is a \<open>json\<close>; a Go map is an association list in the order
  in which \<open>range\<close> goes through it. \<open>sprint\<close> is \<open>fmt.Sprintf\<close> with the verb for default format.
\<close>

section \<open>JSON values\<close>

datatype json = JNull | JBool bool | JNum float64 | JStr string | JArr "json list" | JObj "(string \<times> json) list"

type_synonym jmap = "(string \<times> json) list"

definition jget :: "jmap \<Rightarrow> string \<Rightarrow> json" where
  "jget m k = (case map_of m k of None \<Rightarrow> JNull | Some v \<Rightarrow> v)"

definition resolveMapValue :: "json \<Rightarrow> jmap option" where
  "resolveMapValue v = (case v of JObj m \<Rightarrow> Some m | _ \<Rightarrow> None)"

definition resolveMapByEitherKey :: "jmap \<Rightarrow> string \<Rightarrow> string \<Rightarrow> jmap option" where
  "resolveMapByEitherKey values primaryKey secondaryKey =
     (case resolveMapValue (jget values primaryKey) of
        Some out \<Rightarrow> Some out
      | None \<Rightarrow> resolveMapValue (jget values secondaryKey))"

definition resolveInterfaceSliceByEitherKey :: "jmap \<Rightarrow> string \<Rightarrow> string \<Rightarrow> json list option" where
  "resolveInterfaceSliceByEitherKey values primaryKey secondaryKey =
     (case jget values primaryKey of
        JArr xs \<Rightarrow> Some xs
      | _ \<Rightarrow> (case jget values secondaryKey of JArr xs \<Rightarrow> Some xs | _ \<Rightarrow> None))"

definition stringifyAny :: "golib \<Rightarrow> (json \<Rightarrow> string) \<Rightarrow> json \<Rightarrow> string" where
  "stringifyAny L sprint v =
     (case v of
        JStr s \<Rightarrow> s
      | JBool b \<Rightarrow> FormatBool b
      | JNum f \<Rightarrow> formatFloat L 64 f
      | _ \<Rightarrow> sprint v)"

fun pickConfigString :: "(json \<Rightarrow> string) \<Rightarrow> jmap \<Rightarrow> string list \<Rightarrow> string" where
  "pickConfigString sprint data [] = []"
| "pickConfigString sprint data (key # keys) =
     (case jget data key of
        JNull \<Rightarrow> pickConfigString sprint data keys
      | JStr s \<Rightarrow> if TrimSpace s \<noteq> [] then TrimSpace s else pickConfigString sprint data keys
      | v \<Rightarrow> if TrimSpace (sprint v) \<noteq> [] then TrimSpace (sprint v) else pickConfigString sprint data keys)"

text \<open>The sorted field names of a property map: the loop over the keys and \<open>slices.Sort\<close>.\<close>

definition commandKeys :: "jmap \<Rightarrow> string list" where
  "commandKeys m = sort (filter (\<lambda>k. k \<noteq> []) (map (\<lambda>(key, _). TrimSpace key) m))"

section \<open>Topics\<close>

definition sagooSysTopic :: "string \<Rightarrow> string \<Rightarrow> string \<Rightarrow> string" where
  "sagooSysTopic productKey deviceKey suffx =
     (if suffx = [] then ''/sys/'' @ productKey @ ''/'' @ deviceKey
      else ''/sys/'' @ productKey @ ''/'' @ deviceKey @ ''/'' @ suffx)"

text \<open>The loop of \<open>splitTopic\<close>; a negative \<open>segmentStart\<close> is outside a segment.\<close>

function splitLoop :: "string \<Rightarrow> nat \<Rightarrow> int \<Rightarrow> string list \<Rightarrow> string list" where
  "splitLoop trimmed i segmentStart parts =
     (if i < length trimmed
      then if trimmed ! i = CHR ''/''
           then if segmentStart \<ge> 0
                then splitLoop trimmed (Suc i) (-1) (parts @ [gslice trimmed (nat segmentStart) i])
                else splitLoop trimmed (Suc i) segmentStart parts
           else splitLoop trimmed (Suc i) (if segmentStart < 0 then int i else segmentStart) parts
      else if segmentStart \<ge> 0 then parts @ [drop (nat segmentStart) trimmed] else parts)"
  by pat_completeness auto
termination by (relation "measure (\<lambda>(t, i, _, _). length t - i)") auto

declare splitLoop.simps [simp del]

definition splitTopic :: "string \<Rightarrow> string list" where
  "splitTopic topic =
     (let trimmed = TrimSpace topic
      in if trimmed = [] then [] else splitLoop trimmed 0 (-1) [])"

definition parseSagooTopicIdentity :: "string \<Rightarrow> (string \<times> string) option" where
  "parseSagooTopicIdentity topic =
     (let parts = splitTopic topic
      in if length parts < 4 \<or> parts ! 0 \<noteq> ''sys'' then None else Some (parts ! 1, parts ! 2))"

definition parseIThingsDownTopic :: "string \<Rightarrow> (string \<times> string \<times> string) option" where
  "parseIThingsDownTopic topic =
     (let parts = splitTopic topic in
      if length parts < 5 then None
      else if parts ! 0 \<noteq> ''$thing'' \<or> parts ! 1 \<noteq> ''down'' then None
      else let topicType = TrimSpace (parts ! 2) in
           if topicType = [] then None
           else let (productID, deviceName) =
                  (if length parts \<ge> 6 \<and> parts ! 3 = ''custom''
                   then (TrimSpace (parts ! 4), TrimSpace (parts ! 5))
                   else (TrimSpace (parts ! 3), TrimSpace (parts ! 4)))
                in if productID = [] \<or> deviceName = [] then None else Some (topicType, productID, deviceName))"

definition TrimSlashes :: "string \<Rightarrow> string" where
  "TrimSlashes s = rev (dropWhile (\<lambda>c. c = CHR ''/'') (rev (dropWhile (\<lambda>c. c = CHR ''/'') s)))"

definition pandaXRPCPrefix :: string where
  "pandaXRPCPrefix = ''v1/devices/me/rpc/request/''"

definition parsePandaXRPCRequestID :: "string \<Rightarrow> string" where
  "parsePandaXRPCRequestID topic =
     (let trimmed = TrimSlashes (TrimSpace topic)
      in if \<not> prefix pandaXRPCPrefix trimmed then []
         else let requestID = drop (length pandaXRPCPrefix) trimmed
              in if requestID = [] then [] else TrimSpace (takeWhile (\<lambda>c. c \<noteq> CHR ''/'') requestID))"

section \<open>Sagoo\<close>

definition parseIdentityMap :: "jmap \<Rightarrow> string \<times> string" where
  "parseIdentityMap identity =
     ((case jget identity ''productKey'' of JStr s \<Rightarrow> TrimSpace s | _ \<Rightarrow> []),
      (case jget identity ''deviceKey'' of JStr s \<Rightarrow> TrimSpace s | _ \<Rightarrow> []))"

definition isReservedCommandKeyNormalized :: "string \<Rightarrow> bool" where
  "isReservedCommandKeyNormalized normalized \<longleftrightarrow>
     normalized \<in> {''id'', ''method'', ''version'', ''params'', ''identity'', ''properties'', ''events'',
                    ''sub_device'', ''subdevice'', ''sub_devices'', ''subdevices''}"

text \<open>Look into one nested object: its identity replaces the one found so far, its properties
  end the search.\<close>

definition sagooNested :: "jmap \<Rightarrow> string \<times> string \<Rightarrow> jmap option \<times> string \<times> string" where
  "sagooNested obj ident =
     (let ident = (case resolveMapValue (jget obj ''identity'') of Some i \<Rightarrow> parseIdentityMap i | None \<Rightarrow> ident)
      in (resolveMapValue (jget obj ''properties''), ident))"

definition sagooDirectProperties :: "golib \<Rightarrow> jmap \<Rightarrow> jmap" where
  "sagooDirectProperties L params =
     fold (\<lambda>(key, raw) m.
             let trimmedKey = TrimSpace key
             in if trimmedKey = [] \<or> isReservedCommandKeyNormalized (ToLower (uniLower L) trimmedKey) then m
                else case raw of JObj _ \<Rightarrow> m | JArr _ \<Rightarrow> m | _ \<Rightarrow> AList.update trimmedKey raw m)
          params []"

definition resolveSagooCommandProperties :: "golib \<Rightarrow> jmap \<Rightarrow> jmap option \<times> string \<times> string" where
  "resolveSagooCommandProperties L params =
     (case sagooNested params ([], []) of
        (Some props, ident) \<Rightarrow> (Some props, ident)
      | (None, ident) \<Rightarrow>
          (case (case resolveMapByEitherKey params ''sub_device'' ''subDevice'' of
                   None \<Rightarrow> (None, ident) | Some sub \<Rightarrow> sagooNested sub ident) of
             (Some props, ident) \<Rightarrow> (Some props, ident)
           | (None, ident) \<Rightarrow>
               (case (case resolveInterfaceSliceByEitherKey params ''sub_devices'' ''subDevices'' of
                        Some (item # _) \<Rightarrow>
                          (case resolveMapValue item of None \<Rightarrow> (None, ident) | Some row \<Rightarrow> sagooNested row ident)
                      | _ \<Rightarrow> (None, ident)) of
                  (Some props, ident) \<Rightarrow> (Some props, ident)
                | (None, ident) \<Rightarrow>
                    let direct = sagooDirectProperties L params
                    in (if direct \<noteq> [] then Some direct else None, ident))))"

definition sagoo_enqueueCommandFromPropertySet ::
  "golib \<Rightarrow> (json \<Rightarrow> string) \<Rightarrow> string \<Rightarrow> string \<Rightarrow> string \<Rightarrow> jmap \<Rightarrow> string \<Rightarrow> string \<Rightarrow> SagooAdapter \<Rightarrow> SagooAdapter" where
  "sagoo_enqueueCommandFromPropertySet L sprint defaultPK defaultDK requestID params rootIdentityPK rootIdentityDK a =
     (case resolveSagooCommandProperties L params of
        (None, _) \<Rightarrow> a
      | (Some properties, identityPK, identityDK) \<Rightarrow>
          if properties = [] then a
          else let pk = pickFirstNonEmpty [rootIdentityPK, identityPK, defaultPK];
                   dk = pickFirstNonEmpty [rootIdentityDK, identityDK, defaultDK]
               in if pk = [] \<or> dk = [] then a
                  else let keys = commandKeys properties in
                       if keys = [] then a
                       else let commands = map (\<lambda>key. Some \<lparr>nc_RequestID = requestID, nc_ProductKey = pk,
                                  nc_DeviceKey = dk, nc_FieldName = key,
                                  nc_Value = stringifyAny L sprint (jget properties key),
                                  nc_Source = ''sagoo.property.set''\<rparr>) keys
                            in a\<lparr>sg_commandQueue := appendCommandQueueWithCap (sg_commandQueue a) commands (sg_commandCap a)\<rparr>)"

record sagooRequest =
  sq_Id :: string
  sq_Params :: jmap
  sq_Identity :: jmap

record sagooReply =
  sy_topic :: string
  sy_code :: int
  sy_id :: string
  sy_data :: jmap

text \<open>The handlers return the reply they try to publish, and whether the broker confirmed it.\<close>

definition sagoo_handlePropertySet ::
  "golib \<Rightarrow> (json \<Rightarrow> string) \<Rightarrow> pubOutcome \<Rightarrow> string \<Rightarrow> sagooRequest option \<Rightarrow> SagooAdapter \<Rightarrow>
   (sagooReply \<times> bool) option \<times> SagooAdapter" where
  "sagoo_handlePropertySet L sprint out topic body a =
     (case parseSagooTopicIdentity topic of
        None \<Rightarrow> (None, a)
      | Some (pk, dk) \<Rightarrow>
          (case body of
             None \<Rightarrow> (None, a)
           | Some req \<Rightarrow>
               let (identityPK, identityDK) = parseIdentityMap (sq_Identity req);
                   a = sagoo_enqueueCommandFromPropertySet L sprint pk dk (sq_Id req) (sq_Params req) identityPK identityDK a;
                   resp = \<lparr>sy_topic = sagooSysTopic pk dk ''thing/service/property/set_reply'', sy_code = 200,
                           sy_id = sq_Id req, sy_data = sq_Params req\<rparr>;
                   (ok, a) = sagoo_publish out a
               in (Some (resp, ok), a)))"

definition sagoo_handleServiceCall ::
  "golib \<Rightarrow> (json \<Rightarrow> string) \<Rightarrow> pubOutcome \<Rightarrow> string \<Rightarrow> sagooRequest option \<Rightarrow> SagooAdapter \<Rightarrow>
   (sagooReply \<times> bool) option \<times> SagooAdapter" where
  "sagoo_handleServiceCall L sprint out topic body a =
     (let parts = splitTopic topic in
      if length parts \<noteq> 7 then (None, a)
      else let pk = parts ! 1; dk = parts ! 2; svc = parts ! 6 in
           if suffix ''reply'' svc \<or> svc = ''property'' then (None, a)
           else case body of
                  None \<Rightarrow> (None, a)
                | Some req \<Rightarrow>
                    let (identityPK, identityDK) = parseIdentityMap (sq_Identity req);
                        a = (if sq_Params req \<noteq> []
                             then sagoo_enqueueCommandFromPropertySet L sprint pk dk (sq_Id req) (sq_Params req) identityPK identityDK a
                             else a);
                        resp = \<lparr>sy_topic = sagooSysTopic pk dk (''thing/service/'' @ svc @ ''_reply''), sy_code = 200,
                                sy_id = sq_Id req, sy_data = sq_Params req\<rparr>;
                        (ok, a) = sagoo_publish out a
                    in (Some (resp, ok), a))"

definition sagoo_handleConfigPush ::
  "pubOutcome \<Rightarrow> string \<Rightarrow> string option \<Rightarrow> SagooAdapter \<Rightarrow> (sagooReply \<times> bool) option \<times> SagooAdapter" where
  "sagoo_handleConfigPush out topic body a =
     (case (parseSagooTopicIdentity topic, body) of
        (Some (pk, dk), Some reqId) \<Rightarrow>
          let (ok, a) = sagoo_publish out a
          in (Some (\<lparr>sy_topic = sagooSysTopic pk dk ''thing/config/push/reply'', sy_code = 200, sy_id = reqId, sy_data = []\<rparr>, ok), a)
      | _ \<Rightarrow> (None, a))"

record sagooCommandReplyPayload =
  sc_topic :: string
  sc_Code :: int
  sc_ID :: string
  sc_Message :: string
  sc_Key :: string
  sc_Value :: string

definition sagoo_ReportCommandResult ::
  "pubOutcome \<Rightarrow> NorthboundCommandResult option \<Rightarrow> SagooAdapter \<Rightarrow> (sagooCommandReplyPayload \<times> bool) option \<times> SagooAdapter" where
  "sagoo_ReportCommandResult out result a =
     (case (result, sg_config a) of
        (Some result, Some (productKey, deviceKey)) \<Rightarrow>
          if \<not> lc_initialized (sg_life a) then (None, a)
          else let pk = pickFirstNonEmpty [TrimSpace productKey, nr_ProductKey result];
                   dk = pickFirstNonEmpty [TrimSpace deviceKey, nr_DeviceKey result]
               in if pk = [] \<or> dk = [] then (None, a)
                  else let code = (if nr_Code result = 0 \<and> nr_Success result then 200 else nr_Code result);
                           msg = (if nr_Message result = [] \<and> nr_Success result then ''success'' else nr_Message result);
                           (ok, a) = sagoo_publish out a
                       in (Some (\<lparr>sc_topic = sagooSysTopic pk dk ''thing/service/property/set_reply'', sc_Code = code,
                                  sc_ID = nr_RequestID result, sc_Message = msg, sc_Key = nr_FieldName result,
                                  sc_Value = nr_Value result\<rparr>, ok), a)
      | _ \<Rightarrow> (None, a))"

section \<open>PandaX\<close>

definition pandax_defaultIdentity :: "PandaXAdapter \<Rightarrow> string \<times> string" where
  "pandax_defaultIdentity a =
     (case px_config a of None \<Rightarrow> ([], []) | Some (pk, dk, _) \<Rightarrow> (TrimSpace pk, TrimSpace dk))"

text \<open>The closure \<open>appendProperties\<close>: the commands it appends.\<close>

definition pandaXProperties ::
  "golib \<Rightarrow> (json \<Rightarrow> string) \<Rightarrow> string \<Rightarrow> string \<Rightarrow> string \<Rightarrow> jmap \<Rightarrow> NorthboundCommand list" where
  "pandaXProperties L sprint requestID pk dk props =
     (if TrimSpace pk = [] \<or> TrimSpace dk = [] then []
      else map (\<lambda>key. \<lparr>nc_RequestID = requestID, nc_ProductKey = pk, nc_DeviceKey = dk, nc_FieldName = key,
                        nc_Value = stringifyAny L sprint (jget props key), nc_Source = []\<rparr>) (commandKeys props))"

definition pandaXSubDevice ::
  "golib \<Rightarrow> (json \<Rightarrow> string) \<Rightarrow> string \<Rightarrow> string \<Rightarrow> string \<Rightarrow> json \<Rightarrow> NorthboundCommand list" where
  "pandaXSubDevice L sprint requestID pk dk item =
     (case resolveMapValue item of
        None \<Rightarrow> []
      | Some row \<Rightarrow>
          let (subPK, subDK) =
                (case resolveMapValue (jget row ''identity'') of
                   None \<Rightarrow> (pk, dk)
                 | Some identity \<Rightarrow>
                     (pickFirstNonEmpty [pickConfigString sprint identity [''productKey'', ''product_key''], pk],
                      pickFirstNonEmpty [pickConfigString sprint identity [''deviceKey'', ''device_key''], dk]))
          in case resolveMapValue (jget row ''properties'') of
               None \<Rightarrow> []
             | Some props \<Rightarrow> pandaXProperties L sprint requestID subPK subDK props)"

definition isPandaXReservedRPCKey :: "string \<Rightarrow> bool" where
  "isPandaXReservedRPCKey key \<longleftrightarrow>
     TrimSpace key \<in> {''productKey'', ''product_key'', ''deviceKey'', ''device_key'', ''properties'',
       ''sub_device'', ''subDevice'', ''sub_devices'', ''subDevices'', ''fieldName'', ''field_name'', ''value''}"

definition pandaXObjectCommands ::
  "golib \<Rightarrow> (json \<Rightarrow> string) \<Rightarrow> string \<Rightarrow> jmap \<Rightarrow> string \<Rightarrow> string \<Rightarrow> NorthboundCommand list" where
  "pandaXObjectCommands L sprint requestID obj defaultPK defaultDK =
     (let pk = pickFirstNonEmpty [pickConfigString sprint obj [''productKey'', ''product_key''], defaultPK];
          dk = pickFirstNonEmpty [pickConfigString sprint obj [''deviceKey'', ''device_key''], defaultDK];
          out = (case resolveMapValue (jget obj ''properties'') of
                   None \<Rightarrow> [] | Some props \<Rightarrow> pandaXProperties L sprint requestID pk dk props);
          out = out @ concat (map (\<lambda>key. pandaXSubDevice L sprint requestID pk dk (jget obj key)) [''sub_device'', ''subDevice'']);
          out = out @ concat (map (\<lambda>key. case jget obj key of
                                     JArr items \<Rightarrow> concat (map (pandaXSubDevice L sprint requestID pk dk) items)
                                   | _ \<Rightarrow> []) [''sub_devices'', ''subDevices'']);
          fieldName = TrimSpace (pickConfigString sprint obj [''fieldName'', ''field_name'']);
          out = out @ (if fieldName = [] then []
                       else case map_of obj ''value'' of
                              None \<Rightarrow> []
                            | Some rawValue \<Rightarrow> pandaXProperties L sprint requestID pk dk [(fieldName, rawValue)])
      in if out \<noteq> [] then out
         else pandaXProperties L sprint requestID pk dk (filter (\<lambda>(key, _). \<not> isPandaXReservedRPCKey key) obj))"

definition buildPandaXRPCCommands ::
  "golib \<Rightarrow> (json \<Rightarrow> string) \<Rightarrow> string \<Rightarrow> string \<Rightarrow> json \<Rightarrow> string \<Rightarrow> string \<Rightarrow> NorthboundCommand list" where
  "buildPandaXRPCCommands L sprint requestID method params defaultPK defaultDK =
     (let out = (case params of JObj obj \<Rightarrow> pandaXObjectCommands L sprint requestID obj defaultPK defaultDK | _ \<Rightarrow> [])
      in if out = [] \<and> TrimSpace method \<noteq> [] \<and> TrimSpace defaultPK \<noteq> [] \<and> TrimSpace defaultDK \<noteq> []
         then [\<lparr>nc_RequestID = requestID, nc_ProductKey = defaultPK, nc_DeviceKey = defaultDK,
                nc_FieldName = TrimSpace method, nc_Value = stringifyAny L sprint params, nc_Source = []\<rparr>]
         else out)"

record pandaXRequest =
  pq_RequestID :: string
  pq_Method :: string
  pq_Params :: json

definition pandax_buildRPCCommands ::
  "golib \<Rightarrow> (json \<Rightarrow> string) \<Rightarrow> string \<Rightarrow> string \<Rightarrow> json \<Rightarrow> PandaXAdapter \<Rightarrow> NorthboundCommand list" where
  "pandax_buildRPCCommands L sprint requestID method params a =
     (let (defaultPK, defaultDK) = pandax_defaultIdentity a
      in map (\<lambda>cmd. cmd\<lparr>nc_Source := ''pandax.rpc.request''\<rparr>)
             (buildPandaXRPCCommands L sprint requestID method params defaultPK defaultDK))"

definition pandax_handleRPCRequest ::
  "golib \<Rightarrow> (json \<Rightarrow> string) \<Rightarrow> string \<Rightarrow> pandaXRequest option \<Rightarrow> PandaXAdapter \<Rightarrow> PandaXAdapter" where
  "pandax_handleRPCRequest L sprint topic body a =
     (case body of
        None \<Rightarrow> a
      | Some req \<Rightarrow>
          let requestID = (if TrimSpace (pq_RequestID req) = [] then parsePandaXRPCRequestID topic else pq_RequestID req);
              commands = pandax_buildRPCCommands L sprint requestID (pq_Method req) (pq_Params req) a
          in if commands = [] then a
             else a\<lparr>px_commandQueue := appendCommandQueueWithCap (px_commandQueue a) (map Some commands) (px_commandCap a)\<rparr>)"

definition pandax_PullCommands ::
  "int \<Rightarrow> PandaXAdapter \<Rightarrow> NorthboundCommand list option \<times> PandaXAdapter" where
  "pandax_PullCommands limit a =
     (let limit = (if limit \<le> 0 then 20 else limit) in
      if \<not> lc_initialized (px_life a) then (None, a)
      else if px_commandQueue a = [] then (Some [], a)
      else let limit = min (nat limit) (length (px_commandQueue a))
           in (Some (take limit (px_commandQueue a)), a\<lparr>px_commandQueue := drop limit (px_commandQueue a)\<rparr>))"

record pandaXCommandResultPayload =
  pr_topic :: string
  pr_RequestID :: string
  pr_Method :: string
  pr_Success :: bool
  pr_Code :: int
  pr_Message :: string
  pr_ProductKey :: string
  pr_DeviceKey :: string
  pr_FieldName :: string
  pr_Value :: string

definition pandax_ReportCommandResult ::
  "gotime \<Rightarrow> pubOutcome \<Rightarrow> NorthboundCommandResult option \<Rightarrow> PandaXAdapter \<Rightarrow>
   (pandaXCommandResultPayload \<times> bool) option \<times> PandaXAdapter" where
  "pandax_ReportCommandResult now out result a =
     (case result of
        None \<Rightarrow> (None, a)
      | Some result \<Rightarrow>
          if TrimSpace (nr_RequestID result) = [] then (None, a)
          else if \<not> lc_initialized (px_life a) then (None, a)
          else let code = (if nr_Code result = 0 then (if nr_Success result then 200 else 500) else nr_Code result);
                   message = TrimSpace (nr_Message result);
                   message = (if message = [] then (if nr_Success result then ''success'' else ''failed'') else message);
                   (ok, a') = pandax_publish now out a
               in (Some (\<lparr>pr_topic = px_rpcResponseTopic a, pr_RequestID = nr_RequestID result, pr_Method = ''write'',
                          pr_Success = nr_Success result, pr_Code = code, pr_Message = message,
                          pr_ProductKey = nr_ProductKey result, pr_DeviceKey = nr_DeviceKey result,
                          pr_FieldName = nr_FieldName result, pr_Value = nr_Value result\<rparr>, ok), a'))"

section \<open>iThings\<close>

definition buildIThingsCommands ::
  "golib \<Rightarrow> (json \<Rightarrow> string) \<Rightarrow> string \<Rightarrow> string \<Rightarrow> string \<Rightarrow> string \<Rightarrow> json \<Rightarrow> string \<Rightarrow> string \<Rightarrow>
   NorthboundCommand list \<times> string \<times> string" where
  "buildIThingsCommands L sprint requestID topicType method actionID params productID deviceName =
     (let topicType = ToLower (uniLower L) (TrimSpace topicType);
          method = TrimSpace method; actionID = TrimSpace actionID;
          out = (if topicType = ''property''
                 then (if EqualFoldWord method ''control''
                       then (case resolveMapValue params of
                               None \<Rightarrow> []
                             | Some values \<Rightarrow>
                                 map (\<lambda>key. \<lparr>nc_RequestID = requestID, nc_ProductKey = productID, nc_DeviceKey = deviceName,
                                        nc_FieldName = key, nc_Value = stringifyAny L sprint (jget values key),
                                        nc_Source = ''ithings.down.property''\<rparr>) (commandKeys values))
                       else [])
                 else if topicType = ''action''
                 then (if EqualFoldWord method ''action'' \<and> actionID \<noteq> []
                       then [\<lparr>nc_RequestID = requestID, nc_ProductKey = productID, nc_DeviceKey = deviceName,
                              nc_FieldName = actionID, nc_Value = stringifyAny L sprint params,
                              nc_Source = ''ithings.down.action''\<rparr>]
                       else [])
                 else [])
      in (out, method, actionID))"

record iThingsRequest =
  iq_Method :: string
  iq_MsgToken :: string
  iq_ActionID :: string
  iq_Params :: json

text \<open>\<open>None\<close>: the write to the nil map of a closed adapter panics.\<close>

definition ithings_handleDownlink ::
  "golib \<Rightarrow> (json \<Rightarrow> string) \<Rightarrow> gotime \<Rightarrow> string \<Rightarrow> iThingsRequest option \<Rightarrow> IThingsAdapter \<Rightarrow> IThingsAdapter option" where
  "ithings_handleDownlink L sprint now topic body a =
     (case (parseIThingsDownTopic topic, body) of
        (Some (topicType, productID, deviceName), Some req) \<Rightarrow>
          let requestID = TrimSpace (iq_MsgToken req);
              (requestID, a) = (if requestID = [] then ithings_nextID now ''req'' a else (requestID, a));
              (commands, method, actionID) =
                buildIThingsCommands L sprint requestID topicType (iq_Method req) (iq_ActionID req) (iq_Params req) productID deviceName
          in if commands = [] then Some a
             else let a = a\<lparr>it_commandQueue := appendCommandQueueWithCap (it_commandQueue a) (map Some commands) (it_commandCap a)\<rparr>
                  in (case it_requestStates a of
                        None \<Rightarrow> None
                      | Some states \<Rightarrow>
                          Some (a\<lparr>it_requestStates := Some (AList.update requestID
                            \<lparr>rq_RequestID = requestID, rq_ProductID = productID, rq_DeviceName = deviceName,
                             rq_Method = method, rq_TopicType = topicType, rq_ActionID = actionID,
                             rq_Pending = int (length commands), rq_Success = True, rq_Code = 0, rq_Message = [],
                             rq_FieldName = [], rq_Value = []\<rparr> states)\<rparr>))
      | _ \<Rightarrow> Some a)"

definition ithings_PullCommands ::
  "int \<Rightarrow> IThingsAdapter \<Rightarrow> NorthboundCommand list option \<times> IThingsAdapter" where
  "ithings_PullCommands limit a =
     (let limit = (if limit \<le> 0 then 20 else limit) in
      if \<not> lc_initialized (it_life a) then (None, a)
      else if it_commandQueue a = [] then (Some [], a)
      else let limit = min (nat limit) (length (it_commandQueue a))
           in (Some (take limit (it_commandQueue a)), a\<lparr>it_commandQueue := drop limit (it_commandQueue a)\<rparr>))"

text \<open>The update of a request's state by one result; the state of the map is changed in place.\<close>

definition requestAfter :: "NorthboundCommandResult \<Rightarrow> iThingsRequestState \<Rightarrow> iThingsRequestState" where
  "requestAfter result state =
     (let state = state\<lparr>rq_Pending := rq_Pending state - 1\<rparr>;
          state = (if rq_Pending state < 0 then state\<lparr>rq_Pending := 0\<rparr> else state);
          state = (if \<not> nr_Success result then state\<lparr>rq_Success := False\<rparr> else state);
          state = (if nr_Code result \<noteq> 0 then state\<lparr>rq_Code := nr_Code result\<rparr> else state);
          state = (if TrimSpace (nr_Message result) \<noteq> [] then state\<lparr>rq_Message := TrimSpace (nr_Message result)\<rparr> else state);
          state = (if TrimSpace (nr_FieldName result) \<noteq> [] then state\<lparr>rq_FieldName := TrimSpace (nr_FieldName result)\<rparr> else state);
          state = (if TrimSpace (nr_Value result) \<noteq> [] then state\<lparr>rq_Value := nr_Value result\<rparr> else state);
          state = (if TrimSpace (nr_ProductKey result) \<noteq> [] then state\<lparr>rq_ProductID := TrimSpace (nr_ProductKey result)\<rparr> else state)
      in if TrimSpace (nr_DeviceKey result) \<noteq> [] then state\<lparr>rq_DeviceName := TrimSpace (nr_DeviceKey result)\<rparr> else state)"

definition fallbackRequest :: "NorthboundCommandResult \<Rightarrow> iThingsRequestState" where
  "fallbackRequest result =
     \<lparr>rq_RequestID = nr_RequestID result, rq_ProductID = TrimSpace (nr_ProductKey result),
      rq_DeviceName = TrimSpace (nr_DeviceKey result), rq_Method = ''control'', rq_TopicType = ''property'',
      rq_ActionID = [], rq_Pending = 1, rq_Success = nr_Success result, rq_Code = nr_Code result,
      rq_Message = TrimSpace (nr_Message result), rq_FieldName = TrimSpace (nr_FieldName result),
      rq_Value = nr_Value result\<rparr>"

definition ithings_applyCommandResult ::
  "NorthboundCommandResult \<Rightarrow> IThingsAdapter \<Rightarrow> iThingsRequestState option \<times> IThingsAdapter" where
  "ithings_applyCommandResult result a =
     (case it_requestStates a of
        Some states \<Rightarrow>
          (case map_of states (nr_RequestID result) of
             Some state \<Rightarrow>
               let state = requestAfter result state
               in if rq_Pending state > 0
                  then (None, a\<lparr>it_requestStates := Some (AList.update (nr_RequestID result) state states)\<rparr>)
                  else (Some state, a\<lparr>it_requestStates := Some (AList.delete (nr_RequestID result) states)\<rparr>)
           | None \<Rightarrow> (Some (fallbackRequest result), a))
      | None \<Rightarrow> (Some (fallbackRequest result), a))"

datatype iThingsReplyPayload =
    ActionReply string string int string int string "(string \<times> string) option"
  | ControlReply string string int string int

text \<open>The answer: topic, token, code, message and time, for an action also its identifier and value.\<close>

definition iThingsReply :: "gotime \<Rightarrow> iThingsRequestState \<Rightarrow> IThingsAdapter \<Rightarrow> iThingsReplyPayload" where
  "iThingsReply now state a =
     (let code = (if rq_Code state = 0 then (if rq_Success state then 0 else 500) else rq_Code state);
          message = TrimSpace (rq_Message state);
          message = (if message = [] then (if rq_Success state then ''success'' else ''failed'') else message);
          timestamp = UnixMilli now
      in if rq_TopicType state = ''action''
         then let actionID = TrimSpace (rq_ActionID state);
                  actionID = (if actionID = [] then TrimSpace (rq_FieldName state) else actionID);
                  data = (if TrimSpace (rq_FieldName state) \<noteq> [] then Some (rq_FieldName state, rq_Value state) else None)
              in ActionReply (renderIThingsTopic (it_upActionTopicTemplate a) (rq_ProductID state) (rq_DeviceName state))
                   (rq_RequestID state) code message timestamp actionID data
         else ControlReply (renderIThingsTopic (it_upPropertyTopicTemplate a) (rq_ProductID state) (rq_DeviceName state))
                (rq_RequestID state) code message timestamp)"

definition ithings_ReportCommandResult ::
  "gotime \<Rightarrow> pubOutcome \<Rightarrow> NorthboundCommandResult option \<Rightarrow> IThingsAdapter \<Rightarrow>
   (iThingsReplyPayload \<times> bool) option \<times> IThingsAdapter" where
  "ithings_ReportCommandResult now out result a =
     (case result of
        None \<Rightarrow> (None, a)
      | Some result \<Rightarrow>
          if TrimSpace (nr_RequestID result) = [] then (None, a)
          else if \<not> lc_initialized (it_life a) then (None, a)
          else (case ithings_applyCommandResult result a of
                  (None, a) \<Rightarrow> (None, a)
                | (Some state, a) \<Rightarrow>
                    let reply = iThingsReply now state a; (ok, a) = ithings_publish now out a
                    in (Some (reply, ok), a)))"

section \<open>Facts about topics\<close>

lemma TrimSpace_fixed:
  assumes "TrimSpace x = x"
  shows "TrimRightSpace x = x"
proof -
  have "prefix (TrimSpace x) (TrimLeftSpace x)" by (simp add: TrimSpace_def TrimRightSpace_prefix)
  moreover have "suffix (TrimLeftSpace x) x" by (simp add: TrimLeftSpace_def strip_suffix)
  ultimately have "TrimLeftSpace x = x"
    using assms by (metis prefix_length_le suffix_length_le suffix_order.antisym le_antisym suffix_def append_eq_append_conv
        append_Nil)
  with assms show ?thesis by (simp add: TrimSpace_def)
qed

lemma wideSpaces_bytes: "e \<in> set (map rev wideSpaces) \<Longrightarrow> c \<in> set e \<Longrightarrow> \<not> isASCII c"
  by (auto simp: wideSpaces_def isASCII_def runeSelf_def)

text \<open>A trimmed text stays trimmed behind a text that ends in ASCII: no encoding of a white space
  character goes across the boundary.\<close>

lemma TrimSpace_behind:
  assumes x: "TrimSpace x = x" and a: "a \<noteq> []" "isASCII (hd a)" "\<not> asciiSpace (hd a)" "isASCII (last a)" "\<not> asciiSpace (last a)"
  shows "TrimSpace (a @ x) = a @ x"
proof (cases "x = []")
  case True
  with a TrimSpace_plain show ?thesis by simp
next
  case False
  have "strip (map rev wideSpaces) (rev x) = rev x"
    using TrimSpace_fixed[OF x] by (metis TrimRightSpace_def rev_rev_ident)
  then have st: "stripped (map rev wideSpaces) (rev x)" by (metis strip_stripped)
  have "\<not> prefix e (rev x @ rev a)" if e: "e \<in> set (map rev wideSpaces)" "e \<noteq> []" for e
  proof
    assume "prefix e (rev x @ rev a)"
    then consider "prefix e (rev x)" | us where "e = rev x @ us" "us \<noteq> []" "prefix us (rev a)"
      unfolding prefix_append by (metis append.right_neutral prefix_order.order_refl)
    then show False
    proof cases
      case 1
      with st e False show False by (auto simp: stripped_def find_None_iff)
    next
      case 2
      then have "hd us = last a" using a(1) by (auto simp: prefix_def hd_rev[symmetric])
      with 2 have "last a \<in> set e" by (metis Un_iff hd_in_set set_append)
      with wideSpaces_bytes[OF e(1)] a(4) show False by blast
    qed
  qed
  with st False have "stripped (map rev wideSpaces) (rev (a @ x))"
    by (auto simp: stripped_def find_None_iff)
  then have "TrimRightSpace (a @ x) = a @ x" by (simp add: TrimRightSpace_def strip_id)
  moreover have "TrimLeftSpace (a @ x) = a @ x"
    using a strip_stop[OF wide_wideSpaces, of "hd a" "tl a @ x"] by (cases a) (simp_all add: TrimLeftSpace_def)
  ultimately show ?thesis by (simp add: TrimSpace_def)
qed

text \<open>What \<open>splitTopic\<close> computes: the segments between slashes that are not empty.\<close>

fun segments :: "string \<Rightarrow> string \<Rightarrow> string list" where
  "segments cur [] = (if cur = [] then [] else [cur])"
| "segments cur (c # cs) =
     (if c = CHR ''/'' then (if cur = [] then segments [] cs else cur # segments [] cs)
      else segments (cur @ [c]) cs)"

lemma gslice_snoc: "n < i \<Longrightarrow> i < length t \<Longrightarrow> gslice t n i @ [t ! i] = gslice t n (Suc i)"
  by (simp add: gslice_def Suc_diff_le take_Suc_conv_app_nth)

lemma gslice_one: "i < length t \<Longrightarrow> gslice t i (Suc i) = [t ! i]"
  by (simp add: gslice_def take_Suc_conv_app_nth)

lemma splitLoop_segments:
  "i \<le> length t \<Longrightarrow> start < 0 \<or> nat start < i \<Longrightarrow>
   splitLoop t i start parts = parts @ segments (if start < 0 then [] else gslice t (nat start) i) (drop i t)"
proof (induction t i start parts rule: splitLoop.induct)
  case (1 t i start parts)
  show ?case
  proof (cases "i < length t")
    case False
    with 1 show ?thesis by (subst splitLoop.simps) (auto simp: gslice_def)
  next
    case True
    then have d: "drop i t = t ! i # drop (Suc i) t" by (simp add: Cons_nth_drop_Suc)
    have ne: "\<not> start < 0 \<Longrightarrow> gslice t (nat start) i \<noteq> []"
      using "1.prems" True by (auto simp: gslice_def)
    consider "t ! i = CHR ''/''" "start \<ge> 0" | "t ! i = CHR ''/''" "start < 0" | "t ! i \<noteq> CHR ''/''" by linarith
    then show ?thesis
    proof cases
      case 1
      with "1.IH"(1) True ne show ?thesis by (subst splitLoop.simps) (simp add: d)
    next
      case 2
      with "1.IH"(2) True show ?thesis by (subst splitLoop.simps) (simp add: d)
    next
      case 3
      with "1.IH"(3) True "1.prems" show ?thesis
        by (subst splitLoop.simps) (auto simp: d gslice_snoc gslice_one)
    qed
  qed
qed

lemma splitTopic_segments: "splitTopic topic = segments [] (TrimSpace topic)"
  by (simp add: splitTopic_def Let_def splitLoop_segments)

lemma segments_append: "CHR ''/'' \<notin> set x \<Longrightarrow> segments cur (x @ s) = segments (cur @ x) s"
  by (induction x arbitrary: cur) auto

lemma segments_whole [simp]: "CHR ''/'' \<notin> set x \<Longrightarrow> segments [] x = (if x = [] then [] else [x])"
  using segments_append[of x "[]" "[]"] by simp

lemma segments_part [simp]:
  "CHR ''/'' \<notin> set x \<Longrightarrow> x \<noteq> [] \<Longrightarrow> segments [] (x @ CHR ''/'' # s) = x # segments [] s"
  by (simp add: segments_append)

lemma segments_slash [simp]: "segments [] (CHR ''/'' # s) = segments [] s"
  by simp

lemma segments_last: "s \<noteq> [] \<Longrightarrow> hd s \<noteq> CHR ''/'' \<Longrightarrow> segments [] s \<noteq> []"
proof -
  have "cur \<noteq> [] \<Longrightarrow> segments cur s \<noteq> []" for cur s by (induction cur s rule: segments.induct) auto
  then show "s \<noteq> [] \<Longrightarrow> hd s \<noteq> CHR ''/'' \<Longrightarrow> segments [] s \<noteq> []" by (cases s) auto
qed

text \<open>An identifier that can stand in a topic.\<close>

definition topicName :: "string \<Rightarrow> bool" where
  "topicName s \<longleftrightarrow> s \<noteq> [] \<and> CHR ''/'' \<notin> set s"

lemma topicNameD: "topicName s \<Longrightarrow> s \<noteq> []" "topicName s \<Longrightarrow> CHR ''/'' \<notin> set s"
  by (simp_all add: topicName_def)

lemma segments_name [simp]: "topicName x \<Longrightarrow> segments [] (x @ CHR ''/'' # s) = x # segments [] s"
  by (simp add: topicNameD)

lemma sagooSysTopic_segments:
  assumes "topicName pk" "topicName dk" "suffx \<noteq> []" "isASCII (last suffx)" "\<not> asciiSpace (last suffx)"
  shows "splitTopic (sagooSysTopic pk dk suffx) = ''sys'' # pk # dk # segments [] suffx"
proof -
  let ?t = "''/sys/'' @ pk @ ''/'' @ dk @ ''/'' @ suffx"
  have "TrimSpace ?t = ?t"
    by (rule TrimSpace_plain) (use assms in \<open>simp_all add: ascii_eval\<close>)
  moreover have "segments [] ?t = ''sys'' # pk # dk # segments [] suffx"
    using assms segments_part[of "''sys''" "pk @ ''/'' @ dk @ ''/'' @ suffx"] by simp
  ultimately show ?thesis using assms(3) by (simp add: sagooSysTopic_def splitTopic_segments)
qed

lemma ReplaceAll_skip:
  "x \<noteq> [] \<Longrightarrow> hd x \<notin> set a \<Longrightarrow> ReplaceAll (a @ b) x new = a @ ReplaceAll b x new"
proof (induction a)
  case (Cons c a)
  then have "\<not> prefix x (c # a @ b)" by (cases x) auto
  with Cons show ?case by (subst ReplaceAll.simps) simp
qed simp

lemma ReplaceAll_hit: "x \<noteq> [] \<Longrightarrow> ReplaceAll (x @ b) x new = new @ ReplaceAll b x new"
  by (subst ReplaceAll.simps) simp

lemma ReplaceAll_Nil [simp]: "ReplaceAll [] x new = []"
  by (subst ReplaceAll.simps) simp

lemma renderIThings_down:
  assumes "TrimSpace p = p" "TrimSpace d = d" "CHR ''{'' \<notin> set p" "CHR ''{'' \<notin> set ty"
  shows "renderIThingsTopic (''$thing/down/'' @ ty @ ''/{productID}/{deviceName}'') p d =
    ''$thing/down/'' @ ty @ ''/'' @ p @ ''/'' @ d"
proof -
  let ?t = "''$thing/down/'' @ ty @ ''/{productID}/{deviceName}''"
  have "TrimSpace ?t = ?t" by (rule TrimSpace_plain) (simp_all add: ascii_eval)
  moreover have "ReplaceAll ?t ''{productID}'' p = ''$thing/down/'' @ ty @ ''/'' @ p @ ''/{deviceName}''"
    using assms(4) ReplaceAll_skip[of "''{productID}''" "''$thing/down/'' @ ty @ ''/''" "''{productID}'' @ ''/{deviceName}''" p]
      ReplaceAll_hit[of "''{productID}''" "''/{deviceName}''" p]
      ReplaceAll_skip[of "''{productID}''" "''/''" "''{deviceName}''" p]
    by (simp add: ReplaceAll.simps)
  moreover have "ReplaceAll (''$thing/down/'' @ ty @ ''/'' @ p @ ''/{deviceName}'') ''{deviceName}'' d =
      ''$thing/down/'' @ ty @ ''/'' @ p @ ''/'' @ d"
    using assms(3,4) ReplaceAll_skip[of "''{deviceName}''" "''$thing/down/'' @ ty @ ''/'' @ p @ ''/''" "''{deviceName}'' @ []" d]
      ReplaceAll_hit[of "''{deviceName}''" "[]" d] by simp
  ultimately show ?thesis using assms(1,2) unfolding renderIThingsTopic_def Let_def by simp
qed

lemma parseIThings_down:
  assumes "topicName p" "topicName d" "topicName ty" "TrimSpace p = p" "TrimSpace d = d" "TrimSpace ty = ty"
  shows "parseIThingsDownTopic (''$thing/down/'' @ ty @ ''/'' @ p @ ''/'' @ d) = Some (ty, p, d)"
proof -
  let ?t = "''$thing/down/'' @ ty @ ''/'' @ p @ ''/'' @ d"
  have "TrimSpace ?t = ?t"
    using TrimSpace_behind[of d "''$thing/down/'' @ ty @ ''/'' @ p @ ''/''"] assms(5) by (simp add: ascii_eval)
  moreover have "segments [] ?t = [''$thing'', ''down'', ty, p, d]"
    using assms(1-3) segments_part[of "''$thing''" "''down/'' @ ty @ ''/'' @ p @ ''/'' @ d"]
      segments_part[of "''down''" "ty @ ''/'' @ p @ ''/'' @ d"] by (simp add: topicNameD)
  ultimately have "splitTopic ?t = [''$thing'', ''down'', ty, p, d]" by (simp add: splitTopic_segments)
  with assms show ?thesis by (simp add: parseIThingsDownTopic_def Let_def topicNameD)
qed

lemma parsePandaX_prefix:
  assumes "topicName i" "TrimSpace i = i"
  shows "parsePandaXRPCRequestID (pandaXRPCPrefix @ i) = i"
proof -
  have "TrimSpace (pandaXRPCPrefix @ i) = pandaXRPCPrefix @ i"
    by (rule TrimSpace_behind) (use assms in \<open>simp_all add: pandaXRPCPrefix_def ascii_eval\<close>)
  moreover have "last i \<noteq> CHR ''/''" using assms(1) by (metis last_in_set topicName_def)
  then have "TrimSlashes (pandaXRPCPrefix @ i) = pandaXRPCPrefix @ i"
    using topicNameD[OF assms(1)] by (simp add: TrimSlashes_def pandaXRPCPrefix_def dropWhile_append3 hd_rev
        dropWhile_eq_self_iff)
  moreover have tw: "takeWhile (\<lambda>c. c \<noteq> CHR ''/'') i = i"
    using topicNameD(2)[OF assms(1)] by (auto simp: takeWhile_eq_all_conv)
  ultimately show ?thesis using assms(2) topicNameD(1)[OF assms(1)] by (simp add: parsePandaXRPCRequestID_def Let_def tw)
qed

section \<open>Properties of topics\<close>

text \<open>C33: Topics read back what they were written with. The Sagoo topic of a device gives back the
  product and device key for every suffix; the iThings down topic rendered for a product and
  device name gives back the kind, the product and the name; the request topic of PandaX gives back the
  request identifier. (For identifiers without a slash and without blanks around them; for
  iThings also without a brace in the product.)\<close>
theorem topics_round_trip:
  assumes "topicName pk" "topicName dk" "TrimSpace pk = pk" "TrimSpace dk = dk" "CHR ''{'' \<notin> set pk"
    and "suffx \<noteq> []" "hd suffx \<noteq> CHR ''/''" "isASCII (last suffx)" "\<not> asciiSpace (last suffx)"
    and "ty \<in> {''property'', ''action''}"
  shows "parseSagooTopicIdentity (sagooSysTopic pk dk suffx) = Some (pk, dk) \<and>
    parseIThingsDownTopic (renderIThingsTopic (''$thing/down/'' @ ty @ ''/{productID}/{deviceName}'') pk dk) = Some (ty, pk, dk) \<and>
    parsePandaXRPCRequestID (''v1/devices/me/rpc/request/'' @ pk) = pk"
proof (intro conjI)
  show "parseSagooTopicIdentity (sagooSysTopic pk dk suffx) = Some (pk, dk)"
    using sagooSysTopic_segments[OF assms(1,2,6,8,9)] segments_last[OF assms(6,7)]
    by (simp add: parseSagooTopicIdentity_def Let_def Suc_le_eq not_less)
  have ty: "topicName ty" "TrimSpace ty = ty" "CHR ''{'' \<notin> set ty"
    using assms(10) by (auto simp: topicName_def TrimSpace_plain ascii_eval)
  show "parseIThingsDownTopic (renderIThingsTopic (''$thing/down/'' @ ty @ ''/{productID}/{deviceName}'') pk dk) = Some (ty, pk, dk)"
    unfolding renderIThings_down[OF assms(3,4,5) ty(3)] by (rule parseIThings_down) (use assms ty in simp_all)
  show "parsePandaXRPCRequestID (''v1/devices/me/rpc/request/'' @ pk) = pk"
    using parsePandaX_prefix[OF assms(1,3)] by (simp add: pandaXRPCPrefix_def)
qed

theorem topics_round_trip_witness:
  "parseSagooTopicIdentity (sagooSysTopic ''pk'' ''dk'' ''thing/service/property/set'') = Some (''pk'', ''dk'')"
  using topics_round_trip[of "''pk''" "''dk''" "''thing/service/property/set''" "''property''"]
  by (simp add: topicName_def TrimSpace_plain ascii_eval)

text \<open>Service calls of the Sagoo platform are never handled. The adapter subscribes
  \<open>thing/service/+\<close> below its topic, so that a service call arrives with six segments; \<open>handleServiceCall\<close>
  drops every message that has not seven. For every service name and every payload the call
  changes nothing and is not answered.\<close>
theorem sagoo_service_calls_ignored:
  assumes "topicName pk" "topicName dk" "topicName svc" "TrimSpace svc = svc"
  shows "sagoo_handleServiceCall L sprint out (sagooSysTopic pk dk (''thing/service/'' @ svc)) body a = (None, a)"
proof -
  let ?t = "''/sys/'' @ pk @ ''/'' @ dk @ ''/thing/service/'' @ svc"
  have "TrimSpace ?t = ?t"
    using TrimSpace_behind[of svc "''/sys/'' @ pk @ ''/'' @ dk @ ''/thing/service/''"] assms(4) by (simp add: ascii_eval)
  moreover have "segments [] ?t = [''sys'', pk, dk, ''thing'', ''service'', svc]"
    using assms(1-3) segments_part[of "''sys''" "pk @ ''/'' @ dk @ ''/thing/service/'' @ svc"]
      segments_part[of "''thing''" "''service/'' @ svc"] segments_part[of "''service''" svc]
    by (simp add: topicNameD)
  ultimately have "length (splitTopic ?t) = 6" by (simp add: splitTopic_segments)
  moreover have "sagooSysTopic pk dk (''thing/service/'' @ svc) = ?t" by (simp add: sagooSysTopic_def)
  ultimately show ?thesis by (simp add: sagoo_handleServiceCall_def Let_def)
qed

theorem sagoo_service_calls_ignored_witness:
  "sagoo_handleServiceCall \<lparr>uniLower = id, uniUpper = id, parseFloat = \<lambda>_. None, formatFloat = \<lambda>_ _. []\<rparr>
     (\<lambda>_. []) \<lparr>po_connect = ConnOK, po_publish = PubOK\<rparr> (sagooSysTopic ''p'' ''d'' ''thing/service/reboot'')
     (Some \<lparr>sq_Id = ''1'', sq_Params = [(''delay'', JStr ''5'')], sq_Identity = []\<rparr>) exampleSagoo = (None, exampleSagoo)"
  using sagoo_service_calls_ignored[of "''p''" "''d''" "''reboot''"]
  by (simp add: topicName_def TrimSpace_plain ascii_eval)

section \<open>Requests of iThings\<close>

lemma ithings_publish_frame [simp]:
  "it_requestStates (snd (ithings_publish now out a)) = it_requestStates a"
  "it_commandQueue (snd (ithings_publish now out a)) = it_commandQueue a"
  "lc_initialized (it_life (snd (ithings_publish now out a))) = lc_initialized (it_life a)"
  by (simp_all add: ithings_publish_def Let_def split: option.splits pubResult.splits)

text \<open>A sequence of reports, as the collector makes them: the replies.\<close>

fun reportRun ::
  "gotime \<Rightarrow> (nat \<Rightarrow> pubOutcome) \<Rightarrow> NorthboundCommandResult list \<Rightarrow> IThingsAdapter \<Rightarrow> iThingsReplyPayload list \<times> IThingsAdapter" where
  "reportRun now outs [] a = ([], a)"
| "reportRun now outs (r # rs) a =
     (let (reply, a) = ithings_ReportCommandResult now (outs 0) (Some r) a;
          (replies, a) = reportRun now (\<lambda>i. outs (Suc i)) rs a
      in (case reply of None \<Rightarrow> replies | Some (m, _) \<Rightarrow> m # replies, a))"

fun replyToken :: "iThingsReplyPayload \<Rightarrow> string" where
  "replyToken (ActionReply topic token code msg ts actionID data) = token"
| "replyToken (ControlReply topic token code msg ts) = token"

fun replyCode :: "iThingsReplyPayload \<Rightarrow> int" where
  "replyCode (ActionReply topic token code msg ts actionID data) = code"
| "replyCode (ControlReply topic token code msg ts) = code"

text \<open>Every request is stored under its own identifier.\<close>

definition requestsOK :: "(string \<times> iThingsRequestState) list \<Rightarrow> bool" where
  "requestsOK states \<longleftrightarrow> (\<forall>k st. map_of states k = Some st \<longrightarrow> rq_RequestID st = k)"

lemma requestAfter_fields [simp]:
  "rq_RequestID (requestAfter r st) = rq_RequestID st"
  "rq_Pending (requestAfter r st) = max 0 (rq_Pending st - 1)"
  "rq_Success (requestAfter r st) = (rq_Success st \<and> nr_Success r)"
  "rq_Code (requestAfter r st) = (if nr_Code r \<noteq> 0 then nr_Code r else rq_Code st)"
  by (simp_all add: requestAfter_def Let_def)

lemma iThingsReply_parts [simp]:
  "replyToken (iThingsReply now st a) = rq_RequestID st"
  "replyCode (iThingsReply now st a) = (if rq_Code st = 0 then (if rq_Success st then 0 else 500) else rq_Code st)"
  by (simp_all add: iThingsReply_def Let_def)

definition finalCode :: "iThingsRequestState \<Rightarrow> NorthboundCommandResult list \<Rightarrow> int" where
  "finalCode st rs =
     (let code = fold (\<lambda>r c. if nr_Code r \<noteq> 0 then nr_Code r else c) rs (rq_Code st)
      in if code \<noteq> 0 then code else if rq_Success st \<and> (\<forall>r\<in>set rs. nr_Success r) then 0 else 500)"

text \<open>The part of the adapter's state that the reports work on.\<close>

definition awaiting :: "string \<Rightarrow> iThingsRequestState option \<Rightarrow> IThingsAdapter \<Rightarrow> bool" where
  "awaiting rid st a \<longleftrightarrow> lc_initialized (it_life a) \<and>
     (\<exists>states. it_requestStates a = Some states \<and> requestsOK states \<and> map_of states rid = st)"

lemma requestsOK_update: "requestsOK states \<Longrightarrow> rq_RequestID st = k \<Longrightarrow> requestsOK (AList.update k st states)"
  by (simp add: requestsOK_def update_conv')

lemma requestsOK_delete: "requestsOK states \<Longrightarrow> requestsOK (AList.delete k states)"
  by (auto simp: requestsOK_def delete_conv' split: if_splits)

lemmas report_simps = ithings_ReportCommandResult_def ithings_applyCommandResult_def case_prod_beta Let_def

lemma apply_other:
  assumes "it_requestStates a = Some states" "requestsOK states" "map_of states rid = st" "nr_RequestID r \<noteq> rid"
    and "ithings_applyCommandResult r a = (done, b)"
  shows "(\<exists>states'. it_requestStates b = Some states' \<and> requestsOK states' \<and> map_of states' rid = st) \<and>
    it_life b = it_life a \<and> (\<forall>s. done = Some s \<longrightarrow> rq_RequestID s \<noteq> rid)"
proof (cases "map_of states (nr_RequestID r)")
  case None
  with assms show ?thesis by (auto simp: ithings_applyCommandResult_def fallbackRequest_def)
next
  case (Some s)
  then have "rq_RequestID s = nr_RequestID r" using assms(2) by (simp add: requestsOK_def)
  with Some assms show ?thesis
    by (auto simp: ithings_applyCommandResult_def Let_def requestsOK_update requestsOK_delete update_conv' delete_conv'
        split: if_splits)
qed

lemma report_other:
  assumes "awaiting rid st a" "nr_RequestID r \<noteq> rid"
    and rep: "ithings_ReportCommandResult now out (Some r) a = (reply, b)"
  shows "awaiting rid st b \<and> (\<forall>m ok. reply = Some (m, ok) \<longrightarrow> replyToken m \<noteq> rid)"
proof -
  obtain states where st: "it_requestStates a = Some states" "requestsOK states" "map_of states rid = st"
    and init: "lc_initialized (it_life a)" using assms(1) by (auto simp: awaiting_def)
  obtain fin b0 where ap: "ithings_applyCommandResult r a = (fin, b0)" by fastforce
  note A = apply_other[OF st assms(2) ap]
  show ?thesis
  proof (cases "TrimSpace (nr_RequestID r) = []")
    case True
    with rep assms(1) show ?thesis by (simp add: ithings_ReportCommandResult_def)
  next
    case False
    have "reply = map_option (\<lambda>s. (iThingsReply now s b0, fst (ithings_publish now out b0))) fin"
      "b = (if fin = None then b0 else snd (ithings_publish now out b0))"
      using rep False init by (auto simp: ithings_ReportCommandResult_def ap case_prod_beta Let_def split: option.splits)
    with A init show ?thesis by (auto simp: awaiting_def)
  qed
qed

lemma report_mine:
  assumes "awaiting rid (Some st) a" "nr_RequestID r = rid" "TrimSpace rid \<noteq> []" "0 < rq_Pending st"
    and rep: "ithings_ReportCommandResult now out (Some r) a = (reply, b)"
  shows "if rq_Pending st = 1
    then (\<exists>c ok. reply = Some (iThingsReply now (requestAfter r st) c, ok)) \<and> awaiting rid None b
    else reply = None \<and> awaiting rid (Some (requestAfter r st)) b"
proof -
  obtain states where st: "it_requestStates a = Some states" "requestsOK states" "map_of states rid = Some st"
    and init: "lc_initialized (it_life a)" using assms(1) by (auto simp: awaiting_def)
  have id: "rq_RequestID st = rid" using st by (simp add: requestsOK_def)
  show ?thesis
    using assms(2-4) rep st init id
    by (auto simp: report_simps awaiting_def requestsOK_update requestsOK_delete update_conv' delete_conv') (rule exI, rule refl)
qed

lemma reports_none:
  assumes "awaiting rid st a" "filter (\<lambda>r. nr_RequestID r = rid) rs = []"
  shows "awaiting rid st (snd (reportRun now outs rs a)) \<and> filter (\<lambda>m. replyToken m = rid) (fst (reportRun now outs rs a)) = []"
  using assms
proof (induction rs arbitrary: outs a)
  case (Cons r rs)
  obtain reply b where rep: "ithings_ReportCommandResult now (outs 0) (Some r) a = (reply, b)" by fastforce
  have "nr_RequestID r \<noteq> rid" using Cons.prems(2) by (auto split: if_splits)
  from report_other[OF Cons.prems(1) this rep] have b: "awaiting rid st b" "\<forall>m ok. reply = Some (m, ok) \<longrightarrow> replyToken m \<noteq> rid" by auto
  have "filter (\<lambda>r. nr_RequestID r = rid) rs = []" using Cons.prems(2) by (auto split: if_splits)
  from Cons.IH[OF b(1) this, of "\<lambda>i. outs (Suc i)"] b(2) show ?case
    by (auto simp: rep case_prod_beta Let_def split: option.splits)
qed simp

lemma finalCode_step: "finalCode (requestAfter r st) rs = finalCode st (r # rs)"
  by (auto simp: finalCode_def Let_def)

lemma reports_answer:
  assumes "awaiting rid (Some st) a" "TrimSpace rid \<noteq> []" "rq_Pending st = int (length (filter (\<lambda>r. nr_RequestID r = rid) rs))"
    and "0 < rq_Pending st"
  shows "\<exists>reply. filter (\<lambda>m. replyToken m = rid) (fst (reportRun now outs rs a)) = [reply] \<and>
    replyCode reply = finalCode st (filter (\<lambda>r. nr_RequestID r = rid) rs) \<and>
    awaiting rid None (snd (reportRun now outs rs a))"
  using assms
proof (induction rs arbitrary: outs a st)
  case (Cons r rs)
  obtain reply b where rep: "ithings_ReportCommandResult now (outs 0) (Some r) a = (reply, b)" by fastforce
  show ?case
  proof (cases "nr_RequestID r = rid")
    case False
    from report_other[OF Cons.prems(1) False rep] Cons.IH[of st b "\<lambda>i. outs (Suc i)"] Cons.prems False
    show ?thesis by (auto simp: rep case_prod_beta Let_def split: option.splits)
  next
    case mine: True
    note M = report_mine[OF Cons.prems(1) mine Cons.prems(2,4) rep]
    show ?thesis
    proof (cases "rq_Pending st = 1")
      case True
      then have none: "filter (\<lambda>r. nr_RequestID r = rid) rs = []" using Cons.prems(3) mine by simp
      from M True obtain c ok where c: "reply = Some (iThingsReply now (requestAfter r st) c, ok)" "awaiting rid None b" by auto
      have "rq_RequestID st = rid" using Cons.prems(1) by (auto simp: awaiting_def requestsOK_def)
      with reports_none[OF c(2) none, of now "\<lambda>i. outs (Suc i)"] show ?thesis
        by (auto simp: rep c case_prod_beta Let_def mine none finalCode_def)
    next
      case False
      with M have n: "reply = None" "awaiting rid (Some (requestAfter r st)) b" by simp_all
      have "rq_Pending (requestAfter r st) = int (length (filter (\<lambda>r. nr_RequestID r = rid) rs))"
        "0 < rq_Pending (requestAfter r st)"
        using Cons.prems(3,4) mine False by auto
      from Cons.IH[OF n(2) Cons.prems(2) this, of "\<lambda>i. outs (Suc i)"] show ?thesis
        by (simp add: rep n(1) case_prod_beta Let_def mine flip: finalCode_step)
    qed
  qed
qed simp

lemma downlink_registers:
  assumes topic: "parseIThingsDownTopic topic = Some (ty, pid, dn)" and rid: "TrimSpace (iq_MsgToken req) = rid" "rid \<noteq> []"
    and cmds: "fst (buildIThingsCommands L sprint rid ty (iq_Method req) (iq_ActionID req) (iq_Params req) pid dn) = cmds" "cmds \<noteq> []"
    and a: "lc_initialized (it_life a)" "it_requestStates a = Some states" "requestsOK states"
  shows "\<exists>a' st. ithings_handleDownlink L sprint now topic (Some req) a = Some a' \<and> awaiting rid (Some st) a' \<and>
    rq_Pending st = int (length cmds) \<and> rq_Success st \<and> rq_Code st = 0 \<and>
    it_commandQueue a' = appendCommandQueueWithCap (it_commandQueue a) (map Some cmds) (it_commandCap a)"
  using assms
  by (auto simp: ithings_handleDownlink_def Let_def case_prod_beta awaiting_def requestsOK_update update_conv')


text \<open>Two fields are to be set; the first write fails, the second succeeds: the reply has code 200.\<close>

definition exampleRequest :: iThingsRequest where
  "exampleRequest = \<lparr>iq_Method = ''control'', iq_MsgToken = ''t1'', iq_ActionID = [],
     iq_Params = JObj [(''a'', JStr ''1''), (''b'', JStr ''2'')]\<rparr>"

definition exampleResult :: "bool \<Rightarrow> NorthboundCommandResult" where
  "exampleResult ok = \<lparr>nr_RequestID = ''t1'', nr_ProductKey = ''p'', nr_DeviceKey = ''d'', nr_FieldName = ''a'',
     nr_Value = ''1'', nr_Source = [], nr_Success = ok, nr_Code = (if ok then 200 else 500), nr_Message = []\<rparr>"

lemma example_topic: "parseIThingsDownTopic ''$thing/down/property/p/d'' = Some (''property'', ''p'', ''d'')"
  using parseIThings_down[of "''p''" "''d''" "''property''"] by (simp add: topicName_def TrimSpace_plain ascii_eval)

lemma example_commands:
  "length (fst (buildIThingsCommands exampleLib sprint ''t1'' ''property'' (iq_Method exampleRequest) (iq_ActionID exampleRequest)
     (iq_Params exampleRequest) ''p'' ''d'')) = 2"
  by (simp add: buildIThingsCommands_def exampleRequest_def EqualFoldWord_def resolveMapValue_def commandKeys_def
      TrimSpace_plain ascii_eval ToLower_def exampleLib_def Let_def)


text \<open>In a closed adapter a request that gives commands panics: the map of the requests is nil.\<close>

lemma downlink_after_close_panics:
  assumes "parseIThingsDownTopic topic = Some (ty, pid, dn)" "TrimSpace (iq_MsgToken req) \<noteq> []"
    and "fst (buildIThingsCommands L sprint (TrimSpace (iq_MsgToken req)) ty (iq_Method req) (iq_ActionID req) (iq_Params req) pid dn) \<noteq> []"
    and "ithings_Close L fuel now outs o1 o2 a = Some (ds, as, b)"
  shows "ithings_handleDownlink L sprint now' topic (Some req) b = None"
proof -
  have "it_requestStates b = None"
    using assms(4) by (auto simp: ithings_Close_def case_prod_beta Let_def split: option.splits)
  with assms(1-3) show ?thesis by (simp add: ithings_handleDownlink_def Let_def case_prod_beta)
qed

section \<open>The command queues\<close>

text \<open>Messages that arrive and pulls of the collector in any order. The run gives the commands the
  messages stand for, the commands that were pulled and the state.\<close>

datatype 'm commandOp = Arrive 'm | Pull int

fun commandRun ::
  "('m \<Rightarrow> 's \<Rightarrow> 'c list) \<Rightarrow> ('m \<Rightarrow> 's \<Rightarrow> 's) \<Rightarrow> (int \<Rightarrow> 's \<Rightarrow> 'c list option \<times> 's) \<Rightarrow> 'm commandOp list \<Rightarrow> 's \<Rightarrow>
   'c list \<times> 'c list \<times> 's" where
  "commandRun cmds arrive pull [] s = ([], [], s)"
| "commandRun cmds arrive pull (Arrive m # ops) s =
     (let (arrived, pulled, s') = commandRun cmds arrive pull ops (arrive m s) in (cmds m s @ arrived, pulled, s'))"
| "commandRun cmds arrive pull (Pull limit # ops) s =
     (let (got, s) = pull limit s; (arrived, pulled, s') = commandRun cmds arrive pull ops s
      in (arrived, (case got of None \<Rightarrow> [] | Some cs \<Rightarrow> cs) @ pulled, s'))"

text \<open>A command that the collector can look up: identity and field name are not blank.\<close>

definition commandOK :: "NorthboundCommand \<Rightarrow> bool" where
  "commandOK c \<longleftrightarrow> TrimSpace (nc_ProductKey c) \<noteq> [] \<and> TrimSpace (nc_DeviceKey c) \<noteq> [] \<and>
     nc_FieldName c \<noteq> [] \<and> TrimSpace (nc_FieldName c) = nc_FieldName c"

locale command_stream =
  fixes queue :: "'s \<Rightarrow> NorthboundCommand list" and capOf :: "'s \<Rightarrow> nat" and ready :: "'s \<Rightarrow> bool"
    and cmds :: "'m \<Rightarrow> 's \<Rightarrow> NorthboundCommand list" and arrive :: "'m \<Rightarrow> 's \<Rightarrow> 's"
    and pull :: "int \<Rightarrow> 's \<Rightarrow> NorthboundCommand list option \<times> 's"
  assumes arrive_law: "ready s \<Longrightarrow> length (queue s) \<le> capOf s \<Longrightarrow> queue (arrive m s) = lastN (capOf s) (queue s @ cmds m s)"
    and arrive_frame: "ready s \<Longrightarrow> ready (arrive m s) \<and> capOf (arrive m s) = capOf s"
    and pull_law: "ready s \<Longrightarrow> fst (pull n s) = Some (take (nat (if n \<le> 0 then 20 else n)) (queue s)) \<and>
      queue (snd (pull n s)) = drop (nat (if n \<le> 0 then 20 else n)) (queue s)"
    and pull_frame: "ready s \<Longrightarrow> ready (snd (pull n s)) \<and> capOf (snd (pull n s)) = capOf s"
    and cmds_ok: "c \<in> set (cmds m s) \<Longrightarrow> commandOK c"
begin

lemma fifo:
  assumes "ready s" "commandRun cmds arrive pull ops s = (arrived, pulled, s')" "length (queue s @ arrived) \<le> capOf s"
  shows "pulled @ queue s' = queue s @ arrived"
  using assms
proof (induction ops arbitrary: s arrived pulled)
  case (Cons op ops)
  show ?case
  proof (cases op)
    case (Arrive m)
    obtain ar where ar: "commandRun cmds arrive pull ops (arrive m s) = (ar, pulled, s')" "arrived = cmds m s @ ar"
      using Cons.prems(2) Arrive by (auto simp: case_prod_beta Let_def prod_eq_iff)
    have "queue (arrive m s) = queue s @ cmds m s" using arrive_law Cons.prems ar(2) by simp
    with Cons.IH[OF _ ar(1)] arrive_frame[OF Cons.prems(1), of m] Cons.prems ar(2) show ?thesis by simp
  next
    case (Pull n)
    define k where "k = nat (if n \<le> 0 then 20 else n)"
    note law = pull_law[OF Cons.prems(1), of n, folded k_def]
    obtain pu where pu: "commandRun cmds arrive pull ops (snd (pull n s)) = (arrived, pu, s')" "pulled = take k (queue s) @ pu"
      using Cons.prems(1,2) Pull law by (auto simp: case_prod_beta Let_def prod_eq_iff)
    have "pu @ queue s' = drop k (queue s) @ arrived"
      using Cons.IH[OF _ pu(1)] law pull_frame[OF Cons.prems(1), of n] Cons.prems(3) by simp
    with pu(2) show ?thesis by (metis append_assoc append_take_drop_id)
  qed
qed simp

lemma all_ok:
  assumes "ready s" "length (queue s) \<le> capOf s" "\<forall>c\<in>set (queue s). commandOK c"
    and "commandRun cmds arrive pull ops s = (arrived, pulled, s')"
  shows "(\<forall>c\<in>set pulled. commandOK c) \<and> length (queue s') \<le> capOf s"
  using assms
proof (induction ops arbitrary: s arrived pulled)
  case (Cons op ops)
  show ?case
  proof (cases op)
    case (Arrive m)
    obtain ar where ar: "commandRun cmds arrive pull ops (arrive m s) = (ar, pulled, s')"
      using Cons.prems(4) Arrive by (auto simp: case_prod_beta Let_def prod_eq_iff)
    have q: "queue (arrive m s) = lastN (capOf s) (queue s @ cmds m s)" using arrive_law Cons.prems by simp
    then have "\<forall>c\<in>set (queue (arrive m s)). commandOK c"
      using cmds_ok[of _ m s] Cons.prems(3) by (auto simp: lastN_def dest!: in_set_dropD)
    with Cons.IH[OF _ _ _ ar] q arrive_frame[OF Cons.prems(1), of m] show ?thesis by simp
  next
    case (Pull n)
    obtain pu where pu: "commandRun cmds arrive pull ops (snd (pull n s)) = (arrived, pu, s')"
      "pulled = take (nat (if n \<le> 0 then 20 else n)) (queue s) @ pu"
      using Cons.prems(1,4) Pull pull_law[OF Cons.prems(1), of n] by (auto simp: case_prod_beta Let_def prod_eq_iff)
    have "\<forall>c\<in>set (queue (snd (pull n s))). commandOK c"
      using pull_law[OF Cons.prems(1), of n] Cons.prems(3) by (auto dest: in_set_dropD)
    with Cons.IH[OF _ _ _ pu(1)] pull_law[OF Cons.prems(1), of n] pull_frame[OF Cons.prems(1), of n] Cons.prems(2,3) pu(2)
    show ?thesis by (auto dest: in_set_takeD)
  qed
qed simp

end

lemma pickFirstNonEmpty_trimmed [simp]: "TrimSpace (pickFirstNonEmpty vs) = pickFirstNonEmpty vs"
  by (simp add: pickFirstNonEmpty_def split: list.splits)

lemma commandKeys_ok: "k \<in> set (commandKeys m) \<Longrightarrow> k \<noteq> [] \<and> TrimSpace k = k"
  by (auto simp: commandKeys_def)

lemma appendCommands_lastN:
  "appendCommandQueueWithCap q (map Some cs) c = lastN (effectiveCap c) (q @ cs)"
proof -
  have "List.map_filter id (map Some cs) = cs" by (simp add: map_filter_def comp_def)
  then show ?thesis unfolding appendCommand_lastN effectiveCap_def defaultRealtimeQueue_def by simp
qed

lemma appendCommands_map:
  "appendCommandQueueWithCap q (map (\<lambda>k. Some (f k)) ks) c = lastN (effectiveCap c) (q @ map f ks)"
  using appendCommands_lastN[of q "map f ks" c] by (simp add: comp_def)

text \<open>The commands of a message of the Sagoo platform.\<close>

definition sagooCommands ::
  "golib \<Rightarrow> (json \<Rightarrow> string) \<Rightarrow> string \<times> sagooRequest option \<times> pubOutcome \<Rightarrow> SagooAdapter \<Rightarrow> NorthboundCommand list" where
  "sagooCommands L sprint m a =
     (case (parseSagooTopicIdentity (fst m), fst (snd m)) of
        (Some (pk, dk), Some req) \<Rightarrow>
          let (props, ident) = resolveSagooCommandProperties L (sq_Params req);
              root = parseIdentityMap (sq_Identity req);
              pk = pickFirstNonEmpty [fst root, fst ident, pk]; dk = pickFirstNonEmpty [snd root, snd ident, dk]
          in if pk = [] \<or> dk = [] then []
             else (case props of
                     None \<Rightarrow> []
                   | Some props \<Rightarrow>
                       map (\<lambda>key. \<lparr>nc_RequestID = sq_Id req, nc_ProductKey = pk, nc_DeviceKey = dk, nc_FieldName = key,
                         nc_Value = stringifyAny L sprint (jget props key), nc_Source = ''sagoo.property.set''\<rparr>) (commandKeys props))
      | _ \<Rightarrow> [])"

definition sagooArrive ::
  "golib \<Rightarrow> (json \<Rightarrow> string) \<Rightarrow> string \<times> sagooRequest option \<times> pubOutcome \<Rightarrow> SagooAdapter \<Rightarrow> SagooAdapter" where
  "sagooArrive L sprint m a = snd (sagoo_handlePropertySet L sprint (snd (snd m)) (fst m) (fst (snd m)) a)"

lemma sagoo_publish_commands [simp]:
  "sg_commandQueue (snd (sagoo_publish out a)) = sg_commandQueue a"
  "sg_commandCap (snd (sagoo_publish out a)) = sg_commandCap a"
  "lc_initialized (sg_life (snd (sagoo_publish out a))) = lc_initialized (sg_life a)"
  by (simp_all add: sagoo_publish_def Let_def split: option.splits)

lemma commandKeys_Nil [simp]: "commandKeys [] = []"
  by (simp add: commandKeys_def)

lemma sagoo_enqueue_frame [simp]:
  "sg_life (sagoo_enqueueCommandFromPropertySet L sprint pk dk i ps rpk rdk a) = sg_life a"
  "sg_commandCap (sagoo_enqueueCommandFromPropertySet L sprint pk dk i ps rpk rdk a) = sg_commandCap a"
  by (simp_all add: sagoo_enqueueCommandFromPropertySet_def Let_def split: prod.splits option.splits)

lemma sagoo_arrive_queue:
  assumes "length (sg_commandQueue a) \<le> effectiveCap (sg_commandCap a)"
  shows "sg_commandQueue (sagooArrive L sprint m a) =
    lastN (effectiveCap (sg_commandCap a)) (sg_commandQueue a @ sagooCommands L sprint m a)"
  using assms
  by (auto simp: sagooArrive_def sagooCommands_def sagoo_handlePropertySet_def sagoo_enqueueCommandFromPropertySet_def
      case_prod_beta Let_def appendCommands_map split: option.splits)

definition ithingsCommands ::
  "golib \<Rightarrow> (json \<Rightarrow> string) \<Rightarrow> gotime \<times> string \<times> iThingsRequest option \<Rightarrow> IThingsAdapter \<Rightarrow> NorthboundCommand list" where
  "ithingsCommands L sprint m a =
     (case (parseIThingsDownTopic (fst (snd m)), snd (snd m)) of
        (Some (ty, pid, dn), Some req) \<Rightarrow>
          let rid = TrimSpace (iq_MsgToken req);
              rid = (if rid = [] then fst (ithings_nextID (fst m) ''req'' a) else rid)
          in fst (buildIThingsCommands L sprint rid ty (iq_Method req) (iq_ActionID req) (iq_Params req) pid dn)
      | _ \<Rightarrow> [])"

definition ithingsArrive ::
  "golib \<Rightarrow> (json \<Rightarrow> string) \<Rightarrow> gotime \<times> string \<times> iThingsRequest option \<Rightarrow> IThingsAdapter \<Rightarrow> IThingsAdapter" where
  "ithingsArrive L sprint m a = (case ithings_handleDownlink L sprint (fst m) (fst (snd m)) (snd (snd m)) a of None \<Rightarrow> a | Some a' \<Rightarrow> a')"

definition pandaxArrive ::
  "golib \<Rightarrow> (json \<Rightarrow> string) \<Rightarrow> string \<times> pandaXRequest option \<Rightarrow> PandaXAdapter \<Rightarrow> PandaXAdapter" where
  "pandaxArrive L sprint m a = pandax_handleRPCRequest L sprint (fst m) (snd m) a"

definition pandaxCommands ::
  "golib \<Rightarrow> (json \<Rightarrow> string) \<Rightarrow> string \<times> pandaXRequest option \<Rightarrow> PandaXAdapter \<Rightarrow> NorthboundCommand list" where
  "pandaxCommands L sprint m a =
     (case snd m of
        None \<Rightarrow> []
      | Some req \<Rightarrow>
          pandax_buildRPCCommands L sprint
            (if TrimSpace (pq_RequestID req) = [] then parsePandaXRPCRequestID (fst m) else pq_RequestID req)
            (pq_Method req) (pq_Params req) a)"

lemma sagooCommands_ok:
  assumes "c \<in> set (sagooCommands L sprint m a)"
  shows "commandOK c"
proof -
  from assms obtain pk dk where t: "parseSagooTopicIdentity (fst m) = Some (pk, dk)"
    by (cases "parseSagooTopicIdentity (fst m)") (auto simp: sagooCommands_def)
  with assms obtain req where r: "fst (snd m) = Some req" by (cases "fst (snd m)") (auto simp: sagooCommands_def)
  obtain props ident where "resolveSagooCommandProperties L (sq_Params req) = (props, ident)" using prod.exhaust by blast
  with assms t r show ?thesis
    by (cases props) (auto simp: sagooCommands_def Let_def commandOK_def dest: commandKeys_ok split: if_splits)
qed

lemma pandaXProperties_ok: "c \<in> set (pandaXProperties L sprint i pk dk props) \<Longrightarrow> commandOK c"
  by (auto simp: pandaXProperties_def commandOK_def dest: commandKeys_ok split: if_splits)

lemma pandaXSubDevice_ok: "c \<in> set (pandaXSubDevice L sprint i pk dk item) \<Longrightarrow> commandOK c"
  by (auto simp: pandaXSubDevice_def Let_def dest: pandaXProperties_ok split: option.splits prod.splits)

lemma json_list_ok:
  "(\<And>item. list_all P (f item)) \<Longrightarrow> list_all P (case j of JArr items \<Rightarrow> concat (map f items) | _ \<Rightarrow> [])"
  by (cases j) (auto simp: list_all_iff)

lemma list_all_cases:
  "list_all P []"
  "list_all P xs \<Longrightarrow> list_all P ys \<Longrightarrow> list_all P (xs @ ys)"
  "(b \<Longrightarrow> list_all P xs) \<Longrightarrow> (\<not> b \<Longrightarrow> list_all P ys) \<Longrightarrow> list_all P (if b then xs else ys)"
  "(\<And>x. list_all P (g x)) \<Longrightarrow> list_all P (case opt of None \<Rightarrow> [] | Some x \<Rightarrow> g x)"
  by (auto split: option.splits)

lemma pandaXObject_ok: "list_all commandOK (pandaXObjectCommands L sprint i obj pk dk)"
proof -
  have P: "list_all commandOK (pandaXProperties L sprint i p d props)" for p d props
    using pandaXProperties_ok by (auto simp: list_all_iff)
  have S: "list_all commandOK (pandaXSubDevice L sprint i p d item)" for p d item
    using pandaXSubDevice_ok by (auto simp: list_all_iff)
  show ?thesis
    unfolding pandaXObjectCommands_def Let_def list.map concat.simps
    by (intro list_all_cases json_list_ok P S)
qed

lemma pandaxCommands_ok: "c \<in> set (pandaxCommands L sprint m a) \<Longrightarrow> commandOK c"
proof -
  have "commandOK c" if "c \<in> set (buildPandaXRPCCommands L sprint i mt ps pk dk)" for c i mt ps pk dk
    using that by (auto simp: buildPandaXRPCCommands_def Let_def commandOK_def[of "\<lparr>nc_RequestID = _, nc_ProductKey = _,
      nc_DeviceKey = _, nc_FieldName = _, nc_Value = _, nc_Source = _\<rparr>"] list_all_iff
      dest: pandaXObject_ok[unfolded list_all_iff, rule_format] split: json.splits if_splits)
  then show "c \<in> set (pandaxCommands L sprint m a) \<Longrightarrow> commandOK c"
    by (fastforce simp: pandaxCommands_def pandax_buildRPCCommands_def commandOK_def case_prod_beta split: option.splits)
qed

lemma parseIThings_ok: "parseIThingsDownTopic topic = Some (ty, pid, dn) \<Longrightarrow> TrimSpace pid \<noteq> [] \<and> TrimSpace dn \<noteq> []"
  by (auto simp: parseIThingsDownTopic_def Let_def split: if_split_asm)

lemma buildIThings_ok:
  assumes "TrimSpace pid \<noteq> []" "TrimSpace dn \<noteq> []"
  shows "list_all commandOK (fst (buildIThingsCommands L sprint i ty mt act ps pid dn))"
proof -
  have A: "list_all commandOK (map (\<lambda>key. \<lparr>nc_RequestID = i, nc_ProductKey = pid, nc_DeviceKey = dn, nc_FieldName = key,
      nc_Value = f key, nc_Source = src\<rparr>) (commandKeys m))" for f src m
    using assms commandKeys_ok by (auto simp: list_all_iff commandOK_def)
  have B: "TrimSpace act \<noteq> [] \<Longrightarrow> list_all commandOK [\<lparr>nc_RequestID = i, nc_ProductKey = pid, nc_DeviceKey = dn,
      nc_FieldName = TrimSpace act, nc_Value = v, nc_Source = src\<rparr>]" for v src
    using assms by (simp add: commandOK_def)
  show ?thesis
    unfolding buildIThingsCommands_def Let_def fst_conv by (intro list_all_cases A B) simp
qed

lemma ithingsCommands_ok:
  assumes "c \<in> set (ithingsCommands L sprint m a)"
  shows "commandOK c"
proof -
  from assms obtain ty pid dn where t: "parseIThingsDownTopic (fst (snd m)) = Some (ty, pid, dn)"
    by (cases "parseIThingsDownTopic (fst (snd m))") (auto simp: ithingsCommands_def)
  with assms obtain req where r: "snd (snd m) = Some req" by (cases "snd (snd m)") (auto simp: ithingsCommands_def)
  from assms t r parseIThings_ok[OF t] buildIThings_ok show ?thesis by (auto simp: ithingsCommands_def Let_def list_all_iff)
qed

interpretation sagooQueue: command_stream sg_commandQueue "\<lambda>a. effectiveCap (sg_commandCap a)" "\<lambda>a. lc_initialized (sg_life a)"
  "sagooCommands L sprint" "sagooArrive L sprint" sagoo_PullCommands for L sprint
proof (unfold_locales, goal_cases)
  case (1 s m) then show ?case by (simp add: sagoo_arrive_queue)
next
  case (2 s m) then show ?case
    by (auto simp: sagooArrive_def sagoo_handlePropertySet_def case_prod_beta Let_def split: option.splits)
qed (auto simp: sagoo_PullCommands_def Let_def min_batch dest: sagooCommands_ok)

interpretation pandaxQueue: command_stream px_commandQueue "\<lambda>a. effectiveCap (px_commandCap a)" "\<lambda>a. lc_initialized (px_life a)"
  "pandaxCommands L sprint" "pandaxArrive L sprint" pandax_PullCommands for L sprint
proof (unfold_locales, goal_cases)
  case (5 c m s) then show ?case by (rule pandaxCommands_ok)
qed (auto simp: pandaxArrive_def pandaxCommands_def pandax_handleRPCRequest_def pandax_PullCommands_def Let_def min_batch
       appendCommands_lastN split: option.splits)

interpretation ithingsQueue: command_stream it_commandQueue "\<lambda>a. effectiveCap (it_commandCap a)"
  "\<lambda>a. lc_initialized (it_life a) \<and> it_requestStates a \<noteq> None" "ithingsCommands L sprint" "ithingsArrive L sprint"
  ithings_PullCommands for L sprint
proof (unfold_locales, goal_cases)
  case (5 c m s) then show ?case by (rule ithingsCommands_ok)
qed (auto simp: ithingsArrive_def ithingsCommands_def ithings_handleDownlink_def ithings_PullCommands_def ithings_nextID_def
       Let_def min_batch case_prod_beta appendCommands_lastN split: option.splits)

section \<open>Properties of the command queues\<close>


definition exampleDown :: "gotime \<times> string \<times> iThingsRequest option" where
  "exampleDown = (5, ''$thing/down/property/p/d'', Some exampleRequest)"

lemma exampleDown_length: "length (ithingsCommands exampleLib sprint exampleDown exampleIThings) = 2"
proof -
  have "TrimSpace (iq_MsgToken exampleRequest) = ''t1''" by (simp add: exampleRequest_def TrimSpace_plain ascii_eval)
  with example_commands[of sprint] show ?thesis by (simp add: ithingsCommands_def exampleDown_def example_topic Let_def)
qed

lemma example_ready:
  "lc_initialized (it_life exampleIThings)" "it_requestStates exampleIThings \<noteq> None" "it_commandQueue exampleIThings = []"
  "effectiveCap (it_commandCap exampleIThings) = 5"
  "lc_initialized (sg_life exampleSagoo)" "sg_commandQueue exampleSagoo = []"
  "lc_initialized (px_life examplePandaX)" "px_commandQueue examplePandaX = []"
  by (simp_all add: exampleIThings_def exampleSagoo_def examplePandaX_def exampleLife_def effectiveCap_def)


text \<open>C36: Every command that the collector pulls can be looked up. Over any run the pulled commands
  have a product key, a device key and a field name that are not blank, and the field name is trimmed; the
  queues stay within their capacity.\<close>
theorem commands_well_formed:
  assumes "commandRun (sagooCommands L sprint) (sagooArrive L sprint) sagoo_PullCommands ops a = (arrived, pulled, a')"
      "lc_initialized (sg_life a)" "sg_commandQueue a = []"
    and "commandRun (pandaxCommands L sprint) (pandaxArrive L sprint) pandax_PullCommands ops2 p = (arrived2, pulled2, p')"
      "lc_initialized (px_life p)" "px_commandQueue p = []"
    and "commandRun (ithingsCommands L sprint) (ithingsArrive L sprint) ithings_PullCommands ops3 t = (arrived3, pulled3, t')"
      "lc_initialized (it_life t)" "it_requestStates t \<noteq> None" "it_commandQueue t = []"
  shows "(\<forall>c\<in>set (pulled @ pulled2 @ pulled3). TrimSpace (nc_ProductKey c) \<noteq> [] \<and> TrimSpace (nc_DeviceKey c) \<noteq> [] \<and>
      nc_FieldName c \<noteq> [] \<and> TrimSpace (nc_FieldName c) = nc_FieldName c) \<and>
    length (sg_commandQueue a') \<le> effectiveCap (sg_commandCap a) \<and>
    length (px_commandQueue p') \<le> effectiveCap (px_commandCap p) \<and>
    length (it_commandQueue t') \<le> effectiveCap (it_commandCap t)"
proof -
  note A = sagooQueue.all_ok[OF assms(2) _ _ assms(1)] and B = pandaxQueue.all_ok[OF assms(5) _ _ assms(4)]
    and C = ithingsQueue.all_ok[OF conjI[OF assms(8,9)] _ _ assms(7)]
  show ?thesis using A B C assms(3,6,10) by (auto simp: commandOK_def)
qed

theorem commands_well_formed_witness:
  "list_all (\<lambda>c. nc_FieldName c \<noteq> []) (fst (snd (commandRun (ithingsCommands exampleLib (\<lambda>_. []))
      (ithingsArrive exampleLib (\<lambda>_. [])) ithings_PullCommands [Arrive exampleDown, Pull 1] exampleIThings)))"
proof -
  obtain arrived pulled t' where r: "commandRun (ithingsCommands exampleLib (\<lambda>_. [])) (ithingsArrive exampleLib (\<lambda>_. [])) ithings_PullCommands
      [Arrive exampleDown, Pull 1] exampleIThings = (arrived, pulled, t')"
    using prod.exhaust by metis
  have "commandRun (sagooCommands exampleLib (\<lambda>_. [])) (sagooArrive exampleLib (\<lambda>_. [])) sagoo_PullCommands [] exampleSagoo = ([], [], exampleSagoo)"
    "commandRun (pandaxCommands exampleLib (\<lambda>_. [])) (pandaxArrive exampleLib (\<lambda>_. [])) pandax_PullCommands [] examplePandaX = ([], [], examplePandaX)"
    by simp_all
  from commands_well_formed[OF this(1) example_ready(5,6) this(2) example_ready(7,8) r example_ready(1-3)] r
  show ?thesis by (simp add: list_all_iff)
qed

end
