(* ===== verification/Northbound.thy ===== *)
theory Northbound
  imports Downlink Circuit
begin

text \<open>
  The northbound manager (\<open>northbound/manager.go\<close>) over the five adapters, the kinds of adapters
  (\<open>northbound/nbtype\<close>), and the code that keeps the manager in step with the stored configuration
  (\<open>app/northbound_scheduler.go\<close>, \<open>app/northbound_bootstrap.go\<close>, \<open>app/routes_api_deps.go\<close>,
  \<open>service/northbound_*_service.go\<close>).

  A Go interface value is the sum type \<open>adapter\<close>; a map of the manager is an association list in
  the order in which \<open>range\<close> goes through it. An operation that may panic or wait for ever
  returns an option. The manager's lock makes each operation a step. \<open>nbEnv\<close> holds the library,
  the time and the broker's answers, given by flush and message.
\<close>

section \<open>Adapters as one type\<close>

datatype adapter =
    MQTT MQTTAdapter
  | Xunji XunjiAdapter
  | Sagoo SagooAdapter
  | PandaX PandaXAdapter
  | IThings IThingsAdapter

record nbEnv =
  ne_lib :: golib
  ne_now :: gotime
  ne_outs :: "nat \<Rightarrow> nat \<Rightarrow> pubOutcome"

definition newLife :: "bool \<Rightarrow> lifecycle" where
  "newLife hasReconnect =
     \<lparr>lc_initialized = False, lc_enabled = False, lc_connected = False, lc_loopState = adapterLoopStopped,
      lc_stopChan = Some 0, lc_workSignal = Some False, lc_reconnect = (if hasReconnect then Some False else None),
      lc_client = None, lc_nextChan = 1, lc_closed = [], lc_loops = []\<rparr>"

definition defaultReportInterval :: duration where "defaultReportInterval = 5 * Second"
definition minUploadInterval :: duration where "minUploadInterval = 500 * Millisecond"

definition NewMQTTAdapter :: MQTTAdapter where
  "NewMQTTAdapter = \<lparr>mq_life = newLife True, mq_topic = [], mq_alarmTopic = [], mq_pendingData = [],
     mq_pendingAlarms = [], mq_lastSend = 0, mq_interval = defaultReportInterval\<rparr>"

definition NewXunjiAdapter :: XunjiAdapter where
  "NewXunjiAdapter = \<lparr>xj_life = newLife True, xj_topic = [], xj_alarmTopic = [], xj_subDeviceTokenMode = [],
     xj_pendingData = [], xj_pendingAlarms = [], xj_lastSend = 0, xj_interval = defaultReportInterval\<rparr>"

definition NewSagooAdapter :: SagooAdapter where
  "NewSagooAdapter = \<lparr>sg_life = newLife False, sg_config = None, sg_topic = [], sg_alarmTopic = [], sg_alarmBatch = 0,
     sg_alarmCap = 0, sg_realtimeCap = 0, sg_commandCap = 0, sg_latestData = [], sg_alarmQueue = [],
     sg_commandQueue = [], sg_seq = 0, sg_reportEvery = 0\<rparr>"

definition NewPandaXAdapter :: PandaXAdapter where
  "NewPandaXAdapter = \<lparr>px_life = newLife True, px_config = None, px_gatewayTelemetryTopic = [], px_alarmTopic = [],
     px_rpcResponseTopic = [], px_alarmBatch = 0, px_alarmCap = 0, px_realtimeCap = 0, px_commandCap = 0,
     px_realtimeQueue = [], px_alarmQueue = [], px_commandQueue = [], px_lastSend = 0, px_reportEvery = 0\<rparr>"

definition NewIThingsAdapter :: IThingsAdapter where
  "NewIThingsAdapter = \<lparr>it_life = newLife False, it_config = None, it_upPropertyTopicTemplate = [],
     it_upEventTopicTemplate = [], it_upActionTopicTemplate = [], it_alarmEventID = [], it_alarmEventType = [],
     it_deviceNameMode = [], it_subDeviceNameMode = [], it_alarmBatch = 0, it_alarmCap = 0, it_realtimeCap = 0,
     it_commandCap = 0, it_realtimeQueue = [], it_alarmQueue = [], it_commandQueue = [],
     it_requestStates = Some [], it_lastSend = 0, it_seq = 0, it_reportEvery = 0\<rparr>"

definition nbNormalize :: "golib \<Rightarrow> string \<Rightarrow> string" where
  "nbNormalize L raw = ToLower (uniLower L) (TrimSpace raw)"

definition supportedTypes :: "string list" where
  "supportedTypes = [''mqtt'', ''xunji'', ''pandax'', ''ithings'', ''sagoo'']"

definition IsSupported :: "golib \<Rightarrow> string \<Rightarrow> bool" where
  "IsSupported L raw \<longleftrightarrow> nbNormalize L raw \<in> {''mqtt'', ''xunji'', ''pandax'', ''ithings'', ''sagoo''}"

definition NewAdapter :: "golib \<Rightarrow> string \<Rightarrow> adapter option" where
  "NewAdapter L northboundType =
     (let t = nbNormalize L northboundType in
      if t = ''mqtt'' then Some (MQTT NewMQTTAdapter)
      else if t = ''xunji'' then Some (Xunji NewXunjiAdapter)
      else if t = ''pandax'' then Some (PandaX NewPandaXAdapter)
      else if t = ''ithings'' then Some (IThings NewIThingsAdapter)
      else if t = ''sagoo'' then Some (Sagoo NewSagooAdapter)
      else None)"

fun adapter_life :: "adapter \<Rightarrow> lifecycle" where
  "adapter_life (MQTT a) = mq_life a"
| "adapter_life (Xunji a) = xj_life a"
| "adapter_life (Sagoo a) = sg_life a"
| "adapter_life (PandaX a) = px_life a"
| "adapter_life (IThings a) = it_life a"

fun adapter_Start :: "adapter \<Rightarrow> adapter" where
  "adapter_Start (MQTT a) = MQTT (a\<lparr>mq_life := lifecycle_start True (mq_life a)\<rparr>)"
| "adapter_Start (Xunji a) = Xunji (a\<lparr>xj_life := lifecycle_start True (xj_life a)\<rparr>)"
| "adapter_Start (Sagoo a) = Sagoo (a\<lparr>sg_life := lifecycle_start False (sg_life a)\<rparr>)"
| "adapter_Start (PandaX a) = PandaX (pandax_Start a)"
| "adapter_Start (IThings a) = IThings (a\<lparr>it_life := lifecycle_start False (it_life a)\<rparr>)"

text \<open>The alarm drain of a stopping adapter needs at most one flush more than it has alarms
  (\<open>alarm_drains_end\<close>); with a batch size of 0 it never ends, and the result is \<open>None\<close> with any fuel.\<close>

fun adapter_Stop :: "nbEnv \<Rightarrow> adapter \<Rightarrow> adapter option" where
  "adapter_Stop E (MQTT a) =
     map_option (\<lambda>r. MQTT (snd (snd r))) (mqtt_Stop (ne_now E) (ne_outs E 0) (ne_outs E 1) a)"
| "adapter_Stop E (Xunji a) =
     map_option (\<lambda>r. Xunji (snd (snd r))) (xunji_Stop (ne_lib E) (ne_now E) (ne_outs E 0) (ne_outs E 1) a)"
| "adapter_Stop E (Sagoo a) =
     map_option (\<lambda>r. Sagoo (snd r)) (sagoo_Stop (Suc (length (sg_alarmQueue a))) (ne_now E) (ne_outs E) a)"
| "adapter_Stop E (PandaX a) =
     map_option (\<lambda>r. PandaX (snd r)) (pandax_Stop (Suc (length (px_alarmQueue a))) (ne_now E) (ne_outs E) a)"
| "adapter_Stop E (IThings a) =
     map_option (\<lambda>r. IThings (snd r)) (ithings_Stop (ne_lib E) (Suc (length (it_alarmQueue a))) (ne_now E) (ne_outs E) a)"

fun adapter_Close :: "nbEnv \<Rightarrow> adapter \<Rightarrow> adapter option" where
  "adapter_Close E (MQTT a) = map_option (\<lambda>r. MQTT (snd (snd r)))
     (mqtt_Close (ne_now E) (ne_outs E 0) (ne_outs E 1) (ne_outs E 2) (ne_outs E 3) a)"
| "adapter_Close E (Xunji a) = map_option (\<lambda>r. Xunji (snd (snd r)))
     (xunji_Close (ne_lib E) (ne_now E) (ne_outs E 0) (ne_outs E 1) (ne_outs E 2) (ne_outs E 3) a)"
| "adapter_Close E (Sagoo a) = map_option (\<lambda>r. Sagoo (snd (snd r)))
     (sagoo_Close (Suc (length (sg_alarmQueue a))) (ne_now E) (ne_outs E) (ne_outs E 0) (ne_outs E 1) a)"
| "adapter_Close E (PandaX a) = map_option (\<lambda>r. PandaX (snd (snd r)))
     (pandax_Close (ne_lib E) (Suc (length (px_alarmQueue a))) (ne_now E) (ne_outs E) (ne_outs E 0) (ne_outs E 1) a)"
| "adapter_Close E (IThings a) = map_option (\<lambda>r. IThings (snd (snd r)))
     (ithings_Close (ne_lib E) (Suc (length (it_alarmQueue a))) (ne_now E) (ne_outs E) (ne_outs E 0) (ne_outs E 1) a)"

fun adapter_Send :: "CollectData option \<Rightarrow> adapter \<Rightarrow> adapter" where
  "adapter_Send d (MQTT a) = MQTT (mqtt_Send d a)"
| "adapter_Send d (Xunji a) = Xunji (xunji_Send d a)"
| "adapter_Send d (Sagoo a) = Sagoo (sagoo_Send d a)"
| "adapter_Send d (PandaX a) = PandaX (pandax_Send d a)"
| "adapter_Send d (IThings a) = IThings (ithings_Send d a)"

fun adapter_SendAlarm :: "AlarmPayload option \<Rightarrow> adapter \<Rightarrow> adapter" where
  "adapter_SendAlarm x (MQTT a) = MQTT (mqtt_SendAlarm x a)"
| "adapter_SendAlarm x (Xunji a) = Xunji (xunji_SendAlarm x a)"
| "adapter_SendAlarm x (Sagoo a) = Sagoo (sagoo_SendAlarm x a)"
| "adapter_SendAlarm x (PandaX a) = PandaX (pandax_SendAlarm x a)"
| "adapter_SendAlarm x (IThings a) = IThings (ithings_SendAlarm x a)"

definition resolveInterval :: "int \<Rightarrow> duration \<Rightarrow> duration" where
  "resolveInterval ms fallback =
     (if ms \<le> 0 then fallback
      else let interval = wrap64 (ms * Millisecond)
           in if interval < 200 * Millisecond then 200 * Millisecond else interval)"

text \<open>\<open>Duration.Milliseconds\<close> rounds towards zero.\<close>

definition Milliseconds :: "duration \<Rightarrow> int" where
  "Milliseconds d = (if d < 0 then - ((- d) div Millisecond) else d div Millisecond)"

definition mqtt_SetInterval :: "duration \<Rightarrow> MQTTAdapter \<Rightarrow> MQTTAdapter" where
  "mqtt_SetInterval interval a =
     (let interval = (if interval < minUploadInterval then minUploadInterval else interval)
      in a\<lparr>mq_interval := interval, mq_lastSend := 0\<rparr>)"

definition xunji_SetInterval :: "duration \<Rightarrow> XunjiAdapter \<Rightarrow> XunjiAdapter" where
  "xunji_SetInterval interval a =
     (let interval = (if interval < minUploadInterval then minUploadInterval else interval)
      in a\<lparr>xj_interval := interval, xj_lastSend := 0\<rparr>)"

definition sagoo_SetInterval :: "duration \<Rightarrow> SagooAdapter \<Rightarrow> SagooAdapter" where
  "sagoo_SetInterval interval a = a\<lparr>sg_reportEvery := interval\<rparr>"

definition pandax_SetInterval :: "duration \<Rightarrow> PandaXAdapter \<Rightarrow> PandaXAdapter" where
  "pandax_SetInterval interval a = a\<lparr>px_reportEvery := resolveInterval (Milliseconds interval) defaultReportInterval\<rparr>"

definition ithings_SetInterval :: "duration \<Rightarrow> IThingsAdapter \<Rightarrow> IThingsAdapter" where
  "ithings_SetInterval interval a = a\<lparr>it_reportEvery := resolveInterval (Milliseconds interval) defaultReportInterval\<rparr>"

fun adapter_SetInterval :: "duration \<Rightarrow> adapter \<Rightarrow> adapter" where
  "adapter_SetInterval interval (MQTT a) = MQTT (mqtt_SetInterval interval a)"
| "adapter_SetInterval interval (Xunji a) = Xunji (xunji_SetInterval interval a)"
| "adapter_SetInterval interval (Sagoo a) = Sagoo (sagoo_SetInterval interval a)"
| "adapter_SetInterval interval (PandaX a) = PandaX (pandax_SetInterval interval a)"
| "adapter_SetInterval interval (IThings a) = IThings (ithings_SetInterval interval a)"

fun adapter_GetLastSendTime :: "adapter \<Rightarrow> gotime" where
  "adapter_GetLastSendTime (MQTT a) = mq_lastSend a"
| "adapter_GetLastSendTime (Xunji a) = xj_lastSend a"
| "adapter_GetLastSendTime (Sagoo a) = 0"
| "adapter_GetLastSendTime (PandaX a) = px_lastSend a"
| "adapter_GetLastSendTime (IThings a) = it_lastSend a"

definition sagoo_IsConnected :: "SagooAdapter \<Rightarrow> bool" where
  "sagoo_IsConnected a \<longleftrightarrow> lc_connected (sg_life a) \<and> lc_client (sg_life a) = Some True"

definition ithings_IsConnected :: "IThingsAdapter \<Rightarrow> bool" where
  "ithings_IsConnected a \<longleftrightarrow> lc_connected (it_life a) \<and> lc_client (it_life a) = Some True"

fun adapter_IsConnected :: "adapter \<Rightarrow> bool" where
  "adapter_IsConnected (Sagoo a) = sagoo_IsConnected a"
| "adapter_IsConnected (IThings a) = ithings_IsConnected a"
| "adapter_IsConnected a = isConnected (adapter_life a)"

text \<open>The configured names and topics of a snapshot are left out.\<close>

record RuntimeStatsSnapshot =
  st_Type :: string
  st_Enabled :: bool
  st_Initialized :: bool
  st_Connected :: bool
  st_LoopState :: string
  st_IntervalMS :: int
  st_PendingData :: nat
  st_PendingAlarm :: nat
  st_PendingCmd :: nat

definition mqtt_RuntimeStatsSnapshot :: "MQTTAdapter \<Rightarrow> RuntimeStatsSnapshot" where
  "mqtt_RuntimeStatsSnapshot a =
     (let l = mq_life a in
      \<lparr>st_Type = ''mqtt'', st_Enabled = lc_enabled l, st_Initialized = lc_initialized l,
       st_Connected = lc_connected l, st_LoopState = adapterLoopState_String (lc_loopState l),
       st_IntervalMS = Milliseconds (mq_interval a), st_PendingData = length (mq_pendingData a),
       st_PendingAlarm = length (mq_pendingAlarms a), st_PendingCmd = 0\<rparr>)"

definition xunji_RuntimeStatsSnapshot :: "XunjiAdapter \<Rightarrow> RuntimeStatsSnapshot" where
  "xunji_RuntimeStatsSnapshot a =
     (let l = xj_life a in
      \<lparr>st_Type = ''xunji'', st_Enabled = lc_enabled l, st_Initialized = lc_initialized l,
       st_Connected = lc_connected l, st_LoopState = adapterLoopState_String (lc_loopState l),
       st_IntervalMS = Milliseconds (xj_interval a), st_PendingData = length (xj_pendingData a),
       st_PendingAlarm = length (xj_pendingAlarms a), st_PendingCmd = 0\<rparr>)"

definition sagoo_RuntimeStatsSnapshot :: "SagooAdapter \<Rightarrow> RuntimeStatsSnapshot" where
  "sagoo_RuntimeStatsSnapshot a =
     (let l = sg_life a in
      \<lparr>st_Type = ''sagoo'', st_Enabled = lc_enabled l, st_Initialized = lc_initialized l,
       st_Connected = (lc_connected l \<and> lc_client l = Some True), st_LoopState = adapterLoopState_String (lc_loopState l),
       st_IntervalMS = Milliseconds (sg_reportEvery a), st_PendingData = length (sg_latestData a),
       st_PendingAlarm = length (sg_alarmQueue a), st_PendingCmd = length (sg_commandQueue a)\<rparr>)"

definition pandax_RuntimeStatsSnapshot :: "PandaXAdapter \<Rightarrow> RuntimeStatsSnapshot" where
  "pandax_RuntimeStatsSnapshot a =
     (let l = px_life a in
      \<lparr>st_Type = ''pandax'', st_Enabled = lc_enabled l, st_Initialized = lc_initialized l,
       st_Connected = (lc_connected l \<and> lc_client l = Some True), st_LoopState = adapterLoopState_String (lc_loopState l),
       st_IntervalMS = Milliseconds (px_reportEvery a), st_PendingData = length (px_realtimeQueue a),
       st_PendingAlarm = length (px_alarmQueue a), st_PendingCmd = length (px_commandQueue a)\<rparr>)"

definition ithings_RuntimeStatsSnapshot :: "IThingsAdapter \<Rightarrow> RuntimeStatsSnapshot" where
  "ithings_RuntimeStatsSnapshot a =
     (let l = it_life a in
      \<lparr>st_Type = ''ithings'', st_Enabled = lc_enabled l, st_Initialized = lc_initialized l,
       st_Connected = (lc_connected l \<and> lc_client l = Some True), st_LoopState = adapterLoopState_String (lc_loopState l),
       st_IntervalMS = Milliseconds (it_reportEvery a), st_PendingData = length (it_realtimeQueue a),
       st_PendingAlarm = length (it_alarmQueue a), st_PendingCmd = length (it_commandQueue a)\<rparr>)"

fun adapter_Snapshot :: "adapter \<Rightarrow> RuntimeStatsSnapshot" where
  "adapter_Snapshot (MQTT a) = mqtt_RuntimeStatsSnapshot a"
| "adapter_Snapshot (Xunji a) = xunji_RuntimeStatsSnapshot a"
| "adapter_Snapshot (Sagoo a) = sagoo_RuntimeStatsSnapshot a"
| "adapter_Snapshot (PandaX a) = pandax_RuntimeStatsSnapshot a"
| "adapter_Snapshot (IThings a) = ithings_RuntimeStatsSnapshot a"

definition HasPending :: "RuntimeStatsSnapshot \<Rightarrow> bool" where
  "HasPending s \<longleftrightarrow> st_PendingData s > 0 \<or> st_PendingAlarm s > 0 \<or> st_PendingCmd s > 0"

text \<open>The type assertion to \<open>NorthboundAdapterWithCommands\<close>, the two methods it gives.\<close>

fun withCommands :: "adapter \<Rightarrow> bool" where
  "withCommands (MQTT a) = False"
| "withCommands (Xunji a) = False"
| "withCommands _ = True"

fun adapter_PullCommands :: "int \<Rightarrow> adapter \<Rightarrow> NorthboundCommand list option \<times> adapter" where
  "adapter_PullCommands n (Sagoo a) = (let (cs, a) = sagoo_PullCommands n a in (cs, Sagoo a))"
| "adapter_PullCommands n (PandaX a) = (let (cs, a) = pandax_PullCommands n a in (cs, PandaX a))"
| "adapter_PullCommands n (IThings a) = (let (cs, a) = ithings_PullCommands n a in (cs, IThings a))"
| "adapter_PullCommands n a = (None, a)"

datatype nbReply =
    SagooReply sagooCommandReplyPayload
  | PandaXReply pandaXCommandResultPayload
  | IThingsReply iThingsReplyPayload

fun adapter_ReportCommandResult ::
  "nbEnv \<Rightarrow> NorthboundCommandResult option \<Rightarrow> adapter \<Rightarrow> nbReply list \<times> adapter" where
  "adapter_ReportCommandResult E r (Sagoo a) =
     (let (m, a) = sagoo_ReportCommandResult (ne_outs E 0 0) r a
      in (case m of None \<Rightarrow> [] | Some (x, _) \<Rightarrow> [SagooReply x], Sagoo a))"
| "adapter_ReportCommandResult E r (PandaX a) =
     (let (m, a) = pandax_ReportCommandResult (ne_now E) (ne_outs E 0 0) r a
      in (case m of None \<Rightarrow> [] | Some (x, _) \<Rightarrow> [PandaXReply x], PandaX a))"
| "adapter_ReportCommandResult E r (IThings a) =
     (let (m, a) = ithings_ReportCommandResult (ne_now E) (ne_outs E 0 0) r a
      in (case m of None \<Rightarrow> [] | Some (x, _) \<Rightarrow> [IThingsReply x], IThings a))"
| "adapter_ReportCommandResult E r a = ([], a)"

section \<open>The manager\<close>

record NorthboundManager =
  nm_adapters :: "(string \<times> adapter) list"
  nm_selfManaged :: "(string \<times> bool) list"
  nm_enabled :: "(string \<times> bool) list"
  nm_intervals :: "(string \<times> duration) list"
  nm_breakers :: "(string \<times> CircuitBreaker) list"
  nm_running :: bool
  nm_stopClosed :: bool

definition NewNorthboundManager :: NorthboundManager where
  "NewNorthboundManager = \<lparr>nm_adapters = [], nm_selfManaged = [], nm_enabled = [], nm_intervals = [],
     nm_breakers = [], nm_running = False, nm_stopClosed = False\<rparr>"

definition nm_Start :: "NorthboundManager \<Rightarrow> NorthboundManager" where
  "nm_Start m = (if nm_running m then m else m\<lparr>nm_running := True, nm_stopClosed := False\<rparr>)"

fun stopAll :: "nbEnv \<Rightarrow> (string \<times> adapter) list \<Rightarrow> (string \<times> adapter) list option" where
  "stopAll E [] = Some []"
| "stopAll E ((n, a) # as) =
     (case adapter_Stop E a of
        None \<Rightarrow> None
      | Some a \<Rightarrow> (case stopAll E as of None \<Rightarrow> None | Some as \<Rightarrow> Some ((n, a) # as)))"

definition nm_Stop :: "nbEnv \<Rightarrow> NorthboundManager \<Rightarrow> NorthboundManager option" where
  "nm_Stop E m =
     (if \<not> nm_running m then Some m
      else if nm_stopClosed m then None
      else let m = m\<lparr>nm_running := False, nm_stopClosed := True\<rparr>
           in case stopAll E (nm_adapters m) of
                None \<Rightarrow> None
              | Some as \<Rightarrow> Some (m\<lparr>nm_adapters := as\<rparr>))"

text \<open>An adapter that leaves the table is stopped and closed.\<close>

definition discard :: "nbEnv \<Rightarrow> adapter option \<Rightarrow> adapter option option" where
  "discard E old =
     (case old of
        None \<Rightarrow> Some None
      | Some a \<Rightarrow> (case adapter_Stop E a of
                     None \<Rightarrow> None
                   | Some a \<Rightarrow> (case adapter_Close E a of None \<Rightarrow> None | Some a \<Rightarrow> Some (Some a))))"

definition nm_RegisterAdapter :: "nbEnv \<Rightarrow> string \<Rightarrow> adapter \<Rightarrow> NorthboundManager \<Rightarrow> NorthboundManager option" where
  "nm_RegisterAdapter E name adapter m =
     (case discard E (map_of (nm_adapters m) name) of
        None \<Rightarrow> None
      | Some _ \<Rightarrow> Some (m\<lparr>nm_adapters := AList.update name adapter (nm_adapters m),
                          nm_selfManaged := AList.update name True (nm_selfManaged m),
                          nm_enabled := AList.update name True (nm_enabled m)\<rparr>))"

definition nm_UnregisterAdapter :: "nbEnv \<Rightarrow> string \<Rightarrow> NorthboundManager \<Rightarrow> NorthboundManager option" where
  "nm_UnregisterAdapter E name m =
     (case discard E (map_of (nm_adapters m) name) of
        None \<Rightarrow> None
      | Some _ \<Rightarrow> Some (m\<lparr>nm_adapters := AList.delete name (nm_adapters m),
                          nm_selfManaged := AList.delete name (nm_selfManaged m),
                          nm_enabled := AList.delete name (nm_enabled m),
                          nm_intervals := AList.delete name (nm_intervals m),
                          nm_breakers := AList.delete name (nm_breakers m)\<rparr>))"

definition nm_SetInterval :: "string \<Rightarrow> duration \<Rightarrow> NorthboundManager \<Rightarrow> NorthboundManager" where
  "nm_SetInterval name interval m =
     (let m = (case map_of (nm_adapters m) name of
                 None \<Rightarrow> m
               | Some a \<Rightarrow> m\<lparr>nm_adapters := AList.update name (adapter_SetInterval interval a) (nm_adapters m)\<rparr>)
      in m\<lparr>nm_intervals := AList.update name interval (nm_intervals m)\<rparr>)"

definition nm_SetEnabled :: "nbEnv \<Rightarrow> string \<Rightarrow> bool \<Rightarrow> NorthboundManager \<Rightarrow> NorthboundManager option" where
  "nm_SetEnabled E name enabled m =
     (case (case map_of (nm_adapters m) name of
              None \<Rightarrow> Some m
            | Some a \<Rightarrow>
                map_option (\<lambda>a. m\<lparr>nm_adapters := AList.update name a (nm_adapters m)\<rparr>)
                  (if enabled then Some (adapter_Start a) else adapter_Stop E a)) of
        None \<Rightarrow> None
      | Some m \<Rightarrow> Some (m\<lparr>nm_enabled := AList.update name enabled (nm_enabled m)\<rparr>))"

definition nm_GetAdapter :: "string \<Rightarrow> NorthboundManager \<Rightarrow> adapter option" where
  "nm_GetAdapter name m = map_of (nm_adapters m) name"

definition nm_HasAdapter :: "string \<Rightarrow> NorthboundManager \<Rightarrow> bool" where
  "nm_HasAdapter name m \<longleftrightarrow> map_of (nm_adapters m) name \<noteq> None"

definition nm_IsEnabled :: "string \<Rightarrow> NorthboundManager \<Rightarrow> bool" where
  "nm_IsEnabled name m \<longleftrightarrow> map_of (nm_enabled m) name = Some True"

definition nm_IsConnected :: "string \<Rightarrow> NorthboundManager \<Rightarrow> bool" where
  "nm_IsConnected name m \<longleftrightarrow>
     (case map_of (nm_adapters m) name of
        None \<Rightarrow> False
      | Some a \<Rightarrow> if \<not> nm_IsEnabled name m then False else adapter_IsConnected a)"

definition nm_GetInterval :: "string \<Rightarrow> NorthboundManager \<Rightarrow> duration" where
  "nm_GetInterval name m = (case map_of (nm_intervals m) name of None \<Rightarrow> 0 | Some d \<Rightarrow> d)"

definition nm_GetLastUploadTime :: "string \<Rightarrow> NorthboundManager \<Rightarrow> gotime" where
  "nm_GetLastUploadTime name m =
     (case map_of (nm_adapters m) name of None \<Rightarrow> 0 | Some a \<Rightarrow> adapter_GetLastSendTime a)"

text \<open>Asking a breaker for its state may move it on.\<close>

definition nm_GetBreakerState :: "gotime \<Rightarrow> string \<Rightarrow> NorthboundManager \<Rightarrow> CircuitState \<times> NorthboundManager" where
  "nm_GetBreakerState now name m =
     (case map_of (nm_breakers m) name of
        None \<Rightarrow> (Closed, m)
      | Some cb \<Rightarrow> let (s, cb) = State now cb in (s, m\<lparr>nm_breakers := AList.update name cb (nm_breakers m)\<rparr>))"

record RuntimeStatus =
  rt_Name :: string
  rt_Registered :: bool
  rt_Enabled :: bool
  rt_Connected :: bool
  rt_UploadIntervalMS :: int
  rt_Pending :: bool
  rt_BreakerState :: CircuitState
  rt_LastSentAt :: gotime

definition nm_RuntimeStatus :: "gotime \<Rightarrow> string \<Rightarrow> NorthboundManager \<Rightarrow> RuntimeStatus \<times> NorthboundManager" where
  "nm_RuntimeStatus now name m =
     (let enabled = nm_IsEnabled name m;
          (breaker, m') = nm_GetBreakerState now name m;
          status = \<lparr>rt_Name = name, rt_Registered = nm_HasAdapter name m, rt_Enabled = enabled, rt_Connected = False,
                    rt_UploadIntervalMS = Milliseconds (nm_GetInterval name m), rt_Pending = False,
                    rt_BreakerState = breaker, rt_LastSentAt = 0\<rparr>
      in (case map_of (nm_adapters m) name of
            None \<Rightarrow> status
          | Some a \<Rightarrow> status\<lparr>rt_Connected := (enabled \<and> st_Connected (adapter_Snapshot a)),
                            rt_Pending := HasPending (adapter_Snapshot a),
                            rt_LastSentAt := adapter_GetLastSendTime a\<rparr>, m'))"

definition appendUniqueMapKeys :: "string list \<Rightarrow> (string \<times> 'v) list \<Rightarrow> string list" where
  "appendUniqueMapKeys dst src = fold (\<lambda>(name, _) dst. if name \<in> set dst then dst else dst @ [name]) src dst"

definition nm_ListRuntimeNames :: "NorthboundManager \<Rightarrow> string list" where
  "nm_ListRuntimeNames m =
     (let names = appendUniqueMapKeys [] (nm_adapters m);
          names = appendUniqueMapKeys names (nm_intervals m);
          names = appendUniqueMapKeys names (nm_enabled m);
          names = appendUniqueMapKeys names (nm_breakers m)
      in appendUniqueMapKeys names (nm_selfManaged m))"

definition enabledAdapterRefs :: "NorthboundManager \<Rightarrow> string list" where
  "enabledAdapterRefs m = filter (\<lambda>name. nm_IsEnabled name m) (map fst (nm_adapters m))"

definition updateAdapter :: "string \<Rightarrow> adapter \<Rightarrow> NorthboundManager \<Rightarrow> NorthboundManager" where
  "updateAdapter name a m = m\<lparr>nm_adapters := AList.update name a (nm_adapters m)\<rparr>"

definition onAdapter :: "(adapter \<Rightarrow> adapter) \<Rightarrow> string \<Rightarrow> NorthboundManager \<Rightarrow> NorthboundManager" where
  "onAdapter f name m = (case map_of (nm_adapters m) name of None \<Rightarrow> m | Some a \<Rightarrow> updateAdapter name (f a) m)"

text \<open>The sample is normalised once; all adapters get the same pointer.\<close>

definition nm_SendData :: "golib \<Rightarrow> CollectData option \<Rightarrow> NorthboundManager \<Rightarrow> NorthboundManager" where
  "nm_SendData L data m =
     (let data = map_option (\<lambda>d. snd (EnsureFields L d)) data
      in fold (onAdapter (adapter_Send data)) (enabledAdapterRefs m) m)"

definition nm_SendAlarm :: "AlarmPayload option \<Rightarrow> NorthboundManager \<Rightarrow> NorthboundManager" where
  "nm_SendAlarm alarm m = fold (onAdapter (adapter_SendAlarm alarm)) (enabledAdapterRefs m) m"

fun pullFrom :: "int \<Rightarrow> string list \<Rightarrow> NorthboundCommand list \<Rightarrow> NorthboundManager \<Rightarrow> NorthboundCommand list \<times> NorthboundManager" where
  "pullFrom limit [] commands m = (commands, m)"
| "pullFrom limit (name # refs) commands m =
     (case map_of (nm_adapters m) name of
        None \<Rightarrow> pullFrom limit refs commands m
      | Some a \<Rightarrow>
          if \<not> withCommands a then pullFrom limit refs commands m
          else let remaining = limit - int (length commands)
               in if remaining \<le> 0 then (commands, m)
                  else let (pulled, a) = adapter_PullCommands remaining a; m = updateAdapter name a m
                       in pullFrom limit refs (case pulled of None \<Rightarrow> commands | Some cs \<Rightarrow> commands @ cs) m)"

definition nm_PullCommands :: "int \<Rightarrow> NorthboundManager \<Rightarrow> NorthboundCommand list \<times> NorthboundManager" where
  "nm_PullCommands limit m = pullFrom (if limit \<le> 0 then 50 else limit) (enabledAdapterRefs m) [] m"

fun reportTo ::
  "nbEnv \<Rightarrow> NorthboundCommandResult \<Rightarrow> string list \<Rightarrow> NorthboundManager \<Rightarrow> (string \<times> nbReply) list \<times> NorthboundManager" where
  "reportTo E r [] m = ([], m)"
| "reportTo E r (name # refs) m =
     (case map_of (nm_adapters m) name of
        None \<Rightarrow> reportTo E r refs m
      | Some a \<Rightarrow>
          if \<not> withCommands a then reportTo E r refs m
          else let (ms, a) = adapter_ReportCommandResult E (Some r) a;
                   (rest, m) = reportTo E r refs (updateAdapter name a m)
               in (map (\<lambda>x. (name, x)) ms @ rest, m))"

definition nm_ReportCommandResult ::
  "nbEnv \<Rightarrow> NorthboundCommandResult option \<Rightarrow> NorthboundManager \<Rightarrow> (string \<times> nbReply) list \<times> NorthboundManager" where
  "nm_ReportCommandResult E result m =
     (case result of None \<Rightarrow> ([], m) | Some r \<Rightarrow> reportTo E r (enabledAdapterRefs m) m)"

definition nm_GetStats :: "NorthboundManager \<Rightarrow> (string \<times> RuntimeStatsSnapshot \<times> bool \<times> int) list" where
  "nm_GetStats m =
     map (\<lambda>(name, a). (name, adapter_Snapshot a, nm_IsEnabled name m, Milliseconds (nm_GetInterval name m))) (nm_adapters m)"

section \<open>Stopping an adapter\<close>

text \<open>What the flushes of a stopping adapter leave alone in its life cycle decides how the stop ends.\<close>

lemma lifeOK_frame: "lifeFrame l = lifeFrame m \<Longrightarrow> lifeOK l = lifeOK m"
  by (auto simp: lifeFrame_def lifeOK_def)

lemma stop_frame_ok:
  assumes "lifeOK l0" and "lifecycle_stopBegin l0 = Some l" and "lifeFrame m = lifeFrame l"
  shows "lc_loops (loopsExit m) = [] \<and> lifeOK (lifecycle_stopEnd (lc_stopChan l0) (loopsExit m)) \<and>
    \<not> lc_enabled (lifecycle_stopEnd (lc_stopChan l0) (loopsExit m)) \<and>
    lc_initialized (lifecycle_stopEnd (lc_stopChan l0) (loopsExit m)) = lc_initialized l0 \<and>
    (lc_loops l \<noteq> [] \<longrightarrow> lc_initialized l0)"
proof (cases "lc_enabled l0")
  case True
  with assms(1) obtain ch where ch: "lc_stopChan l0 = Some ch" "lc_loops l0 = [ch]" "ch < lc_nextChan l0"
    "ch \<notin> set (lc_closed l0)" "\<forall>c\<in>set (lc_closed l0). c < lc_nextChan l0" "lc_initialized l0"
    by (auto simp: lifeOK_def)
  with True assms(2) have "l = l0\<lparr>lc_enabled := False, lc_loopState := adapterLoopStopping, lc_closed := ch # lc_closed l0\<rparr>"
    by (simp add: lifecycle_stopBegin_def Let_def)
  with ch assms(3) show ?thesis
    by (auto simp: lifeFrame_def loopsExit_def lifecycle_stopEnd_def lifeOK_def Let_def)
next
  case False
  with assms show ?thesis
    by (auto simp: lifecycle_stopBegin_def lifeFrame_def loopsExit_def lifecycle_stopEnd_def lifeOK_def Let_def)
qed

lemma stopBegin_some: "lifeOK l \<Longrightarrow> \<exists>l'. lifecycle_stopBegin l = Some l'"
  by (auto simp: lifeOK_def lifecycle_stopBegin_def Let_def)

lemma drain_keeps:
  assumes "\<And>ob s. f (snd (snd (snd (flush ob s)))) = f s"
  shows "drainAlarmQueueOnStop fuel flush e outs s = Some (ms, err, s') \<Longrightarrow> f s' = f s"
proof (induction fuel arbitrary: s outs ms)
  case (Suc fuel)
  obtain sent m1 er s1 where f: "flush (outs 0) s = (sent, m1, er, s1)" by (metis prod_cases4)
  from assms[of "outs 0" s] f have "f s1 = f s" by simp
  with Suc f show ?case by (auto split: if_splits option.splits)
qed simp

definition stopWith :: "('s \<Rightarrow> lifecycle) \<Rightarrow> (lifecycle \<Rightarrow> 's \<Rightarrow> 's) \<Rightarrow> ('s \<Rightarrow> 's option) \<Rightarrow> 's \<Rightarrow> 's option" where
  "stopWith life setLife final a =
     (case lifecycle_stopBegin (life a) of
        None \<Rightarrow> None
      | Some l \<Rightarrow>
          (case (if lc_loops l \<noteq> [] then final (setLife l a) else Some (setLife l a)) of
             None \<Rightarrow> None
           | Some a' \<Rightarrow>
               let l = loopsExit (life a')
               in if lc_loops l \<noteq> [] then None
                  else Some (setLife (lifecycle_stopEnd (lc_stopChan (life a)) l) a')))"

text \<open>\<open>final\<close>: what the loop does when it sees the closed channel; \<open>ready\<close>: what it needs to end.\<close>

locale stop_protocol =
  fixes life :: "'s \<Rightarrow> lifecycle" and setLife :: "lifecycle \<Rightarrow> 's \<Rightarrow> 's" and final :: "'s \<Rightarrow> 's option"
    and ready :: "'s \<Rightarrow> bool"
  assumes life_set: "life (setLife l a) = l" and ready_set: "ready (setLife l a) = ready a"
    and final_ends: "ready a \<Longrightarrow> \<exists>b. final a = Some b \<and> lifeFrame (life b) = lifeFrame (life a) \<and> ready b"
begin

definition runOK :: "'s \<Rightarrow> bool" where
  "runOK a \<longleftrightarrow> lifeOK (life a) \<and> (lc_initialized (life a) \<longrightarrow> ready a)"

lemma stop_ends:
  assumes "runOK a"
  shows "\<exists>b. stopWith life setLife final a = Some b \<and> runOK b \<and> \<not> lc_enabled (life b) \<and>
    lc_initialized (life b) = lc_initialized (life a)"
proof -
  from assms have ok: "lifeOK (life a)" by (simp add: runOK_def)
  then obtain l where l: "lifecycle_stopBegin (life a) = Some l" using stopBegin_some by blast
  have "\<exists>a'. (if lc_loops l \<noteq> [] then final (setLife l a) else Some (setLife l a)) = Some a' \<and>
      lifeFrame (life a') = lifeFrame l \<and> (lc_initialized (life a) \<longrightarrow> ready a')"
  proof (cases "lc_loops l = []")
    case True
    with assms show ?thesis by (simp add: life_set ready_set runOK_def)
  next
    case False
    with stop_frame_ok[OF ok l refl] assms have "ready (setLife l a)" by (simp add: ready_set runOK_def)
    from final_ends[OF this] False show ?thesis by (auto simp: life_set)
  qed
  then obtain a' where a': "(if lc_loops l \<noteq> [] then final (setLife l a) else Some (setLife l a)) = Some a'"
    "lifeFrame (life a') = lifeFrame l" "lc_initialized (life a) \<longrightarrow> ready a'" by blast
  note F = stop_frame_ok[OF ok l a'(2)]
  with a' show ?thesis by (simp add: stopWith_def l life_set ready_set runOK_def Let_def)
qed

end

section \<open>The adapters keep the stop protocol\<close>

lemma markDisconnected_frame [simp]: "lifeFrame (markDisconnected l) = lifeFrame l"
  by (simp add: markDisconnected_def lifeFrame_def signalReconnect_def Let_def)

lemma connected_frame [simp]:
  "lifeFrame (l\<lparr>lc_connected := c\<rparr>) = lifeFrame l" "lifeFrame (l\<lparr>lc_client := d\<rparr>) = lifeFrame l"
  "lifeFrame (l\<lparr>lc_workSignal := w\<rparr>) = lifeFrame l"
  by (simp_all add: lifeFrame_def)

lemma lifecycle_publish_frame [simp]: "lifeFrame (snd (lifecycle_publish l out)) = lifeFrame l"
  by (simp add: lifecycle_publish_def split: pubResult.splits)

lemma publish_frames [simp]:
  "lifeFrame (mq_life (snd (mqtt_publish now out a))) = lifeFrame (mq_life a)"
  "lifeFrame (xj_life (snd (xunji_publishBytes now out x))) = lifeFrame (xj_life x)"
  "lifeFrame (sg_life (snd (sagoo_publish out s))) = lifeFrame (sg_life s)"
  "lifeFrame (px_life (snd (pandax_publish now out p))) = lifeFrame (px_life p)"
  "lifeFrame (it_life (snd (ithings_publish now out i))) = lifeFrame (it_life i)"
  "sg_alarmBatch (snd (sagoo_publish out s)) = sg_alarmBatch s"
  "px_alarmBatch (snd (pandax_publish now out p)) = px_alarmBatch p"
  "it_alarmBatch (snd (ithings_publish now out i)) = it_alarmBatch i"
  by (simp_all add: mqtt_publish_def xunji_publishBytes_def sagoo_publish_def pandax_publish_def ithings_publish_def
      case_prod_beta Let_def split: option.splits pubResult.splits)

lemma build_frames [simp]:
  "sg_life (snd (sagoo_buildMessage now t d s)) = sg_life s" "sg_alarmBatch (snd (sagoo_buildMessage now t d s)) = sg_alarmBatch s"
  "sg_life (snd (sagoo_buildAlarmMessage now t x s)) = sg_life s"
  "sg_alarmBatch (snd (sagoo_buildAlarmMessage now t x s)) = sg_alarmBatch s"
  "snd (pandax_buildAlarmPublish now x p) = p"
  "it_life (snd (ithings_buildRealtimePublish L now d i)) = it_life i"
  "it_alarmBatch (snd (ithings_buildRealtimePublish L now d i)) = it_alarmBatch i"
  "it_life (snd (ithings_buildAlarmPublish L now x i)) = it_life i"
  "it_alarmBatch (snd (ithings_buildAlarmPublish L now x i)) = it_alarmBatch i"
  by (auto simp: sagoo_buildMessage_def sagoo_buildAlarmMessage_def sagoo_nextID_def pandax_buildAlarmPublish_def
      ithings_buildRealtimePublish_def ithings_buildAlarmPublish_def ithings_nextID_def case_prod_beta Let_def
      split: option.splits)

lemma requeue_frames [simp]:
  "lifeFrame (mq_life (mqtt_askReconnect a)) = lifeFrame (mq_life a)"
  "lifeFrame (xj_life (xunji_askReconnect x)) = lifeFrame (xj_life x)"
  "sg_life (sagoo_prependRealtime ds s) = sg_life s" "sg_alarmBatch (sagoo_prependRealtime ds s) = sg_alarmBatch s"
  "sg_life (sagoo_prependAlarms xs s) = sg_life s" "sg_alarmBatch (sagoo_prependAlarms xs s) = sg_alarmBatch s"
  "px_life (pandax_prependRealtime ds p) = px_life p" "px_alarmBatch (pandax_prependRealtime ds p) = px_alarmBatch p"
  "px_life (pandax_prependAlarms xs p) = px_life p" "px_alarmBatch (pandax_prependAlarms xs p) = px_alarmBatch p"
  "it_life (ithings_prependRealtime ds i) = it_life i" "it_alarmBatch (ithings_prependRealtime ds i) = it_alarmBatch i"
  "it_life (ithings_prependAlarms xs i) = it_life i" "it_alarmBatch (ithings_prependAlarms xs i) = it_alarmBatch i"
  by (simp_all add: mqtt_askReconnect_def xunji_askReconnect_def sagoo_prependRealtime_def sagoo_prependAlarms_def
      pandax_prependRealtime_def pandax_prependAlarms_def ithings_prependRealtime_def ithings_prependAlarms_def Let_def)

lemma publishItems_frame [simp]:
  "lifeFrame (mq_life (snd (snd (publishItems (\<lambda>d a. (Some (m d a), a)) (mqtt_publish now) outs ds a)))) = lifeFrame (mq_life a)"
  "lifeFrame (xj_life (snd (snd (publishItems (\<lambda>d a. (Some (m' d a), a)) (xunji_publishBytes now) outs xs x)))) = lifeFrame (xj_life x)"
  by (rule publishItems_keeps; simp)+

lemma publishItems_frame_batch [simp]:
  "lifeFrame (sg_life (snd (snd (publishItems (sagoo_buildMessage now t) sagoo_publish outs ds s)))) = lifeFrame (sg_life s)"
  "sg_alarmBatch (snd (snd (publishItems (sagoo_buildMessage now t) sagoo_publish outs ds s))) = sg_alarmBatch s"
  "lifeFrame (sg_life (snd (snd (publishItems (sagoo_buildAlarmMessage now t) sagoo_publish outs xs s)))) = lifeFrame (sg_life s)"
  "sg_alarmBatch (snd (snd (publishItems (sagoo_buildAlarmMessage now t) sagoo_publish outs xs s))) = sg_alarmBatch s"
  "lifeFrame (px_life (snd (snd (publishItems (pandax_buildAlarmPublish now) (pandax_publish now) outs xs p)))) = lifeFrame (px_life p)"
  "px_alarmBatch (snd (snd (publishItems (pandax_buildAlarmPublish now) (pandax_publish now) outs xs p))) = px_alarmBatch p"
  "lifeFrame (it_life (snd (snd (publishItems (ithings_buildRealtimePublish L now) (ithings_publish now) outs ds i)))) = lifeFrame (it_life i)"
  "it_alarmBatch (snd (snd (publishItems (ithings_buildRealtimePublish L now) (ithings_publish now) outs ds i))) = it_alarmBatch i"
  "lifeFrame (it_life (snd (snd (publishItems (ithings_buildAlarmPublish L now) (ithings_publish now) outs xs i)))) = lifeFrame (it_life i)"
  "it_alarmBatch (snd (snd (publishItems (ithings_buildAlarmPublish L now) (ithings_publish now) outs xs i))) = it_alarmBatch i"
  by (rule publishItems_keeps; simp)+

lemma flush_frames [simp]:
  "lifeFrame (mq_life (snd (snd (mqtt_flushPendingData now outs [] a)))) = lifeFrame (mq_life a)"
  "lifeFrame (mq_life (snd (snd (mqtt_flushAlarms now outs [] a)))) = lifeFrame (mq_life a)"
  "lifeFrame (xj_life (snd (snd (xunji_flushPendingData L now outs [] x)))) = lifeFrame (xj_life x)"
  "lifeFrame (xj_life (snd (snd (xunji_flushAlarms now outs [] x)))) = lifeFrame (xj_life x)"
  "lifeFrame (sg_life (snd (snd (snd (sagoo_flushLatestData now outs [] s))))) = lifeFrame (sg_life s)"
  "sg_alarmBatch (snd (snd (snd (sagoo_flushLatestData now outs [] s)))) = sg_alarmBatch s"
  "lifeFrame (sg_life (snd (snd (snd (sagoo_flushAlarmBatch now outs [] s))))) = lifeFrame (sg_life s)"
  "sg_alarmBatch (snd (snd (snd (sagoo_flushAlarmBatch now outs [] s)))) = sg_alarmBatch s"
  "lifeFrame (px_life (snd (snd (snd (pandax_flushRealtime L now outs [] p))))) = lifeFrame (px_life p)"
  "px_alarmBatch (snd (snd (snd (pandax_flushRealtime L now outs [] p)))) = px_alarmBatch p"
  "lifeFrame (px_life (snd (snd (snd (pandax_flushAlarmBatch now outs [] p))))) = lifeFrame (px_life p)"
  "px_alarmBatch (snd (snd (snd (pandax_flushAlarmBatch now outs [] p)))) = px_alarmBatch p"
  "lifeFrame (it_life (snd (snd (snd (ithings_flushRealtime L now outs [] i))))) = lifeFrame (it_life i)"
  "it_alarmBatch (snd (snd (snd (ithings_flushRealtime L now outs [] i)))) = it_alarmBatch i"
  "lifeFrame (it_life (snd (snd (snd (ithings_flushAlarmBatch L now outs [] i))))) = lifeFrame (it_life i)"
  "it_alarmBatch (snd (snd (snd (ithings_flushAlarmBatch L now outs [] i)))) = it_alarmBatch i"
  by (simp_all add: mqtt_flushPendingData_def mqtt_flushAlarms_def xunji_flushPendingData_def xunji_flushAlarms_def
      sagoo_flushLatestData_def sagoo_flushAlarmBatch_def pandax_flushRealtime_def pandax_flushAlarmBatch_def
      ithings_flushRealtime_def ithings_flushAlarmBatch_def case_prod_beta Let_def)

lemma sagoo_drain_final:
  assumes "0 < sg_alarmBatch s"
  shows "\<exists>b. map_option (\<lambda>r. snd (snd r)) (sagoo_drain (Suc (length (sg_alarmQueue s))) now outs s) = Some b \<and>
    lifeFrame (sg_life b) = lifeFrame (sg_life s) \<and> 0 < sg_alarmBatch b"
proof -
  obtain ms err b where b: "sagoo_drain (Suc (length (sg_alarmQueue s))) now outs s = Some (ms, err, b)"
    unfolding sagoo_drain_def sagooDrain_shape using sagooDrain.drain_ends[of s] assms by fastforce
  note D = b[unfolded sagoo_drain_def]
  have "lifeFrame (sg_life b) = lifeFrame (sg_life s)" "sg_alarmBatch b = sg_alarmBatch s"
    by (rule drain_keeps[OF _ D]; simp)+
  with b assms show ?thesis by simp
qed

lemma pandax_drain_final:
  assumes "0 < px_alarmBatch s"
  shows "\<exists>b. map_option (\<lambda>r. snd (snd r)) (pandax_drain (Suc (length (px_alarmQueue s))) now outs s) = Some b \<and>
    lifeFrame (px_life b) = lifeFrame (px_life s) \<and> 0 < px_alarmBatch b"
proof -
  obtain ms err b where b: "pandax_drain (Suc (length (px_alarmQueue s))) now outs s = Some (ms, err, b)"
    unfolding pandax_drain_def pandaxDrain_shape using pandaxDrain.drain_ends[of s] assms by fastforce
  note D = b[unfolded pandax_drain_def]
  have "lifeFrame (px_life b) = lifeFrame (px_life s)" "px_alarmBatch b = px_alarmBatch s"
    by (rule drain_keeps[OF _ D]; simp)+
  with b assms show ?thesis by simp
qed

lemma ithings_drain_final:
  assumes "0 < it_alarmBatch s"
  shows "\<exists>b. map_option (\<lambda>r. snd (snd r)) (ithings_drain L (Suc (length (it_alarmQueue s))) now outs s) = Some b \<and>
    lifeFrame (it_life b) = lifeFrame (it_life s) \<and> 0 < it_alarmBatch b"
proof -
  obtain ms err b where b: "ithings_drain L (Suc (length (it_alarmQueue s))) now outs s = Some (ms, err, b)"
    unfolding ithings_drain_def ithingsDrain_shape using ithingsDrain.drain_ends[of s] assms by fastforce
  note D = b[unfolded ithings_drain_def]
  have "lifeFrame (it_life b) = lifeFrame (it_life s)" "it_alarmBatch b = it_alarmBatch s"
    by (rule drain_keeps[OF _ D]; simp)+
  with b assms show ?thesis by simp
qed

interpretation mqttStop: stop_protocol mq_life "\<lambda>l a. a\<lparr>mq_life := l\<rparr>"
  "\<lambda>a. Some (snd (snd (mqtt_flushAlarms now o2 [] (snd (snd (mqtt_flushPendingData now o1 [] a))))))" "\<lambda>_. True" for now o1 o2
  by unfold_locales simp_all

interpretation xunjiStop: stop_protocol xj_life "\<lambda>l a. a\<lparr>xj_life := l\<rparr>"
  "\<lambda>a. Some (snd (snd (xunji_flushAlarms now o2 [] (snd (snd (xunji_flushPendingData L now o1 [] a))))))" "\<lambda>_. True" for L now o1 o2
  by unfold_locales simp_all

interpretation sagooStop: stop_protocol sg_life "\<lambda>l a. a\<lparr>sg_life := l\<rparr>"
  "\<lambda>a. map_option (\<lambda>r. snd (snd r)) (sagoo_drain (Suc (length (sg_alarmQueue a))) now outs a)" "\<lambda>a. 0 < sg_alarmBatch a" for now outs
  by unfold_locales (simp, simp, rule sagoo_drain_final)

interpretation pandaxStop: stop_protocol px_life "\<lambda>l a. a\<lparr>px_life := l\<rparr>"
  "\<lambda>a. map_option (\<lambda>r. snd (snd r)) (pandax_drain (Suc (length (px_alarmQueue a))) now outs a)" "\<lambda>a. 0 < px_alarmBatch a" for now outs
  by unfold_locales (simp, simp, rule pandax_drain_final)

interpretation ithingsStop: stop_protocol it_life "\<lambda>l a. a\<lparr>it_life := l\<rparr>"
  "\<lambda>a. map_option (\<lambda>r. snd (snd r)) (ithings_drain L (Suc (length (it_alarmQueue a))) now outs a)" "\<lambda>a. 0 < it_alarmBatch a" for L now outs
  by unfold_locales (simp, simp, rule ithings_drain_final)

lemma stop_shapes:
  "map_option (\<lambda>r. snd (snd r)) (mqtt_Stop now o1 o2 a) = stopWith mq_life (\<lambda>l a. a\<lparr>mq_life := l\<rparr>)
     (\<lambda>a. Some (snd (snd (mqtt_flushAlarms now o2 [] (snd (snd (mqtt_flushPendingData now o1 [] a))))))) a"
  "map_option (\<lambda>r. snd (snd r)) (xunji_Stop L now o1 o2 x) = stopWith xj_life (\<lambda>l a. a\<lparr>xj_life := l\<rparr>)
     (\<lambda>a. Some (snd (snd (xunji_flushAlarms now o2 [] (snd (snd (xunji_flushPendingData L now o1 [] a))))))) x"
  "map_option snd (sagoo_Stop (Suc (length (sg_alarmQueue s))) now outs s) = stopWith sg_life (\<lambda>l a. a\<lparr>sg_life := l\<rparr>)
     (\<lambda>a. map_option (\<lambda>r. snd (snd r)) (sagoo_drain (Suc (length (sg_alarmQueue a))) now outs a)) s"
  "map_option snd (pandax_Stop (Suc (length (px_alarmQueue p))) now outs p) = stopWith px_life (\<lambda>l a. a\<lparr>px_life := l\<rparr>)
     (\<lambda>a. map_option (\<lambda>r. snd (snd r)) (pandax_drain (Suc (length (px_alarmQueue a))) now outs a)) p"
  "map_option snd (ithings_Stop L (Suc (length (it_alarmQueue i))) now outs i) = stopWith it_life (\<lambda>l a. a\<lparr>it_life := l\<rparr>)
     (\<lambda>a. map_option (\<lambda>r. snd (snd r)) (ithings_drain L (Suc (length (it_alarmQueue a))) now outs a)) i"
  by (simp_all add: mqtt_Stop_def xunji_Stop_def sagoo_Stop_def pandax_Stop_def ithings_Stop_def stopWith_def
      case_prod_beta Let_def option.map_comp comp_def split: option.split)

section \<open>Every operation keeps an adapter well-formed\<close>

fun alarmBatchOf :: "adapter \<Rightarrow> int" where
  "alarmBatchOf (Sagoo a) = sg_alarmBatch a"
| "alarmBatchOf (PandaX a) = px_alarmBatch a"
| "alarmBatchOf (IThings a) = it_alarmBatch a"
| "alarmBatchOf a = 1"

text \<open>An adapter between two calls of the manager; a configured one has a positive alarm batch.\<close>

definition adapterOK :: "adapter \<Rightarrow> bool" where
  "adapterOK a \<longleftrightarrow> lifeOK (adapter_life a) \<and> (lc_initialized (adapter_life a) \<longrightarrow> 0 < alarmBatchOf a)"

lemma adapterOK_runOK:
  "adapterOK (MQTT a) = mqttStop.runOK a" "adapterOK (Xunji x) = xunjiStop.runOK x" "adapterOK (Sagoo s) = sagooStop.runOK s"
  "adapterOK (PandaX p) = pandaxStop.runOK p" "adapterOK (IThings i) = ithingsStop.runOK i"
  by (simp_all add: adapterOK_def mqttStop.runOK_def xunjiStop.runOK_def sagooStop.runOK_def pandaxStop.runOK_def ithingsStop.runOK_def)

lemma map_map_option_Some: "map_option f x = Some y \<Longrightarrow> map_option (\<lambda>r. g (f r)) x = Some (g y)"
  by auto

lemma adapter_Stop_ok:
  assumes "adapterOK a"
  shows "\<exists>b. adapter_Stop E a = Some b \<and> adapterOK b \<and> \<not> lc_enabled (adapter_life b)"
proof (cases a)
  case (MQTT x)
  with assms mqttStop.stop_ends[of x "ne_now E" "ne_outs E 1" "ne_outs E 0"] show ?thesis
    unfolding MQTT adapterOK_runOK adapter_Stop.simps by (auto simp: adapterOK_runOK simp flip: stop_shapes)
next
  case (Xunji x)
  with assms xunjiStop.stop_ends[of x "ne_now E" "ne_outs E 1" "ne_lib E" "ne_outs E 0"] show ?thesis
    unfolding Xunji adapterOK_runOK adapter_Stop.simps by (auto simp: adapterOK_runOK simp flip: stop_shapes)
next
  case (Sagoo x)
  with assms sagooStop.stop_ends[of x "ne_now E" "ne_outs E"] show ?thesis
    unfolding Sagoo adapterOK_runOK adapter_Stop.simps by (auto simp: adapterOK_runOK simp flip: stop_shapes)
next
  case (PandaX x)
  with assms pandaxStop.stop_ends[of x "ne_now E" "ne_outs E"] show ?thesis
    unfolding PandaX adapterOK_runOK adapter_Stop.simps by (auto simp: adapterOK_runOK simp flip: stop_shapes)
next
  case (IThings x)
  with assms ithingsStop.stop_ends[of x "ne_lib E" "ne_now E" "ne_outs E"] show ?thesis
    unfolding IThings adapterOK_runOK adapter_Stop.simps by (auto simp: adapterOK_runOK simp flip: stop_shapes)
qed

text \<open>\<open>Close\<close> stops, flushes once more and clears the life cycle.\<close>

lemma closed_ok: "lifeFrame m = lifeFrame l \<Longrightarrow> lifeOK l \<Longrightarrow> \<not> lc_enabled l \<Longrightarrow> lifeOK (lifecycle_closeEnd rc m)"
  using lifeOK_frame[of m l] close_ok by (auto simp: lifeFrame_def)

lemma closed_uninitialized [simp]: "\<not> lc_initialized (lifecycle_closeEnd rc l)"
  by (simp add: lifecycle_closeEnd_def)

lemma pandax_closed_ok:
  assumes "lifeFrame m = lifeFrame (l\<lparr>lc_initialized := False, lc_connected := False, lc_enabled := False, lc_loopState := adapterLoopStopped\<rparr>)"
    and "lifeOK l" "\<not> lc_enabled l"
  shows "lifeOK (m\<lparr>lc_client := None, lc_workSignal := None, lc_stopChan := None, lc_reconnect := None\<rparr>) \<and>
    \<not> lc_initialized m"
  using assms by (auto simp: lifeOK_def lifeFrame_def)

lemma adapter_Close_ok:
  assumes "adapterOK a"
  shows "\<exists>b. adapter_Close E a = Some b \<and> adapterOK b \<and> \<not> lc_initialized (adapter_life b)"
proof -
  obtain c where c: "adapter_Stop E a = Some c" "adapterOK c" "\<not> lc_enabled (adapter_life c)"
    using adapter_Stop_ok[OF assms] by blast
  show ?thesis
  proof (cases a)
    case (MQTT x)
    with c show ?thesis
      by (auto simp: mqtt_Close_def case_prod_beta Let_def adapterOK_def intro!: closed_ok)
  next
    case (Xunji x)
    with c show ?thesis
      by (auto simp: xunji_Close_def case_prod_beta Let_def adapterOK_def intro!: closed_ok)
  next
    case (Sagoo x)
    with c show ?thesis
      by (auto simp: sagoo_Close_def case_prod_beta Let_def adapterOK_def intro!: closed_ok)
  next
    case (PandaX x)
    with c obtain ms b where b: "pandax_Stop (Suc (length (px_alarmQueue x))) (ne_now E) (ne_outs E) x = Some (ms, b)"
      "lifeOK (px_life b)" "\<not> lc_enabled (px_life b)" by (auto simp: adapterOK_def)
    let ?b = "b\<lparr>px_life := (px_life b)\<lparr>lc_initialized := False, lc_connected := False, lc_enabled := False,
      lc_loopState := adapterLoopStopped\<rparr>\<rparr>"
    let ?d = "snd (snd (snd (pandax_flushAlarmBatch (ne_now E) (ne_outs E 1) [] (snd (snd (snd
      (pandax_flushRealtime (ne_lib E) (ne_now E) (ne_outs E 0) [] ?b)))))))"
    have "lifeFrame (px_life ?d) = lifeFrame ((px_life b)\<lparr>lc_initialized := False, lc_connected := False,
      lc_enabled := False, lc_loopState := adapterLoopStopped\<rparr>)" by (simp only: flush_frames) simp
    from pandax_closed_ok[OF this b(2,3)] b(1) show ?thesis
      by (simp add: PandaX pandax_Close_def case_prod_beta Let_def adapterOK_def)
  next
    case (IThings x)
    with c show ?thesis
      by (auto simp: ithings_Close_def case_prod_beta Let_def adapterOK_def intro!: closed_ok)
  qed
qed

lemma start_initialized [simp]: "lc_initialized (lifecycle_start rc l) = lc_initialized l"
  by (simp add: lifecycle_start_def makeChan_def signalReconnect_def Let_def)

lemma pandax_Start_shared: "pandax_Start a = a\<lparr>px_life := lifecycle_start True (px_life a)\<rparr>"
proof (cases "lc_initialized (px_life a) \<and> \<not> lc_enabled (px_life a) \<and> lc_loopState (px_life a) = adapterLoopStopped")
  case True
  then show ?thesis
    by (cases "lc_stopChan (px_life a)"; cases "lc_workSignal (px_life a)"; cases "lc_reconnect (px_life a)"; cases "lc_connected (px_life a)")
       (simp_all add: pandax_Start_def lifecycle_start_def makeChan_def signalReconnect_def Let_def)
next
  case False
  show ?thesis unfolding pandax_Start_def lifecycle_start_def by (simp only: Let_def[of "px_life a"] False if_False) simp
qed

lemma adapter_Start_ok: "adapterOK a \<Longrightarrow> adapterOK (adapter_Start a)"
  by (cases a) (simp_all add: adapterOK_def start_ok pandax_Start_shared)

lemma adapterOK_same:
  "lifeFrame (adapter_life b) = lifeFrame (adapter_life a) \<Longrightarrow> alarmBatchOf b = alarmBatchOf a \<Longrightarrow> adapterOK a \<Longrightarrow> adapterOK b"
  unfolding adapterOK_def using lifeOK_frame[of "adapter_life b" "adapter_life a"] by (simp add: lifeFrame_def)

lemma adapter_Send_ok: "adapterOK a \<Longrightarrow> adapterOK (adapter_Send d a)"
  by (rule adapterOK_same[of _ a]; cases a; cases d)
     (simp_all add: mqtt_Send_def xunji_Send_def sagoo_Send_def pandax_Send_def ithings_Send_def sagoo_enqueueRealtimeLocked_def
       pandax_enqueueRealtimeLocked_def ithings_enqueueRealtimeLocked_def Let_def)

lemma adapter_SendAlarm_ok: "adapterOK a \<Longrightarrow> adapterOK (adapter_SendAlarm x a)"
  by (rule adapterOK_same[of _ a]; cases a; cases x)
     (simp_all add: mqtt_SendAlarm_def xunji_SendAlarm_def sagoo_SendAlarm_def pandax_SendAlarm_def ithings_SendAlarm_def
       sagoo_enqueueAlarmLocked_def pandax_enqueueAlarmLocked_def ithings_enqueueAlarmLocked_def Let_def)

lemma adapter_SetInterval_ok: "adapterOK a \<Longrightarrow> adapterOK (adapter_SetInterval i a)"
  by (rule adapterOK_same[of _ a]; cases a)
     (simp_all add: mqtt_SetInterval_def xunji_SetInterval_def sagoo_SetInterval_def pandax_SetInterval_def ithings_SetInterval_def)

lemma adapter_PullCommands_ok: "adapterOK a \<Longrightarrow> adapterOK (snd (adapter_PullCommands n a))"
  by (rule adapterOK_same[of _ a]; cases a)
     (simp_all add: sagoo_PullCommands_def pandax_PullCommands_def ithings_PullCommands_def case_prod_beta Let_def)

lemma apply_life [simp]:
  "it_life (snd (ithings_applyCommandResult r a)) = it_life a"
  "it_alarmBatch (snd (ithings_applyCommandResult r a)) = it_alarmBatch a"
  by (simp_all add: ithings_applyCommandResult_def Let_def split: option.splits)

lemma adapter_Report_ok: "adapterOK a \<Longrightarrow> adapterOK (snd (adapter_ReportCommandResult E r a))"
  by (rule adapterOK_same[of _ a]; cases a; cases r)
     (auto simp: sagoo_ReportCommandResult_def pandax_ReportCommandResult_def ithings_ReportCommandResult_def
       case_prod_beta Let_def split: option.split)

section \<open>Sequences of the manager's calls\<close>

datatype nmCall =
    NStart
  | NStop
  | NRegister string adapter
  | NUnregister string
  | NSetInterval string duration
  | NSetEnabled string bool
  | NSendData "CollectData option"
  | NSendAlarm "AlarmPayload option"
  | NPull int
  | NReport "NorthboundCommandResult option"
  | NBreakerState gotime string

fun nmStep :: "nbEnv \<Rightarrow> nmCall \<Rightarrow> NorthboundManager \<Rightarrow> NorthboundManager option" where
  "nmStep E NStart m = Some (nm_Start m)"
| "nmStep E NStop m = nm_Stop E m"
| "nmStep E (NRegister name a) m = nm_RegisterAdapter E name a m"
| "nmStep E (NUnregister name) m = nm_UnregisterAdapter E name m"
| "nmStep E (NSetInterval name i) m = Some (nm_SetInterval name i m)"
| "nmStep E (NSetEnabled name b) m = nm_SetEnabled E name b m"
| "nmStep E (NSendData d) m = Some (nm_SendData (ne_lib E) d m)"
| "nmStep E (NSendAlarm x) m = Some (nm_SendAlarm x m)"
| "nmStep E (NPull n) m = Some (snd (nm_PullCommands n m))"
| "nmStep E (NReport r) m = Some (snd (nm_ReportCommandResult E r m))"
| "nmStep E (NBreakerState t name) m = Some (snd (nm_GetBreakerState t name m))"

fun nmRun :: "(nbEnv \<times> nmCall) list \<Rightarrow> NorthboundManager \<Rightarrow> NorthboundManager option" where
  "nmRun [] m = Some m"
| "nmRun ((E, c) # cs) m = (case nmStep E c m of None \<Rightarrow> None | Some m \<Rightarrow> nmRun cs m)"

declare map_of_eq_Some_iff [simp del]

definition nmOK :: "NorthboundManager \<Rightarrow> bool" where
  "nmOK m \<longleftrightarrow> distinct (map fst (nm_adapters m)) \<and> (\<forall>n a. map_of (nm_adapters m) n = Some a \<longrightarrow> adapterOK a) \<and>
     (\<forall>n a. map_of (nm_adapters m) n = Some a \<longrightarrow>
        (\<exists>b c. map_of (nm_enabled m) n = Some b \<and> map_of (nm_selfManaged m) n = Some c)) \<and>
     (nm_running m \<longrightarrow> \<not> nm_stopClosed m)"

lemma nmOK_adapter: "nmOK m \<Longrightarrow> map_of (nm_adapters m) n = Some a \<Longrightarrow> adapterOK a"
  by (simp add: nmOK_def)

lemma nmOK_member: "nmOK m \<Longrightarrow> (n, a) \<in> set (nm_adapters m) \<Longrightarrow> adapterOK a"
  by (rule nmOK_adapter[of m n], assumption) (rule map_of_is_SomeI, simp_all add: nmOK_def)

lemma stopAll_ok:
  "(\<forall>n a. (n, a) \<in> set as \<longrightarrow> adapterOK a) \<Longrightarrow>
   \<exists>bs. stopAll E as = Some bs \<and> map fst bs = map fst as \<and> (\<forall>n b. (n, b) \<in> set bs \<longrightarrow> adapterOK b \<and> \<not> lc_enabled (adapter_life b))"
proof (induction E as rule: stopAll.induct)
  case (2 E n a as)
  then obtain b where b: "adapter_Stop E a = Some b" "adapterOK b" "\<not> lc_enabled (adapter_life b)"
    using adapter_Stop_ok[of a E] by auto
  moreover from 2 b obtain bs where "stopAll E as = Some bs" "map fst bs = map fst as"
    "\<forall>n b. (n, b) \<in> set bs \<longrightarrow> adapterOK b \<and> \<not> lc_enabled (adapter_life b)" by auto
  ultimately show ?case by auto
qed simp

lemma nm_Stop_ok: "nmOK m \<Longrightarrow> \<exists>m'. nm_Stop E m = Some m' \<and> nmOK m'"
proof -
  assume ok: "nmOK m"
  then have "\<forall>n a. (n, a) \<in> set (nm_adapters m) \<longrightarrow> adapterOK a" using nmOK_member by blast
  from stopAll_ok[OF this] obtain bs where bs: "stopAll E (nm_adapters m) = Some bs" "map fst bs = map fst (nm_adapters m)"
    "\<forall>n b. (n, b) \<in> set bs \<longrightarrow> adapterOK b" by blast
  have "\<exists>a. map_of (nm_adapters m) n = Some a" if "map_of bs n = Some b" for n b
  proof -
    have "n \<in> set (map fst (nm_adapters m))" using map_of_SomeD[OF that] unfolding bs(2)[symmetric] by (metis in_set_zipE zip_map_fst_snd)
    then have "map_of (nm_adapters m) n \<noteq> None" by (simp add: map_of_eq_None_iff)
    then show ?thesis by blast
  qed
  with bs ok show ?thesis
    by (auto simp: nm_Stop_def nmOK_def Let_def dest: map_of_SomeD)
qed

lemma discard_ok: "nmOK m \<Longrightarrow> \<exists>r. discard E (map_of (nm_adapters m) name) = Some r"
proof (cases "map_of (nm_adapters m) name")
  case (Some a)
  assume "nmOK m"
  with Some have "adapterOK a" by (simp add: nmOK_def)
  then obtain b where b: "adapter_Stop E a = Some b" "adapterOK b" using adapter_Stop_ok by blast
  from adapter_Close_ok[OF b(2), of E] b(1) Some show ?thesis by (auto simp: discard_def)
qed (simp add: discard_def)

lemma updateAdapter_ok:
  assumes "nmOK m" "map_of (nm_adapters m) name = Some a" "adapterOK b"
  shows "nmOK (updateAdapter name b m)"
  using assms by (auto simp: nmOK_def updateAdapter_def update_conv' distinct_update)

lemma onAdapter_ok: "(\<And>a. adapterOK a \<Longrightarrow> adapterOK (f a)) \<Longrightarrow> nmOK m \<Longrightarrow> nmOK (onAdapter f name m)"
  by (cases "map_of (nm_adapters m) name") (simp_all add: onAdapter_def updateAdapter_ok nmOK_adapter)

lemma fold_onAdapter_ok: "(\<And>a. adapterOK a \<Longrightarrow> adapterOK (f a)) \<Longrightarrow> nmOK m \<Longrightarrow> nmOK (fold (onAdapter f) names m)"
  by (induction names arbitrary: m) (simp_all add: onAdapter_ok)

text \<open>The two loops over the adapters, with their bodies as functions of the manager.\<close>

lemma pullFrom_Cons:
  "pullFrom limit (name # refs) cs m =
     (case map_of (nm_adapters m) name of
        None \<Rightarrow> pullFrom limit refs cs m
      | Some a \<Rightarrow>
          if \<not> withCommands a then pullFrom limit refs cs m
          else if limit - int (length cs) \<le> 0 then (cs, m)
          else pullFrom limit refs (cs @ (case fst (adapter_PullCommands (limit - int (length cs)) a) of None \<Rightarrow> [] | Some ds \<Rightarrow> ds))
                 (updateAdapter name (snd (adapter_PullCommands (limit - int (length cs)) a)) m))"
  by (simp add: case_prod_beta Let_def split: option.split)

lemma pullFrom_ok: "nmOK m \<Longrightarrow> nmOK (snd (pullFrom limit refs cs m))"
proof (induction refs arbitrary: cs m)
  case (Cons name refs)
  show ?case
  proof (cases "map_of (nm_adapters m) name")
    case (Some a)
    have "nmOK (updateAdapter name (snd (adapter_PullCommands (limit - int (length cs)) a)) m)"
      by (rule updateAdapter_ok[OF Cons.prems Some adapter_PullCommands_ok[OF nmOK_adapter[OF Cons.prems Some]]])
    then show ?thesis unfolding pullFrom_Cons by (simp add: Some Cons.IH Cons.prems)
  qed (simp add: Cons.IH Cons.prems)
qed simp

lemma reportTo_Cons:
  "reportTo E r (name # refs) m =
     (case map_of (nm_adapters m) name of
        None \<Rightarrow> reportTo E r refs m
      | Some a \<Rightarrow>
          if \<not> withCommands a then reportTo E r refs m
          else (map (Pair name) (fst (adapter_ReportCommandResult E (Some r) a)) @
                  fst (reportTo E r refs (updateAdapter name (snd (adapter_ReportCommandResult E (Some r) a)) m)),
                snd (reportTo E r refs (updateAdapter name (snd (adapter_ReportCommandResult E (Some r) a)) m))))"
  by (simp add: case_prod_beta Let_def split: option.split)

lemma reportTo_ok: "nmOK m \<Longrightarrow> nmOK (snd (reportTo E r refs m))"
proof (induction refs arbitrary: m)
  case (Cons name refs)
  show ?case
  proof (cases "map_of (nm_adapters m) name")
    case (Some a)
    have "nmOK (updateAdapter name (snd (adapter_ReportCommandResult E (Some r) a)) m)"
      by (rule updateAdapter_ok[OF Cons.prems Some adapter_Report_ok[OF nmOK_adapter[OF Cons.prems Some]]])
    then show ?thesis unfolding reportTo_Cons by (simp add: Some Cons.IH Cons.prems)
  qed (simp add: Cons.IH Cons.prems)
qed simp

lemma start_enables: "lifeOK l \<Longrightarrow> lc_enabled (lifecycle_start rc l) = lc_initialized l"
  by (auto simp: lifeOK_def lifecycle_start_def makeChan_def signalReconnect_def Let_def split: if_splits)

lemma adapter_Start_enables:
  "adapterOK a \<Longrightarrow> lc_enabled (adapter_life (adapter_Start a)) = lc_initialized (adapter_life (adapter_Start a))"
  by (cases a) (simp_all add: adapterOK_def start_enables pandax_Start_shared)

lemma nm_SetEnabled_ok:
  assumes "nmOK m"
  shows "\<exists>m'. nm_SetEnabled E name b m = Some m' \<and> nmOK m' \<and> nm_IsEnabled name m' = b \<and>
    (\<forall>a. map_of (nm_adapters m') name = Some a \<longrightarrow> lc_enabled (adapter_life a) = (b \<and> lc_initialized (adapter_life a)))"
proof (cases "map_of (nm_adapters m) name")
  case None
  with assms show ?thesis by (auto simp: nm_SetEnabled_def nmOK_def nm_IsEnabled_def update_conv')
next
  case (Some a)
  then obtain c where c: "(if b then Some (adapter_Start a) else adapter_Stop E a) = Some c" "adapterOK c"
    "lc_enabled (adapter_life c) = (b \<and> lc_initialized (adapter_life c))"
    using adapter_Start_ok adapter_Start_enables adapter_Stop_ok[of a E] nmOK_adapter[OF assms] by (cases b) auto
  have "nm_SetEnabled E name b m = Some ((updateAdapter name c m)\<lparr>nm_enabled := AList.update name b (nm_enabled m)\<rparr>)"
    using c(1) by (simp add: nm_SetEnabled_def Some updateAdapter_def)
  moreover have "nmOK ((updateAdapter name c m)\<lparr>nm_enabled := AList.update name b (nm_enabled m)\<rparr>)"
    using updateAdapter_ok[OF assms Some c(2)] by (simp add: nmOK_def updateAdapter_def update_conv')
  ultimately show ?thesis using c(3) by (simp add: nm_IsEnabled_def updateAdapter_def update_conv')
qed

lemma nmStep_ok:
  assumes "nmOK m" and "\<forall>name a. c = NRegister name a \<longrightarrow> adapterOK a"
  shows "\<exists>m'. nmStep E c m = Some m' \<and> nmOK m'"
proof (cases c)
  case (NRegister name a)
  with assms discard_ok[of m E name] show ?thesis
    by (auto simp: nm_RegisterAdapter_def nmOK_def update_conv' distinct_update)
next
  case (NUnregister name)
  with assms discard_ok[of m E name] show ?thesis
    by (auto simp: nm_UnregisterAdapter_def nmOK_def delete_conv' distinct_delete split: if_splits)
next
  case (NSetInterval name i)
  have "nmOK (case map_of (nm_adapters m) name of None \<Rightarrow> m
      | Some a \<Rightarrow> m\<lparr>nm_adapters := AList.update name (adapter_SetInterval i a) (nm_adapters m)\<rparr>)"
    using updateAdapter_ok[OF assms(1)] nmOK_adapter[OF assms(1)] adapter_SetInterval_ok assms(1)
    by (auto simp: updateAdapter_def split: option.split)
  then show ?thesis by (simp add: NSetInterval nm_SetInterval_def nmOK_def Let_def)
next
  case (NPull n)
  with assms pullFrom_ok show ?thesis by (simp add: nm_PullCommands_def)
next
  case (NReport r)
  with assms reportTo_ok show ?thesis by (cases r) (simp_all add: nm_ReportCommandResult_def)
next
  case (NBreakerState t name)
  with assms show ?thesis by (auto simp: nm_GetBreakerState_def nmOK_def case_prod_beta split: option.split)
next
  case NStart
  with assms show ?thesis by (simp add: nm_Start_def nmOK_def)
next
  case NStop
  with assms nm_Stop_ok show ?thesis by simp
next
  case (NSetEnabled name b)
  from nm_SetEnabled_ok[OF assms(1), of E name b] show ?thesis by (auto simp: NSetEnabled)
next
  case (NSendData d)
  with assms show ?thesis by (simp add: nm_SendData_def Let_def fold_onAdapter_ok adapter_Send_ok)
next
  case (NSendAlarm x)
  with assms show ?thesis by (simp add: nm_SendAlarm_def fold_onAdapter_ok adapter_SendAlarm_ok)
qed

lemma nmRun_ok:
  "nmOK m \<Longrightarrow> \<forall>E name a. (E, NRegister name a) \<in> set cs \<longrightarrow> adapterOK a \<Longrightarrow> \<exists>m'. nmRun cs m = Some m' \<and> nmOK m'"
proof (induction cs arbitrary: m)
  case (Cons x cs)
  obtain E c where x: "x = (E, c)" by fastforce
  with Cons.prems have "\<forall>name a. c = NRegister name a \<longrightarrow> adapterOK a" by auto
  from nmStep_ok[OF Cons.prems(1) this] obtain m1 where "nmStep E c m = Some m1" "nmOK m1" by blast
  with Cons.IH[of m1] Cons.prems x show ?case by auto
qed simp

lemma nmOK_new: "nmOK NewNorthboundManager"
  by (simp add: nmOK_def NewNorthboundManager_def)

text \<open>A new adapter has no batch size yet; it cannot run before it is configured.\<close>

lemma NewAdapter_ok: "NewAdapter L t = Some a \<Longrightarrow> adapterOK a"
  by (auto simp: NewAdapter_def Let_def adapterOK_def lifeOK_def newLife_def NewMQTTAdapter_def NewXunjiAdapter_def
      NewSagooAdapter_def NewPandaXAdapter_def NewIThingsAdapter_def split: if_splits)

lemma set_appendUnique [simp]: "set (appendUniqueMapKeys dst src) = set dst \<union> fst ` set src"
  by (induction src arbitrary: dst) (auto simp: appendUniqueMapKeys_def split: if_splits)

lemma delete_forgets [simp]: "name \<notin> fst ` set (AList.delete name xs)"
  by (induction xs) (auto simp: AList.delete_eq)

text \<open>C37: The northbound manager's calls run through. From a new manager any sequence of its
  calls, with any answers of the brokers, neither closes a channel twice nor waits for ever, as
  long as the registered adapters are new or configured. Afterwards every registered adapter
  runs at most one loop, and exactly when it is started, every registered adapter has an entry in the
  table of enabled ones; an adapter is stopped by disabling it and, once configured,
  started by enabling it; and after unregistering a name the manager no longer lists it.\<close>
theorem manager_calls_run_through:
  assumes "\<forall>E name a. (E, NRegister name a) \<in> set cs \<longrightarrow> adapterOK a"
  shows "\<exists>m. nmRun cs NewNorthboundManager = Some m \<and>
    (\<forall>name a. nm_GetAdapter name m = Some a \<longrightarrow>
       length (lc_loops (adapter_life a)) \<le> 1 \<and> (lc_enabled (adapter_life a) \<longleftrightarrow> lc_loops (adapter_life a) \<noteq> []) \<and>
       map_of (nm_enabled m) name \<noteq> None) \<and>
    (\<forall>E name b. \<exists>m'. nm_SetEnabled E name b m = Some m' \<and> nm_IsEnabled name m' = b \<and>
       (\<forall>a. nm_GetAdapter name m' = Some a \<longrightarrow> lc_enabled (adapter_life a) = (b \<and> lc_initialized (adapter_life a)))) \<and>
    (\<forall>E name. \<exists>m'. nm_UnregisterAdapter E name m = Some m' \<and> name \<notin> set (nm_ListRuntimeNames m'))"
proof -
  obtain m where m: "nmRun cs NewNorthboundManager = Some m" "nmOK m" using nmRun_ok[OF nmOK_new assms] by blast
  have "length (lc_loops (adapter_life a)) \<le> 1 \<and> (lc_enabled (adapter_life a) \<longleftrightarrow> lc_loops (adapter_life a) \<noteq> []) \<and>
      map_of (nm_enabled m) name \<noteq> None" if "nm_GetAdapter name m = Some a" for name a
  proof -
    have "lifeOK (adapter_life a)" "map_of (nm_enabled m) name \<noteq> None"
      using that m(2) by (auto simp: nm_GetAdapter_def nmOK_def adapterOK_def)
    then show ?thesis by (auto simp: lifeOK_def split: if_splits)
  qed
  moreover have "\<exists>m'. nm_UnregisterAdapter E name m = Some m' \<and> name \<notin> set (nm_ListRuntimeNames m')" for E name
    using discard_ok[OF m(2), of E name] by (auto simp: nm_UnregisterAdapter_def nm_ListRuntimeNames_def Let_def simp del: delete_conv')
  ultimately show ?thesis using m nm_SetEnabled_ok[OF m(2)] unfolding nm_GetAdapter_def by blast
qed

definition exampleNbEnv :: nbEnv where
  "exampleNbEnv = \<lparr>ne_lib = exampleLib, ne_now = 5, ne_outs = (\<lambda>_. failsAt 9)\<rparr>"

theorem manager_calls_run_through_witness:
  "\<exists>m. nmRun [(exampleNbEnv, NStart), (exampleNbEnv, NRegister ''s'' (Sagoo exampleSagoo)), (exampleNbEnv, NSendData (Some exampleData)),
      (exampleNbEnv, NRegister ''s'' (IThings exampleIThings)), (exampleNbEnv, NStop)] NewNorthboundManager = Some m"
  using manager_calls_run_through[of "[(exampleNbEnv, NStart), (exampleNbEnv, NRegister ''s'' (Sagoo exampleSagoo)),
      (exampleNbEnv, NSendData (Some exampleData)), (exampleNbEnv, NRegister ''s'' (IThings exampleIThings)), (exampleNbEnv, NStop)]"]
  by (auto simp: adapterOK_def exampleSagoo_def exampleIThings_def exampleLife_def lifeOK_def)

section \<open>Pulling commands\<close>

text \<open>The commands that an adapter would give, and those waiting under a name.\<close>

fun commandsOf :: "adapter \<Rightarrow> NorthboundCommand list" where
  "commandsOf (Sagoo a) = (if lc_initialized (sg_life a) then sg_commandQueue a else [])"
| "commandsOf (PandaX a) = (if lc_initialized (px_life a) then px_commandQueue a else [])"
| "commandsOf (IThings a) = (if lc_initialized (it_life a) then it_commandQueue a else [])"
| "commandsOf a = []"

definition waiting :: "NorthboundManager \<Rightarrow> string \<Rightarrow> NorthboundCommand list" where
  "waiting m name = (case map_of (nm_adapters m) name of None \<Rightarrow> [] | Some a \<Rightarrow> commandsOf a)"

lemma adapter_pull:
  "0 < k \<Longrightarrow> withCommands a \<Longrightarrow>
   (case fst (adapter_PullCommands k a) of None \<Rightarrow> [] | Some ds \<Rightarrow> ds) = take (nat k) (commandsOf a) \<and>
   commandsOf (snd (adapter_PullCommands k a)) = drop (nat k) (commandsOf a)"
  by (cases a)
     (auto simp: sagoo_PullCommands_def pandax_PullCommands_def ithings_PullCommands_def case_prod_beta Let_def min_def)

lemma commandsOf_none: "\<not> withCommands a \<Longrightarrow> commandsOf a = []"
  by (cases a) simp_all

lemma waiting_update: "waiting (updateAdapter name b m) n = (if n = name then commandsOf b else waiting m n)"
  by (simp add: waiting_def updateAdapter_def update_conv')

lemma waiting_others: "name \<notin> set refs \<Longrightarrow> map (waiting (updateAdapter name b m)) refs = map (waiting m) refs"
  by (induction refs) (auto simp: waiting_update)

lemma pullFrom_take:
  assumes "distinct refs" "int (length cs) \<le> limit"
  shows "fst (pullFrom limit refs cs m) = cs @ take (nat limit - length cs) (concat (map (waiting m) refs)) \<and>
    concat (map (waiting (snd (pullFrom limit refs cs m))) refs) = drop (nat limit - length cs) (concat (map (waiting m) refs)) \<and>
    (\<forall>n. n \<notin> set refs \<longrightarrow> map_of (nm_adapters (snd (pullFrom limit refs cs m))) n = map_of (nm_adapters m) n) \<and>
    map fst (nm_adapters (snd (pullFrom limit refs cs m))) = map fst (nm_adapters m) \<and>
    nm_enabled (snd (pullFrom limit refs cs m)) = nm_enabled m"
  using assms
proof (induction refs arbitrary: cs m)
  case (Cons name refs)
  show ?case
  proof (cases "\<exists>a. map_of (nm_adapters m) name = Some a \<and> withCommands a")
    case False
    then have "waiting m name = []" and same: "pullFrom limit (name # refs) cs m = pullFrom limit refs cs m"
      by (auto simp: waiting_def commandsOf_none split: option.splits)
    moreover have "map_of (nm_adapters (snd (pullFrom limit refs cs m))) name = map_of (nm_adapters m) name"
      using Cons.IH[of cs m] Cons.prems by simp
    then have "waiting (snd (pullFrom limit refs cs m)) name = waiting m name" by (simp add: waiting_def)
    ultimately show ?thesis using Cons.IH[of cs m] Cons.prems by (simp only: same) simp
  next
    case True
    then obtain a where a: "map_of (nm_adapters m) name = Some a" "withCommands a" by blast
    have w: "waiting m name = commandsOf a" by (simp add: waiting_def a)
    show ?thesis
    proof (cases "limit - int (length cs) \<le> 0")
      case True
      then have z: "nat limit - length cs = 0" by linarith
      have "pullFrom limit (name # refs) cs m = (cs, m)" unfolding pullFrom_Cons using True a by simp
      then show ?thesis by (simp add: z)
    next
      case False
      let ?k = "limit - int (length cs)"
      define m1 where "m1 = updateAdapter name (snd (adapter_PullCommands ?k a)) m"
      define cs1 where "cs1 = cs @ take (nat limit - length cs) (commandsOf a)"
      have k: "nat ?k = nat limit - length cs" using False by linarith
      from False a adapter_pull[of ?k a] have P: "pullFrom limit (name # refs) cs m = pullFrom limit refs cs1 m1"
        and c: "commandsOf (snd (adapter_PullCommands ?k a)) = drop (nat limit - length cs) (commandsOf a)"
        unfolding pullFrom_Cons cs1_def m1_def k by (simp_all del: pullFrom.simps)
      have len: "int (length cs1) \<le> limit" using False by (simp add: cs1_def)
      from Cons.prems(1) have nr: "name \<notin> set refs" "distinct refs" by auto
      have w1: "map (waiting m1) refs = map (waiting m) refs" using nr(1) by (simp add: waiting_others m1_def)
      have m1: "map fst (nm_adapters m1) = map fst (nm_adapters m)" "nm_enabled m1 = nm_enabled m"
        "\<forall>n. map_of (nm_adapters m1) n = (if n = name then Some (snd (adapter_PullCommands ?k a)) else map_of (nm_adapters m) n)"
        using map_of_SomeD[OF a(1)] by (force simp: m1_def updateAdapter_def update_keys update_conv')+
      note IH = Cons.IH[OF nr(2) len, of m1, unfolded w1]
      with nr(1) m1(3) have "map_of (nm_adapters (snd (pullFrom limit refs cs1 m1))) name = Some (snd (adapter_PullCommands ?k a))"
        by simp
      then have w': "waiting (snd (pullFrom limit refs cs1 m1)) name = drop (nat limit - length cs) (commandsOf a)"
        by (simp add: waiting_def c)
      have n: "nat limit - length cs1 = nat limit - length cs - length (commandsOf a)" by (simp add: cs1_def min_def)
      have csx: "cs1 @ xs = cs @ (take (nat limit - length cs) (commandsOf a) @ xs)" for xs by (simp add: cs1_def)
      from IH m1 show ?thesis unfolding P by (simp add: w w' n csx)
    qed
  qed
qed simp

text \<open>The manager's pull refines a pull from one queue. Whatever the adapters are, the commands
  of a poll are the first ones (at most the limit, 50 when it is not positive) of the queues of the enabled and
  configured adapters put one after the other; exactly these leave the queues, whose order stays, and the
  adapters that are disabled keep theirs.\<close>
theorem manager_pull_refines:
  assumes "distinct (map fst (nm_adapters m))" and "nm_PullCommands limit m = (cs, m')"
  shows "let n = nat (if limit \<le> 0 then 50 else limit); refs = enabledAdapterRefs m in
    cs = take n (concat (map (waiting m) refs)) \<and> enabledAdapterRefs m' = refs \<and>
    concat (map (waiting m') refs) = drop n (concat (map (waiting m) refs)) \<and>
    (\<forall>name. \<not> nm_IsEnabled name m \<longrightarrow> nm_GetAdapter name m' = nm_GetAdapter name m)"
proof -
  let ?n = "if limit \<le> 0 then 50 else limit"
  have d: "distinct (enabledAdapterRefs m)" using assms(1) by (simp add: enabledAdapterRefs_def)
  have "0 \<le> ?n" by simp
  with pullFrom_take[OF d, of "[]" ?n m] assms(2) have P:
    "cs = take (nat ?n) (concat (map (waiting m) (enabledAdapterRefs m)))"
    "concat (map (waiting m') (enabledAdapterRefs m)) = drop (nat ?n) (concat (map (waiting m) (enabledAdapterRefs m)))"
    "\<forall>n. n \<notin> set (enabledAdapterRefs m) \<longrightarrow> map_of (nm_adapters m') n = map_of (nm_adapters m) n"
    "map fst (nm_adapters m') = map fst (nm_adapters m)" "nm_enabled m' = nm_enabled m"
    by (simp_all only: nm_PullCommands_def fst_conv snd_conv) simp_all
  from P(4,5) have "enabledAdapterRefs m' = enabledAdapterRefs m" by (simp add: enabledAdapterRefs_def nm_IsEnabled_def)
  with P show ?thesis by (simp add: Let_def enabledAdapterRefs_def nm_GetAdapter_def)
qed

definition exampleCommand :: "string \<Rightarrow> NorthboundCommand" where
  "exampleCommand i = \<lparr>nc_RequestID = i, nc_ProductKey = ''p'', nc_DeviceKey = ''d'', nc_FieldName = ''f'',
     nc_Value = ''1'', nc_Source = []\<rparr>"

definition exampleManager :: NorthboundManager where
  "exampleManager = NewNorthboundManager\<lparr>
     nm_adapters := [(''s'', Sagoo (exampleSagoo\<lparr>sg_commandQueue := [exampleCommand ''1'', exampleCommand ''2'']\<rparr>)),
                     (''i'', IThings (exampleIThings\<lparr>it_commandQueue := [exampleCommand ''3'', exampleCommand ''4'']\<rparr>))],
     nm_enabled := [(''s'', True), (''i'', True)], nm_selfManaged := [(''s'', True), (''i'', True)]\<rparr>"

theorem manager_pull_refines_witness:
  "map nc_RequestID (fst (nm_PullCommands 3 exampleManager)) = [''1'', ''2'', ''3'']"
proof -
  obtain cs m' where r: "nm_PullCommands 3 exampleManager = (cs, m')" by fastforce
  have "distinct (map fst (nm_adapters exampleManager))" by (simp add: exampleManager_def)
  from manager_pull_refines[OF this r] have "cs = take 3 (concat (map (waiting exampleManager) (enabledAdapterRefs exampleManager)))"
    by (simp add: Let_def)
  then show ?thesis unfolding r fst_conv
    by (simp add: waiting_def enabledAdapterRefs_def nm_IsEnabled_def exampleManager_def exampleCommand_def
        exampleSagoo_def exampleIThings_def exampleLife_def)
qed

end
