(* ===== verification/Modbus.thy ===== *)
theory Modbus
  imports Downlink
begin

text \<open>
  The Modbus debugging tool of the HTTP interface (\<open>httpapi/debug_modbus_*.go\<close>) with the transport
  under it (\<open>driver/serial_debug.go\<close>, \<open>driver/tcp_debug.go\<close>): checking a request, building the RTU or
  TCP frame, the CRC, reading the answer and taking it apart.

  A \<open>[]byte\<close> is a list of 8-bit words and \<open>uint16\<close> a 16-bit word; Go's \<open>int\<close> in a request is \<open>int\<close> and a
  conversion to \<open>byte\<close> or \<open>uint16\<close> keeps its low bits. An error is a value of \<open>modbusError\<close>. The serial
  port and the connection are given by what their reads return.
\<close>

unbundle bit_operations_syntax

type_synonym bytes = "8 word list"

section \<open>Requests and responses\<close>

definition modbusFuncReadHoldingRegisters :: int where "modbusFuncReadHoldingRegisters = 3"
definition modbusFuncWriteSingleRegister :: int where "modbusFuncWriteSingleRegister = 6"

record modbusSerialDebugRequest =
  sd_ResourceID :: "int option"
  sd_SerialPort :: string
  sd_BaudRate :: int
  sd_DataBits :: int
  sd_StopBits :: int
  sd_Parity :: string
  sd_TimeoutMs :: int
  sd_RawRequest :: string
  sd_ExpectRespLen :: int
  sd_SlaveID :: int
  sd_FunctionCode :: int
  sd_Address :: int
  sd_Quantity :: int
  sd_Value :: int

record modbusSerialDebugResponse =
  sr_Port :: string
  sr_RequestHex :: string
  sr_ResponseHex :: string
  sr_SlaveID :: int
  sr_FunctionCode :: int
  sr_Address :: "int option"
  sr_Quantity :: "int option"
  sr_Value :: "int option"
  sr_Registers :: "int list"
  sr_ExceptionCode :: "int option"

record modbusTCPDebugRequest =
  td_ResourceID :: "int option"
  td_Endpoint :: string
  td_TimeoutMs :: int
  td_RawRequest :: string
  td_SlaveID :: int
  td_FunctionCode :: int
  td_Address :: int
  td_Quantity :: int
  td_Value :: int
  td_TransactionID :: int

record modbusTCPDebugResponse =
  tr_Endpoint :: string
  tr_RequestHex :: string
  tr_ResponseHex :: string
  tr_TransactionID :: int
  tr_SlaveID :: int
  tr_FunctionCode :: int
  tr_Address :: "int option"
  tr_Quantity :: "int option"
  tr_Value :: "int option"
  tr_Registers :: "int list"
  tr_ExceptionCode :: "int option"

datatype modbusError =
    RequestNil
  | RawEmpty
  | InvalidRawByte string
  | CRCPlaceholderIncomplete
  | MissingPayload
  | CRCNotAtTail
  | RawTooShort nat
  | ProtocolNotZero int
  | InvalidLength int
  | LengthMismatch int nat
  | ResponseTooShort nat
  | SlaveMismatch int int
  | CRCMismatch "16 word" "16 word"
  | ExceptionTooShort nat
  | FunctionMismatch int int
  | InvalidByteCount int
  | InvalidRegisterByteCount int
  | WriteTooShort nat
  | TransactionMismatch int int
  | PDUTooShort nat
  | TargetRequired
  | BadParity
  | TimeoutTooLong
  | ExpectLengthTooLong
  | UnsupportedFunction int
  | BadSlaveID
  | BadAddress
  | BadQuantity
  | BadValue
  | BadTransactionID
  | ResourceIDRequired
  | NoSuchRow
  | DatabaseError string
  | WrongResourceType string string
  | EmptyResourcePath
  | InvalidEndpoint string
  | InvalidResourceEndpoint string
  | RequestEmpty
  | EndpointEmpty
  | ReadTimeout
  | TransportError string

section \<open>Bytes and words\<close>

definition be16 :: "8 word \<Rightarrow> 8 word \<Rightarrow> 16 word" where
  "be16 hi lo = (push_bit 8 (ucast hi)) OR ucast lo"

definition putBE16 :: "16 word \<Rightarrow> bytes" where
  "putBE16 v = [ucast (drop_bit 8 v), ucast v]"

definition le16 :: "8 word \<Rightarrow> 8 word \<Rightarrow> 16 word" where
  "le16 lo hi = ucast lo OR push_bit 8 (ucast hi)"

definition hexDigit :: "nat \<Rightarrow> char" where
  "hexDigit d = (if d < 10 then char_of (48 + d) else char_of (55 + d))"

fun formatHex :: "bytes \<Rightarrow> string" where
  "formatHex [] = []"
| "formatHex [b] = [hexDigit (unat b div 16), hexDigit (unat b mod 16)]"
| "formatHex (b # c # bs) = [hexDigit (unat b div 16), hexDigit (unat b mod 16), CHR '' ''] @ formatHex (c # bs)"

section \<open>The CRC\<close>

definition crcBit :: "16 word \<Rightarrow> 16 word" where
  "crcBit crc = (if crc AND 0x0001 \<noteq> 0 then (drop_bit 1 crc) XOR 0xA001 else drop_bit 1 crc)"

definition crcByte :: "16 word \<Rightarrow> 8 word \<Rightarrow> 16 word" where
  "crcByte crc v = (crcBit ^^ 8) (crc XOR ucast v)"

definition crc16Modbus :: "bytes \<Rightarrow> 16 word" where
  "crc16Modbus data = foldl crcByte 0xFFFF data"

section \<open>Raw requests\<close>

text \<open>\<open>strings.FieldsFunc\<close> with the separators of the tool: the maximal runs of other characters.\<close>

definition rawSeparator :: "char \<Rightarrow> bool" where
  "rawSeparator c \<longleftrightarrow> c \<in> set [CHR '' '', CHR 0x09, CHR 0x0A, CHR 0x0D, CHR '','', CHR '';'']"

fun fieldsFunc :: "string \<Rightarrow> string \<Rightarrow> string list" where
  "fieldsFunc cur [] = (if cur = [] then [] else [cur])"
| "fieldsFunc cur (c # cs) =
     (if rawSeparator c then (if cur = [] then fieldsFunc [] cs else cur # fieldsFunc [] cs)
      else fieldsFunc (cur @ [c]) cs)"

text \<open>\<open>strconv.ParseUint(s, base, 8)\<close>: \<open>None\<close> for its error.\<close>

definition digitVal :: "char \<Rightarrow> nat option" where
  "digitVal c = (let n = byte_of c in
     if 48 \<le> n \<and> n \<le> 57 then Some (n - 48)
     else if 97 \<le> n \<and> n \<le> 122 then Some (n - 87)
     else if 65 \<le> n \<and> n \<le> 90 then Some (n - 55)
     else None)"

fun parseDigits :: "nat \<Rightarrow> nat \<Rightarrow> string \<Rightarrow> nat option" where
  "parseDigits base n [] = Some n"
| "parseDigits base n (c # cs) =
     (case digitVal c of
        None \<Rightarrow> None
      | Some d \<Rightarrow> if d \<ge> base \<or> n * base + d > 255 then None else parseDigits base (n * base + d) cs)"

definition ParseUint8 :: "nat \<Rightarrow> string \<Rightarrow> nat option" where
  "ParseUint8 base s = (if s = [] then None else parseDigits base 0 s)"

datatype rawPart = RawByte "8 word" | CRCLow | CRCHigh

definition rawToken :: "golib \<Rightarrow> string \<Rightarrow> rawPart list option" where
  "rawToken L token =
     (let normalized = ToLower (uniLower L) (TrimSpace token);
          normalized = (if prefix ''0x'' normalized then drop 2 normalized else normalized);
          normalized = ReplaceAll normalized ''_'' [];
          normalized = ReplaceAll normalized ''-'' []
      in if normalized \<in> set [''crc'', ''crc16''] then Some [CRCLow, CRCHigh]
         else if normalized \<in> set [''crca'', ''crcl'', ''crclo'', ''crclow'', ''crclsb''] then Some [CRCLow]
         else if normalized \<in> set [''crcb'', ''crch'', ''crchi'', ''crchigh'', ''crcmsb''] then Some [CRCHigh]
         else case ParseUint8 16 normalized of
                Some n \<Rightarrow> Some [RawByte (of_nat n)]
              | None \<Rightarrow> (case ParseUint8 10 (TrimSpace token) of
                          Some n \<Rightarrow> Some [RawByte (of_nat n)]
                        | None \<Rightarrow> None))"

fun rawParts :: "golib \<Rightarrow> string list \<Rightarrow> modbusError + rawPart list" where
  "rawParts L [] = Inr []"
| "rawParts L (t # ts) =
     (case rawToken L t of
        None \<Rightarrow> Inl (InvalidRawByte t)
      | Some ps \<Rightarrow> (case rawParts L ts of Inl e \<Rightarrow> Inl e | Inr qs \<Rightarrow> Inr (ps @ qs)))"

definition isCRCField :: "rawPart \<Rightarrow> bool" where
  "isCRCField p \<longleftrightarrow> p = CRCLow \<or> p = CRCHigh"

fun partValue :: "16 word \<Rightarrow> rawPart \<Rightarrow> 8 word" where
  "partValue crc (RawByte b) = b"
| "partValue crc CRCLow = ucast (crc AND 0xFF)"
| "partValue crc CRCHigh = ucast (drop_bit 8 crc)"

definition fillCRC :: "rawPart list \<Rightarrow> modbusError + bytes" where
  "fillCRC parts =
     (let fields = filter isCRCField parts;
          pdata = takeWhile (\<lambda>p. \<not> isCRCField p) parts
      in if fields = [] then Inr (map (partValue 0) parts)
         else if length fields \<noteq> 2 \<or> CRCLow \<notin> set fields \<or> CRCHigh \<notin> set fields then Inl CRCPlaceholderIncomplete
         else if pdata = [] then Inl MissingPayload
         else if \<exists>p\<in>set (drop (length pdata) parts). \<not> isCRCField p then Inl CRCNotAtTail
         else Inr (map (partValue (crc16Modbus (map (partValue 0) pdata))) parts))"

definition parseRawModbusRTUBytes :: "golib \<Rightarrow> string \<Rightarrow> modbusError + bytes" where
  "parseRawModbusRTUBytes L raw =
     (let tokens = fieldsFunc [] raw in
      if tokens = [] then Inl RawEmpty
      else case rawParts L tokens of Inl e \<Rightarrow> Inl e | Inr parts \<Rightarrow> fillCRC parts)"

definition buildRawModbusRTURequest :: "golib \<Rightarrow> modbusSerialDebugRequest option \<Rightarrow> modbusError + (bytes \<times> int)" where
  "buildRawModbusRTURequest L req =
     (case req of
        None \<Rightarrow> Inl RequestNil
      | Some req \<Rightarrow>
          (case parseRawModbusRTUBytes L (sd_RawRequest req) of
             Inl e \<Rightarrow> Inl e
           | Inr frame \<Rightarrow> Inr (frame, if sd_ExpectRespLen req \<le> 0 then 256 else sd_ExpectRespLen req)))"

section \<open>RTU frames\<close>

definition buildModbusRTURequest :: "modbusSerialDebugRequest \<Rightarrow> bytes \<times> int" where
  "buildModbusRTURequest req =
     (let head = [word_of_int (sd_SlaveID req), word_of_int (sd_FunctionCode req)] @ putBE16 (word_of_int (sd_Address req));
          (last2, expectLen) =
            (if sd_FunctionCode req = modbusFuncReadHoldingRegisters
             then (putBE16 (word_of_int (sd_Quantity req)), 5 + sd_Quantity req * 2)
             else if sd_FunctionCode req = modbusFuncWriteSingleRegister
             then (putBE16 (word_of_int (sd_Value req)), 8)
             else ([0, 0], 0));
          frame = head @ last2; crc = crc16Modbus frame
      in (frame @ [ucast (crc AND 0xFF), ucast (drop_bit 8 crc)], expectLen))"

definition parseModbusRTUResponseHeader :: "bytes \<Rightarrow> int \<Rightarrow> modbusError + (int \<times> bytes)" where
  "parseModbusRTUResponseHeader response expectedSlaveID =
     (let n = length response in
      if n < 5 then Inl (ResponseTooShort n)
      else if response ! 0 \<noteq> word_of_int expectedSlaveID then Inl (SlaveMismatch (uint (response ! 0)) expectedSlaveID)
      else let crcRead = le16 (response ! (n - 2)) (response ! (n - 1)); crcWant = crc16Modbus (take (n - 2) response)
           in if crcRead \<noteq> crcWant then Inl (CRCMismatch crcRead crcWant)
              else Inr (uint (response ! 1), gslice response 1 (n - 2)))"

definition parseModbusException :: "int \<Rightarrow> bytes \<Rightarrow> int option" where
  "parseModbusException functionCode pdata =
     (if functionCode AND 0x80 = 0 \<or> length pdata < 2 then None else Some (uint (pdata ! 1)))"

definition validateModbusFunctionCode :: "int \<Rightarrow> int \<Rightarrow> modbusError option" where
  "validateModbusFunctionCode functionCode expected =
     (if functionCode \<noteq> expected then Some (FunctionMismatch functionCode expected) else None)"

definition resolveModbusRegisterValueRange :: "bytes \<Rightarrow> nat \<Rightarrow> nat \<Rightarrow> modbusError + (nat \<times> nat)" where
  "resolveModbusRegisterValueRange pdata byteCountOffset valuesOffset =
     (if length pdata \<le> byteCountOffset then Inl (InvalidByteCount 0)
      else let byteCount = unat (pdata ! byteCountOffset); valuesEnd = valuesOffset + byteCount
           in if valuesEnd > length pdata then Inl (InvalidByteCount (int byteCount))
              else if byteCount mod 2 \<noteq> 0 then Inl (InvalidRegisterByteCount (int byteCount))
              else Inr (byteCount, valuesEnd))"

text \<open>The loop over the values, two bytes at a time.\<close>

fun registersIn :: "bytes \<Rightarrow> int list" where
  "registersIn (a # b # bs) = uint (be16 a b) # registersIn bs"
| "registersIn _ = []"

definition parseModbusRegisterPayload :: "bytes \<Rightarrow> nat \<Rightarrow> nat \<Rightarrow> modbusError + (int \<times> int list)" where
  "parseModbusRegisterPayload pdata byteCountOffset valuesOffset =
     (case resolveModbusRegisterValueRange pdata byteCountOffset valuesOffset of
        Inl e \<Rightarrow> Inl e
      | Inr (byteCount, valuesEnd) \<Rightarrow> Inr (int (byteCount div 2), registersIn (gslice pdata valuesOffset valuesEnd)))"

definition hasModbusWritePayload :: "bytes \<Rightarrow> nat \<Rightarrow> bool" where
  "hasModbusWritePayload pdata offset \<longleftrightarrow> length pdata \<ge> offset + 4"

definition parseModbusWritePayload :: "bytes \<Rightarrow> nat \<Rightarrow> nat \<Rightarrow> modbusError + (int \<times> int)" where
  "parseModbusWritePayload pdata offset reportedLen =
     (if \<not> hasModbusWritePayload pdata offset then Inl (WriteTooShort reportedLen)
      else Inr (uint (be16 (pdata ! offset) (pdata ! (offset + 1))),
                uint (be16 (pdata ! (offset + 2)) (pdata ! (offset + 3)))))"

definition parseModbusRTUResponse ::
  "modbusSerialDebugRequest \<Rightarrow> string \<Rightarrow> bytes \<Rightarrow> bytes \<Rightarrow> modbusError + modbusSerialDebugResponse" where
  "parseModbusRTUResponse req port request response =
     (case parseModbusRTUResponseHeader response (sd_SlaveID req) of
        Inl e \<Rightarrow> Inl e
      | Inr (functionCode, pdata) \<Rightarrow>
          let resp = \<lparr>sr_Port = port, sr_RequestHex = formatHex request, sr_ResponseHex = formatHex response,
                sr_SlaveID = sd_SlaveID req, sr_FunctionCode = sd_FunctionCode req, sr_Address = None,
                sr_Quantity = None, sr_Value = None, sr_Registers = [], sr_ExceptionCode = None\<rparr>
          in case parseModbusException functionCode pdata of
               Some code \<Rightarrow> Inr (resp\<lparr>sr_ExceptionCode := Some code\<rparr>)
             | None \<Rightarrow>
                 if functionCode AND 0x80 \<noteq> 0 then Inl (ExceptionTooShort (length response))
                 else case validateModbusFunctionCode functionCode (sd_FunctionCode req) of
                   Some e \<Rightarrow> Inl e
                 | None \<Rightarrow>
                     if sd_FunctionCode req = modbusFuncReadHoldingRegisters
                     then (case parseModbusRegisterPayload pdata 1 2 of
                             Inl e \<Rightarrow> Inl e
                           | Inr (quantity, registers) \<Rightarrow>
                               Inr (resp\<lparr>sr_Address := Some (sd_Address req), sr_Quantity := Some quantity,
                                         sr_Registers := registers\<rparr>))
                     else if sd_FunctionCode req = modbusFuncWriteSingleRegister
                     then (case parseModbusWritePayload pdata 1 (length pdata) of
                             Inl e \<Rightarrow> Inl e
                           | Inr (address, value) \<Rightarrow> Inr (resp\<lparr>sr_Address := Some address, sr_Value := Some value\<rparr>))
                     else Inr resp)"

definition parseModbusRTURawResponse :: "string \<Rightarrow> bytes \<Rightarrow> bytes \<Rightarrow> modbusError + modbusSerialDebugResponse" where
  "parseModbusRTURawResponse port request response =
     (if length request < 2 then Inl (RawTooShort (length request))
      else let reqSlaveID = uint (request ! 0); reqFuncCode = uint (request ! 1) in
      (case parseModbusRTUResponseHeader response reqSlaveID of
         Inl e \<Rightarrow> Inl e
       | Inr (functionCode, pdata) \<Rightarrow>
           let resp = \<lparr>sr_Port = port, sr_RequestHex = formatHex request, sr_ResponseHex = formatHex response,
                 sr_SlaveID = reqSlaveID, sr_FunctionCode = functionCode, sr_Address = None,
                 sr_Quantity = None, sr_Value = None, sr_Registers = [], sr_ExceptionCode = None\<rparr>
           in case parseModbusException functionCode pdata of
                Some code \<Rightarrow> Inr (resp\<lparr>sr_ExceptionCode := Some code\<rparr>)
              | None \<Rightarrow>
                  if functionCode = modbusFuncReadHoldingRegisters
                  then (case parseModbusRegisterPayload pdata 1 2 of
                          Inl e \<Rightarrow> Inl e
                        | Inr (quantity, registers) \<Rightarrow>
                            let resp = (if length request \<ge> 4
                                        then resp\<lparr>sr_Address := Some (uint (be16 (request ! 2) (request ! 3)))\<rparr> else resp)
                            in Inr (resp\<lparr>sr_Quantity := Some quantity, sr_Registers := registers\<rparr>))
                  else if functionCode = modbusFuncWriteSingleRegister
                  then (case parseModbusWritePayload pdata 1 (length pdata) of
                          Inl e \<Rightarrow> Inl e
                        | Inr (address, value) \<Rightarrow> Inr (resp\<lparr>sr_Address := Some address, sr_Value := Some value\<rparr>))
                  else Inr (resp\<lparr>sr_FunctionCode := reqFuncCode\<rparr>)))"

section \<open>TCP frames\<close>

definition validateRawModbusTCPFrame :: "bytes \<Rightarrow> modbusError + int" where
  "validateRawModbusTCPFrame frame =
     (if length frame < 8 then Inl (RawTooShort (length frame))
      else let protocolID = uint (be16 (frame ! 2) (frame ! 3)) in
      if protocolID \<noteq> 0 then Inl (ProtocolNotZero protocolID)
      else let len = uint (be16 (frame ! 4) (frame ! 5)) in
      if len < 2 then Inl (InvalidLength len)
      else if 6 + len \<noteq> int (length frame) then Inl (LengthMismatch (6 + len) (length frame))
      else Inr (uint (be16 (frame ! 0) (frame ! 1))))"

definition buildRawModbusTCPRequest :: "golib \<Rightarrow> modbusTCPDebugRequest option \<Rightarrow> modbusError + (bytes \<times> int)" where
  "buildRawModbusTCPRequest L req =
     (case req of
        None \<Rightarrow> Inl RequestNil
      | Some req \<Rightarrow>
          (case parseRawModbusRTUBytes L (td_RawRequest req) of
             Inl e \<Rightarrow> Inl e
           | Inr frame \<Rightarrow> (case validateRawModbusTCPFrame frame of
                             Inl e \<Rightarrow> Inl e
                           | Inr txID \<Rightarrow> Inr (frame, txID))))"

text \<open>\<open>unixNano\<close>: the clock, from which a missing transaction identifier is taken.\<close>

definition buildModbusTCPRequest :: "int \<Rightarrow> modbusTCPDebugRequest \<Rightarrow> bytes \<times> int" where
  "buildModbusTCPRequest unixNano req =
     (let pdu = [word_of_int (td_FunctionCode req)] @ putBE16 (word_of_int (td_Address req)) @
            (if td_FunctionCode req = modbusFuncReadHoldingRegisters then putBE16 (word_of_int (td_Quantity req))
             else if td_FunctionCode req = modbusFuncWriteSingleRegister then putBE16 (word_of_int (td_Value req))
             else [0, 0]);
          txID = td_TransactionID req;
          txID = (if txID = 0 then (let t = unixNano AND 0xFFFF in if t = 0 then 1 else t) else txID);
          mbap = putBE16 (word_of_int txID) @ putBE16 0 @ putBE16 (word_of_int (1 + int (length pdu))) @
                 [word_of_int (td_SlaveID req)]
      in (mbap @ pdu, txID))"

definition parseModbusTCPResponseHeader :: "bytes \<Rightarrow> int \<Rightarrow> modbusError + (int \<times> bytes)" where
  "parseModbusTCPResponseHeader response txID =
     (if length response < 9 then Inl (ResponseTooShort (length response))
      else let respTxID = uint (be16 (response ! 0) (response ! 1)) in
      if respTxID \<noteq> txID then Inl (TransactionMismatch respTxID txID)
      else let protocolID = uint (be16 (response ! 2) (response ! 3)) in
      if protocolID \<noteq> 0 then Inl (ProtocolNotZero protocolID)
      else let len = uint (be16 (response ! 4) (response ! 5)) in
      if len \<noteq> int (length response) - 6 then Inl (InvalidLength len)
      else let pdu = drop 7 response in
      if length pdu < 2 then Inl (PDUTooShort (length pdu)) else Inr (uint (response ! 6), pdu))"

definition parseModbusTCPResponse ::
  "modbusTCPDebugRequest \<Rightarrow> string \<Rightarrow> bytes \<Rightarrow> bytes \<Rightarrow> int \<Rightarrow> modbusError + modbusTCPDebugResponse" where
  "parseModbusTCPResponse req endpoint request response txID =
     (case parseModbusTCPResponseHeader response txID of
        Inl e \<Rightarrow> Inl e
      | Inr (slaveID, pdu) \<Rightarrow>
          if slaveID \<noteq> td_SlaveID req then Inl (SlaveMismatch slaveID (td_SlaveID req))
          else let result = \<lparr>tr_Endpoint = endpoint, tr_RequestHex = formatHex request, tr_ResponseHex = formatHex response,
                     tr_TransactionID = txID, tr_SlaveID = td_SlaveID req, tr_FunctionCode = td_FunctionCode req,
                     tr_Address = None, tr_Quantity = None, tr_Value = None, tr_Registers = [], tr_ExceptionCode = None\<rparr>;
                   functionCode = uint (pdu ! 0)
          in case parseModbusException functionCode pdu of
               Some code \<Rightarrow> Inr (result\<lparr>tr_ExceptionCode := Some code\<rparr>)
             | None \<Rightarrow>
                 (case validateModbusFunctionCode functionCode (td_FunctionCode req) of
                    Some e \<Rightarrow> Inl e
                  | None \<Rightarrow>
                      if td_FunctionCode req = modbusFuncReadHoldingRegisters
                      then (case parseModbusRegisterPayload pdu 1 2 of
                              Inl e \<Rightarrow> Inl e
                            | Inr (quantity, registers) \<Rightarrow>
                                Inr (result\<lparr>tr_Address := Some (td_Address req), tr_Quantity := Some quantity,
                                            tr_Registers := registers\<rparr>))
                      else if td_FunctionCode req = modbusFuncWriteSingleRegister
                      then (case parseModbusWritePayload pdu 1 (length pdu) of
                              Inl e \<Rightarrow> Inl e
                            | Inr (address, value) \<Rightarrow> Inr (result\<lparr>tr_Address := Some address, tr_Value := Some value\<rparr>))
                      else Inr result))"

definition parseModbusTCPRawResponse :: "string \<Rightarrow> bytes \<Rightarrow> bytes \<Rightarrow> int \<Rightarrow> modbusError + modbusTCPDebugResponse" where
  "parseModbusTCPRawResponse endpoint request response txID =
     (if length request < 8 then Inl (RawTooShort (length request))
      else case parseModbusTCPResponseHeader response txID of
        Inl e \<Rightarrow> Inl e
      | Inr (slaveID, pdu) \<Rightarrow>
          let functionCode = uint (pdu ! 0);
              result = \<lparr>tr_Endpoint = endpoint, tr_RequestHex = formatHex request, tr_ResponseHex = formatHex response,
                tr_TransactionID = txID, tr_SlaveID = slaveID, tr_FunctionCode = functionCode,
                tr_Address = None, tr_Quantity = None, tr_Value = None, tr_Registers = [], tr_ExceptionCode = None\<rparr>
          in case parseModbusException functionCode pdu of
               Some code \<Rightarrow> Inr (result\<lparr>tr_ExceptionCode := Some code\<rparr>)
             | None \<Rightarrow>
                 if functionCode = modbusFuncReadHoldingRegisters
                 then (case parseModbusRegisterPayload pdu 1 2 of
                         Inl e \<Rightarrow> Inl e
                       | Inr (quantity, registers) \<Rightarrow>
                           let result = (if length request \<ge> 12
                                 then result\<lparr>tr_Address := Some (uint (be16 (request ! 8) (request ! 9)))\<rparr> else result)
                           in Inr (result\<lparr>tr_Quantity := Some quantity, tr_Registers := registers\<rparr>))
                 else if functionCode = modbusFuncWriteSingleRegister
                 then (case parseModbusWritePayload pdu 1 (length pdu) of
                         Inl e \<Rightarrow> Inl e
                       | Inr (address, value) \<Rightarrow> Inr (result\<lparr>tr_Address := Some address, tr_Value := Some value\<rparr>))
                 else Inr result)"

section \<open>Checking a request\<close>

definition isRawModbusRequest :: "string \<Rightarrow> bool" where
  "isRawModbusRequest raw \<longleftrightarrow> TrimSpace raw \<noteq> []"

definition normalizeModbusTimeout :: "int \<Rightarrow> int \<Rightarrow> modbusError + int" where
  "normalizeModbusTimeout timeoutMs defaultValue =
     (let timeoutMs = (if timeoutMs \<le> 0 then defaultValue else timeoutMs)
      in if timeoutMs > 60000 then Inl TimeoutTooLong else Inr timeoutMs)"

definition normalizeModbusFunctionCode :: "int \<Rightarrow> modbusError + int" where
  "normalizeModbusFunctionCode functionCode =
     (let functionCode = (if functionCode = 0 then modbusFuncReadHoldingRegisters else functionCode)
      in if functionCode \<noteq> modbusFuncReadHoldingRegisters \<and> functionCode \<noteq> modbusFuncWriteSingleRegister
         then Inl (UnsupportedFunction functionCode) else Inr functionCode)"

definition validateModbusAddressing :: "int \<Rightarrow> int \<Rightarrow> modbusError option" where
  "validateModbusAddressing slaveID address =
     (if slaveID < 0 \<or> slaveID > 247 then Some BadSlaveID
      else if address < 0 \<or> address > 0xFFFF then Some BadAddress else None)"

definition normalizeModbusOperation :: "int \<Rightarrow> int \<Rightarrow> int \<Rightarrow> modbusError + int" where
  "normalizeModbusOperation functionCode quantity value =
     (if functionCode = modbusFuncReadHoldingRegisters
      then let quantity = (if quantity \<le> 0 then 1 else quantity)
           in if quantity > 125 then Inl BadQuantity else Inr quantity
      else if functionCode = modbusFuncWriteSingleRegister
      then (if value < 0 \<or> value > 0xFFFF then Inl BadValue else Inr quantity)
      else Inr quantity)"

text \<open>The function code and the quantity after the check.\<close>

definition validateModbusStructuredRequest :: "int \<Rightarrow> int \<Rightarrow> int \<Rightarrow> int \<Rightarrow> int \<Rightarrow> modbusError + (int \<times> int)" where
  "validateModbusStructuredRequest functionCode slaveID address quantity value =
     (case normalizeModbusFunctionCode functionCode of
        Inl e \<Rightarrow> Inl e
      | Inr functionCode \<Rightarrow>
          (case validateModbusAddressing slaveID address of
             Some e \<Rightarrow> Inl e
           | None \<Rightarrow> (case normalizeModbusOperation functionCode quantity value of
                        Inl e \<Rightarrow> Inl e
                      | Inr quantity \<Rightarrow> Inr (functionCode, quantity))))"

definition validateModbusTransactionID :: "int \<Rightarrow> modbusError option" where
  "validateModbusTransactionID transactionID =
     (if transactionID < 0 \<or> transactionID > 0xFFFF then Some BadTransactionID else None)"

definition validateModbusSerialTarget :: "string \<Rightarrow> int option \<Rightarrow> modbusError option" where
  "validateModbusSerialTarget serialPort resourceID =
     (if TrimSpace serialPort = [] \<and> (case resourceID of None \<Rightarrow> True | Some i \<Rightarrow> i \<le> 0) then Some TargetRequired else None)"

definition validateModbusTCPTarget :: "string \<Rightarrow> int option \<Rightarrow> modbusError option" where
  "validateModbusTCPTarget endpoint resourceID =
     (if TrimSpace endpoint = [] \<and> (case resourceID of None \<Rightarrow> True | Some i \<Rightarrow> i \<le> 0) then Some TargetRequired else None)"

definition normalizeModbusSerialLineSettings ::
  "golib \<Rightarrow> modbusSerialDebugRequest \<Rightarrow> modbusError + modbusSerialDebugRequest" where
  "normalizeModbusSerialLineSettings L req =
     (let req = (if sd_BaudRate req \<le> 0 then req\<lparr>sd_BaudRate := 9600\<rparr> else req);
          req = (if sd_DataBits req < 5 \<or> sd_DataBits req > 8 then req\<lparr>sd_DataBits := 8\<rparr> else req);
          req = (if sd_StopBits req \<noteq> 2 then req\<lparr>sd_StopBits := 1\<rparr> else req);
          parity = ToUpper (uniUpper L) (TrimSpace (sd_Parity req))
      in if parity \<in> set [[], ''N'', ''NONE''] then Inr (req\<lparr>sd_Parity := ''N''\<rparr>)
         else if parity \<in> set [''E'', ''EVEN''] then Inr (req\<lparr>sd_Parity := ''E''\<rparr>)
         else if parity \<in> set [''O'', ''ODD''] then Inr (req\<lparr>sd_Parity := ''O''\<rparr>)
         else Inl BadParity)"

definition normalizeModbusRawResponseLength :: "int \<Rightarrow> modbusError + int" where
  "normalizeModbusRawResponseLength expectRespLen =
     (let expectRespLen = (if expectRespLen \<le> 0 then 256 else expectRespLen)
      in if expectRespLen > 4096 then Inl ExpectLengthTooLong else Inr expectRespLen)"

definition validateModbusSerialOperation :: "modbusSerialDebugRequest \<Rightarrow> modbusError + modbusSerialDebugRequest" where
  "validateModbusSerialOperation req =
     (if isRawModbusRequest (sd_RawRequest req)
      then (case normalizeModbusRawResponseLength (sd_ExpectRespLen req) of
              Inl e \<Rightarrow> Inl e | Inr n \<Rightarrow> Inr (req\<lparr>sd_ExpectRespLen := n\<rparr>))
      else (case validateModbusStructuredRequest (sd_FunctionCode req) (sd_SlaveID req) (sd_Address req)
                   (sd_Quantity req) (sd_Value req) of
              Inl e \<Rightarrow> Inl e
            | Inr (f, q) \<Rightarrow> Inr (req\<lparr>sd_FunctionCode := f, sd_Quantity := q\<rparr>)))"

definition validateModbusTCPOperation :: "modbusTCPDebugRequest \<Rightarrow> modbusError + modbusTCPDebugRequest" where
  "validateModbusTCPOperation req =
     (if isRawModbusRequest (td_RawRequest req) then Inr req
      else (case validateModbusStructuredRequest (td_FunctionCode req) (td_SlaveID req) (td_Address req)
                   (td_Quantity req) (td_Value req) of
              Inl e \<Rightarrow> Inl e
            | Inr (f, q) \<Rightarrow>
                (case validateModbusTransactionID (td_TransactionID req) of
                   Some e \<Rightarrow> Inl e
                 | None \<Rightarrow> Inr (req\<lparr>td_FunctionCode := f, td_Quantity := q\<rparr>))))"

definition validateModbusSerialDebugRequest ::
  "golib \<Rightarrow> modbusSerialDebugRequest \<Rightarrow> modbusError + modbusSerialDebugRequest" where
  "validateModbusSerialDebugRequest L req =
     (case validateModbusSerialTarget (sd_SerialPort req) (sd_ResourceID req) of
        Some e \<Rightarrow> Inl e
      | None \<Rightarrow>
          (case normalizeModbusSerialLineSettings L req of
             Inl e \<Rightarrow> Inl e
           | Inr req \<Rightarrow>
               (case normalizeModbusTimeout (sd_TimeoutMs req) 800 of
                  Inl e \<Rightarrow> Inl e
                | Inr t \<Rightarrow>
                    validateModbusSerialOperation
                      (req\<lparr>sd_TimeoutMs := t, sd_RawRequest := TrimSpace (sd_RawRequest req)\<rparr>))))"

definition validateModbusTCPDebugRequest :: "modbusTCPDebugRequest \<Rightarrow> modbusError + modbusTCPDebugRequest" where
  "validateModbusTCPDebugRequest req =
     (case validateModbusTCPTarget (td_Endpoint req) (td_ResourceID req) of
        Some e \<Rightarrow> Inl e
      | None \<Rightarrow>
          let req = req\<lparr>td_RawRequest := TrimSpace (td_RawRequest req)\<rparr>
          in (case normalizeModbusTimeout (td_TimeoutMs req) 2000 of
                Inl e \<Rightarrow> Inl e
              | Inr t \<Rightarrow> validateModbusTCPOperation (req\<lparr>td_TimeoutMs := t\<rparr>)))"

section \<open>The transport\<close>

record SerialConfig =
  sp_BaudRate :: int
  sp_DataBits :: int
  sp_Parity :: string
  sp_StopBits :: int
  sp_ReadTimeout :: duration

text \<open>What the calls of \<open>Read\<close> on an open port return: bytes (as many as fit the buffer, the rest stays
  for the next call), nothing, a timeout or another error. \<open>op_write\<close> is the error of the write.\<close>

datatype portRead = Got bytes | Quiet | TimedOut | ReadFailed string

record openPort =
  op_write :: "string option"
  op_reads :: "portRead list"

text \<open>The read loop. \<open>None\<close>: it has not returned after these reads.\<close>

fun serialReads :: "nat \<Rightarrow> bytes \<Rightarrow> portRead list \<Rightarrow> (modbusError + bytes) option" where
  "serialReads expectLen response [] = None"
| "serialReads expectLen response (Got bs # rs) =
     (let n = min (length bs) (expectLen - length response); response = response @ take n bs
      in if n > 0 \<and> length response \<ge> expectLen then Some (Inr response) else serialReads expectLen response rs)"
| "serialReads expectLen response (Quiet # rs) = serialReads expectLen response rs"
| "serialReads expectLen response (TimedOut # rs) =
     (if response = [] then Some (Inl ReadTimeout) else Some (Inr response))"
| "serialReads expectLen response (ReadFailed e # rs) = Some (Inl (TransportError e))"

definition TransceiveSerial ::
  "golib \<Rightarrow> (string \<Rightarrow> SerialConfig \<Rightarrow> bytes \<Rightarrow> string + openPort) \<Rightarrow> string \<Rightarrow> SerialConfig \<Rightarrow> bytes \<Rightarrow> int \<Rightarrow>
   (modbusError + bytes) option" where
  "TransceiveSerial L openSerialPort path cfg request expectLen =
     (if request = [] then Some (Inl RequestEmpty)
      else let expectLen = (if expectLen \<le> 0 then 256 else expectLen);
               cfg = (if sp_ReadTimeout cfg \<le> 0 then cfg\<lparr>sp_ReadTimeout := 800 * Millisecond\<rparr> else cfg);
               parity = ToUpper (uniUpper L) (TrimSpace (sp_Parity cfg));
               cfg = cfg\<lparr>sp_Parity := (if parity = [] then ''N'' else parity)\<rparr>
           in case openSerialPort path cfg request of
                Inl e \<Rightarrow> Some (Inl (TransportError e))
              | Inr port \<Rightarrow>
                  (case op_write port of
                     Some e \<Rightarrow> Some (Inl (TransportError e))
                   | None \<Rightarrow> serialReads (nat expectLen) [] (op_reads port)))"

text \<open>A connection: the error of the write, or what arrives before the deadline or the end.
  \<open>io.ReadFull\<close> needs all its bytes.\<close>

definition TransceiveTCP ::
  "(string \<Rightarrow> duration \<Rightarrow> bytes \<Rightarrow> string + (string + bytes)) \<Rightarrow> string \<Rightarrow> duration \<Rightarrow> bytes \<Rightarrow> modbusError + bytes" where
  "TransceiveTCP dial endpoint timeout request =
     (let endpoint = TrimSpace endpoint in
      if endpoint = [] then Inl EndpointEmpty
      else if request = [] then Inl RequestEmpty
      else let timeout = (if timeout \<le> 0 then 2 * Second else timeout)
           in case dial endpoint timeout request of
                Inl e \<Rightarrow> Inl (TransportError e)
              | Inr (Inl e) \<Rightarrow> Inl (TransportError e)
              | Inr (Inr arriving) \<Rightarrow>
                  if length arriving < 7 then Inl (TransportError ''unexpected EOF'')
                  else let header = take 7 arriving; arriving = drop 7 arriving;
                           protocolID = uint (be16 (header ! 2) (header ! 3))
                       in if protocolID \<noteq> 0 then Inl (ProtocolNotZero protocolID)
                          else let len = unat (be16 (header ! 4) (header ! 5)) in
                          if len < 2 then Inl (InvalidLength (int len))
                          else if length arriving < len - 1 then Inl (TransportError ''unexpected EOF'')
                          else Inr (header @ take (len - 1) arriving))"

section \<open>The two handlers\<close>

record debugResource =
  dr_Type :: string
  dr_Path :: string

record modbusEnv =
  me_lib :: golib
  me_unixNano :: int
  me_loadResource :: "int \<Rightarrow> modbusError + debugResource"
  me_openSerial :: "string \<Rightarrow> SerialConfig \<Rightarrow> bytes \<Rightarrow> string + openPort"
  me_resolveTCPAddr :: "string \<Rightarrow> bool"
  me_dial :: "string \<Rightarrow> duration \<Rightarrow> bytes \<Rightarrow> string + (string + bytes)"

definition resolveDebugResourcePath :: "modbusEnv \<Rightarrow> int option \<Rightarrow> string \<Rightarrow> modbusError + string" where
  "resolveDebugResourcePath E resourceID expectedType =
     (case resourceID of
        None \<Rightarrow> Inl ResourceIDRequired
      | Some i \<Rightarrow>
          if i \<le> 0 then Inl ResourceIDRequired
          else (case me_loadResource E i of
                  Inl e \<Rightarrow> Inl e
                | Inr resource \<Rightarrow>
                    if dr_Type resource \<noteq> expectedType then Inl (WrongResourceType (dr_Type resource) expectedType)
                    else let path = TrimSpace (dr_Path resource)
                         in if path = [] then Inl EmptyResourcePath else Inr path))"

definition resolveModbusDirectOrResourceTarget ::
  "modbusEnv \<Rightarrow> string \<Rightarrow> int option \<Rightarrow> string \<Rightarrow> modbusError + string" where
  "resolveModbusDirectOrResourceTarget E direct resourceID resourceType =
     (let target = TrimSpace direct
      in if target \<noteq> [] then Inr target else resolveDebugResourcePath E resourceID resourceType)"

definition resolveModbusSerialPath :: "modbusEnv \<Rightarrow> modbusSerialDebugRequest \<Rightarrow> modbusError + string" where
  "resolveModbusSerialPath E req =
     resolveModbusDirectOrResourceTarget E (sd_SerialPort req) (sd_ResourceID req) ''serial''"

definition resolveModbusTCPTarget :: "modbusEnv \<Rightarrow> string \<Rightarrow> int option \<Rightarrow> modbusError + (string \<times> bool)" where
  "resolveModbusTCPTarget E endpoint resourceID =
     (let target = TrimSpace endpoint
      in if target \<noteq> [] then Inr (target, False)
         else (case resolveDebugResourcePath E resourceID ''net'' of Inl e \<Rightarrow> Inl e | Inr t \<Rightarrow> Inr (t, True)))"

definition validateResolvedModbusTCPEndpoint :: "modbusEnv \<Rightarrow> string \<Rightarrow> bool \<Rightarrow> modbusError option" where
  "validateResolvedModbusTCPEndpoint E endpoint fromResource =
     (if me_resolveTCPAddr E endpoint then None
      else if fromResource then Some (InvalidResourceEndpoint endpoint) else Some (InvalidEndpoint endpoint))"

definition resolveModbusTCPEndpoint :: "modbusEnv \<Rightarrow> modbusTCPDebugRequest \<Rightarrow> modbusError + string" where
  "resolveModbusTCPEndpoint E req =
     (case resolveModbusTCPTarget E (td_Endpoint req) (td_ResourceID req) of
        Inl e \<Rightarrow> Inl e
      | Inr (endpoint, fromResource) \<Rightarrow>
          (case validateResolvedModbusTCPEndpoint E endpoint fromResource of Some e \<Rightarrow> Inl e | None \<Rightarrow> Inr endpoint))"

text \<open>The answers of the handlers by their status: 200, 400 for the body or a parameter, 404, and 502
  for the communication or the device's answer.\<close>

datatype 'r debugReply =
    WriteSuccess 'r
  | InvalidRequestBody
  | ParamInvalid modbusError
  | ResourceNotFound
  | CommFailed modbusError
  | ResponseInvalid modbusError

definition writeModbusDebugResolveError :: "modbusError \<Rightarrow> 'r debugReply" where
  "writeModbusDebugResolveError e = (if e = NoSuchRow then ResourceNotFound else ParamInvalid e)"

definition buildModbusSerialDebugRequest ::
  "golib \<Rightarrow> modbusSerialDebugRequest \<Rightarrow> modbusError + (bytes \<times> int)" where
  "buildModbusSerialDebugRequest L req =
     (if isRawModbusRequest (sd_RawRequest req) then buildRawModbusRTURequest L (Some req)
      else Inr (buildModbusRTURequest req))"

definition buildModbusSerialConfig :: "modbusSerialDebugRequest \<Rightarrow> SerialConfig" where
  "buildModbusSerialConfig req =
     \<lparr>sp_BaudRate = sd_BaudRate req, sp_DataBits = sd_DataBits req, sp_Parity = sd_Parity req,
      sp_StopBits = sd_StopBits req, sp_ReadTimeout = wrap64 (sd_TimeoutMs req * Millisecond)\<rparr>"

definition parseModbusSerialDebugResponse ::
  "modbusSerialDebugRequest \<Rightarrow> string \<Rightarrow> bytes \<Rightarrow> bytes \<Rightarrow> modbusError + modbusSerialDebugResponse" where
  "parseModbusSerialDebugResponse req path request response =
     (if isRawModbusRequest (sd_RawRequest req) then parseModbusRTURawResponse path request response
      else parseModbusRTUResponse req path request response)"

definition DebugModbusSerial ::
  "modbusEnv \<Rightarrow> modbusSerialDebugRequest option \<Rightarrow> modbusSerialDebugResponse debugReply option" where
  "DebugModbusSerial E body =
     (case body of
        None \<Rightarrow> Some InvalidRequestBody
      | Some req \<Rightarrow>
          (case validateModbusSerialDebugRequest (me_lib E) req of
             Inl e \<Rightarrow> Some (ParamInvalid e)
           | Inr req \<Rightarrow>
               (case resolveModbusSerialPath E req of
                  Inl e \<Rightarrow> Some (writeModbusDebugResolveError e)
                | Inr path \<Rightarrow>
                    (case buildModbusSerialDebugRequest (me_lib E) req of
                       Inl e \<Rightarrow> Some (ParamInvalid e)
                     | Inr (request, expectLen) \<Rightarrow>
                         (case TransceiveSerial (me_lib E) (me_openSerial E) path (buildModbusSerialConfig req) request expectLen of
                            None \<Rightarrow> None
                          | Some (Inl e) \<Rightarrow> Some (CommFailed e)
                          | Some (Inr response) \<Rightarrow>
                              (case parseModbusSerialDebugResponse req path request response of
                                 Inl e \<Rightarrow> Some (ResponseInvalid e)
                               | Inr debugResp \<Rightarrow> Some (WriteSuccess debugResp)))))))"

definition buildModbusTCPDebugRequest :: "modbusEnv \<Rightarrow> modbusTCPDebugRequest \<Rightarrow> modbusError + (bytes \<times> int)" where
  "buildModbusTCPDebugRequest E req =
     (if isRawModbusRequest (td_RawRequest req) then buildRawModbusTCPRequest (me_lib E) (Some req)
      else Inr (buildModbusTCPRequest (me_unixNano E) req))"

definition parseModbusTCPDebugResponse ::
  "modbusTCPDebugRequest \<Rightarrow> string \<Rightarrow> bytes \<Rightarrow> bytes \<Rightarrow> int \<Rightarrow> modbusError + modbusTCPDebugResponse" where
  "parseModbusTCPDebugResponse req endpoint request response txID =
     (if isRawModbusRequest (td_RawRequest req) then parseModbusTCPRawResponse endpoint request response txID
      else parseModbusTCPResponse req endpoint request response txID)"

definition DebugModbusTCP ::
  "modbusEnv \<Rightarrow> modbusTCPDebugRequest option \<Rightarrow> modbusTCPDebugResponse debugReply" where
  "DebugModbusTCP E body =
     (case body of
        None \<Rightarrow> InvalidRequestBody
      | Some req \<Rightarrow>
          (case validateModbusTCPDebugRequest req of
             Inl e \<Rightarrow> ParamInvalid e
           | Inr req \<Rightarrow>
               (case resolveModbusTCPEndpoint E req of
                  Inl e \<Rightarrow> writeModbusDebugResolveError e
                | Inr endpoint \<Rightarrow>
                    (case buildModbusTCPDebugRequest E req of
                       Inl e \<Rightarrow> ParamInvalid e
                     | Inr (request, txID) \<Rightarrow>
                         (case TransceiveTCP (me_dial E) endpoint (wrap64 (td_TimeoutMs req * Millisecond)) request of
                            Inl e \<Rightarrow> CommFailed e
                          | Inr response \<Rightarrow>
                              (case parseModbusTCPDebugResponse req endpoint request response txID of
                                 Inl e \<Rightarrow> ResponseInvalid e
                               | Inr debugResp \<Rightarrow> WriteSuccess debugResp))))))"

section \<open>Facts about the CRC\<close>

text \<open>The CRC is linear: a step is a shift with feedback, and the feedback only depends on the lowest bit.\<close>

lemma crcBit_alt: "crcBit c = drop_bit 1 c XOR (if bit c 0 then 0xA001 else 0)"
  by (simp add: crcBit_def and_one_eq bit_0 mod_2_eq_odd)

lemma crcBit_xor: "crcBit (c XOR d) = crcBit c XOR crcBit d"
  by (simp add: crcBit_alt drop_bit_xor bit_xor_iff ac_simps)

lemma crcBit_0 [simp]: "crcBit 0 = 0"
  by (simp add: crcBit_def)

lemma crcBits_xor: "(crcBit ^^ n) (c XOR d) = (crcBit ^^ n) c XOR (crcBit ^^ n) d"
  by (induction n) (simp_all add: crcBit_xor)

lemma crcBits_0 [simp]: "(crcBit ^^ n) 0 = 0"
  by (induction n) simp_all

text \<open>No step loses information: the feedback sets the highest bit, the shift clears it.\<close>

lemma crcBit_kernel: "crcBit c = 0 \<Longrightarrow> c = 0"
proof -
  assume z: "crcBit c = 0"
  have "bit (crcBit c) 15 = bit c 0"
    by (auto simp: crcBit_alt bit_xor_iff bit_drop_bit_eq dest: bit_imp_le_length)
  with z have low: "\<not> bit c 0" by simp
  with z have d: "drop_bit 1 c = 0" by (simp add: crcBit_alt)
  show "c = 0"
  proof (rule bit_eqI)
    fix n
    show "bit c n = bit 0 n"
    proof (cases n)
      case (Suc m)
      have "bit (drop_bit 1 c) m = bit c (Suc m)" by (simp add: bit_drop_bit_eq)
      with d Suc show ?thesis by simp
    qed (use low in simp)
  qed
qed

lemma crcBits_kernel: "(crcBit ^^ n) c = 0 \<Longrightarrow> c = 0"
  by (induction n) (auto dest: crcBit_kernel)

text \<open>A byte in the high half moves down without feedback.\<close>

lemma crcBit_shift: "n < 8 \<Longrightarrow> crcBit (push_bit (Suc n) (ucast (b :: 8 word))) = push_bit n (ucast b)"
proof -
  assume n: "n < 8"
  have "\<not> bit (push_bit (Suc n) (ucast b) :: 16 word) 0" by (simp add: bit_push_bit_iff del: push_bit_Suc)
  then have "crcBit (push_bit (Suc n) (ucast b)) = drop_bit 1 (push_bit (Suc n) (ucast b))"
    by (simp add: crcBit_alt del: push_bit_Suc)
  also have "\<dots> = push_bit n (ucast b)"
    using n by (intro bit_eqI) (auto simp: bit_drop_bit_eq bit_push_bit_iff bit_ucast_iff simp del: push_bit_Suc dest: bit_imp_le_length)
  finally show ?thesis .
qed

lemma crcBits_shift: "n \<le> 8 \<Longrightarrow> (crcBit ^^ n) (push_bit n (ucast (b :: 8 word))) = ucast b"
proof (induction n)
  case (Suc n)
  then show ?case by (simp add: crcBit_shift funpow_Suc_right del: funpow.simps push_bit_Suc)
qed simp

lemma crcByte_two: "crcByte (crcByte c a) b = (crcBit ^^ 16) (c XOR le16 a b)"
proof -
  have "le16 a b = ucast a XOR push_bit 8 (ucast b)"
    by (rule bit_eqI) (auto simp: le16_def bit_or_iff bit_xor_iff bit_push_bit_iff bit_ucast_iff dest: bit_imp_le_length)
  then have "(crcBit ^^ 16) (c XOR le16 a b) = (crcBit ^^ 8) ((crcBit ^^ 8) (c XOR ucast a XOR push_bit 8 (ucast b)))"
    by (simp add: ac_simps flip: funpow_add[of 8 8, unfolded comp_def, THEN fun_cong])
  also have "\<dots> = (crcBit ^^ 8) ((crcBit ^^ 8) (c XOR ucast a) XOR ucast b)"
    by (simp only: crcBits_xor crcBits_shift order_refl xor.assoc)
  finally show ?thesis by (simp add: crcByte_def)
qed

lemma foldl_crc_xor: "length as = length bs \<Longrightarrow>
    foldl crcByte (c XOR d) (map2 (XOR) as bs) = foldl crcByte c as XOR foldl crcByte d bs"
proof (induction as bs arbitrary: c d rule: list_induct2)
  case (Cons a as b bs)
  have "crcByte (c XOR d) (a XOR b) = crcByte c a XOR crcByte d b"
  proof -
    have "ucast (a XOR b) = ucast a XOR (ucast b :: 16 word)" by (simp add: unsigned_xor_eq)
    then have "(c XOR d) XOR ucast (a XOR b) = (c XOR ucast a) XOR (d XOR ucast b)"
      by (simp only: xor.assoc xor.left_commute)
    then show ?thesis by (simp only: crcByte_def crcBits_xor)
  qed
  with Cons.IH[of "crcByte c a" "crcByte d b"] show ?case by simp
qed simp

lemma xor_zero: "(x :: 16 word) XOR y = 0 \<longleftrightarrow> x = y"
proof
  assume "x XOR y = 0"
  then have "(x XOR y) XOR y = 0 XOR y" by (simp only:)
  then show "x = y" by (simp add: xor.assoc)
qed simp

text \<open>A frame with its CRC appended, low byte first, has CRC 0; and only then.\<close>

lemma crc_residue: "crc16Modbus (data @ [lo, hi]) = 0 \<longleftrightarrow> le16 lo hi = crc16Modbus data"
proof -
  have "crc16Modbus (data @ [lo, hi]) = (crcBit ^^ 16) (crc16Modbus data XOR le16 lo hi)"
    by (simp add: crc16Modbus_def crcByte_two)
  moreover have "crc16Modbus data XOR le16 lo hi = 0 \<longleftrightarrow> le16 lo hi = crc16Modbus data"
    using xor_zero[of "crc16Modbus data" "le16 lo hi"] by auto
  ultimately show ?thesis using crcBits_kernel[of 16] by auto
qed

lemma le16_split: "le16 (ucast (c AND 0xFF)) (ucast (drop_bit 8 c)) = (c :: 16 word)"
proof -
  have m: "(0xFF :: 16 word) = mask 8" by (simp add: mask_eq_exp_minus_1)
  show ?thesis unfolding m
    by (intro bit_eqI) (auto simp: le16_def bit_or_iff bit_and_iff bit_push_bit_iff bit_ucast_iff bit_drop_bit_eq bit_mask_iff
        dest: bit_imp_le_length)
qed

lemma le16_inj: "le16 a b = le16 c d \<longleftrightarrow> a = c \<and> b = d"
proof
  assume eq: "le16 a b = le16 c d"
  have "bit a n = bit c n \<and> bit b n = bit d n" if "n < 8" for n
  proof -
    from eq have "bit (le16 a b) n = bit (le16 c d) n" "bit (le16 a b) (n + 8) = bit (le16 c d) (n + 8)" by simp_all
    with that show ?thesis
      by (auto simp: le16_def bit_or_iff bit_push_bit_iff bit_ucast_iff dest: bit_imp_le_length)
  qed
  then show "a = c \<and> b = d" by (auto intro!: bit_word_eqI)
qed simp

lemma crcBits_inj: "(crcBit ^^ n) c = (crcBit ^^ n) d \<longleftrightarrow> c = d"
proof
  assume "(crcBit ^^ n) c = (crcBit ^^ n) d"
  then have "(crcBit ^^ n) (c XOR d) = 0" by (simp only: crcBits_xor xor_zero)
  then show "c = d" by (auto dest: crcBits_kernel simp: xor_zero)
qed simp

lemma xor_left_inj: "(x :: 16 word) XOR y = x XOR z \<longleftrightarrow> y = z"
  by (metis xor.assoc xor_zero xor.left_neutral)

lemma foldl_crc_inj: "foldl crcByte c q = foldl crcByte d q \<longleftrightarrow> c = d"
proof (induction q arbitrary: c d)
  case (Cons b q)
  have "c XOR ucast b = d XOR ucast b \<longleftrightarrow> c = d" using xor_left_inj[of "ucast b" c d] by (simp only: xor.commute)
  with Cons show ?case by (simp add: crcByte_def crcBits_inj)
qed simp

lemma crc_burst: "crc16Modbus (p @ [a, b] @ q) = crc16Modbus (p @ [c, d] @ q) \<longleftrightarrow> a = c \<and> b = d"
  by (simp add: crc16Modbus_def foldl_crc_inj crcByte_two crcBits_inj xor_left_inj le16_inj)

section \<open>Accepted frames\<close>

lemma last_two: "2 \<le> length r \<Longrightarrow> take (length r - 2) r @ [r ! (length r - 2), r ! (length r - 1)] = r"
proof -
  assume n: "2 \<le> length r"
  then have "drop (length r - 2) r = [r ! (length r - 2), r ! (length r - 1)]"
    by (simp add: Cons_nth_drop_Suc[symmetric] Suc_diff_Suc numeral_2_eq_2)
  then show ?thesis by (metis append_take_drop_id)
qed

lemma header_accepts:
  "parseModbusRTUResponseHeader r s = Inr x \<longleftrightarrow>
   5 \<le> length r \<and> r ! 0 = word_of_int s \<and> crc16Modbus r = 0 \<and> x = (uint (r ! 1), gslice r 1 (length r - 2))"
proof (cases "length r < 5")
  case False
  then have "crc16Modbus r = 0 \<longleftrightarrow> le16 (r ! (length r - 2)) (r ! (length r - 1)) = crc16Modbus (take (length r - 2) r)"
    using crc_residue[of "take (length r - 2) r" "r ! (length r - 2)" "r ! (length r - 1)"] last_two[of r] by simp
  with False show ?thesis by (auto simp: parseModbusRTUResponseHeader_def Let_def)
qed (simp add: parseModbusRTUResponseHeader_def)

text \<open>C27: A damaged RTU answer is never taken for data. If a frame is accepted, every frame that
  differs from it in one byte or in two neighbouring bytes, the CRC's own bytes included, is
  answered with an error, whatever was asked for: by the structured and by the raw request.\<close>
theorem modbus_corruption_detected:
  assumes "parseModbusRTUResponseHeader (p @ [a, b] @ q) s = Inr x" and "a \<noteq> c \<or> b \<noteq> d"
  shows "(\<exists>e. parseModbusRTUResponse req port request (p @ [c, d] @ q) = Inl e) \<and>
    (\<exists>e. parseModbusRTURawResponse port request (p @ [c, d] @ q) = Inl e)"
proof -
  have "crc16Modbus (p @ [c, d] @ q) \<noteq> 0"
    using assms crc_burst[of p a b q c d] unfolding header_accepts by metis
  then have no: "parseModbusRTUResponseHeader (p @ [c, d] @ q) t \<noteq> Inr y" for t y by (simp only: header_accepts simp_thms)
  have bad: "\<exists>e. parseModbusRTUResponseHeader (p @ [c, d] @ q) t = Inl e" for t
    using no[of t] by (cases "parseModbusRTUResponseHeader (p @ [c, d] @ q) t") blast+
  obtain e1 e2 where "parseModbusRTUResponseHeader (p @ [c, d] @ q) (sd_SlaveID req) = Inl e1"
    "parseModbusRTUResponseHeader (p @ [c, d] @ q) (uint (request ! 0)) = Inl e2" using bad by blast
  then show ?thesis
    unfolding parseModbusRTUResponse_def parseModbusRTURawResponse_def Let_def by simp
qed

section \<open>Answers of a device\<close>

text \<open>What a Modbus slave answers: the values of its registers, the echo of a write, an exception.\<close>

definition rtuFrame :: "bytes \<Rightarrow> bytes" where
  "rtuFrame pdata = pdata @ [ucast (crc16Modbus pdata AND 0xFF), ucast (drop_bit 8 (crc16Modbus pdata))]"

definition readAnswer :: "8 word \<Rightarrow> 16 word list \<Rightarrow> bytes" where
  "readAnswer slave regs = [slave, 3, of_nat (2 * length regs)] @ concat (map putBE16 regs)"

definition tcpFrame :: "16 word \<Rightarrow> bytes \<Rightarrow> bytes" where
  "tcpFrame txID body = putBE16 txID @ putBE16 0 @ putBE16 (of_nat (length body)) @ body"

text \<open>The body of a request in both framings.\<close>

definition bodyOf :: "int \<Rightarrow> int \<Rightarrow> int \<Rightarrow> int \<Rightarrow> bytes" where
  "bodyOf slave f address v = [word_of_int slave, word_of_int f] @ putBE16 (word_of_int address) @ putBE16 (word_of_int v)"

lemma be16_put [simp]: "be16 (ucast (drop_bit 8 v)) (ucast v) = v"
  by (intro bit_eqI) (auto simp: be16_def bit_or_iff bit_push_bit_iff bit_ucast_iff bit_drop_bit_eq dest: bit_imp_le_length)

lemma putBE16_length [simp]: "length (putBE16 v) = 2"
  by (simp add: putBE16_def)

lemma registersIn_values [simp]: "registersIn (concat (map putBE16 regs)) = map uint regs"
  by (induction regs) (simp_all add: putBE16_def)

lemma values_length [simp]: "length (concat (map putBE16 regs)) = 2 * length regs"
  by (induction regs) simp_all

lemma rtuFrame_crc: "crc16Modbus (rtuFrame pdata) = 0"
  unfolding rtuFrame_def crc_residue by (rule le16_split)

lemma rtuFrame_header:
  assumes "3 \<le> length pdata" and "pdata ! 0 = word_of_int s"
  shows "parseModbusRTUResponseHeader (rtuFrame pdata) s = Inr (uint (pdata ! 1), tl pdata)"
proof -
  have "5 \<le> length (rtuFrame pdata)" "rtuFrame pdata ! 0 = pdata ! 0" "rtuFrame pdata ! 1 = pdata ! 1"
    using assms(1) by (auto simp: rtuFrame_def nth_append)
  moreover have "gslice (rtuFrame pdata) 1 (length (rtuFrame pdata) - 2) = tl pdata"
    using assms(1) by (simp add: rtuFrame_def gslice_def drop_Suc)
  ultimately show ?thesis using assms(2) rtuFrame_crc by (simp add: header_accepts)
qed

lemma byteCount_small: "n \<le> 125 \<Longrightarrow> unat (of_nat (2 * n) :: 8 word) = 2 * n"
  unfolding unat_of_nat by simp

lemma read_payload:
  assumes "length regs \<le> 125"
  shows "parseModbusRegisterPayload (tl (readAnswer sl regs)) 1 2 = Inr (int (length regs), map uint regs)"
proof -
  have b: "unat (2 * of_nat (length regs) :: 8 word) = 2 * length regs" using byteCount_small[OF assms] by simp
  show ?thesis
    by (simp add: parseModbusRegisterPayload_def resolveModbusRegisterValueRange_def readAnswer_def gslice_def b Let_def)
qed

lemma be16_zero [simp]: "be16 0 0 = 0"
  by (simp add: be16_def)

lemma tcpFrame_header:
  assumes "3 \<le> length body" and "length body < 65536"
  shows "parseModbusTCPResponseHeader (tcpFrame txID body) (uint txID) = Inr (uint (body ! 0), tl body)"
proof -
  have n: "uint (of_nat (length body) :: 16 word) = int (length body)"
    using assms(2) by (simp add: unsigned_of_nat take_bit_nat_eq_self)
  obtain b0 b1 b2 bs where "body = b0 # b1 # b2 # bs" using assms(1) by (auto simp: Suc_le_length_iff numeral_3_eq_3)
  with n show ?thesis by (simp add: parseModbusTCPResponseHeader_def tcpFrame_def putBE16_def Let_def)
qed

lemma byte_id [simp]: "0 \<le> s \<Longrightarrow> s \<le> 255 \<Longrightarrow> uint (word_of_int s :: 8 word) = s"
  by (simp add: uint_word_of_int)

lemma word_id [simp]: "0 \<le> s \<Longrightarrow> s \<le> 65535 \<Longrightarrow> uint (word_of_int s :: 16 word) = s"
  by (simp add: uint_word_of_int)

lemma write_payload: "parseModbusWritePayload ([c] @ putBE16 a @ putBE16 v) 1 5 = Inr (uint a, uint v)"
  by (simp add: parseModbusWritePayload_def hasModbusWritePayload_def putBE16_def numeral_2_eq_2 numeral_3_eq_3)

lemma low_function: "(3 :: int) AND 128 = 0" "(6 :: int) AND 128 = 0" "(131 :: int) AND 128 \<noteq> 0" "(134 :: int) AND 128 \<noteq> 0"
  by simp_all

lemmas function_codes = modbusFuncReadHoldingRegisters_def modbusFuncWriteSingleRegister_def

lemma rtu_read:
  assumes "0 \<le> sd_SlaveID req" "sd_SlaveID req \<le> 247" "sd_FunctionCode req = 3" "length regs \<le> 125"
  shows "\<exists>resp. parseModbusRTUResponse req port q (rtuFrame (readAnswer (word_of_int (sd_SlaveID req)) regs)) = Inr resp \<and>
    sr_Registers resp = map uint regs \<and> sr_Quantity resp = Some (int (length regs)) \<and>
    sr_Address resp = Some (sd_Address req) \<and> sr_ExceptionCode resp = None"
proof -
  let ?a = "readAnswer (word_of_int (sd_SlaveID req)) regs"
  have "parseModbusRTUResponseHeader (rtuFrame ?a) (sd_SlaveID req) = Inr (3, tl ?a)"
    by (subst rtuFrame_header) (simp_all add: readAnswer_def)
  with read_payload[OF assms(4), of "word_of_int (sd_SlaveID req)"] assms show ?thesis
    by (simp add: parseModbusRTUResponse_def parseModbusException_def validateModbusFunctionCode_def function_codes Let_def)
qed

lemma rtu_write:
  assumes "0 \<le> sd_SlaveID req" "sd_SlaveID req \<le> 247" "sd_FunctionCode req = 6"
    "0 \<le> sd_Address req" "sd_Address req \<le> 65535" "0 \<le> sd_Value req" "sd_Value req \<le> 65535"
  shows "\<exists>resp. parseModbusRTUResponse req port q (fst (buildModbusRTURequest req)) = Inr resp \<and>
    sr_Address resp = Some (sd_Address req) \<and> sr_Value resp = Some (sd_Value req) \<and> sr_ExceptionCode resp = None"
proof -
  let ?a = "[word_of_int (sd_SlaveID req), 6] @ putBE16 (word_of_int (sd_Address req)) @ putBE16 (word_of_int (sd_Value req))"
  have b: "fst (buildModbusRTURequest req) = rtuFrame ?a"
    using assms(3) by (simp add: buildModbusRTURequest_def rtuFrame_def function_codes Let_def)
  have "parseModbusRTUResponseHeader (rtuFrame ?a) (sd_SlaveID req) = Inr (6, tl ?a)"
    by (subst rtuFrame_header) simp_all
  with write_payload[of 6 "word_of_int (sd_Address req)" "word_of_int (sd_Value req)"] assms show ?thesis
    by (simp add: b parseModbusRTUResponse_def parseModbusException_def validateModbusFunctionCode_def function_codes Let_def)
qed

lemma rtu_exception:
  assumes "0 \<le> sd_SlaveID req" "sd_SlaveID req \<le> 247" "f = 3 \<or> f = 6"
  shows "\<exists>resp. parseModbusRTUResponse req port q (rtuFrame [word_of_int (sd_SlaveID req), word_of_int (f + 128), code]) = Inr resp \<and>
    sr_ExceptionCode resp = Some (uint code)"
proof -
  have "uint (word_of_int (f + 128) :: 8 word) = f + 128" using assms(3) by auto
  then have "parseModbusRTUResponseHeader (rtuFrame [word_of_int (sd_SlaveID req), word_of_int (f + 128), code]) (sd_SlaveID req) =
      Inr (f + 128, [word_of_int (f + 128), code])"
    by (subst rtuFrame_header) simp_all
  with low_function assms(3) show ?thesis
    by (auto simp: parseModbusRTUResponse_def parseModbusException_def Let_def)
qed

lemma tcp_read:
  assumes "0 \<le> td_SlaveID tr" "td_SlaveID tr \<le> 247" "td_FunctionCode tr = 3" "length regs \<le> 125" "0 \<le> txID" "txID \<le> 65535"
  shows "\<exists>resp. parseModbusTCPResponse tr port q
      (tcpFrame (word_of_int txID) (readAnswer (word_of_int (td_SlaveID tr)) regs)) txID = Inr resp \<and>
    tr_Registers resp = map uint regs \<and> tr_Quantity resp = Some (int (length regs)) \<and>
    tr_Address resp = Some (td_Address tr) \<and> tr_ExceptionCode resp = None"
proof -
  let ?a = "readAnswer (word_of_int (td_SlaveID tr)) regs"
  have "3 \<le> length ?a" "length ?a < 65536" using assms(4) by (simp_all add: readAnswer_def)
  from tcpFrame_header[OF this, of "word_of_int txID"] assms
  have "parseModbusTCPResponseHeader (tcpFrame (word_of_int txID) ?a) txID = Inr (td_SlaveID tr, tl ?a)"
    by (simp add: readAnswer_def)
  moreover have "tl ?a ! 0 = 3" by (simp add: readAnswer_def)
  ultimately show ?thesis using read_payload[OF assms(4), of "word_of_int (td_SlaveID tr)"] assms
    by (simp add: parseModbusTCPResponse_def parseModbusException_def validateModbusFunctionCode_def function_codes Let_def)
qed

lemma int_mask16: "(x :: int) AND 0xFFFF = x mod 65536"
proof -
  have "(0xFFFF :: int) = mask 16" by (simp add: mask_eq_exp_minus_1)
  then have "x AND 0xFFFF = take_bit 16 x" by (simp only: take_bit_eq_mask)
  then show ?thesis by (simp add: take_bit_eq_mod)
qed

lemma tcp_txID:
  assumes "0 \<le> td_TransactionID tr" "td_TransactionID tr \<le> 65535"
  shows "0 \<le> snd (buildModbusTCPRequest now tr) \<and> snd (buildModbusTCPRequest now tr) \<le> 65535"
proof -
  have "0 \<le> now mod 65536" "now mod 65536 < 65536" by simp_all
  then show ?thesis using assms by (auto simp: buildModbusTCPRequest_def int_mask16 Let_def)
qed

lemma tcp_request:
  assumes "td_FunctionCode tr = 3 \<or> td_FunctionCode tr = 6"
  shows "fst (buildModbusTCPRequest now tr) = tcpFrame (word_of_int (snd (buildModbusTCPRequest now tr)))
    (bodyOf (td_SlaveID tr) (td_FunctionCode tr) (td_Address tr)
      (if td_FunctionCode tr = 3 then td_Quantity tr else td_Value tr))"
  using assms by (auto simp: buildModbusTCPRequest_def tcpFrame_def bodyOf_def function_codes Let_def)

lemma tcp_write:
  assumes "0 \<le> td_SlaveID tr" "td_SlaveID tr \<le> 247" "td_FunctionCode tr = 6" "0 \<le> td_TransactionID tr" "td_TransactionID tr \<le> 65535"
    "0 \<le> td_Address tr" "td_Address tr \<le> 65535" "0 \<le> td_Value tr" "td_Value tr \<le> 65535"
  shows "\<exists>resp. parseModbusTCPResponse tr port q (fst (buildModbusTCPRequest now tr)) (snd (buildModbusTCPRequest now tr)) = Inr resp \<and>
    tr_Address resp = Some (td_Address tr) \<and> tr_Value resp = Some (td_Value tr) \<and> tr_ExceptionCode resp = None"
proof -
  let ?a = "[word_of_int (td_SlaveID tr), 6] @ putBE16 (word_of_int (td_Address tr)) @ putBE16 (word_of_int (td_Value tr))"
  let ?t = "snd (buildModbusTCPRequest now tr)"
  have "3 \<le> length ?a" "length ?a < 65536" by simp_all
  from tcpFrame_header[OF this, of "word_of_int ?t"] tcp_txID[OF assms(4,5), of now] assms
  have "parseModbusTCPResponseHeader (tcpFrame (word_of_int ?t) ?a) ?t = Inr (td_SlaveID tr, tl ?a)" by simp
  with write_payload[of 6 "word_of_int (td_Address tr)" "word_of_int (td_Value tr)"] tcp_request[of tr now] assms show ?thesis
    by (simp add: bodyOf_def parseModbusTCPResponse_def parseModbusException_def validateModbusFunctionCode_def function_codes Let_def)
qed

lemma tcp_exception:
  assumes "0 \<le> td_SlaveID tr" "td_SlaveID tr \<le> 247" "f = 3 \<or> f = 6" "0 \<le> txID" "txID \<le> 65535"
  shows "\<exists>resp. parseModbusTCPResponse tr port q
      (tcpFrame (word_of_int txID) [word_of_int (td_SlaveID tr), word_of_int (f + 128), code]) txID = Inr resp \<and>
    tr_ExceptionCode resp = Some (uint code)"
proof -
  have "uint (word_of_int (f + 128) :: 8 word) = f + 128" using assms(3) by auto
  moreover have "parseModbusTCPResponseHeader
      (tcpFrame (word_of_int txID) [word_of_int (td_SlaveID tr), word_of_int (f + 128), code]) txID =
      Inr (td_SlaveID tr, [word_of_int (f + 128), code])"
    using tcpFrame_header[of "[word_of_int (td_SlaveID tr), word_of_int (f + 128), code]" "word_of_int txID"] assms by simp
  ultimately show ?thesis using low_function assms(3) by (auto simp: parseModbusTCPResponse_def parseModbusException_def Let_def)
qed

section \<open>Raw requests read back\<close>

lemma hexDigit_code: "d < 16 \<Longrightarrow> byte_of (hexDigit d) = (if d < 10 then 48 + d else 55 + d)"
  by (simp add: hexDigit_def of_char_of)

lemma char_byte: "c = d \<longleftrightarrow> byte_of c = (byte_of d :: nat)"
  by simp

lemma hexDigit_plain:
  assumes "d < 16"
  shows "isASCII (hexDigit d)" "\<not> asciiSpace (hexDigit d)" "\<not> rawSeparator (hexDigit d)"
  using hexDigit_code[OF assms] assms
  by (auto simp: isASCII_def runeSelf_def asciiSpace_def asciiSpaces_def rawSeparator_def split: if_splits)

lemma hexDigit_lower:
  assumes "d < 16"
  shows "byte_of (asciiLower (hexDigit d)) = (if d < 10 then 48 + d else 87 + d)"
  using hexDigit_code[OF assms] assms by (auto simp: asciiLower_def of_char_of)

lemma hexDigit_value: "d < 16 \<Longrightarrow> digitVal (asciiLower (hexDigit d)) = Some d"
  by (simp add: digitVal_def hexDigit_lower)

lemma hexDigit_other:
  "d < 16 \<Longrightarrow> asciiLower (hexDigit d) \<noteq> CHR ''x''" "d < 16 \<Longrightarrow> asciiLower (hexDigit d) \<noteq> CHR ''_''"
  "d < 16 \<Longrightarrow> asciiLower (hexDigit d) \<noteq> CHR ''-''"
  using hexDigit_lower[of d] by (auto split: if_splits)

definition hexByte :: "8 word \<Rightarrow> string" where
  "hexByte b = [hexDigit (unat b div 16), hexDigit (unat b mod 16)]"

lemma byte_small: "unat (b :: 8 word) < 256"
proof -
  have "unat b < 2 ^ LENGTH(8)" by (rule unsigned_less)
  then show ?thesis by simp
qed

lemma byte_digits: "unat (b :: 8 word) div 16 < 16" "unat b mod 16 < 16"
  using byte_small[of b] by simp_all

lemma rawToken_hex: "rawToken L (hexByte b) = Some [RawByte b]"
proof -
  let ?h = "hexDigit (unat b div 16)" and ?l = "hexDigit (unat b mod 16)"
  note plain = hexDigit_plain[OF byte_digits(1)[of b]] hexDigit_plain[OF byte_digits(2)[of b]]
  have trim: "TrimSpace (hexByte b) = hexByte b" by (rule TrimSpace_plain) (simp_all add: hexByte_def plain)
  have low: "ToLower (uniLower L) (hexByte b) = [asciiLower ?h, asciiLower ?l]" by (simp add: hexByte_def ToLower_def plain)
  have rep: "ReplaceAll [asciiLower ?h, asciiLower ?l] [c] [] = [asciiLower ?h, asciiLower ?l]"
    if "c = CHR ''_'' \<or> c = CHR ''-''" for c
    using ReplaceAll_skip[of "[c]" "[asciiLower ?h, asciiLower ?l]" "[]" "[]"] that
      hexDigit_other(2,3)[OF byte_digits(1)[of b]] hexDigit_other(2,3)[OF byte_digits(2)[of b]] by auto
  have nox: "prefix ''0x'' [asciiLower ?h, asciiLower ?l] = False" using hexDigit_other(1)[OF byte_digits(2)[of b]] by auto
  moreover have "ParseUint8 16 [asciiLower ?h, asciiLower ?l] = Some (unat b)"
    using byte_small[of b] byte_digits[of b] by (simp add: ParseUint8_def hexDigit_value)
  ultimately show ?thesis
    by (simp only: rawToken_def trim low rep Let_def nox if_False if_True list.inject simp_thms) auto
qed

lemma rawParts_hex: "rawParts L (map hexByte bs @ ts) =
    (case rawParts L ts of Inl e \<Rightarrow> Inl e | Inr ps \<Rightarrow> Inr (map RawByte bs @ ps))"
  by (induction bs) (simp_all add: rawToken_hex split: sum.split)

lemma rawToken_crc: "rawToken L ''CRC'' = Some [CRCLow, CRCHigh]"
proof -
  have "TrimSpace ''CRC'' = ''CRC''" by (rule TrimSpace_plain) (simp_all add: ascii_eval)
  moreover have "ToLower (uniLower L) ''CRC'' = ''crc''" by (simp add: ascii_eval)
  moreover have "ReplaceAll ''crc'' [c] [] = ''crc''" if "c = CHR ''_'' \<or> c = CHR ''-''" for c
    using ReplaceAll_skip[of "[c]" "''crc''" "[]" "[]"] that by auto
  ultimately show ?thesis by (simp add: rawToken_def Let_def)
qed

lemma fields_word: "\<not> rawSeparator c1 \<Longrightarrow> \<not> rawSeparator c2 \<Longrightarrow> fieldsFunc [] (c1 # c2 # CHR '' '' # s) = [c1, c2] # fieldsFunc [] s"
  by (simp add: rawSeparator_def)

lemma fields_hex:
  "bs \<noteq> [] \<Longrightarrow> fieldsFunc [] (formatHex bs @ '' '' @ s) = map hexByte bs @ fieldsFunc [] s"
proof (induction bs rule: formatHex.induct)
  case (3 b c bs)
  then show ?case
    using fields_word[OF hexDigit_plain(3)[OF byte_digits(1)[of b]] hexDigit_plain(3)[OF byte_digits(2)[of b]], of "formatHex (c # bs) @ '' '' @ s"]
    by (simp add: hexByte_def del: fieldsFunc.simps formatHex.simps(2,3)) (simp add: hexByte_def del: fieldsFunc.simps)
next
  case (2 b)
  then show ?case
    using fields_word[OF hexDigit_plain(3)[OF byte_digits(1)[of b]] hexDigit_plain(3)[OF byte_digits(2)[of b]], of s]
    by (simp add: hexByte_def del: fieldsFunc.simps)
qed simp

lemma fields_trailing: "fieldsFunc cur (s @ '' '') = fieldsFunc cur s"
  by (induction cur s rule: fieldsFunc.induct) (simp_all add: rawSeparator_def)

lemma isCRCField_simps [simp]: "isCRCField CRCLow" "isCRCField CRCHigh" "\<not> isCRCField (RawByte b)"
  by (simp_all add: isCRCField_def)

lemma no_crc_parts: "filter isCRCField (map RawByte bs) = []" "takeWhile (\<lambda>p. \<not> isCRCField p) (map RawByte bs @ CRCLow # ps) = map RawByte bs"
  by (induction bs) auto

text \<open>A raw request can be written the way the tool shows a frame. The hexadecimal text that the
  tool prints for a frame is read back as the same bytes, and with the word CRC behind it the
  frame gets its correct CRC, which a receiver accepts.\<close>
theorem raw_request_round_trip:
  assumes "bs \<noteq> []"
  shows "parseRawModbusRTUBytes L (formatHex bs) = Inr bs \<and>
    parseRawModbusRTUBytes L (formatHex bs @ '' CRC'') = Inr (rtuFrame bs) \<and> crc16Modbus (rtuFrame bs) = 0"
proof -
  have "fieldsFunc [] (formatHex bs) = map hexByte bs"
    using fields_hex[OF assms, of "[]"] fields_trailing[of "[]" "formatHex bs"] by simp
  with assms have "parseRawModbusRTUBytes L (formatHex bs) = fillCRC (map RawByte bs)"
    using rawParts_hex[of L bs "[]"] by (simp add: parseRawModbusRTUBytes_def Let_def)
  also have "\<dots> = Inr bs" by (simp add: fillCRC_def no_crc_parts Let_def comp_def)
  finally have plain: "parseRawModbusRTUBytes L (formatHex bs) = Inr bs" .
  have "fieldsFunc [] ''CRC'' = [''CRC'']" by (simp add: rawSeparator_def)
  then have "fieldsFunc [] (formatHex bs @ '' CRC'') = map hexByte bs @ [''CRC'']"
    using fields_hex[OF assms, of "''CRC''"] by simp
  then have "parseRawModbusRTUBytes L (formatHex bs @ '' CRC'') = fillCRC (map RawByte bs @ [CRCLow, CRCHigh])"
    using rawParts_hex[of L bs "[''CRC'']"] by (simp add: parseRawModbusRTUBytes_def rawToken_crc Let_def)
  also have "\<dots> = Inr (rtuFrame bs)"
    using assms by (simp add: fillCRC_def no_crc_parts Let_def comp_def rtuFrame_def)
  finally show ?thesis using plain rtuFrame_crc by simp
qed

theorem modbus_corruption_detected_witness:
  "\<exists>e. parseModbusRTUResponse \<lparr>sd_ResourceID = None, sd_SerialPort = ''/dev/ttyS0'', sd_BaudRate = 9600, sd_DataBits = 8,
      sd_StopBits = 1, sd_Parity = ''N'', sd_TimeoutMs = 800, sd_RawRequest = [], sd_ExpectRespLen = 0, sd_SlaveID = 1,
      sd_FunctionCode = 3, sd_Address = 16, sd_Quantity = 1, sd_Value = 0\<rparr> [] [] (take 3 (rtuFrame (readAnswer 1 [10])) @ [0, 11] @
      drop 5 (rtuFrame (readAnswer 1 [10]))) = Inl e"
proof -
  let ?f = "rtuFrame (readAnswer 1 [10])"
  have split: "?f = take 3 ?f @ [0, 10] @ drop 5 ?f" by (simp add: rtuFrame_def readAnswer_def putBE16_def drop_bit_eq_div)
  have ok: "parseModbusRTUResponseHeader ?f 1 = Inr (uint (readAnswer 1 [10] ! 1), tl (readAnswer 1 [10]))"
    by (rule rtuFrame_header) (simp_all add: readAnswer_def)
  have "parseModbusRTUResponseHeader (take 3 ?f @ [0, 10] @ drop 5 ?f) 1 = Inr (uint (readAnswer 1 [10] ! 1), tl (readAnswer 1 [10]))"
    using ok split by (simp only:)
  from modbus_corruption_detected[OF this, of 0 11] show ?thesis by simp
qed

theorem raw_request_round_trip_witness:
  "parseRawModbusRTUBytes exampleLib (formatHex [1, 3, 0, 16, 0, 2] @ '' CRC'') = Inr (rtuFrame [1, 3, 0, 16, 0, 2])"
  using raw_request_round_trip[of "[1, 3, 0, 16, 0, 2]" exampleLib] by simp

section \<open>An exchange with a device\<close>

text \<open>A Modbus slave with the identifier \<open>me\<close> and the holding registers \<open>mem\<close>, as the protocol has it: registers outside
  the address space are exception 2; a damaged request and one for another slave have no answer.\<close>

definition slaveBody :: "(nat \<Rightarrow> 16 word) \<Rightarrow> bytes \<Rightarrow> bytes" where
  "slaveBody mem body =
     (let me = body ! 0; address = unat (be16 (body ! 2) (body ! 3)); quantity = unat (be16 (body ! 4) (body ! 5))
      in if body ! 1 = 3
         then (if quantity = 0 \<or> quantity > 125 then [me, 131, 3]
               else if address + quantity > 65536 then [me, 131, 2]
               else readAnswer me (map mem [address..<address + quantity]))
         else if body ! 1 = 6 then body
         else [me, body ! 1 OR 128, 1])"

definition slaveAnswer :: "8 word \<Rightarrow> (nat \<Rightarrow> 16 word) \<Rightarrow> bytes \<Rightarrow> bytes option" where
  "slaveAnswer me mem frame =
     (if length frame \<noteq> 8 \<or> crc16Modbus frame \<noteq> 0 \<or> frame ! 0 \<noteq> me then None
      else Some (rtuFrame (slaveBody mem (take 6 frame))))"

definition slaveTCPAnswer :: "8 word \<Rightarrow> (nat \<Rightarrow> 16 word) \<Rightarrow> bytes \<Rightarrow> bytes option" where
  "slaveTCPAnswer me mem frame =
     (if length frame \<noteq> 12 \<or> be16 (frame ! 2) (frame ! 3) \<noteq> 0 \<or> be16 (frame ! 4) (frame ! 5) \<noteq> 6 \<or> frame ! 6 \<noteq> me then None
      else Some (tcpFrame (be16 (frame ! 0) (frame ! 1)) (slaveBody mem (drop 6 frame))))"

text \<open>The bytes of a sequence of reads that only bring bytes or nothing.\<close>

fun arrived :: "portRead list \<Rightarrow> bytes option" where
  "arrived [] = Some []"
| "arrived (Got bs # rs) = map_option ((@) bs) (arrived rs)"
| "arrived (Quiet # rs) = arrived rs"
| "arrived _ = None"

lemma serialReads_full:
  "arrived ds = Some bs \<Longrightarrow> length response < n \<Longrightarrow> n \<le> length response + length bs \<Longrightarrow>
   serialReads n response (ds @ rest) = Some (Inr (take n (response @ bs)))"
  by (induction ds arbitrary: response bs rule: arrived.induct) (auto simp: Let_def min_def)

lemma serialReads_short:
  "arrived ds = Some bs \<Longrightarrow> length response + length bs < n \<Longrightarrow>
   serialReads n response (ds @ TimedOut # rest) =
     Some (if response @ bs = [] then Inl ReadTimeout else Inr (response @ bs))"
  by (induction ds arbitrary: response bs rule: arrived.induct) (auto simp: Let_def min_def)

lemma function_valid: "normalizeModbusFunctionCode fc = Inr f \<Longrightarrow> f = 3 \<or> f = 6"
  by (simp add: normalizeModbusFunctionCode_def function_codes Let_def split: if_splits)

lemma addressing_valid: "validateModbusAddressing s a = None \<Longrightarrow> 0 \<le> s \<and> s \<le> 247 \<and> 0 \<le> a \<and> a \<le> 65535"
  by (simp add: validateModbusAddressing_def split: if_splits)

lemma operation_valid:
  "normalizeModbusOperation f q v = Inr q' \<Longrightarrow> (f = 3 \<longrightarrow> 1 \<le> q' \<and> q' \<le> 125) \<and> (f = 6 \<longrightarrow> 0 \<le> v \<and> v \<le> 65535)"
  by (simp add: normalizeModbusOperation_def function_codes Let_def split: if_splits)

lemma structured_valid:
  assumes "validateModbusStructuredRequest fc s a q v = Inr (f', q')"
  shows "0 \<le> s \<and> s \<le> 247 \<and> 0 \<le> a \<and> a \<le> 65535 \<and> (f' = 3 \<or> f' = 6) \<and> (f' = 3 \<longrightarrow> 1 \<le> q' \<and> q' \<le> 125) \<and>
    (f' = 6 \<longrightarrow> 0 \<le> v \<and> v \<le> 65535)"
proof -
  have "normalizeModbusFunctionCode fc = Inr f'" "validateModbusAddressing s a = None" "normalizeModbusOperation f' q v = Inr q'"
    using assms by (simp_all add: validateModbusStructuredRequest_def split: sum.splits option.splits)
  with function_valid[of fc f'] addressing_valid[of s a] operation_valid[of f' q v q'] show ?thesis by blast
qed

lemma serial_valid:
  assumes "validateModbusSerialDebugRequest L req = Inr r" and "\<not> isRawModbusRequest (sd_RawRequest r)"
  shows "0 \<le> sd_SlaveID r \<and> sd_SlaveID r \<le> 247 \<and> 0 \<le> sd_Address r \<and> sd_Address r \<le> 65535 \<and>
    (sd_FunctionCode r = 3 \<or> sd_FunctionCode r = 6) \<and>
    (sd_FunctionCode r = 3 \<longrightarrow> 1 \<le> sd_Quantity r \<and> sd_Quantity r \<le> 125) \<and>
    (sd_FunctionCode r = 6 \<longrightarrow> 0 \<le> sd_Value r \<and> sd_Value r \<le> 65535)"
proof -
  have "\<exists>x. validateModbusSerialOperation x = Inr r"
    using assms(1) by (auto simp: validateModbusSerialDebugRequest_def Let_def split: option.splits sum.splits if_splits)
  then obtain x where x: "validateModbusSerialOperation x = Inr r" ..
  show ?thesis
  proof (cases "isRawModbusRequest (sd_RawRequest x)")
    case True
    with x assms(2) show ?thesis by (auto simp: validateModbusSerialOperation_def split: sum.splits)
  next
    case False
    with x obtain f q where "validateModbusStructuredRequest (sd_FunctionCode x) (sd_SlaveID x) (sd_Address x) (sd_Quantity x)
        (sd_Value x) = Inr (f, q)" "r = x\<lparr>sd_FunctionCode := f, sd_Quantity := q\<rparr>"
      by (auto simp: validateModbusSerialOperation_def split: sum.splits)
    then show ?thesis using structured_valid by simp
  qed
qed

lemma frame_nth: "i < length pdata \<Longrightarrow> rtuFrame pdata ! i = pdata ! i"
  by (simp add: rtuFrame_def nth_append)

lemma word_nat: "0 \<le> s \<Longrightarrow> s \<le> 65535 \<Longrightarrow> unat (word_of_int s :: 16 word) = nat s"
  by (simp add: unat_eq_nat_uint)

lemma bodyOf_length [simp]: "length (bodyOf s f a v) = 6"
  by (simp add: bodyOf_def)

lemma bodyOf_nth: "bodyOf s f a v ! 0 = word_of_int s" "bodyOf s f a v ! 1 = word_of_int f"
  "be16 (bodyOf s f a v ! 2) (bodyOf s f a v ! 3) = word_of_int a"
  "be16 (bodyOf s f a v ! 4) (bodyOf s f a v ! 5) = word_of_int v"
  by (simp_all add: bodyOf_def putBE16_def)

lemma slave_request:
  assumes "sd_FunctionCode r = 3 \<or> sd_FunctionCode r = 6"
  shows "fst (buildModbusRTURequest r) = rtuFrame (bodyOf (sd_SlaveID r) (sd_FunctionCode r) (sd_Address r)
      (if sd_FunctionCode r = 3 then sd_Quantity r else sd_Value r))"
    and "snd (buildModbusRTURequest r) = (if sd_FunctionCode r = 3 then 5 + sd_Quantity r * 2 else 8)"
  using assms by (auto simp: buildModbusRTURequest_def rtuFrame_def bodyOf_def function_codes Let_def)

definition expectedBody :: "(nat \<Rightarrow> 16 word) \<Rightarrow> int \<Rightarrow> int \<Rightarrow> int \<Rightarrow> int \<Rightarrow> bytes" where
  "expectedBody mem slave f address v =
     (if f = 6 then bodyOf slave 6 address v
      else if address + v > 65536 then [word_of_int slave, 131, 2]
      else readAnswer (word_of_int slave) (map mem [nat address..<nat address + nat v]))"

lemma slave_body:
  assumes "0 \<le> a" "a \<le> 65535" "f = 3 \<or> f = 6" "f = 3 \<longrightarrow> 1 \<le> v \<and> v \<le> 125"
  shows "slaveBody mem (bodyOf s f a v) = expectedBody mem s f a v"
proof (cases "f = 6")
  case True
  then show ?thesis unfolding slaveBody_def bodyOf_nth expectedBody_def by (simp add: Let_def)
next
  case False
  then have f: "f = 3" and v: "1 \<le> v" "v \<le> 125" using assms by auto
  have "nat v \<noteq> 0" "\<not> nat v > 125" "nat a + nat v > 65536 \<longleftrightarrow> a + v > 65536" using assms v by linarith+
  then show ?thesis using assms(1,2) v f unfolding slaveBody_def bodyOf_nth expectedBody_def by (simp add: word_nat Let_def)
qed

lemma slave_answers:
  "slaveAnswer (word_of_int s) mem (rtuFrame (bodyOf s f a v)) = Some (rtuFrame (slaveBody mem (bodyOf s f a v)))"
proof -
  have t: "take 6 (rtuFrame (bodyOf s f a v)) = bodyOf s f a v" by (simp add: rtuFrame_def)
  have "length (rtuFrame (bodyOf s f a v)) = 8" "rtuFrame (bodyOf s f a v) ! 0 = word_of_int s"
    by (simp_all add: rtuFrame_def frame_nth bodyOf_def)
  then show ?thesis unfolding slaveAnswer_def t rtuFrame_crc by simp
qed

lemma slave_answers_tcp:
  "slaveTCPAnswer (word_of_int s) mem (tcpFrame tx (bodyOf s f a v)) = Some (tcpFrame tx (slaveBody mem (bodyOf s f a v)))"
proof -
  have h: "tcpFrame tx (bodyOf s f a v) = [ucast (drop_bit 8 tx), ucast tx, 0, 0, 0, 6] @ bodyOf s f a v"
    by (simp add: tcpFrame_def) (simp add: putBE16_def drop_bit_eq_div)
  have d: "drop 6 (tcpFrame tx (bodyOf s f a v)) = bodyOf s f a v" by (simp add: h)
  have "tcpFrame tx (bodyOf s f a v) ! 6 = word_of_int s" "length (tcpFrame tx (bodyOf s f a v)) = 12"
    "be16 (tcpFrame tx (bodyOf s f a v) ! 0) (tcpFrame tx (bodyOf s f a v) ! 1) = tx"
    "be16 (tcpFrame tx (bodyOf s f a v) ! 2) (tcpFrame tx (bodyOf s f a v) ! 3) = 0"
    "be16 (tcpFrame tx (bodyOf s f a v) ! 4) (tcpFrame tx (bodyOf s f a v) ! 5) = 6"
    by (simp_all add: h bodyOf_nth nth_append) (simp_all add: be16_def bodyOf_nth)
  then show ?thesis unfolding slaveTCPAnswer_def d by simp
qed

lemma readAnswer_length [simp]: "length (readAnswer sl regs) = 3 + 2 * length regs"
  by (simp add: readAnswer_def)

lemma rtuFrame_length [simp]: "length (rtuFrame pdata) = length pdata + 2"
  by (simp add: rtuFrame_def)

lemma rtuFrame_Nil [simp]: "rtuFrame pdata \<noteq> []"
  by (simp add: rtuFrame_def)

text \<open>The exchange on the line: the whole answer, or the part of it before the timeout, in any pieces.\<close>

lemma transceive_answer:
  assumes "q \<noteq> []" "arrived ds = Some bs" "bs \<noteq> []" "int (length bs) \<le> n"
    and "\<And>cfg. open_port path cfg q = Inr \<lparr>op_write = None, op_reads = ds @ TimedOut # rest\<rparr>"
  shows "TransceiveSerial L open_port path cfg q n = Some (Inr bs)"
proof -
  have n: "\<not> n \<le> 0" using assms(3,4) by (cases bs) auto
  have "serialReads (nat n) [] (ds @ TimedOut # rest) = Some (Inr bs)"
  proof (cases "length bs = nat n")
    case True
    with n serialReads_full[OF assms(2), of "[]" "nat n" "TimedOut # rest"] show ?thesis by simp
  next
    case False
    with assms(3,4) serialReads_short[OF assms(2), of "[]" "nat n" rest] show ?thesis by simp
  qed
  with n assms(1,5) show ?thesis by (simp add: TransceiveSerial_def Let_def)
qed

lemma serial_tool_shows:
  assumes "validateModbusSerialDebugRequest (me_lib E) req = Inr r" "\<not> isRawModbusRequest (sd_RawRequest r)"
    and "resolveModbusSerialPath E r = Inr path"
    and "TransceiveSerial (me_lib E) (me_openSerial E) path (buildModbusSerialConfig r)
      (fst (buildModbusRTURequest r)) (snd (buildModbusRTURequest r)) = Some (Inr bs)"
    and "parseModbusRTUResponse r path (fst (buildModbusRTURequest r)) bs = Inr resp"
  shows "DebugModbusSerial E (Some req) = Some (WriteSuccess resp)"
proof -
  obtain q n where b: "buildModbusRTURequest r = (q, n)" by force
  then have "buildModbusSerialDebugRequest (me_lib E) r = Inr (q, n)"
    using assms(2) by (simp add: buildModbusSerialDebugRequest_def)
  with b assms show ?thesis by (simp add: DebugModbusSerial_def parseModbusSerialDebugResponse_def)
qed

text \<open>What the tool shows for the slave's answer.\<close>

lemma expected_length: "1 \<le> v \<Longrightarrow> f = 3 \<or> f = 6 \<Longrightarrow> int (length (expectedBody mem s f a v)) \<le> (if f = 3 then 3 + 2 * v else 6)"
  by (auto simp: expectedBody_def)

lemma expected_shown:
  assumes "0 \<le> sd_SlaveID r \<and> sd_SlaveID r \<le> 247 \<and> 0 \<le> sd_Address r \<and> sd_Address r \<le> 65535"
    and "sd_FunctionCode r = 3 \<or> sd_FunctionCode r = 6"
    and "sd_FunctionCode r = 3 \<longrightarrow> 1 \<le> sd_Quantity r \<and> sd_Quantity r \<le> 125"
    and "sd_FunctionCode r = 6 \<longrightarrow> 0 \<le> sd_Value r \<and> sd_Value r \<le> 65535"
  shows "\<exists>resp. parseModbusRTUResponse r port q (rtuFrame (expectedBody mem (sd_SlaveID r) (sd_FunctionCode r) (sd_Address r)
      (if sd_FunctionCode r = 3 then sd_Quantity r else sd_Value r))) = Inr resp \<and>
    (if sd_FunctionCode r = 6
     then sr_Address resp = Some (sd_Address r) \<and> sr_Value resp = Some (sd_Value r) \<and> sr_ExceptionCode resp = None
     else if sd_Address r + sd_Quantity r > 65536 then sr_ExceptionCode resp = Some 2
     else sr_Registers resp = map (uint \<circ> mem) [nat (sd_Address r)..<nat (sd_Address r) + nat (sd_Quantity r)] \<and>
          sr_ExceptionCode resp = None)"
proof (cases "sd_FunctionCode r = 6")
  case True
  with slave_request(1)[of r] have "fst (buildModbusRTURequest r) = rtuFrame (bodyOf (sd_SlaveID r) 6 (sd_Address r) (sd_Value r))"
    by simp
  then show ?thesis using True assms rtu_write[of r port q] by (auto simp: expectedBody_def)
next
  case False
  then have f: "sd_FunctionCode r = 3" and q: "1 \<le> sd_Quantity r" "sd_Quantity r \<le> 125" using assms by auto
  let ?regs = "map mem [nat (sd_Address r)..<nat (sd_Address r) + nat (sd_Quantity r)]"
  have "length ?regs \<le> 125" using q by simp
  with rtu_read[of r ?regs port q] rtu_exception[of r 3 port q 2] assms(1) f show ?thesis
    by (auto simp: expectedBody_def)
qed

text \<open>C26: The serial tool and a Modbus slave understand each other. A request that passes the check is
  framed so that the slave takes it; whatever the pieces in which the line delivers the answer and
  however often a read brings nothing, the tool answers with success: a read request with the
  slave's registers from the requested address on, in order and as many as requested, a write
  request with the written register and value, and a read beyond the address space with the
  slave's exception code.\<close>
theorem serial_tool_exchange:
  assumes "validateModbusSerialDebugRequest (me_lib E) req = Inr r" and "\<not> isRawModbusRequest (sd_RawRequest r)"
    and "resolveModbusSerialPath E r = Inr path"
    and "\<And>cfg. me_openSerial E path cfg (fst (buildModbusRTURequest r)) =
      Inr \<lparr>op_write = None, op_reads = ds @ TimedOut # rest\<rparr>"
    and "arrived ds = slaveAnswer (word_of_int (sd_SlaveID r)) mem (fst (buildModbusRTURequest r))"
  shows "\<exists>resp. DebugModbusSerial E (Some req) = Some (WriteSuccess resp) \<and>
    (if sd_FunctionCode r = 6
     then sr_Address resp = Some (sd_Address r) \<and> sr_Value resp = Some (sd_Value r) \<and> sr_ExceptionCode resp = None
     else if sd_Address r + sd_Quantity r > 65536 then sr_ExceptionCode resp = Some 2
     else sr_Registers resp = map (uint \<circ> mem) [nat (sd_Address r)..<nat (sd_Address r) + nat (sd_Quantity r)] \<and>
          sr_ExceptionCode resp = None)"
proof -
  note v = serial_valid[OF assms(1,2)]
  let ?v = "if sd_FunctionCode r = 3 then sd_Quantity r else sd_Value r"
  let ?bs = "rtuFrame (expectedBody mem (sd_SlaveID r) (sd_FunctionCode r) (sd_Address r) ?v)"
  note q = slave_request[of r]
  have bs: "arrived ds = Some ?bs"
    using v q(1) slave_answers[of "sd_SlaveID r" mem] slave_body[of "sd_Address r" "sd_FunctionCode r" ?v mem] assms(5) by simp
  have n: "int (length ?bs) \<le> snd (buildModbusRTURequest r)"
    using v q(2) expected_length[of "if sd_FunctionCode r = 3 then sd_Quantity r else 1" "sd_FunctionCode r"] by (auto simp: expectedBody_def)
  have ne: "fst (buildModbusRTURequest r) \<noteq> []" using q(1) v by simp
  note t = transceive_answer[where open_port = "me_openSerial E", OF ne bs rtuFrame_Nil n assms(4)]
  show ?thesis using expected_shown[of r path "fst (buildModbusRTURequest r)" mem] v serial_tool_shows[OF assms(1-3) t] by blast
qed

definition exampleRead :: modbusSerialDebugRequest where
  "exampleRead = \<lparr>sd_ResourceID = None, sd_SerialPort = ''/dev/ttyS0'', sd_BaudRate = 9600, sd_DataBits = 8,
     sd_StopBits = 1, sd_Parity = ''N'', sd_TimeoutMs = 800, sd_RawRequest = [], sd_ExpectRespLen = 0, sd_SlaveID = 1,
     sd_FunctionCode = 3, sd_Address = 16, sd_Quantity = 2, sd_Value = 0\<rparr>"

definition exampleLine :: modbusEnv where
  "exampleLine = \<lparr>me_lib = exampleLib, me_unixNano = 0, me_loadResource = \<lambda>_. Inl NoSuchRow,
     me_openSerial = \<lambda>_ _ _. Inr \<lparr>op_write = None, op_reads = [Got (take 3 (rtuFrame (readAnswer 1 [10, 65535]))), Quiet,
       Got (drop 3 (rtuFrame (readAnswer 1 [10, 65535]))), TimedOut]\<rparr>,
     me_resolveTCPAddr = \<lambda>_. True, me_dial = \<lambda>_ _ _. Inl []\<rparr>"

lemma exampleRead_valid: "validateModbusSerialDebugRequest (me_lib exampleLine) exampleRead = Inr exampleRead"
  by (simp add: exampleLine_def exampleRead_def exampleLib_def validateModbusSerialDebugRequest_def validateModbusSerialTarget_def
      normalizeModbusSerialLineSettings_def normalizeModbusTimeout_def validateModbusSerialOperation_def isRawModbusRequest_def
      validateModbusStructuredRequest_def normalizeModbusFunctionCode_def validateModbusAddressing_def
      normalizeModbusOperation_def function_codes TrimSpace_plain ascii_eval ToUpper_def Let_def)

theorem serial_tool_exchange_witness:
  "\<exists>resp. DebugModbusSerial exampleLine (Some exampleRead) = Some (WriteSuccess resp) \<and> sr_Registers resp = [10, 65535]"
proof -
  let ?mem = "\<lambda>i. if i = 16 then 10 else (65535 :: 16 word)"
  let ?a = "rtuFrame (readAnswer 1 [10, 65535])"
  let ?ds = "[Got (take 3 ?a), Quiet, Got (drop 3 ?a)]"
  have raw: "\<not> isRawModbusRequest (sd_RawRequest exampleRead)"
    by (simp add: isRawModbusRequest_def exampleRead_def)
  have path: "resolveModbusSerialPath exampleLine exampleRead = Inr ''/dev/ttyS0''"
    by (simp add: resolveModbusSerialPath_def resolveModbusDirectOrResourceTarget_def exampleRead_def TrimSpace_plain ascii_eval)
  have "[16..<18] = [16, 17 :: nat]" by (simp add: upt_rec)
  then have ans: "slaveAnswer (word_of_int (sd_SlaveID exampleRead)) ?mem (fst (buildModbusRTURequest exampleRead)) = Some ?a"
    using slave_request(1)[of exampleRead] slave_answers[of 1 ?mem 3 16 2] slave_body[of 16 3 2 ?mem 1]
    by (simp add: exampleRead_def expectedBody_def)
  have ds: "arrived ?ds = Some ?a" by simp
  show ?thesis
    using serial_tool_exchange[of exampleLine exampleRead exampleRead, OF exampleRead_valid raw path, of ?ds "[]" ?mem] ans ds
      \<open>[16..<18] = [16, 17]\<close>
    by (simp add: exampleLine_def) (auto simp: exampleRead_def)
qed

text \<open>The same over TCP.\<close>

lemma tcp_valid:
  assumes "validateModbusTCPDebugRequest req = Inr r" and "\<not> isRawModbusRequest (td_RawRequest r)"
  shows "0 \<le> td_SlaveID r \<and> td_SlaveID r \<le> 247 \<and> 0 \<le> td_Address r \<and> td_Address r \<le> 65535 \<and>
    0 \<le> td_TransactionID r \<and> td_TransactionID r \<le> 65535 \<and>
    (td_FunctionCode r = 3 \<or> td_FunctionCode r = 6) \<and>
    (td_FunctionCode r = 3 \<longrightarrow> 1 \<le> td_Quantity r \<and> td_Quantity r \<le> 125) \<and>
    (td_FunctionCode r = 6 \<longrightarrow> 0 \<le> td_Value r \<and> td_Value r \<le> 65535)"
proof -
  have "\<exists>x. validateModbusTCPOperation x = Inr r"
    using assms(1) by (auto simp: validateModbusTCPDebugRequest_def Let_def split: option.splits sum.splits if_splits)
  then obtain x where x: "validateModbusTCPOperation x = Inr r" ..
  show ?thesis
  proof (cases "isRawModbusRequest (td_RawRequest x)")
    case True
    with x assms(2) show ?thesis by (auto simp: validateModbusTCPOperation_def)
  next
    case False
    with x obtain f q where "validateModbusStructuredRequest (td_FunctionCode x) (td_SlaveID x) (td_Address x) (td_Quantity x)
        (td_Value x) = Inr (f, q)" "r = x\<lparr>td_FunctionCode := f, td_Quantity := q\<rparr>" "validateModbusTransactionID (td_TransactionID x) = None"
      by (auto simp: validateModbusTCPOperation_def split: sum.splits option.splits)
    then show ?thesis using structured_valid by (simp add: validateModbusTransactionID_def split: if_splits)
  qed
qed

lemma expected_shown_tcp:
  assumes "0 \<le> td_SlaveID r \<and> td_SlaveID r \<le> 247 \<and> 0 \<le> td_Address r \<and> td_Address r \<le> 65535"
    and "0 \<le> td_TransactionID r \<and> td_TransactionID r \<le> 65535" and "td_FunctionCode r = 3 \<or> td_FunctionCode r = 6"
    and "td_FunctionCode r = 3 \<longrightarrow> 1 \<le> td_Quantity r \<and> td_Quantity r \<le> 125"
    and "td_FunctionCode r = 6 \<longrightarrow> 0 \<le> td_Value r \<and> td_Value r \<le> 65535"
    and "txID = snd (buildModbusTCPRequest now r)"
  shows "\<exists>resp. parseModbusTCPResponse r port q (tcpFrame (word_of_int txID) (expectedBody mem (td_SlaveID r) (td_FunctionCode r)
      (td_Address r) (if td_FunctionCode r = 3 then td_Quantity r else td_Value r))) txID = Inr resp \<and>
    (if td_FunctionCode r = 6
     then tr_Address resp = Some (td_Address r) \<and> tr_Value resp = Some (td_Value r) \<and> tr_ExceptionCode resp = None
     else if td_Address r + td_Quantity r > 65536 then tr_ExceptionCode resp = Some 2
     else tr_Registers resp = map (uint \<circ> mem) [nat (td_Address r)..<nat (td_Address r) + nat (td_Quantity r)] \<and>
          tr_ExceptionCode resp = None)"
proof (cases "td_FunctionCode r = 6")
  case True
  then show ?thesis using assms tcp_write[of r port q now] tcp_request[of r now] by (auto simp: expectedBody_def)
next
  case False
  then have f: "td_FunctionCode r = 3" and q: "1 \<le> td_Quantity r" "td_Quantity r \<le> 125" using assms by auto
  have t: "0 \<le> txID" "txID \<le> 65535" using tcp_txID[of r now] assms(2,6) by auto
  let ?regs = "map mem [nat (td_Address r)..<nat (td_Address r) + nat (td_Quantity r)]"
  have "length ?regs \<le> 125" using q by simp
  with tcp_read[of r ?regs txID port q] tcp_exception[of r 3 txID port q 2] assms(1) f t show ?thesis
    by (auto simp: expectedBody_def)
qed

lemma expected_size:
  assumes "v \<le> 125 \<or> f = 6"
  shows "2 \<le> length (expectedBody mem s f a v) \<and> length (expectedBody mem s f a v) < 65536"
  using assms by (auto simp: expectedBody_def)

text \<open>Reading a frame off the connection: the header gives the length, what comes behind the frame stays.\<close>

lemma transceive_frame:
  assumes "TrimSpace endpoint = endpoint" "endpoint \<noteq> []" "q \<noteq> []" "2 \<le> length body" "length body < 65536"
    and "\<And>t. dial endpoint t q = Inr (Inr (tcpFrame tx body @ extra))"
  shows "TransceiveTCP dial endpoint t q = Inr (tcpFrame tx body)"
proof -
  have n: "unat (of_nat (length body) :: 16 word) = length body"
    using assms(5) by (simp add: unat_of_nat)
  obtain b0 bs where b: "body = b0 # bs" using assms(4) by (cases body) auto
  have "tcpFrame tx body = [ucast (drop_bit 8 tx), ucast tx, 0, 0, ucast (drop_bit 8 (of_nat (length body) :: 16 word)),
      ucast (of_nat (length body) :: 16 word), b0] @ bs" by (simp add: tcpFrame_def putBE16_def b)
  then show ?thesis using assms n b by (auto simp: TransceiveTCP_def Let_def)
qed

lemma tcp_tool_shows:
  assumes "validateModbusTCPDebugRequest req = Inr r" "\<not> isRawModbusRequest (td_RawRequest r)"
    and "resolveModbusTCPEndpoint E r = Inr endpoint" and "buildModbusTCPRequest (me_unixNano E) r = (q, txID)"
    and "TransceiveTCP (me_dial E) endpoint (wrap64 (td_TimeoutMs r * Millisecond)) q = Inr bs"
    and "parseModbusTCPResponse r endpoint q bs txID = Inr resp"
  shows "DebugModbusTCP E (Some req) = WriteSuccess resp"
  using assms by (simp add: DebugModbusTCP_def buildModbusTCPDebugRequest_def parseModbusTCPDebugResponse_def)

lemma endpoint_trimmed: "resolveModbusTCPEndpoint E r = Inr endpoint \<Longrightarrow> TrimSpace endpoint = endpoint \<and> endpoint \<noteq> []"
  by (auto simp: resolveModbusTCPEndpoint_def resolveModbusTCPTarget_def resolveDebugResourcePath_def Let_def
      split: sum.splits option.splits if_splits prod.splits)

text \<open>The TCP tool and a Modbus slave behind a TCP endpoint understand each other: for a checked
  request the slave's answer, whatever follows it on the connection and whether the transaction
  identifier was given or taken from the clock, is answered with success and shows the slave's
  registers, the written register and value, or the slave's exception code.\<close>
theorem tcp_tool_exchange:
  assumes "validateModbusTCPDebugRequest req = Inr r" and "\<not> isRawModbusRequest (td_RawRequest r)"
    and "resolveModbusTCPEndpoint E r = Inr endpoint"
    and "slaveTCPAnswer (word_of_int (td_SlaveID r)) mem (fst (buildModbusTCPRequest (me_unixNano E) r)) = Some answer"
    and "\<And>t. me_dial E endpoint t (fst (buildModbusTCPRequest (me_unixNano E) r)) = Inr (Inr (answer @ extra))"
  shows "\<exists>resp. DebugModbusTCP E (Some req) = WriteSuccess resp \<and>
    (if td_FunctionCode r = 6
     then tr_Address resp = Some (td_Address r) \<and> tr_Value resp = Some (td_Value r) \<and> tr_ExceptionCode resp = None
     else if td_Address r + td_Quantity r > 65536 then tr_ExceptionCode resp = Some 2
     else tr_Registers resp = map (uint \<circ> mem) [nat (td_Address r)..<nat (td_Address r) + nat (td_Quantity r)] \<and>
          tr_ExceptionCode resp = None)"
proof -
  note v = tcp_valid[OF assms(1,2)]
  let ?v = "if td_FunctionCode r = 3 then td_Quantity r else td_Value r"
  let ?body = "expectedBody mem (td_SlaveID r) (td_FunctionCode r) (td_Address r) ?v"
  obtain q txID where b: "buildModbusTCPRequest (me_unixNano E) r = (q, txID)" by force
  have q: "q = tcpFrame (word_of_int txID) (bodyOf (td_SlaveID r) (td_FunctionCode r) (td_Address r) ?v)"
    using tcp_request[of r "me_unixNano E"] v b by simp
  then have a: "answer = tcpFrame (word_of_int txID) ?body"
    using slave_answers_tcp[of "td_SlaveID r" mem] slave_body[of "td_Address r" "td_FunctionCode r" ?v mem] assms(4) v b by simp
  have size: "2 \<le> length ?body" "length ?body < 65536" using expected_size[of ?v "td_FunctionCode r"] v by auto
  have "q \<noteq> []" using q by (simp add: tcpFrame_def putBE16_def)
  then have t: "TransceiveTCP (me_dial E) endpoint t q = Inr (tcpFrame (word_of_int txID) ?body)" for t
    using transceive_frame[where dial = "me_dial E", OF _ _ _ size] endpoint_trimmed[OF assms(3)] assms(5) a b by simp
  have "txID = snd (buildModbusTCPRequest (me_unixNano E) r)" using b by simp
  with expected_shown_tcp[of r txID "me_unixNano E" endpoint q mem] v tcp_tool_shows[OF assms(1-3) b t] show ?thesis by blast
qed

definition exampleTCPRead :: modbusTCPDebugRequest where
  "exampleTCPRead = \<lparr>td_ResourceID = None, td_Endpoint = ''10.0.0.5:502'', td_TimeoutMs = 2000, td_RawRequest = [], td_SlaveID = 1,
     td_FunctionCode = 3, td_Address = 16, td_Quantity = 2, td_Value = 0, td_TransactionID = 7\<rparr>"

definition exampleNet :: modbusEnv where
  "exampleNet = exampleLine\<lparr>me_dial := \<lambda>_ _ _. Inr (Inr (tcpFrame 7 (readAnswer 1 [10, 65535]) @ [0]))\<rparr>"

lemma exampleTCPRead_valid: "validateModbusTCPDebugRequest exampleTCPRead = Inr exampleTCPRead"
  by (simp add: exampleTCPRead_def validateModbusTCPDebugRequest_def validateModbusTCPTarget_def
      normalizeModbusTimeout_def validateModbusTCPOperation_def isRawModbusRequest_def validateModbusTransactionID_def
      validateModbusStructuredRequest_def normalizeModbusFunctionCode_def validateModbusAddressing_def
      normalizeModbusOperation_def function_codes TrimSpace_plain ascii_eval Let_def)

theorem tcp_tool_exchange_witness:
  "\<exists>resp. DebugModbusTCP exampleNet (Some exampleTCPRead) = WriteSuccess resp \<and> tr_Registers resp = [10, 65535]"
proof -
  let ?mem = "\<lambda>i. if i = 16 then 10 else (65535 :: 16 word)"
  let ?a = "tcpFrame 7 (readAnswer 1 [10, 65535])"
  have raw: "\<not> isRawModbusRequest (td_RawRequest exampleTCPRead)"
    by (simp add: isRawModbusRequest_def exampleTCPRead_def)
  have target: "resolveModbusTCPEndpoint exampleNet exampleTCPRead = Inr ''10.0.0.5:502''"
    by (simp add: resolveModbusTCPEndpoint_def resolveModbusTCPTarget_def validateResolvedModbusTCPEndpoint_def exampleNet_def
        exampleLine_def exampleTCPRead_def TrimSpace_plain ascii_eval)
  have r: "[16..<18] = [16, 17 :: nat]" by (simp add: upt_rec)
  have tx: "snd (buildModbusTCPRequest (me_unixNano exampleNet) exampleTCPRead) = 7"
    by (simp add: buildModbusTCPRequest_def exampleTCPRead_def Let_def)
  have "slaveTCPAnswer (word_of_int (td_SlaveID exampleTCPRead)) ?mem
      (fst (buildModbusTCPRequest (me_unixNano exampleNet) exampleTCPRead)) = Some ?a"
    using tcp_request[of exampleTCPRead "me_unixNano exampleNet"] slave_answers_tcp[of 1 ?mem 7 3 16 2] slave_body[of 16 3 2 ?mem 1] r tx
    by (simp add: exampleTCPRead_def expectedBody_def)
  from tcp_tool_exchange[of exampleTCPRead exampleTCPRead exampleNet, OF exampleTCPRead_valid raw target this, of "[0]"] r show ?thesis
    by (simp add: exampleNet_def) (auto simp: exampleTCPRead_def)
qed

end
