(* ===== verification/Sample_Store.thy ===== *)
theory Sample_Store
  imports Models
begin

text \<open>
  Writing samples to the in-memory database (\<open>database/data_points_batch.go\<close>, \<open>data_cache.go\<close>,
  \<open>data_points.go\<close>, the write half of \<open>data_points_query.go\<close>) and the asynchronous writer
  (\<open>collect_write_queue.go\<close>).

  The state holds the two tables: \<open>data_cache\<close> with the latest value of each field and \<open>data_points\<close>
  with the history. An SQL statement is read by its documented meaning: it is atomic, \<open>ON CONFLICT DO UPDATE\<close>
  changes the row with the key, \<open>INSERT OR REPLACE\<close> removes the rows in conflict and \<open>INSERT\<close>
  fails on a conflict. What the engine decides is a field of \<open>sqlEnv\<close>: whether the k-th statement fails when it
  is prepared or executed, \<open>CURRENT_TIMESTAMP\<close> for it, the next identifier of an \<open>AUTOINCREMENT\<close>
  column and the order of rows with equal time stamps in \<open>ORDER BY\<close>. An error is the text the code puts
  before the engine's message. A Go map is a list with distinct keys in the order of its iteration.
\<close>

section \<open>The tables\<close>

record DataCache =
  dc_ID :: int
  dc_DeviceID :: int
  dc_FieldName :: string
  dc_Value :: string
  dc_ValueType :: string
  dc_CollectedAt :: gotime

record DataPoint =
  hp_ID :: int
  hp_DeviceID :: int
  hp_DeviceName :: string
  hp_FieldName :: string
  hp_Value :: string
  hp_ValueType :: string
  hp_CollectedAt :: gotime

record DataPointEntry =
  de_DeviceID :: int
  de_DeviceName :: string
  de_FieldName :: string
  de_Value :: string
  de_ValueType :: string
  de_CollectedAt :: gotime

text \<open>The tables, the counters of the package and the number of statements so far.\<close>

record dataStore =
  ds_cache :: "DataCache list"
  ds_cacheSeq :: int
  ds_points :: "DataPoint list"
  ds_pointsSeq :: int
  ds_execs :: nat
  ds_cacheWrites :: nat
  ds_cacheLastCleanup :: int
  ds_pointWrites :: nat
  ds_pointLastCleanup :: int
  ds_pending :: int
  ds_dirty :: bool
  ds_syncTriggered :: bool

datatype sqlFault = AtPrepare | AtExec

record sqlEnv =
  se_lib :: golib
  se_fault :: "nat \<Rightarrow> sqlFault option"
  se_timestamp :: "nat \<Rightarrow> gotime"
  se_unixNano :: "nat \<Rightarrow> int"
  se_newID :: "int \<Rightarrow> int"
  se_ascending :: "(int \<times> gotime) list \<Rightarrow> int list"
  se_descending :: "(int \<times> gotime) list \<Rightarrow> int list"
  se_maxDataPointsLimit :: int
  se_maxDataCacheLimit :: int
  se_syncBatchTrigger :: int

type_synonym 'a fallible = "string + 'a"

text \<open>One statement: it may fail when prepared or executed; \<open>None\<close> from its meaning is a violated constraint.\<close>

definition execStmt ::
  "sqlEnv \<Rightarrow> string \<Rightarrow> string \<Rightarrow> (gotime \<Rightarrow> dataStore \<Rightarrow> dataStore option) \<Rightarrow> dataStore \<Rightarrow> string option \<times> dataStore" where
  "execStmt V prepareError execError stmt s =
     (let k = ds_execs s; s = s\<lparr>ds_execs := Suc k\<rparr>
      in case se_fault V k of
           Some AtPrepare \<Rightarrow> (Some prepareError, s)
         | Some AtExec \<Rightarrow> (Some execError, s)
         | None \<Rightarrow> (case stmt (se_timestamp V k) s of None \<Rightarrow> (Some execError, s) | Some s' \<Rightarrow> (None, s')))"

definition rollback :: "dataStore \<Rightarrow> dataStore \<Rightarrow> dataStore" where
  "rollback before s =
     s\<lparr>ds_cache := ds_cache before, ds_cacheSeq := ds_cacheSeq before,
       ds_points := ds_points before, ds_pointsSeq := ds_pointsSeq before\<rparr>"

definition inTransaction ::
  "sqlEnv \<Rightarrow> string \<Rightarrow> string \<Rightarrow> (dataStore \<Rightarrow> 'a fallible \<times> dataStore) \<Rightarrow> dataStore \<Rightarrow> 'a fallible \<times> dataStore" where
  "inTransaction V beginError commitError body s =
     (case execStmt V beginError beginError (\<lambda>_. Some) s of
        (Some e, s) \<Rightarrow> (Inl e, s)
      | (None, before) \<Rightarrow>
          (case body before of
             (Inl e, s) \<Rightarrow> (Inl e, rollback before s)
           | (Inr x, s) \<Rightarrow>
               (case execStmt V commitError commitError (\<lambda>_. Some) s of
                  (Some e, s) \<Rightarrow> (Inl e, rollback before s)
                | (None, s) \<Rightarrow> (Inr x, s))))"

section \<open>The statements\<close>

text \<open>The arguments of a row: device, field, value and value type; a statement for strings has the type in its text.\<close>

type_synonym cacheArg = "int \<times> string \<times> string \<times> string"

fun upsertCache :: "sqlEnv \<Rightarrow> gotime \<Rightarrow> cacheArg \<Rightarrow> dataStore \<Rightarrow> dataStore" where
  "upsertCache V now (d, f, v, t) s =
     (if \<exists>r \<in> set (ds_cache s). dc_DeviceID r = d \<and> dc_FieldName r = f
      then s\<lparr>ds_cache := map (\<lambda>r. if dc_DeviceID r = d \<and> dc_FieldName r = f
               then r\<lparr>dc_Value := v, dc_ValueType := t, dc_CollectedAt := now\<rparr> else r) (ds_cache s)\<rparr>
      else let i = se_newID V (ds_cacheSeq s)
           in s\<lparr>ds_cache := ds_cache s @ [\<lparr>dc_ID = i, dc_DeviceID = d, dc_FieldName = f, dc_Value = v, dc_ValueType = t,
                  dc_CollectedAt = now\<rparr>], ds_cacheSeq := i\<rparr>)"

definition cacheBatch :: "sqlEnv \<Rightarrow> cacheArg list \<Rightarrow> gotime \<Rightarrow> dataStore \<Rightarrow> dataStore option" where
  "cacheBatch V args now s = Some (fold (upsertCache V now) args s)"

text \<open>The arguments of a history row: device, its name, field, value, value type, time.\<close>

type_synonym pointArg = "int \<times> string \<times> string \<times> string \<times> string \<times> gotime"

definition pointConflict :: "int \<Rightarrow> string \<Rightarrow> gotime \<Rightarrow> DataPoint \<Rightarrow> bool" where
  "pointConflict d f at r \<longleftrightarrow> hp_DeviceID r = d \<and> hp_FieldName r = f \<and> hp_CollectedAt r = at"

fun appendPoint :: "sqlEnv \<Rightarrow> pointArg \<Rightarrow> dataStore \<Rightarrow> dataStore" where
  "appendPoint V (d, n, f, v, t, at) s =
     (let i = se_newID V (ds_pointsSeq s)
      in s\<lparr>ds_points := ds_points s @ [\<lparr>hp_ID = i, hp_DeviceID = d, hp_DeviceName = n, hp_FieldName = f, hp_Value = v,
             hp_ValueType = t, hp_CollectedAt = at\<rparr>], ds_pointsSeq := i\<rparr>)"

fun replacePoint :: "sqlEnv \<Rightarrow> pointArg \<Rightarrow> dataStore \<Rightarrow> dataStore" where
  "replacePoint V (d, n, f, v, t, at) s =
     appendPoint V (d, n, f, v, t, at) (s\<lparr>ds_points := filter (\<lambda>r. \<not> pointConflict d f at r) (ds_points s)\<rparr>)"

fun insertPoint :: "sqlEnv \<Rightarrow> pointArg \<Rightarrow> dataStore \<Rightarrow> dataStore option" where
  "insertPoint V (d, n, f, v, t, at) s =
     (if list_ex (pointConflict d f at) (ds_points s) then None else Some (appendPoint V (d, n, f, v, t, at) s))"

text \<open>\<open>INSERT OR REPLACE\<close> with \<open>CURRENT_TIMESTAMP\<close>, and \<open>INSERT\<close> with given instants.\<close>

definition replaceBatch ::
  "sqlEnv \<Rightarrow> (int \<times> string \<times> string \<times> string \<times> string) list \<Rightarrow> gotime \<Rightarrow> dataStore \<Rightarrow> dataStore option" where
  "replaceBatch V args now s = Some (fold (\<lambda>(d, n, f, v, t). replacePoint V (d, n, f, v, t, now)) args s)"

fun insertBatch :: "sqlEnv \<Rightarrow> pointArg list \<Rightarrow> dataStore \<Rightarrow> dataStore option" where
  "insertBatch V [] s = Some s"
| "insertBatch V (a # as) s = (case insertPoint V a s of None \<Rightarrow> None | Some s' \<Rightarrow> insertBatch V as s')"

text \<open>The loops that collect rows into an argument list and execute a statement for every full batch.\<close>

fun batchLoop ::
  "nat \<Rightarrow> ('r list \<Rightarrow> dataStore \<Rightarrow> string option \<times> dataStore) \<Rightarrow> 'r list \<Rightarrow> 'r list \<Rightarrow> dataStore \<Rightarrow> string option \<times> dataStore" where
  "batchLoop cap flush batch [] s = (if batch = [] then (None, s) else flush batch s)"
| "batchLoop cap flush batch (r # rs) s =
     (let batch = batch @ [r]
      in if length batch < cap then batchLoop cap flush batch rs s
         else case flush batch s of
                (Some e, s) \<Rightarrow> (Some e, s)
              | (None, s) \<Rightarrow> batchLoop cap flush [] rs s)"

definition collectDataCacheBatchSize :: nat where "collectDataCacheBatchSize = 100"
definition collectDataHistoryBatchSize :: nat where "collectDataHistoryBatchSize = 100"
definition collectDataValueTypeString :: string where "collectDataValueTypeString = ''string''"

section \<open>The text of the statements\<close>

text \<open>\<open>append*ValuesSQL\<close>: the tuple for every row, separated by commas.\<close>

fun appendValuesSQL :: "string \<Rightarrow> string \<Rightarrow> nat \<Rightarrow> nat \<Rightarrow> string" where
  "appendValuesSQL tuple dst i 0 = dst"
| "appendValuesSQL tuple dst i (Suc n) = appendValuesSQL tuple (dst @ (if i > 0 then '','' else []) @ tuple) (Suc i) n"

definition appendCollectDataCacheValuesSQL :: "string \<Rightarrow> nat \<Rightarrow> string" where
  "appendCollectDataCacheValuesSQL dst n = appendValuesSQL ''(?, ?, ?, ?, CURRENT_TIMESTAMP)'' dst 0 n"
definition appendCollectDataCacheStringValuesSQL :: "string \<Rightarrow> nat \<Rightarrow> string" where
  "appendCollectDataCacheStringValuesSQL dst n =
     appendValuesSQL (''(?, ?, ?, '' @ [CHR 0x27] @ ''string'' @ [CHR 0x27] @ '', CURRENT_TIMESTAMP)'') dst 0 n"
definition appendCollectDataHistoryValuesSQL :: "string \<Rightarrow> nat \<Rightarrow> string" where
  "appendCollectDataHistoryValuesSQL dst n = appendValuesSQL ''(?, ?, ?, ?, ?, CURRENT_TIMESTAMP)'' dst 0 n"
definition appendCollectDataHistoryStringValuesSQL :: "string \<Rightarrow> nat \<Rightarrow> string" where
  "appendCollectDataHistoryStringValuesSQL dst n =
     appendValuesSQL (''(?, ?, ?, ?, '' @ [CHR 0x27] @ ''string'' @ [CHR 0x27] @ '', CURRENT_TIMESTAMP)'') dst 0 n"
definition appendDataPointValuesSQL :: "string \<Rightarrow> nat \<Rightarrow> string" where
  "appendDataPointValuesSQL dst n = appendValuesSQL ''(?, ?, ?, ?, ?, ?)'' dst 0 n"
definition appendDataPointStringValuesSQL :: "string \<Rightarrow> nat \<Rightarrow> string" where
  "appendDataPointStringValuesSQL dst n =
     appendValuesSQL (''(?, ?, ?, ?, '' @ [CHR 0x27] @ ''string'' @ [CHR 0x27] @ '', ?)'') dst 0 n"

definition insertCacheText :: string where
  "insertCacheText = ''INSERT INTO data_cache (device_id, field_name, value, value_type, collected_at) VALUES ''"
definition replacePointText :: string where
  "replacePointText = ''INSERT OR REPLACE INTO data_points (device_id, device_name, field_name, value, value_type, collected_at) VALUES ''"
definition insertPointText :: string where
  "insertPointText = ''INSERT INTO data_points (device_id, device_name, field_name, value, value_type, collected_at) VALUES ''"

definition buildCollectDataCacheBatchSQL :: "nat \<Rightarrow> string" where
  "buildCollectDataCacheBatchSQL n =
     (if n = 0 then [] else appendCollectDataCacheValuesSQL insertCacheText n @
        '' ON CONFLICT(device_id, field_name) DO UPDATE SET value = excluded.value, value_type = excluded.value_type, collected_at = CURRENT_TIMESTAMP'')"
definition buildCollectDataCacheStringBatchSQL :: "nat \<Rightarrow> string" where
  "buildCollectDataCacheStringBatchSQL n =
     (if n = 0 then [] else appendCollectDataCacheStringValuesSQL insertCacheText n @
        '' ON CONFLICT(device_id, field_name) DO UPDATE SET value = excluded.value, value_type = '' @
        [CHR 0x27] @ ''string'' @ [CHR 0x27] @ '', collected_at = CURRENT_TIMESTAMP'')"
definition buildCollectDataHistoryBatchSQL :: "nat \<Rightarrow> string" where
  "buildCollectDataHistoryBatchSQL n = (if n = 0 then [] else appendCollectDataHistoryValuesSQL replacePointText n)"
definition buildCollectDataHistoryStringBatchSQL :: "nat \<Rightarrow> string" where
  "buildCollectDataHistoryStringBatchSQL n = (if n = 0 then [] else appendCollectDataHistoryStringValuesSQL replacePointText n)"
definition buildDataPointBatchSQL :: "nat \<Rightarrow> string" where
  "buildDataPointBatchSQL n = (if n = 0 then [] else appendDataPointValuesSQL insertPointText n)"
definition buildDataPointStringBatchSQL :: "nat \<Rightarrow> string" where
  "buildDataPointStringBatchSQL n = (if n = 0 then [] else appendDataPointStringValuesSQL insertPointText n)"
definition buildLatestDataPointBatchSQL :: "nat \<Rightarrow> string" where
  "buildLatestDataPointBatchSQL n = (if n = 0 then [] else appendCollectDataHistoryValuesSQL replacePointText n)"
definition buildLatestDataPointStringBatchSQL :: "nat \<Rightarrow> string" where
  "buildLatestDataPointStringBatchSQL n = (if n = 0 then [] else appendCollectDataHistoryStringValuesSQL replacePointText n)"

text \<open>The cache of the statement texts by their number of rows.\<close>

definition sqlCacheGet :: "(nat \<Rightarrow> string) \<Rightarrow> nat \<Rightarrow> (nat \<rightharpoonup> string) \<Rightarrow> string \<times> (nat \<rightharpoonup> string)" where
  "sqlCacheGet builder n c =
     (if n = 0 then ([], c)
      else case c n of Some t \<Rightarrow> (t, c) | None \<Rightarrow> (builder n, c(n \<mapsto> builder n)))"
section \<open>The rows of a sample\<close>

definition normalizeDeviceName :: "int \<Rightarrow> string \<Rightarrow> string" where
  "normalizeDeviceName deviceID deviceName =
     (if deviceID = SystemStatsDeviceID then SystemStatsDeviceName else TrimSpace deviceName)"

definition normalizedCollectDataValueType :: "string \<Rightarrow> string" where
  "normalizedCollectDataValueType valueType = (if valueType = [] then collectDataValueTypeString else valueType)"

definition allEntriesUseDefaultCollectDataValueType :: "DataPointEntry list \<Rightarrow> bool" where
  "allEntriesUseDefaultCollectDataValueType entries \<longleftrightarrow>
     \<not> list_ex (\<lambda>e. de_ValueType e \<noteq> [] \<and> de_ValueType e \<noteq> collectDataValueTypeString) entries"

text \<open>The trimmed names of the points, computed only if one differs from the name as it is: \<open>None\<close> is the nil
  slice. \<open>seen\<close> are the points before, \<open>names\<close> the part of the slice filled so far.\<close>

fun normalizeNamesLoop ::
  "CollectPoint list \<Rightarrow> CollectPoint list \<Rightarrow> string list option \<Rightarrow> nat \<Rightarrow> string list option \<times> nat" where
  "normalizeNamesLoop seen [] names validCount = (names, validCount)"
| "normalizeNamesLoop seen (point # points) names validCount =
     (let name = trimDataPointFieldName (cp_FieldName point)
      in if name = []
         then normalizeNamesLoop (seen @ [point]) points
                (Some ((case names of None \<Rightarrow> map cp_FieldName seen | Some ns \<Rightarrow> ns) @ [[]])) validCount
         else normalizeNamesLoop (seen @ [point]) points
                (case names of
                   Some ns \<Rightarrow> Some (ns @ [name])
                 | None \<Rightarrow> if name \<noteq> cp_FieldName point then Some (map cp_FieldName seen @ [name]) else None)
                (Suc validCount))"

definition normalizeCollectPointFieldNames :: "CollectPoint list \<Rightarrow> string list option \<times> nat" where
  "normalizeCollectPointFieldNames points =
     (if points = [] then (None, 0) else normalizeNamesLoop [] points None 0)"

definition normalizedCollectPointFieldName :: "CollectPoint list \<Rightarrow> string list option \<Rightarrow> nat \<Rightarrow> string" where
  "normalizedCollectPointFieldName points names i =
     (case names of Some ns \<Rightarrow> ns ! i | None \<Rightarrow> cp_FieldName (points ! i))"

text \<open>The field names that a point overrides, without repetition; the empty list is the nil map.\<close>

definition collectOverriddenPointFieldNames :: "fieldMap \<Rightarrow> CollectPoint list \<Rightarrow> string list option \<Rightarrow> string list" where
  "collectOverriddenPointFieldNames fs points names =
     (if fs = [] \<or> points = [] then []
      else fold (\<lambda>i acc. let name = normalizedCollectPointFieldName points names i
                          in if name = [] \<or> name \<notin> set (map fst fs) then acc else List.insert name acc)
             [0..<length points] [])"

record collectDataCacheShape =
  sh_normalizedPointFields :: "string list option"
  sh_pointFieldNames :: "string list"
  sh_allFieldsOverridden :: bool
  sh_rows :: nat

definition buildCollectDataCacheShape :: "CollectData option \<Rightarrow> collectDataCacheShape" where
  "buildCollectDataCacheShape data =
     (case data of
        None \<Rightarrow> \<lparr>sh_normalizedPointFields = None, sh_pointFieldNames = [], sh_allFieldsOverridden = False, sh_rows = 0\<rparr>
      | Some d \<Rightarrow>
          let (names, validPointCount) = normalizeCollectPointFieldNames (cd_Points d);
              overridden = collectOverriddenPointFieldNames (cd_Fields d) (cd_Points d) names;
              all = (cd_Fields d \<noteq> [] \<and> length overridden = length (cd_Fields d));
              rows = (if all then validPointCount
                      else validPointCount + length (filter (\<lambda>(f, v). f \<notin> set overridden) (cd_Fields d)))
          in \<lparr>sh_normalizedPointFields = names, sh_pointFieldNames = overridden, sh_allFieldsOverridden = all,
              sh_rows = rows\<rparr>)"

definition countCollectDataCacheRows :: "CollectData option \<Rightarrow> nat" where
  "countCollectDataCacheRows data = sh_rows (buildCollectDataCacheShape data)"

definition appendCollectDataCacheStringArg :: "cacheArg list \<Rightarrow> int \<Rightarrow> string \<Rightarrow> string \<Rightarrow> cacheArg list" where
  "appendCollectDataCacheStringArg dst deviceID field v = dst @ [(deviceID, field, v, collectDataValueTypeString)]"

text \<open>The two loops over the fields and over the points of a sample, as the rows they visit.\<close>

definition fieldRows :: "CollectData \<Rightarrow> collectDataCacheShape \<Rightarrow> (string \<times> string) list" where
  "fieldRows d shape =
     (if sh_allFieldsOverridden shape then []
      else filter (\<lambda>(f, v). f \<notin> set (sh_pointFieldNames shape)) (cd_Fields d))"

definition pointRows :: "golib \<Rightarrow> CollectData \<Rightarrow> string list option \<Rightarrow> (string \<times> string) list" where
  "pointRows L d names =
     concat (map (\<lambda>i. let field = normalizedCollectPointFieldName (cd_Points d) names i
                      in if field = [] then [] else [(field, CollectPointValueString L (cp_Value (cd_Points d ! i)))])
              [0..<length (cd_Points d)])"

definition appendCollectDataCacheArgsForDataWithShape ::
  "golib \<Rightarrow> cacheArg list \<Rightarrow> CollectData option \<Rightarrow> collectDataCacheShape \<Rightarrow> cacheArg list" where
  "appendCollectDataCacheArgsForDataWithShape L dst data shape =
     (case data of
        None \<Rightarrow> dst
      | Some d \<Rightarrow>
          foldl (\<lambda>dst (f, v). appendCollectDataCacheStringArg dst (cd_DeviceID d) f v) dst
            (fieldRows d shape @ pointRows L d (sh_normalizedPointFields shape)))"

definition appendCollectDataCacheArgsForData :: "golib \<Rightarrow> cacheArg list \<Rightarrow> CollectData option \<Rightarrow> cacheArg list" where
  "appendCollectDataCacheArgsForData L dst data =
     (case data of
        None \<Rightarrow> dst
      | Some d \<Rightarrow>
          if cd_Points d = []
          then foldl (\<lambda>dst (f, v). appendCollectDataCacheStringArg dst (cd_DeviceID d) f v) dst (cd_Fields d)
          else appendCollectDataCacheArgsForDataWithShape L dst data (buildCollectDataCacheShape data))"

section \<open>Writing the latest values\<close>

definition executeCacheStatement :: "sqlEnv \<Rightarrow> cacheArg list \<Rightarrow> dataStore \<Rightarrow> string option \<times> dataStore" where
  "executeCacheStatement V args =
     execStmt V ''failed to prepare data cache batch statement'' ''failed to upsert data cache batch'' (cacheBatch V args)"

definition executeCacheSingle :: "sqlEnv \<Rightarrow> cacheArg \<Rightarrow> dataStore \<Rightarrow> string option \<times> dataStore" where
  "executeCacheSingle V arg =
     execStmt V ''failed to prepare data cache statement'' ''failed to upsert data cache batch'' (cacheBatch V [arg])"

text \<open>\<open>insertCollectDataCacheDirect\<close>: at most one statement. The points of a sample without fields are counted up to two.\<close>

definition validPoints :: "golib \<Rightarrow> CollectPoint list \<Rightarrow> (string \<times> string) list" where
  "validPoints L points =
     concat (map (\<lambda>p. let field = trimDataPointFieldName (cp_FieldName p)
                      in if field = [] then [] else [(field, CollectPointValueString L (cp_Value p))]) points)"

definition insertCollectDataCacheDirect ::
  "sqlEnv \<Rightarrow> CollectData option \<Rightarrow> dataStore \<Rightarrow> string option \<times> dataStore" where
  "insertCollectDataCacheDirect V data s =
     (case data of
        None \<Rightarrow> (None, s)
      | Some d \<Rightarrow>
          let L = se_lib V; batch = (\<lambda>s.
            if length (cd_Fields d) + length (cd_Points d) \<le> 0 then (None, s)
            else let args = appendCollectDataCacheArgsForData L [] data
                 in if args = [] then (None, s) else executeCacheStatement V args s)
          in if length (cd_Fields d) = 1 \<and> cd_Points d = []
             then (case cd_Fields d of
                     (f, v) # _ \<Rightarrow> executeCacheSingle V (cd_DeviceID d, f, v, collectDataValueTypeString) s
                   | [] \<Rightarrow> batch s)
             else if cd_Fields d = []
             then (case validPoints L (cd_Points d) of
                     [] \<Rightarrow> (None, s)
                   | [(f, v)] \<Rightarrow> executeCacheSingle V (cd_DeviceID d, f, v, collectDataValueTypeString) s
                   | _ \<Rightarrow> batch s)
             else batch s)"

definition insertCollectDataCacheChunkedDirect ::
  "sqlEnv \<Rightarrow> CollectData option \<Rightarrow> dataStore \<Rightarrow> string option \<times> dataStore" where
  "insertCollectDataCacheChunkedDirect V data s =
     (case data of
        None \<Rightarrow> (None, s)
      | Some d \<Rightarrow>
          let arg = (\<lambda>(f, v). (cd_DeviceID d, f, v, collectDataValueTypeString));
              run = (\<lambda>rows. batchLoop collectDataCacheBatchSize (executeCacheStatement V) [] (map arg rows) s)
          in if cd_Points d = [] then run (cd_Fields d)
             else if cd_Fields d = [] then run (validPoints (se_lib V) (cd_Points d))
             else let shape = buildCollectDataCacheShape data
                  in run (fieldRows d shape @ pointRows (se_lib V) d (sh_normalizedPointFields shape)))"

section \<open>Writing values and history in a transaction\<close>

definition executeCollectDataCacheBatchWithArgs ::
  "sqlEnv \<Rightarrow> cacheArg list \<Rightarrow> dataStore \<Rightarrow> string option \<times> dataStore" where
  "executeCollectDataCacheBatchWithArgs V args s = (if args = [] then (None, s) else executeCacheStatement V args s)"

definition executeCollectDataHistoryBatchWithArgs ::
  "sqlEnv \<Rightarrow> (gotime \<Rightarrow> dataStore \<Rightarrow> dataStore option) \<Rightarrow> nat \<Rightarrow> dataStore \<Rightarrow> string option \<times> dataStore" where
  "executeCollectDataHistoryBatchWithArgs V stmt n s =
     (if n = 0 then (None, s)
      else execStmt V ''failed to prepare data point batch statement'' ''failed to upsert data point batch'' stmt s)"

text \<open>The rows of a batch are the fields with their values; both argument lists are built from them.\<close>

definition flushCollectDataArgs ::
  "sqlEnv \<Rightarrow> int \<Rightarrow> string \<Rightarrow> bool \<Rightarrow> (string \<times> string) list \<Rightarrow> dataStore \<Rightarrow> string option \<times> dataStore" where
  "flushCollectDataArgs V deviceID deviceName storeHistory rows s =
     (if rows = [] then (None, s)
      else case executeCollectDataCacheBatchWithArgs V
                  (map (\<lambda>(f, v). (deviceID, f, v, collectDataValueTypeString)) rows) s of
             (Some e, s) \<Rightarrow> (Some e, s)
           | (None, s) \<Rightarrow>
               if storeHistory
               then executeCollectDataHistoryBatchWithArgs V
                      (replaceBatch V (map (\<lambda>(f, v). (deviceID, deviceName, f, v, collectDataValueTypeString)) rows))
                      (length rows) s
               else (None, s))"

definition insertCollectDataWithOptionsTx ::
  "sqlEnv \<Rightarrow> CollectData option \<Rightarrow> bool \<Rightarrow> dataStore \<Rightarrow> nat fallible \<times> dataStore" where
  "insertCollectDataWithOptionsTx V data storeHistory s =
     (case data of
        None \<Rightarrow> (Inl ''collect data is nil'', s)
      | Some d \<Rightarrow>
          if cd_Fields d = [] \<and> cd_Points d = [] then (Inr 0, s)
          else let deviceName = (if storeHistory then normalizeDeviceName (cd_DeviceID d) (cd_DeviceName d) else []);
                   batchSize = (if storeHistory \<and> collectDataHistoryBatchSize < collectDataCacheBatchSize
                                then collectDataHistoryBatchSize else collectDataCacheBatchSize);
                   names = fst (normalizeCollectPointFieldNames (cd_Points d));
                   overridden = collectOverriddenPointFieldNames (cd_Fields d) (cd_Points d) names;
                   all = (cd_Fields d \<noteq> [] \<and> length overridden = length (cd_Fields d));
                   rows = (if cd_Points d = [] then cd_Fields d
                           else (if all then [] else filter (\<lambda>(f, v). f \<notin> set overridden) (cd_Fields d)) @
                                pointRows (se_lib V) d names)
               in (case batchLoop batchSize (flushCollectDataArgs V (cd_DeviceID d) deviceName storeHistory) [] rows s of
                     (Some e, s) \<Rightarrow> (Inl e, s)
                   | (None, s) \<Rightarrow> (Inr (if storeHistory then length rows else 0), s)))"

section \<open>Size limits and the trigger of the synchronisation\<close>

definition cleanupEveryWrites :: nat where "cleanupEveryWrites = 128"
definition cleanupMinInterval :: int where "cleanupMinInterval = 2000000000"

definition enforceDataCacheLimit :: "sqlEnv \<Rightarrow> dataStore \<Rightarrow> dataStore" where
  "enforceDataCacheLimit V s =
     (case execStmt V [] [] (\<lambda>_. Some) s of
        (Some e, s) \<Rightarrow> s
      | (None, s) \<Rightarrow>
          let count = int (length (ds_cache s))
          in if count > se_maxDataCacheLimit V
             then snd (execStmt V [] []
               (\<lambda>_ s. let ids = take (nat (count - se_maxDataCacheLimit V))
                                     (se_ascending V (map (\<lambda>r. (dc_ID r, dc_CollectedAt r)) (ds_cache s)))
                      in Some (s\<lparr>ds_cache := filter (\<lambda>r. dc_ID r \<notin> set ids) (ds_cache s)\<rparr>)) s)
             else s)"

definition maybeEnforceDataCacheLimit :: "sqlEnv \<Rightarrow> dataStore \<Rightarrow> dataStore" where
  "maybeEnforceDataCacheLimit V s =
     (if se_maxDataCacheLimit V \<le> 0 then s
      else let writes = (ds_cacheWrites s + 1) mod 2 ^ 64; s = s\<lparr>ds_cacheWrites := writes\<rparr>;
               last = ds_cacheLastCleanup s; now = se_unixNano V (ds_execs s)
           in if writes mod cleanupEveryWrites \<noteq> 0
              then (if last = 0 then s
                    else if wrap64 (now - last) < cleanupMinInterval then s
                    else enforceDataCacheLimit V (s\<lparr>ds_cacheLastCleanup := now\<rparr>))
              else enforceDataCacheLimit V (s\<lparr>ds_cacheLastCleanup := now\<rparr>))"

definition enforceDataPointsLimit :: "sqlEnv \<Rightarrow> dataStore \<Rightarrow> dataStore" where
  "enforceDataPointsLimit V s =
     (case execStmt V [] [] (\<lambda>_. Some) s of
        (Some e, s) \<Rightarrow> s
      | (None, s) \<Rightarrow>
          let count = int (length (ds_points s))
          in if count > se_maxDataPointsLimit V
             then snd (execStmt V [] []
               (\<lambda>_ s. let ids = take (nat (count - se_maxDataPointsLimit V))
                                     (se_ascending V (map (\<lambda>r. (hp_ID r, hp_CollectedAt r)) (ds_points s)))
                      in Some (s\<lparr>ds_points := filter (\<lambda>r. hp_ID r \<notin> set ids) (ds_points s)\<rparr>)) s)
             else s)"

definition maybeEnforceDataPointsLimit :: "sqlEnv \<Rightarrow> dataStore \<Rightarrow> dataStore" where
  "maybeEnforceDataPointsLimit V s =
     (if se_maxDataPointsLimit V \<le> 0 then s
      else let writes = (ds_pointWrites s + 1) mod 2 ^ 64; s = s\<lparr>ds_pointWrites := writes\<rparr>;
               last = ds_pointLastCleanup s; now = se_unixNano V (ds_execs s)
           in if writes mod cleanupEveryWrites \<noteq> 0
              then (if last = 0 then s
                    else if wrap64 (now - last) < cleanupMinInterval then s
                    else enforceDataPointsLimit V (s\<lparr>ds_pointLastCleanup := now\<rparr>))
              else enforceDataPointsLimit V (s\<lparr>ds_pointLastCleanup := now\<rparr>))"

definition noteHistoryRowsWritten :: "int \<Rightarrow> dataStore \<Rightarrow> dataStore" where
  "noteHistoryRowsWritten n s =
     (if n \<le> 0 then s else s\<lparr>ds_pending := wrap64 (ds_pending s + n), ds_dirty := True\<rparr>)"

definition resetPendingHistoryRowsForSync :: "int \<Rightarrow> dataStore \<Rightarrow> dataStore" where
  "resetPendingHistoryRowsForSync n s = s\<lparr>ds_pending := (if n < 0 then 0 else n), ds_dirty := False\<rparr>"

text \<open>The goroutine of the synchronisation is started: \<open>ds_syncTriggered\<close> holds until it ends.\<close>

definition triggerDataSyncAsync :: "dataStore \<Rightarrow> bool \<times> dataStore" where
  "triggerDataSyncAsync s = (if ds_syncTriggered s then (False, s) else (True, s\<lparr>ds_syncTriggered := True\<rparr>))"

definition TriggerSyncIfNeeded :: "sqlEnv \<Rightarrow> dataStore \<Rightarrow> bool \<times> dataStore" where
  "TriggerSyncIfNeeded V s =
     (if se_syncBatchTrigger V \<le> 0 then triggerDataSyncAsync s
      else if ds_dirty s \<and> ds_pending s > 0 \<and> ds_pending s < se_syncBatchTrigger V then (False, s)
      else case execStmt V [] [] (\<lambda>_. Some) s of
             (Some e, s) \<Rightarrow> (False, s)
           | (None, s) \<Rightarrow>
               let count = int (length (ds_points s)); s = s\<lparr>ds_pending := count, ds_dirty := False\<rparr>
               in if count \<ge> se_syncBatchTrigger V then triggerDataSyncAsync s else (False, s))"

text \<open>What follows a write of history rows.\<close>

definition afterHistoryWrite :: "sqlEnv \<Rightarrow> nat \<Rightarrow> dataStore \<Rightarrow> dataStore" where
  "afterHistoryWrite V n s = snd (TriggerSyncIfNeeded V (maybeEnforceDataPointsLimit V (noteHistoryRowsWritten (int n) s)))"

definition InsertCollectDataWithOptions ::
  "sqlEnv \<Rightarrow> CollectData option \<Rightarrow> bool \<Rightarrow> dataStore \<Rightarrow> string option \<times> dataStore" where
  "InsertCollectDataWithOptions V data storeHistory s =
     (case data of
        None \<Rightarrow> (Some ''collect data is nil'', s)
      | Some d \<Rightarrow>
          if cd_Fields d = [] \<and> cd_Points d = [] then (None, s)
          else if \<not> storeHistory
          then (case (if countCollectDataCacheRows data \<le> collectDataCacheBatchSize
                      then insertCollectDataCacheDirect V data s else insertCollectDataCacheChunkedDirect V data s) of
                  (Some e, s) \<Rightarrow> (Some e, s)
                | (None, s) \<Rightarrow> (None, maybeEnforceDataCacheLimit V s))
          else (case inTransaction V ''failed to begin collect data transaction'' ''failed to commit collect data transaction''
                       (insertCollectDataWithOptionsTx V data storeHistory) s of
                  (Inl e, s) \<Rightarrow> (Some e, s)
                | (Inr historyCount, s) \<Rightarrow>
                    let s = maybeEnforceDataCacheLimit V s
                    in (None, if storeHistory \<and> historyCount > 0 then afterHistoryWrite V historyCount s else s)))"

definition InsertCollectData :: "sqlEnv \<Rightarrow> CollectData option \<Rightarrow> dataStore \<Rightarrow> string option \<times> dataStore" where
  "InsertCollectData V data = InsertCollectDataWithOptions V data True"

section \<open>Saving entries\<close>

text \<open>The functions that save given entries. The statement for a default value type has the type in its text and the
  one for other types as an argument; both store the normalised type.\<close>

definition entryCacheArg :: "bool \<Rightarrow> DataPointEntry \<Rightarrow> cacheArg" where
  "entryCacheArg defaultValueType e =
     (de_DeviceID e, de_FieldName e, de_Value e,
      if defaultValueType then collectDataValueTypeString else normalizedCollectDataValueType (de_ValueType e))"

definition SaveDataCache :: "sqlEnv \<Rightarrow> int \<Rightarrow> string \<Rightarrow> string \<Rightarrow> string \<Rightarrow> string \<Rightarrow> dataStore \<Rightarrow> string option \<times> dataStore" where
  "SaveDataCache V deviceID deviceName fieldName v valueType s =
     (case execStmt V [] [] (cacheBatch V [(deviceID, fieldName, v, normalizedCollectDataValueType valueType)]) s of
        (Some e, s) \<Rightarrow> (Some e, s)
      | (None, s) \<Rightarrow> (None, maybeEnforceDataCacheLimit V s))"

definition batchSaveDataCacheEntriesDirect ::
  "sqlEnv \<Rightarrow> DataPointEntry list \<Rightarrow> bool \<Rightarrow> dataStore \<Rightarrow> string option \<times> dataStore" where
  "batchSaveDataCacheEntriesDirect V entries defaultValueType =
     execStmt V [] [] (cacheBatch V (map (entryCacheArg defaultValueType) entries))"

definition batchSaveDataCacheEntriesChunkedDirect ::
  "sqlEnv \<Rightarrow> DataPointEntry list \<Rightarrow> bool \<Rightarrow> dataStore \<Rightarrow> string option \<times> dataStore" where
  "batchSaveDataCacheEntriesChunkedDirect V entries defaultValueType =
     batchLoop collectDataCacheBatchSize (\<lambda>args. execStmt V [] [] (cacheBatch V args)) []
       (map (entryCacheArg defaultValueType) entries)"

definition BatchSaveDataCacheEntries :: "sqlEnv \<Rightarrow> DataPointEntry list \<Rightarrow> dataStore \<Rightarrow> string option \<times> dataStore" where
  "BatchSaveDataCacheEntries V entries s =
     (if entries = [] then (None, s)
      else let defaultValueType = allEntriesUseDefaultCollectDataValueType entries
           in case (if length entries \<le> collectDataCacheBatchSize
                    then batchSaveDataCacheEntriesDirect V entries defaultValueType s
                    else batchSaveDataCacheEntriesChunkedDirect V entries defaultValueType s) of
                (Some e, s) \<Rightarrow> (Some e, s)
              | (None, s) \<Rightarrow> (None, maybeEnforceDataCacheLimit V s))"

definition SaveDataPoint :: "sqlEnv \<Rightarrow> int \<Rightarrow> string \<Rightarrow> string \<Rightarrow> string \<Rightarrow> string \<Rightarrow> dataStore \<Rightarrow> string option \<times> dataStore" where
  "SaveDataPoint V deviceID deviceName fieldName v valueType s =
     (case execStmt V [] [] (\<lambda>now. insertBatch V [(deviceID, normalizeDeviceName deviceID deviceName, fieldName, v,
               normalizedCollectDataValueType valueType, now)]) s of
        (Some e, s) \<Rightarrow> (Some e, s)
      | (None, s) \<Rightarrow> (None, afterHistoryWrite V 1 s))"

definition entryPointArg :: "bool \<Rightarrow> gotime \<Rightarrow> DataPointEntry \<Rightarrow> pointArg" where
  "entryPointArg defaultValueType now e =
     (de_DeviceID e, normalizeDeviceName (de_DeviceID e) (de_DeviceName e), de_FieldName e, de_Value e,
      if defaultValueType then collectDataValueTypeString else normalizedCollectDataValueType (de_ValueType e),
      if IsZero (de_CollectedAt e) then now else de_CollectedAt e)"

definition batchSaveDataPointsDirect ::
  "sqlEnv \<Rightarrow> gotime \<Rightarrow> DataPointEntry list \<Rightarrow> bool \<Rightarrow> dataStore \<Rightarrow> string option \<times> dataStore" where
  "batchSaveDataPointsDirect V now entries defaultValueType =
     execStmt V ''failed to prepare data point batch statement'' ''failed to insert data point batch''
       (\<lambda>_. insertBatch V (map (entryPointArg defaultValueType now) entries))"

text \<open>\<open>now\<close> is the instant of the call.\<close>

definition BatchSaveDataPoints :: "sqlEnv \<Rightarrow> gotime \<Rightarrow> DataPointEntry list \<Rightarrow> dataStore \<Rightarrow> string option \<times> dataStore" where
  "BatchSaveDataPoints V now entries s =
     (if entries = [] then (None, s)
      else let defaultValueType = allEntriesUseDefaultCollectDataValueType entries
           in if length entries \<le> collectDataHistoryBatchSize
              then (case batchSaveDataPointsDirect V now entries defaultValueType s of
                      (Some e, s) \<Rightarrow> (Some e, s)
                    | (None, s) \<Rightarrow> (None, afterHistoryWrite V (length entries) s))
              else (case inTransaction V ''failed to begin transaction'' ''failed to commit transaction''
                           (\<lambda>s. case batchLoop collectDataHistoryBatchSize
                                       (\<lambda>args. execStmt V ''failed to insert data point'' ''failed to insert data point'' (\<lambda>_. insertBatch V args))
                                       [] (map (entryPointArg defaultValueType now) entries) s of
                                  (Some e, s) \<Rightarrow> (Inl e, s) | (None, s) \<Rightarrow> (Inr (), s)) s of
                      (Inl e, s) \<Rightarrow> (Some e, s)
                    | (Inr _, s) \<Rightarrow> (None, afterHistoryWrite V (length entries) s)))"

text \<open>The latest value in the history table: \<open>INSERT OR REPLACE\<close> at the current second.\<close>

definition latestArg :: "bool \<Rightarrow> DataPointEntry \<Rightarrow> int \<times> string \<times> string \<times> string \<times> string" where
  "latestArg defaultValueType e =
     (de_DeviceID e, normalizeDeviceName (de_DeviceID e) (de_DeviceName e), de_FieldName e, de_Value e,
      if defaultValueType then collectDataValueTypeString else normalizedCollectDataValueType (de_ValueType e))"

definition SaveLatestDataPoint :: "sqlEnv \<Rightarrow> int \<Rightarrow> string \<Rightarrow> string \<Rightarrow> string \<Rightarrow> dataStore \<Rightarrow> string option \<times> dataStore" where
  "SaveLatestDataPoint V deviceID deviceName fieldName v =
     execStmt V [] [] (replaceBatch V [(deviceID, normalizeDeviceName deviceID deviceName, fieldName, v, collectDataValueTypeString)])"

definition executeLatest :: "sqlEnv \<Rightarrow> (int \<times> string \<times> string \<times> string \<times> string) list \<Rightarrow> dataStore \<Rightarrow> string option \<times> dataStore" where
  "executeLatest V args =
     execStmt V ''failed to prepare latest data point batch statement'' ''failed to upsert data point batch'' (replaceBatch V args)"

definition batchSaveLatestDataPointsDirect :: "sqlEnv \<Rightarrow> DataPointEntry list \<Rightarrow> dataStore \<Rightarrow> string option \<times> dataStore" where
  "batchSaveLatestDataPointsDirect V entries = executeLatest V (map (latestArg False) entries)"

definition batchSaveLatestDataPointsStringDirect :: "sqlEnv \<Rightarrow> DataPointEntry list \<Rightarrow> dataStore \<Rightarrow> string option \<times> dataStore" where
  "batchSaveLatestDataPointsStringDirect V entries = executeLatest V (map (latestArg True) entries)"

definition latestChunked ::
  "sqlEnv \<Rightarrow> (int \<times> string \<times> string \<times> string \<times> string) list \<Rightarrow> dataStore \<Rightarrow> string option \<times> dataStore" where
  "latestChunked V args s =
     (case inTransaction V ''failed to begin latest data point transaction'' ''failed to commit latest data point transaction''
             (\<lambda>s. case batchLoop collectDataHistoryBatchSize (executeLatest V) [] args s of
                    (Some e, s) \<Rightarrow> (Inl e, s) | (None, s) \<Rightarrow> (Inr (), s)) s of
        (Inl e, s) \<Rightarrow> (Some e, s)
      | (Inr _, s) \<Rightarrow> (None, s))"

definition batchSaveLatestDataPointsChunkedDirect :: "sqlEnv \<Rightarrow> DataPointEntry list \<Rightarrow> dataStore \<Rightarrow> string option \<times> dataStore" where
  "batchSaveLatestDataPointsChunkedDirect V entries = latestChunked V (map (latestArg False) entries)"

definition batchSaveLatestDataPointsStringChunkedDirect :: "sqlEnv \<Rightarrow> DataPointEntry list \<Rightarrow> dataStore \<Rightarrow> string option \<times> dataStore" where
  "batchSaveLatestDataPointsStringChunkedDirect V entries = latestChunked V (map (latestArg True) entries)"

definition BatchSaveLatestDataPoints :: "sqlEnv \<Rightarrow> DataPointEntry list \<Rightarrow> dataStore \<Rightarrow> string option \<times> dataStore" where
  "BatchSaveLatestDataPoints V entries s =
     (if entries = [] then (None, s)
      else if allEntriesUseDefaultCollectDataValueType entries
      then (if length entries \<le> collectDataHistoryBatchSize then batchSaveLatestDataPointsStringDirect V entries s
            else batchSaveLatestDataPointsStringChunkedDirect V entries s)
      else if length entries \<le> collectDataHistoryBatchSize then batchSaveLatestDataPointsDirect V entries s
      else batchSaveLatestDataPointsChunkedDirect V entries s)"

section \<open>The rows of a sample, by reference\<close>

text \<open>The names after trimming, whether or not the fast path applies.\<close>

definition trimmedNames :: "CollectPoint list \<Rightarrow> string list" where
  "trimmedNames points = map (\<lambda>p. trimDataPointFieldName (cp_FieldName p)) points"

lemma trimmedNames_append: "trimmedNames (ps @ qs) = trimmedNames ps @ trimmedNames qs"
  by (simp add: trimmedNames_def)

definition namesOK :: "CollectPoint list \<Rightarrow> string list option \<Rightarrow> bool" where
  "namesOK seen names \<longleftrightarrow> (case names of Some ns \<Rightarrow> ns = trimmedNames seen | None \<Rightarrow> map cp_FieldName seen = trimmedNames seen)"

lemma normalizeNamesLoop_spec:
  "namesOK seen names \<Longrightarrow> normalizeNamesLoop seen points names n = (names', n') \<Longrightarrow>
   namesOK (seen @ points) names' \<and> n' = n + length (filter (\<lambda>m. m \<noteq> []) (trimmedNames points))"
proof (induction points arbitrary: seen names n)
  case Nil
  then show ?case by (simp add: trimmedNames_def)
next
  case (Cons p ps)
  let ?n = "trimDataPointFieldName (cp_FieldName p)"
  show ?case
  proof (cases "?n = []")
    case True
    let ?ns = "Some ((case names of None \<Rightarrow> map cp_FieldName seen | Some ns \<Rightarrow> ns) @ [[]])"
    have ok: "namesOK (seen @ [p]) ?ns"
      using Cons.prems(1) True by (auto simp: namesOK_def trimmedNames_def split: option.splits)
    have run: "normalizeNamesLoop (seen @ [p]) ps ?ns n = (names', n')" using Cons.prems(2) True by simp
    show ?thesis using Cons.IH[OF ok run] True by (simp add: trimmedNames_def)
  next
    case False
    let ?ns = "case names of Some ns \<Rightarrow> Some (ns @ [?n])
      | None \<Rightarrow> if ?n \<noteq> cp_FieldName p then Some (map cp_FieldName seen @ [?n]) else None"
    have ok: "namesOK (seen @ [p]) ?ns"
      using Cons.prems(1) by (auto simp: namesOK_def trimmedNames_def split: option.splits)
    have run: "normalizeNamesLoop (seen @ [p]) ps ?ns (Suc n) = (names', n')" using Cons.prems(2) False by (simp add: Let_def)
    show ?thesis using Cons.IH[OF ok run] False by (simp add: trimmedNames_def)
  qed
qed

lemma normalizeCollectPointFieldNames_spec:
  "namesOK points (fst (normalizeCollectPointFieldNames points)) \<and>
   snd (normalizeCollectPointFieldNames points) = length (filter (\<lambda>m. m \<noteq> []) (trimmedNames points))"
proof (cases "points = []")
  case False
  have "namesOK [] None" by (simp add: namesOK_def trimmedNames_def)
  then show ?thesis
    using normalizeNamesLoop_spec[of "[]" None points 0] False by (cases "normalizeNamesLoop [] points None 0")
      (simp add: normalizeCollectPointFieldNames_def)
qed (simp add: normalizeCollectPointFieldNames_def namesOK_def trimmedNames_def)

lemma normalizedName:
  "namesOK points names \<Longrightarrow> i < length points \<Longrightarrow>
   normalizedCollectPointFieldName points names i = trimDataPointFieldName (cp_FieldName (points ! i))"
proof (cases names)
  case None
  assume "namesOK points names" "i < length points"
  then have "map cp_FieldName points ! i = trimmedNames points ! i" using None by (simp add: namesOK_def)
  with None \<open>i < length points\<close> show ?thesis by (simp add: normalizedCollectPointFieldName_def trimmedNames_def)
qed (simp add: namesOK_def normalizedCollectPointFieldName_def trimmedNames_def)

lemma pointRows_spec: "namesOK (cd_Points d) names \<Longrightarrow> pointRows L d names = validPoints L (cd_Points d)"
proof -
  assume ok: "namesOK (cd_Points d) names"
  have "map (\<lambda>i. let field = normalizedCollectPointFieldName (cd_Points d) names i
      in if field = [] then [] else [(field, CollectPointValueString L (cp_Value (cd_Points d ! i)))]) [0..<length (cd_Points d)] =
    map (\<lambda>i. (\<lambda>p. let field = trimDataPointFieldName (cp_FieldName p)
      in if field = [] then [] else [(field, CollectPointValueString L (cp_Value p))]) (cd_Points d ! i)) [0..<length (cd_Points d)]"
    using normalizedName[OF ok] by (intro map_cong) simp_all
  also have "\<dots> = map (\<lambda>p. let field = trimDataPointFieldName (cp_FieldName p)
      in if field = [] then [] else [(field, CollectPointValueString L (cp_Value p))]) (cd_Points d)"
    using map_nth[of "cd_Points d"] by (metis (no_types, lifting) comp_def list.map_comp map_eq_conv)
  finally show ?thesis by (simp add: pointRows_def validPoints_def)
qed

definition overriding :: "fieldMap \<Rightarrow> CollectPoint list \<Rightarrow> string set" where
  "overriding fs points = set (map fst fs) \<inter> {n \<in> set (trimmedNames points). n \<noteq> []}"

lemma fold_insert_spec:
  "distinct acc \<Longrightarrow> distinct (fold (\<lambda>i acc. if P i then acc else List.insert (g i) acc) is acc) \<and>
   set (fold (\<lambda>i acc. if P i then acc else List.insert (g i) acc) is acc) = set acc \<union> g ` {i \<in> set is. \<not> P i}"
  by (induction "is" arbitrary: acc) (auto simp: distinct_insert)

lemma image_filter_names: "g ` {i \<in> A. \<not> (g i = [] \<or> g i \<notin> K)} = K \<inter> {n \<in> g ` A. n \<noteq> []}"
  by (auto simp: image_def)

lemma overridden_spec:
  assumes "namesOK points names"
  shows "distinct (collectOverriddenPointFieldNames fs points names) \<and>
    set (collectOverriddenPointFieldNames fs points names) = overriding fs points"
proof (cases "fs = [] \<or> points = []")
  case True
  then show ?thesis by (auto simp: collectOverriddenPointFieldNames_def overriding_def trimmedNames_def)
next
  case False
  let ?g = "\<lambda>i. normalizedCollectPointFieldName points names i"
  let ?P = "\<lambda>i. ?g i = [] \<or> ?g i \<notin> set (map fst fs)"
  have "map ?g [0..<length points] = trimmedNames points"
    by (rule nth_equalityI) (simp_all add: normalizedName[OF assms] trimmedNames_def)
  then have "?g ` set [0..<length points] = set (trimmedNames points)" by (metis set_map)
  moreover have "?g ` {i \<in> set [0..<length points]. \<not> ?P i} = set (map fst fs) \<inter> {n \<in> ?g ` set [0..<length points]. n \<noteq> []}"
    by (rule image_filter_names)
  ultimately have "?g ` {i \<in> set [0..<length points]. \<not> ?P i} = overriding fs points"
    by (simp only: overriding_def)
  with fold_insert_spec[of "[]" ?P ?g "[0..<length points]"] False show ?thesis
    by (simp add: collectOverriddenPointFieldNames_def Let_def)
qed

definition sampleRows :: "golib \<Rightarrow> CollectData \<Rightarrow> (string \<times> string) list" where
  "sampleRows L d = filter (\<lambda>(f, v). f \<notin> overriding (cd_Fields d) (cd_Points d)) (cd_Fields d) @ validPoints L (cd_Points d)"

lemma shape_names: "namesOK (cd_Points d) (sh_normalizedPointFields (buildCollectDataCacheShape (Some d)))"
  using normalizeCollectPointFieldNames_spec[of "cd_Points d"]
  by (auto simp: buildCollectDataCacheShape_def Let_def split: prod.split)

lemma filtered_fields:
  assumes "distinct (map fst fs)" "distinct ov" "set ov = overriding fs points"
  shows "(if fs \<noteq> [] \<and> length ov = length fs then [] else filter (\<lambda>(f, v). f \<notin> set ov) fs) =
    filter (\<lambda>(f, v). f \<notin> overriding fs points) fs"
proof (cases "length ov = length fs")
  case True
  have "card (set ov) = card (set (map fst fs))"
    using distinct_card[OF assms(1)] distinct_card[OF assms(2)] True by (simp only: length_map)
  moreover have "set ov \<subseteq> set (map fst fs)" using assms(3) by (auto simp: overriding_def)
  ultimately have "set ov = set (map fst fs)" by (intro card_subset_eq) auto
  then have "\<forall>x \<in> set fs. fst x \<in> overriding fs points" using assms(3) by simp
  then have "filter (\<lambda>(f, v). f \<notin> overriding fs points) fs = []" by (simp add: filter_empty_conv split_beta)
  with True show ?thesis by (cases fs) simp_all
next
  case False
  with assms(3) show ?thesis by simp
qed

lemma validPoints_length: "length (validPoints L points) = length (filter (\<lambda>m. m \<noteq> []) (trimmedNames points))"
  by (induction points) (simp_all add: validPoints_def trimmedNames_def Let_def)

lemma shape_rows:
  assumes "distinct (map fst (cd_Fields d))"
  shows "fieldRows d (buildCollectDataCacheShape (Some d)) @
      pointRows L d (sh_normalizedPointFields (buildCollectDataCacheShape (Some d))) = sampleRows L d"
    and "sh_rows (buildCollectDataCacheShape (Some d)) = length (sampleRows L d)"
proof -
  obtain names n where nm: "normalizeCollectPointFieldNames (cd_Points d) = (names, n)" by force
  let ?ov = "collectOverriddenPointFieldNames (cd_Fields d) (cd_Points d) names"
  have ok: "namesOK (cd_Points d) names" and n: "n = length (filter (\<lambda>m. m \<noteq> []) (trimmedNames (cd_Points d)))"
    using normalizeCollectPointFieldNames_spec[of "cd_Points d"] nm by simp_all
  have f: "(if cd_Fields d \<noteq> [] \<and> length ?ov = length (cd_Fields d) then [] else filter (\<lambda>(f, v). f \<notin> set ?ov) (cd_Fields d)) =
      filter (\<lambda>(f, v). f \<notin> overriding (cd_Fields d) (cd_Points d)) (cd_Fields d)"
    using filtered_fields[OF assms, of ?ov "cd_Points d"] overridden_spec[OF ok, of "cd_Fields d"] by blast
  have fr: "fieldRows d (buildCollectDataCacheShape (Some d)) =
      filter (\<lambda>(f, v). f \<notin> overriding (cd_Fields d) (cd_Points d)) (cd_Fields d)"
    unfolding f[symmetric] by (simp add: fieldRows_def buildCollectDataCacheShape_def nm Let_def)
  show "fieldRows d (buildCollectDataCacheShape (Some d)) @
      pointRows L d (sh_normalizedPointFields (buildCollectDataCacheShape (Some d))) = sampleRows L d"
    unfolding fr pointRows_spec[OF shape_names] by (simp add: sampleRows_def)
  show "sh_rows (buildCollectDataCacheShape (Some d)) = length (sampleRows L d)"
    unfolding sampleRows_def length_append validPoints_length n[symmetric] f[symmetric]
    by (simp add: buildCollectDataCacheShape_def nm Let_def)
qed

lemma foldl_args: "foldl (\<lambda>dst (f, v). appendCollectDataCacheStringArg dst i f v) dst rows =
    dst @ map (\<lambda>(f, v). (i, f, v, collectDataValueTypeString)) rows"
  by (induction rows arbitrary: dst) (auto simp: appendCollectDataCacheStringArg_def)

definition argsOf :: "golib \<Rightarrow> CollectData \<Rightarrow> cacheArg list" where
  "argsOf L d = map (\<lambda>(f, v). (cd_DeviceID d, f, v, collectDataValueTypeString)) (sampleRows L d)"

lemma sampleRows_plain: "cd_Points d = [] \<Longrightarrow> sampleRows L d = cd_Fields d"
  by (simp add: sampleRows_def overriding_def validPoints_def trimmedNames_def)

lemma sampleRows_points: "cd_Fields d = [] \<Longrightarrow> sampleRows L d = validPoints L (cd_Points d)"
  by (simp add: sampleRows_def)

lemma shape_args:
  assumes "distinct (map fst (cd_Fields d))"
  shows "appendCollectDataCacheArgsForDataWithShape L dst (Some d) (buildCollectDataCacheShape (Some d)) = dst @ argsOf L d"
  unfolding appendCollectDataCacheArgsForDataWithShape_def option.case foldl_args shape_rows(1)[OF assms]
  by (simp add: argsOf_def)

lemma data_args:
  "distinct (map fst (cd_Fields d)) \<Longrightarrow> appendCollectDataCacheArgsForData L dst (Some d) = dst @ argsOf L d"
  by (simp add: appendCollectDataCacheArgsForData_def foldl_args shape_args argsOf_def sampleRows_plain)

text \<open>The direct write is one statement over the rows of the sample or none; the chunked write is the loop over them.\<close>

lemma direct_write:
  assumes "distinct (map fst (cd_Fields d))"
  shows "\<exists>pe ee. insertCollectDataCacheDirect V (Some d) s =
    (if argsOf (se_lib V) d = [] then (None, s) else execStmt V pe ee (cacheBatch V (argsOf (se_lib V) d)) s)"
proof -
  let ?L = "se_lib V"
  have batch: "\<exists>pe ee. (if length (cd_Fields d) + length (cd_Points d) \<le> 0 then (None, s)
      else let args = appendCollectDataCacheArgsForData ?L [] (Some d)
           in if args = [] then (None, s) else executeCacheStatement V args s) =
    (if argsOf ?L d = [] then (None, s) else execStmt V pe ee (cacheBatch V (argsOf ?L d)) s)"
    using data_args[OF assms, of ?L "[]"]
    by (auto simp: executeCacheStatement_def argsOf_def sampleRows_def validPoints_def Let_def)
  consider (one) f v where "cd_Fields d = [(f, v)]" "cd_Points d = []"
    | (none) "cd_Fields d = []" "validPoints ?L (cd_Points d) = []"
    | (point) f v where "cd_Fields d = []" "validPoints ?L (cd_Points d) = [(f, v)]"
    | (many) "cd_Fields d = []" "2 \<le> length (validPoints ?L (cd_Points d))"
    | (other) "cd_Fields d \<noteq> []" "\<not> (length (cd_Fields d) = 1 \<and> cd_Points d = [])"
    by (cases "cd_Fields d"; cases "validPoints ?L (cd_Points d)"; cases "tl (validPoints ?L (cd_Points d))";
        cases "tl (cd_Fields d)") auto
  then show ?thesis
  proof cases
    case one
    then show ?thesis
      by (auto simp: insertCollectDataCacheDirect_def executeCacheSingle_def argsOf_def sampleRows_plain Let_def)
  next
    case none
    then show ?thesis by (simp add: insertCollectDataCacheDirect_def argsOf_def sampleRows_points Let_def)
  next
    case point
    then show ?thesis
      by (auto simp: insertCollectDataCacheDirect_def executeCacheSingle_def argsOf_def sampleRows_points Let_def)
  next
    case many
    then obtain a b cs where v: "validPoints ?L (cd_Points d) = a # b # cs" by (auto simp: Suc_le_length_iff numeral_2_eq_2)
    then show ?thesis using batch many by (simp add: insertCollectDataCacheDirect_def Let_def)
  next
    case other
    then show ?thesis using batch unfolding insertCollectDataCacheDirect_def Let_def by (simp only: option.case if_False simp_thms)
  qed
qed

lemma chunked_write:
  assumes "distinct (map fst (cd_Fields d))"
  shows "insertCollectDataCacheChunkedDirect V (Some d) s =
    batchLoop collectDataCacheBatchSize (executeCacheStatement V) [] (argsOf (se_lib V) d) s"
  using shape_rows(1)[OF assms, of "se_lib V"]
  by (simp add: insertCollectDataCacheChunkedDirect_def argsOf_def sampleRows_plain sampleRows_points Let_def del: map_append)

section \<open>What the tables show\<close>

definition viewOf :: "DataCache list \<Rightarrow> int \<times> string \<Rightarrow> string option" where
  "viewOf rows k = map_option dc_Value (find (\<lambda>r. (dc_DeviceID r, dc_FieldName r) = k) rows)"

definition cacheView :: "dataStore \<Rightarrow> int \<times> string \<Rightarrow> string option" where
  "cacheView s = viewOf (ds_cache s)"

definition cacheKeys :: "dataStore \<Rightarrow> (int \<times> string) list" where
  "cacheKeys s = map (\<lambda>r. (dc_DeviceID r, dc_FieldName r)) (ds_cache s)"

definition override :: "cacheArg list \<Rightarrow> (int \<times> string \<Rightarrow> string option) \<Rightarrow> int \<times> string \<Rightarrow> string option" where
  "override args m = fold (\<lambda>(d, f, v, t) m. m((d, f) \<mapsto> v)) args m"

definition argKeys :: "cacheArg list \<Rightarrow> (int \<times> string) set" where
  "argKeys args = (\<lambda>(d, f, v, t). (d, f)) ` set args"

lemma viewOf_Nil [simp]: "viewOf [] k = None"
  by (simp add: viewOf_def)

lemma viewOf_Cons: "viewOf (r # rs) k = (if (dc_DeviceID r, dc_FieldName r) = k then Some (dc_Value r) else viewOf rs k)"
  by (simp add: viewOf_def)

lemma viewOf_append: "viewOf (rs @ qs) k = (case viewOf rs k of None \<Rightarrow> viewOf qs k | Some v \<Rightarrow> Some v)"
  by (induction rs) (auto simp: viewOf_Cons)

lemma viewOf_None: "viewOf rs k = None \<longleftrightarrow> k \<notin> (\<lambda>r. (dc_DeviceID r, dc_FieldName r)) ` set rs"
  by (induction rs) (auto simp: viewOf_Cons)

lemma viewOf_update:
  "viewOf (map (\<lambda>r. if dc_DeviceID r = d \<and> dc_FieldName r = f then r\<lparr>dc_Value := v, dc_ValueType := t, dc_CollectedAt := now\<rparr> else r) rs) k =
   (if k = (d, f) \<and> viewOf rs k \<noteq> None then Some v else viewOf rs k)"
  by (induction rs) (auto simp: viewOf_Cons)

lemma upsertCache_view: "cacheView (upsertCache V now (d, f, v, t) s) = (cacheView s)((d, f) \<mapsto> v)"
proof (cases "\<exists>r \<in> set (ds_cache s). dc_DeviceID r = d \<and> dc_FieldName r = f")
  case True
  then have "viewOf (ds_cache s) (d, f) \<noteq> None" by (auto simp: viewOf_None image_iff)
  with True show ?thesis by (auto simp: cacheView_def viewOf_update)
next
  case False
  then have "viewOf (ds_cache s) (d, f) = None" by (auto simp: viewOf_None)
  with False show ?thesis by (auto simp: cacheView_def viewOf_append viewOf_Cons Let_def split: option.splits)
qed

lemma upsertCache_keys:
  "distinct (cacheKeys s) \<Longrightarrow> distinct (cacheKeys (upsertCache V now (d, f, v, t) s)) \<and>
   set (cacheKeys (upsertCache V now (d, f, v, t) s)) = insert (d, f) (set (cacheKeys s))"
proof -
  assume dist: "distinct (cacheKeys s)"
  show ?thesis
  proof (cases "\<exists>r \<in> set (ds_cache s). dc_DeviceID r = d \<and> dc_FieldName r = f")
    case True
    then have "cacheKeys (upsertCache V now (d, f, v, t) s) = cacheKeys s" by (simp add: cacheKeys_def)
    with True dist show ?thesis by (force simp: cacheKeys_def)
  next
    case False
    then have "cacheKeys (upsertCache V now (d, f, v, t) s) = cacheKeys s @ [(d, f)]" by (simp add: cacheKeys_def Let_def)
    with False dist show ?thesis by (auto simp: cacheKeys_def)
  qed
qed

lemma upsertCache_frame:
  "ds_points (upsertCache V now a s) = ds_points s" "ds_pointsSeq (upsertCache V now a s) = ds_pointsSeq s"
  "ds_execs (upsertCache V now a s) = ds_execs s"
  by (cases a; simp add: Let_def)+

text \<open>\<open>wrote\<close>: the cache shows the rows, and the history is as before. \<open>sameTables\<close>: nothing has changed.\<close>

definition wrote :: "cacheArg list \<Rightarrow> dataStore \<Rightarrow> dataStore \<Rightarrow> bool" where
  "wrote args s s' \<longleftrightarrow> cacheView s' = override args (cacheView s) \<and> ds_points s' = ds_points s \<and>
     (distinct (cacheKeys s) \<longrightarrow> distinct (cacheKeys s') \<and> set (cacheKeys s') = set (cacheKeys s) \<union> argKeys args)"

definition sameTables :: "dataStore \<Rightarrow> dataStore \<Rightarrow> bool" where
  "sameTables s s' \<longleftrightarrow> ds_cache s' = ds_cache s \<and> ds_points s' = ds_points s"

lemma override_append: "override (as @ bs) m = override bs (override as m)"
  by (simp add: override_def)

lemma argKeys_append [simp]: "argKeys (as @ bs) = argKeys as \<union> argKeys bs"
  by (simp add: argKeys_def image_Un)

lemma wrote_Nil [simp]: "wrote [] s s"
  by (simp add: wrote_def override_def argKeys_def)

lemma wrote_trans: "wrote as s s1 \<Longrightarrow> wrote bs s1 s2 \<Longrightarrow> wrote (as @ bs) s s2"
  by (auto simp: wrote_def override_append)

lemma same_views: "sameTables s s' \<Longrightarrow> cacheView s' = cacheView s \<and> cacheKeys s' = cacheKeys s \<and> ds_points s' = ds_points s"
  by (simp add: sameTables_def cacheView_def cacheKeys_def)

lemma wrote_same: "wrote as s s1 \<Longrightarrow> sameTables s1 s2 \<Longrightarrow> wrote as s s2"
  by (simp add: wrote_def same_views)

lemma same_wrote: "sameTables s s1 \<Longrightarrow> wrote as s1 s2 \<Longrightarrow> wrote as s s2"
  by (simp add: wrote_def same_views)

lemma same_refl [simp]: "sameTables s s"
  by (simp add: sameTables_def)

lemma same_trans: "sameTables s s1 \<Longrightarrow> sameTables s1 s2 \<Longrightarrow> sameTables s s2"
  by (simp add: sameTables_def)

lemma upsertCache_wrote: "wrote [a] s (upsertCache V now a s)"
proof -
  obtain d f v t where "a = (d, f, v, t)" by (cases a)
  then show ?thesis using upsertCache_view upsertCache_keys upsertCache_frame[of V now a s]
    by (simp add: wrote_def override_def argKeys_def del: upsertCache.simps)
qed

lemma fold_upsert_wrote: "wrote args s (fold (upsertCache V now) args s)"
proof (induction args arbitrary: s)
  case (Cons a as)
  show ?case using wrote_trans[OF upsertCache_wrote[of a s V now] Cons.IH] by simp
qed simp

lemma execStmt_cases:
  assumes "execStmt V pe ee stmt s = (r, s')"
  shows "(r = None \<and> stmt (se_timestamp V (ds_execs s)) (s\<lparr>ds_execs := Suc (ds_execs s)\<rparr>) = Some s') \<or>
    ((r = Some pe \<or> r = Some ee) \<and> s' = s\<lparr>ds_execs := Suc (ds_execs s)\<rparr>)"
  using assms by (auto simp: execStmt_def Let_def split: option.splits sqlFault.splits)

lemma exec_same [simp]: "sameTables s (s\<lparr>ds_execs := n\<rparr>)" "sameTables (s\<lparr>ds_execs := n\<rparr>) s"
  by (simp_all add: sameTables_def)

lemma cacheBatch_outcome:
  assumes "execStmt V pe ee (cacheBatch V args) s = (r, s')"
  shows "if r = None then wrote args s s' else sameTables s s'"
  using execStmt_cases[OF assms] same_wrote[OF exec_same(1) fold_upsert_wrote]
  by (auto simp: cacheBatch_def)

text \<open>A loop over batches does what its batches do, one after another; after an error the first rows are written.\<close>

lemma batchLoop_outcome:
  assumes flush: "\<And>b s r s'. b \<noteq> [] \<Longrightarrow> flush b s = (r, s') \<Longrightarrow> if r = None then W b s s' else F s s'"
    and unit: "\<And>s. W [] s s" and seq: "\<And>a b s s1 s2. W a s s1 \<Longrightarrow> W b s1 s2 \<Longrightarrow> W (a @ b) s s2"
  shows "batchLoop n flush batch rows s = (r, s') \<Longrightarrow>
    if r = None then W (batch @ rows) s s' else \<exists>as bs s1. batch @ rows = as @ bs \<and> W as s s1 \<and> F s1 s'"
proof (induction rows arbitrary: batch s)
  case Nil
  show ?case
  proof (cases "batch = []")
    case True
    with Nil show ?thesis using unit by simp
  next
    case False
    then have f: "if r = None then W batch s s' else F s s'" using flush[OF False] Nil by simp
    show ?thesis
    proof (cases r)
      case (Some e)
      with f show ?thesis using unit[of s] by (metis append_Nil append_Nil2 option.distinct(1))
    qed (use f in simp)
  qed
next
  case (Cons x rows)
  let ?b = "batch @ [x]"
  show ?case
  proof (cases "length ?b < n")
    case True
    with Cons.prems have "batchLoop n flush ?b rows s = (r, s')" by (simp add: Let_def)
    from Cons.IH[OF this] show ?thesis by (simp only: append_assoc append_Cons append_Nil)
  next
    case False
    obtain r1 s1 where f: "flush ?b s = (r1, s1)" by force
    have o1: "if r1 = None then W ?b s s1 else F s s1" using flush[OF _ f] by simp
    show ?thesis
    proof (cases r1)
      case (Some e)
      with Cons.prems f False have "r = Some e" "s' = s1" by (simp_all add: Let_def)
      with o1 Some show ?thesis using unit[of s] by (metis append_Nil option.distinct(1))
    next
      case None
      with Cons.prems f False have run: "batchLoop n flush [] rows s1 = (r, s')" by (simp add: Let_def)
      have w: "W ?b s s1" using o1 None by simp
      show ?thesis
      proof (cases r)
        case None
        with Cons.IH[OF run] seq[OF w, of rows s'] show ?thesis by simp
      next
        case (Some e)
        with Cons.IH[OF run] obtain as bs s2 where "rows = as @ bs" "W as s1 s2" "F s2 s'" by auto
        with seq[OF w] Some show ?thesis by (metis append.assoc append_Cons append_Nil option.distinct(1))
      qed
    qed
  qed
qed

lemma cacheLoop_outcome:
  assumes "batchLoop n (executeCacheStatement V) [] args s = (r, s')"
  shows "if r = None then wrote args s s' else \<exists>as bs. args = as @ bs \<and> wrote as s s'"
proof -
  have "if r = None then wrote ([] @ args) s s' else \<exists>as bs s1. [] @ args = as @ bs \<and> wrote as s s1 \<and> sameTables s1 s'"
  proof (rule batchLoop_outcome[OF _ _ _ assms])
    show "if r = None then wrote b s s' else sameTables s s'" if "executeCacheStatement V b s = (r, s')" for b s r s'
      using that cacheBatch_outcome by (simp add: executeCacheStatement_def)
  qed (auto intro: wrote_trans)
  then show ?thesis using wrote_same by (auto split: if_splits)
qed

text \<open>A field after the rows of a sample: the last row with its name.\<close>

lemma override_lookup:
  "override (map (\<lambda>(f, v). (d, f, v, t)) rows) m (d', f) =
   (if d' = d then (case map_of (rev rows) f of Some v \<Rightarrow> Some v | None \<Rightarrow> m (d', f)) else m (d', f))"
proof (induction rows rule: rev_induct)
  case Nil
  then show ?case by (simp add: override_def)
next
  case (snoc r rows)
  obtain f1 v1 where "r = (f1, v1)" by (cases r)
  with snoc show ?case by (auto simp: override_append override_def)
qed

lemma argKeys_rows: "argKeys (map (\<lambda>(f, v). (d, f, v, t)) rows) = Pair d ` fst ` set rows"
  by (force simp: argKeys_def)

lemma validPoints_lookup:
  "map_of (rev (validPoints L points)) f =
   (if f = [] then None else map_option (\<lambda>p. CollectPointValueString L (cp_Value p)) (lastPoint f points))"
proof (induction points rule: rev_induct)
  case Nil
  then show ?case by (simp add: validPoints_def lastPoint_def)
next
  case (snoc p points)
  then show ?case
    by (auto simp: validPoints_def lastPoint_def Let_def trim_eqs)
qed

lemma mergePoints_blank: "map_of (mergePoints L fs points) [] = map_of fs []"
  by (induction points arbitrary: fs) (auto simp: Let_def update_conv')

lemma map_of_filter_key: "map_of (filter (\<lambda>(f, v). f \<notin> A) xs) f = (if f \<in> A then None else map_of xs f)"
  by (induction xs) auto

text \<open>The rows of a sample show the fields as the merge of its points into them.\<close>

lemma sampleRows_merge:
  assumes "distinct (map fst (cd_Fields d))"
  shows "map_of (rev (sampleRows L d)) f = map_of (mergePoints L (cd_Fields d) (cd_Points d)) f"
proof -
  let ?ov = "overriding (cd_Fields d) (cd_Points d)"
  have dist: "distinct (map fst (filter (\<lambda>(f, v). f \<notin> ?ov) (cd_Fields d)))"
    using assms by (rule distinct_map_filter)
  have fields: "map_of (rev (filter (\<lambda>(f, v). f \<notin> ?ov) (cd_Fields d))) f = (if f \<in> ?ov then None else map_of (cd_Fields d) f)"
  proof -
    have "map_of (rev (filter (\<lambda>(f, v). f \<notin> ?ov) (cd_Fields d))) = map_of (filter (\<lambda>(f, v). f \<notin> ?ov) (cd_Fields d))"
      using dist by (intro map_of_inject_set[THEN iffD2]) (simp_all add: rev_map[symmetric])
    then show ?thesis by (simp only: map_of_filter_key)
  qed
  show ?thesis
  proof (cases "f = []")
    case True
    then have "f \<notin> ?ov" by (simp add: overriding_def)
    with True show ?thesis using fields by (simp add: sampleRows_def map_add_def validPoints_lookup mergePoints_blank)
  next
    case False
    have "lastPoint f (cd_Points d) \<noteq> None" if "f \<in> ?ov"
      using that by (auto simp: overriding_def lastPoint_def trimmedNames_def find_None_iff trim_eqs)
    with False show ?thesis
      by (auto simp: sampleRows_def map_add_def validPoints_lookup fields mergePoints_lookup split: option.splits)
  qed
qed

section \<open>Cache and history together\<close>

text \<open>Every field of the rows has a history row with the value that the cache shows.\<close>

definition recorded :: "int \<Rightarrow> string \<Rightarrow> string set \<Rightarrow> dataStore \<Rightarrow> bool" where
  "recorded d n fs s \<longleftrightarrow> (\<forall>f \<in> fs. \<exists>r \<in> set (ds_points s). hp_DeviceID r = d \<and> hp_DeviceName r = n \<and> hp_FieldName r = f \<and>
     cacheView s (d, f) = Some (hp_Value r))"

definition kept :: "int \<Rightarrow> string set \<Rightarrow> dataStore \<Rightarrow> dataStore \<Rightarrow> bool" where
  "kept d fs s s' \<longleftrightarrow> (\<forall>r \<in> set (ds_points s). hp_DeviceID r \<noteq> d \<or> hp_FieldName r \<notin> fs \<longrightarrow> r \<in> set (ds_points s'))"

definition rowArgs :: "int \<Rightarrow> (string \<times> string) list \<Rightarrow> cacheArg list" where
  "rowArgs d rows = map (\<lambda>(f, v). (d, f, v, collectDataValueTypeString)) rows"

definition stored :: "int \<Rightarrow> string \<Rightarrow> bool \<Rightarrow> (string \<times> string) list \<Rightarrow> dataStore \<Rightarrow> dataStore \<Rightarrow> bool" where
  "stored d n h rows s s' \<longleftrightarrow> cacheView s' = override (rowArgs d rows) (cacheView s) \<and>
     (distinct (cacheKeys s) \<longrightarrow> distinct (cacheKeys s') \<and> set (cacheKeys s') = set (cacheKeys s) \<union> argKeys (rowArgs d rows)) \<and>
     (if h then recorded d n (fst ` set rows) s' \<and> kept d (fst ` set rows) s s' \<and>
            length (ds_points s') \<le> length (ds_points s) + length rows
      else ds_points s' = ds_points s)"

lemma rowArgs_append: "rowArgs d (a @ b) = rowArgs d a @ rowArgs d b"
  by (simp add: rowArgs_def)

lemma stored_Nil: "stored d n h [] s s"
  by (simp add: stored_def rowArgs_def override_def argKeys_def recorded_def kept_def)

lemma rowArgs_other: "f \<notin> fst ` set rows \<Longrightarrow> override (rowArgs d rows) m (d, f) = m (d, f)"
  using map_of_eq_None_iff[of "rev rows" f] by (simp add: rowArgs_def override_lookup)

lemma stored_trans:
  assumes "stored d n h a s s1" and "stored d n h b s1 s2"
  shows "stored d n h (a @ b) s s2"
proof -
  have rec: "recorded d n (fst ` set (a @ b)) s2" if h: h
  proof (unfold recorded_def, rule ballI)
    fix f assume f: "f \<in> fst ` set (a @ b)"
    show "\<exists>r \<in> set (ds_points s2). hp_DeviceID r = d \<and> hp_DeviceName r = n \<and> hp_FieldName r = f \<and> cacheView s2 (d, f) = Some (hp_Value r)"
    proof (cases "f \<in> fst ` set b")
      case True
      moreover have "recorded d n (fst ` set b) s2" using assms(2) h by (simp add: stored_def)
      ultimately show ?thesis unfolding recorded_def by blast
    next
      case False
      with f have "f \<in> fst ` set a" by auto
      moreover have "recorded d n (fst ` set a) s1" using assms(1) h by (simp add: stored_def)
      ultimately obtain r where r: "r \<in> set (ds_points s1)" "hp_DeviceID r = d" "hp_DeviceName r = n" "hp_FieldName r = f"
        "cacheView s1 (d, f) = Some (hp_Value r)" unfolding recorded_def by blast
      moreover have "kept d (fst ` set b) s1 s2" using assms(2) h by (simp add: stored_def)
      then have "r \<in> set (ds_points s2)" using r False by (simp add: kept_def)
      moreover have "cacheView s2 (d, f) = cacheView s1 (d, f)" using assms(2) rowArgs_other[OF False] by (simp add: stored_def)
      ultimately show ?thesis by metis
    qed
  qed
  have keep: "kept d (fst ` set (a @ b)) s s2" if h
    using assms that by (simp add: stored_def kept_def image_Un)
  show ?thesis using assms rec keep by (auto simp: stored_def rowArgs_append override_append)
qed

lemma replacePoint_frame: "ds_cache (replacePoint V a s) = ds_cache s" "ds_execs (replacePoint V a s) = ds_execs s"
  by (cases a; simp add: Let_def)+

definition replaceRows :: "sqlEnv \<Rightarrow> int \<Rightarrow> string \<Rightarrow> gotime \<Rightarrow> (string \<times> string) list \<Rightarrow> dataStore \<Rightarrow> dataStore" where
  "replaceRows V d n now rows = fold (\<lambda>(f, v). replacePoint V (d, n, f, v, collectDataValueTypeString, now)) rows"

lemma replaceRows_spec:
  "ds_cache (replaceRows V d n now rows s) = ds_cache s \<and> kept d (fst ` set rows) s (replaceRows V d n now rows s) \<and>
   length (ds_points (replaceRows V d n now rows s)) \<le> length (ds_points s) + length rows \<and>
   (\<forall>f v. map_of (rev rows) f = Some v \<longrightarrow>
     (\<exists>r \<in> set (ds_points (replaceRows V d n now rows s)). hp_DeviceID r = d \<and> hp_DeviceName r = n \<and> hp_FieldName r = f \<and> hp_Value r = v))"
proof (induction rows rule: rev_induct)
  case Nil
  then show ?case by (simp add: replaceRows_def kept_def)
next
  case (snoc x rows)
  obtain f1 v1 where x: "x = (f1, v1)" by (cases x)
  let ?s = "replaceRows V d n now rows s"
  have step: "replaceRows V d n now (rows @ [x]) s = replacePoint V (d, n, f1, v1, collectDataValueTypeString, now) ?s"
    by (simp add: replaceRows_def x)
  have pts: "\<exists>r. hp_DeviceID r = d \<and> hp_DeviceName r = n \<and> hp_FieldName r = f1 \<and> hp_Value r = v1 \<and>
    ds_points (replaceRows V d n now (rows @ [x]) s) = filter (\<lambda>r. \<not> pointConflict d f1 now r) (ds_points ?s) @ [r]"
    unfolding step by (simp add: Let_def)
  then obtain r where r: "hp_DeviceID r = d" "hp_DeviceName r = n" "hp_FieldName r = f1" "hp_Value r = v1"
    and p: "ds_points (replaceRows V d n now (rows @ [x]) s) = filter (\<lambda>r. \<not> pointConflict d f1 now r) (ds_points ?s) @ [r]" by blast
  have "length (filter (\<lambda>r. \<not> pointConflict d f1 now r) (ds_points ?s)) \<le> length (ds_points s) + length rows"
    using snoc.IH by (meson le_trans length_filter_le)
  then have "length (ds_points (replaceRows V d n now (rows @ [x]) s)) \<le> length (ds_points s) + length (rows @ [x])"
    by (simp add: p)
  moreover have "kept d (fst ` set (rows @ [x])) s (replaceRows V d n now (rows @ [x]) s)"
    using snoc.IH by (auto simp: kept_def p[unfolded x] x pointConflict_def)
  moreover have "\<exists>q \<in> set (ds_points (replaceRows V d n now (rows @ [x]) s)). hp_DeviceID q = d \<and> hp_DeviceName q = n \<and>
      hp_FieldName q = f \<and> hp_Value q = v" if m: "map_of (rev (rows @ [x])) f = Some v" for f v
  proof (cases "f = f1")
    case True
    with m have "v = v1" by (simp add: x)
    moreover have "r \<in> set (ds_points (replaceRows V d n now (rows @ [x]) s))" unfolding p by simp
    ultimately show ?thesis using r True by blast
  next
    case False
    with m have "map_of (rev rows) f = Some v" by (simp add: x)
    with snoc.IH False show ?thesis by (auto simp: p[unfolded x] x pointConflict_def)
  qed
  moreover have "ds_cache (replaceRows V d n now (rows @ [x]) s) = ds_cache s"
    unfolding step replacePoint_frame using snoc.IH by blast
  ultimately show ?case by blast
qed

lemma replaceBatch_rows:
  "replaceBatch V (map (\<lambda>(f, v). (d, n, f, v, collectDataValueTypeString)) rows) now s = Some (replaceRows V d n now rows s)"
proof -
  have "fold (\<lambda>(d, n, f, v, t). replacePoint V (d, n, f, v, t, now)) (map (\<lambda>(f, v). (d, n, f, v, collectDataValueTypeString)) rows) s =
      replaceRows V d n now rows s"
    unfolding replaceRows_def by (induction rows arbitrary: s) auto
  then show ?thesis by (simp only: replaceBatch_def)
qed

lemma replaceRows_cache: "ds_cache (replaceRows V d n now rows s) = ds_cache s"
  using replaceRows_spec by blast

lemma flush_outcome:
  assumes "rows \<noteq> []" and "flushCollectDataArgs V d n h rows s = (r, s')"
  shows "if r = None then stored d n h rows s s' else True"
proof (cases r)
  case None
  let ?stmt = "executeCollectDataCacheBatchWithArgs V (map (\<lambda>(f, v). (d, f, v, collectDataValueTypeString)) rows) s"
  obtain r1 s1 where c: "?stmt = (r1, s1)" by force
  with assms None have "r1 = None" by (auto simp: flushCollectDataArgs_def split: option.splits)
  with c assms(1) have w: "wrote (rowArgs d rows) s s1"
    using cacheBatch_outcome[of V _ _ "rowArgs d rows" s None s1]
    by (simp add: executeCollectDataCacheBatchWithArgs_def executeCacheStatement_def rowArgs_def)
  show ?thesis
  proof (cases h)
    case False
    with assms c None \<open>r1 = None\<close> have "s' = s1" by (simp add: flushCollectDataArgs_def)
    with w None False show ?thesis by (simp add: stored_def wrote_def)
  next
    case True
    let ?t = "se_timestamp V (ds_execs s1)"
    let ?s1 = "s1\<lparr>ds_execs := Suc (ds_execs s1)\<rparr>"
    have "s' = replaceRows V d n ?t rows ?s1"
    proof -
      have "execStmt V ''failed to prepare data point batch statement'' ''failed to upsert data point batch''
          (replaceBatch V (map (\<lambda>(f, v). (d, n, f, v, collectDataValueTypeString)) rows)) s1 = (None, s')"
        using assms c None \<open>r1 = None\<close> True by (simp add: flushCollectDataArgs_def executeCollectDataHistoryBatchWithArgs_def)
      from execStmt_cases[OF this] show ?thesis by (simp add: replaceBatch_rows)
    qed
    then have s': "ds_cache s' = ds_cache s1" and k: "kept d (fst ` set rows) s1 s'"
      and l: "length (ds_points s') \<le> length (ds_points s1) + length rows"
      and h: "\<And>f v. map_of (rev rows) f = Some v \<Longrightarrow>
        \<exists>r \<in> set (ds_points s'). hp_DeviceID r = d \<and> hp_DeviceName r = n \<and> hp_FieldName r = f \<and> hp_Value r = v"
      using replaceRows_spec[of V d n ?t rows ?s1] by (auto simp: kept_def)
    have view: "cacheView s' = override (rowArgs d rows) (cacheView s)" "cacheKeys s' = cacheKeys s1"
      using s' w by (simp_all add: wrote_def cacheView_def cacheKeys_def)
    have "recorded d n (fst ` set rows) s'"
    proof (unfold recorded_def, rule ballI)
      fix f assume "f \<in> fst ` set rows"
      then obtain v where v: "map_of (rev rows) f = Some v" by (metis map_of_eq_None_iff not_Some_eq set_rev)
      then have "cacheView s' (d, f) = Some v" by (simp add: view rowArgs_def override_lookup)
      with h[OF v] show "\<exists>r \<in> set (ds_points s'). hp_DeviceID r = d \<and> hp_DeviceName r = n \<and> hp_FieldName r = f \<and>
          cacheView s' (d, f) = Some (hp_Value r)" by metis
    qed
    moreover have "kept d (fst ` set rows) s s'" "length (ds_points s') \<le> length (ds_points s) + length rows"
      using w k l by (simp_all add: wrote_def kept_def)
    ultimately show ?thesis using w None True view by (simp add: stored_def wrote_def)
  qed
qed simp

lemma overridden_now:
  assumes "distinct (map fst (cd_Fields d))"
  defines "names \<equiv> fst (normalizeCollectPointFieldNames (cd_Points d))"
  defines "ov \<equiv> collectOverriddenPointFieldNames (cd_Fields d) (cd_Points d) names"
  shows "(if cd_Points d = [] then cd_Fields d
      else (if cd_Fields d \<noteq> [] \<and> length ov = length (cd_Fields d) then [] else filter (\<lambda>(f, v). f \<notin> set ov) (cd_Fields d)) @
        pointRows L d names) = sampleRows L d"
proof -
  have ok: "namesOK (cd_Points d) names" using normalizeCollectPointFieldNames_spec by (simp add: names_def)
  have "(if cd_Fields d \<noteq> [] \<and> length ov = length (cd_Fields d) then [] else filter (\<lambda>(f, v). f \<notin> set ov) (cd_Fields d)) =
      filter (\<lambda>(f, v). f \<notin> overriding (cd_Fields d) (cd_Points d)) (cd_Fields d)"
    using filtered_fields[OF assms(1), of ov "cd_Points d"] overridden_spec[OF ok, of "cd_Fields d"] unfolding ov_def by blast
  then show ?thesis by (simp only: pointRows_spec[OF ok] sampleRows_def[symmetric]) (simp add: sampleRows_plain)
qed

lemma tx_outcome:
  assumes "distinct (map fst (cd_Fields d))"
    and "insertCollectDataWithOptionsTx V (Some d) h s = (Inr c, s')"
  shows "\<exists>n. (h \<longrightarrow> n = normalizeDeviceName (cd_DeviceID d) (cd_DeviceName d)) \<and>
    stored (cd_DeviceID d) n h (sampleRows (se_lib V) d) s s' \<and> c = (if h then length (sampleRows (se_lib V) d) else 0)"
proof (cases "cd_Fields d = [] \<and> cd_Points d = []")
  case True
  then have "sampleRows (se_lib V) d = []" by (simp add: sampleRows_def validPoints_def)
  with True assms(2) stored_Nil show ?thesis by (auto simp: insertCollectDataWithOptionsTx_def)
next
  case False
  let ?n = "if h then normalizeDeviceName (cd_DeviceID d) (cd_DeviceName d) else []"
  let ?cap = "if h \<and> collectDataHistoryBatchSize < collectDataCacheBatchSize then collectDataHistoryBatchSize else collectDataCacheBatchSize"
  obtain r s1 where run: "batchLoop ?cap (flushCollectDataArgs V (cd_DeviceID d) ?n h) [] (sampleRows (se_lib V) d) s = (r, s1)"
    by force
  have "insertCollectDataWithOptionsTx V (Some d) h s =
    (case (r, s1) of (Some e, s) \<Rightarrow> (Inl e, s) | (None, s) \<Rightarrow> (Inr (if h then length (sampleRows (se_lib V) d) else 0), s))"
    unfolding run[symmetric] insertCollectDataWithOptionsTx_def option.case Let_def overridden_now[OF assms(1)]
    by (rule if_not_P[OF False])
  with assms(2) have r: "r = None" "s' = s1" "c = (if h then length (sampleRows (se_lib V) d) else 0)" by (auto split: option.splits)
  have "if r = None then stored (cd_DeviceID d) ?n h ([] @ sampleRows (se_lib V) d) s s1
    else \<exists>as bs s2. [] @ sampleRows (se_lib V) d = as @ bs \<and> stored (cd_DeviceID d) ?n h as s s2 \<and> True"
    by (rule batchLoop_outcome[where F = "\<lambda>_ _. True", OF flush_outcome stored_Nil stored_trans run])
  with r show ?thesis by (intro exI[of _ ?n]) auto
qed

lemma transaction_outcome:
  assumes "inTransaction V be ce body s = (r, s')"
  shows "case r of Inl e \<Rightarrow> sameTables s s'
    | Inr x \<Rightarrow> \<exists>s1 s2. sameTables s s1 \<and> body s1 = (Inr x, s2) \<and> sameTables s2 s'"
proof -
  obtain r1 s1 where b: "execStmt V be be (\<lambda>_. Some) s = (r1, s1)" by force
  have s1: "sameTables s s1" using execStmt_cases[OF b] by auto
  show ?thesis
  proof (cases r1)
    case (Some e)
    with assms b s1 show ?thesis by (auto simp: inTransaction_def)
  next
    case None
    obtain r2 s2 where y: "body s1 = (r2, s2)" by force
    show ?thesis
    proof (cases r2)
      case (Inl e)
      with assms b y None s1 show ?thesis by (auto simp: inTransaction_def rollback_def sameTables_def)
    next
      case (Inr x)
      obtain r3 s3 where c: "execStmt V ce ce (\<lambda>_. Some) s2 = (r3, s3)" by force
      have "sameTables s2 s3" using execStmt_cases[OF c] by auto
      show ?thesis
      proof (cases r3)
        case None
        with assms b y \<open>r1 = None\<close> Inr c have "r = Inr x" "s' = s3" by (simp_all add: inTransaction_def)
        with y Inr s1 \<open>sameTables s2 s3\<close> show ?thesis by auto
      next
        case (Some e)
        with assms b y \<open>r1 = None\<close> Inr c s1 show ?thesis by (auto simp: inTransaction_def rollback_def sameTables_def)
      qed
    qed
  qed
qed

section \<open>The limits, when they are not exceeded\<close>

lemma count_same: "execStmt V pe ee (\<lambda>_. Some) s = (r, s') \<Longrightarrow> sameTables s s'"
  using execStmt_cases by fastforce

lemma enforceDataCacheLimit_same:
  "int (length (ds_cache s)) \<le> se_maxDataCacheLimit V \<Longrightarrow> sameTables s (enforceDataCacheLimit V s)"
proof -
  assume l: "int (length (ds_cache s)) \<le> se_maxDataCacheLimit V"
  obtain r s1 where e: "execStmt V [] [] (\<lambda>_. Some) s = (r, s1)" by force
  from count_same[OF e] l show ?thesis
    by (auto simp: enforceDataCacheLimit_def e sameTables_def split: option.split)
qed

lemma enforceDataPointsLimit_same:
  "int (length (ds_points s)) \<le> se_maxDataPointsLimit V \<Longrightarrow> sameTables s (enforceDataPointsLimit V s)"
proof -
  assume l: "int (length (ds_points s)) \<le> se_maxDataPointsLimit V"
  obtain r s1 where e: "execStmt V [] [] (\<lambda>_. Some) s = (r, s1)" by force
  from count_same[OF e] l show ?thesis
    by (auto simp: enforceDataPointsLimit_def e sameTables_def split: option.split)
qed

lemma maybeEnforceDataCacheLimit_same:
  assumes "int (length (ds_cache s)) \<le> se_maxDataCacheLimit V"
  shows "sameTables s (maybeEnforceDataCacheLimit V s)"
proof -
  have "sameTables s (enforceDataCacheLimit V (s\<lparr>ds_cacheWrites := a, ds_cacheLastCleanup := b\<rparr>))" for a b
    using enforceDataCacheLimit_same[of "s\<lparr>ds_cacheWrites := a, ds_cacheLastCleanup := b\<rparr>" V] assms by (simp add: sameTables_def)
  then show ?thesis unfolding maybeEnforceDataCacheLimit_def Let_def by (simp add: sameTables_def)
qed

lemma maybeEnforceDataPointsLimit_same:
  assumes "int (length (ds_points s)) \<le> se_maxDataPointsLimit V"
  shows "sameTables s (maybeEnforceDataPointsLimit V s)"
proof -
  have "sameTables s (enforceDataPointsLimit V (s\<lparr>ds_pointWrites := a, ds_pointLastCleanup := b\<rparr>))" for a b
    using enforceDataPointsLimit_same[of "s\<lparr>ds_pointWrites := a, ds_pointLastCleanup := b\<rparr>" V] assms by (simp add: sameTables_def)
  then show ?thesis unfolding maybeEnforceDataPointsLimit_def Let_def by (simp add: sameTables_def)
qed

lemma TriggerSync_same: "sameTables s (snd (TriggerSyncIfNeeded V s))"
proof -
  obtain r s1 where e: "execStmt V [] [] (\<lambda>_. Some) s = (r, s1)" by force
  from count_same[OF e] show ?thesis
    by (auto simp: TriggerSyncIfNeeded_def triggerDataSyncAsync_def e sameTables_def Let_def split: option.split)
qed

lemma afterHistoryWrite_same:
  assumes "int (length (ds_points s)) \<le> se_maxDataPointsLimit V"
  shows "sameTables s (afterHistoryWrite V n s)"
proof -
  have n: "sameTables s (noteHistoryRowsWritten (int n) s)" by (simp add: noteHistoryRowsWritten_def sameTables_def)
  then have "sameTables s (maybeEnforceDataPointsLimit V (noteHistoryRowsWritten (int n) s))"
    using maybeEnforceDataPointsLimit_same[of "noteHistoryRowsWritten (int n) s" V] assms by (simp add: sameTables_def)
  then show ?thesis unfolding afterHistoryWrite_def using TriggerSync_same same_trans by blast
qed

text \<open>\<open>K\<close>: the devices' fields, as many as the cache may hold.\<close>

definition fits :: "sqlEnv \<Rightarrow> (int \<times> string) set \<Rightarrow> dataStore \<Rightarrow> bool" where
  "fits V K s \<longleftrightarrow> finite K \<and> int (card K) \<le> se_maxDataCacheLimit V \<and> distinct (cacheKeys s) \<and> set (cacheKeys s) \<subseteq> K"

definition sampleKeys :: "CollectData \<Rightarrow> (int \<times> string) set" where
  "sampleKeys d = Pair (cd_DeviceID d) ` (set (map fst (cd_Fields d)) \<union> {n \<in> set (trimmedNames (cd_Points d)). n \<noteq> []})"

lemma fits_length: "fits V K s \<Longrightarrow> int (length (ds_cache s)) \<le> se_maxDataCacheLimit V"
proof -
  assume f: "fits V K s"
  then have "length (cacheKeys s) = card (set (cacheKeys s))" by (simp add: fits_def distinct_card)
  also have "\<dots> \<le> card K" using f by (auto simp: fits_def intro: card_mono)
  finally show ?thesis using f by (simp add: fits_def cacheKeys_def)
qed

lemma fits_same: "sameTables s s' \<Longrightarrow> fits V K s \<Longrightarrow> fits V K s'"
  by (simp add: fits_def same_views)

lemma fits_wrote: "wrote as s s' \<Longrightarrow> argKeys as \<subseteq> K \<Longrightarrow> fits V K s \<Longrightarrow> fits V K s'"
  by (auto simp: fits_def wrote_def)

lemma fits_stored: "stored d n h rows s s' \<Longrightarrow> argKeys (rowArgs d rows) \<subseteq> K \<Longrightarrow> fits V K s \<Longrightarrow> fits V K s'"
  by (auto simp: fits_def stored_def)

lemma validPoints_names: "fst ` set (validPoints L points) = {n \<in> set (trimmedNames points). n \<noteq> []}"
  by (auto simp: validPoints_def trimmedNames_def Let_def image_iff split: if_splits)

lemma sample_argKeys: "argKeys (argsOf L d) \<subseteq> sampleKeys d"
  unfolding argsOf_def argKeys_rows sampleKeys_def sampleRows_def set_append image_Un[of fst] validPoints_names
  by (intro image_mono Un_mono) auto

lemma argsOf_rowArgs: "argsOf L d = rowArgs (cd_DeviceID d) (sampleRows L d)"
  by (simp add: argsOf_def rowArgs_def)

lemma sampleRows_length: "length (sampleRows L d) \<le> length (cd_Fields d) + length (cd_Points d)"
proof -
  have "length (validPoints L (cd_Points d)) \<le> length (cd_Points d)"
    unfolding validPoints_length by (metis length_filter_le length_map trimmedNames_def)
  then show ?thesis by (simp add: sampleRows_def add_mono)
qed

section \<open>The outcome of a write\<close>

lemma same_recorded: "sameTables s s' \<Longrightarrow> recorded d n fs s' = recorded d n fs s"
  by (simp add: recorded_def same_views)

lemma same_kept:
  "sameTables s1 s2 \<Longrightarrow> kept d fs s s2 = kept d fs s s1" "sameTables s s1 \<Longrightarrow> kept d fs s1 s2 = kept d fs s s2"
  by (simp_all add: kept_def same_views)

lemma stored_same: "sameTables s1 s2 \<Longrightarrow> stored d n h rows s s2 = stored d n h rows s s1"
  unfolding stored_def by (simp only: same_recorded same_kept(1)) (simp add: same_views)

lemma same_stored: "sameTables s s1 \<Longrightarrow> stored d n h rows s1 s2 = stored d n h rows s s2"
  unfolding stored_def by (simp only: same_kept(2)) (simp add: same_views)

lemma wrote_stored: "wrote (rowArgs d rows) s s' \<Longrightarrow> stored d n False rows s s'"
  by (simp add: wrote_def stored_def)

definition written :: "golib \<Rightarrow> CollectData \<Rightarrow> bool \<Rightarrow> dataStore \<Rightarrow> dataStore \<Rightarrow> bool" where
  "written L d h s s' \<longleftrightarrow> (\<exists>n. (h \<longrightarrow> n = normalizeDeviceName (cd_DeviceID d) (cd_DeviceName d)) \<and>
     stored (cd_DeviceID d) n h (sampleRows L d) s s')"

lemma cacheOnly_outcome:
  assumes "distinct (map fst (cd_Fields d))"
    and "(if c then insertCollectDataCacheDirect V (Some d) s else insertCollectDataCacheChunkedDirect V (Some d) s) = (r, s')"
  shows "if r = None then wrote (argsOf (se_lib V) d) s s' else \<exists>as bs. argsOf (se_lib V) d = as @ bs \<and> wrote as s s'"
proof (cases c)
  case True
  obtain pe ee where "insertCollectDataCacheDirect V (Some d) s =
    (if argsOf (se_lib V) d = [] then (None, s) else execStmt V pe ee (cacheBatch V (argsOf (se_lib V) d)) s)"
    using direct_write[OF assms(1)] by blast
  with True assms(2) have run: "(if argsOf (se_lib V) d = [] then (None, s)
      else execStmt V pe ee (cacheBatch V (argsOf (se_lib V) d)) s) = (r, s')" by simp
  show ?thesis
  proof (cases "argsOf (se_lib V) d = []")
    case False
    with run cacheBatch_outcome have o: "if r = None then wrote (argsOf (se_lib V) d) s s' else sameTables s s'" by simp
    show ?thesis
    proof (cases r)
      case (Some e)
      with o have "wrote [] s s'" using wrote_same[OF wrote_Nil] by simp
      with Some show ?thesis by (metis append_Nil option.distinct(1))
    qed (use o in simp)
  qed (use run in simp)
next
  case False
  with assms(2) have "batchLoop collectDataCacheBatchSize (executeCacheStatement V) [] (argsOf (se_lib V) d) s = (r, s')"
    using chunked_write[OF assms(1), of V s] by simp
  then show ?thesis by (rule cacheLoop_outcome)
qed

lemma insert_outcome:
  assumes dist: "distinct (map fst (cd_Fields d))"
    and fit: "fits V K s" "sampleKeys d \<subseteq> K"
    and room: "int (length (ds_points s) + length (cd_Fields d) + length (cd_Points d)) \<le> se_maxDataPointsLimit V"
    and run: "InsertCollectDataWithOptions V (Some d) h s = (r, s')"
  shows "if r = None then written (se_lib V) d h s s'
    else if h then sameTables s s' else \<exists>as bs. argsOf (se_lib V) d = as @ bs \<and> wrote as s s'"
proof (cases "cd_Fields d = [] \<and> cd_Points d = []")
  case True
  then have "sampleRows (se_lib V) d = []" by (simp add: sampleRows_def validPoints_def)
  with True run show ?thesis by (auto simp: InsertCollectDataWithOptions_def written_def intro: stored_Nil)
next
  case ne: False
  have keys: "argKeys (argsOf (se_lib V) d) \<subseteq> K" using sample_argKeys fit(2) by blast
  show ?thesis
  proof (cases h)
    case False
    let ?c = "countCollectDataCacheRows (Some d) \<le> collectDataCacheBatchSize"
    obtain r1 s1 where w: "(if ?c then insertCollectDataCacheDirect V (Some d) s else insertCollectDataCacheChunkedDirect V (Some d) s) = (r1, s1)"
      by force
    note o = cacheOnly_outcome[OF dist w]
    show ?thesis
    proof (cases r1)
      case None
      then have w1: "wrote (argsOf (se_lib V) d) s s1" using o by simp
      have "fits V K s1" by (rule fits_wrote[OF w1 keys fit(1)])
      then have "sameTables s1 (maybeEnforceDataCacheLimit V s1)" by (intro maybeEnforceDataCacheLimit_same fits_length)
      moreover have "r = None" "s' = maybeEnforceDataCacheLimit V s1"
        using run w ne None False by (simp_all add: InsertCollectDataWithOptions_def split: if_splits)
      ultimately have "wrote (rowArgs (cd_DeviceID d) (sampleRows (se_lib V) d)) s s'"
        using wrote_same[OF w1] by (simp add: argsOf_rowArgs)
      with False \<open>r = None\<close> show ?thesis by (auto simp: written_def intro: wrote_stored)
    next
      case (Some e)
      then have "r = Some e" "s' = s1"
        using run w ne False by (simp_all add: InsertCollectDataWithOptions_def split: if_splits)
      with o Some False show ?thesis by simp
    qed
  next
    case True
    obtain r1 s1 where t: "inTransaction V ''failed to begin collect data transaction'' ''failed to commit collect data transaction''
        (insertCollectDataWithOptionsTx V (Some d) h) s = (r1, s1)" by force
    have run': "InsertCollectDataWithOptions V (Some d) h s =
      (case (r1, s1) of (Inl e, s) \<Rightarrow> (Some e, s)
       | (Inr historyCount, s) \<Rightarrow> let s = maybeEnforceDataCacheLimit V s
           in (None, if h \<and> historyCount > 0 then afterHistoryWrite V historyCount s else s))"
      unfolding InsertCollectDataWithOptions_def option.case t[symmetric] using True by (simp only: ne[THEN Eq_FalseI] if_False if_True simp_thms)
    note o = transaction_outcome[OF t]
    show ?thesis
    proof (cases r1)
      case (Inl e)
      with run run' o True show ?thesis by simp
    next
      case (Inr c)
      with o obtain s2 s3 where s2: "sameTables s s2" "insertCollectDataWithOptionsTx V (Some d) h s2 = (Inr c, s3)" "sameTables s3 s1"
        by auto
      from tx_outcome[OF dist s2(2)] obtain n where n: "n = normalizeDeviceName (cd_DeviceID d) (cd_DeviceName d)"
        "stored (cd_DeviceID d) n h (sampleRows (se_lib V) d) s2 s3" using True by auto
      have st: "stored (cd_DeviceID d) n h (sampleRows (se_lib V) d) s s1"
        using n(2) stored_same[OF s2(3)] same_stored[OF s2(1)] by blast
      have "fits V K s1" using fits_stored[OF st _ fit(1)] keys by (simp add: argsOf_rowArgs)
      then have e: "sameTables s1 (maybeEnforceDataCacheLimit V s1)" by (intro maybeEnforceDataCacheLimit_same fits_length)
      have "length (ds_points s1) \<le> length (ds_points s) + length (sampleRows (se_lib V) d)" using st True by (simp add: stored_def)
      then have "int (length (ds_points s1)) \<le> se_maxDataPointsLimit V" using room sampleRows_length[of "se_lib V" d] by linarith
      then have "sameTables s1 (afterHistoryWrite V c (maybeEnforceDataCacheLimit V s1))"
        using e afterHistoryWrite_same[of "maybeEnforceDataCacheLimit V s1" V c] same_trans by (simp add: same_views)
      with e run run' Inr have "r = None" "sameTables s1 s'" by (auto simp: Let_def split: if_splits)
      then show ?thesis using n(1) stored_same st True by (auto simp: written_def)
    qed
  qed
qed

section \<open>Writes that do not fail\<close>

definition quiet :: "sqlEnv \<Rightarrow> dataStore \<Rightarrow> bool" where
  "quiet V s \<longleftrightarrow> (\<forall>k \<ge> ds_execs s. se_fault V k = None)"

lemma quiet_mono: "quiet V s \<Longrightarrow> ds_execs s \<le> ds_execs s' \<Longrightarrow> quiet V s'"
  by (simp add: quiet_def)

lemma execStmt_quiet:
  assumes "execStmt V pe ee stmt s = (r, s')" and "\<And>now t. \<exists>t'. stmt now t = Some t' \<and> ds_execs t' = ds_execs t"
  shows "if r = None then quiet V s \<longrightarrow> quiet V s' else \<not> quiet V s"
proof -
  let ?s = "s\<lparr>ds_execs := Suc (ds_execs s)\<rparr>"
  obtain t' where t: "stmt (se_timestamp V (ds_execs s)) ?s = Some t'" "ds_execs t' = Suc (ds_execs s)"
    using assms(2)[of "se_timestamp V (ds_execs s)" ?s] by auto
  then show ?thesis using assms(1)
    by (auto simp: execStmt_def quiet_def Let_def split: option.splits sqlFault.splits)
qed

lemma fold_upsert_execs: "ds_execs (fold (upsertCache V now) args t) = ds_execs t"
  by (induction args arbitrary: t) (simp_all add: upsertCache_frame del: upsertCache.simps)

lemma cache_quiet: "execStmt V pe ee (cacheBatch V args) s = (r, s') \<Longrightarrow> if r = None then quiet V s \<longrightarrow> quiet V s' else \<not> quiet V s"
  by (erule execStmt_quiet) (simp_all add: cacheBatch_def fold_upsert_execs)

lemma replaceRows_execs: "ds_execs (replaceRows V d n now rows t) = ds_execs t"
  unfolding replaceRows_def by (induction rows arbitrary: t) (auto simp: replacePoint_frame simp del: replacePoint.simps)

lemma history_quiet:
  "execStmt V pe ee (replaceBatch V (map (\<lambda>(f, v). (d, n, f, v, collectDataValueTypeString)) rows)) s = (r, s') \<Longrightarrow>
   if r = None then quiet V s \<longrightarrow> quiet V s' else \<not> quiet V s"
  by (erule execStmt_quiet) (simp_all add: replaceBatch_rows replaceRows_execs)

lemma skip_quiet: "execStmt V pe ee (\<lambda>_. Some) s = (r, s') \<Longrightarrow> if r = None then quiet V s \<longrightarrow> quiet V s' else \<not> quiet V s"
  by (erule execStmt_quiet) simp

lemma flush_quiet:
  assumes "flushCollectDataArgs V d n h rows s = (r, s')"
  shows "if r = None then quiet V s \<longrightarrow> quiet V s' else \<not> quiet V s"
proof (cases "rows = []")
  case True
  with assms show ?thesis by (auto simp: flushCollectDataArgs_def)
next
  case False
  obtain r1 s1 where c: "executeCacheStatement V (map (\<lambda>(f, v). (d, f, v, collectDataValueTypeString)) rows) s = (r1, s1)" by force
  then have q1: "if r1 = None then quiet V s \<longrightarrow> quiet V s1 else \<not> quiet V s"
    unfolding executeCacheStatement_def by (rule cache_quiet)
  show ?thesis
  proof (cases "r1 = None \<and> h")
    case True
    then have "execStmt V ''failed to prepare data point batch statement'' ''failed to upsert data point batch''
        (replaceBatch V (map (\<lambda>(f, v). (d, n, f, v, collectDataValueTypeString)) rows)) s1 = (r, s')"
      using assms False c
      by (simp add: flushCollectDataArgs_def executeCollectDataCacheBatchWithArgs_def executeCollectDataHistoryBatchWithArgs_def)
    from history_quiet[OF this] q1 True show ?thesis by (auto split: if_splits)
  next
    case nt: False
    with assms False c q1 show ?thesis
      by (cases r1) (auto simp: flushCollectDataArgs_def executeCollectDataCacheBatchWithArgs_def)
  qed
qed

lemma batchLoop_quiet:
  assumes "\<And>b s r s'. flush b s = (r, s') \<Longrightarrow> if r = None then quiet V s \<longrightarrow> quiet V s' else \<not> quiet V s"
    and "batchLoop n flush [] rows s = (r, s')"
  shows "if r = None then quiet V s \<longrightarrow> quiet V s' else \<not> quiet V s"
proof -
  have "if r = None then quiet V s \<longrightarrow> quiet V s'
    else \<exists>as bs s1. [] @ rows = as @ bs \<and> (quiet V s \<longrightarrow> quiet V s1) \<and> \<not> quiet V s1"
    by (rule batchLoop_outcome[where W = "\<lambda>_ s s'. quiet V s \<longrightarrow> quiet V s'" and F = "\<lambda>s _. \<not> quiet V s", OF _ _ _ assms(2)])
      (use assms(1) in auto)
  then show ?thesis by (auto split: if_splits)
qed

lemma tx_quiet:
  assumes "insertCollectDataWithOptionsTx V (Some d) h s = (r, s')"
  shows "case r of Inr _ \<Rightarrow> quiet V s \<longrightarrow> quiet V s' | Inl _ \<Rightarrow> \<not> quiet V s"
proof (cases "cd_Fields d = [] \<and> cd_Points d = []")
  case True
  with assms show ?thesis by (auto simp: insertCollectDataWithOptionsTx_def)
next
  case False
  have "\<exists>n cap rows c. insertCollectDataWithOptionsTx V (Some d) h s =
    (case batchLoop cap (flushCollectDataArgs V (cd_DeviceID d) n h) [] rows s of (Some e, s) \<Rightarrow> (Inl e, s) | (None, s) \<Rightarrow> (Inr c, s))"
    unfolding insertCollectDataWithOptionsTx_def option.case False[THEN Eq_FalseI] if_False Let_def by blast
  then obtain n cap rows c where i: "insertCollectDataWithOptionsTx V (Some d) h s =
    (case batchLoop cap (flushCollectDataArgs V (cd_DeviceID d) n h) [] rows s of (Some e, s) \<Rightarrow> (Inl e, s) | (None, s) \<Rightarrow> (Inr c, s))"
    by blast
  obtain r1 s1 where run: "batchLoop cap (flushCollectDataArgs V (cd_DeviceID d) n h) [] rows s = (r1, s1)" by force
  from batchLoop_quiet[OF flush_quiet run] i assms run show ?thesis by (cases r1) auto
qed

lemma count_execs: "execStmt V pe ee (\<lambda>_. Some) s = (r, s') \<Longrightarrow> ds_execs s \<le> ds_execs s'"
  using execStmt_cases by fastforce

lemma enforceDataCacheLimit_execs: "ds_execs s \<le> ds_execs (enforceDataCacheLimit V s)"
  by (auto simp: enforceDataCacheLimit_def execStmt_def Let_def split: option.split sqlFault.split)

lemma enforceDataPointsLimit_execs: "ds_execs s \<le> ds_execs (enforceDataPointsLimit V s)"
  by (auto simp: enforceDataPointsLimit_def execStmt_def Let_def split: option.split sqlFault.split)

lemma maybe_execs: "ds_execs s \<le> ds_execs (maybeEnforceDataCacheLimit V s)" "ds_execs s \<le> ds_execs (maybeEnforceDataPointsLimit V s)"
proof -
  have "ds_execs s \<le> ds_execs (enforceDataCacheLimit V (s\<lparr>ds_cacheWrites := a, ds_cacheLastCleanup := b\<rparr>))" for a b
    using enforceDataCacheLimit_execs[of "s\<lparr>ds_cacheWrites := a, ds_cacheLastCleanup := b\<rparr>" V] by simp
  then show "ds_execs s \<le> ds_execs (maybeEnforceDataCacheLimit V s)" by (simp add: maybeEnforceDataCacheLimit_def Let_def)
  have "ds_execs s \<le> ds_execs (enforceDataPointsLimit V (s\<lparr>ds_pointWrites := a, ds_pointLastCleanup := b\<rparr>))" for a b
    using enforceDataPointsLimit_execs[of "s\<lparr>ds_pointWrites := a, ds_pointLastCleanup := b\<rparr>" V] by simp
  then show "ds_execs s \<le> ds_execs (maybeEnforceDataPointsLimit V s)" by (simp add: maybeEnforceDataPointsLimit_def Let_def)
qed

lemma after_execs: "ds_execs s \<le> ds_execs (afterHistoryWrite V n s)"
proof -
  have "ds_execs t \<le> ds_execs (snd (TriggerSyncIfNeeded V t))" for t
    by (auto simp: TriggerSyncIfNeeded_def triggerDataSyncAsync_def execStmt_def Let_def split: option.split sqlFault.split)
  moreover have "ds_execs (noteHistoryRowsWritten m s) = ds_execs s" for m by (simp add: noteHistoryRowsWritten_def)
  ultimately show ?thesis unfolding afterHistoryWrite_def using maybe_execs(2) le_trans by metis
qed

lemma transaction_quiet:
  assumes "\<And>s r s'. body s = (r, s') \<Longrightarrow> case r of Inr _ \<Rightarrow> quiet V s \<longrightarrow> quiet V s' | Inl _ \<Rightarrow> \<not> quiet V s"
    and "inTransaction V be ce body s = (r, s')"
  shows "case r of Inr _ \<Rightarrow> quiet V s \<longrightarrow> quiet V s' | Inl _ \<Rightarrow> \<not> quiet V s"
proof -
  obtain r1 s1 where b: "execStmt V be be (\<lambda>_. Some) s = (r1, s1)" by force
  note q1 = skip_quiet[OF b]
  obtain r2 s2 where y: "body s1 = (r2, s2)" by force
  note q2 = assms(1)[OF y]
  obtain r3 s3 where c: "execStmt V ce ce (\<lambda>_. Some) s2 = (r3, s3)" by force
  note q3 = skip_quiet[OF c]
  show ?thesis using assms(2) b y c q1 q2 q3
    by (auto simp: inTransaction_def split: option.splits sum.splits)
qed

lemma insert_quiet:
  assumes "InsertCollectDataWithOptions V (Some d) h s = (r, s')" and dist: "distinct (map fst (cd_Fields d))"
  shows "if r = None then quiet V s \<longrightarrow> quiet V s' else \<not> quiet V s"
proof (cases "cd_Fields d = [] \<and> cd_Points d = []")
  case True
  with assms(1) show ?thesis by (auto simp: InsertCollectDataWithOptions_def)
next
  case ne: False
  note unf = InsertCollectDataWithOptions_def option.case ne[THEN Eq_FalseI] if_False
  show ?thesis
  proof (cases h)
    case False
    let ?c = "countCollectDataCacheRows (Some d) \<le> collectDataCacheBatchSize"
    obtain r1 s1 where w: "(if ?c then insertCollectDataCacheDirect V (Some d) s else insertCollectDataCacheChunkedDirect V (Some d) s) = (r1, s1)"
      by force
    have q: "if r1 = None then quiet V s \<longrightarrow> quiet V s1 else \<not> quiet V s"
    proof (cases ?c)
      case True
      obtain pe ee where "insertCollectDataCacheDirect V (Some d) s =
          (if argsOf (se_lib V) d = [] then (None, s) else execStmt V pe ee (cacheBatch V (argsOf (se_lib V) d)) s)"
        using direct_write[OF dist] by blast
      with w True show ?thesis using cache_quiet by (auto split: if_splits)
    next
      case False
      with w have "batchLoop collectDataCacheBatchSize (executeCacheStatement V) [] (argsOf (se_lib V) d) s = (r1, s1)"
        using chunked_write[OF dist, of V s] by simp
      then show ?thesis by (rule batchLoop_quiet[rotated]) (simp add: executeCacheStatement_def cache_quiet)
    qed
    have "InsertCollectDataWithOptions V (Some d) h s =
        (case (r1, s1) of (Some e, s) \<Rightarrow> (Some e, s) | (None, s) \<Rightarrow> (None, maybeEnforceDataCacheLimit V s))"
      unfolding unf w[symmetric] using False by (simp only: if_True simp_thms)
    with assms(1) q show ?thesis using quiet_mono[OF _ maybe_execs(1)] by (auto split: option.splits if_splits)
  next
    case True
    obtain r1 s1 where t: "inTransaction V ''failed to begin collect data transaction'' ''failed to commit collect data transaction''
        (insertCollectDataWithOptionsTx V (Some d) h) s = (r1, s1)" by force
    have "InsertCollectDataWithOptions V (Some d) h s =
      (case (r1, s1) of (Inl e, s) \<Rightarrow> (Some e, s)
       | (Inr historyCount, s) \<Rightarrow> let s = maybeEnforceDataCacheLimit V s
           in (None, if h \<and> historyCount > 0 then afterHistoryWrite V historyCount s else s))"
      unfolding unf t[symmetric] using True by (simp only: if_False if_True simp_thms)
    with assms(1) have run: "(r, s') = (case r1 of Inl e \<Rightarrow> (Some e, s1)
       | Inr c \<Rightarrow> (None, if h \<and> c > 0 then afterHistoryWrite V c (maybeEnforceDataCacheLimit V s1) else maybeEnforceDataCacheLimit V s1))"
      by (auto simp: Let_def split: sum.splits)
    have "quiet V s1 \<Longrightarrow> quiet V (maybeEnforceDataCacheLimit V s1)" "quiet V s1 \<Longrightarrow> quiet V (afterHistoryWrite V c (maybeEnforceDataCacheLimit V s1))" for c
      using quiet_mono maybe_execs(1) after_execs le_trans by metis+
    with run transaction_quiet[OF tx_quiet t] show ?thesis by (auto split: sum.splits)
  qed
qed

section \<open>Saved entries\<close>

lemma default_types:
  "allEntriesUseDefaultCollectDataValueType entries \<Longrightarrow> e \<in> set entries \<Longrightarrow>
   normalizedCollectDataValueType (de_ValueType e) = collectDataValueTypeString"
  by (auto simp: allEntriesUseDefaultCollectDataValueType_def normalizedCollectDataValueType_def list_ex_iff)

text \<open>The two statements store the same rows.\<close>

lemma entryCacheArg_type:
  "map (entryCacheArg (allEntriesUseDefaultCollectDataValueType entries)) entries = map (entryCacheArg False) entries"
  using default_types by (auto simp: entryCacheArg_def)

lemma entryPointArg_type:
  "map (entryPointArg (allEntriesUseDefaultCollectDataValueType entries) now) entries = map (entryPointArg False now) entries"
  using default_types by (auto simp: entryPointArg_def)

fun pointOf :: "int \<Rightarrow> pointArg \<Rightarrow> DataPoint" where
  "pointOf i (d, n, f, v, t, at) = \<lparr>hp_ID = i, hp_DeviceID = d, hp_DeviceName = n, hp_FieldName = f, hp_Value = v,
     hp_ValueType = t, hp_CollectedAt = at\<rparr>"

fun pointIDs :: "sqlEnv \<Rightarrow> int \<Rightarrow> nat \<Rightarrow> int list" where
  "pointIDs V q 0 = []"
| "pointIDs V q (Suc n) = se_newID V q # pointIDs V (se_newID V q) n"

definition insertedAll :: "sqlEnv \<Rightarrow> pointArg list \<Rightarrow> dataStore \<Rightarrow> dataStore \<Rightarrow> bool" where
  "insertedAll V args s s' \<longleftrightarrow> ds_points s' = ds_points s @ map2 pointOf (pointIDs V (ds_pointsSeq s) (length args)) args \<and>
     ds_cache s' = ds_cache s \<and> ds_pointsSeq s' = fold (\<lambda>_. se_newID V) args (ds_pointsSeq s)"

lemma insertBatch_all: "insertBatch V args s = Some s' \<Longrightarrow> insertedAll V args s s'"
proof (induction args arbitrary: s)
  case (Cons a args)
  obtain d n f v t at where a: "a = (d, n, f, v, t, at)" by (cases a)
  with Cons.prems have "insertBatch V args (appendPoint V a s) = Some s'" by (auto split: if_splits)
  from Cons.IH[OF this] a show ?case by (simp add: insertedAll_def Let_def)
qed (simp add: insertedAll_def)

lemma pointIDs_append: "pointIDs V q (m + n) = pointIDs V q m @ pointIDs V ((se_newID V ^^ m) q) n"
  by (induction m arbitrary: q) (simp_all add: funpow_swap1)

lemma fold_newID: "fold (\<lambda>_. se_newID V) args q = (se_newID V ^^ length args) q"
  by (induction args arbitrary: q) (simp_all add: funpow_swap1)

lemma pointIDs_length [simp]: "length (pointIDs V q n) = n"
  by (induction n arbitrary: q) simp_all

lemma insertedAll_trans: "insertedAll V a s s1 \<Longrightarrow> insertedAll V b s1 s2 \<Longrightarrow> insertedAll V (a @ b) s s2"
  by (auto simp: insertedAll_def fold_newID pointIDs_append)

text \<open>Like \<open>sameTables\<close>, with the sequence of the identifiers.\<close>

definition samePoints :: "dataStore \<Rightarrow> dataStore \<Rightarrow> bool" where
  "samePoints s s' \<longleftrightarrow> ds_points s' = ds_points s \<and> ds_cache s' = ds_cache s \<and> ds_pointsSeq s' = ds_pointsSeq s"

lemma insertBatch_exec:
  "execStmt V pe ee (\<lambda>_. insertBatch V args) s = (r, s') \<Longrightarrow> if r = None then insertedAll V args s s' else samePoints s s'"
  using execStmt_cases[of V pe ee "\<lambda>_. insertBatch V args" s r s'] insertBatch_all
  by (fastforce simp: insertedAll_def samePoints_def)

lemma skip_same: "execStmt V pe ee (\<lambda>_. Some) s = (r, s') \<Longrightarrow> samePoints s s'"
  using execStmt_cases by (fastforce simp: samePoints_def)

lemma transaction_success:
  assumes "inTransaction V be ce body s = (Inr x, s')"
  shows "\<exists>s1 s2. samePoints s s1 \<and> body s1 = (Inr x, s2) \<and> samePoints s2 s'"
proof -
  obtain r1 s1 where b: "execStmt V be be (\<lambda>_. Some) s = (r1, s1)" by force
  with assms have n1: "r1 = None" by (cases r1) (auto simp: inTransaction_def)
  obtain r2 s2 where y: "body s1 = (r2, s2)" by force
  with assms b n1 obtain z where z: "r2 = Inr z" by (cases r2) (auto simp: inTransaction_def)
  obtain r3 s3 where c: "execStmt V ce ce (\<lambda>_. Some) s2 = (r3, s3)" by force
  with assms b n1 y z have "r3 = None" by (cases r3) (auto simp: inTransaction_def)
  with assms b n1 y z c have "z = x" "s3 = s'" by (auto simp: inTransaction_def)
  with skip_same[OF b] skip_same[OF c] y z show ?thesis by blast
qed

lemma insertedAll_rows:
  "insertedAll V args s s' \<Longrightarrow> \<exists>new. ds_points s' = ds_points s @ new \<and> map (\<lambda>p. (hp_DeviceID p, hp_DeviceName p, hp_FieldName p,
     hp_Value p, hp_ValueType p, hp_CollectedAt p)) new = args \<and> ds_cache s' = ds_cache s"
proof -
  assume i: "insertedAll V args s s'"
  have "length ids = length as \<Longrightarrow> map (\<lambda>p. (hp_DeviceID p, hp_DeviceName p, hp_FieldName p, hp_Value p, hp_ValueType p,
      hp_CollectedAt p)) (map2 pointOf ids as) = as" for ids as
    by (induction ids as rule: list_induct2) auto
  with i show ?thesis by (simp add: insertedAll_def)
qed

text \<open>What the cache shows after a sample: its fields with its points merged into them.\<close>

definition applySample :: "golib \<Rightarrow> CollectData \<Rightarrow> (int \<times> string \<Rightarrow> string option) \<Rightarrow> int \<times> string \<Rightarrow> string option" where
  "applySample L d m = (\<lambda>(i, f). if i = cd_DeviceID d
     then (case map_of (mergePoints L (cd_Fields d) (cd_Points d)) f of Some v \<Rightarrow> Some v | None \<Rightarrow> m (i, f)) else m (i, f))"

lemma override_sample: "distinct (map fst (cd_Fields d)) \<Longrightarrow> override (argsOf L d) m = applySample L d m"
  by (auto simp: argsOf_def override_lookup sampleRows_merge applySample_def)

section \<open>Properties of the writes\<close>

text \<open>An example: no faults, the limits of the program.\<close>

definition exampleEnv :: sqlEnv where
  "exampleEnv = \<lparr>se_lib = \<lparr>uniLower = id, uniUpper = id, parseFloat = \<lambda>_. None, formatFloat = \<lambda>_ _. []\<rparr>,
     se_fault = \<lambda>_. None, se_timestamp = int, se_unixNano = \<lambda>_. 0, se_newID = \<lambda>i. i + 1,
     se_ascending = \<lambda>rows. map fst (sort_key snd rows), se_descending = \<lambda>rows. map fst (rev (sort_key snd rows)),
     se_maxDataPointsLimit = 20000, se_maxDataCacheLimit = 15000, se_syncBatchTrigger = 1000\<rparr>"

definition emptyStore :: dataStore where
  "emptyStore = \<lparr>ds_cache = [], ds_cacheSeq = 0, ds_points = [], ds_pointsSeq = 0, ds_execs = 0, ds_cacheWrites = 0,
     ds_cacheLastCleanup = 0, ds_pointWrites = 0, ds_pointLastCleanup = 0, ds_pending = 0, ds_dirty = False, ds_syncTriggered = False\<rparr>"

definition exampleSample :: CollectData where
  "exampleSample = \<lparr>cd_DeviceID = 1, cd_DeviceName = ''d'', cd_ProductKey = [], cd_DeviceKey = [], cd_Timestamp = 5,
     cd_Fields = [(''a'', ''1''), (''b'', ''2'')], cd_Points = [\<lparr>cp_FieldName = ''b'', cp_Value = AnyString ''3'', cp_RW = []\<rparr>],
     cd_fieldsDone = False\<rparr>"

lemma example_fits: "finite K \<Longrightarrow> card K \<le> 15000 \<Longrightarrow> fits exampleEnv K emptyStore"
  by (simp add: fits_def exampleEnv_def emptyStore_def cacheKeys_def)

lemma example_keys: "sampleKeys exampleSample = {(1, ''a''), (1, ''b'')}"
  by (auto simp: sampleKeys_def exampleSample_def trimmedNames_def trim_eqs TrimSpace_plain ascii_eval)

lemma example_merge: "map_of (mergePoints L (cd_Fields exampleSample) (cd_Points exampleSample)) ''b'' = Some ''3''"
  "map_of (mergePoints L (cd_Fields exampleSample) (cd_Points exampleSample)) ''a'' = Some ''1''"
  by (simp_all add: exampleSample_def trim_eqs TrimSpace_plain ascii_eval CollectPointValueString_def Let_def)

lemma example_quiet: "quiet exampleEnv s"
  by (simp add: quiet_def exampleEnv_def)

text \<open>C16: Writing a sample, whichever statements fail. If the write succeeds, the cache shows the sample's
  fields with its points merged into them, whatever the fast paths, the batches of a hundred rows
  and the order of the map did, and every other field as before; a history write has put each field
  with this value under the normalised device name into the history, and without history the
  history is untouched. If a history write fails, nothing has changed at all.\<close>
theorem collect_write_outcome:
  assumes "distinct (map fst (cd_Fields d))" and "fits V K s" and "sampleKeys d \<subseteq> K"
    and "int (length (ds_points s) + length (cd_Fields d) + length (cd_Points d)) \<le> se_maxDataPointsLimit V"
    and "InsertCollectDataWithOptions V (Some d) h s = (r, s')"
  shows "(r = None \<longrightarrow> cacheView s' = applySample (se_lib V) d (cacheView s) \<and>
      (if h then \<forall>f v. map_of (mergePoints (se_lib V) (cd_Fields d) (cd_Points d)) f = Some v \<longrightarrow>
           (\<exists>p \<in> set (ds_points s'). hp_DeviceID p = cd_DeviceID d \<and> hp_FieldName p = f \<and> hp_Value p = v \<and>
             hp_DeviceName p = normalizeDeviceName (cd_DeviceID d) (cd_DeviceName d))
       else ds_points s' = ds_points s)) \<and>
    (r \<noteq> None \<and> h \<longrightarrow> ds_cache s' = ds_cache s \<and> ds_points s' = ds_points s)"
proof (cases "r = None")
  case False
  with insert_outcome[OF assms] show ?thesis by (auto simp: sameTables_def)
next
  case True
  with insert_outcome[OF assms] obtain n where n: "h \<Longrightarrow> n = normalizeDeviceName (cd_DeviceID d) (cd_DeviceName d)"
    and st: "stored (cd_DeviceID d) n h (sampleRows (se_lib V) d) s s'" by (auto simp: written_def)
  have view: "cacheView s' = applySample (se_lib V) d (cacheView s)"
    using st override_sample[OF assms(1), of "se_lib V" "cacheView s"] by (simp add: stored_def argsOf_rowArgs)
  have "\<exists>p \<in> set (ds_points s'). hp_DeviceID p = cd_DeviceID d \<and> hp_FieldName p = f \<and> hp_Value p = v \<and>
      hp_DeviceName p = normalizeDeviceName (cd_DeviceID d) (cd_DeviceName d)"
    if h: h and f: "map_of (mergePoints (se_lib V) (cd_Fields d) (cd_Points d)) f = Some v" for f v
  proof -
    have m: "map_of (rev (sampleRows (se_lib V) d)) f = Some v" using f sampleRows_merge[OF assms(1)] by simp
    then have "f \<in> fst ` set (sampleRows (se_lib V) d)" by (metis map_of_eq_None_iff option.distinct(1) set_rev)
    moreover have "recorded (cd_DeviceID d) n (fst ` set (sampleRows (se_lib V) d)) s'" using st h by (simp add: stored_def)
    ultimately obtain p where "p \<in> set (ds_points s')" "hp_DeviceID p = cd_DeviceID d" "hp_DeviceName p = n" "hp_FieldName p = f"
      "cacheView s' (cd_DeviceID d, f) = Some (hp_Value p)" unfolding recorded_def by blast
    moreover have "cacheView s' (cd_DeviceID d, f) = Some v" using view f by (simp add: applySample_def)
    ultimately show ?thesis using n[OF h] by auto
  qed
  moreover have "ds_points s' = ds_points s" if "\<not> h" using st that by (simp add: stored_def)
  ultimately show ?thesis using True view by auto
qed

theorem collect_write_outcome_witness:
  "cacheView (snd (InsertCollectDataWithOptions exampleEnv (Some exampleSample) True emptyStore)) (1, ''b'') = Some ''3''"
proof -
  obtain r s' where run: "InsertCollectDataWithOptions exampleEnv (Some exampleSample) True emptyStore = (r, s')" by force
  have dist: "distinct (map fst (cd_Fields exampleSample))" by (simp add: exampleSample_def)
  have "r = None" using insert_quiet[OF run dist] example_quiet by (auto split: if_splits)
  moreover have "fits exampleEnv {(1, ''a''), (1, ''b'')} emptyStore" by (intro example_fits) auto
  ultimately show ?thesis
    using collect_write_outcome[OF dist _ _ _ run, of "{(1, ''a''), (1, ''b'')}"] run example_keys example_merge(1)
    by (simp add: applySample_def) (simp add: exampleSample_def exampleEnv_def emptyStore_def)
qed

text \<open>C38: Saving a list of history entries is all or nothing, for one statement as well as for the transaction of several. On
  success the entries are in the history, in order and behind the rows that were there, with the
  normalised device name and value type and with the instant of the call where an entry has none; on
  any error, a violated uniqueness included, the tables are as before.\<close>
theorem entries_saved_atomically:
  assumes "int (length (ds_points s) + length entries) \<le> se_maxDataPointsLimit V"
    and "BatchSaveDataPoints V now entries s = (r, s')"
  shows "ds_cache s' = ds_cache s \<and>
    (if r = None then \<exists>new. ds_points s' = ds_points s @ new \<and>
       map (\<lambda>p. (hp_DeviceID p, hp_DeviceName p, hp_FieldName p, hp_Value p, hp_ValueType p, hp_CollectedAt p)) new =
       map (\<lambda>e. (de_DeviceID e, normalizeDeviceName (de_DeviceID e) (de_DeviceName e), de_FieldName e, de_Value e,
         normalizedCollectDataValueType (de_ValueType e), if IsZero (de_CollectedAt e) then now else de_CollectedAt e)) entries
     else ds_points s' = ds_points s)"
proof (cases "entries = []")
  case True
  with assms(2) show ?thesis by (simp add: BatchSaveDataPoints_def)
next
  case ne: False
  let ?args = "map (entryPointArg (allEntriesUseDefaultCollectDataValueType entries) now) entries"
  have args: "?args = map (\<lambda>e. (de_DeviceID e, normalizeDeviceName (de_DeviceID e) (de_DeviceName e), de_FieldName e, de_Value e,
         normalizedCollectDataValueType (de_ValueType e), if IsZero (de_CollectedAt e) then now else de_CollectedAt e)) entries"
    unfolding entryPointArg_type by (simp add: entryPointArg_def)
  have tail: ?thesis if "r = None" "insertedAll V ?args s s1" "s' = afterHistoryWrite V (length entries) s1" for s1
  proof -
    have new: "\<exists>new. ds_points s1 = ds_points s @ new \<and> map (\<lambda>p. (hp_DeviceID p, hp_DeviceName p, hp_FieldName p,
      hp_Value p, hp_ValueType p, hp_CollectedAt p)) new = ?args \<and> ds_cache s1 = ds_cache s" by (rule insertedAll_rows[OF that(2)])
    have "length (ds_points s1) = length (ds_points s) + length entries" using that(2) by (simp add: insertedAll_def)
    then have "int (length (ds_points s1)) \<le> se_maxDataPointsLimit V" using assms(1) by simp
    from afterHistoryWrite_same[OF this] new that args show ?thesis by (auto simp: sameTables_def)
  qed
  show ?thesis
  proof (cases "length entries \<le> collectDataHistoryBatchSize")
    case True
    obtain r1 s1 where e: "batchSaveDataPointsDirect V now entries (allEntriesUseDefaultCollectDataValueType entries) s = (r1, s1)" by force
    then have o: "if r1 = None then insertedAll V ?args s s1 else samePoints s s1"
      unfolding batchSaveDataPointsDirect_def by (rule insertBatch_exec)
    show ?thesis
    proof (cases r1)
      case None
      with tail[of s1] o e assms(2) ne True show ?thesis by (simp add: BatchSaveDataPoints_def Let_def)
    next
      case (Some x)
      with o e assms(2) ne True show ?thesis by (auto simp: BatchSaveDataPoints_def samePoints_def Let_def)
    qed
  next
    case False
    let ?flush = "\<lambda>args. execStmt V ''failed to insert data point'' ''failed to insert data point'' (\<lambda>_. insertBatch V args)"
    let ?body = "\<lambda>s. case batchLoop collectDataHistoryBatchSize ?flush [] ?args s of
      (Some e, s) \<Rightarrow> (Inl e, s) | (None, s) \<Rightarrow> (Inr (), s)"
    obtain r1 s1 where t: "inTransaction V ''failed to begin transaction'' ''failed to commit transaction'' ?body s = (r1, s1)" by force
    have run: "(r, s') = (case r1 of Inl e \<Rightarrow> (Some e, s1) | Inr _ \<Rightarrow> (None, afterHistoryWrite V (length entries) s1))"
      using assms(2) ne False t by (auto simp: BatchSaveDataPoints_def Let_def split: sum.splits)
    show ?thesis
    proof (cases r1)
      case (Inl e)
      with transaction_outcome[OF t] run show ?thesis by (auto simp: sameTables_def)
    next
      case (Inr u)
      then have "inTransaction V ''failed to begin transaction'' ''failed to commit transaction'' ?body s = (Inr u, s1)"
        using t by (simp only:)
      from transaction_success[OF this]
      obtain s2 s3 where s2: "samePoints s s2" and "?body s2 = (Inr u, s3)" and s1: "samePoints s3 s1" by blast
      then have l: "batchLoop collectDataHistoryBatchSize ?flush [] ?args s2 = (None, s3)" by (auto split: prod.splits option.splits)
      have "if (None :: string option) = None then insertedAll V ([] @ ?args) s2 s3 else \<exists>as bs t. [] @ ?args = as @ bs \<and> insertedAll V as s2 t \<and> samePoints t s3"
      proof (rule batchLoop_outcome[where W = "insertedAll V" and F = samePoints and flush = ?flush, OF _ _ _ l])
        show "if r = None then insertedAll V b s s' else samePoints s s'" if "?flush b s = (r, s')" for b s r s'
          using that by (rule insertBatch_exec)
        show "insertedAll V [] s s" for s by (simp add: insertedAll_def)
      qed (rule insertedAll_trans)
      then have "insertedAll V ?args s s1" using s1 s2 by (simp add: insertedAll_def samePoints_def)
      with tail[of s1] run Inr show ?thesis by simp
    qed
  qed
qed

theorem entries_saved_atomically_witness:
  "ds_cache (snd (BatchSaveDataPoints exampleEnv 7 [\<lparr>de_DeviceID = 1, de_DeviceName = ''d'', de_FieldName = ''a'', de_Value = ''1'',
     de_ValueType = [], de_CollectedAt = 0\<rparr>] emptyStore)) = []"
proof -
  let ?es = "[\<lparr>de_DeviceID = 1, de_DeviceName = ''d'', de_FieldName = ''a'', de_Value = ''1'', de_ValueType = [], de_CollectedAt = 0\<rparr>]"
  obtain r s' where run: "BatchSaveDataPoints exampleEnv 7 ?es emptyStore = (r, s')" by force
  have "int (length (ds_points emptyStore) + length ?es) \<le> se_maxDataPointsLimit exampleEnv"
    by (simp add: exampleEnv_def emptyStore_def)
  from entries_saved_atomically[OF this run] run show ?thesis by (simp add: emptyStore_def)
qed

end
