(* ===== verification/Sample_Writer.thy ===== *)
theory Sample_Writer
  imports Sample_Store "HOL-Library.Multiset"
begin

text \<open>
  Batches of samples and the asynchronous writer (\<open>database/collect_write_queue.go\<close>) over the writes of
  \<open>Sample_Store\<close>. The callers and the writer's goroutine are steps in any order; a batch that fails is
  written sample by sample.
\<close>

section \<open>Batches of samples and the writer\<close>

record collectWriteRequest =
  wr_data :: CollectData
  wr_storeHistory :: bool

definition collectWriteQueueCap :: nat where "collectWriteQueueCap = 64"
definition collectWriteMaxBatchItems :: nat where "collectWriteMaxBatchItems = 16"

text \<open>\<open>args\<close> are the rows collected so far.\<close>

fun cacheOnlyLoop :: "sqlEnv \<Rightarrow> cacheArg list \<Rightarrow> collectWriteRequest list \<Rightarrow> dataStore \<Rightarrow> string option \<times> dataStore" where
  "cacheOnlyLoop V args [] s = (if args = [] then (None, s) else executeCacheStatement V args s)"
| "cacheOnlyLoop V args (item # items) s =
     (if wr_storeHistory item then (Some ''history write present'', s)
      else let shape = buildCollectDataCacheShape (Some (wr_data item)); rows = sh_rows shape
           in if rows = 0 then cacheOnlyLoop V args items s
              else if rows > collectDataCacheBatchSize then (Some ''cache item too large'', s)
              else if args \<noteq> [] \<and> length args + rows > collectDataCacheBatchSize
              then (case executeCacheStatement V args s of
                      (Some e, s) \<Rightarrow> (Some e, s)
                    | (None, s) \<Rightarrow>
                        cacheOnlyLoop V (appendCollectDataCacheArgsForDataWithShape (se_lib V) [] (Some (wr_data item)) shape) items s)
              else cacheOnlyLoop V (appendCollectDataCacheArgsForDataWithShape (se_lib V) args (Some (wr_data item)) shape) items s)"

definition writeCollectDataCacheOnlyBatchDirect ::
  "sqlEnv \<Rightarrow> collectWriteRequest list \<Rightarrow> dataStore \<Rightarrow> string option \<times> dataStore" where
  "writeCollectDataCacheOnlyBatchDirect V items s = cacheOnlyLoop V [] items s"

fun writeCollectDataBatchItemsWithTx ::
  "sqlEnv \<Rightarrow> collectWriteRequest list \<Rightarrow> nat \<Rightarrow> dataStore \<Rightarrow> nat fallible \<times> dataStore" where
  "writeCollectDataBatchItemsWithTx V [] historyRows s = (Inr historyRows, s)"
| "writeCollectDataBatchItemsWithTx V (item # items) historyRows s =
     (case insertCollectDataWithOptionsTx V (Some (wr_data item)) (wr_storeHistory item) s of
        (Inl e, s) \<Rightarrow> (Inl e, s)
      | (Inr n, s) \<Rightarrow> writeCollectDataBatchItemsWithTx V items (historyRows + n) s)"

definition writeCollectDataBatch :: "sqlEnv \<Rightarrow> collectWriteRequest list \<Rightarrow> dataStore \<Rightarrow> string option \<times> dataStore" where
  "writeCollectDataBatch V items s =
     (case items of
        [] \<Rightarrow> (None, s)
      | [item] \<Rightarrow> InsertCollectDataWithOptions V (Some (wr_data item)) (wr_storeHistory item) s
      | _ \<Rightarrow>
          (case writeCollectDataCacheOnlyBatchDirect V items s of
             (None, s) \<Rightarrow> (None, maybeEnforceDataCacheLimit V s)
           | (Some _, s) \<Rightarrow>
               (case inTransaction V ''failed to begin collect data batch transaction''
                       ''failed to commit collect data batch transaction''
                       (writeCollectDataBatchItemsWithTx V items 0) s of
                  (Inl e, s) \<Rightarrow> (Some e, s)
                | (Inr historyRows, s) \<Rightarrow>
                    let s = maybeEnforceDataCacheLimit V s
                    in (None, if historyRows > 0 then afterHistoryWrite V historyRows s else s))))"

definition flushCollectDataBatch :: "sqlEnv \<Rightarrow> collectWriteRequest list \<Rightarrow> dataStore \<Rightarrow> dataStore" where
  "flushCollectDataBatch V batch s =
     (if batch = [] then s
      else case writeCollectDataBatch V batch s of
             (None, s) \<Rightarrow> s
           | (Some _, s) \<Rightarrow>
               fold (\<lambda>item s. snd (InsertCollectDataWithOptions V (Some (wr_data item)) (wr_storeHistory item) s)) batch s)"

text \<open>The writer: the channel with its samples (\<open>None\<close> when it does not run), the closed channel that is being
  drained, and the batch in the goroutine's hands.\<close>

record collectWriter =
  cw_ch :: "collectWriteRequest list option"
  cw_draining :: "collectWriteRequest list option"
  cw_batch :: "collectWriteRequest list"
  cw_store :: dataStore

definition StartCollectDataWriter :: "collectWriter \<Rightarrow> collectWriter" where
  "StartCollectDataWriter w = (if cw_ch w \<noteq> None then w else w\<lparr>cw_ch := Some []\<rparr>)"

definition EnqueueCollectDataWrite ::
  "sqlEnv \<Rightarrow> CollectData option \<Rightarrow> bool \<Rightarrow> collectWriter \<Rightarrow> string option \<times> collectWriter" where
  "EnqueueCollectDataWrite V data storeHistory w =
     (case data of
        None \<Rightarrow> (None, w)
      | Some d \<Rightarrow>
          let direct = (case InsertCollectDataWithOptions V data storeHistory (cw_store w) of
                          (e, s) \<Rightarrow> (e, w\<lparr>cw_store := s\<rparr>))
          in case cw_ch w of
               None \<Rightarrow> direct
             | Some ch \<Rightarrow>
                 if length ch < collectWriteQueueCap
                 then (None, w\<lparr>cw_ch := Some (ch @ [\<lparr>wr_data = d, wr_storeHistory = storeHistory\<rparr>])\<rparr>)
                 else direct)"

text \<open>The goroutine \<open>runCollectDataWriter\<close>: it takes a sample while its batch has room, and writes its batch.\<close>

definition writerTake :: "collectWriter \<Rightarrow> collectWriter option" where
  "writerTake w =
     (if length (cw_batch w) < collectWriteMaxBatchItems
      then (case cw_draining w of
              Some (item # items) \<Rightarrow> Some (w\<lparr>cw_draining := Some items, cw_batch := cw_batch w @ [item]\<rparr>)
            | Some [] \<Rightarrow> None
            | None \<Rightarrow> (case cw_ch w of
                         Some (item # items) \<Rightarrow> Some (w\<lparr>cw_ch := Some items, cw_batch := cw_batch w @ [item]\<rparr>)
                       | _ \<Rightarrow> None))
      else None)"

definition writerFlush :: "sqlEnv \<Rightarrow> collectWriter \<Rightarrow> collectWriter" where
  "writerFlush V w = w\<lparr>cw_store := flushCollectDataBatch V (cw_batch w) (cw_store w), cw_batch := []\<rparr>"

section \<open>Batches of samples\<close>

lemma override_other: "k \<notin> argKeys args \<Longrightarrow> override args m k = m k"
  by (induction args rule: rev_induct) (auto simp: override_append override_def argKeys_def)

lemma override_same: "k \<in> argKeys args \<Longrightarrow> override args m k = override args m' k"
proof (induction args rule: rev_induct)
  case (snoc a args)
  obtain d f v t where "a = (d, f, v, t)" by (cases a)
  with snoc show ?case by (cases "k = (d, f)") (auto simp: override_append override_def argKeys_def)
qed (simp add: argKeys_def)

lemma override_absorb: "argKeys as \<subseteq> argKeys bs \<Longrightarrow> override bs (override as m) = override bs m"
proof
  fix k assume "argKeys as \<subseteq> argKeys bs"
  then show "override bs (override as m) k = override bs m k"
    using override_same[of k bs "override as m" m] override_other[of k bs] override_other[of k as m]
    by (cases "k \<in> argKeys bs") auto
qed

definition itemArgs :: "golib \<Rightarrow> collectWriteRequest list \<Rightarrow> cacheArg list" where
  "itemArgs L items = concat (map (\<lambda>i. argsOf L (wr_data i)) items)"

definition goodItems :: "(int \<times> string) set \<Rightarrow> collectWriteRequest list \<Rightarrow> bool" where
  "goodItems K items \<longleftrightarrow> list_all (\<lambda>i. distinct (map fst (cd_Fields (wr_data i))) \<and> sampleKeys (wr_data i) \<subseteq> K) items"

definition itemRows :: "collectWriteRequest list \<Rightarrow> nat" where
  "itemRows items = sum_list (map (\<lambda>i. length (cd_Fields (wr_data i)) + length (cd_Points (wr_data i))) items)"

lemma itemArgs_simps [simp]: "itemArgs L [] = []" "itemArgs L (i # is) = argsOf L (wr_data i) @ itemArgs L is"
  by (simp_all add: itemArgs_def)

lemma goodItems_simps [simp]: "goodItems K []"
  "goodItems K (i # is) \<longleftrightarrow> distinct (map fst (cd_Fields (wr_data i))) \<and> sampleKeys (wr_data i) \<subseteq> K \<and> goodItems K is"
  by (simp_all add: goodItems_def)

lemma itemRows_simps [simp]: "itemRows [] = 0"
  "itemRows (i # is) = length (cd_Fields (wr_data i)) + length (cd_Points (wr_data i)) + itemRows is"
  by (simp_all add: itemRows_def)

lemma override_items:
  "goodItems K items \<Longrightarrow> override (itemArgs L items) m = fold (\<lambda>i. applySample L (wr_data i)) items m"
  by (induction items arbitrary: m) (auto simp: override_append override_sample, simp add: override_def)

lemma itemArgs_keys: "goodItems K items \<Longrightarrow> argKeys (itemArgs L items) \<subseteq> K"
proof (induction items)
  case (Cons i items)
  then show ?case using sample_argKeys[of L "wr_data i"] by auto
qed (simp add: argKeys_def)

lemma cacheOnlyLoop_outcome:
  "goodItems K items \<Longrightarrow> cacheOnlyLoop V args items s = (r, s') \<Longrightarrow>
   if r = None then wrote (args @ itemArgs (se_lib V) items) s s'
   else \<exists>as bs. args @ itemArgs (se_lib V) items = as @ bs \<and> wrote as s s'"
proof (induction items arbitrary: args s)
  case Nil
  show ?case
  proof (cases "args = []")
    case False
    with Nil have "execStmt V ''failed to prepare data cache batch statement'' ''failed to upsert data cache batch'' (cacheBatch V args) s = (r, s')"
      by (simp add: executeCacheStatement_def)
    from cacheBatch_outcome[OF this] wrote_same[OF wrote_Nil] show ?thesis by (auto split: if_splits)
  qed (use Nil in simp)
next
  case (Cons i items)
  let ?L = "se_lib V" and ?a = "argsOf (se_lib V) (wr_data i)"
  let ?shape = "buildCollectDataCacheShape (Some (wr_data i))"
  have dist: "distinct (map fst (cd_Fields (wr_data i)))" and good: "goodItems K items" using Cons.prems(1) by simp_all
  have rows: "sh_rows ?shape = length ?a" using shape_rows(2)[OF dist, of ?L] by (simp add: argsOf_def)
  note args = shape_args[OF dist, of ?L]
  have none: "\<exists>as bs. args @ itemArgs ?L (i # items) = as @ bs \<and> wrote as s s" by (metis append_Nil wrote_Nil)
  let ?full = "args \<noteq> [] \<and> length args + length ?a > collectDataCacheBatchSize"
  have step: "cacheOnlyLoop V args (i # items) s =
    (if wr_storeHistory i then (Some ''history write present'', s)
     else if ?a = [] then cacheOnlyLoop V args items s
     else if length ?a > collectDataCacheBatchSize then (Some ''cache item too large'', s)
     else if ?full
     then (case executeCacheStatement V args s of (Some e, s) \<Rightarrow> (Some e, s) | (None, s) \<Rightarrow> cacheOnlyLoop V ?a items s)
     else cacheOnlyLoop V (args @ ?a) items s)"
    unfolding cacheOnlyLoop.simps(2) Let_def rows args append_Nil by simp
  have "\<exists>e. cacheOnlyLoop V args (i # items) s = (Some e, s)" if "wr_storeHistory i \<or> (?a \<noteq> [] \<and> length ?a > collectDataCacheBatchSize)"
    using that unfolding step by auto
  moreover have "cacheOnlyLoop V args (i # items) s = cacheOnlyLoop V args items s" if "\<not> wr_storeHistory i" "?a = []"
    using that unfolding step by simp
  moreover have "cacheOnlyLoop V args (i # items) s =
      (case executeCacheStatement V args s of (Some e, s) \<Rightarrow> (Some e, s) | (None, s) \<Rightarrow> cacheOnlyLoop V ?a items s)"
    if "\<not> wr_storeHistory i" "?a \<noteq> []" "\<not> length ?a > collectDataCacheBatchSize" ?full
    using that unfolding step by simp
  moreover have "cacheOnlyLoop V args (i # items) s = cacheOnlyLoop V (args @ ?a) items s"
    if "\<not> wr_storeHistory i" "?a \<noteq> []" "\<not> length ?a > collectDataCacheBatchSize" "\<not> ?full"
    unfolding step using that by (simp only: if_False)
  ultimately consider (bad) e where "cacheOnlyLoop V args (i # items) s = (Some e, s)"
    | (skip) "?a = []" "cacheOnlyLoop V args (i # items) s = cacheOnlyLoop V args items s"
    | (flush) "cacheOnlyLoop V args (i # items) s =
        (case executeCacheStatement V args s of (Some e, s) \<Rightarrow> (Some e, s) | (None, s) \<Rightarrow> cacheOnlyLoop V ?a items s)"
    | (add) "cacheOnlyLoop V args (i # items) s = cacheOnlyLoop V (args @ ?a) items s"
    by blast
  then show ?case
  proof cases
    case bad
    with Cons.prems(2) none show ?thesis by auto
  next
    case skip
    with Cons.prems(2) have "cacheOnlyLoop V args items s = (r, s')" by simp
    from Cons.IH[OF good this] show ?thesis unfolding itemArgs_simps skip(1) append_Nil .
  next
    case add
    with Cons.prems(2) have "cacheOnlyLoop V (args @ ?a) items s = (r, s')" by simp
    from Cons.IH[OF good this] show ?thesis unfolding itemArgs_simps append_assoc .
  next
    case flush
    obtain r1 s1 where e: "executeCacheStatement V args s = (r1, s1)" by force
    then have o1: "if r1 = None then wrote args s s1 else sameTables s s1"
      unfolding executeCacheStatement_def by (rule cacheBatch_outcome)
    show ?thesis
    proof (cases r1)
      case (Some x)
      with flush e Cons.prems(2) o1 wrote_same[OF wrote_Nil] have "r = Some x" "wrote [] s s'" by auto
      then show ?thesis by (metis append_Nil option.distinct(1))
    next
      case None
      with flush e Cons.prems(2) have run: "cacheOnlyLoop V ?a items s1 = (r, s')" by simp
      have w: "wrote args s s1" using o1 None by simp
      from Cons.IH[OF good run] show ?thesis
        using wrote_trans[OF w] by (auto split: if_splits) (metis append.assoc)
    qed
  qed
qed

text \<open>All samples of a list: the cache shows their rows, one sample after the other; each history sample has its
  fields in the history, with the value of a history sample of its device.\<close>

definition historyOf :: "golib \<Rightarrow> collectWriteRequest \<Rightarrow> int \<Rightarrow> string \<Rightarrow> string option" where
  "historyOf L i d f = (if wr_storeHistory i \<and> cd_DeviceID (wr_data i) = d then map_of (rev (sampleRows L (wr_data i))) f else None)"

definition inHistory :: "golib \<Rightarrow> collectWriteRequest list \<Rightarrow> dataStore \<Rightarrow> bool" where
  "inHistory L items s \<longleftrightarrow> (\<forall>i \<in> set items. \<forall>d f v. historyOf L i d f = Some v \<longrightarrow>
     (\<exists>j \<in> set items. \<exists>r \<in> set (ds_points s). hp_DeviceID r = d \<and> hp_FieldName r = f \<and> historyOf L j d f = Some (hp_Value r)))"

definition keptAll :: "golib \<Rightarrow> collectWriteRequest list \<Rightarrow> dataStore \<Rightarrow> dataStore \<Rightarrow> bool" where
  "keptAll L items s s' \<longleftrightarrow> (\<forall>r \<in> set (ds_points s).
     (\<forall>i \<in> set items. historyOf L i (hp_DeviceID r) (hp_FieldName r) = None) \<longrightarrow> r \<in> set (ds_points s'))"

definition writtenAll :: "golib \<Rightarrow> collectWriteRequest list \<Rightarrow> dataStore \<Rightarrow> dataStore \<Rightarrow> bool" where
  "writtenAll L items s s' \<longleftrightarrow> cacheView s' = override (itemArgs L items) (cacheView s) \<and>
     (distinct (cacheKeys s) \<longrightarrow> distinct (cacheKeys s') \<and> set (cacheKeys s') = set (cacheKeys s) \<union> argKeys (itemArgs L items)) \<and>
     inHistory L items s' \<and> keptAll L items s s' \<and> length (ds_points s') \<le> length (ds_points s) + itemRows items"

lemma writtenAll_Nil [simp]: "writtenAll L [] s s"
  by (simp add: writtenAll_def override_def argKeys_def inHistory_def keptAll_def)

lemma historyOf_fields: "historyOf L i d f \<noteq> None \<longleftrightarrow>
    wr_storeHistory i \<and> cd_DeviceID (wr_data i) = d \<and> f \<in> fst ` set (sampleRows L (wr_data i))"
  using map_of_eq_None_iff[of "rev (sampleRows L (wr_data i))" f] by (auto simp: historyOf_def)

lemma written_history:
  assumes "written L (wr_data i) (wr_storeHistory i) s s1"
  shows "inHistory L [i] s1 \<and> keptAll L [i] s s1"
proof (cases "wr_storeHistory i")
  case True
  let ?d = "cd_DeviceID (wr_data i)"
  obtain n where st: "stored ?d n True (sampleRows L (wr_data i)) s s1" using assms True by (auto simp: written_def)
  have rec: "recorded ?d n (fst ` set (sampleRows L (wr_data i))) s1" using st by (simp add: stored_def)
  have "\<exists>r \<in> set (ds_points s1). hp_DeviceID r = d \<and> hp_FieldName r = f \<and> historyOf L i d f = Some (hp_Value r)"
    if h: "historyOf L i d f = Some v" for d f v
  proof -
    have d: "d = ?d" and f: "f \<in> fst ` set (sampleRows L (wr_data i))" using h historyOf_fields[of L i d f] by auto
    then obtain r where r: "r \<in> set (ds_points s1)" "hp_DeviceID r = ?d" "hp_FieldName r = f" "cacheView s1 (?d, f) = Some (hp_Value r)"
      using rec unfolding recorded_def by blast
    moreover have "cacheView s1 (?d, f) = Some v"
      using st h d by (simp add: stored_def rowArgs_def override_lookup historyOf_def split: if_splits)
    ultimately show ?thesis using h d by auto
  qed
  moreover have "kept ?d (fst ` set (sampleRows L (wr_data i))) s s1" using st by (simp add: stored_def)
  then have "keptAll L [i] s s1" using historyOf_fields[of L i] True unfolding kept_def keptAll_def by (metis list.set_intros(1))
  ultimately show ?thesis by (auto simp: inHistory_def)
next
  case False
  then have "ds_points s1 = ds_points s" using assms by (auto simp: written_def stored_def)
  with False show ?thesis by (simp add: inHistory_def keptAll_def historyOf_def)
qed

lemma writtenAll_Cons:
  assumes first: "written L (wr_data i) (wr_storeHistory i) s s1" and rest: "writtenAll L items s1 s2"
  shows "writtenAll L (i # items) s s2"
proof -
  have h1: "inHistory L [i] s1" "keptAll L [i] s s1" using written_history[OF first] by simp_all
  have h2: "inHistory L items s2" "keptAll L items s1 s2" using rest by (simp_all add: writtenAll_def)
  have "\<exists>j \<in> set (i # items). \<exists>r \<in> set (ds_points s2). hp_DeviceID r = d \<and> hp_FieldName r = f \<and> historyOf L j d f = Some (hp_Value r)"
    if k: "k \<in> set (i # items)" "historyOf L k d f = Some v" for k d f v
  proof (cases "\<exists>j \<in> set items. historyOf L j d f \<noteq> None")
    case True
    with h2(1) show ?thesis unfolding inHistory_def by (metis list.set_intros(2) not_Some_eq)
  next
    case False
    with k have "historyOf L i d f = Some v" by auto
    with h1(1) have "\<exists>r \<in> set (ds_points s1). hp_DeviceID r = d \<and> hp_FieldName r = f \<and> historyOf L i d f = Some (hp_Value r)"
      by (simp add: inHistory_def)
    then obtain r where "r \<in> set (ds_points s1)" "hp_DeviceID r = d" "hp_FieldName r = f" "historyOf L i d f = Some (hp_Value r)"
      by blast
    moreover have "r \<in> set (ds_points s2)" using h2(2) False calculation unfolding keptAll_def by auto
    ultimately show ?thesis by auto
  qed
  then have "inHistory L (i # items) s2" unfolding inHistory_def by blast
  moreover have "keptAll L (i # items) s s2" using h1(2) h2(2) by (auto simp: keptAll_def)
  moreover have "length (ds_points s1) \<le> length (ds_points s) + (length (cd_Fields (wr_data i)) + length (cd_Points (wr_data i)))"
    using first sampleRows_length[of L "wr_data i"] by (auto simp: written_def stored_def split: if_splits)
  ultimately show ?thesis using first rest
    by (auto simp: writtenAll_def written_def stored_def argsOf_rowArgs override_append)
qed

lemma writtenAll_same: "sameTables s1 s2 \<Longrightarrow> writtenAll L items s s1 \<Longrightarrow> writtenAll L items s s2"
  by (simp add: writtenAll_def inHistory_def keptAll_def same_views)

lemma same_writtenAll: "sameTables s s1 \<Longrightarrow> writtenAll L items s1 s2 \<Longrightarrow> writtenAll L items s s2"
  by (simp add: writtenAll_def inHistory_def keptAll_def same_views)

lemma txItems_outcome:
  "goodItems K items \<Longrightarrow> writeCollectDataBatchItemsWithTx V items n s = (Inr c, s') \<Longrightarrow> writtenAll (se_lib V) items s s'"
proof (induction items arbitrary: n s)
  case (Cons i items)
  obtain r1 s1 where t: "insertCollectDataWithOptionsTx V (Some (wr_data i)) (wr_storeHistory i) s = (r1, s1)" by force
  with Cons.prems(2) obtain c1 where r1: "r1 = Inr c1" "writeCollectDataBatchItemsWithTx V items (n + c1) s1 = (Inr c, s')"
    by (auto split: sum.splits)
  have "written (se_lib V) (wr_data i) (wr_storeHistory i) s s1"
    using tx_outcome[of "wr_data i" V "wr_storeHistory i" s c1 s1] t r1 Cons.prems(1) by (auto simp: written_def)
  from writtenAll_Cons[OF this Cons.IH[OF _ r1(2)]] Cons.prems(1) show ?case by simp
qed simp

lemma fits_writtenAll: "writtenAll L items s s' \<Longrightarrow> goodItems K items \<Longrightarrow> fits V K s \<Longrightarrow> fits V K s'"
  using itemArgs_keys by (fastforce simp: fits_def writtenAll_def)

lemma cacheOnly_history: "writeCollectDataCacheOnlyBatchDirect V items s = (None, s') \<Longrightarrow> list_all (\<lambda>i. \<not> wr_storeHistory i) items"
proof -
  have "cacheOnlyLoop V args items s = (None, s') \<Longrightarrow> list_all (\<lambda>i. \<not> wr_storeHistory i) items" for args
  proof (induction items arbitrary: args s)
    case (Cons i items)
    then show ?case by (auto simp: Let_def split: if_splits prod.splits option.splits)
  qed simp
  then show "writeCollectDataCacheOnlyBatchDirect V items s = (None, s') \<Longrightarrow> list_all (\<lambda>i. \<not> wr_storeHistory i) items"
    by (simp add: writeCollectDataCacheOnlyBatchDirect_def)
qed

lemma fold_written:
  assumes "goodItems K items" "fits V K s" "int (length (ds_points s) + itemRows items) \<le> se_maxDataPointsLimit V" "quiet V s"
  shows "writtenAll (se_lib V) items s
    (fold (\<lambda>item s. snd (InsertCollectDataWithOptions V (Some (wr_data item)) (wr_storeHistory item) s)) items s)"
  using assms
proof (induction items arbitrary: s)
  case (Cons i items)
  obtain r s1 where run: "InsertCollectDataWithOptions V (Some (wr_data i)) (wr_storeHistory i) s = (r, s1)" by force
  have dist: "distinct (map fst (cd_Fields (wr_data i)))" and keys: "sampleKeys (wr_data i) \<subseteq> K" using Cons.prems(1) by simp_all
  have room: "int (length (ds_points s) + length (cd_Fields (wr_data i)) + length (cd_Points (wr_data i))) \<le> se_maxDataPointsLimit V"
    using Cons.prems(3) by simp
  have q: "r = None" "quiet V s1" using insert_quiet[OF run dist] Cons.prems(4) by (auto split: if_splits)
  have w: "written (se_lib V) (wr_data i) (wr_storeHistory i) s s1"
    using insert_outcome[OF dist Cons.prems(2) keys room run] q by simp
  have "writtenAll (se_lib V) [i] s s1" by (rule writtenAll_Cons[OF w writtenAll_Nil])
  then have "fits V K s1" "int (length (ds_points s1) + itemRows items) \<le> se_maxDataPointsLimit V"
    using fits_writtenAll[of "se_lib V" "[i]" s s1 K V] Cons.prems by (simp, simp add: writtenAll_def)
  with Cons.IH[of s1] Cons.prems(1) q have "writtenAll (se_lib V) items s1
    (fold (\<lambda>item s. snd (InsertCollectDataWithOptions V (Some (wr_data item)) (wr_storeHistory item) s)) items s1)" by simp
  from writtenAll_Cons[OF w this] run show ?case by simp
qed simp

lemma no_history_all: "list_all (\<lambda>i. \<not> wr_storeHistory i) items \<Longrightarrow> wrote (itemArgs L items) s s' \<Longrightarrow> writtenAll L items s s'"
  by (auto simp: writtenAll_def wrote_def inHistory_def keptAll_def historyOf_def list_all_iff)

lemma wrote_writtenAll:
  assumes "itemArgs L items = as @ bs" "wrote as s s1" "writtenAll L items s1 s'"
  shows "writtenAll L items s s'"
proof -
  have k: "argKeys as \<subseteq> argKeys (itemArgs L items)" using assms(1) by simp
  then have "override (itemArgs L items) (cacheView s1) = override (itemArgs L items) (cacheView s)"
    using assms(2) override_absorb by (simp add: wrote_def)
  moreover have "set (cacheKeys s1) \<union> argKeys (itemArgs L items) = set (cacheKeys s) \<union> argKeys (itemArgs L items)"
    if "distinct (cacheKeys s)" using assms(2) that k by (auto simp: wrote_def)
  ultimately show ?thesis using assms(2,3) by (simp add: writtenAll_def wrote_def keptAll_def)
qed

lemma batch_outcome:
  assumes good: "goodItems K items" and fit: "fits V K s" and room: "int (length (ds_points s) + itemRows items) \<le> se_maxDataPointsLimit V"
    and run: "writeCollectDataBatch V items s = (r, s')"
  shows "if r = None then writtenAll (se_lib V) items s s'
    else \<exists>as bs. itemArgs (se_lib V) items = as @ bs \<and> wrote as s s'"
proof -
  consider (none) "items = []" | (one) i where "items = [i]" | (many) i j rest where "items = i # j # rest"
    by (cases items rule: remdups_adj.cases) auto
  then show ?thesis
  proof cases
    case none
    with run show ?thesis by (auto simp: writeCollectDataBatch_def)
  next
    case one
    with run have run1: "InsertCollectDataWithOptions V (Some (wr_data i)) (wr_storeHistory i) s = (r, s')" by (simp add: writeCollectDataBatch_def)
    have "if r = None then written (se_lib V) (wr_data i) (wr_storeHistory i) s s'
      else if wr_storeHistory i then sameTables s s' else \<exists>as bs. argsOf (se_lib V) (wr_data i) = as @ bs \<and> wrote as s s'"
      using insert_outcome[OF _ fit _ _ run1] good room one by simp
    moreover have "\<exists>as bs. itemArgs (se_lib V) items = as @ bs \<and> wrote as s s'" if "sameTables s s'"
      using wrote_same[OF wrote_Nil that] by (metis append_Nil)
    ultimately show ?thesis using one writtenAll_Cons[of "se_lib V" i s s' "[]" s'] by (auto split: if_splits)
  next
    case many
    obtain r1 s1 where c: "writeCollectDataCacheOnlyBatchDirect V items s = (r1, s1)" by force
    have o1: "if r1 = None then wrote (itemArgs (se_lib V) items) s s1
      else \<exists>as bs. itemArgs (se_lib V) items = as @ bs \<and> wrote as s s1"
      using cacheOnlyLoop_outcome[OF good, of V "[]" s r1 s1] c
      unfolding writeCollectDataCacheOnlyBatchDirect_def append_Nil by blast
    show ?thesis
    proof (cases r1)
      case None
      then have w: "wrote (itemArgs (se_lib V) items) s s1" using o1 by simp
      have "fits V K s1" by (rule fits_wrote[OF w itemArgs_keys[OF good] fit])
      then have "sameTables s1 (maybeEnforceDataCacheLimit V s1)" by (intro maybeEnforceDataCacheLimit_same fits_length)
      moreover have "r = None" "s' = maybeEnforceDataCacheLimit V s1" using run c None many by (simp_all add: writeCollectDataBatch_def)
      moreover have "writtenAll (se_lib V) items s s1"
        using cacheOnly_history c None w no_history_all by blast
      ultimately show ?thesis using writtenAll_same by auto
    next
      case (Some e1)
      with o1 obtain as bs where as: "itemArgs (se_lib V) items = as @ bs" "wrote as s s1" by auto
      obtain r2 s2 where t: "inTransaction V ''failed to begin collect data batch transaction''
          ''failed to commit collect data batch transaction'' (writeCollectDataBatchItemsWithTx V items 0) s1 = (r2, s2)" by force
      have run2: "(r, s') = (case r2 of Inl e \<Rightarrow> (Some e, s2)
          | Inr n \<Rightarrow> (None, if n > 0 then afterHistoryWrite V n (maybeEnforceDataCacheLimit V s2) else maybeEnforceDataCacheLimit V s2))"
        using run c t Some many by (auto simp: writeCollectDataBatch_def Let_def split: sum.splits)
      note o2 = transaction_outcome[OF t]
      show ?thesis
      proof (cases r2)
        case (Inl e)
        with run2 o2 have "r = Some e" "sameTables s1 s'" by auto
        with as wrote_same show ?thesis by auto
      next
        case (Inr n)
        with o2 obtain s3 s4 where b: "sameTables s1 s3" "writeCollectDataBatchItemsWithTx V items 0 s3 = (Inr n, s4)" "sameTables s4 s2" by auto
        have w: "writtenAll (se_lib V) items s1 s2"
          using txItems_outcome[OF good b(2)] same_writtenAll[OF b(1)] writtenAll_same[OF b(3)] by blast
        have keys: "argKeys as \<subseteq> K" using itemArgs_keys[OF good, of "se_lib V"] as(1) by simp
        have "fits V K s2" by (rule fits_writtenAll[OF w good fits_wrote[OF as(2) keys fit]])
        then have e: "sameTables s2 (maybeEnforceDataCacheLimit V s2)" by (intro maybeEnforceDataCacheLimit_same fits_length)
        have "length (ds_points s2) \<le> length (ds_points s) + itemRows items" using w as(2) by (simp add: writtenAll_def wrote_def)
        then have "int (length (ds_points s2)) \<le> se_maxDataPointsLimit V" using room by linarith
        then have "sameTables s2 (afterHistoryWrite V n (maybeEnforceDataCacheLimit V s2))"
          using e afterHistoryWrite_same[of "maybeEnforceDataCacheLimit V s2" V n] same_trans by (simp add: same_views)
        with e run2 Inr have "r = None" "sameTables s2 s'" by (auto split: if_splits)
        with wrote_writtenAll[OF as w] writtenAll_same show ?thesis by auto
      qed
    qed
  qed
qed

lemma flush_outcome_all:
  assumes good: "goodItems K items" and fit: "fits V K s" and room: "int (length (ds_points s) + itemRows items) \<le> se_maxDataPointsLimit V"
    and run: "writeCollectDataBatch V items s = (r, s1)" and q: "r = None \<or> quiet V s1"
  shows "writtenAll (se_lib V) items s (flushCollectDataBatch V items s)"
proof (cases "items = []")
  case True
  then show ?thesis by (simp add: flushCollectDataBatch_def)
next
  case False
  note o = batch_outcome[OF good fit room run]
  show ?thesis
  proof (cases r)
    case None
    with o run False show ?thesis by (simp add: flushCollectDataBatch_def)
  next
    case (Some e)
    with o obtain as bs where as: "itemArgs (se_lib V) items = as @ bs" "wrote as s s1" by auto
    have keys: "argKeys as \<subseteq> K" using itemArgs_keys[OF good, of "se_lib V"] as(1) by simp
    have "fits V K s1" by (rule fits_wrote[OF as(2) keys fit])
    moreover have "int (length (ds_points s1) + itemRows items) \<le> se_maxDataPointsLimit V" using room as(2) by (simp add: wrote_def)
    moreover have "quiet V s1" using q Some by simp
    ultimately have "writtenAll (se_lib V) items s1
      (fold (\<lambda>item s. snd (InsertCollectDataWithOptions V (Some (wr_data item)) (wr_storeHistory item) s)) items s1)"
      by (intro fold_written[OF good])
    with wrote_writtenAll[OF as] run Some False show ?thesis by (simp add: flushCollectDataBatch_def)
  qed
qed

text \<open>C18: A batch of the writer is not lost. Whatever fails while the batch is written at once, even after some of it
  is already stored, if the database works again when the writer falls back to the single samples,
  the cache shows the result of writing the samples one after the other, and every field of a
  sample that is to be kept is in the history.\<close>
theorem batch_flush_is_sequential:
  assumes "goodItems K items" and "fits V K s" and "int (length (ds_points s) + itemRows items) \<le> se_maxDataPointsLimit V"
    and "writeCollectDataBatch V items s = (r, s1)" and "r = None \<or> quiet V s1"
  shows "cacheView (flushCollectDataBatch V items s) = fold (\<lambda>i. applySample (se_lib V) (wr_data i)) items (cacheView s) \<and>
    inHistory (se_lib V) items (flushCollectDataBatch V items s)"
  using flush_outcome_all[OF assms] override_items[OF assms(1)] by (simp add: writtenAll_def)

theorem batch_flush_is_sequential_witness:
  "cacheView (flushCollectDataBatch exampleEnv [\<lparr>wr_data = exampleSample, wr_storeHistory = True\<rparr>] emptyStore) (1, ''b'') = Some ''3''"
proof -
  let ?items = "[\<lparr>wr_data = exampleSample, wr_storeHistory = True\<rparr>]"
  obtain r s1 where run: "writeCollectDataBatch exampleEnv ?items emptyStore = (r, s1)" by force
  have good: "goodItems {(1, ''a''), (1, ''b'')} ?items" using example_keys by simp (simp add: exampleSample_def)
  have fit: "fits exampleEnv {(1, ''a''), (1, ''b'')} emptyStore" by (intro example_fits) auto
  have room: "int (length (ds_points emptyStore) + itemRows ?items) \<le> se_maxDataPointsLimit exampleEnv"
    by (simp add: exampleSample_def exampleEnv_def emptyStore_def)
  show ?thesis
    using batch_flush_is_sequential[OF good fit room run] example_quiet[of s1] example_merge(1)
    by (simp add: applySample_def) (simp add: exampleSample_def)
qed

section \<open>The writer over a sequence of operations\<close>

definition StopCollectDataWriter :: "collectWriter \<Rightarrow> collectWriter" where
  "StopCollectDataWriter w = (case cw_ch w of None \<Rightarrow> w | Some ch \<Rightarrow> w\<lparr>cw_ch := None, cw_draining := Some ch\<rparr>)"

text \<open>The steps of the callers and of the goroutine in any order. A start waits for the goroutine of an earlier run; a stop
  returns when \<open>writerDone\<close> holds. The second result are the requests that the step writes, in their order.\<close>

datatype writerOp = OpStart | OpStop | OpEnqueue CollectData bool | OpTake | OpFlush | OpDone

fun writerStep :: "sqlEnv \<Rightarrow> writerOp \<Rightarrow> collectWriter \<Rightarrow> collectWriter \<times> collectWriteRequest list" where
  "writerStep V OpStart w = (if cw_draining w = None then StartCollectDataWriter w else w, [])"
| "writerStep V OpStop w = (if cw_draining w = None then StopCollectDataWriter w else w, [])"
| "writerStep V (OpEnqueue d h) w =
     (snd (EnqueueCollectDataWrite V (Some d) h w),
      case cw_ch w of
        Some ch \<Rightarrow> if length ch < collectWriteQueueCap then [] else [\<lparr>wr_data = d, wr_storeHistory = h\<rparr>]
      | None \<Rightarrow> [\<lparr>wr_data = d, wr_storeHistory = h\<rparr>])"
| "writerStep V OpTake w = (case writerTake w of Some w' \<Rightarrow> w' | None \<Rightarrow> w, [])"
| "writerStep V OpFlush w = (writerFlush V w, cw_batch w)"
| "writerStep V OpDone w = (if cw_draining w = Some [] \<and> cw_batch w = [] then w\<lparr>cw_draining := None\<rparr> else w, [])"

fun writerRun :: "sqlEnv \<Rightarrow> writerOp list \<Rightarrow> collectWriter \<Rightarrow> collectWriter \<times> collectWriteRequest list" where
  "writerRun V [] w = (w, [])"
| "writerRun V (op # ops) w =
     (let (w, out) = writerStep V op w; (w, others) = writerRun V ops w in (w, out @ others))"

fun offered :: "writerOp \<Rightarrow> collectWriteRequest list" where
  "offered (OpEnqueue d h) = [\<lparr>wr_data = d, wr_storeHistory = h\<rparr>]"
| "offered _ = []"

text \<open>What waits, in the order in which it will be written.\<close>

definition waiting :: "collectWriter \<Rightarrow> collectWriteRequest list" where
  "waiting w = cw_batch w @ (case cw_draining w of Some q \<Rightarrow> q | None \<Rightarrow> []) @ (case cw_ch w of Some q \<Rightarrow> q | None \<Rightarrow> [])"

definition writerOK :: "collectWriter \<Rightarrow> bool" where
  "writerOK w \<longleftrightarrow> (cw_draining w \<noteq> None \<longrightarrow> cw_ch w = None) \<and>
     (case cw_ch w of Some q \<Rightarrow> length q \<le> collectWriteQueueCap | None \<Rightarrow> True) \<and>
     (case cw_draining w of Some q \<Rightarrow> length q \<le> collectWriteQueueCap | None \<Rightarrow> True) \<and>
     length (cw_batch w) \<le> collectWriteMaxBatchItems"

lemma enqueue_cases:
  "snd (EnqueueCollectDataWrite V (Some d) h w) =
   (case cw_ch w of
      Some ch \<Rightarrow> if length ch < collectWriteQueueCap then w\<lparr>cw_ch := Some (ch @ [\<lparr>wr_data = d, wr_storeHistory = h\<rparr>])\<rparr>
        else w\<lparr>cw_store := snd (InsertCollectDataWithOptions V (Some d) h (cw_store w))\<rparr>
    | None \<Rightarrow> w\<lparr>cw_store := snd (InsertCollectDataWithOptions V (Some d) h (cw_store w))\<rparr>)"
  by (auto simp: EnqueueCollectDataWrite_def Let_def split: option.split prod.split)

lemma take_cases:
  "writerTake w = Some w' \<Longrightarrow> waiting w' = waiting w \<and> cw_store w' = cw_store w \<and> (writerOK w \<longrightarrow> writerOK w')"
  by (auto simp: writerTake_def waiting_def writerOK_def split: if_splits option.splits list.splits)

lemma writerStep_fifo:
  assumes "writerStep V op w = (w', out)" and "writerOK w"
  shows "writerOK w' \<and> (out @ waiting w' = waiting w @ offered op \<or>
    (out = offered op \<and> waiting w' = waiting w \<and> (\<forall>ch. cw_ch w = Some ch \<longrightarrow> length ch = collectWriteQueueCap)))"
proof (cases op)
  case (OpEnqueue d h)
  with assms show ?thesis
    by (auto simp: enqueue_cases waiting_def writerOK_def split: option.splits if_splits)
next
  case OpTake
  with assms take_cases[of w] show ?thesis by (auto split: option.splits)
next
  case OpFlush
  with assms show ?thesis by (auto simp: writerFlush_def waiting_def writerOK_def)
next
  case OpStart
  with assms show ?thesis
    by (cases "cw_ch w"; cases "cw_draining w") (auto simp: StartCollectDataWriter_def waiting_def writerOK_def)
next
  case OpStop
  with assms show ?thesis by (auto simp: StopCollectDataWriter_def waiting_def writerOK_def split: option.splits)
next
  case OpDone
  with assms show ?thesis
    by (cases "cw_draining w = Some [] \<and> cw_batch w = []") (auto simp: waiting_def writerOK_def)
qed

text \<open>The writes, as a reference: one sample after the other.\<close>

definition applyAll :: "golib \<Rightarrow> collectWriteRequest list \<Rightarrow> (int \<times> string \<Rightarrow> string option) \<Rightarrow> int \<times> string \<Rightarrow> string option" where
  "applyAll L reqs = fold (\<lambda>i. applySample L (wr_data i)) reqs"

text \<open>A database without faults and room for the samples.\<close>

definition roomFor :: "sqlEnv \<Rightarrow> (int \<times> string) set \<Rightarrow> collectWriteRequest list \<Rightarrow> dataStore \<Rightarrow> bool" where
  "roomFor V K items s \<longleftrightarrow> se_fault V = (\<lambda>_. None) \<and> fits V K s \<and> goodItems K items \<and>
     int (length (ds_points s) + itemRows items) \<le> se_maxDataPointsLimit V"

lemma goodItems_append [simp]: "goodItems K (a @ b) \<longleftrightarrow> goodItems K a \<and> goodItems K b"
  by (simp add: goodItems_def)

lemma itemRows_append [simp]: "itemRows (a @ b) = itemRows a + itemRows b"
  by (simp add: itemRows_def)

lemma always_quiet: "se_fault V = (\<lambda>_. None) \<Longrightarrow> quiet V s"
  by (simp add: quiet_def)

lemma flush_room:
  assumes "roomFor V K (items @ others) s"
  shows "roomFor V K others (flushCollectDataBatch V items s) \<and>
    cacheView (flushCollectDataBatch V items s) = applyAll (se_lib V) items (cacheView s)"
proof -
  obtain r s1 where run: "writeCollectDataBatch V items s = (r, s1)" by force
  have w: "writtenAll (se_lib V) items s (flushCollectDataBatch V items s)"
    by (rule flush_outcome_all[OF _ _ _ run]) (use assms in \<open>auto simp: roomFor_def always_quiet\<close>)
  moreover have "fits V K (flushCollectDataBatch V items s)"
    by (rule fits_writtenAll[OF w]) (use assms in \<open>auto simp: roomFor_def\<close>)
  ultimately show ?thesis using assms override_items[of K items "se_lib V" "cacheView s"]
    by (simp add: roomFor_def writtenAll_def applyAll_def)
qed

lemma direct_room:
  assumes "roomFor V K (\<lparr>wr_data = d, wr_storeHistory = h\<rparr> # others) s"
  shows "roomFor V K others (snd (InsertCollectDataWithOptions V (Some d) h s)) \<and>
    cacheView (snd (InsertCollectDataWithOptions V (Some d) h s)) = applyAll (se_lib V) [\<lparr>wr_data = d, wr_storeHistory = h\<rparr>] (cacheView s)"
proof -
  have "flushCollectDataBatch V [\<lparr>wr_data = d, wr_storeHistory = h\<rparr>] s = snd (InsertCollectDataWithOptions V (Some d) h s)"
  proof -
    obtain r s1 where run: "InsertCollectDataWithOptions V (Some d) h s = (r, s1)" by force
    have "r = None" using insert_quiet[OF run] assms by (auto simp: roomFor_def always_quiet split: if_splits)
    with run show ?thesis by (simp add: flushCollectDataBatch_def writeCollectDataBatch_def)
  qed
  with flush_room[of V K "[\<lparr>wr_data = d, wr_storeHistory = h\<rparr>]" others s] assms show ?thesis by simp
qed

lemma writerStep_store:
  assumes "writerStep V op w = (w', out)" and "writerOK w" and "roomFor V K (waiting w @ offered op @ others) (cw_store w)"
  shows "roomFor V K (waiting w' @ others) (cw_store w') \<and> cacheView (cw_store w') = applyAll (se_lib V) out (cacheView (cw_store w))"
proof (cases "cw_store w' = cw_store w \<and> out = []")
  case True
  then have "waiting w' = waiting w @ offered op \<or> (offered op = [] \<and> waiting w' = waiting w)"
    using writerStep_fifo[OF assms(1,2)] by auto
  with True assms(3) show ?thesis by (auto simp: applyAll_def)
next
  case False
  show ?thesis
  proof (cases op)
    case (OpEnqueue d h)
    let ?r = "\<lparr>wr_data = d, wr_storeHistory = h\<rparr>"
    have direct: "cw_store w' = snd (InsertCollectDataWithOptions V (Some d) h (cw_store w))" "out = [?r]" "waiting w' = waiting w"
      using False assms(1) OpEnqueue by (auto simp: enqueue_cases waiting_def split: option.splits if_splits)
    have "roomFor V K (?r # (waiting w @ others)) (cw_store w)" using assms(3) OpEnqueue by (simp add: roomFor_def)
    from direct_room[OF this] direct show ?thesis by simp
  next
    case OpFlush
    then have f: "w' = writerFlush V w" "out = cw_batch w" using assms(1) by simp_all
    let ?rest = "(case cw_draining w of Some q \<Rightarrow> q | None \<Rightarrow> []) @ (case cw_ch w of Some q \<Rightarrow> q | None \<Rightarrow> [])"
    have "roomFor V K (cw_batch w @ ?rest @ others) (cw_store w)" using assms(3) OpFlush by (simp add: waiting_def)
    from flush_room[OF this] f show ?thesis by (simp add: writerFlush_def waiting_def)
  next
    case OpTake
    with False assms(1) take_cases[of w] show ?thesis by (auto split: option.splits)
  next
    case OpStart
    with False assms(1) show ?thesis by (auto simp: StartCollectDataWriter_def split: if_splits)
  next
    case OpStop
    with False assms(1) show ?thesis by (auto simp: StopCollectDataWriter_def split: if_splits option.splits)
  next
    case OpDone
    with False assms(1) show ?thesis by (auto split: if_splits)
  qed
qed

lemma applyAll_append: "applyAll L (a @ b) m = applyAll L b (applyAll L a m)"
  by (simp add: applyAll_def)

lemma writerRun_spec:
  "writerRun V ops w = (w', out) \<Longrightarrow> writerOK w \<Longrightarrow> roomFor V K (waiting w @ concat (map offered ops)) (cw_store w) \<Longrightarrow>
   writerOK w' \<and> mset out + mset (waiting w') = mset (waiting w) + mset (concat (map offered ops)) \<and>
   cacheView (cw_store w') = applyAll (se_lib V) out (cacheView (cw_store w))"
proof (induction ops arbitrary: w out)
  case Nil
  then show ?case by (simp add: applyAll_def)
next
  case (Cons op ops)
  obtain w1 out1 where s1: "writerStep V op w = (w1, out1)" by force
  obtain out2 where s2: "writerRun V ops w1 = (w', out2)" and e: "out = out1 @ out2"
    using Cons.prems(1) s1 by (auto split: prod.splits)
  note f = writerStep_fifo[OF s1 Cons.prems(2)]
  have "roomFor V K (waiting w @ offered op @ concat (map offered ops)) (cw_store w)" using Cons.prems(3) by simp
  note r = writerStep_store[OF s1 Cons.prems(2) this]
  have "mset out1 + mset (waiting w1) = mset (waiting w) + mset (offered op)"
    using f by (metis add.commute mset_append)
  moreover from Cons.IH[OF s2] f r have "writerOK w' \<and> mset out2 + mset (waiting w') = mset (waiting w1) + mset (concat (map offered ops)) \<and>
      cacheView (cw_store w') = applyAll (se_lib V) out2 (cacheView (cw_store w1))" by blast
  ultimately show ?case using r e by (simp add: applyAll_append add.assoc)
qed

definition idleWriter :: "dataStore \<Rightarrow> collectWriter" where
  "idleWriter s = \<lparr>cw_ch = None, cw_draining = None, cw_batch = [], cw_store = s\<rparr>"

text \<open>Up to the capacity of the queue no sample is written directly, so the order is kept.\<close>

lemma writerRun_in_order:
  "writerRun V ops w = (w', out) \<Longrightarrow> writerOK w \<Longrightarrow> cw_ch w \<noteq> None \<Longrightarrow> OpStop \<notin> set ops \<Longrightarrow>
   length (waiting w) + length (concat (map offered ops)) \<le> collectWriteQueueCap \<Longrightarrow>
   out @ waiting w' = waiting w @ concat (map offered ops)"
proof (induction ops arbitrary: w out)
  case (Cons op ops)
  obtain w1 out1 where s1: "writerStep V op w = (w1, out1)" by force
  obtain out2 where s2: "writerRun V ops w1 = (w', out2)" and e: "out = out1 @ out2"
    using Cons.prems(1) s1 by (auto split: prod.splits)
  note f = writerStep_fifo[OF s1 Cons.prems(2)]
  have n: "length (waiting w) + length (offered op) + length (concat (map offered ops)) \<le> collectWriteQueueCap"
    using Cons.prems(5) by simp
  have o: "out1 @ waiting w1 = waiting w @ offered op"
  proof (rule disjE[OF conjunct2[OF f]])
    assume d: "out1 = offered op \<and> waiting w1 = waiting w \<and> (\<forall>ch. cw_ch w = Some ch \<longrightarrow> length ch = collectWriteQueueCap)"
    obtain ch where ch: "cw_ch w = Some ch" using Cons.prems(3) by blast
    then have "length ch \<le> length (waiting w)" by (simp add: waiting_def)
    then have "length ch + length (offered op) \<le> collectWriteQueueCap" using n by linarith
    with d ch have "offered op = []" by simp
    with d show ?thesis by simp
  qed
  have "length (out1 @ waiting w1) = length (waiting w @ offered op)" using o by (rule arg_cong)
  then have "length (waiting w1) + length (concat (map offered ops)) \<le> collectWriteQueueCap" using n by simp
  moreover have "cw_ch w1 \<noteq> None"
    using s1 Cons.prems(2,3,4)
    by (cases op) (auto simp: enqueue_cases StartCollectDataWriter_def writerTake_def writerFlush_def writerOK_def
        split: option.splits list.splits if_splits)
  ultimately have "out2 @ waiting w' = waiting w1 @ concat (map offered ops)" using Cons.IH[OF s2] f Cons.prems(4) by simp
  with o e show ?case by (metis append.assoc concat.simps(2) list.map(2))
qed simp


text \<open>Taking and writing the whole queue, sixteen samples at a time.\<close>

definition drainOps :: "nat \<Rightarrow> writerOp list" where
  "drainOps n = concat (replicate n (replicate collectWriteMaxBatchItems OpTake @ [OpFlush]))"

lemma writerRun_append:
  "writerRun V (a @ b) w = (let (w1, out1) = writerRun V a w; (w2, out2) = writerRun V b w1 in (w2, out1 @ out2))"
  by (induction a arbitrary: w) (auto split: prod.splits)

lemma take_run:
  "cw_draining w = None \<Longrightarrow> cw_ch w = Some q \<Longrightarrow> k \<le> length q \<Longrightarrow> length (cw_batch w) + k \<le> collectWriteMaxBatchItems \<Longrightarrow>
   writerRun V (replicate k OpTake) w = (w\<lparr>cw_ch := Some (drop k q), cw_batch := cw_batch w @ take k q\<rparr>, [])"
proof (induction k arbitrary: w q)
  case (Suc k)
  then obtain x q' where q: "q = x # q'" by (cases q) auto
  with Suc.prems have t: "writerTake w = Some (w\<lparr>cw_ch := Some q', cw_batch := cw_batch w @ [x]\<rparr>)"
    by (simp add: writerTake_def)
  show ?case
    using Suc.IH[of "w\<lparr>cw_ch := Some q', cw_batch := cw_batch w @ [x]\<rparr>" q'] Suc.prems q t by simp
qed simp

lemma drain_run:
  "cw_draining w = None \<Longrightarrow> cw_batch w = [] \<Longrightarrow> cw_ch w = Some q \<Longrightarrow> length q = n * collectWriteMaxBatchItems \<Longrightarrow>
   \<exists>w' out. writerRun V (drainOps n) w = (w', out) \<and> waiting w' = []"
proof (induction n arbitrary: w q)
  case (Suc n)
  let ?k = collectWriteMaxBatchItems
  let ?w1 = "w\<lparr>cw_ch := Some (drop ?k q), cw_batch := take ?k q\<rparr>"
  have t: "writerRun V (replicate ?k OpTake) w = (?w1, [])" using take_run[of w q ?k V] Suc.prems by simp
  obtain w' out where d: "writerRun V (drainOps n) (writerFlush V ?w1) = (w', out)" "waiting w' = []"
    using Suc.IH[of "writerFlush V ?w1" "drop ?k q"] Suc.prems by (auto simp: writerFlush_def)
  have "drainOps (Suc n) = replicate ?k OpTake @ OpFlush # drainOps n" by (simp add: drainOps_def)
  with t d show ?case by (simp add: writerRun_append)
qed (simp add: drainOps_def waiting_def)

lemma drain_offers: "concat (map offered (drainOps n)) = []"
  by (induction n) (auto simp: drainOps_def)

lemma applyAll_last:
  "(\<And>m. applySample L (wr_data r) m k = Some v) \<Longrightarrow> applyAll L (replicate (Suc n) r) m k = Some v"
  by (induction n arbitrary: m) (simp_all add: applyAll_def)

text \<open>C39: A full queue reverses the order. A sample that is enqueued while the queue is full is written at once, before
  the older samples of the queue; when these are written afterwards, each of their fields, also
  those of the same device, shows the older value again, exactly as if the new sample had never
  been.\<close>
theorem overflow_shows_stale:
  assumes "cw_ch w = Some ch" and "length ch = collectWriteQueueCap" and "cw_batch w = []" and "cw_draining w = None"
    and "roomFor V K (\<lparr>wr_data = d, wr_storeHistory = h\<rparr> # ch) (cw_store w)"
    and "\<lparr>wr_data = old, wr_storeHistory = g\<rparr> \<in> set ch"
    and "map_of (mergePoints (se_lib V) (cd_Fields old) (cd_Points old)) f = Some v" and "i = cd_DeviceID old"
  shows "cacheView (cw_store (fst (writerRun V (OpEnqueue d h # drainOps 4) w))) (i, f) =
    applyAll (se_lib V) ch (cacheView (cw_store w)) (i, f)"
proof -
  let ?r = "\<lparr>wr_data = d, wr_storeHistory = h\<rparr>"
  let ?w = "w\<lparr>cw_store := snd (InsertCollectDataWithOptions V (Some d) h (cw_store w))\<rparr>"
  have e: "writerStep V (OpEnqueue d h) w = (?w, [?r])" using assms(1,2) by (simp add: enqueue_cases)
  obtain w' out where d: "writerRun V (drainOps 4) ?w = (w', out)" "waiting w' = []"
    using drain_run[of ?w ch 4 V] assms(1-4) by (auto simp: collectWriteQueueCap_def collectWriteMaxBatchItems_def)
  have wait: "waiting ?w = ch" using assms(1,3,4) by (simp add: waiting_def)
  have ok: "writerOK ?w" using assms(1-4) by (simp add: writerOK_def)
  have r: "roomFor V K ch (cw_store ?w) \<and> cacheView (cw_store ?w) = applyAll (se_lib V) [?r] (cacheView (cw_store w))"
    using direct_room[OF assms(5)] by simp
  have stop: "OpStop \<notin> set (drainOps 4)" by (simp add: drainOps_def)
  have out: "out = ch"
    using writerRun_in_order[OF d(1) ok _ stop] assms(1,2) d(2) wait by (simp add: drain_offers)
  have "cacheView (cw_store w') = applyAll (se_lib V) out (cacheView (cw_store ?w))"
    using writerRun_spec[OF d(1) ok, of K] r wait by (simp add: drain_offers)
  then have v: "cacheView (cw_store w') = override (itemArgs (se_lib V) ch) (cacheView (cw_store ?w))"
    using override_items[of K ch] r out by (simp add: applyAll_def roomFor_def)
  have k: "(i, f) \<in> argKeys (itemArgs (se_lib V) ch)"
  proof -
    have "distinct (map fst (cd_Fields old))" using assms(5,6) by (auto simp: roomFor_def goodItems_def list_all_iff)
    then have "map_of (rev (sampleRows (se_lib V) old)) f = Some v" using assms(7) by (simp add: sampleRows_merge)
    then have "f \<in> fst ` set (sampleRows (se_lib V) old)" by (metis map_of_eq_None_iff option.distinct(1) set_rev)
    then have "(i, f) \<in> argKeys (argsOf (se_lib V) old)" using assms(8) by (simp add: argsOf_def argKeys_rows)
    then show ?thesis using assms(6) by (force simp: itemArgs_def argKeys_def)
  qed
  have "applyAll (se_lib V) ch (cacheView (cw_store w)) = override (itemArgs (se_lib V) ch) (cacheView (cw_store w))"
    using override_items[of K ch] r by (simp add: applyAll_def roomFor_def)
  with v override_same[OF k] d e show ?thesis by (simp add: split_beta)
qed


text \<open>The new sample has the value 9; the cache goes back to the value 1 of the sixty-four older ones.\<close>

theorem overflow_shows_stale_witness:
  "cacheView (cw_store (fst (writerRun exampleEnv (OpEnqueue (exampleSample\<lparr>cd_Fields := [(''a'', ''9'')], cd_Points := []\<rparr>) False # drainOps 4)
     \<lparr>cw_ch = Some (replicate 64 \<lparr>wr_data = exampleSample, wr_storeHistory = False\<rparr>), cw_draining = None, cw_batch = [],
      cw_store = emptyStore\<rparr>))) (1, ''a'') = Some ''1''"
proof -
  let ?new = "exampleSample\<lparr>cd_Fields := [(''a'', ''9'')], cd_Points := []\<rparr>"
  let ?old = "\<lparr>wr_data = exampleSample, wr_storeHistory = False\<rparr>"
  let ?w = "\<lparr>cw_ch = Some (replicate 64 ?old), cw_draining = None, cw_batch = [], cw_store = emptyStore\<rparr>"
  let ?K = "{(1, ''a''), (1, ''b'')}"
  have fit: "fits exampleEnv ?K emptyStore" by (intro example_fits) auto
  have dist: "distinct (map fst (cd_Fields exampleSample))" by (simp add: exampleSample_def)
  have keys: "sampleKeys ?new \<subseteq> ?K" by (simp add: sampleKeys_def exampleSample_def trimmedNames_def)
  have rows: "length (cd_Fields exampleSample) + length (cd_Points exampleSample) = 3" by (simp add: exampleSample_def)
  have good: "goodItems ?K (replicate 64 ?old)" using example_keys dist by (simp add: goodItems_def list_all_iff)
  have n: "itemRows (replicate 64 ?old) = 192" using rows by (simp add: itemRows_def sum_list_replicate)
  have room: "roomFor exampleEnv ?K (\<lparr>wr_data = ?new, wr_storeHistory = False\<rparr> # replicate 64 ?old) (cw_store ?w)"
    using fit keys good n by (simp add: roomFor_def del: replicate.simps) (simp add: exampleEnv_def emptyStore_def)
  have "applySample (se_lib exampleEnv) exampleSample m (1, ''a'') = Some ''1''" for m
    using example_merge(2)[of "se_lib exampleEnv"] by (simp add: applySample_def) (simp add: exampleSample_def)
  then have "applyAll (se_lib exampleEnv) (replicate (Suc 63) ?old) m (1, ''a'') = Some ''1''" for m
    by (intro applyAll_last) simp
  then have "applyAll (se_lib exampleEnv) (replicate 64 ?old) m (1, ''a'') = Some ''1''" for m by (simp del: replicate.simps)
  then show ?thesis
    using overflow_shows_stale[of ?w "replicate 64 ?old" exampleEnv ?K ?new False exampleSample False "''a''" "''1''" 1] room
      example_merge(2)[of "se_lib exampleEnv"]
    by (simp add: collectWriteQueueCap_def del: replicate.simps) (simp add: exampleSample_def)
qed

end
