(* ===== verification/Sample_Merge.thy ===== *)
theory Sample_Merge
  imports Sample_Store
begin

text \<open>
  Merging history rows of the memory with rows of the disk (\<open>mergeDataPoints\<close> in
  \<open>database/data_points_batch.go\<close>), against a merge of two sorted lists in which every key keeps its first row.
\<close>

section \<open>Merging the rows of memory and disk\<close>

text \<open>\<open>UnixNano\<close> counts from 1970 in an \<open>int64\<close>; outside the years 1678 to 2262 it wraps.\<close>

definition unixEpoch :: gotime where "unixEpoch = 62135596800000000000"

definition time_UnixNano :: "gotime \<Rightarrow> int" where
  "time_UnixNano t = wrap64 (t - unixEpoch)"

record dataPointKey =
  pk_deviceID :: int
  pk_fieldName :: string
  pk_collectedAt :: int

definition keyOf :: "DataPoint \<Rightarrow> dataPointKey" where
  "keyOf p = \<lparr>pk_deviceID = hp_DeviceID p, pk_fieldName = hp_FieldName p, pk_collectedAt = time_UnixNano (hp_CollectedAt p)\<rparr>"

definition samePoint :: "DataPoint \<Rightarrow> DataPoint \<Rightarrow> bool" where
  "samePoint existing candidate \<longleftrightarrow>
     hp_DeviceID existing = hp_DeviceID candidate \<and> hp_FieldName existing = hp_FieldName candidate \<and>
     hp_CollectedAt existing = hp_CollectedAt candidate"

text \<open>Pointers may be nil; a merged list is one of pointers.\<close>

type_synonym pointRefs = "DataPoint option list"

definition dataPointsDoNotOverlap :: "pointRefs \<Rightarrow> pointRefs \<Rightarrow> bool" where
  "dataPointsDoNotOverlap primary secondary =
     (if primary = [] \<or> secondary = [] then True
      else case (last primary, hd secondary) of
             (Some oldestPrimary, Some newestSecondary) \<Rightarrow>
               \<not> time_After (hp_CollectedAt newestSecondary) (hp_CollectedAt oldestPrimary)
           | _ \<Rightarrow> False)"

fun nextCandidate :: "pointRefs \<Rightarrow> pointRefs \<Rightarrow> (DataPoint option \<times> pointRefs \<times> pointRefs) option" where
  "nextCandidate [] [] = None"
| "nextCandidate (p # ps) [] = Some (p, ps, [])"
| "nextCandidate [] (q # qs) = Some (q, [], qs)"
| "nextCandidate (p # ps) (q # qs) =
     (case (p, q) of
        (_, None) \<Rightarrow> Some (p, ps, q # qs)
      | (Some candidate, Some other) \<Rightarrow>
          if \<not> time_Before (hp_CollectedAt candidate) (hp_CollectedAt other) then Some (p, ps, q # qs)
          else Some (q, p # ps, qs)
      | (None, Some _) \<Rightarrow> Some (q, p # ps, qs))"

lemma nextCandidate_shrinks: "nextCandidate ps qs = Some (c, ps', qs') \<Longrightarrow> length ps' + length qs' < length ps + length qs"
  by (induction ps qs rule: nextCandidate.induct) (auto split: option.splits if_splits)

text \<open>\<open>seen\<close> is nil until the first duplicate.\<close>

function mergeLoop :: "nat \<Rightarrow> pointRefs \<Rightarrow> pointRefs \<Rightarrow> dataPointKey list option \<Rightarrow> pointRefs \<Rightarrow> pointRefs" where
  "mergeLoop limit primary secondary seen result =
     (if length result \<ge> limit then result
      else case nextCandidate primary secondary of
             None \<Rightarrow> result
           | Some (None, ps, qs) \<Rightarrow> mergeLoop limit ps qs seen result
           | Some (Some candidate, ps, qs) \<Rightarrow>
               let duplicate = list_ex (\<lambda>r. \<exists>existing. r = Some existing \<and> samePoint existing candidate) result;
                   keys = (case seen of
                             Some keys \<Rightarrow> Some keys
                           | None \<Rightarrow> if duplicate
                               then Some (map keyOf (List.map_filter id result)) else None)
               in case keys of
                    None \<Rightarrow> mergeLoop limit ps qs None (result @ [Some candidate])
                  | Some keys \<Rightarrow>
                      if keyOf candidate \<in> set keys then mergeLoop limit ps qs (Some keys) result
                      else mergeLoop limit ps qs (Some (keyOf candidate # keys)) (result @ [Some candidate]))"
  by pat_completeness auto

termination
  by (relation "measure (\<lambda>(_, ps, qs, _, _). length ps + length qs)") (auto dest: nextCandidate_shrinks)

declare mergeLoop.simps [simp del]

definition mergeDataPoints :: "pointRefs \<Rightarrow> pointRefs \<Rightarrow> int \<Rightarrow> pointRefs" where
  "mergeDataPoints primary secondary limit =
     (let n = (if limit \<le> 0 then length primary + length secondary else nat limit)
      in if secondary = [] then take n primary
         else if primary = [] then take n secondary
         else if dataPointsDoNotOverlap primary secondary
         then (if length primary \<ge> n then take n primary
               else primary @ take (n - length primary) secondary)
         else mergeLoop n primary secondary None [])"

definition oldestCollectedAt :: "pointRefs \<Rightarrow> gotime option" where
  "oldestCollectedAt points =
     (if points = [] then Some 0 else map_option hp_CollectedAt (last points))"

section \<open>The reference\<close>

fun mergeDesc :: "DataPoint list \<Rightarrow> DataPoint list \<Rightarrow> DataPoint list" where
  "mergeDesc [] qs = qs"
| "mergeDesc ps [] = ps"
| "mergeDesc (p # ps) (q # qs) =
     (if hp_CollectedAt q \<le> hp_CollectedAt p then p # mergeDesc ps (q # qs) else q # mergeDesc (p # ps) qs)"

fun firstOfKey :: "dataPointKey set \<Rightarrow> DataPoint list \<Rightarrow> DataPoint list" where
  "firstOfKey seen [] = []"
| "firstOfKey seen (p # ps) =
     (if keyOf p \<in> seen then firstOfKey seen ps else p # firstOfKey (insert (keyOf p) seen) ps)"

definition newestFirst :: "DataPoint list \<Rightarrow> bool" where
  "newestFirst ps \<longleftrightarrow> sorted_wrt (\<lambda>p q. hp_CollectedAt q \<le> hp_CollectedAt p) ps"

text \<open>Instants whose nanoseconds fit into an \<open>int64\<close>.\<close>

definition unixTimes :: "DataPoint list \<Rightarrow> bool" where
  "unixTimes ps \<longleftrightarrow> list_all (\<lambda>p. in_int64 (hp_CollectedAt p - unixEpoch)) ps"

definition uniqueKeys :: "DataPoint list \<Rightarrow> bool" where
  "uniqueKeys ps \<longleftrightarrow> distinct (map keyOf ps)"

lemma keyOf_eq:
  "in_int64 (hp_CollectedAt p - unixEpoch) \<Longrightarrow> in_int64 (hp_CollectedAt q - unixEpoch) \<Longrightarrow> keyOf p = keyOf q \<longleftrightarrow> samePoint p q"
  by (auto simp: keyOf_def samePoint_def time_UnixNano_def wrap64_id)

lemma mergeDesc_set: "set (mergeDesc ps qs) = set ps \<union> set qs"
  by (induction ps qs rule: mergeDesc.induct) auto

lemma mergeDesc_Nil [simp]: "mergeDesc ps [] = ps"
  by (cases ps) auto

lemma mergeDesc_length: "length (mergeDesc ps qs) = length ps + length qs"
  by (induction ps qs rule: mergeDesc.induct) auto

lemma mergeDesc_sorted: "newestFirst ps \<Longrightarrow> newestFirst qs \<Longrightarrow> newestFirst (mergeDesc ps qs)"
  by (induction ps qs rule: mergeDesc.induct) (fastforce simp: newestFirst_def mergeDesc_set)+

lemma mergeDesc_apart: "\<forall>p \<in> set ps. \<forall>q \<in> set qs. hp_CollectedAt q \<le> hp_CollectedAt p \<Longrightarrow> mergeDesc ps qs = ps @ qs"
  by (induction ps qs rule: mergeDesc.induct) auto

lemma firstOfKey_fresh: "distinct (map keyOf ps) \<Longrightarrow> seen \<inter> keyOf ` set ps = {} \<Longrightarrow> firstOfKey seen ps = ps"
proof (induction ps arbitrary: seen)
  case (Cons p ps)
  have "firstOfKey (insert (keyOf p) seen) ps = ps" using Cons.prems by (intro Cons.IH) auto
  with Cons.prems show ?case by auto
qed simp

lemma nextCandidate_merge:
  "nextCandidate (map Some ps) (map Some qs) =
   (case mergeDesc ps qs of
      [] \<Rightarrow> None
    | c # _ \<Rightarrow> Some (if qs = [] \<or> ps \<noteq> [] \<and> hp_CollectedAt (hd qs) \<le> hp_CollectedAt (hd ps)
        then (Some c, map Some (tl ps), map Some qs) else (Some c, map Some ps, map Some (tl qs))))"
  by (cases ps; cases qs) (auto simp: time_Before_def)

lemma mergeDesc_step:
  "mergeDesc ps qs = c # rest \<Longrightarrow>
   rest = (if qs = [] \<or> ps \<noteq> [] \<and> hp_CollectedAt (hd qs) \<le> hp_CollectedAt (hd ps) then mergeDesc (tl ps) qs else mergeDesc ps (tl qs))"
  by (cases ps; cases qs) (auto split: if_splits)

lemma duplicate_key:
  assumes "unixTimes (c # res)"
  shows "list_ex (\<lambda>r. \<exists>existing. r = Some existing \<and> samePoint existing c) (map Some res) \<longleftrightarrow> keyOf c \<in> keyOf ` set res"
proof -
  have "samePoint r c \<longleftrightarrow> keyOf r = keyOf c" if "r \<in> set res" for r
    using assms that by (subst keyOf_eq) (auto simp: unixTimes_def list_all_iff)
  then show ?thesis by (auto simp: list_ex_iff image_iff) metis+
qed

lemma unixTimes_sub: "unixTimes ps \<Longrightarrow> set qs \<subseteq> set ps \<Longrightarrow> unixTimes qs"
  by (auto simp: unixTimes_def list_all_iff)

lemma mergeLoop_reference:
  assumes "unixTimes (res @ mergeDesc ps qs)" and "length res \<le> limit"
    and "\<And>keys. seen = Some keys \<Longrightarrow> set keys = keyOf ` set res"
  shows "mergeLoop limit (map Some ps) (map Some qs) seen (map Some res) =
    map Some (take limit (res @ firstOfKey (keyOf ` set res) (mergeDesc ps qs)))"
  using assms
proof (induction "mergeDesc ps qs" arbitrary: ps qs seen res)
  case Nil
  then have "nextCandidate (map Some ps) (map Some qs) = None" by (simp add: nextCandidate_merge split: list.splits)
  with Nil.prems Nil.hyps[symmetric] show ?case by (subst mergeLoop.simps) simp
next
  case (Cons c rest)
  show ?case
  proof (cases "length res < limit")
    case False
    with Cons.prems(2) show ?thesis by (subst mergeLoop.simps) simp
  next
    case room: True
    define ps' where "ps' = (if qs = [] \<or> ps \<noteq> [] \<and> hp_CollectedAt (hd qs) \<le> hp_CollectedAt (hd ps) then tl ps else ps)"
    define qs' where "qs' = (if qs = [] \<or> ps \<noteq> [] \<and> hp_CollectedAt (hd qs) \<le> hp_CollectedAt (hd ps) then qs else tl qs)"
    have m: "mergeDesc ps qs = c # rest" using Cons.hyps(2) by simp
    have rest: "rest = mergeDesc ps' qs'" using mergeDesc_step[OF m] by (simp add: ps'_def qs'_def)
    have nxt: "nextCandidate (map Some ps) (map Some qs) = Some (Some c, map Some ps', map Some qs')"
      using m by (simp add: nextCandidate_merge ps'_def qs'_def)
    have ux: "unixTimes (res @ mergeDesc ps' qs')" "unixTimes ((res @ [c]) @ mergeDesc ps' qs')" "unixTimes (c # res)"
      using m rest by (auto intro!: unixTimes_sub[OF Cons.prems(1)])
    note dup = duplicate_key[OF ux(3)]
    have skip: "mergeLoop limit (map Some ps') (map Some qs') seen' (map Some res) =
        map Some (take limit (res @ firstOfKey (keyOf ` set res) rest))"
      if "\<And>keys. seen' = Some keys \<Longrightarrow> set keys = keyOf ` set res" for seen'
      using Cons.hyps(1)[OF rest ux(1) Cons.prems(2) that] rest by simp
    have keep: "mergeLoop limit (map Some ps') (map Some qs') seen' (map Some res @ [Some c]) =
        map Some (take limit (res @ c # firstOfKey (insert (keyOf c) (keyOf ` set res)) rest))"
      if "\<And>keys. seen' = Some keys \<Longrightarrow> set keys = insert (keyOf c) (keyOf ` set res)" for seen'
      using Cons.hyps(1)[OF rest ux(2), of seen'] that rest room by simp
    have filt: "List.map_filter id (map Some res) = res" by (induction res) (simp_all add: List.map_filter_simps)
    show ?thesis
    proof (cases seen)
      case None
      show ?thesis
        using room nxt m None dup skip[of "Some (map keyOf res)"] keep[of None] filt
        by (subst mergeLoop.simps, cases "keyOf c \<in> keyOf ` set res") (simp_all add: Let_def)
    next
      case (Some keys)
      have k: "set keys = keyOf ` set res" using Cons.prems(3)[OF Some] .
      show ?thesis
        using room nxt m Some k skip[of seen] keep[of "Some (keyOf c # keys)"]
        by (subst mergeLoop.simps) (simp add: Let_def)
    qed
  qed
qed

text \<open>Where no row of the second list is newer than the first list's oldest, the code concatenates: keys may not be shared there.\<close>

definition boundaryClear :: "DataPoint list \<Rightarrow> DataPoint list \<Rightarrow> bool" where
  "boundaryClear ps qs \<longleftrightarrow>
     keyOf ` set ps \<inter> keyOf ` set qs = {} \<or> (\<exists>p \<in> set ps. \<exists>q \<in> set qs. hp_CollectedAt p < hp_CollectedAt q)"

lemma newestFirst_ends:
  "newestFirst ps \<Longrightarrow> p \<in> set ps \<Longrightarrow> hp_CollectedAt (last ps) \<le> hp_CollectedAt p \<and> hp_CollectedAt p \<le> hp_CollectedAt (hd ps)"
  by (induction ps) (auto simp: newestFirst_def split: if_splits)

lemma mergeDataPoints_reference:
  assumes "newestFirst ps" and "newestFirst qs" and "uniqueKeys ps" and "uniqueKeys qs"
    and "unixTimes ps" and "unixTimes qs" and "boundaryClear ps qs"
  shows "mergeDataPoints (map Some ps) (map Some qs) limit =
    map Some (take (if limit \<le> 0 then length ps + length qs else nat limit) (firstOfKey {} (mergeDesc ps qs)))"
proof -
  let ?n = "if limit \<le> 0 then length ps + length qs else nat limit"
  have alone: "firstOfKey {} ps = ps" "firstOfKey {} qs = qs"
    using assms(3,4) by (simp_all add: firstOfKey_fresh uniqueKeys_def)
  consider "qs = []" | "ps = []" | "ps \<noteq> []" "qs \<noteq> []" "hp_CollectedAt (hd qs) \<le> hp_CollectedAt (last ps)"
    | "ps \<noteq> []" "qs \<noteq> []" "hp_CollectedAt (hd qs) > hp_CollectedAt (last ps)" by linarith
  then show ?thesis
  proof cases
    case 1 with alone show ?thesis by (simp add: mergeDataPoints_def Let_def take_map)
  next
    case 2 with alone show ?thesis by (simp add: mergeDataPoints_def Let_def take_map)
  next
    case 3
    then have apart: "dataPointsDoNotOverlap (map Some ps) (map Some qs)"
      by (simp add: dataPointsDoNotOverlap_def time_After_def last_map hd_map)
    have below: "hp_CollectedAt q \<le> hp_CollectedAt p" if "p \<in> set ps" "q \<in> set qs" for p q
      using newestFirst_ends[OF assms(1) that(1)] newestFirst_ends[OF assms(2) that(2)] 3(3) by linarith
    then have "keyOf ` set ps \<inter> keyOf ` set qs = {}" using assms(7) by (fastforce simp: boundaryClear_def not_less)
    then have "firstOfKey {} (ps @ qs) = ps @ qs" using assms(3,4) by (intro firstOfKey_fresh) (auto simp: uniqueKeys_def)
    moreover have "mergeDesc ps qs = ps @ qs"
      using below by (intro mergeDesc_apart) blast
    ultimately show ?thesis using 3(1,2) apart by (simp add: mergeDataPoints_def Let_def take_map)
  next
    case 4
    then have "\<not> dataPointsDoNotOverlap (map Some ps) (map Some qs)"
      by (simp add: dataPointsDoNotOverlap_def time_After_def last_map hd_map)
    moreover have "unixTimes (mergeDesc ps qs)" using assms(5,6) by (auto simp: unixTimes_def list_all_iff mergeDesc_set)
    moreover from this have "mergeLoop n (map Some ps) (map Some qs) None [] =
        map Some (take n (firstOfKey {} (mergeDesc ps qs)))" for n
      using mergeLoop_reference[of "[]" ps qs n None] by simp
    ultimately show ?thesis using 4(1,2) by (simp add: mergeDataPoints_def Let_def)
  qed
qed


section \<open>What the reference gives\<close>

lemma firstOfKey_sub: "set (firstOfKey seen ps) \<subseteq> set ps"
  by (induction ps arbitrary: seen) auto

lemma firstOfKey_sorted: "newestFirst ps \<Longrightarrow> newestFirst (firstOfKey seen ps)"
proof (induction ps arbitrary: seen)
  case (Cons p ps)
  then show ?case using firstOfKey_sub[of "insert (keyOf p) seen" ps] by (auto simp: newestFirst_def)
qed (simp add: newestFirst_def)

lemma firstOfKey_keys: "keyOf ` set (firstOfKey seen ps) = keyOf ` set ps - seen"
  by (induction ps arbitrary: seen) auto

lemma firstOfKey_set: "uniqueKeys ps \<Longrightarrow> set (firstOfKey seen ps) = {p \<in> set ps. keyOf p \<notin> seen}"
proof (induction ps arbitrary: seen)
  case (Cons p ps)
  then have "keyOf p \<notin> keyOf ` set ps" "\<And>seen. set (firstOfKey seen ps) = {p \<in> set ps. keyOf p \<notin> seen}"
    by (simp_all add: uniqueKeys_def)
  then show ?case by (auto simp: image_iff)
qed simp

lemma firstOfKey_unique: "uniqueKeys (firstOfKey seen ps)"
proof (induction ps arbitrary: seen)
  case (Cons p ps)
  then show ?case using firstOfKey_keys[of "insert (keyOf p) seen" ps] by (auto simp: uniqueKeys_def)
qed (simp add: uniqueKeys_def)

text \<open>The rows of the memory, and those of the disk whose key the memory does not have.\<close>

definition visibleRows :: "DataPoint list \<Rightarrow> DataPoint list \<Rightarrow> DataPoint set" where
  "visibleRows mem disk = set mem \<union> {q \<in> set disk. keyOf q \<notin> keyOf ` set mem}"

lemma firstOfKey_merge:
  assumes "newestFirst ps" "newestFirst qs" "uniqueKeys ps" "uniqueKeys qs" "unixTimes ps" "unixTimes qs"
  shows "set (firstOfKey seen (mergeDesc ps qs)) =
    {p \<in> set ps. keyOf p \<notin> seen} \<union> {q \<in> set qs. keyOf q \<notin> seen \<union> keyOf ` set ps}"
  using assms
proof (induction ps qs arbitrary: seen rule: mergeDesc.induct)
  case (1 qs)
  then show ?case by (simp add: firstOfKey_set)
next
  case (2 p ps)
  then show ?case using firstOfKey_set[of "p # ps" seen] by simp
next
  case (3 p ps q qs)
  have tails: "newestFirst ps" "newestFirst qs" "uniqueKeys ps" "uniqueKeys qs" "unixTimes ps" "unixTimes qs"
    using "3.prems"(1-6) by (simp_all add: newestFirst_def uniqueKeys_def unixTimes_def)
  show ?case
  proof (cases "hp_CollectedAt q \<le> hp_CollectedAt p")
    case True
    note IH = "3.IH"(1)[OF True tails(1) "3.prems"(2) tails(3) "3.prems"(4) tails(5) "3.prems"(6)]
    have "keyOf p \<notin> keyOf ` set ps" using "3.prems"(3) by (simp add: uniqueKeys_def)
    with True IH show ?thesis by (auto simp: image_iff)
  next
    case False
    note IH = "3.IH"(2)[OF False "3.prems"(1) tails(2) "3.prems"(3) tails(4) "3.prems"(5) tails(6)]
    have "keyOf q \<notin> keyOf ` set (p # ps)"
    proof
      assume "keyOf q \<in> keyOf ` set (p # ps)"
      then obtain r where r: "r \<in> set (p # ps)" "keyOf q = keyOf r" by auto
      have "samePoint q r"
        using r "3.prems"(5,6) keyOf_eq[of q r] by (auto simp: unixTimes_def list_all_iff)
      moreover have "hp_CollectedAt r \<le> hp_CollectedAt p" using r(1) "3.prems"(1) by (auto simp: newestFirst_def)
      ultimately show False using False by (simp add: samePoint_def)
    qed
    moreover have "keyOf q \<notin> keyOf ` set qs" using "3.prems"(4) by (simp add: uniqueKeys_def)
    ultimately show ?thesis using False IH by (auto simp: image_iff)
  qed
qed

text \<open>The newest \<open>n\<close> rows of a set of rows, newest first.\<close>

definition newestOf :: "nat \<Rightarrow> DataPoint set \<Rightarrow> DataPoint list \<Rightarrow> bool" where
  "newestOf n rows result \<longleftrightarrow>
     newestFirst result \<and> uniqueKeys result \<and> set result \<subseteq> rows \<and> length result = min n (card rows) \<and>
     (\<forall>u \<in> rows - set result. \<forall>r \<in> set result. hp_CollectedAt u \<le> hp_CollectedAt r)"

lemma uniqueKeys_distinct: "uniqueKeys ps \<Longrightarrow> distinct ps"
  by (simp add: uniqueKeys_def distinct_map)

lemma take_newestOf:
  assumes "newestFirst ps" and "uniqueKeys ps"
  shows "newestOf n (set ps) (take n ps)"
proof -
  have parts: "newestFirst (take n ps)" "uniqueKeys (take n ps)"
    using assms by (simp_all add: newestFirst_def uniqueKeys_def take_map[symmetric] sorted_wrt_take)
  have "hp_CollectedAt u \<le> hp_CollectedAt r" if "u \<in> set ps - set (take n ps)" "r \<in> set (take n ps)" for u r
  proof -
    have "u \<in> set (drop n ps)" using that(1) by (metis Diff_iff Un_iff append_take_drop_id set_append)
    moreover have "sorted_wrt (\<lambda>p q. hp_CollectedAt q \<le> hp_CollectedAt p) (take n ps @ drop n ps)"
      using assms(1) by (simp add: newestFirst_def)
    ultimately show ?thesis using that(2) unfolding sorted_wrt_append by blast
  qed
  then show ?thesis
    using parts distinct_card[OF uniqueKeys_distinct[OF assms(2)]] set_take_subset[of n ps]
    by (auto simp: newestOf_def)
qed

lemma reference_newest:
  assumes "newestFirst ps" "newestFirst qs" "uniqueKeys ps" "uniqueKeys qs" "unixTimes ps" "unixTimes qs"
  shows "newestOf n (visibleRows ps qs) (take n (firstOfKey {} (mergeDesc ps qs)))"
proof -
  have "set (firstOfKey {} (mergeDesc ps qs)) = visibleRows ps qs"
    using firstOfKey_merge[OF assms, of "{}"] by (auto simp: visibleRows_def)
  with take_newestOf[OF firstOfKey_sorted[OF mergeDesc_sorted[OF assms(1,2)]] firstOfKey_unique]
  show ?thesis by metis
qed

end
