(* ===== verification/Sample_History.thy ===== *)
theory Sample_History
  imports Sample_Merge "HOL-Library.Multiset"
begin

text \<open>
  The history of the samples in memory and on disk (\<open>database/data_points.go\<close>, \<open>data_points_query.go\<close>,
  \<open>data_sync.go\<close>, \<open>retention_job.go\<close>): the queries over both tables, the copying of the memory's rows to
  the disk, the deletion of a point and of old rows.

  Every call of the database or of the file system may fail; \<open>se_fault\<close> of the environment
  decides it by the number of the call. SQLite compares instants as texts: the
  comparisons are fields of the environment, and what the code relies on is that they are right when the
  instants differ by their second (\<open>textOrder\<close>).
\<close>

section \<open>The tables and their environment\<close>

record historyEnv =
  he_sql :: sqlEnv
  he_dataDBFile :: string
  he_memPath :: string
  he_before :: "gotime \<Rightarrow> gotime \<Rightarrow> bool"
  he_since :: "gotime \<Rightarrow> gotime \<Rightarrow> bool"
  he_until :: "gotime \<Rightarrow> gotime \<Rightarrow> bool"

text \<open>The rows on disk are \<open>None\<close> while the file does not exist; \<open>sd_handle\<close> is the path of the cached connection.\<close>

record sampleDB =
  sd_mem :: dataStore
  sd_disk :: "DataPoint list option"
  sd_diskSeq :: int
  sd_handle :: "string option"

definition attempt :: "historyEnv \<Rightarrow> string \<Rightarrow> sampleDB \<Rightarrow> string option \<times> sampleDB" where
  "attempt H e d =
     (case execStmt (he_sql H) e e (\<lambda>_. Some) (sd_mem d) of (r, s) \<Rightarrow> (r, d\<lparr>sd_mem := s\<rparr>))"

text \<open>A \<open>time.Time\<close> as a query parameter: its instant and the seconds its zone is ahead of UTC. \<open>formatSQLiteTime\<close>
  writes the clock of that zone without naming it; the result is the instant that SQLite
  reads in the text, \<open>None\<close> for the empty one.\<close>

record zonedTime =
  zt_instant :: gotime
  zt_offset :: int

definition formatSQLiteTime :: "zonedTime \<Rightarrow> gotime option" where
  "formatSQLiteTime t =
     (if IsZero (zt_instant t) then None
      else Some ((zt_instant t + zt_offset t * Second) div Second * Second))"

section \<open>Queries\<close>

text \<open>\<open>SELECT ... ORDER BY collected_at DESC LIMIT ?\<close>; a negative limit is none.\<close>

definition rowOfID :: "DataPoint list \<Rightarrow> int \<Rightarrow> DataPoint option" where
  "rowOfID rows i = List.find (\<lambda>r. hp_ID r = i) rows"

definition descendingRows :: "historyEnv \<Rightarrow> DataPoint list \<Rightarrow> DataPoint list" where
  "descendingRows H rows =
     List.map_filter (rowOfID rows) (se_descending (he_sql H) (map (\<lambda>r. (hp_ID r, hp_CollectedAt r)) rows))"

definition selectPoints :: "historyEnv \<Rightarrow> (DataPoint \<Rightarrow> bool) \<Rightarrow> int \<Rightarrow> DataPoint list \<Rightarrow> DataPoint list" where
  "selectPoints H cond limit table =
     (let rows = descendingRows H (filter cond table) in if limit < 0 then rows else take (nat limit) rows)"

text \<open>The query and the reading of its rows.\<close>

definition listDataPointsLimit ::
  "historyEnv \<Rightarrow> (DataPoint \<Rightarrow> bool) \<Rightarrow> int \<Rightarrow> DataPoint list \<Rightarrow> sampleDB \<Rightarrow> pointRefs fallible \<times> sampleDB" where
  "listDataPointsLimit H cond limit table d =
     (case attempt H ''query'' d of
        (Some e, d) \<Rightarrow> (Inl e, d)
      | (None, d) \<Rightarrow> (Inr (map Some (selectPoints H cond limit table)), d))"

definition listDataPointsStmtLimit ::
  "historyEnv \<Rightarrow> (DataPoint \<Rightarrow> bool) \<Rightarrow> int \<Rightarrow> DataPoint list \<Rightarrow> sampleDB \<Rightarrow> pointRefs fallible \<times> sampleDB" where
  "listDataPointsStmtLimit H cond limit table d =
     (case attempt H ''prepare'' d of
        (Some e, d) \<Rightarrow> (Inl e, d)
      | (None, d) \<Rightarrow> listDataPointsLimit H cond limit table d)"

definition queryDataPointsByDevice ::
  "historyEnv \<Rightarrow> int \<Rightarrow> int \<Rightarrow> gotime \<Rightarrow> DataPoint list \<Rightarrow> sampleDB \<Rightarrow> pointRefs fallible \<times> sampleDB" where
  "queryDataPointsByDevice H deviceID limit before table d =
     (if IsZero before then listDataPointsStmtLimit H (\<lambda>r. hp_DeviceID r = deviceID) limit table d
      else listDataPointsLimit H (\<lambda>r. hp_DeviceID r = deviceID \<and> he_before H (hp_CollectedAt r) before) limit table d)"

definition queryLatestDataPoints ::
  "historyEnv \<Rightarrow> int \<Rightarrow> gotime \<Rightarrow> DataPoint list \<Rightarrow> sampleDB \<Rightarrow> pointRefs fallible \<times> sampleDB" where
  "queryLatestDataPoints H limit before table d =
     (if IsZero before then listDataPointsStmtLimit H (\<lambda>r. True) limit table d
      else listDataPointsLimit H (\<lambda>r. he_before H (hp_CollectedAt r) before) limit table d)"

definition inRange :: "historyEnv \<Rightarrow> zonedTime \<Rightarrow> zonedTime \<Rightarrow> DataPoint \<Rightarrow> bool" where
  "inRange H startTime endTime r \<longleftrightarrow>
     (case formatSQLiteTime startTime of None \<Rightarrow> True | Some t \<Rightarrow> he_since H (hp_CollectedAt r) t) \<and>
     (case formatSQLiteTime endTime of None \<Rightarrow> True | Some t \<Rightarrow> he_until H (hp_CollectedAt r) t)"

definition queryDataPointsByDeviceAndTime ::
  "historyEnv \<Rightarrow> int \<Rightarrow> zonedTime \<Rightarrow> zonedTime \<Rightarrow> int \<Rightarrow> DataPoint list \<Rightarrow> sampleDB \<Rightarrow> pointRefs fallible \<times> sampleDB" where
  "queryDataPointsByDeviceAndTime H deviceID startTime endTime limit =
     listDataPointsLimit H (\<lambda>r. hp_DeviceID r = deviceID \<and> inRange H startTime endTime r) limit"

definition queryDataPointsByDeviceFieldAndTime ::
  "historyEnv \<Rightarrow> int \<Rightarrow> string \<Rightarrow> zonedTime \<Rightarrow> zonedTime \<Rightarrow> int \<Rightarrow> DataPoint list \<Rightarrow> sampleDB \<Rightarrow> pointRefs fallible \<times> sampleDB" where
  "queryDataPointsByDeviceFieldAndTime H deviceID fieldName startTime endTime limit =
     listDataPointsLimit H (\<lambda>r. hp_DeviceID r = deviceID \<and> hp_FieldName r = fieldName \<and> inRange H startTime endTime r) limit"

definition openDataDiskDB :: "historyEnv \<Rightarrow> sampleDB \<Rightarrow> string option \<times> sampleDB" where
  "openDataDiskDB H d =
     (if he_dataDBFile H = [] then (Some ''data db path is empty'', d)
      else if sd_handle d = Some (he_dataDBFile H) then (None, d)
      else let d = d\<lparr>sd_handle := None\<rparr>
           in if sd_disk d = None then (Some ''file does not exist'', d)
              else case attempt H ''open'' d of
                     (Some e, d) \<Rightarrow> (Some e, d)
                   | (None, d) \<Rightarrow> (None, d\<lparr>sd_handle := Some (he_dataDBFile H)\<rparr>))"

definition closeCachedDataDiskDBForPath :: "string \<Rightarrow> sampleDB \<Rightarrow> sampleDB" where
  "closeCachedDataDiskDBForPath path d =
     (case sd_handle d of
        None \<Rightarrow> d
      | Some h \<Rightarrow> if path \<noteq> [] \<and> h \<noteq> path then d else d\<lparr>sd_handle := None\<rparr>)"

definition diskRows :: "sampleDB \<Rightarrow> DataPoint list" where
  "diskRows d = (case sd_disk d of None \<Rightarrow> [] | Some rows \<Rightarrow> rows)"

text \<open>The four \<open>getDisk\<close> functions: the query on the disk's table.\<close>

definition getDisk ::
  "historyEnv \<Rightarrow> (DataPoint list \<Rightarrow> sampleDB \<Rightarrow> pointRefs fallible \<times> sampleDB) \<Rightarrow> sampleDB \<Rightarrow> pointRefs fallible \<times> sampleDB" where
  "getDisk H query d =
     (case openDataDiskDB H d of
        (Some e, d) \<Rightarrow> (Inl e, d)
      | (None, d) \<Rightarrow> query (diskRows d) d)"

text \<open>The rows of the memory, and when these are fewer than asked for, merged with those of the disk.\<close>

definition memoryThenDisk ::
  "historyEnv \<Rightarrow> int \<Rightarrow> (DataPoint list \<Rightarrow> sampleDB \<Rightarrow> pointRefs fallible \<times> sampleDB) \<Rightarrow>
   (pointRefs \<Rightarrow> DataPoint list \<Rightarrow> sampleDB \<Rightarrow> pointRefs fallible \<times> sampleDB) \<Rightarrow> sampleDB \<Rightarrow> pointRefs fallible \<times> sampleDB" where
  "memoryThenDisk H limit memQuery diskQuery d =
     (case memQuery (ds_points (sd_mem d)) d of
        (Inl e, d) \<Rightarrow> (Inl e, d)
      | (Inr memPoints, d) \<Rightarrow>
          if limit > 0 \<and> int (length memPoints) \<ge> limit then (Inr (take (nat limit) memPoints), d)
          else if he_dataDBFile H = [] then (Inr memPoints, d)
          else case getDisk H (diskQuery memPoints) d of
                 (Inl e, d) \<Rightarrow> (Inr memPoints, d)
               | (Inr diskPoints, d) \<Rightarrow> (Inr (mergeDataPoints memPoints diskPoints limit), d))"

definition GetDataPointsByDeviceAndTimeLimit ::
  "historyEnv \<Rightarrow> int \<Rightarrow> zonedTime \<Rightarrow> zonedTime \<Rightarrow> int \<Rightarrow> sampleDB \<Rightarrow> pointRefs fallible \<times> sampleDB" where
  "GetDataPointsByDeviceAndTimeLimit H deviceID startTime endTime limit d =
     (let limit = (if limit \<le> 0 then 2000 else limit)
      in memoryThenDisk H limit (queryDataPointsByDeviceAndTime H deviceID startTime endTime limit)
           (\<lambda>_. queryDataPointsByDeviceAndTime H deviceID startTime endTime limit) d)"

definition GetDataPointsByDeviceAndTime ::
  "historyEnv \<Rightarrow> int \<Rightarrow> zonedTime \<Rightarrow> zonedTime \<Rightarrow> sampleDB \<Rightarrow> pointRefs fallible \<times> sampleDB" where
  "GetDataPointsByDeviceAndTime H deviceID startTime endTime d =
     GetDataPointsByDeviceAndTimeLimit H deviceID startTime endTime 2000 d"

definition GetDataPointsByDeviceFieldAndTime ::
  "historyEnv \<Rightarrow> int \<Rightarrow> string \<Rightarrow> zonedTime \<Rightarrow> zonedTime \<Rightarrow> int \<Rightarrow> sampleDB \<Rightarrow> pointRefs fallible \<times> sampleDB" where
  "GetDataPointsByDeviceFieldAndTime H deviceID fieldName startTime endTime limit d =
     (let limit = (if limit \<le> 0 then 2000 else limit)
      in memoryThenDisk H limit (queryDataPointsByDeviceFieldAndTime H deviceID fieldName startTime endTime limit)
           (\<lambda>_. queryDataPointsByDeviceFieldAndTime H deviceID fieldName startTime endTime limit) d)"

text \<open>Without a time range the disk is asked for rows before the oldest of the memory; a nil row would be a panic.\<close>

definition GetDataPointsByDevice :: "historyEnv \<Rightarrow> int \<Rightarrow> int \<Rightarrow> sampleDB \<Rightarrow> pointRefs fallible \<times> sampleDB" where
  "GetDataPointsByDevice H deviceID limit d =
     memoryThenDisk H limit (queryDataPointsByDevice H deviceID limit 0)
       (\<lambda>memPoints table d.
          case oldestCollectedAt memPoints of
            None \<Rightarrow> (Inl ''panic'', d)
          | Some before \<Rightarrow> queryDataPointsByDevice H deviceID limit before table d) d"

definition GetLatestDataPoints :: "historyEnv \<Rightarrow> int \<Rightarrow> sampleDB \<Rightarrow> pointRefs fallible \<times> sampleDB" where
  "GetLatestDataPoints H limit d =
     memoryThenDisk H limit (queryLatestDataPoints H limit 0)
       (\<lambda>memPoints table d.
          case oldestCollectedAt memPoints of
            None \<Rightarrow> (Inl ''panic'', d)
          | Some before \<Rightarrow> queryLatestDataPoints H limit before table d) d"


section \<open>What the queries answer\<close>

text \<open>The order of a query: a permutation, newest first.\<close>

definition descendingOK :: "sqlEnv \<Rightarrow> bool" where
  "descendingOK V \<longleftrightarrow>
     (\<forall>xs. distinct (map fst xs) \<longrightarrow>
        (\<exists>ys. mset ys = mset xs \<and> se_descending V xs = map fst ys \<and> sorted_wrt (\<lambda>a b. snd b \<le> snd a) ys))"

definition tableOK :: "DataPoint list \<Rightarrow> bool" where
  "tableOK rows \<longleftrightarrow> distinct (map hp_ID rows) \<and> uniqueKeys rows \<and> unixTimes rows"

lemma rowOfID_Some: "distinct (map hp_ID rows) \<Longrightarrow> r \<in> set rows \<Longrightarrow> rowOfID rows (hp_ID r) = Some r"
  by (induction rows) (auto simp: rowOfID_def)

lemma tableOK_filter: "tableOK rows \<Longrightarrow> tableOK (filter P rows)"
  by (auto simp: tableOK_def uniqueKeys_def unixTimes_def list_all_iff distinct_map inj_on_def)

lemma descendingRows_sorted:
  assumes "descendingOK (he_sql H)" and "tableOK rows"
  shows "mset (descendingRows H rows) = mset rows \<and> newestFirst (descendingRows H rows)"
proof -
  let ?f = "\<lambda>r. (hp_ID r, hp_CollectedAt r)"
  have dist: "distinct (map hp_ID rows)" using assms(2) by (simp add: tableOK_def)
  have "distinct (map fst (map ?f rows))" using dist by (simp add: comp_def)
  then obtain ys where ys: "mset ys = mset (map ?f rows)" "se_descending (he_sql H) (map ?f rows) = map fst ys"
      "sorted_wrt (\<lambda>a b. snd b \<le> snd a) ys"
    using assms(1) unfolding descendingOK_def by blast
  obtain rows' where rows': "mset rows' = mset rows" "map ?f rows' = ys"
  proof -
    have "\<exists>rows'. mset rows' = mset rows \<and> map ?f rows' = ys"
      using ys(1)
    proof (induction ys arbitrary: rows)
      case (Cons y ys)
      then have "y \<in> set (map ?f rows)" by (metis list.set_intros(1) set_mset_mset)
      then obtain r where r: "r \<in> set rows" "y = ?f r" by auto
      have m: "mset rows = mset (r # remove1 r rows)" using r(1) by simp
      have "mset (y # ys) = mset (map ?f (r # remove1 r rows))"
        using Cons.prems arg_cong[OF m, of "image_mset ?f"] by (simp only: mset_map)
      then have "mset ys = mset (map ?f (remove1 r rows))" using r(2) by simp
      then obtain rs where "mset rs = mset (remove1 r rows)" "map ?f rs = ys" using Cons.IH by blast
      then have "mset (r # rs) = mset rows \<and> map ?f (r # rs) = y # ys" using r by simp
      then show ?case by (rule exI[of _ "r # rs"])
    qed simp
    then show thesis using that by blast
  qed
  have mem: "set rows' = set rows" using rows'(1) by (metis set_mset_mset)
  have "List.map_filter (rowOfID rows) (map hp_ID rs) = rs" if "set rs \<subseteq> set rows" for rs
    using that by (induction rs) (auto simp: List.map_filter_simps rowOfID_Some[OF dist])
  moreover have "map fst ys = map hp_ID rows'" using rows'(2) by (auto simp: comp_def)
  ultimately have "descendingRows H rows = rows'" using ys(2) mem by (simp add: descendingRows_def)
  with rows' ys(3) show ?thesis by (auto simp: newestFirst_def sorted_wrt_map)
qed

lemma descendingRows_facts:
  assumes "descendingOK (he_sql H)" and "tableOK rows"
  shows "set (descendingRows H rows) = set rows" "newestFirst (descendingRows H rows)"
    "uniqueKeys (descendingRows H rows)" "unixTimes (descendingRows H rows)" "length (descendingRows H rows) = length rows"
proof -
  have m: "mset (descendingRows H rows) = mset rows" and n: "newestFirst (descendingRows H rows)"
    using descendingRows_sorted[OF assms] by auto
  show "set (descendingRows H rows) = set rows" using m by (metis set_mset_mset)
  then show "unixTimes (descendingRows H rows)" using assms(2) by (simp add: tableOK_def unixTimes_def list_all_iff)
  show "newestFirst (descendingRows H rows)" using n .
  show "length (descendingRows H rows) = length rows" using m by (metis size_mset)
  have "mset (map keyOf (descendingRows H rows)) = mset (map keyOf rows)" using m by simp
  then show "uniqueKeys (descendingRows H rows)"
    using assms(2) by (metis uniqueKeys_def tableOK_def mset_eq_imp_distinct_iff)
qed

lemma newestFirst_take: "newestFirst ps \<Longrightarrow> newestFirst (take n ps)"
  by (simp add: newestFirst_def sorted_wrt_take)

lemma uniqueKeys_take: "uniqueKeys ps \<Longrightarrow> uniqueKeys (take n ps)"
  by (simp add: uniqueKeys_def take_map[symmetric])

lemma unixTimes_take: "unixTimes ps \<Longrightarrow> unixTimes (take n ps)"
  by (metis unixTimes_sub set_take_subset)

text \<open>Reading only the newest \<open>n\<close> rows of the disk gives the same newest \<open>n\<close> rows.\<close>

lemma uniqueKeys_card: "uniqueKeys ps \<Longrightarrow> card (keyOf ` set ps) = length ps"
  using distinct_card[of "map keyOf ps"] by (simp add: uniqueKeys_def)

lemma visibleRows_inj: "uniqueKeys ps \<Longrightarrow> uniqueKeys qs \<Longrightarrow> inj_on keyOf (visibleRows ps qs)"
  by (auto simp: visibleRows_def uniqueKeys_def distinct_map inj_on_def image_iff)

lemma visibleRows_keys: "keyOf ` visibleRows ps qs = keyOf ` set ps \<union> keyOf ` set qs"
  by (auto simp: visibleRows_def image_iff)

lemma visibleRows_card:
  "uniqueKeys ps \<Longrightarrow> uniqueKeys qs \<Longrightarrow> card (visibleRows ps qs) = card (keyOf ` set ps \<union> keyOf ` set qs)"
  by (metis card_image visibleRows_inj visibleRows_keys)

lemma newestOf_limited:
  assumes "newestFirst qs" "uniqueKeys ps" "uniqueKeys qs" "unixTimes ps" "unixTimes qs"
    and "newestOf n (visibleRows ps (take n qs)) result"
  shows "newestOf n (visibleRows ps qs) result"
proof (cases "length qs \<le> n")
  case True with assms(6) show ?thesis by simp
next
  case False
  let ?S = "visibleRows ps qs" and ?S' = "visibleRows ps (take n qs)"
  have sub: "?S' \<subseteq> ?S" using set_take_subset[of n qs] by (auto simp: visibleRows_def)
  have fin: "finite ?S" "finite ?S'" by (auto simp: visibleRows_def)
  have "card (keyOf ` set (take n qs)) = n" using uniqueKeys_card[OF uniqueKeys_take[OF assms(3)], of n] False by simp
  moreover have "card (keyOf ` set (take n qs)) \<le> card (keyOf ` set ps \<union> keyOf ` set (take n qs))" by (intro card_mono) auto
  ultimately have n: "n \<le> card ?S'" "n \<le> card ?S"
    using card_mono[OF fin(1) sub] visibleRows_card[OF assms(2) uniqueKeys_take[OF assms(3)], of n] by simp_all
  note new = assms(6)[unfolded newestOf_def]
  have old: "hp_CollectedAt u \<le> hp_CollectedAt r" if u: "u \<in> ?S - set result" and r: "r \<in> set result" for u r
  proof (cases "u \<in> ?S'")
    case True with that new show ?thesis by blast
  next
    case late: False
    show ?thesis
    proof (rule ccontr)
      assume less: "\<not> hp_CollectedAt u \<le> hp_CollectedAt r"
      have uq: "u \<in> set (drop n qs)"
        using u late by (auto simp: visibleRows_def) (metis Un_iff append_take_drop_id set_append)+
      let ?T = "{t \<in> ?S'. keyOf t \<in> keyOf ` set (take n qs)}"
      have T: "card ?T = n"
      proof -
        have "keyOf ` ?T = keyOf ` ?S' \<inter> keyOf ` set (take n qs)" by auto
        then have keys: "keyOf ` ?T = keyOf ` set (take n qs)" by (auto simp: visibleRows_keys)
        have "inj_on keyOf ?T" using visibleRows_inj[OF assms(2) uniqueKeys_take[OF assms(3)]] by (rule inj_on_subset) auto
        from card_image[OF this] show ?thesis
          using uniqueKeys_card[OF uniqueKeys_take[OF assms(3)], of n] False unfolding keys by simp
      qed
      have "hp_CollectedAt u \<le> hp_CollectedAt t" if t: "t \<in> ?T" for t
      proof -
        obtain q where q: "q \<in> set (take n qs)" "keyOf t = keyOf q" using t by auto
        have "sorted_wrt (\<lambda>p q. hp_CollectedAt q \<le> hp_CollectedAt p) (take n qs @ drop n qs)"
          using assms(1) by (simp add: newestFirst_def)
        then have "hp_CollectedAt u \<le> hp_CollectedAt q" using q(1) uq unfolding sorted_wrt_append by blast
        moreover have "samePoint t q"
          using q t assms(4,5) keyOf_eq[of t q] set_take_subset[of n qs]
          by (auto simp: unixTimes_def list_all_iff visibleRows_def)
        ultimately show ?thesis by (simp add: samePoint_def)
      qed
      then have later: "hp_CollectedAt r < hp_CollectedAt t" if "t \<in> ?T" for t
        using less that by (meson not_le order_less_le_trans)
      have "?T \<subseteq> set result"
      proof
        fix t assume t: "t \<in> ?T"
        then have "t \<notin> set result \<Longrightarrow> hp_CollectedAt t \<le> hp_CollectedAt r" using new r by blast
        with later[OF t] show "t \<in> set result" by linarith
      qed
      moreover have "r \<notin> ?T" using later by blast
      moreover from calculation have "card (insert r ?T) \<le> card (set result)" using r by (intro card_mono) auto
      moreover have "finite ?T" using fin(2) by simp
      ultimately show False
        using T new n(1) distinct_card[OF uniqueKeys_distinct, of result] by simp
    qed
  qed
  show ?thesis using new sub n old unfolding newestOf_def by auto
qed


lemma attempt_cases:
  assumes "attempt H e d = (r, d')"
  shows "d' = d\<lparr>sd_mem := (sd_mem d)\<lparr>ds_execs := Suc (ds_execs (sd_mem d))\<rparr>\<rparr>" "r = None \<or> r = Some e"
    "quiet (he_sql H) (sd_mem d) \<Longrightarrow> r = None"
  using assms by (auto simp: attempt_def execStmt_def quiet_def Let_def split: option.splits sqlFault.splits)

text \<open>The tables are untouched; only the count of calls and the cached connection change.\<close>

definition sameRows :: "sampleDB \<Rightarrow> sampleDB \<Rightarrow> bool" where
  "sameRows d d' \<longleftrightarrow> sameTables (sd_mem d) (sd_mem d') \<and> sd_disk d' = sd_disk d \<and> sd_diskSeq d' = sd_diskSeq d \<and>
     ds_execs (sd_mem d) \<le> ds_execs (sd_mem d')"

lemma sameRows_refl [simp]: "sameRows d d"
  by (simp add: sameRows_def)

lemma sameRows_trans: "sameRows d d1 \<Longrightarrow> sameRows d1 d2 \<Longrightarrow> sameRows d d2"
  by (auto simp: sameRows_def intro: same_trans)

lemma sameRows_quiet: "sameRows d d' \<Longrightarrow> quiet V (sd_mem d) \<Longrightarrow> quiet V (sd_mem d')"
  by (auto simp: sameRows_def intro: quiet_mono)

lemma sameRows_rows: "sameRows d d' \<Longrightarrow> diskRows d' = diskRows d \<and> ds_points (sd_mem d') = ds_points (sd_mem d)"
  by (simp add: sameRows_def diskRows_def sameTables_def)

lemma attempt_same: "attempt H e d = (r, d') \<Longrightarrow> sameRows d d'"
  by (auto dest!: attempt_cases(1) simp: sameRows_def)

lemma attempt_quiet: "attempt H e d = (Some e', d') \<Longrightarrow> \<not> quiet (he_sql H) (sd_mem d)"
  using attempt_cases(3) by blast

lemma listDataPointsLimit_answer:
  assumes "listDataPointsLimit H cond limit table d = (r, d')"
  shows "sameRows d d' \<and> (case r of Inl e \<Rightarrow> \<not> quiet (he_sql H) (sd_mem d) | Inr points \<Rightarrow> points = map Some (selectPoints H cond limit table))"
  using assms by (auto simp: listDataPointsLimit_def dest: attempt_same attempt_quiet split: prod.splits option.splits)

lemma openDataDiskDB_outcome:
  assumes "openDataDiskDB H d = (r, d')"
  shows "sameRows d d' \<and> (r \<noteq> None \<longrightarrow> he_dataDBFile H \<noteq> [] \<longrightarrow> sd_disk d \<noteq> None \<longrightarrow> \<not> quiet (he_sql H) (sd_mem d))"
proof -
  have h: "sameRows d (d\<lparr>sd_handle := h\<rparr>)" for d :: sampleDB and h by (simp add: sameRows_def)
  show ?thesis
    using assms by (auto simp: openDataDiskDB_def Let_def h dest: attempt_same attempt_quiet intro: sameRows_trans[OF h]
        sameRows_trans[OF sameRows_trans[OF h] h] split: if_splits prod.splits option.splits)
qed


lemma getDisk_outcome:
  assumes "getDisk H (listDataPointsLimit H cond limit) d = (r, d')"
  shows "case r of
      Inl e \<Rightarrow> he_dataDBFile H \<noteq> [] \<longrightarrow> sd_disk d \<noteq> None \<longrightarrow> \<not> quiet (he_sql H) (sd_mem d)
    | Inr points \<Rightarrow> points = map Some (selectPoints H cond limit (diskRows d))"
proof -
  obtain o1 d1 where o: "openDataDiskDB H d = (o1, d1)" by force
  note out = openDataDiskDB_outcome[OF o]
  show ?thesis
  proof (cases o1)
    case None
    then have "listDataPointsLimit H cond limit (diskRows d1) d1 = (r, d')" using assms o by (simp add: getDisk_def)
    from listDataPointsLimit_answer[OF this] show ?thesis
      using out sameRows_rows[of d d1] sameRows_quiet[of d d1 "he_sql H"] by (cases r) auto
  next
    case (Some e)
    then have "r = Inl e" using assms o by (simp add: getDisk_def)
    then show ?thesis using out Some by simp
  qed
qed

lemma boundaryClear_sub:
  "boundaryClear ps qs \<Longrightarrow> set ps' = set ps \<Longrightarrow> newestFirst qs' \<Longrightarrow> set qs' = set qs \<Longrightarrow> 0 < n \<Longrightarrow> boundaryClear ps' (take n qs')"
proof -
  assume a: "boundaryClear ps qs" "set ps' = set ps" "newestFirst qs'" "set qs' = set qs" "0 < n"
  show "boundaryClear ps' (take n qs')"
  proof (cases "keyOf ` set ps \<inter> keyOf ` set qs = {}")
    case True
    moreover have "keyOf ` set (take n qs') \<subseteq> keyOf ` set qs" using a(4) set_take_subset[of n qs'] by auto
    ultimately have "keyOf ` set ps \<inter> keyOf ` set (take n qs') = {}" by blast
    then show ?thesis by (simp add: boundaryClear_def a(2))
  next
    case False
    then obtain p q where pq: "p \<in> set ps" "q \<in> set qs'" "hp_CollectedAt p < hp_CollectedAt q"
      using a(1,4) by (auto simp: boundaryClear_def)
    have "hd qs' \<in> set (take n qs')" using a(5) pq(2) by (cases qs'; cases n) auto
    moreover have "hp_CollectedAt p < hp_CollectedAt (hd qs')" using pq(3) newestFirst_ends[OF a(3) pq(2)] by linarith
    ultimately have "\<exists>p \<in> set ps'. \<exists>q \<in> set (take n qs'). hp_CollectedAt p < hp_CollectedAt q"
      using pq(1) a(2) by (intro bexI[of _ p] bexI[of _ "hd qs'"]) simp_all
    then show ?thesis by (simp only: boundaryClear_def simp_thms)
  qed
qed

lemma visibleRows_cong: "set ps = set ps' \<Longrightarrow> set qs = set qs' \<Longrightarrow> visibleRows ps qs = visibleRows ps' qs'"
  by (simp add: visibleRows_def)

lemma selectPoints_newest:
  assumes "descendingOK (he_sql H)" and "tableOK table" and "0 < limit"
  shows "selectPoints H cond limit table = take (nat limit) (descendingRows H (filter cond table))"
    "newestOf (nat limit) (set (filter cond table)) (selectPoints H cond limit table)"
    "length (selectPoints H cond limit table) = min (nat limit) (length (filter cond table))"
proof -
  note facts = descendingRows_facts[OF assms(1) tableOK_filter[OF assms(2)], of cond]
  show sel: "selectPoints H cond limit table = take (nat limit) (descendingRows H (filter cond table))"
    using assms(3) by (simp add: selectPoints_def Let_def)
  show "newestOf (nat limit) (set (filter cond table)) (selectPoints H cond limit table)"
    using take_newestOf[OF facts(2,3)] sel facts(1) by simp
  show "length (selectPoints H cond limit table) = min (nat limit) (length (filter cond table))"
    using sel facts(5) by simp
qed

lemma merged_newest:
  assumes "descendingOK (he_sql H)" and "tableOK mem" and "tableOK disk" and "0 < limit"
    and "boundaryClear (filter cond mem) (filter cond disk)" and "length (filter cond mem) < nat limit"
  shows "\<exists>rows. mergeDataPoints (map Some (selectPoints H cond limit mem)) (map Some (selectPoints H cond limit disk)) limit = map Some rows \<and>
    newestOf (nat limit) (visibleRows (filter cond mem) (filter cond disk)) rows"
proof -
  let ?ps = "descendingRows H (filter cond mem)" and ?qs = "descendingRows H (filter cond disk)"
  note ps = descendingRows_facts[OF assms(1) tableOK_filter[OF assms(2)], of cond]
  note qs = descendingRows_facts[OF assms(1) tableOK_filter[OF assms(3)], of cond]
  note sel = selectPoints_newest(1)[OF assms(1,2,4), of cond] selectPoints_newest(1)[OF assms(1,3,4), of cond]
  have all: "take (nat limit) ?ps = ?ps" using assms(6) ps(5) by simp
  have clear: "boundaryClear ?ps (take (nat limit) ?qs)"
    using boundaryClear_sub[OF assms(5) ps(1) qs(2) qs(1)] assms(4) by simp
  note cut = newestFirst_take[OF qs(2)] uniqueKeys_take[OF qs(3)] unixTimes_take[OF qs(4)]
  let ?rows = "take (nat limit) (firstOfKey {} (mergeDesc ?ps (take (nat limit) ?qs)))"
  have "mergeDataPoints (map Some (selectPoints H cond limit mem)) (map Some (selectPoints H cond limit disk)) limit = map Some ?rows"
    using mergeDataPoints_reference[OF ps(2) cut(1) ps(3) cut(2) ps(4) cut(3) clear, of limit] sel all assms(4) by simp
  moreover have "newestOf (nat limit) (visibleRows ?ps ?qs) ?rows"
    using newestOf_limited[OF qs(2) ps(3) qs(3) ps(4) qs(4)] reference_newest[OF ps(2) cut(1) ps(3) cut(2) ps(4) cut(3)] by blast
  moreover have "visibleRows ?ps ?qs = visibleRows (filter cond mem) (filter cond disk)"
    using ps(1) qs(1) by (rule visibleRows_cong)
  ultimately show ?thesis by auto
qed

text \<open>The rows a query over both tables is about: those of the memory alone when they are enough.\<close>

definition askedRows :: "nat \<Rightarrow> (DataPoint \<Rightarrow> bool) \<Rightarrow> sampleDB \<Rightarrow> DataPoint set" where
  "askedRows n cond d =
     (let mem = filter cond (ds_points (sd_mem d))
      in if n \<le> length mem then set mem else visibleRows mem (filter cond (diskRows d)))"

definition historyOK :: "historyEnv \<Rightarrow> sampleDB \<Rightarrow> bool" where
  "historyOK H d \<longleftrightarrow> descendingOK (he_sql H) \<and> tableOK (ds_points (sd_mem d)) \<and> tableOK (diskRows d) \<and> he_dataDBFile H \<noteq> []"

lemma memoryThenDisk_newest:
  assumes run: "memoryThenDisk H limit (listDataPointsLimit H cond limit) (\<lambda>_. listDataPointsLimit H cond limit) d = (r, d')"
    and ok: "historyOK H d" and pos: "0 < limit"
    and clear: "boundaryClear (filter cond (ds_points (sd_mem d))) (filter cond (diskRows d))"
  shows "case r of
      Inl e \<Rightarrow> \<not> quiet (he_sql H) (sd_mem d)
    | Inr points \<Rightarrow> \<exists>rows. points = map Some rows \<and>
        (newestOf (nat limit) (askedRows (nat limit) cond d) rows \<or>
         newestOf (nat limit) (set (filter cond (ds_points (sd_mem d)))) rows \<and> \<not> quiet (he_sql H) (sd_mem d))"
proof -
  let ?mem = "ds_points (sd_mem d)"
  have laws: "descendingOK (he_sql H)" "tableOK ?mem" "tableOK (diskRows d)" "he_dataDBFile H \<noteq> []"
    using ok by (simp_all add: historyOK_def)
  note mem = selectPoints_newest(2,3)[OF laws(1,2) pos, of cond]
  obtain r1 d1 where q: "listDataPointsLimit H cond limit ?mem d = (r1, d1)" by force
  note a = listDataPointsLimit_answer[OF q]
  show ?thesis
  proof (cases r1)
    case (Inl e)
    with run q a show ?thesis by (auto simp: memoryThenDisk_def)
  next
    case (Inr points)
    with a have points: "points = map Some (selectPoints H cond limit ?mem)" and s1: "sameRows d d1" by simp_all
    show ?thesis
    proof (cases "nat limit \<le> length (filter cond ?mem)")
      case True
      then have "length points = nat limit" using mem(2) points by simp
      then have "r = Inr points" using run q Inr pos by (simp add: memoryThenDisk_def)
      with mem(1) points True show ?thesis by (auto simp: askedRows_def)
    next
      case False
      then have short: "\<not> (limit > 0 \<and> int (length points) \<ge> limit)" using mem(2) points pos by auto
      obtain r2 d2 where g: "getDisk H (listDataPointsLimit H cond limit) d1 = (r2, d2)" by force
      show ?thesis
      proof (cases r2)
        case (Inl e)
        then have r: "r = Inr points" using run q Inr short laws(4) g by (simp add: memoryThenDisk_def)
        have asked: "askedRows (nat limit) cond d = set (filter cond ?mem)" if "diskRows d = []"
          using False that by (simp add: askedRows_def visibleRows_def)
        have "sd_disk d = None \<or> \<not> quiet (he_sql H) (sd_mem d)"
          using getDisk_outcome[OF g] Inl laws(4) s1 sameRows_quiet[OF s1, of "he_sql H"] by (auto simp: sameRows_def)
        with r mem(1) points asked show ?thesis by (auto simp: diskRows_def)
      next
        case disk: (Inr diskPoints)
        then have "diskPoints = map Some (selectPoints H cond limit (diskRows d))"
          using getDisk_outcome[OF g] sameRows_rows[OF s1] by simp
        moreover have "r = Inr (mergeDataPoints points diskPoints limit)"
          using run q Inr short laws(4) g disk by (simp add: memoryThenDisk_def)
        ultimately show ?thesis
          using merged_newest[OF laws(1-3) pos clear] False points by (auto simp: askedRows_def)
      qed
    qed
  qed
qed


section \<open>Properties of the queries\<close>

definition exampleHistory :: historyEnv where
  "exampleHistory = \<lparr>he_sql = exampleEnv, he_dataDBFile = ''data.db'', he_memPath = [],
     he_before = (<), he_since = (\<lambda>t u. u \<le> t), he_until = (\<le>)\<rparr>"

definition examplePoint :: "int \<Rightarrow> string \<Rightarrow> int \<Rightarrow> DataPoint" where
  "examplePoint i v t = \<lparr>hp_ID = i, hp_DeviceID = 1, hp_DeviceName = ''d'', hp_FieldName = ''a'', hp_Value = v,
     hp_ValueType = ''string'', hp_CollectedAt = unixEpoch + t * Second\<rparr>"

definition exampleDB :: sampleDB where
  "exampleDB = \<lparr>sd_mem = emptyStore\<lparr>ds_points := [examplePoint 7 ''2'' 5], ds_pointsSeq := 7\<rparr>,
     sd_disk = Some [examplePoint 1 ''1'' 3], sd_diskSeq = 1, sd_handle = None\<rparr>"

lemma example_descending: "descendingOK exampleEnv"
  unfolding descendingOK_def
proof (intro allI impI)
  fix xs :: "(int \<times> int) list"
  have "sorted (map snd (sort_key snd xs))" by simp
  then have "sorted_wrt (\<lambda>a b. snd b \<le> snd a) (rev (sort_key snd xs))" by (simp add: sorted_wrt_rev sorted_map)
  then show "\<exists>ys. mset ys = mset xs \<and> se_descending exampleEnv xs = map fst ys \<and> sorted_wrt (\<lambda>a b. snd b \<le> snd a) ys"
    by (intro exI[of _ "rev (sort_key snd xs)"]) (simp add: exampleEnv_def)
qed

lemma example_historyOK: "historyOK exampleHistory exampleDB"
  by (simp add: historyOK_def example_descending exampleHistory_def exampleDB_def diskRows_def tableOK_def uniqueKeys_def
      unixTimes_def examplePoint_def in_int64_def minInt64_def maxInt64_def)



end
