(* ===== verification/Sample_Sync.thy ===== *)
theory Sample_Sync
  imports Sample_History
begin

text \<open>
  Moving the history from the memory to the disk (\<open>database/data_sync.go\<close>), deleting the history of a
  point (\<open>data_points_query.go\<close>) and the rows that are too old (\<open>retention_job.go\<close>).

  The copy runs beside the writers: \<open>syncPrepare\<close>, \<open>syncCopy\<close> and \<open>syncFinish\<close> are its three parts, and
  the theorems let the memory change between them.
\<close>

section \<open>The statements on both tables\<close>

definition maxPointID :: "DataPoint list \<Rightarrow> int" where
  "maxPointID rows = (if rows = [] then 0 else Max (set (map hp_ID rows)))"

definition normalizeSystemName :: "DataPoint \<Rightarrow> DataPoint" where
  "normalizeSystemName r =
     (if hp_DeviceID r = SystemStatsDeviceID \<and> hp_DeviceName r \<noteq> SystemStatsDeviceName
      then r\<lparr>hp_DeviceName := SystemStatsDeviceName\<rparr> else r)"

definition setPoints :: "(DataPoint list \<Rightarrow> DataPoint list) \<Rightarrow> sampleDB \<Rightarrow> sampleDB" where
  "setPoints f d = d\<lparr>sd_mem := (sd_mem d)\<lparr>ds_points := f (ds_points (sd_mem d))\<rparr>\<rparr>"

definition setDisk :: "(DataPoint list \<Rightarrow> DataPoint list) \<Rightarrow> sampleDB \<Rightarrow> sampleDB" where
  "setDisk f d = d\<lparr>sd_disk := Some (f (diskRows d))\<rparr>"

text \<open>\<open>INSERT OR IGNORE\<close> of a row into the disk's table.\<close>

definition insertOrIgnore :: "historyEnv \<Rightarrow> DataPoint \<Rightarrow> sampleDB \<Rightarrow> sampleDB" where
  "insertOrIgnore H r d =
     (if list_ex (pointConflict (hp_DeviceID r) (hp_FieldName r) (hp_CollectedAt r)) (diskRows d) then d
      else let i = se_newID (he_sql H) (sd_diskSeq d)
           in (setDisk (\<lambda>rows. rows @ [r\<lparr>hp_ID := i\<rparr>]) d)\<lparr>sd_diskSeq := i\<rparr>)"

definition rollbackDisk :: "sampleDB \<Rightarrow> sampleDB \<Rightarrow> sampleDB" where
  "rollbackDisk before d = d\<lparr>sd_disk := sd_disk before, sd_diskSeq := sd_diskSeq before\<rparr>"

definition ensureDiskDataSchema :: "historyEnv \<Rightarrow> sampleDB \<Rightarrow> string option \<times> sampleDB" where
  "ensureDiskDataSchema H d =
     (case attempt H ''failed to ensure data_points table'' d of
        (Some e, d) \<Rightarrow> (Some e, d)
      | (None, d) \<Rightarrow> (case attempt H ''failed to ensure data_points index'' d of
          (Some e, d) \<Rightarrow> (Some e, d)
        | (None, d) \<Rightarrow> (case attempt H ''failed to normalize system device_name'' d of
            (Some e, d) \<Rightarrow> (Some e, d)
          | (None, d) \<Rightarrow> (None, setDisk (map normalizeSystemName) d))))"

section \<open>Copying to the disk\<close>

text \<open>The loop over the rows: each is scanned and inserted with its name normalised.\<close>

fun copyRows :: "historyEnv \<Rightarrow> DataPoint list \<Rightarrow> nat \<Rightarrow> sampleDB \<Rightarrow> nat fallible \<times> sampleDB" where
  "copyRows H [] n d = (Inr n, d)"
| "copyRows H (r # rs) n d =
     (case attempt H ''scan'' d of
        (Some e, d) \<Rightarrow> (Inl e, d)
      | (None, d) \<Rightarrow> (case attempt H ''exec'' d of
          (Some e, d) \<Rightarrow> (Inl e, d)
        | (None, d) \<Rightarrow>
            copyRows H rs (Suc n)
              (insertOrIgnore H (r\<lparr>hp_DeviceName := normalizeDeviceName (hp_DeviceID r) (hp_DeviceName r)\<rparr>) d)))"

definition syncDataPointsRowByRow :: "historyEnv \<Rightarrow> int \<Rightarrow> sampleDB \<Rightarrow> nat fallible \<times> sampleDB" where
  "syncDataPointsRowByRow H maxID d =
     (case attempt H ''failed to query data points'' d of
        (Some e, d) \<Rightarrow> (Inl e, d)
      | (None, d) \<Rightarrow>
          let points = sort_key hp_ID (filter (\<lambda>r. hp_ID r \<le> maxID) (ds_points (sd_mem d)))
          in case attempt H ''failed to begin transaction'' d of
               (Some e, d) \<Rightarrow> (Inl e, d)
             | (None, d) \<Rightarrow> (case attempt H ''failed to prepare statement'' d of
                 (Some e, d) \<Rightarrow> (Inl e, d)
               | (None, before) \<Rightarrow> (case copyRows H points 0 before of
                   (Inl e, d) \<Rightarrow> (Inl e, rollbackDisk before d)
                 | (Inr n, d) \<Rightarrow> (case attempt H ''failed to commit transaction'' d of
                     (Some e, d) \<Rightarrow> (Inl e, rollbackDisk before d)
                   | (None, d) \<Rightarrow> (Inr n, d)))))"

text \<open>The path of the memory's database; for \<open>:memory:\<close> it is empty and the rows are copied one by one.\<close>

definition syncDataPointsWithAttach :: "historyEnv \<Rightarrow> int \<Rightarrow> sampleDB \<Rightarrow> nat fallible \<times> sampleDB" where
  "syncDataPointsWithAttach H maxID d =
     (case attempt H ''failed to read memory db path'' d of
        (Some e, d) \<Rightarrow> (Inl e, d)
      | (None, d) \<Rightarrow>
          if TrimSpace (he_memPath H) = [] \<or> he_memPath H = '':memory:'' then syncDataPointsRowByRow H maxID d
          else case attempt H ''failed to begin sync transaction'' d of
                 (Some e, d) \<Rightarrow> (Inl e, d)
               | (None, d) \<Rightarrow> (case attempt H ''attach'' d of
                   (Some e, d) \<Rightarrow> syncDataPointsRowByRow H maxID d
                 | (None, d) \<Rightarrow> (case attempt H ''failed to normalize memory data before sync'' d of
                     (Some e, d) \<Rightarrow> (Inl e, d)
                   | (None, before) \<Rightarrow>
                       let d = setPoints (map (\<lambda>r. if hp_ID r \<le> maxID then normalizeSystemName r else r)) before
                       in case attempt H ''failed to bulk copy data points'' d of
                            (Some e, d) \<Rightarrow> (Inl e, setPoints (\<lambda>_. ds_points (sd_mem before)) d)
                          | (None, d) \<Rightarrow>
                              let old = length (diskRows d);
                                  d = fold (insertOrIgnore H) (filter (\<lambda>r. hp_ID r \<le> maxID) (ds_points (sd_mem d))) d
                              in case attempt H ''failed to commit bulk sync transaction'' d of
                                   (Some e, d) \<Rightarrow> (Inl e, rollbackDisk before (setPoints (\<lambda>_. ds_points (sd_mem before)) d))
                                 | (None, d) \<Rightarrow> (Inr (length (diskRows d) - old), d))))"

text \<open>\<open>syncDataToDisk\<close> in three parts: up to the open disk, the copy, and the deletion in the memory. A
  writer of the memory may run between them.\<close>

datatype syncState = SyncOver "string option" | SyncGo int | SyncCopied int

definition resetPending :: "sampleDB \<Rightarrow> sampleDB" where
  "resetPending d = d\<lparr>sd_mem := resetPendingHistoryRowsForSync 0 (sd_mem d)\<rparr>"

definition syncPrepare :: "historyEnv \<Rightarrow> sampleDB \<Rightarrow> syncState \<times> sampleDB" where
  "syncPrepare H d =
     (case attempt H ''failed to get max data point id'' d of
        (Some e, d) \<Rightarrow> (SyncOver (Some e), d)
      | (None, d) \<Rightarrow>
          let maxID = maxPointID (ds_points (sd_mem d))
          in if maxID = 0 then (SyncOver None, resetPending d)
             else let d = (case attempt H ''normalize'' d of (Some e, d) \<Rightarrow> d | (None, d) \<Rightarrow> setPoints (map normalizeSystemName) d)
                  in case attempt H ''failed to open data database'' d of
                       (Some e, d) \<Rightarrow> (SyncOver (Some e), d)
                     | (None, d) \<Rightarrow>
                         let d = setDisk id d
                         in case attempt H ''failed to set disk pragma'' d of
                              (Some e, d) \<Rightarrow> (SyncOver (Some e), d)
                            | (None, d) \<Rightarrow> (case ensureDiskDataSchema H d of
                                (Some e, d) \<Rightarrow> (SyncOver (Some e), d)
                              | (None, d) \<Rightarrow> (SyncGo maxID, d)))"

fun syncCopy :: "historyEnv \<Rightarrow> syncState \<Rightarrow> sampleDB \<Rightarrow> syncState \<times> sampleDB" where
  "syncCopy H (SyncGo maxID) d =
     (case syncDataPointsWithAttach H maxID d of
        (Inl e, d) \<Rightarrow> (SyncOver (Some e), d)
      | (Inr n, d) \<Rightarrow> (SyncCopied maxID, d))"
| "syncCopy H st d = (st, d)"

fun syncFinish :: "historyEnv \<Rightarrow> syncState \<Rightarrow> sampleDB \<Rightarrow> string option \<times> sampleDB" where
  "syncFinish H (SyncCopied maxID) d =
     (case attempt H ''failed to cleanup synced data points'' d of
        (Some e, d) \<Rightarrow> (Some e, d)
      | (None, d) \<Rightarrow> (None, resetPending (setPoints (filter (\<lambda>r. \<not> hp_ID r \<le> maxID)) d)))"
| "syncFinish H (SyncOver r) d = (r, d)"
| "syncFinish H (SyncGo maxID) d = (None, d)"

definition syncDataToDisk :: "historyEnv \<Rightarrow> sampleDB \<Rightarrow> string option \<times> sampleDB" where
  "syncDataToDisk H d =
     (case syncPrepare H d of
        (st, d) \<Rightarrow> (case syncCopy H st d of (st, d) \<Rightarrow> syncFinish H st d))"

section \<open>Deleting a point's history and old rows\<close>

definition deleteOnDisk :: "historyEnv \<Rightarrow> (gotime \<Rightarrow> DataPoint \<Rightarrow> bool) \<Rightarrow> sampleDB \<Rightarrow> (nat \<times> string option) \<times> sampleDB" where
  "deleteOnDisk H cond d =
     (if he_dataDBFile H = [] then ((0, None), d)
      else if sd_disk d = None then ((0, None), d)
      else case attempt H ''stat'' d of
             (Some e, d) \<Rightarrow> ((0, Some e), d)
           | (None, d) \<Rightarrow> (case attempt H ''open'' d of
               (Some e, d) \<Rightarrow> ((0, Some e), d)
             | (None, d) \<Rightarrow> (case ensureDiskDataSchema H d of
                 (Some e, d) \<Rightarrow> ((0, Some e), d)
               | (None, d) \<Rightarrow>
                   let now = se_timestamp (he_sql H) (ds_execs (sd_mem d))
                   in case attempt H ''delete'' d of
                        (Some e, d) \<Rightarrow> ((0, Some e), d)
                      | (None, d) \<Rightarrow> ((length (filter (cond now) (diskRows d)), None),
                                     setDisk (filter (\<lambda>r. \<not> cond now r)) d))))"

definition deleteBoth :: "historyEnv \<Rightarrow> (gotime \<Rightarrow> DataPoint \<Rightarrow> bool) \<Rightarrow> sampleDB \<Rightarrow> (nat \<times> string option) \<times> sampleDB" where
  "deleteBoth H cond d =
     (let now = se_timestamp (he_sql H) (ds_execs (sd_mem d))
      in case attempt H ''delete'' d of
           (Some e, d) \<Rightarrow> ((0, Some e), d)
         | (None, d) \<Rightarrow>
             let memDeleted = length (filter (cond now) (ds_points (sd_mem d)));
                 d = setPoints (filter (\<lambda>r. \<not> cond now r)) d
             in case deleteOnDisk H cond d of
                  ((diskDeleted, Some e), d) \<Rightarrow> ((memDeleted, Some e), d)
                | ((diskDeleted, None), d) \<Rightarrow> ((memDeleted + diskDeleted, None), d))"

definition DeleteHistoryDataByPoint :: "historyEnv \<Rightarrow> int \<Rightarrow> string \<Rightarrow> sampleDB \<Rightarrow> (nat \<times> string option) \<times> sampleDB" where
  "DeleteHistoryDataByPoint H deviceID fieldName d =
     (let fieldName = TrimSpace fieldName
      in if deviceID = 0 then ((0, Some ''invalid device_id''), d)
         else if fieldName = [] then ((0, Some ''field_name is required''), d)
         else deleteBoth H (\<lambda>_ r. hp_DeviceID r = deviceID \<and> hp_FieldName r = fieldName) d)"

definition DefaultRetentionDays :: int where "DefaultRetentionDays = 30"

text \<open>\<open>collected_at < datetime('now', '-N days')\<close>.\<close>

definition expired :: "historyEnv \<Rightarrow> int \<Rightarrow> gotime \<Rightarrow> DataPoint \<Rightarrow> bool" where
  "expired H days now r \<longleftrightarrow> \<not> he_since H (hp_CollectedAt r) (now - days * (24 * Hour))"

definition CleanupOldDataByGatewayRetention :: "historyEnv \<Rightarrow> int \<Rightarrow> sampleDB \<Rightarrow> (nat \<times> string option) \<times> sampleDB" where
  "CleanupOldDataByGatewayRetention H configuredDays d =
     (let days = (if configuredDays \<le> 0 then DefaultRetentionDays else configuredDays)
      in deleteBoth H (expired H days) d)"


section \<open>What a copy preserves\<close>

text \<open>The key of a row as the \<open>UNIQUE\<close> constraint sees it, and what a row says.\<close>

definition pkey :: "DataPoint \<Rightarrow> int \<times> string \<times> gotime" where
  "pkey r = (hp_DeviceID r, hp_FieldName r, hp_CollectedAt r)"

definition content :: "DataPoint \<Rightarrow> (int \<times> string \<times> gotime) \<times> string \<times> string" where
  "content r = (pkey r, hp_Value r, hp_ValueType r)"

definition idContents :: "sampleDB \<Rightarrow> (int \<times> (int \<times> string \<times> gotime) \<times> string \<times> string) list" where
  "idContents d = map (\<lambda>r. (hp_ID r, content r)) (ds_points (sd_mem d))"

definition sameContents :: "sampleDB \<Rightarrow> sampleDB \<Rightarrow> bool" where
  "sameContents d d' \<longleftrightarrow> idContents d' = idContents d \<and> ds_pointsSeq (sd_mem d') = ds_pointsSeq (sd_mem d) \<and>
     content ` set (diskRows d') = content ` set (diskRows d)"

lemma diskRows_simps [simp]:
  "diskRows (setDisk f d) = f (diskRows d)" "diskRows (d\<lparr>sd_diskSeq := i\<rparr>) = diskRows d" "diskRows (d\<lparr>sd_mem := m\<rparr>) = diskRows d"
  "diskRows (setPoints g d) = diskRows d" "sd_mem (setDisk f d) = sd_mem d"
  by (simp_all add: diskRows_def setDisk_def setPoints_def)

lemma same_refl_contents [simp]: "sameContents d d"
  by (simp add: sameContents_def)

lemma sameContents_trans: "sameContents d d1 \<Longrightarrow> sameContents d1 d2 \<Longrightarrow> sameContents d d2"
  by (simp add: sameContents_def)

lemma attempt_disk: "attempt H e d = (r, d') \<Longrightarrow> sd_disk d' = sd_disk d \<and> sd_diskSeq d' = sd_diskSeq d \<and>
    ds_points (sd_mem d') = ds_points (sd_mem d) \<and> ds_pointsSeq (sd_mem d') = ds_pointsSeq (sd_mem d)"
  by (auto dest!: attempt_cases(1))

lemma attempt_contents: "attempt H e d = (r, d') \<Longrightarrow> sameContents d d'"
  using attempt_disk[of H e d r d'] by (simp add: sameContents_def idContents_def diskRows_def)

lemma normalizeSystemName_content [simp]: "content (normalizeSystemName r) = content r" "hp_ID (normalizeSystemName r) = hp_ID r"
  by (simp_all add: normalizeSystemName_def content_def pkey_def)

lemma rename_contents:
  "sameContents d (setPoints (map normalizeSystemName) d)"
  "sameContents d (setPoints (map (\<lambda>r. if hp_ID r \<le> m then normalizeSystemName r else r)) d)"
  "sameContents d (setDisk (map normalizeSystemName) d)" "sameContents d (setDisk id d)"
  by (auto simp: sameContents_def idContents_def setPoints_def image_image comp_def)

text \<open>The same as one equation, which the simplifier carries through a chain of calls.\<close>

definition allContents :: "sampleDB \<Rightarrow> (int \<times> (int \<times> string \<times> gotime) \<times> string \<times> string) list \<times> int \<times>
    ((int \<times> string \<times> gotime) \<times> string \<times> string) set" where
  "allContents d = (idContents d, ds_pointsSeq (sd_mem d), content ` set (diskRows d))"

lemma sameContents_eq: "sameContents d d' \<longleftrightarrow> allContents d' = allContents d"
  by (simp add: sameContents_def allContents_def)

lemmas rename_eq = rename_contents[unfolded sameContents_eq]

lemmas rename_after = sameContents_trans[OF _ rename_contents(1)] sameContents_trans[OF _ rename_contents(2)]
  sameContents_trans[OF _ rename_contents(3)] sameContents_trans[OF _ rename_contents(4)]

lemma ensureDiskDataSchema_contents: "ensureDiskDataSchema H d = (r, d') \<Longrightarrow> sameContents d d'"
  unfolding ensureDiskDataSchema_def
  by (auto split: prod.splits option.splits dest!: attempt_contents intro: sameContents_trans intro!: rename_after)

text \<open>\<open>copied R d d'\<close>: the disk has got exactly those of the rows \<open>R\<close> whose key it did not have.\<close>

definition copied :: "DataPoint set \<Rightarrow> sampleDB \<Rightarrow> sampleDB \<Rightarrow> bool" where
  "copied R d d' \<longleftrightarrow>
     content ` set (diskRows d') = content ` set (diskRows d) \<union> content ` {r \<in> R. pkey r \<notin> pkey ` set (diskRows d)}"

lemma pkey_content: "pkey ` A = fst ` content ` A"
  by (simp add: content_def image_image)

lemma content_pkey: "content r = content r' \<Longrightarrow> pkey r = pkey r'"
  by (simp add: content_def)

lemma insertOrIgnore_copied: "copied {r} d (insertOrIgnore H r d)"
proof -
  have "list_ex (pointConflict (hp_DeviceID r) (hp_FieldName r) (hp_CollectedAt r)) (diskRows d) \<longleftrightarrow> pkey r \<in> pkey ` set (diskRows d)"
    by (auto simp: list_ex_iff pointConflict_def pkey_def image_iff) metis
  moreover have "content (r\<lparr>hp_ID := i\<rparr>) = content r" for i by (simp add: content_def pkey_def)
  ultimately show ?thesis by (cases "pkey r \<in> pkey ` set (diskRows d)") (simp_all add: copied_def insertOrIgnore_def Let_def cong: conj_cong)
qed

lemma insertOrIgnore_mem [simp]: "sd_mem (insertOrIgnore H r d) = sd_mem d"
  by (simp add: insertOrIgnore_def setDisk_def Let_def)

lemma copied_empty: "copied {} d d"
  by (simp add: copied_def)

lemma copied_union:
  assumes "copied R d d1" and "copied Q d1 d2" and "pkey ` R \<inter> pkey ` Q = {}"
  shows "copied (R \<union> Q) d d2"
proof -
  have "pkey ` set (diskRows d1) = pkey ` set (diskRows d) \<union> pkey ` {r \<in> R. pkey r \<notin> pkey ` set (diskRows d)}"
    using assms(1) unfolding copied_def pkey_content by (metis image_Un)
  then have "{q \<in> Q. pkey q \<notin> pkey ` set (diskRows d1)} = {q \<in> Q. pkey q \<notin> pkey ` set (diskRows d)}"
    using assms(3) by blast
  then have "content ` set (diskRows d2) = content ` set (diskRows d) \<union> content ` {r \<in> R. pkey r \<notin> pkey ` set (diskRows d)} \<union>
      content ` {q \<in> Q. pkey q \<notin> pkey ` set (diskRows d)}"
    using assms(1,2) by (simp add: copied_def)
  then show ?thesis unfolding copied_def by auto
qed

lemma copied_same:
  "copied R d d1 \<Longrightarrow> content ` set (diskRows d2) = content ` set (diskRows d1) \<Longrightarrow> copied R d d2"
  "content ` set (diskRows d1) = content ` set (diskRows d) \<Longrightarrow> copied R d1 d2 \<Longrightarrow> copied R d d2"
  by (simp_all add: copied_def pkey_content)

lemma copied_rename: "content ` R = content ` R' \<Longrightarrow> copied R d d' \<Longrightarrow> copied R' d d'"
proof -
  assume c: "content ` R = content ` R'" and "copied R d d'"
  have "content ` {r \<in> S. pkey r \<notin> K} = {c \<in> content ` S. fst c \<notin> K}" for S K by (auto simp: content_def)
  with c \<open>copied R d d'\<close> show ?thesis by (simp add: copied_def)
qed

lemma fold_copied: "distinct (map pkey rs) \<Longrightarrow> copied (set rs) d (fold (insertOrIgnore H) rs d)"
proof (induction rs arbitrary: d)
  case (Cons r rs)
  then have "copied ({r} \<union> set rs) d (fold (insertOrIgnore H) rs (insertOrIgnore H r d))"
    by (intro copied_union[OF insertOrIgnore_copied Cons.IH]) auto
  then show ?case by simp
qed (simp add: copied_empty)

lemma fold_insert_mem [simp]: "sd_mem (fold (insertOrIgnore H) rs d) = sd_mem d"
  by (induction rs arbitrary: d) auto

lemma copyRows_copied:
  assumes "copyRows H rs k d = (r, d')" and "distinct (map pkey rs)"
  shows "idContents d' = idContents d \<and> ds_pointsSeq (sd_mem d') = ds_pointsSeq (sd_mem d) \<and> (\<forall>n. r = Inr n \<longrightarrow> copied (set rs) d d')"
  using assms
proof (induction rs arbitrary: k d)
  case (Cons p rs)
  let ?p = "p\<lparr>hp_DeviceName := normalizeDeviceName (hp_DeviceID p) (hp_DeviceName p)\<rparr>"
  obtain r1 d1 where a1: "attempt H ''scan'' d = (r1, d1)" by force
  obtain r2 d2 where a2: "attempt H ''exec'' d1 = (r2, d2)" by force
  note same = attempt_contents[OF a1] attempt_contents[OF a2]
  show ?case
  proof (cases "r1 = None \<and> r2 = None")
    case True
    then have run: "copyRows H rs (Suc k) (insertOrIgnore H ?p d2) = (r, d')" using Cons.prems(1) a1 a2 by simp
    have c: "content ` {?p} = content ` {p}" "pkey ?p = pkey p" by (simp_all add: content_def pkey_def)
    from Cons.IH[OF run] Cons.prems(2) have IH: "idContents d' = idContents (insertOrIgnore H ?p d2)"
      "ds_pointsSeq (sd_mem d') = ds_pointsSeq (sd_mem (insertOrIgnore H ?p d2))"
      "\<forall>n. r = Inr n \<longrightarrow> copied (set rs) (insertOrIgnore H ?p d2) d'" by auto
    have "copied {p} d (insertOrIgnore H ?p d2)"
      using copied_rename[OF c(1) insertOrIgnore_copied] same by (auto simp: sameContents_def intro: copied_same(2))
    then have "r = Inr n \<Longrightarrow> copied ({p} \<union> set rs) d d'" for n
      using IH(3) Cons.prems(2) by (intro copied_union) auto
    then show ?thesis using IH(1,2) same by (auto simp: sameContents_def idContents_def)
  next
    case False
    then show ?thesis using Cons.prems(1) a1 a2 same by (cases r1; cases r2) (auto simp: sameContents_def)
  qed
qed (simp add: copied_empty)


lemma rollback_contents: "idContents d' = idContents d \<Longrightarrow> ds_pointsSeq (sd_mem d') = ds_pointsSeq (sd_mem d) \<Longrightarrow>
    sameContents d (rollbackDisk d d')"
  by (simp add: sameContents_def rollbackDisk_def diskRows_def idContents_def)

text \<open>The outcome of a copy of the rows up to \<open>m\<close>: all of them, or nothing at all.\<close>

definition copyOutcome :: "int \<Rightarrow> sampleDB \<Rightarrow> nat fallible \<Rightarrow> sampleDB \<Rightarrow> bool" where
  "copyOutcome m d r d' \<longleftrightarrow>
     (case r of
        Inl e \<Rightarrow> sameContents d d'
      | Inr n \<Rightarrow> idContents d' = idContents d \<and> ds_pointsSeq (sd_mem d') = ds_pointsSeq (sd_mem d) \<and>
          copied {p \<in> set (ds_points (sd_mem d)). hp_ID p \<le> m} d d')"

lemma idContents_rows: "idContents d' = idContents d \<Longrightarrow>
    content ` {p \<in> set (ds_points (sd_mem d')). hp_ID p \<le> m} = content ` {p \<in> set (ds_points (sd_mem d)). hp_ID p \<le> m}"
proof -
  have "content ` {p \<in> set (ds_points (sd_mem d)). hp_ID p \<le> m} = snd ` {x \<in> set (idContents d). fst x \<le> m}" for d
    by (force simp: idContents_def image_image)
  then show "idContents d' = idContents d \<Longrightarrow> ?thesis" by simp
qed

lemma copyOutcome_after: "sameContents d d1 \<Longrightarrow> copyOutcome m d1 r d' \<Longrightarrow> copyOutcome m d r d'"
proof (cases r)
  case (Inr n)
  assume a: "sameContents d d1" "copyOutcome m d1 r d'"
  then have "copied {p \<in> set (ds_points (sd_mem d)). hp_ID p \<le> m} d1 d'"
    using Inr copied_rename[OF idContents_rows[of d1 d m]] by (auto simp: copyOutcome_def sameContents_def)
  then show ?thesis using a Inr copied_same(2) by (auto simp: copyOutcome_def sameContents_def)
qed (auto simp: copyOutcome_def intro: sameContents_trans)

definition uniqueRows :: "dataStore \<Rightarrow> bool" where
  "uniqueRows s \<longleftrightarrow> distinct (map pkey (ds_points s))"

lemma uniqueRows_contents: "idContents d' = idContents d \<Longrightarrow> uniqueRows (sd_mem d) = uniqueRows (sd_mem d')"
proof -
  have "map pkey (ds_points (sd_mem d)) = map (fst \<circ> snd) (idContents d)" for d by (simp add: idContents_def content_def)
  then show "idContents d' = idContents d \<Longrightarrow> ?thesis" by (simp add: uniqueRows_def)
qed

lemma rowByRow_outcome:
  assumes "syncDataPointsRowByRow H m d = (r, d')" and "uniqueRows (sd_mem d)"
  shows "copyOutcome m d r d'"
proof -
  define points where "points = sort_key hp_ID (filter (\<lambda>r. hp_ID r \<le> m) (ds_points (sd_mem d)))"
  have points: "set points = {p \<in> set (ds_points (sd_mem d)). hp_ID p \<le> m}" "distinct (map pkey points)"
    using assms(2) by (auto simp: points_def uniqueRows_def distinct_map inj_on_def)
  obtain r1 d1 where a1: "attempt H ''failed to query data points'' d = (r1, d1)" by force
  obtain r2 d2 where a2: "attempt H ''failed to begin transaction'' d1 = (r2, d2)" by force
  obtain r3 d3 where a3: "attempt H ''failed to prepare statement'' d2 = (r3, d3)" by force
  obtain r4 d4 where c: "copyRows H points 0 d3 = (r4, d4)" by force
  obtain r5 d5 where a5: "attempt H ''failed to commit transaction'' d4 = (r5, d5)" by force
  have same: "sameContents d d1" "sameContents d d2" "sameContents d d3"
    using attempt_contents[OF a1] attempt_contents[OF a2] attempt_contents[OF a3] by (auto intro: sameContents_trans)
  have mem1: "ds_points (sd_mem d1) = ds_points (sd_mem d)" using attempt_disk[OF a1] by simp
  note copy = copyRows_copied[OF c points(2)]
  note a5' = attempt_contents[OF a5]
  have undone: "sameContents d (rollbackDisk d3 d4)" "sameContents d (rollbackDisk d3 d5)"
    using rollback_contents[of d4 d3] rollback_contents[of d5 d3] copy a5' same(3)
    by (auto intro: sameContents_trans simp: sameContents_def)
  have copied: "copyOutcome m d3 (Inr n) d5" if "r4 = Inr n" for n
    using that copy a5' points(1) attempt_disk[OF a1] attempt_disk[OF a2] attempt_disk[OF a3]
    by (auto simp: copyOutcome_def sameContents_def intro: copied_same(1))
  have run: "(r, d') =
    (case r1 of Some e \<Rightarrow> (Inl e, d1) | None \<Rightarrow> (case r2 of Some e \<Rightarrow> (Inl e, d2) | None \<Rightarrow> (case r3 of Some e \<Rightarrow> (Inl e, d3)
      | None \<Rightarrow> (case r4 of Inl e \<Rightarrow> (Inl e, rollbackDisk d3 d4) | Inr n \<Rightarrow>
          (case r5 of Some e \<Rightarrow> (Inl e, rollbackDisk d3 d5) | None \<Rightarrow> (Inr n, d5))))))"
    using assms(1) a1 a2 a3 c a5 mem1 unfolding syncDataPointsRowByRow_def points_def
    by (auto simp: Let_def split: option.splits sum.splits)
  show ?thesis
    using run same undone copyOutcome_after[OF same(3) copied]
    by (auto simp: copyOutcome_def split: option.splits sum.splits)
qed


lemma restore_contents: "sameContents d (setPoints (\<lambda>_. ds_points (sd_mem d)) d') \<longleftrightarrow>
    ds_pointsSeq (sd_mem d') = ds_pointsSeq (sd_mem d) \<and> content ` set (diskRows d') = content ` set (diskRows d)"
  by (simp add: sameContents_def setPoints_def idContents_def)

lemma restore_rollback: "ds_pointsSeq (sd_mem d') = ds_pointsSeq (sd_mem d) \<Longrightarrow>
    sameContents d (rollbackDisk d (setPoints (\<lambda>_. ds_points (sd_mem d)) d'))"
  by (simp add: sameContents_def setPoints_def idContents_def rollbackDisk_def diskRows_def)

lemma attach_outcome:
  assumes "syncDataPointsWithAttach H m d = (r, d')" and uniq: "uniqueRows (sd_mem d)"
  shows "copyOutcome m d r d'"
proof -
  obtain r0 d0 where a0: "attempt H ''failed to read memory db path'' d = (r0, d0)" by force
  obtain r1 d1 where a1: "attempt H ''failed to begin sync transaction'' d0 = (r1, d1)" by force
  obtain r2 d2 where a2: "attempt H ''attach'' d1 = (r2, d2)" by force
  obtain r3 d3 where a3: "attempt H ''failed to normalize memory data before sync'' d2 = (r3, d3)" by force
  define d4 where "d4 = setPoints (map (\<lambda>r. if hp_ID r \<le> m then normalizeSystemName r else r)) d3"
  obtain r5 d5 where a5: "attempt H ''failed to bulk copy data points'' d4 = (r5, d5)" by force
  define rows where "rows = filter (\<lambda>r. hp_ID r \<le> m) (ds_points (sd_mem d5))"
  define d6 where "d6 = fold (insertOrIgnore H) rows d5"
  obtain r7 d7 where a7: "attempt H ''failed to commit bulk sync transaction'' d6 = (r7, d7)" by force
  have same: "sameContents d d0" "sameContents d d1" "sameContents d d2" "sameContents d d3" "sameContents d d4" "sameContents d d5"
    "sameContents d3 d5" "sameContents d6 d7"
    using a0[THEN attempt_contents] a1[THEN attempt_contents] a2[THEN attempt_contents] a3[THEN attempt_contents]
      a5[THEN attempt_contents] a7[THEN attempt_contents] rename_contents(2)[of d3 m]
    by (simp_all add: d4_def sameContents_eq)
  have plain: "copyOutcome m d x y" if "syncDataPointsRowByRow H m e = (x, y)" "sameContents d e" for e x y
  proof -
    have "uniqueRows (sd_mem e)" using uniq uniqueRows_contents[of e d] that(2) by (simp add: sameContents_def)
    from copyOutcome_after[OF that(2) rowByRow_outcome[OF that(1) this]] show ?thesis .
  qed
  have mem6: "sd_mem d6 = sd_mem d5" by (simp add: d6_def)
  have "distinct (map pkey rows)"
    using uniqueRows_contents[of d5 d] same(6) uniq by (auto simp: sameContents_def rows_def uniqueRows_def distinct_map inj_on_def)
  from fold_copied[OF this, of d5 H] have c: "copied {p \<in> set (ds_points (sd_mem d5)). hp_ID p \<le> m} d5 d6" by (simp add: d6_def rows_def)
  have all: "copyOutcome m d (Inr n) d7" for n
    using copyOutcome_after[OF same(6), of m "Inr n" d7] c same(8) mem6
    by (auto simp: copyOutcome_def sameContents_def idContents_def intro: copied_same(1))
  have undone: "sameContents d (setPoints (\<lambda>_. ds_points (sd_mem d3)) d5)"
    "sameContents d (rollbackDisk d3 (setPoints (\<lambda>_. ds_points (sd_mem d3)) d7))"
  proof -
    have "ds_pointsSeq (sd_mem d7) = ds_pointsSeq (sd_mem d3)" using same(7,8) mem6 by (simp add: sameContents_def)
    with restore_rollback[of d7 d3] show "sameContents d (rollbackDisk d3 (setPoints (\<lambda>_. ds_points (sd_mem d3)) d7))"
      using sameContents_trans[OF same(4)] by simp
    have "sameContents d3 (setPoints (\<lambda>_. ds_points (sd_mem d3)) d5)"
      using same(7) unfolding restore_contents by (simp add: sameContents_def)
    then show "sameContents d (setPoints (\<lambda>_. ds_points (sd_mem d3)) d5)" using sameContents_trans[OF same(4)] by simp
  qed
  have "(r, d') = (case r0 of Some e \<Rightarrow> (Inl e, d0) | None \<Rightarrow>
      if TrimSpace (he_memPath H) = [] \<or> he_memPath H = '':memory:'' then syncDataPointsRowByRow H m d0
      else case r1 of Some e \<Rightarrow> (Inl e, d1) | None \<Rightarrow> (case r2 of Some e \<Rightarrow> syncDataPointsRowByRow H m d2
        | None \<Rightarrow> (case r3 of Some e \<Rightarrow> (Inl e, d3) | None \<Rightarrow>
            (case r5 of Some e \<Rightarrow> (Inl e, setPoints (\<lambda>_. ds_points (sd_mem d3)) d5) | None \<Rightarrow>
              (case r7 of Some e \<Rightarrow> (Inl e, rollbackDisk d3 (setPoints (\<lambda>_. ds_points (sd_mem d3)) d7))
               | None \<Rightarrow> (Inr (length (diskRows d7) - length (diskRows d5)), d7))))))"
    using assms(1) a7 unfolding syncDataPointsWithAttach_def d6_def rows_def
    by (cases "TrimSpace (he_memPath H) = [] \<or> he_memPath H = '':memory:''"; cases r0; cases r1; cases r2; cases r3; cases r5; cases r7)
      (simp_all add: a0 a1 a2 a3 a5[unfolded d4_def] Let_def)
  then show ?thesis
    using plain[of d0 r d'] plain[of d2 r d'] all same(1-4) undone
    by (auto simp: copyOutcome_def split: option.splits if_splits)
qed

lemma syncPrepare_outcome:
  assumes "syncPrepare H d = (st, d')"
  shows "sameContents d d'" "\<forall>m. st = SyncGo m \<longrightarrow> m = maxPointID (ds_points (sd_mem d))"
    "st = SyncOver None \<Longrightarrow> maxPointID (ds_points (sd_mem d)) = 0" "st \<noteq> SyncCopied m"
proof -
  have reset: "allContents (resetPending d) = allContents d" for d
    by (simp add: allContents_def resetPending_def idContents_def resetPendingHistoryRowsForSync_def)
  show "\<forall>m. st = SyncGo m \<longrightarrow> m = maxPointID (ds_points (sd_mem d))"
    "st = SyncOver None \<Longrightarrow> maxPointID (ds_points (sd_mem d)) = 0" "st \<noteq> SyncCopied m"
    using assms unfolding syncPrepare_def
    by (auto simp: Let_def split: prod.splits option.splits if_splits dest: attempt_disk)
  show "sameContents d d'"
    using assms unfolding syncPrepare_def
    by (auto simp: Let_def sameContents_eq rename_eq reset split: prod.splits option.splits if_splits
        dest!: attempt_contents ensureDiskDataSchema_contents)
qed


section \<open>Properties of the synchronisation\<close>

text \<open>What a writer may do to the memory meanwhile: rows get new identifiers, and no key disappears (a row may be
  replaced by one of the same key).\<close>

definition onlyAdds :: "dataStore \<Rightarrow> dataStore \<Rightarrow> bool" where
  "onlyAdds s s' \<longleftrightarrow> ds_pointsSeq s \<le> ds_pointsSeq s' \<and>
     (\<forall>q \<in> set (ds_points s'). q \<in> set (ds_points s) \<or> ds_pointsSeq s < hp_ID q) \<and>
     pkey ` set (ds_points s) \<subseteq> pkey ` set (ds_points s')"

definition idsOK :: "dataStore \<Rightarrow> bool" where
  "idsOK s \<longleftrightarrow> (\<forall>p \<in> set (ds_points s). 0 < hp_ID p \<and> hp_ID p \<le> ds_pointsSeq s) \<and> 0 \<le> ds_pointsSeq s"

lemma idContents_image:
  "(\<lambda>r. (hp_ID r, content r)) ` set (ds_points (sd_mem d)) = set (idContents d)"
  "pkey ` set (ds_points (sd_mem d)) = (fst \<circ> snd) ` set (idContents d)"
  by (simp_all add: idContents_def image_image content_def)

lemma idContents_key: "idContents d' = idContents d \<Longrightarrow> pkey ` set (ds_points (sd_mem d')) = pkey ` set (ds_points (sd_mem d))"
  by (simp add: idContents_image(2))

lemma idContents_row: "idContents d' = idContents d \<Longrightarrow> p \<in> set (ds_points (sd_mem d')) \<Longrightarrow>
    \<exists>q \<in> set (ds_points (sd_mem d)). hp_ID q = hp_ID p \<and> content q = content p"
proof -
  assume same: "idContents d' = idContents d" and p: "p \<in> set (ds_points (sd_mem d'))"
  have "(hp_ID p, content p) \<in> set (idContents d')" using p by (simp add: idContents_def)
  then have "(hp_ID p, content p) \<in> set (idContents d)" unfolding same .
  then obtain q where "q \<in> set (ds_points (sd_mem d))" "(hp_ID p, content p) = (hp_ID q, content q)"
    unfolding idContents_def set_map by (rule imageE)
  then show ?thesis by (intro bexI[of _ q]) simp_all
qed

lemma maxPointID_bound: "idsOK s \<Longrightarrow> maxPointID (ds_points s) \<le> ds_pointsSeq s"
  by (auto simp: maxPointID_def idsOK_def)

lemma maxPointID_zero: "idsOK s \<Longrightarrow> maxPointID (ds_points s) = 0 \<Longrightarrow> ds_points s = []"
proof (rule ccontr)
  assume a: "idsOK s" "maxPointID (ds_points s) = 0" "ds_points s \<noteq> []"
  then obtain p where p: "p \<in> set (ds_points s)" by (cases "ds_points s") auto
  then have "hp_ID p \<le> maxPointID (ds_points s)" using a(3) by (simp add: maxPointID_def)
  with a p show False by (auto simp: idsOK_def)
qed

lemma onlyAdds_id: "onlyAdds s s"
  by (auto simp: onlyAdds_def)

lemma resetPending_points [simp]: "ds_points (sd_mem (resetPending d)) = ds_points (sd_mem d)" "diskRows (resetPending d) = diskRows d"
  by (simp_all add: resetPending_def resetPendingHistoryRowsForSync_def diskRows_def)

text \<open>A run that stopped before the deletion leaves the memory as it is.\<close>

lemma syncFinish_over: "syncFinish H (SyncOver x) d = (r, d') \<Longrightarrow> r = x \<and> d' = d"
  by auto

lemma syncFinish_copied:
  assumes "syncFinish H (SyncCopied m) d = (r, d')"
  shows "diskRows d' = diskRows d \<and>
    ds_points (sd_mem d') = (if r = None then filter (\<lambda>p. m < hp_ID p) (ds_points (sd_mem d)) else ds_points (sd_mem d))"
proof -
  obtain r1 d1 where a: "attempt H ''failed to cleanup synced data points'' d = (r1, d1)" by force
  have "diskRows d1 = diskRows d" "ds_points (sd_mem d1) = ds_points (sd_mem d)" using attempt_disk[OF a] by (simp_all add: diskRows_def)
  then show ?thesis using assms a by (auto simp: setPoints_def not_le split: option.splits)
qed

lemma syncCopy_outcome:
  assumes "syncCopy H st d = (st', d')" and "uniqueRows (sd_mem d)" and "\<And>m. st \<noteq> SyncCopied m"
  obtains (over) x where "st' = SyncOver x" "st = SyncOver x \<or> x \<noteq> None" "sameContents d d'"
    | (copied) m where "st' = SyncCopied m" "st = SyncGo m" "copyOutcome m d (Inr 0) d'"
proof (cases st)
  case (SyncGo m)
  then obtain r d1 where c: "syncDataPointsWithAttach H m d = (r, d1)" "(st', d') = (case r of Inl e \<Rightarrow> (SyncOver (Some e), d1) | Inr n \<Rightarrow> (SyncCopied m, d1))"
    using assms(1) by (cases "syncDataPointsWithAttach H m d") auto
  note out = attach_outcome[OF c(1) assms(2)]
  show thesis
  proof (cases r)
    case (Inl e)
    with c(2) out show thesis by (intro over[of "Some e"]) (simp_all add: copyOutcome_def)
  next
    case (Inr n)
    with c(2) out SyncGo show thesis by (intro copied[of m]) (simp_all add: copyOutcome_def)
  qed
next
  case (SyncOver x)
  with assms(1) show thesis by (intro over[of x]) simp_all
next
  case (SyncCopied m)
  with assms(3)[of m] show thesis by simp
qed

text \<open>What a run may do, \<open>m1\<close> and \<open>m2\<close> being the memory before the copy and before the deletion.\<close>

definition syncKept :: "sampleDB \<Rightarrow> dataStore \<Rightarrow> dataStore \<Rightarrow> string option \<Rightarrow> sampleDB \<Rightarrow> bool" where
  "syncKept d m1 m2 r d' \<longleftrightarrow>
    pkey ` (set (ds_points (sd_mem d)) \<union> set (ds_points m1) \<union> set (ds_points m2) \<union> set (diskRows d)) \<subseteq>
      pkey ` (set (ds_points (sd_mem d')) \<union> set (diskRows d')) \<and>
    content ` set (diskRows d) \<subseteq> content ` set (diskRows d') \<and>
    (if r = None
     then (\<forall>p \<in> set (ds_points (sd_mem d')). maxPointID (ds_points (sd_mem d)) < hp_ID p) \<and>
       content ` {p \<in> set (ds_points m1). hp_ID p \<le> maxPointID (ds_points (sd_mem d)) \<and> pkey p \<notin> pkey ` set (diskRows d)}
         \<subseteq> content ` set (diskRows d')
     else ds_points (sd_mem d') = ds_points m2)"

lemma sync_over:
  assumes "sameContents d d1" and "onlyAdds (sd_mem d1) m1" and "sameContents (d1\<lparr>sd_mem := m1\<rparr>) d2" and "onlyAdds (sd_mem d2) m2"
    and "idsOK (sd_mem d)" and "r = None \<Longrightarrow> maxPointID (ds_points (sd_mem d)) = 0"
  shows "syncKept d m1 m2 r (d2\<lparr>sd_mem := m2\<rparr>)"
proof -
  let ?max = "maxPointID (ds_points (sd_mem d))" and ?e1 = "d1\<lparr>sd_mem := m1\<rparr>" and ?e2 = "d2\<lparr>sd_mem := m2\<rparr>"
  have disk: "content ` set (diskRows ?e2) = content ` set (diskRows d)" and seq: "ds_pointsSeq (sd_mem d2) = ds_pointsSeq m1"
    using assms(1,3) by (simp_all add: sameContents_def)
  have keys: "pkey ` set (ds_points (sd_mem d)) \<subseteq> pkey ` set (ds_points m1)" "pkey ` set (ds_points m1) \<subseteq> pkey ` set (ds_points m2)"
    using assms(1-4) idContents_key[of d1 d] idContents_key[of d2 ?e1] by (simp_all add: sameContents_def onlyAdds_def)
  have "pkey ` set (diskRows ?e2) = pkey ` set (diskRows d)" using disk unfolding pkey_content by simp
  moreover have "\<forall>p \<in> set (ds_points m2). ?max < hp_ID p" "\<forall>p \<in> set (ds_points m1). ?max < hp_ID p" if "r = None"
  proof -
    have z: "?max = 0" "ds_points (sd_mem d) = []" using assms(6)[OF that] maxPointID_zero[OF assms(5)] by simp_all
    then have empty: "ds_points (sd_mem d1) = []" "0 \<le> ds_pointsSeq (sd_mem d1)"
      using assms(1,5) by (auto simp: sameContents_def idContents_def idsOK_def)
    then have new: "0 < hp_ID q" if "q \<in> set (ds_points m1)" for q using that assms(2) by (fastforce simp: onlyAdds_def)
    then show "\<forall>p \<in> set (ds_points m1). ?max < hp_ID p" using z by simp
    show "\<forall>p \<in> set (ds_points m2). ?max < hp_ID p"
    proof
      fix q assume "q \<in> set (ds_points m2)"
      then consider "q \<in> set (ds_points (sd_mem d2))" | "ds_pointsSeq (sd_mem d2) < hp_ID q" using assms(4) by (auto simp: onlyAdds_def)
      then show "?max < hp_ID q"
      proof cases
        case 1
        then obtain p where "p \<in> set (ds_points m1)" "hp_ID p = hp_ID q"
          using idContents_row[of d2 ?e1 q] assms(3) by (auto simp: sameContents_def)
        then show ?thesis using new[of p] z by simp
      next
        case 2 then show ?thesis using z seq empty(2) assms(2) by (simp add: onlyAdds_def)
      qed
    qed
  qed
  ultimately show ?thesis using keys disk by (fastforce simp: syncKept_def image_Un)
qed

lemma sync_copied:
  assumes "sameContents d d1" and "onlyAdds (sd_mem d1) m1" and "onlyAdds (sd_mem d2) m2" and "idsOK (sd_mem d)"
    and out: "copyOutcome (maxPointID (ds_points (sd_mem d))) (d1\<lparr>sd_mem := m1\<rparr>) (Inr 0) d2"
    and run: "syncFinish H (SyncCopied (maxPointID (ds_points (sd_mem d)))) (d2\<lparr>sd_mem := m2\<rparr>) = (r, d')"
  shows "syncKept d m1 m2 r d'"
proof -
  let ?max = "maxPointID (ds_points (sd_mem d))" and ?e1 = "d1\<lparr>sd_mem := m1\<rparr>"
  have disk1: "content ` set (diskRows ?e1) = content ` set (diskRows d)" and key1: "pkey ` set (ds_points (sd_mem d1)) = pkey ` set (ds_points (sd_mem d))"
    and seq: "ds_pointsSeq (sd_mem d1) = ds_pointsSeq (sd_mem d)"
    using assms(1) idContents_key[of d1 d] by (simp_all add: sameContents_def)
  have m1: "pkey ` set (ds_points (sd_mem d)) \<subseteq> pkey ` set (ds_points m1)" "?max \<le> ds_pointsSeq m1"
    using assms(2) key1 seq maxPointID_bound[OF assms(4)] by (auto simp: onlyAdds_def)
  have m2: "pkey ` set (ds_points (sd_mem d2)) \<subseteq> pkey ` set (ds_points m2)"
    "\<And>q. q \<in> set (ds_points m2) \<Longrightarrow> q \<in> set (ds_points (sd_mem d2)) \<or> ds_pointsSeq (sd_mem d2) < hp_ID q"
    using assms(3) by (auto simp: onlyAdds_def)
  note fin = syncFinish_copied[OF run]
  have c: "copied {p \<in> set (ds_points m1). hp_ID p \<le> ?max} ?e1 d2" and e: "idContents d2 = idContents ?e1"
    and seq2: "ds_pointsSeq (sd_mem d2) = ds_pointsSeq m1"
    using out by (simp_all add: copyOutcome_def)
  have disk: "content ` set (diskRows d') =
      content ` set (diskRows d) \<union> content ` {p \<in> set (ds_points m1). hp_ID p \<le> ?max \<and> pkey p \<notin> pkey ` set (diskRows d)}"
  proof -
    have "pkey ` set (diskRows ?e1) = pkey ` set (diskRows d)" using disk1 unfolding pkey_content by simp
    then show ?thesis using fin c disk1 by (simp add: copied_def conj_assoc)
  qed
  have keys: "pkey ` set (diskRows d') =
      pkey ` set (diskRows d) \<union> pkey ` {p \<in> set (ds_points m1). hp_ID p \<le> ?max \<and> pkey p \<notin> pkey ` set (diskRows d)}"
    using disk unfolding pkey_content by (simp add: image_Un)
  have early: "pkey q \<in> pkey ` set (diskRows d')" if q: "q \<in> set (ds_points m2)" "hp_ID q \<le> ?max" for q
  proof -
    have "q \<in> set (ds_points (sd_mem d2))" using m2(2)[OF q(1)] q(2) seq2 m1(2) by linarith
    then obtain p where p: "p \<in> set (ds_points m1)" "hp_ID p = hp_ID q" "content p = content q"
      using idContents_row[OF e] by auto
    note k = content_pkey[OF p(3)]
    show ?thesis unfolding k[symmetric] keys using p(1,2) q(2) by (cases "pkey p \<in> pkey ` set (diskRows d)") auto
  qed
  have stay: "pkey ` set (ds_points m2) \<subseteq> pkey ` (set (ds_points (sd_mem d')) \<union> set (diskRows d'))"
  proof
    fix k assume "k \<in> pkey ` set (ds_points m2)"
    then obtain q where q: "q \<in> set (ds_points m2)" "k = pkey q" by auto
    then show "k \<in> pkey ` (set (ds_points (sd_mem d')) \<union> set (diskRows d'))"
      using early[of q] fin by (cases "hp_ID q \<le> ?max") (auto simp: image_Un)
  qed
  moreover have "pkey ` set (ds_points m1) \<subseteq> pkey ` set (ds_points m2)" using m2(1) idContents_key[OF e] by simp
  moreover have "pkey ` set (diskRows d) \<subseteq> pkey ` set (diskRows d')" unfolding keys by (rule Un_upper1)
  ultimately have "pkey ` (set (ds_points (sd_mem d)) \<union> set (ds_points m1) \<union> set (ds_points m2) \<union> set (diskRows d)) \<subseteq>
      pkey ` (set (ds_points (sd_mem d')) \<union> set (diskRows d'))"
    using m1(1) by (simp only: image_Un) (meson Un_least Un_upper2 order_trans)
  moreover have "content ` set (diskRows d) \<subseteq> content ` set (diskRows d')" unfolding disk by blast
  moreover have "content ` {p \<in> set (ds_points m1). hp_ID p \<le> ?max \<and> pkey p \<notin> pkey ` set (diskRows d)} \<subseteq> content ` set (diskRows d')"
    unfolding disk by blast
  ultimately show ?thesis using fin unfolding syncKept_def by simp
qed

text \<open>C25: Moving the history to the disk, with writers of the memory between its three parts and whichever call
  fails. No key that was in the memory, was written to it meanwhile, or was on the disk is lost: it is in the memory or
  on the disk afterwards. Rows of the disk keep their values. If the run succeeds, the memory keeps only
  rows written after its start, and a row it had then, or that replaced one without a new identifier, is on the disk
  with its value unless the disk had a row of that key already (whose value then stays). If the run fails, the
  memory keeps every row.\<close>
theorem sync_loses_nothing:
  assumes "syncPrepare H d = (st1, d1)" and "onlyAdds (sd_mem d1) m1"
    and "syncCopy H st1 (d1\<lparr>sd_mem := m1\<rparr>) = (st2, d2)" and "onlyAdds (sd_mem d2) m2"
    and "syncFinish H st2 (d2\<lparr>sd_mem := m2\<rparr>) = (r, d')"
    and "idsOK (sd_mem d)" and "uniqueRows m1"
  shows "pkey ` (set (ds_points (sd_mem d)) \<union> set (ds_points m1) \<union> set (ds_points m2) \<union> set (diskRows d)) \<subseteq>
      pkey ` (set (ds_points (sd_mem d')) \<union> set (diskRows d')) \<and>
    content ` set (diskRows d) \<subseteq> content ` set (diskRows d') \<and>
    (if r = None
     then (\<forall>p \<in> set (ds_points (sd_mem d')). maxPointID (ds_points (sd_mem d)) < hp_ID p) \<and>
       content ` {p \<in> set (ds_points m1). hp_ID p \<le> maxPointID (ds_points (sd_mem d)) \<and> pkey p \<notin> pkey ` set (diskRows d)}
         \<subseteq> content ` set (diskRows d')
     else ds_points (sd_mem d') = ds_points m2)"
proof -
  note prep = syncPrepare_outcome[OF assms(1)]
  have uniq: "uniqueRows (sd_mem (d1\<lparr>sd_mem := m1\<rparr>))" using assms(7) by simp
  have "syncKept d m1 m2 r d'"
    using assms(3) uniq prep(4)
  proof (cases rule: syncCopy_outcome)
    case (over x)
    then have "r = x" "d' = d2\<lparr>sd_mem := m2\<rparr>" using assms(5) by auto
    with over prep(3) sync_over[OF prep(1) assms(2) over(3) assms(4,6), of r] show ?thesis by auto
  next
    case (copied m)
    then have m: "m = maxPointID (ds_points (sd_mem d))" using prep(2) by blast
    show ?thesis using sync_copied[OF prep(1) assms(2,4,6) copied(3)[unfolded m] assms(5)[unfolded copied(1) m]] .
  qed
  then show ?thesis unfolding syncKept_def .
qed


theorem sync_loses_nothing_witness:
  "\<exists>r d'. syncDataToDisk exampleHistory exampleDB = (r, d') \<and>
     pkey ` {examplePoint 7 ''2'' 5, examplePoint 1 ''1'' 3} \<subseteq> pkey ` (set (ds_points (sd_mem d')) \<union> set (diskRows d'))"
proof -
  let ?H = exampleHistory and ?d = exampleDB
  obtain st1 d1 where a: "syncPrepare ?H ?d = (st1, d1)" by force
  obtain st2 d2 where b: "syncCopy ?H st1 d1 = (st2, d2)" by force
  obtain r d' where c: "syncFinish ?H st2 d2 = (r, d')" by force
  have b': "syncCopy ?H st1 (d1\<lparr>sd_mem := sd_mem d1\<rparr>) = (st2, d2)" and c': "syncFinish ?H st2 (d2\<lparr>sd_mem := sd_mem d2\<rparr>) = (r, d')"
    using b c by simp_all
  have ids: "idsOK (sd_mem ?d)" by (simp add: idsOK_def exampleDB_def examplePoint_def)
  have "uniqueRows (sd_mem ?d)" by (simp add: uniqueRows_def exampleDB_def)
  then have uniq: "uniqueRows (sd_mem d1)"
    using syncPrepare_outcome(1)[OF a] uniqueRows_contents[of d1 ?d] by (simp add: sameContents_def)
  have rows: "set (ds_points (sd_mem ?d)) \<union> set (diskRows ?d) = {examplePoint 7 ''2'' 5, examplePoint 1 ''1'' 3}"
    by (auto simp: exampleDB_def diskRows_def)
  have "pkey ` (set (ds_points (sd_mem ?d)) \<union> set (diskRows ?d)) \<subseteq> pkey ` (set (ds_points (sd_mem d')) \<union> set (diskRows d'))"
    using sync_loses_nothing[OF a onlyAdds_id b' onlyAdds_id c' ids uniq] by (simp add: image_Un)
  then show ?thesis using a b c unfolding rows by (simp add: syncDataToDisk_def)
qed

section \<open>Properties of the deletions\<close>

lemma attempt_rows: "attempt H e d = (r, d') \<Longrightarrow>
    ds_points (sd_mem d') = ds_points (sd_mem d) \<and> diskRows d' = diskRows d \<and> ds_execs (sd_mem d') = Suc (ds_execs (sd_mem d))"
  by (auto dest!: attempt_cases(1) simp: diskRows_def)

lemma ensureDiskDataSchema_rows:
  "ensureDiskDataSchema H d = (r, d') \<Longrightarrow> ds_points (sd_mem d') = ds_points (sd_mem d) \<and>
     ds_execs (sd_mem d) \<le> ds_execs (sd_mem d') \<and> diskRows d' = (if r = None then map normalizeSystemName (diskRows d) else diskRows d)"
  unfolding ensureDiskDataSchema_def by (auto split: prod.splits option.splits dest!: attempt_rows)

lemma filter_names:
  assumes "\<And>p. c (normalizeSystemName p) = c p"
  shows "content ` set (filter c (map normalizeSystemName rows)) = content ` set (filter c rows)"
    "length (filter c (map normalizeSystemName rows)) = length (filter c rows)"
  by (induction rows) (simp_all add: assms)

text \<open>What a deletion does to the rows of a table.\<close>

definition deleted :: "(DataPoint \<Rightarrow> bool) \<Rightarrow> DataPoint list \<Rightarrow> DataPoint list \<Rightarrow> nat \<Rightarrow> bool" where
  "deleted c rows rows' k \<longleftrightarrow>
     content ` set rows' = content ` set (filter (\<lambda>p. \<not> c p) rows) \<and> k = length (filter c rows)"

lemma deleteOnDisk_outcome:
  assumes "deleteOnDisk H cond d = ((k, r), d')" and "he_dataDBFile H \<noteq> []"
    and "\<And>now p. cond now (normalizeSystemName p) = cond now p"
  shows "ds_points (sd_mem d') = ds_points (sd_mem d) \<and>
    (if r = None
     then \<exists>j \<ge> ds_execs (sd_mem d). deleted (cond (se_timestamp (he_sql H) j)) (diskRows d) (diskRows d') k
     else content ` set (diskRows d') = content ` set (diskRows d))"
proof (cases "sd_disk d = None")
  case True
  with assms(1,2) show ?thesis by (auto simp: deleteOnDisk_def deleted_def diskRows_def)
next
  case False
  then obtain rows where rows: "sd_disk d = Some rows" by auto
  obtain r1 d1 where a1: "attempt H ''stat'' d = (r1, d1)" by force
  obtain r2 d2 where a2: "attempt H ''open'' d1 = (r2, d2)" by force
  obtain r3 d3 where a3: "ensureDiskDataSchema H d2 = (r3, d3)" by force
  obtain r4 d4 where a4: "attempt H ''delete'' d3 = (r4, d4)" by force
  note steps = attempt_rows[OF a1] attempt_rows[OF a2] ensureDiskDataSchema_rows[OF a3] attempt_rows[OF a4]
  let ?c = "cond (se_timestamp (he_sql H) (ds_execs (sd_mem d3)))"
  have "deleteOnDisk H cond d = (case r1 of Some e \<Rightarrow> ((0, Some e), d1) | None \<Rightarrow> (case r2 of Some e \<Rightarrow> ((0, Some e), d2) | None \<Rightarrow>
      (case r3 of Some e \<Rightarrow> ((0, Some e), d3) | None \<Rightarrow> (case r4 of Some e \<Rightarrow> ((0, Some e), d4)
       | None \<Rightarrow> ((length (filter ?c (diskRows d4)), None), setDisk (filter (\<lambda>r. \<not> ?c r)) d4)))))"
    using assms(2) by (cases r1; cases r2; cases r3; cases r4) (simp_all add: rows deleteOnDisk_def a1 a2 a3 a4 Let_def)
  moreover have "content ` set (map normalizeSystemName rows) = content ` set rows" for rows by (auto simp: image_image)
  moreover have "\<exists>j \<ge> ds_execs (sd_mem d). deleted (cond (se_timestamp (he_sql H) j)) (diskRows d) (diskRows d') k"
    if "r3 = None" "diskRows d' = filter (\<lambda>r. \<not> ?c r) (diskRows d4)" "k = length (filter ?c (diskRows d4))"
    using that steps assms(3) filter_names[of ?c "diskRows d"] filter_names[of "\<lambda>p. \<not> ?c p" "diskRows d"]
    by (intro exI[of _ "ds_execs (sd_mem d3)"]) (simp add: deleted_def)
  ultimately show ?thesis using steps unfolding assms(1) by (auto split: option.splits)
qed

lemma deleteBoth_outcome:
  assumes "deleteBoth H cond d = ((k, r), d')" and "he_dataDBFile H \<noteq> []"
    and "\<And>now p. cond now (normalizeSystemName p) = cond now p"
  shows "if r = None
    then \<exists>i j. ds_execs (sd_mem d) \<le> i \<and> ds_execs (sd_mem d) \<le> j \<and> (\<exists>a b. k = a + b \<and>
      deleted (cond (se_timestamp (he_sql H) i)) (ds_points (sd_mem d)) (ds_points (sd_mem d')) a \<and>
      deleted (cond (se_timestamp (he_sql H) j)) (diskRows d) (diskRows d') b)
    else content ` set (diskRows d') = content ` set (diskRows d)"
proof -
  obtain r1 d1 where a1: "attempt H ''delete'' d = (r1, d1)" by force
  note step = attempt_rows[OF a1]
  let ?c = "cond (se_timestamp (he_sql H) (ds_execs (sd_mem d)))"
  let ?d2 = "setPoints (filter (\<lambda>r. \<not> ?c r)) d1"
  obtain k3 r3 d3 where a3: "deleteOnDisk H cond ?d2 = ((k3, r3), d3)" by (metis prod.exhaust_sel)
  note disk = deleteOnDisk_outcome[OF a3 assms(2,3)]
  have "deleteBoth H cond d = (case r1 of Some e \<Rightarrow> ((0, Some e), d1) | None \<Rightarrow>
      ((length (filter ?c (ds_points (sd_mem d1))) + (case r3 of None \<Rightarrow> k3 | Some _ \<Rightarrow> 0), r3), d3))"
    by (cases r1; cases r3) (simp_all add: deleteBoth_def a1 a3 Let_def)
  moreover have "deleted ?c (ds_points (sd_mem d)) (ds_points (sd_mem ?d2)) (length (filter ?c (ds_points (sd_mem d1))))"
    using step by (simp add: deleted_def setPoints_def)
  moreover have "ds_execs (sd_mem d) \<le> ds_execs (sd_mem ?d2)" using step by (simp add: setPoints_def)
  ultimately show ?thesis using disk step unfolding assms(1) by (auto split: option.splits intro: order_trans)
qed

text \<open>Deleting the history of a point. On success nothing of the device's field, its name trimmed, is
  left in memory or on disk, every other row is, and the number reported is that of the removed rows. If it fails, the
  disk's rows are as before.\<close>
theorem point_deleted_exactly:
  assumes "DeleteHistoryDataByPoint H deviceID fieldName d = ((k, r), d')" and "he_dataDBFile H \<noteq> []"
    and "c = (\<lambda>p. hp_DeviceID p = deviceID \<and> hp_FieldName p = TrimSpace fieldName)"
  shows "if r = None
    then \<exists>a b. k = a + b \<and> deleted c (ds_points (sd_mem d)) (ds_points (sd_mem d')) a \<and> deleted c (diskRows d) (diskRows d') b
    else content ` set (diskRows d') = content ` set (diskRows d)"
proof (cases "deviceID = 0 \<or> TrimSpace fieldName = []")
  case True
  then have "r \<noteq> None \<and> d' = d" using assms(1) by (cases "deviceID = 0") (auto simp: DeleteHistoryDataByPoint_def Let_def)
  then show ?thesis by auto
next
  case False
  then have run: "deleteBoth H (\<lambda>_. c) d = ((k, r), d')" using assms(1,3) by (simp add: DeleteHistoryDataByPoint_def Let_def)
  have "c (normalizeSystemName p) = c p" for p by (simp add: assms(3) normalizeSystemName_def)
  from deleteBoth_outcome[OF run assms(2) this] show ?thesis by (auto split: if_splits)
qed

text \<open>C40: The retention. On success every row, in memory and on disk, that is younger than the configured days
  (thirty when none are configured) at the end of the run is kept with its value, and every row older than
  that at its start is gone; SQLite's clock is anything between the two.\<close>
theorem retention_keeps_recent:
  assumes "CleanupOldDataByGatewayRetention H configuredDays d = ((k, None), d')" and "he_dataDBFile H \<noteq> []"
    and "\<And>t u. t div Second < u div Second \<Longrightarrow> \<not> he_since H t u" and "\<And>t u. u div Second < t div Second \<Longrightarrow> he_since H t u"
    and "\<And>i. ds_execs (sd_mem d) \<le> i \<Longrightarrow> start \<le> se_timestamp (he_sql H) i \<and> se_timestamp (he_sql H) i \<le> end'"
    and "age = (if configuredDays \<le> 0 then 30 else configuredDays) * (24 * Hour)"
  shows "content ` {p \<in> set (ds_points (sd_mem d)). (end' - age) div Second < hp_CollectedAt p div Second} \<subseteq> content ` set (ds_points (sd_mem d')) \<and>
    content ` {p \<in> set (diskRows d). (end' - age) div Second < hp_CollectedAt p div Second} \<subseteq> content ` set (diskRows d') \<and>
    (\<forall>p \<in> set (ds_points (sd_mem d')) \<union> set (diskRows d'). (start - age) div Second \<le> hp_CollectedAt p div Second)"
proof -
  let ?days = "if configuredDays \<le> 0 then DefaultRetentionDays else configuredDays"
  have run: "deleteBoth H (expired H ?days) d = ((k, None), d')"
    using assms(1) by (simp add: CleanupOldDataByGatewayRetention_def Let_def)
  have "expired H ?days now (normalizeSystemName p) = expired H ?days now p" for now p by (simp add: expired_def normalizeSystemName_def)
  with deleteBoth_outcome[OF run assms(2)] obtain i j a b where ij: "ds_execs (sd_mem d) \<le> i" "ds_execs (sd_mem d) \<le> j"
    and gone: "deleted (expired H ?days (se_timestamp (he_sql H) i)) (ds_points (sd_mem d)) (ds_points (sd_mem d')) a"
      "deleted (expired H ?days (se_timestamp (he_sql H) j)) (diskRows d) (diskRows d') b" by auto
  have age: "?days * (24 * Hour) = age" by (simp add: assms(6) DefaultRetentionDays_def)
  have ex: "expired H ?days now p \<longleftrightarrow> \<not> he_since H (hp_CollectedAt p) (now - age)" for now p unfolding expired_def age by (rule refl)
  have young: "\<not> expired H ?days (se_timestamp (he_sql H) n) p"
    if "ds_execs (sd_mem d) \<le> n" "(end' - age) div Second < hp_CollectedAt p div Second" for n p
  proof -
    have "(se_timestamp (he_sql H) n - age) div Second \<le> (end' - age) div Second" using assms(5)[OF that(1)] by (intro zdiv_mono1) simp_all
    from assms(4)[OF order.strict_trans1[OF this that(2)]] show ?thesis unfolding ex by simp
  qed
  have old: "(start - age) div Second \<le> hp_CollectedAt p div Second"
    if "ds_execs (sd_mem d) \<le> n" "\<not> expired H ?days (se_timestamp (he_sql H) n) p" for n p
  proof -
    have "(start - age) div Second \<le> (se_timestamp (he_sql H) n - age) div Second" using assms(5)[OF that(1)] by (intro zdiv_mono1) simp_all
    moreover have "(se_timestamp (he_sql H) n - age) div Second \<le> hp_CollectedAt p div Second"
      using that(2) assms(3)[of "hp_CollectedAt p" "se_timestamp (he_sql H) n - age"] unfolding ex not_not by (cases rule: leI) blast+
    ultimately show ?thesis by (rule order_trans)
  qed
  have part: "content ` {p \<in> set rows. (end' - age) div Second < hp_CollectedAt p div Second} \<subseteq> content ` set rows' \<and>
      (\<forall>p \<in> set rows'. (start - age) div Second \<le> hp_CollectedAt p div Second)"
    if "deleted (expired H ?days (se_timestamp (he_sql H) n)) rows rows' x" "ds_execs (sd_mem d) \<le> n" for rows rows' x n
  proof -
    have c: "content ` set rows' = content ` {p \<in> set rows. \<not> expired H ?days (se_timestamp (he_sql H) n) p}"
      using that(1) by (simp add: deleted_def)
    have "(start - age) div Second \<le> hp_CollectedAt p div Second" if "p \<in> set rows'" for p
    proof -
      have "content p \<in> content ` {p \<in> set rows. \<not> expired H ?days (se_timestamp (he_sql H) n) p}" using c that by blast
      then obtain q where "\<not> expired H ?days (se_timestamp (he_sql H) n) q" "content p = content q" by auto
      then show ?thesis using old[OF \<open>ds_execs (sd_mem d) \<le> n\<close>, of q] by (simp add: content_def pkey_def)
    qed
    then show ?thesis using c young[OF that(2)] by auto
  qed
  show ?thesis using part[OF gone(1) ij(1)] part[OF gone(2) ij(2)] by blast
qed


lemma example_attempt: "attempt exampleHistory e d = (None, d\<lparr>sd_mem := (sd_mem d)\<lparr>ds_execs := Suc (ds_execs (sd_mem d))\<rparr>\<rparr>)"
  by (simp add: attempt_def execStmt_def exampleHistory_def exampleEnv_def Let_def)

theorem point_deleted_exactly_witness:
  "\<exists>d'. DeleteHistoryDataByPoint exampleHistory 1 ''a'' exampleDB = ((2, None), d') \<and>
     content ` set (ds_points (sd_mem d')) = {} \<and> content ` set (diskRows d') = {}"
proof -
  obtain k r d' where run: "DeleteHistoryDataByPoint exampleHistory 1 ''a'' exampleDB = ((k, r), d')" by (metis prod.exhaust_sel)
  have path: "he_dataDBFile exampleHistory \<noteq> []" by (simp add: exampleHistory_def)
  have trim: "TrimSpace ''a'' = ''a''" by (simp add: TrimSpace_plain ascii_eval)
  have rows: "ds_points (sd_mem exampleDB) = [examplePoint 7 ''2'' 5]" "diskRows exampleDB = [examplePoint 1 ''1'' 3]"
    "sd_disk exampleDB = Some [examplePoint 1 ''1'' 3]"
    by (simp_all add: exampleDB_def diskRows_def)
  have "r = None" using run
    by (simp add: DeleteHistoryDataByPoint_def deleteBoth_def deleteOnDisk_def ensureDiskDataSchema_def example_attempt trim Let_def
        setPoints_def path rows split: prod.splits option.splits)
  with point_deleted_exactly[OF run path refl] show ?thesis using run
    by (simp add: trim rows deleted_def) (auto simp: examplePoint_def numeral_2_eq_2)
qed

definition dayLater :: historyEnv where
  "dayLater = exampleHistory\<lparr>he_sql := exampleEnv\<lparr>se_timestamp := \<lambda>_. unixEpoch + 86404 * Second\<rparr>\<rparr>"

theorem retention_keeps_recent_witness:
  "\<exists>k d'. CleanupOldDataByGatewayRetention dayLater 1 exampleDB =
      ((k, None), d') \<and> content (examplePoint 7 ''2'' 5) \<in> content ` set (ds_points (sd_mem d')) \<and>
      content (examplePoint 1 ''1'' 3) \<notin> content ` set (diskRows d')"
proof -
  let ?H = dayLater
  obtain k r d' where run: "CleanupOldDataByGatewayRetention ?H 1 exampleDB = ((k, r), d')" by (metis prod.exhaust_sel)
  have att: "attempt ?H e d = (None, d\<lparr>sd_mem := (sd_mem d)\<lparr>ds_execs := Suc (ds_execs (sd_mem d))\<rparr>\<rparr>)" for e d
    by (simp add: attempt_def execStmt_def dayLater_def exampleHistory_def exampleEnv_def Let_def)
  have "r = None" using run
    by (simp add: CleanupOldDataByGatewayRetention_def deleteBoth_def deleteOnDisk_def ensureDiskDataSchema_def att Let_def
        setPoints_def split: prod.splits option.splits if_splits)
  then have run: "CleanupOldDataByGatewayRetention ?H 1 exampleDB = ((k, None), d')" using run by simp
  have ts: "unixEpoch + 86404 * Second \<le> se_timestamp (he_sql ?H) i \<and> se_timestamp (he_sql ?H) i \<le> unixEpoch + 86404 * Second" for i
    by (simp add: dayLater_def)
  have path: "he_dataDBFile ?H \<noteq> []" by (simp add: dayLater_def exampleHistory_def)
  have early: "\<not> he_since ?H t u" if "t div Second < u div Second" for t u :: int
    using that zdiv_mono1[of u t Second] by (auto simp: dayLater_def exampleHistory_def not_le[symmetric])
  have late: "he_since ?H t u" if "u div Second < t div Second" for t u :: int
    using that zdiv_mono1[of t u Second] by (auto simp: dayLater_def exampleHistory_def)
  note all = retention_keeps_recent[OF run path early late ts refl]
  have times: "(unixEpoch + 86404 * Second - (if (1::int) \<le> 0 then 30 else 1) * (24 * Hour)) div Second = 62135596804"
    "hp_CollectedAt (examplePoint 7 ''2'' 5) div Second = 62135596805" "hp_CollectedAt (examplePoint 1 ''1'' 3) div Second = 62135596803"
    by (simp_all add: unixEpoch_def examplePoint_def)
  note fact = all[unfolded times(1)]
  have "examplePoint 7 ''2'' 5 \<in> {p \<in> set (ds_points (sd_mem exampleDB)). 62135596804 < hp_CollectedAt p div Second}"
    using times(2) by (simp add: exampleDB_def)
  then have "content (examplePoint 7 ''2'' 5) \<in> content ` set (ds_points (sd_mem d'))"
    using fact[THEN conjunct1] by (meson imageI subsetD)
  moreover have "content (examplePoint 1 ''1'' 3) \<notin> content ` set (diskRows d')"
  proof
    assume "content (examplePoint 1 ''1'' 3) \<in> content ` set (diskRows d')"
    then obtain q where q: "q \<in> set (diskRows d')" "content (examplePoint 1 ''1'' 3) = content q" by (rule imageE)
    have "62135596804 \<le> hp_CollectedAt q div Second" using fact[THEN conjunct2, THEN conjunct2] q(1) by simp
    moreover have "hp_CollectedAt q = hp_CollectedAt (examplePoint 1 ''1'' 3)" using q(2) by (simp add: content_def pkey_def)
    ultimately show False using times(3) by simp
  qed
  ultimately show ?thesis using run by blast
qed

end
