(* ===== verification/Sample_Latest.thy ===== *)
theory Sample_Latest
  imports Sample_History "HOL-Library.Multiset"
begin

text \<open>
  The latest values of all devices (\<open>GetAllDevicesLatestData\<close> in \<open>database/data_points_query.go\<close>): the rows of
  the value cache, or of the memory's history when the cache has none, and then those of the disk, where the newer
  row of a field wins.
\<close>

section \<open>The rows\<close>

record LatestDeviceData =
  ld_DeviceID :: int
  ld_DeviceName :: string
  ld_Fields :: "string \<rightharpoonup> string"
  ld_CollectedAt :: gotime

record latestDeviceFieldRow =
  lr_DeviceID :: int
  lr_DeviceName :: string
  lr_FieldName :: string
  lr_Value :: string
  lr_CollectedAt :: gotime

type_synonym fieldTimes = "((int \<times> string) \<rightharpoonup> int) option"

text \<open>The order of a query's rows, how many of them a failing query delivers before it fails, and the answer of the
  configuration's device table (\<open>None\<close> without that database).\<close>

record latestEnv =
  le_history :: historyEnv
  le_order :: "latestDeviceFieldRow list \<Rightarrow> latestDeviceFieldRow list"
  le_delivered :: "nat \<Rightarrow> nat"
  le_deviceNames :: "(int \<times> string) list option"

definition appendLatestDeviceFieldRow ::
  "LatestDeviceData \<Rightarrow> fieldTimes \<Rightarrow> latestDeviceFieldRow \<Rightarrow> LatestDeviceData \<times> fieldTimes" where
  "appendLatestDeviceFieldRow item fieldTimes row =
     (if lr_DeviceID row = 0 \<or> lr_FieldName row = [] then (item, fieldTimes)
      else let key = (lr_DeviceID row, lr_FieldName row); ns = time_UnixNano (lr_CollectedAt row);
               item' = item\<lparr>ld_DeviceName := (if ld_DeviceName item = [] then lr_DeviceName row else ld_DeviceName item),
                 ld_Fields := (ld_Fields item)(lr_FieldName row \<mapsto> lr_Value row),
                 ld_CollectedAt := (if time_After (lr_CollectedAt row) (ld_CollectedAt item) then lr_CollectedAt row else ld_CollectedAt item)\<rparr>
           in case fieldTimes of
                None \<Rightarrow> (item', None)
              | Some m \<Rightarrow>
                  (case m key of
                     Some existing \<Rightarrow> if existing > ns then (item, fieldTimes) else (item', Some (m(key \<mapsto> ns)))
                   | None \<Rightarrow> (item', Some (m(key \<mapsto> ns)))))"

definition newItem :: "latestDeviceFieldRow \<Rightarrow> LatestDeviceData" where
  "newItem row = \<lparr>ld_DeviceID = lr_DeviceID row, ld_DeviceName = lr_DeviceName row, ld_Fields = Map.empty, ld_CollectedAt = 0\<rparr>"

definition trimmedRow :: "latestDeviceFieldRow \<Rightarrow> latestDeviceFieldRow" where
  "trimmedRow row = row\<lparr>lr_FieldName := trimDataPointFieldName (lr_FieldName row)\<rparr>"

text \<open>Without times: a new item whenever the device changes; the current item is the last one.\<close>

fun fastRows :: "latestDeviceFieldRow list \<Rightarrow> int option \<Rightarrow> LatestDeviceData list \<Rightarrow> LatestDeviceData list" where
  "fastRows [] current result = result"
| "fastRows (r # rs) current result =
     (let row = trimmedRow r
      in if lr_DeviceID row = 0 \<or> lr_FieldName row = [] then fastRows rs current result
         else let result = (if current = Some (lr_DeviceID row) then result else result @ [newItem row])
              in fastRows rs (Some (lr_DeviceID row))
                   (butlast result @ [fst (appendLatestDeviceFieldRow (last result) None row)]))"

text \<open>With an index of the devices: the item of a row's device, \<open>current\<close> being the device and the position of the
  item used last.\<close>

definition itemFor ::
  "(int \<times> nat) option \<Rightarrow> (int \<rightharpoonup> nat) \<Rightarrow> LatestDeviceData list \<Rightarrow> latestDeviceFieldRow \<Rightarrow> nat \<times> (int \<rightharpoonup> nat) \<times> LatestDeviceData list" where
  "itemFor current deviceIndex result row =
     (let device = lr_DeviceID row
      in case (case current of Some (d, i) \<Rightarrow> if d = device then Some i else deviceIndex device | None \<Rightarrow> deviceIndex device) of
           Some i \<Rightarrow> (i, deviceIndex, result)
         | None \<Rightarrow> (length result, deviceIndex(device \<mapsto> length result), result @ [newItem row]))"

fun indexedRows ::
  "latestDeviceFieldRow list \<Rightarrow> (int \<times> nat) option \<Rightarrow> (int \<rightharpoonup> nat) \<Rightarrow> fieldTimes \<Rightarrow> LatestDeviceData list \<Rightarrow>
   LatestDeviceData list \<times> fieldTimes" where
  "indexedRows [] current deviceIndex fieldTimes result = (result, fieldTimes)"
| "indexedRows (r # rs) current deviceIndex fieldTimes result =
     (let row = trimmedRow r
      in if lr_DeviceID row = 0 \<or> lr_FieldName row = [] then indexedRows rs current deviceIndex fieldTimes result
         else case itemFor current deviceIndex result row of
                (i, deviceIndex, result) \<Rightarrow>
                  (case appendLatestDeviceFieldRow (result ! i) fieldTimes row of
                     (item, fieldTimes) \<Rightarrow>
                       indexedRows rs (Some (lr_DeviceID row, i)) deviceIndex fieldTimes (result[i := item])))"

definition indexOf :: "LatestDeviceData list \<Rightarrow> int \<rightharpoonup> nat" where
  "indexOf result = map_of (rev (zip (map ld_DeviceID result) [0..<length result]))"

text \<open>The rows of a query, read and appended; on an error the result is nil, but the times of the rows read so far stay.\<close>

definition appendRows ::
  "latestEnv \<Rightarrow> latestDeviceFieldRow list \<Rightarrow> LatestDeviceData list \<Rightarrow> (int \<rightharpoonup> nat) option \<Rightarrow> fieldTimes \<Rightarrow> sampleDB \<Rightarrow>
   LatestDeviceData list fallible \<times> fieldTimes \<times> sampleDB" where
  "appendRows E rows result deviceIndex fieldTimes d =
     (let rows = le_order E rows; delivered = le_delivered E (ds_execs (sd_mem d));
          append = (\<lambda>rows. if fieldTimes = None \<and> result = [] then (fastRows rows None [], None)
                            else indexedRows rows None (case deviceIndex of Some ix \<Rightarrow> ix | None \<Rightarrow> indexOf result) fieldTimes result)
      in case attempt (le_history E) ''query'' d of
           (Some e, d) \<Rightarrow> (Inl e, snd (append (take delivered rows)), d)
         | (None, d) \<Rightarrow> (case append rows of (result, fieldTimes) \<Rightarrow> (Inr result, fieldTimes, d)))"

definition cacheQuery :: "DataCache list \<Rightarrow> latestDeviceFieldRow list" where
  "cacheQuery table = map (\<lambda>c. \<lparr>lr_DeviceID = dc_DeviceID c, lr_DeviceName = [], lr_FieldName = dc_FieldName c,
     lr_Value = dc_Value c, lr_CollectedAt = dc_CollectedAt c\<rparr>) table"

definition historyQuery :: "DataPoint list \<Rightarrow> latestDeviceFieldRow list" where
  "historyQuery table =
     map (\<lambda>p. \<lparr>lr_DeviceID = hp_DeviceID p, lr_DeviceName = hp_DeviceName p, lr_FieldName = hp_FieldName p,
            lr_Value = hp_Value p, lr_CollectedAt = hp_CollectedAt p\<rparr>)
       (filter (\<lambda>p. list_all (\<lambda>q. hp_DeviceID q = hp_DeviceID p \<and> hp_FieldName q = hp_FieldName p \<longrightarrow>
                      hp_CollectedAt q \<le> hp_CollectedAt p) table) table)"

definition appendLatestDeviceFieldRowsFromCache ::
  "latestEnv \<Rightarrow> LatestDeviceData list \<Rightarrow> (int \<rightharpoonup> nat) option \<Rightarrow> fieldTimes \<Rightarrow> sampleDB \<Rightarrow>
   LatestDeviceData list fallible \<times> fieldTimes \<times> sampleDB" where
  "appendLatestDeviceFieldRowsFromCache E result deviceIndex fieldTimes d =
     appendRows E (cacheQuery (ds_cache (sd_mem d))) result deviceIndex fieldTimes d"

definition appendLatestDeviceFieldRowsFromHistory ::
  "latestEnv \<Rightarrow> DataPoint list \<Rightarrow> LatestDeviceData list \<Rightarrow> (int \<rightharpoonup> nat) option \<Rightarrow> fieldTimes \<Rightarrow> sampleDB \<Rightarrow>
   LatestDeviceData list fallible \<times> fieldTimes \<times> sampleDB" where
  "appendLatestDeviceFieldRowsFromHistory E table result deviceIndex fieldTimes d =
     appendRows E (historyQuery table) result deviceIndex fieldTimes d"

text \<open>The names the history did not have; only the first item of a device is looked up.\<close>

definition needsName :: "LatestDeviceData \<Rightarrow> bool" where
  "needsName item \<longleftrightarrow> ld_DeviceID item \<noteq> SystemStatsDeviceID \<and> TrimSpace (ld_DeviceName item) = [] \<and> ld_DeviceID item \<noteq> 0"

fun fillNames :: "(int \<times> string) list \<Rightarrow> int list \<Rightarrow> LatestDeviceData list \<Rightarrow> LatestDeviceData list" where
  "fillNames answers seen [] = []"
| "fillNames answers seen (item # items) =
     (if ld_DeviceID item = SystemStatsDeviceID
      then item\<lparr>ld_DeviceName := SystemStatsDeviceName\<rparr> # fillNames answers seen items
      else if needsName item \<and> ld_DeviceID item \<notin> set seen
      then (case map_of (rev answers) (ld_DeviceID item) of
              None \<Rightarrow> item
            | Some name \<Rightarrow> item\<lparr>ld_DeviceName := TrimSpace name\<rparr>) # fillNames answers (ld_DeviceID item # seen) items
      else item # fillNames answers seen items)"

definition fillLatestDeviceNamesFromParamDB :: "latestEnv \<Rightarrow> LatestDeviceData list \<Rightarrow> LatestDeviceData list" where
  "fillLatestDeviceNamesFromParamDB E items =
     (case le_deviceNames E of None \<Rightarrow> items | Some answers \<Rightarrow> fillNames answers [] items)"

text \<open>The first half of \<open>GetAllDevicesLatestData\<close>, which asks the memory.\<close>

definition latestFromMemory :: "latestEnv \<Rightarrow> fieldTimes \<Rightarrow> sampleDB \<Rightarrow> LatestDeviceData list fallible \<times> fieldTimes \<times> sampleDB" where
  "latestFromMemory E ft d =
     (case appendLatestDeviceFieldRowsFromCache E [] None ft d of
        (Inl e, fieldTimes, d) \<Rightarrow> appendLatestDeviceFieldRowsFromHistory E (ds_points (sd_mem d)) [] None fieldTimes d
      | (Inr result, fieldTimes, d) \<Rightarrow>
          if result = [] then appendLatestDeviceFieldRowsFromHistory E (ds_points (sd_mem d)) result None fieldTimes d
          else (Inr result, fieldTimes, d))"

definition GetAllDevicesLatestData :: "latestEnv \<Rightarrow> sampleDB \<Rightarrow> LatestDeviceData list fallible \<times> sampleDB" where
  "GetAllDevicesLatestData E d =
     (let H = le_history E; fieldTimes = (if he_dataDBFile H \<noteq> [] then Some Map.empty else None)
      in case latestFromMemory E fieldTimes d of
           (Inl e, fieldTimes, d) \<Rightarrow> (Inl e, d)
         | (Inr result, fieldTimes, d) \<Rightarrow>
             if he_dataDBFile H = [] then (Inr (fillLatestDeviceNamesFromParamDB E result), d)
             else case openDataDiskDB H d of
                    (Some e, d) \<Rightarrow> (Inr (fillLatestDeviceNamesFromParamDB E result), d)
                  | (None, d) \<Rightarrow>
                      (case appendLatestDeviceFieldRowsFromHistory E (diskRows d) result (Some (indexOf result)) fieldTimes d of
                         (Inl e, fieldTimes, d) \<Rightarrow> (Inr (fillLatestDeviceNamesFromParamDB E []), d)
                       | (Inr result, fieldTimes, d) \<Rightarrow> (Inr (fillLatestDeviceNamesFromParamDB E result), d)))"

section \<open>The index of the devices\<close>

definition indexed :: "LatestDeviceData list \<Rightarrow> (int \<rightharpoonup> nat) \<Rightarrow> bool" where
  "indexed result ix \<longleftrightarrow> (\<forall>d i. ix d = Some i \<longleftrightarrow> i < length result \<and> ld_DeviceID (result ! i) = d)"

text \<open>What the items say: the value of a device's field, and the times as a map of newest rows.\<close>

definition latestView :: "LatestDeviceData list \<Rightarrow> int \<times> string \<Rightarrow> string option" where
  "latestView result k = (case List.find (\<lambda>item. ld_DeviceID item = fst k) result of None \<Rightarrow> None | Some item \<Rightarrow> ld_Fields item (snd k))"

definition applyRow :: "latestDeviceFieldRow \<Rightarrow> ((int \<times> string) \<rightharpoonup> (int \<times> string)) \<Rightarrow> (int \<times> string) \<rightharpoonup> (int \<times> string)" where
  "applyRow r m =
     (let row = trimmedRow r; key = (lr_DeviceID row, lr_FieldName row); ns = time_UnixNano (lr_CollectedAt row)
      in if lr_DeviceID row = 0 \<or> lr_FieldName row = [] then m
         else case m key of
                Some (existing, v) \<Rightarrow> if existing > ns then m else m(key \<mapsto> (ns, lr_Value row))
              | None \<Rightarrow> m(key \<mapsto> (ns, lr_Value row)))"

definition latestInv ::
  "LatestDeviceData list \<Rightarrow> (int \<rightharpoonup> nat) \<Rightarrow> (int \<times> nat) option \<Rightarrow> fieldTimes \<Rightarrow> ((int \<times> string) \<rightharpoonup> (int \<times> string)) \<Rightarrow> bool" where
  "latestInv result ix current ft m \<longleftrightarrow>
     indexed result ix \<and> (\<forall>d i. current = Some (d, i) \<longrightarrow> ix d = Some i) \<and>
     ft = Some (\<lambda>k. map_option fst (m k)) \<and> (\<forall>k. latestView result k = map_option snd (m k))"

lemma indexed_unique: "indexed result ix \<Longrightarrow> i < length result \<Longrightarrow> j < length result \<Longrightarrow> ld_DeviceID (result ! i) = ld_DeviceID (result ! j) \<Longrightarrow> i = j"
  unfolding indexed_def by (metis option.inject)

lemma latestView_at:
  assumes "indexed result ix"
  shows "latestView result (d, f) = (case ix d of None \<Rightarrow> None | Some i \<Rightarrow> ld_Fields (result ! i) f)"
proof (cases "ix d")
  case None
  then have "\<not> (i < length result \<and> ld_DeviceID (result ! i) = d)" for i using assms unfolding indexed_def by (metis option.distinct(1))
  then have "List.find (\<lambda>item. ld_DeviceID item = d) result = None" by (auto simp: find_None_iff in_set_conv_nth)
  with None show ?thesis by (simp add: latestView_def)
next
  case (Some i)
  then have i: "i < length result" "ld_DeviceID (result ! i) = d" using assms unfolding indexed_def by blast+
  then have "ld_DeviceID (result ! j) \<noteq> d" if "j < i" for j using indexed_unique[OF assms, of i j] that by auto
  then have "List.find (\<lambda>item. ld_DeviceID item = d) result = Some (result ! i)"
    using i by (auto simp: find_Some_iff intro!: exI[of _ i])
  with Some show ?thesis by (simp add: latestView_def)
qed


lemma latestView_nth: "indexed result ix \<Longrightarrow> ix d = Some i \<Longrightarrow> latestView result (d, f) = ld_Fields (result ! i) f"
  by (simp add: latestView_at)

lemma append_device [simp]: "ld_DeviceID (fst (appendLatestDeviceFieldRow item ft row)) = ld_DeviceID item"
  by (simp add: appendLatestDeviceFieldRow_def Let_def split: option.splits)

lemma indexed_update: "indexed result ix \<Longrightarrow> ld_DeviceID item = ld_DeviceID (result ! i) \<Longrightarrow> indexed (result[i := item]) ix"
  by (cases "i < length result") (auto simp: indexed_def nth_list_update list_update_beyond)

lemma indexed_new: "indexed result ix \<Longrightarrow> ix (ld_DeviceID item) = None \<Longrightarrow> indexed (result @ [item]) (ix(ld_DeviceID item \<mapsto> length result))"
proof -
  assume a: "indexed result ix" "ix (ld_DeviceID item) = None"
  then have "ld_DeviceID (result ! i) \<noteq> ld_DeviceID item" if "i < length result" for i
    using that unfolding indexed_def by (metis option.distinct(1))
  with a show ?thesis by (auto simp: indexed_def nth_append less_Suc_eq)
qed

text \<open>The item of a row's device, an old one or a new one, keeps the invariant.\<close>

lemma latestInv_item:
  assumes "latestInv result ix current ft m" and "itemFor current ix result row = (i, ix', result')"
  shows "latestInv result' ix' (Some (lr_DeviceID row, i)) ft m"
proof (cases "ix (lr_DeviceID row)")
  case (Some j)
  with assms show ?thesis by (auto simp: latestInv_def itemFor_def Let_def split: option.splits prod.splits if_splits)
next
  case None
  have ix: "indexed result ix" and cur: "current \<noteq> Some (lr_DeviceID row, j)" for j using assms(1) None by (auto simp: latestInv_def)
  have out: "i = length result" "ix' = ix(lr_DeviceID row \<mapsto> length result)" "result' = result @ [newItem row]"
    using assms(2) None cur by (auto simp: itemFor_def Let_def split: option.splits prod.splits if_splits)
  have new: "indexed result' ix'" using indexed_new[OF ix, of "newItem row"] None by (simp add: newItem_def out)
  have "latestView (xs @ [newItem row]) k = latestView xs k" for xs k
    by (induction xs) (auto simp: latestView_def newItem_def)
  then show ?thesis using assms(1) new by (simp add: latestInv_def out)
qed

lemma latestInv_row:
  assumes "latestInv result ix (Some (lr_DeviceID row, i)) ft m" and "lr_DeviceID row \<noteq> 0" and "lr_FieldName row \<noteq> []"
    and "appendLatestDeviceFieldRow (result ! i) ft row = (item, ft')"
    and "m' = (let key = (lr_DeviceID row, lr_FieldName row); ns = time_UnixNano (lr_CollectedAt row)
      in case m key of Some (existing, v) \<Rightarrow> if existing > ns then m else m(key \<mapsto> (ns, lr_Value row))
         | None \<Rightarrow> m(key \<mapsto> (ns, lr_Value row)))"
  shows "latestInv (result[i := item]) ix (Some (lr_DeviceID row, i)) ft' m'"
proof -
  let ?key = "(lr_DeviceID row, lr_FieldName row)" and ?ns = "time_UnixNano (lr_CollectedAt row)"
  have ix: "indexed result ix" "ix (lr_DeviceID row) = Some i" and ft: "ft = Some (\<lambda>k. map_option fst (m k))"
    and view: "\<And>k. latestView result k = map_option snd (m k)" using assms(1) by (auto simp: latestInv_def)
  have i: "i < length result" "ld_DeviceID (result ! i) = lr_DeviceID row" using ix unfolding indexed_def by blast+
  have dev: "ld_DeviceID item = ld_DeviceID (result ! i)" using append_device[of "result ! i" ft row] assms(4) by simp
  have ix': "indexed (result[i := item]) ix" using indexed_update[OF ix(1) dev] .
  let ?skip = "\<exists>e v. m ?key = Some (e, v) \<and> e > ?ns"
  show ?thesis
  proof (cases ?skip)
    case True
    then have "item = result ! i" "ft' = ft" "m' = m"
      using assms(2-5) ft by (auto simp: appendLatestDeviceFieldRow_def Let_def)
    with assms(1) show ?thesis by simp
  next
    case False
    then have m': "m' = m(?key \<mapsto> (?ns, lr_Value row))" using assms(5) by (auto simp: Let_def split: option.splits)
    have item: "ld_Fields item = (ld_Fields (result ! i))(lr_FieldName row \<mapsto> lr_Value row)"
      and ft': "ft' = Some ((\<lambda>k. map_option fst (m k))(?key \<mapsto> ?ns))"
      using assms(2-4) ft False by (auto simp: appendLatestDeviceFieldRow_def Let_def split: option.splits if_splits)
    have "latestView (result[i := item]) (d, f) = map_option snd (m' (d, f))" for d f
    proof (cases "d = lr_DeviceID row")
      case True
      then show ?thesis
        using latestView_nth[OF ix' ix(2), of f] latestView_nth[OF ix(1,2), of f] view[of "(d, f)"] i item by (simp add: m')
    next
      case False
      then have "j \<noteq> i" if "ix d = Some j" for j using that ix i unfolding indexed_def by auto
      then show ?thesis
        using latestView_at[OF ix', of d f] latestView_at[OF ix(1), of d f] view[of "(d, f)"] False by (simp add: m' split: option.splits)
    qed
    then show ?thesis using ix' ix(2) ft' by (auto simp: latestInv_def m' fun_eq_iff)
  qed
qed

lemma indexedRows_inv:
  assumes "latestInv result ix current ft m" and "indexedRows rs current ix ft result = (result', ft')"
  shows "\<exists>ix' current'. latestInv result' ix' current' ft' (fold applyRow rs m)"
  using assms
proof (induction rs arbitrary: result ix current ft m)
  case (Cons r rs)
  let ?row = "trimmedRow r"
  show ?case
  proof (cases "lr_DeviceID ?row = 0 \<or> lr_FieldName ?row = []")
    case True
    then have "applyRow r m = m" by (auto simp: applyRow_def Let_def)
    with Cons True show ?thesis by (auto simp: Let_def)
  next
    case False
    obtain i ix' res where sel: "itemFor current ix result ?row = (i, ix', res)" by (metis prod.exhaust_sel)
    note inv = latestInv_item[OF Cons.prems(1) sel]
    obtain item ft1 where app: "appendLatestDeviceFieldRow (res ! i) ft ?row = (item, ft1)" by force
    have "applyRow r m = (let key = (lr_DeviceID ?row, lr_FieldName ?row); ns = time_UnixNano (lr_CollectedAt ?row)
        in case m key of Some (existing, v) \<Rightarrow> if existing > ns then m else m(key \<mapsto> (ns, lr_Value ?row))
           | None \<Rightarrow> m(key \<mapsto> (ns, lr_Value ?row)))"
      using False by (simp add: applyRow_def Let_def)
    from latestInv_row[OF inv _ _ app this] False
    have "latestInv (res[i := item]) ix' (Some (lr_DeviceID ?row, i)) ft1 (applyRow r m)" by simp
    moreover have "indexedRows rs (Some (lr_DeviceID ?row, i)) ix' ft1 (res[i := item]) = (result', ft')"
      using Cons.prems(2) False sel app by (simp add: Let_def)
    ultimately show ?thesis using Cons.IH by simp
  qed
qed auto


section \<open>The newest rows\<close>

text \<open>Folding rows of which no two are about the same field.\<close>

definition rowKey :: "latestDeviceFieldRow \<Rightarrow> int \<times> string" where
  "rowKey r = (lr_DeviceID r, lr_FieldName r)"

definition cleanRows :: "latestDeviceFieldRow list \<Rightarrow> bool" where
  "cleanRows rs \<longleftrightarrow> distinct (map rowKey rs) \<and> list_all (\<lambda>r. lr_DeviceID r \<noteq> 0 \<and> lr_FieldName r \<noteq> [] \<and> trimDataPointFieldName (lr_FieldName r) = lr_FieldName r) rs"

definition rowFor :: "latestDeviceFieldRow list \<Rightarrow> int \<times> string \<rightharpoonup> int \<times> string" where
  "rowFor rs k = map_of (map (\<lambda>r. (rowKey r, time_UnixNano (lr_CollectedAt r), lr_Value r)) rs) k"

text \<open>The newer of two rows; of two with one instant the second.\<close>

definition newer :: "(int \<times> string) option \<Rightarrow> (int \<times> string) option \<Rightarrow> (int \<times> string) option" where
  "newer a b = (case (a, b) of (Some (t, v), Some (u, w)) \<Rightarrow> if t > u then a else b | (_, None) \<Rightarrow> a | (None, _) \<Rightarrow> b)"

lemma trimmedRow_id: "trimDataPointFieldName (lr_FieldName r) = lr_FieldName r \<Longrightarrow> trimmedRow r = r"
  by (simp add: trimmedRow_def)

lemma fold_applyRow: "cleanRows rs \<Longrightarrow> fold applyRow rs m k = newer (m k) (rowFor rs k)"
proof (induction rs arbitrary: m)
  case (Cons r rs)
  then have r: "trimmedRow r = r" "lr_DeviceID r \<noteq> 0" "lr_FieldName r \<noteq> []" and rs: "cleanRows rs" "rowKey r \<notin> rowKey ` set rs"
    by (auto simp: cleanRows_def trimmedRow_id)
  have "fold applyRow rs (applyRow r m) k = newer (applyRow r m k) (rowFor rs k)" using Cons.IH rs(1) by simp
  moreover have "rowKey r = k \<Longrightarrow> rowFor rs k = None" using rs(2) by (force simp: rowFor_def map_of_eq_None_iff)
  moreover have "applyRow r m k = (if rowKey r = k then newer (m k) (Some (time_UnixNano (lr_CollectedAt r), lr_Value r)) else m k)"
    using r by (auto simp: applyRow_def Let_def newer_def rowKey_def split: option.splits prod.splits)
  ultimately show ?case by (cases "rowKey r = k") (auto simp: rowFor_def newer_def split: option.splits prod.splits)
qed (simp add: rowFor_def newer_def split: option.splits)

text \<open>A query's order is a permutation.\<close>

definition orderOK :: "latestEnv \<Rightarrow> bool" where
  "orderOK E \<longleftrightarrow> (\<forall>rs. mset (le_order E rs) = mset rs)"

lemma cleanRows_order: "orderOK E \<Longrightarrow> cleanRows rs \<Longrightarrow> cleanRows (le_order E rs) \<and> rowFor (le_order E rs) = rowFor rs"
proof -
  assume a: "orderOK E" "cleanRows rs"
  let ?f = "\<lambda>r. (rowKey r, time_UnixNano (lr_CollectedAt r), lr_Value r)"
  have m: "mset (le_order E rs) = mset rs" using a(1) by (simp add: orderOK_def)
  then have s: "set (le_order E rs) = set rs" by (metis set_mset_mset)
  have d: "distinct (map rowKey (le_order E rs))"
  proof -
    have "mset (map rowKey (le_order E rs)) = mset (map rowKey rs)" using m by simp
    then show ?thesis using a(2) mset_eq_imp_distinct_iff unfolding cleanRows_def by blast
  qed
  then have dd: "distinct (map fst (map ?f (le_order E rs)))" "distinct (map fst (map ?f rs))"
    using a(2) by (simp_all add: comp_def cleanRows_def)
  have "map_of (map ?f (le_order E rs)) = map_of (map ?f rs)"
    using map_of_inject_set[OF dd] s by simp
  with a(2) d s show ?thesis by (auto simp: cleanRows_def rowFor_def fun_eq_iff list_all_iff)
qed

lemma appendRows_view:
  assumes "appendRows E rows result ix (Some (\<lambda>k. map_option fst (m k))) d = (r, ft, d')"
    and "latestInv result ix0 None (Some (\<lambda>k. map_option fst (m k))) m"
    and "ix0 = (case ix of Some x \<Rightarrow> x | None \<Rightarrow> indexOf result)"
    and "orderOK E" and "cleanRows rows"
  shows "sameRows d d' \<and> (case r of
      Inl e \<Rightarrow> \<not> quiet (he_sql (le_history E)) (sd_mem d)
    | Inr result' \<Rightarrow> \<exists>ix' current m'. latestInv result' ix' current ft m' \<and> (\<forall>k. m' k = newer (m k) (rowFor rows k)))"
proof -
  obtain r1 d1 where a: "attempt (le_history E) ''query'' d = (r1, d1)" by force
  obtain res ft1 where run: "indexedRows (le_order E rows) None ix0 (Some (\<lambda>k. map_option fst (m k))) result = (res, ft1)" by force
  obtain ix' current' where inv: "latestInv res ix' current' ft1 (fold applyRow (le_order E rows) m)"
    using indexedRows_inv[OF assms(2) run] by blast
  have view: "fold applyRow (le_order E rows) m k = newer (m k) (rowFor rows k)" for k
    using fold_applyRow cleanRows_order[OF assms(4,5)] by metis
  show ?thesis
  proof (cases r1)
    case (Some e)
    then have "r = Inl e" "d' = d1" using a assms(1) by (auto simp: appendRows_def Let_def)
    then show ?thesis using attempt_same[OF a] attempt_quiet[of "le_history E" "''query''" d] a Some by auto
  next
    case None
    then have "r = Inr res" "d' = d1" "ft = ft1" using a run assms(1,3) by (auto simp: appendRows_def Let_def)
    then show ?thesis using attempt_same[OF a] inv view by auto
  qed
qed


section \<open>Clean tables\<close>

text \<open>The tables' unique indexes hold and the stored names are trimmed, as the insertions leave them.\<close>

definition tidyName :: "int \<Rightarrow> string \<Rightarrow> bool" where
  "tidyName d f \<longleftrightarrow> d \<noteq> 0 \<and> f \<noteq> [] \<and> trimDataPointFieldName f = f"

definition tidyTable :: "DataPoint list \<Rightarrow> bool" where
  "tidyTable table \<longleftrightarrow> uniqueKeys table \<and> list_all (\<lambda>p. tidyName (hp_DeviceID p) (hp_FieldName p)) table"

definition latestOK :: "latestEnv \<Rightarrow> sampleDB \<Rightarrow> bool" where
  "latestOK E d \<longleftrightarrow> orderOK E \<and> distinct (cacheKeys (sd_mem d)) \<and>
     list_all (\<lambda>c. tidyName (dc_DeviceID c) (dc_FieldName c)) (ds_cache (sd_mem d)) \<and>
     tidyTable (ds_points (sd_mem d)) \<and> tidyTable (diskRows d)"

lemma historyQuery_clean: "tidyTable table \<Longrightarrow> cleanRows (historyQuery table)"
proof -
  assume a: "tidyTable table"
  let ?newest = "filter (\<lambda>p. list_all (\<lambda>q. hp_DeviceID q = hp_DeviceID p \<and> hp_FieldName q = hp_FieldName p \<longrightarrow>
                      hp_CollectedAt q \<le> hp_CollectedAt p) table) table"
  let ?key = "\<lambda>p. (hp_DeviceID p, hp_FieldName p)"
  have d: "distinct (map keyOf table)" using a by (simp add: tidyTable_def uniqueKeys_def)
  have "inj_on ?key (set ?newest)"
  proof (rule inj_onI)
    fix p q assume p: "p \<in> set ?newest" and q: "q \<in> set ?newest" and k: "?key p = ?key q"
    then have "hp_CollectedAt p = hp_CollectedAt q" by (auto simp: list_all_iff intro: antisym)
    with k have "keyOf p = keyOf q" by (simp add: keyOf_def)
    with d p q show "p = q" unfolding distinct_map by (auto dest: inj_onD)
  qed
  then have "distinct (map ?key ?newest)" using d by (simp add: distinct_map)
  with a show ?thesis
    by (auto simp: cleanRows_def historyQuery_def comp_def rowKey_def tidyTable_def tidyName_def list_all_iff)
qed

lemma cacheQuery_clean:
  "distinct (cacheKeys s) \<Longrightarrow> list_all (\<lambda>c. tidyName (dc_DeviceID c) (dc_FieldName c)) (ds_cache s) \<Longrightarrow> cleanRows (cacheQuery (ds_cache s))"
  by (auto simp: cleanRows_def cacheQuery_def comp_def rowKey_def tidyName_def list_all_iff cacheKeys_def)

section \<open>The names\<close>

lemma fillNames_keeps:
  "map ld_DeviceID (fillNames answers seen items) = map ld_DeviceID items \<and> map ld_Fields (fillNames answers seen items) = map ld_Fields items"
  by (induction items arbitrary: seen) (auto split: option.splits)

lemma latestView_cong:
  "map ld_DeviceID xs = map ld_DeviceID ys \<Longrightarrow> map ld_Fields xs = map ld_Fields ys \<Longrightarrow> latestView xs k = latestView ys k"
proof (induction xs arbitrary: ys)
  case (Cons x xs)
  then show ?case by (cases ys) (auto simp: latestView_def)
qed (simp add: latestView_def)

lemma fillLatest_keeps:
  "map ld_DeviceID (fillLatestDeviceNamesFromParamDB E items) = map ld_DeviceID items \<and>
   latestView (fillLatestDeviceNamesFromParamDB E items) k = latestView items k"
  using fillNames_keeps latestView_cong[of "fillNames _ _ items" items]
  by (auto simp: fillLatestDeviceNamesFromParamDB_def split: option.splits)

section \<open>The newest value of every field\<close>

lemma indexed_distinct: "indexed result ix \<Longrightarrow> distinct (map ld_DeviceID result)"
  by (auto simp: distinct_conv_nth dest: indexed_unique)

lemma indexed_indexOf: "indexed result ix \<Longrightarrow> indexOf result = ix"
proof -
  assume a: "indexed result ix"
  let ?ps = "zip (map ld_DeviceID result) [0..<length result]"
  have d: "distinct (map fst (rev ?ps))" using indexed_distinct[OF a] by (simp add: rev_map[symmetric] map_fst_zip)
  have "(x, i) \<in> set ?ps \<longleftrightarrow> ix x = Some i" for x i
    using a by (auto simp: indexed_def set_zip intro!: exI[of _ i])
  then show ?thesis unfolding indexOf_def using map_of_eq_Some_iff[OF d] by (intro ext) (metis not_Some_eq set_rev)
qed

lemma latestInv_empty: "latestInv [] (indexOf []) None (Some (\<lambda>k. map_option fst (None :: (int \<times> string) option))) (\<lambda>_. None)"
  by (simp add: latestInv_def indexed_def indexOf_def latestView_def)

lemma latestInv_restart:
  "latestInv result ix current ft m \<Longrightarrow> latestInv result (indexOf result) None (Some (\<lambda>k. map_option fst (m k))) m"
  using indexed_indexOf by (auto simp: latestInv_def)


text \<open>What the items of an answer say about the tables' rows.\<close>

definition tells :: "LatestDeviceData list \<Rightarrow> fieldTimes \<Rightarrow> (int \<times> string \<rightharpoonup> int \<times> string) \<Rightarrow> bool" where
  "tells result ft m \<longleftrightarrow> (\<exists>ix current. latestInv result ix current ft m)"

lemma tells_empty: "tells [] (Some Map.empty) Map.empty"
  using latestInv_empty by (auto simp: tells_def)

lemma tells_appendRows:
  assumes "appendRows E rows result ix ft d = (r, ft', d')" and "tells result ft m"
    and "ix = None \<or> ix = Some (indexOf result)" and "orderOK E" and "cleanRows rows" and "quiet (he_sql (le_history E)) (sd_mem d)"
  shows "sameRows d d' \<and> quiet (he_sql (le_history E)) (sd_mem d') \<and>
    (\<exists>result'. r = Inr result' \<and> tells result' ft' (\<lambda>k. newer (m k) (rowFor rows k)))"
proof -
  obtain ix0 current where inv: "latestInv result ix0 current ft m" using assms(2) by (auto simp: tells_def)
  then have ft: "ft = Some (\<lambda>k. map_option fst (m k))" by (simp add: latestInv_def)
  have ix: "indexOf result = (case ix of Some x \<Rightarrow> x | None \<Rightarrow> indexOf result)" using assms(3) by auto
  note out = appendRows_view[OF assms(1)[unfolded ft] latestInv_restart[OF inv] ix assms(4,5)]
  then obtain result' ix' current' m' where r: "r = Inr result'" "latestInv result' ix' current' ft' m'"
      "\<And>k. m' k = newer (m k) (rowFor rows k)"
    using assms(6) by (auto split: sum.splits)
  from r(3) have "m' = (\<lambda>k. newer (m k) (rowFor rows k))" by (rule ext)
  with r out show ?thesis using quiet_mono[OF assms(6)] by (auto simp: tells_def sameRows_def)
qed

lemma appendRows_nil:
  assumes "orderOK E" and "appendRows E [] [] None (Some Map.empty) d = (Inr result, ft, d')"
  shows "result = []"
proof -
  have "le_order E [] = []" using assms(1) unfolding orderOK_def by (metis mset_zero_iff mset.simps(1))
  with assms(2) show ?thesis by (auto simp: appendRows_def Let_def split: prod.splits option.splits)
qed

lemma tells_nothing: "tells [] ft m \<Longrightarrow> m k = None"
  by (cases k) (auto simp: tells_def latestInv_def latestView_def)

lemma newer_None [simp]: "newer a None = a" "newer None b = b"
  by (auto simp: newer_def split: option.splits prod.splits)

text \<open>The rows of the memory: the cache's, or the newest of the history when the cache is empty.\<close>

definition memoryRows :: "sampleDB \<Rightarrow> latestDeviceFieldRow list" where
  "memoryRows d = (if ds_cache (sd_mem d) = [] then historyQuery (ds_points (sd_mem d)) else cacheQuery (ds_cache (sd_mem d)))"

lemma latestFromMemory_tells:
  assumes "latestFromMemory E (Some Map.empty) d = (r, ft, d')" and "latestOK E d" and "quiet (he_sql (le_history E)) (sd_mem d)"
  shows "sameRows d d' \<and> quiet (he_sql (le_history E)) (sd_mem d') \<and> (\<exists>result. r = Inr result \<and> tells result ft (rowFor (memoryRows d)))"
proof -
  let ?s = "sd_mem d"
  have laws: "orderOK E" "cleanRows (cacheQuery (ds_cache ?s))" "cleanRows (historyQuery (ds_points ?s))"
    using assms(2) by (auto simp: latestOK_def intro: cacheQuery_clean historyQuery_clean)
  obtain r1 ft1 d1 where c: "appendRows E (cacheQuery (ds_cache ?s)) [] None (Some Map.empty) d = (r1, ft1, d1)" by (metis prod.exhaust)
  obtain res where r1: "r1 = Inr res" and t: "tells res ft1 (rowFor (cacheQuery (ds_cache ?s)))" and d1: "sameRows d d1"
      and q: "quiet (he_sql (le_history E)) (sd_mem d1)"
    using tells_appendRows[OF c tells_empty _ laws(1,2) assms(3)] by auto
  have nil: "res = [] \<longleftrightarrow> ds_cache ?s = []"
  proof
    assume "res = []"
    then have none: "rowFor (cacheQuery (ds_cache ?s)) k = None" for k using tells_nothing t by blast
    show "ds_cache ?s = []"
    proof (cases "ds_cache ?s")
      case (Cons x xs)
      with none[of "(dc_DeviceID x, dc_FieldName x)"] show ?thesis by (simp add: rowFor_def cacheQuery_def rowKey_def)
    qed simp
  next
    assume "ds_cache ?s = []"
    with appendRows_nil[OF laws(1), of d res ft1 d1] c r1 show "res = []" by (simp add: cacheQuery_def)
  qed
  show ?thesis
  proof (cases "res = []")
    case False
    with assms(1) c r1 t d1 q nil show ?thesis
      by (auto simp: latestFromMemory_def appendLatestDeviceFieldRowsFromCache_def memoryRows_def)
  next
    case True
    have same: "ds_points (sd_mem d1) = ds_points ?s" using d1 by (simp add: sameRows_def sameTables_def)
    have h: "appendRows E (historyQuery (ds_points ?s)) [] None ft1 d1 = (r, ft, d')"
      using assms(1) c r1 True same
      by (simp add: latestFromMemory_def appendLatestDeviceFieldRowsFromCache_def appendLatestDeviceFieldRowsFromHistory_def)
    have "ds_cache ?s = []" using nil True by simp
    moreover have "rowFor [] = Map.empty" by (simp add: rowFor_def fun_eq_iff)
    ultimately have t0: "tells [] ft1 Map.empty" and m: "memoryRows d = historyQuery (ds_points ?s)"
      using t True by (simp_all add: cacheQuery_def memoryRows_def)
    show ?thesis using tells_appendRows[OF h t0 _ laws(1,3) q] d1 by (auto simp: m intro: sameRows_trans)
  qed
qed

lemma GetAllDevicesLatestData_steps:
  assumes "he_dataDBFile (le_history E) \<noteq> []" and "latestFromMemory E (Some Map.empty) d = (Inr result, ft, d1)"
  shows "GetAllDevicesLatestData E d =
    (case openDataDiskDB (le_history E) d1 of
       (Some e, d) \<Rightarrow> (Inr (fillLatestDeviceNamesFromParamDB E result), d)
     | (None, d) \<Rightarrow>
         (case appendRows E (historyQuery (diskRows d)) result (Some (indexOf result)) ft d of
            (Inl e, fieldTimes, d) \<Rightarrow> (Inr (fillLatestDeviceNamesFromParamDB E []), d)
          | (Inr result, fieldTimes, d) \<Rightarrow> (Inr (fillLatestDeviceNamesFromParamDB E result), d)))"
  unfolding GetAllDevicesLatestData_def appendLatestDeviceFieldRowsFromHistory_def Let_def using assms by simp

lemma tells_filled:
  "tells result ft m \<Longrightarrow> latestView (fillLatestDeviceNamesFromParamDB E result) k = map_option snd (m k) \<and>
    distinct (map ld_DeviceID (fillLatestDeviceNamesFromParamDB E result))"
  using fillLatest_keeps[of E result k] indexed_distinct by (cases k) (auto simp: tells_def latestInv_def)

text \<open>C20: The latest values of all devices. Without a failing call of the database there is one item for each device,
  and the value it has for a field is that of the row with the latest instant among the memory's and the disk's (the disk's row when
  the instants are equal), where the memory's rows are the cache's or, when the cache is empty, the newest of its
  history; a field that neither has is in no item. Looking up the names changes none of this.\<close>
theorem latest_values_newest:
  assumes "GetAllDevicesLatestData E d = (r, d')" and "he_dataDBFile (le_history E) \<noteq> []" and "latestOK E d"
    and "quiet (he_sql (le_history E)) (sd_mem d)"
  shows "\<exists>result. r = Inr result \<and> distinct (map ld_DeviceID result) \<and>
    latestView result = (\<lambda>k. map_option snd (newer (rowFor (memoryRows d) k) (rowFor (historyQuery (diskRows d)) k)))"
proof -
  obtain r1 ft d1 where mem: "latestFromMemory E (Some Map.empty) d = (r1, ft, d1)" by (metis prod.exhaust)
  from latestFromMemory_tells[OF this assms(3,4)] obtain res where r1: "r1 = Inr res" and t: "tells res ft (rowFor (memoryRows d))"
    and d1: "sameRows d d1" and q: "quiet (he_sql (le_history E)) (sd_mem d1)" by auto
  note steps = GetAllDevicesLatestData_steps[OF assms(2) mem[unfolded r1]]
  obtain o1 d2 where op: "openDataDiskDB (le_history E) d1 = (o1, d2)" by force
  note out = openDataDiskDB_outcome[OF op]
  have rows: "diskRows d1 = diskRows d" "diskRows d2 = diskRows d" using d1 out by (auto simp: sameRows_def diskRows_def)
  show ?thesis
  proof (cases o1)
    case (Some e)
    then have "sd_disk d1 = None" using out q assms(2) by auto
    then have none: "historyQuery (diskRows d) = []" unfolding rows(1)[symmetric] by (simp add: diskRows_def historyQuery_def)
    from Some have "r = Inr (fillLatestDeviceNamesFromParamDB E res)" using steps op assms(1) by simp
    moreover have "rowFor [] k = None" for k by (simp add: rowFor_def)
    ultimately show ?thesis using tells_filled[OF t] by (auto simp: none fun_eq_iff)
  next
    case None
    have q2: "quiet (he_sql (le_history E)) (sd_mem d2)" using quiet_mono[OF q] out by (simp add: sameRows_def)
    obtain r3 ft3 d3 where ap: "appendRows E (historyQuery (diskRows d)) res (Some (indexOf res)) ft d2 = (r3, ft3, d3)" by (metis prod.exhaust)
    have "orderOK E" "cleanRows (historyQuery (diskRows d))" using assms(3) by (auto simp: latestOK_def intro: historyQuery_clean)
    from tells_appendRows[OF ap t _ this q2] obtain res3 where r3: "r3 = Inr res3"
      and t3: "tells res3 ft3 (\<lambda>k. newer (rowFor (memoryRows d) k) (rowFor (historyQuery (diskRows d)) k))" by auto
    have "r = Inr (fillLatestDeviceNamesFromParamDB E res3)" using steps op ap None r3 assms(1) rows by simp
    then show ?thesis using tells_filled[OF t3] by (auto simp: fun_eq_iff)
  qed
qed


definition exampleLatest :: latestEnv where
  "exampleLatest = \<lparr>le_history = exampleHistory, le_order = id, le_delivered = (\<lambda>_. 0), le_deviceNames = Some [(1, ''pump'')]\<rparr>"

definition exampleLatestDB :: sampleDB where
  "exampleLatestDB = exampleDB\<lparr>sd_mem := (sd_mem exampleDB)\<lparr>ds_cache := [\<lparr>dc_ID = 1, dc_DeviceID = 1, dc_FieldName = ''a'',
     dc_Value = ''2'', dc_ValueType = ''string'', dc_CollectedAt = unixEpoch + 2 * Second\<rparr>]\<rparr>\<rparr>"

lemma example_trim: "trimDataPointFieldName ''a'' = ''a''"
  by code_simp

theorem latest_values_newest_witness:
  "\<exists>result. fst (GetAllDevicesLatestData exampleLatest exampleLatestDB) = Inr result \<and> latestView result (1, ''a'') = Some ''1''"
proof -
  obtain r d' where run: "GetAllDevicesLatestData exampleLatest exampleLatestDB = (r, d')" by force
  have ok: "latestOK exampleLatest exampleLatestDB"
    using example_historyOK
    by (simp add: latestOK_def orderOK_def exampleLatest_def exampleLatestDB_def exampleDB_def diskRows_def cacheKeys_def
        tidyName_def tidyTable_def historyOK_def tableOK_def example_trim examplePoint_def)
  have path: "he_dataDBFile (le_history exampleLatest) \<noteq> []" by (simp add: exampleLatest_def exampleHistory_def)
  have q: "quiet (he_sql (le_history exampleLatest)) (sd_mem exampleLatestDB)"
    by (simp add: exampleLatest_def exampleHistory_def example_quiet)
  have "map_option snd (newer (rowFor (memoryRows exampleLatestDB) (1, ''a'')) (rowFor (historyQuery (diskRows exampleLatestDB)) (1, ''a''))) = Some ''1''"
    by (simp add: memoryRows_def exampleLatestDB_def exampleDB_def diskRows_def historyQuery_def cacheQuery_def rowFor_def rowKey_def
        examplePoint_def newer_def time_UnixNano_def wrap64_id in_int64_def minInt64_def maxInt64_def)
  with latest_values_newest[OF run path ok q] run show ?thesis by auto
qed

text \<open>When the disk's file opens but its query fails, the answer is an empty list and no error, whatever
  the memory's rows say: the failed append has already replaced the items that the memory gave. (A disk that does not open
  leaves the memory's items in the answer.)\<close>
theorem disk_failure_empties_latest:
  assumes "he_dataDBFile (le_history E) \<noteq> []" and "latestFromMemory E (Some Map.empty) d = (Inr result, ft, d1)"
    and "openDataDiskDB (le_history E) d1 = (opened, d2)" and "attempt (le_history E) ''query'' d2 = (Some e, d3)"
  shows "fst (GetAllDevicesLatestData E d) = Inr (if opened = None then [] else fillLatestDeviceNamesFromParamDB E result)"
proof (cases opened)
  case None
  have "fst (appendRows E (historyQuery (diskRows d2)) result (Some (indexOf result)) ft d2) = Inl e"
    using assms(4) by (simp add: appendRows_def Let_def)
  moreover have "fillLatestDeviceNamesFromParamDB E [] = []" by (simp add: fillLatestDeviceNamesFromParamDB_def split: option.split)
  ultimately show ?thesis
    using GetAllDevicesLatestData_steps[OF assms(1,2)] assms(3) None by (auto split: prod.splits sum.splits)
qed (use GetAllDevicesLatestData_steps[OF assms(1,2)] assms(3) in simp)

text \<open>A disk whose third call fails: the cache's row is lost.\<close>

definition faultyLatest :: latestEnv where
  "faultyLatest = exampleLatest\<lparr>le_history := exampleHistory\<lparr>he_sql := exampleEnv\<lparr>se_fault := (\<lambda>k. if k = 2 then Some AtExec else None)\<rparr>\<rparr>\<rparr>"

theorem disk_failure_empties_latest_witness:
  "fst (GetAllDevicesLatestData faultyLatest exampleLatestDB) = Inr [] \<and> ds_cache (sd_mem exampleLatestDB) \<noteq> []"
proof -
  let ?H = "le_history faultyLatest"
  obtain r1 ft d1 where mem: "latestFromMemory faultyLatest (Some Map.empty) exampleLatestDB = (r1, ft, d1)" by (metis prod.exhaust)
  obtain opened d2 where op: "openDataDiskDB ?H d1 = (opened, d2)" by force
  obtain a d3 where at: "attempt ?H ''query'' d2 = (a, d3)" by force
  have trim: "trimmedRow \<lparr>lr_DeviceID = 1, lr_DeviceName = [], lr_FieldName = ''a'', lr_Value = v, lr_CollectedAt = t\<rparr> =
      \<lparr>lr_DeviceID = 1, lr_DeviceName = [], lr_FieldName = ''a'', lr_Value = v, lr_CollectedAt = t\<rparr>" for v t
    by (simp add: trimmedRow_def example_trim)
  have path: "he_dataDBFile ?H \<noteq> []" by (simp add: faultyLatest_def exampleLatest_def exampleHistory_def)
  have run: "(\<exists>res. r1 = Inr res) \<and> ds_execs (sd_mem d1) = Suc (ds_execs (sd_mem exampleLatestDB)) \<and> sd_disk d1 = sd_disk exampleLatestDB \<and> sd_handle d1 = None"
    using mem
    by (auto simp: latestFromMemory_def appendLatestDeviceFieldRowsFromCache_def appendRows_def Let_def attempt_def execStmt_def
        faultyLatest_def exampleLatest_def exampleHistory_def exampleEnv_def exampleLatestDB_def exampleDB_def emptyStore_def
        cacheQuery_def trim itemFor_def newItem_def appendLatestDeviceFieldRow_def indexOf_def)
  then obtain res where r1: "r1 = Inr res" by blast
  have "opened = None \<and> ds_execs (sd_mem d2) = 2"
    using op run by (auto simp: openDataDiskDB_def Let_def attempt_def execStmt_def faultyLatest_def exampleLatest_def exampleHistory_def
        exampleEnv_def exampleLatestDB_def exampleDB_def emptyStore_def)
  moreover from this have "\<exists>e. a = Some e" using at
    by (auto simp: attempt_def execStmt_def faultyLatest_def exampleLatest_def exampleHistory_def exampleEnv_def Let_def)
  ultimately show ?thesis
    using disk_failure_empties_latest[OF path mem[unfolded r1] op] at by (auto simp: exampleLatestDB_def)
qed

end
