(* ===== verification/Go_Routines.thy ===== *)
theory Go_Routines
  imports Main
begin

text \<open>
  Goroutines over shared state. A routine is a tree of atomic sections: each reads and writes the state in one step, or is
  blocked (\<open>None\<close>), and goes on with another routine. What one goroutine does alone is \<open>run\<close>; goroutines
  beside each other are interleaved at their sections by \<open>poolStep\<close>. \<open>owns\<close> is the discipline under which the
  goroutines of a pool share a state: every lock, flag or call that the state records belongs to exactly one of them.
\<close>

section \<open>Routines\<close>

datatype ('s, 'a) routine = Return 'a | Atomic "'s \<Rightarrow> ('s \<times> ('s, 'a) routine) option"

primrec andThen :: "('s, 'a) routine \<Rightarrow> ('a \<Rightarrow> ('s, 'b) routine) \<Rightarrow> ('s, 'b) routine" where
  "andThen (Return a) f = f a"
| "andThen (Atomic g) f = Atomic (\<lambda>s. map_option (map_prod id (\<lambda>p. andThen p f)) (g s))"

definition act :: "('s \<Rightarrow> 's \<times> 'a) \<Rightarrow> ('s, 'a) routine" where
  "act f = Atomic (\<lambda>s. case f s of (s', a) \<Rightarrow> Some (s', Return a))"

definition look :: "('s \<Rightarrow> 'a) \<Rightarrow> ('s, 'a) routine" where
  "look f = act (\<lambda>s. (s, f s))"

definition change :: "('s \<Rightarrow> 's) \<Rightarrow> ('s, unit) routine" where
  "change f = act (\<lambda>s. (f s, ()))"

text \<open>Alone: the result and the state after it; \<open>None\<close> when a section blocks, which then stays so.\<close>

primrec run :: "('s, 'a) routine \<Rightarrow> 's \<Rightarrow> ('a \<times> 's) option" where
  "run (Return a) s = Some (a, s)"
| "run (Atomic g) s = (case map_option (map_prod id run) (g s) of None \<Rightarrow> None | Some (s', k) \<Rightarrow> k s')"

lemma run_Atomic: "run (Atomic g) s = (case g s of None \<Rightarrow> None | Some (s', p) \<Rightarrow> run p s')"
  by (auto split: option.splits)

lemma run_andThen: "run (andThen p f) s = (case run p s of None \<Rightarrow> None | Some (a, s') \<Rightarrow> run (f a) s')"
proof (induction p arbitrary: s)
  case (Atomic g)
  show ?case
  proof (cases "g s")
    case (Some x)
    obtain s' p where x: "x = (s', p)" by force
    with Some Atomic.IH[of "Some (s', p)" "(s', p)" p s'] rangeI[of g s] show ?thesis by (auto simp: run_Atomic simp del: run.simps(2))
  qed simp
qed simp

lemma run_act [simp]: "run (act f) s = (case f s of (s', a) \<Rightarrow> Some (a, s'))"
  by (simp add: act_def split: prod.split)

lemma run_look [simp]: "run (look f) s = Some (f s, s)"
  by (simp add: look_def)

lemma run_change [simp]: "run (change f) s = Some ((), f s)"
  by (simp add: change_def)

lemma andThen_assoc: "andThen (andThen p f) g = andThen p (\<lambda>a. andThen (f a) g)"
proof (induction p)
  case (Atomic h)
  have "map_prod id (\<lambda>p. andThen p g) (map_prod id (\<lambda>p. andThen p f) x) = map_prod id (\<lambda>p. andThen p (\<lambda>a. andThen (f a) g)) x"
    if "h s = Some x" for s x
    using Atomic.IH[of "h s" x "snd x"] rangeI[of h s] that by (cases x) auto
  then show ?case by (auto simp: fun_eq_iff option.map_comp comp_def intro!: option.map_cong)
qed simp

section \<open>Interleaving\<close>

text \<open>A pool of goroutines on one state; at any time another one may be started.\<close>

inductive poolStep :: "('s, 'a) routine set \<Rightarrow> ('s, 'a) routine list \<times> 's \<Rightarrow> ('s, 'a) routine list \<times> 's \<Rightarrow> bool" for starts where
  poolSpawn: "p \<in> starts \<Longrightarrow> poolStep starts (ts, s) (ts @ [p], s)"
| poolAdvance: "i < length ts \<Longrightarrow> ts ! i = Atomic g \<Longrightarrow> g s = Some (s', p) \<Longrightarrow> poolStep starts (ts, s) (ts[i := p], s')"

inductive pool :: "('s, 'a) routine set \<Rightarrow> 's \<Rightarrow> ('s, 'a) routine list \<times> 's \<Rightarrow> bool" for starts s0 where
  pool_start: "pool starts s0 ([], s0)"
| pool_step: "pool starts s0 c \<Longrightarrow> poolStep starts c c' \<Longrightarrow> pool starts s0 c'"

inductive_cases poolStepE: "poolStep starts c c'"

text \<open>A schedule: which goroutine advances next; \<open>None\<close> where one is blocked or over.\<close>

fun schedule :: "nat list \<Rightarrow> ('s, 'a) routine list \<times> 's \<Rightarrow> (('s, 'a) routine list \<times> 's) option" where
  "schedule [] c = Some c"
| "schedule (i # is) (ts, s) =
     (if i < length ts then
        (case ts ! i of
           Return a \<Rightarrow> None
         | Atomic g \<Rightarrow> (case g s of None \<Rightarrow> None | Some (s', p) \<Rightarrow> schedule is (ts[i := p], s')))
      else None)"

lemma schedule_pool: "pool starts s0 c \<Longrightarrow> schedule is c = Some c' \<Longrightarrow> pool starts s0 c'"
proof (induction "is" c rule: schedule.induct)
  case (2 i "is" ts s)
  then obtain g s' p where "i < length ts" "ts ! i = Atomic g" "g s = Some (s', p)" "schedule is (ts[i := p], s') = Some c'"
    by (auto split: if_splits routine.splits option.splits)
  note step = poolAdvance[where starts = starts, OF this(1-3)]
  from 2(1)[OF _ _ _ _ pool_step[OF 2(2) step]] show ?case using \<open>i < length ts\<close> \<open>ts ! i = Atomic g\<close> \<open>g s = Some (s', p)\<close> \<open>schedule is (ts[i := p], s') = Some c'\<close> by simp
qed simp

lemma pool_spawned: "set ps \<subseteq> starts \<Longrightarrow> pool starts s0 (ps, s0)"
proof (induction ps rule: rev_induct)
  case (snoc p ps)
  then show ?case using pool_step[OF _ poolSpawn[of p starts ps s0]] by simp
qed (rule pool_start)

section \<open>Ownership\<close>

text \<open>
  \<open>T s\<close> are the tokens that the state records. A routine that owns the tokens \<open>X\<close> and may rely on \<open>F\<close> leaves the tokens
  of others alone, keeps the invariant \<open>I\<close> of the state and what is consistent \<open>C\<close> about its own tokens, and changes
  the state only in ways \<open>G\<close> that keep what the others rely on; when it returns \<open>a\<close> it owns \<open>QO a\<close> and knows \<open>QF a\<close>.
\<close>

definition stable :: "('s \<Rightarrow> 's \<Rightarrow> bool) \<Rightarrow> ('s \<Rightarrow> bool) \<Rightarrow> bool" where
  "stable G F \<longleftrightarrow> (\<forall>s s'. F s \<longrightarrow> G s s' \<longrightarrow> F s')"

lemma stableD: "stable G F \<Longrightarrow> F s \<Longrightarrow> G s s' \<Longrightarrow> F s'"
  by (auto simp: stable_def)

record ('s, 'o) discipline =
  dp_tokens :: "'s \<Rightarrow> 'o set"
  dp_inv :: "'s \<Rightarrow> bool"
  dp_own :: "'o set \<Rightarrow> 's \<Rightarrow> bool"
  dp_step :: "'s \<Rightarrow> 's \<Rightarrow> bool"

definition handsOver :: "('s, 'o) discipline \<Rightarrow> 'o set \<Rightarrow> 's \<Rightarrow> 'o set \<Rightarrow> 's \<Rightarrow> bool" where
  "handsOver D X s X' s' \<longleftrightarrow>
     dp_tokens D s' = (dp_tokens D s - X) \<union> X' \<and> X' \<inter> (dp_tokens D s - X) = {} \<and> dp_inv D s' \<and> dp_own D X' s' \<and> dp_step D s s'"

inductive owns :: "('s, 'o) discipline \<Rightarrow> ('a \<Rightarrow> 'o set) \<Rightarrow> ('a \<Rightarrow> 's \<Rightarrow> bool) \<Rightarrow> 'o set \<Rightarrow> ('s \<Rightarrow> bool) \<Rightarrow> ('s, 'a) routine \<Rightarrow> bool"
  for D QO QF where
  owns_Return: "QO a = X \<Longrightarrow> (\<And>s. F s \<Longrightarrow> QF a s) \<Longrightarrow> owns D QO QF X F (Return a)"
| owns_Atomic: "(\<And>s s' p. dp_inv D s \<Longrightarrow> dp_own D X s \<Longrightarrow> F s \<Longrightarrow> X \<subseteq> dp_tokens D s \<Longrightarrow> g s = Some (s', p) \<Longrightarrow>
      \<exists>X' F'. handsOver D X s X' s' \<and> stable (dp_step D) F' \<and> F' s' \<and> owns D QO QF X' F' p) \<Longrightarrow>
    owns D QO QF X F (Atomic g)"

inductive_cases owns_AtomicE: "owns D QO QF X F (Atomic g)"

lemma owns_weaken: "owns D QO QF X F p \<Longrightarrow> (\<And>s. F' s \<Longrightarrow> F s) \<Longrightarrow> owns D QO QF X F' p"
  by (cases rule: owns.cases) (auto intro!: owns_Return owns_Atomic elim: owns_AtomicE)

lemma owns_andThen:
  assumes "owns D PO PF X F p" and "\<And>a. owns D QO QF (PO a) (PF a) (f a)"
  shows "owns D QO QF X F (andThen p f)"
  using assms(1)
proof (induction rule: owns.induct)
  case (owns_Return a X F)
  then show ?case using assms(2)[of a] by (auto intro: owns_weaken)
next
  case (owns_Atomic X F g)
  show ?case
    unfolding andThen.simps
  proof (rule owns.owns_Atomic)
    fix s s' p
    assume a: "dp_inv D s" "dp_own D X s" "F s" "X \<subseteq> dp_tokens D s" "map_option (map_prod id (\<lambda>p. andThen p f)) (g s) = Some (s', p)"
    then obtain q where q: "g s = Some (s', q)" "p = andThen q f" by (auto simp: map_prod_def)
    from owns_Atomic[OF a(1-4) q(1)] q(2)
    show "\<exists>X' F'. handsOver D X s X' s' \<and> stable (dp_step D) F' \<and> F' s' \<and> owns D QO QF X' F' p" by blast
  qed
qed

lemma owns_act:
  fixes f :: "'s \<Rightarrow> 's \<times> 'a"
  assumes "\<And>s. dp_inv D s \<Longrightarrow> dp_own D X s \<Longrightarrow> F s \<Longrightarrow> X \<subseteq> dp_tokens D s \<Longrightarrow>
      handsOver D X s (QO (snd (f s))) (fst (f s)) \<and> QF (snd (f s)) (fst (f s))"
    and "\<And>a. stable (dp_step D) (QF a)"
  shows "owns D QO QF X F (act f)"
  unfolding act_def
proof (rule owns_Atomic)
  fix s s' and p :: "('s, 'a) routine"
  assume a: "dp_inv D s" "dp_own D X s" "F s" "X \<subseteq> dp_tokens D s" "(case f s of (s', a) \<Rightarrow> Some (s', Return a)) = Some (s', p)"
  then have p: "p = Return (snd (f s))" "s' = fst (f s)" by (auto split: prod.splits)
  then show "\<exists>X' F'. handsOver D X s X' s' \<and> stable (dp_step D) F' \<and> F' s' \<and> owns D QO QF X' F' p"
    using assms(1)[OF a(1-4)] assms(2) by (auto intro!: exI[of _ "QO (snd (f s))"] exI[of _ "QF (snd (f s))"] owns_Return)
qed

text \<open>The invariant of a pool whose routines all start and end without tokens.\<close>

definition poolOwned :: "('s, 'o) discipline \<Rightarrow> ('s, 'a) routine list \<times> 's \<Rightarrow> (nat \<Rightarrow> 'o set) \<Rightarrow> bool" where
  "poolOwned D c own \<longleftrightarrow> (case c of (ts, s) \<Rightarrow> dp_inv D s \<and> dp_tokens D s = (\<Union>i < length ts. own i) \<and>
     (\<forall>i < length ts. \<forall>j < length ts. i \<noteq> j \<longrightarrow> own i \<inter> own j = {}) \<and>
     (\<forall>i < length ts. dp_own D (own i) s \<and> (\<exists>F. stable (dp_step D) F \<and> F s \<and> owns D (\<lambda>_. {}) (\<lambda>_ _. True) (own i) F (ts ! i))))"

lemma poolOwned_advance:
  assumes c: "poolOwned D (ts, s) own" and i: "i < length ts" "ts ! i = Atomic g" "g s = Some (s', p)"
    and ownStable: "\<And>X. stable (dp_step D) (dp_own D X)"
  shows "\<exists>own'. poolOwned D (ts[i := p], s') own'"
proof -
  note inv = c[unfolded poolOwned_def, simplified]
  obtain F where F: "stable (dp_step D) F" "F s" "owns D (\<lambda>_. {}) (\<lambda>_ _. True) (own i) F (Atomic g)" using inv i by metis
  have sub: "own i \<subseteq> dp_tokens D s" using inv i by auto
  obtain X' F' where h: "handsOver D (own i) s X' s'" and F': "stable (dp_step D) F'" "F' s'" "owns D (\<lambda>_. {}) (\<lambda>_ _. True) X' F' p"
    using owns_AtomicE[OF F(3)] F(2) inv i sub by metis
  have step: "dp_step D s s'" and own': "dp_own D X' s'" and tok: "dp_tokens D s' = (dp_tokens D s - own i) \<union> X'"
    "X' \<inter> (dp_tokens D s - own i) = {}" using h by (auto simp: handsOver_def)
  have rest: "own j \<subseteq> dp_tokens D s - own i" if "j < length ts" "j \<noteq> i" for j using inv i that by auto
  have "dp_tokens D s - own i = (\<Union>j \<in> {..<length ts} - {i}. own j)" using inv rest by auto
  then have all: "dp_tokens D s' = (\<Union>j < length ts. (own(i := X')) j)" using tok(1) i by auto
  have disj: "(own(i := X')) j \<inter> (own(i := X')) k = {}" if "j < length ts" "k < length ts" "j \<noteq> k" for j k
    using that inv rest[of j] rest[of k] tok(2) by (cases "j = i"; cases "k = i") auto
  have each: "dp_own D ((own(i := X')) j) s' \<and>
      (\<exists>F. stable (dp_step D) F \<and> F s' \<and> owns D (\<lambda>_. {}) (\<lambda>_ _. True) ((own(i := X')) j) F (ts[i := p] ! j))" if j: "j < length ts" for j
  proof (cases "j = i")
    case True
    with own' F' i show ?thesis by auto
  next
    case False
    then obtain H where "stable (dp_step D) H" "H s" "owns D (\<lambda>_. {}) (\<lambda>_ _. True) (own j) H (ts ! j)" "dp_own D (own j) s"
      using inv j by metis
    moreover have "dp_own D (own j) s'" using stableD[OF ownStable _ step] inv j by blast
    moreover have "H s'" using stableD[OF calculation(1,2) step] .
    ultimately show ?thesis using False by auto
  qed
  have "dp_inv D s'" using h by (simp add: handsOver_def)
  then have "poolOwned D (ts[i := p], s') (own(i := X'))" unfolding poolOwned_def using all disj each by simp
  then show ?thesis by blast
qed

lemma pool_owned:
  assumes "pool starts s0 c" and init: "dp_inv D s0" "dp_tokens D s0 = {}" and none: "\<And>s. dp_own D {} s"
    and ownStable: "\<And>X. stable (dp_step D) (dp_own D X)"
    and starts: "\<And>p. p \<in> starts \<Longrightarrow> owns D (\<lambda>_. {}) (\<lambda>_ _. True) {} (\<lambda>_. True) p"
  shows "\<exists>own. poolOwned D c own"
  using assms(1)
proof induction
  case pool_start
  show ?case by (simp add: poolOwned_def init)
next
  case (pool_step c c')
  then obtain own where own: "poolOwned D c own" by blast
  from pool_step(2) show ?case
  proof cases
    case (poolSpawn p ts s)
    have "stable (dp_step D) (\<lambda>_. True)" by (simp add: stable_def)
    with own starts[OF poolSpawn(3)] none have "poolOwned D (ts @ [p], s) (own(length ts := {}))"
      unfolding poolOwned_def poolSpawn by (auto simp: nth_append less_Suc_eq)
    with poolSpawn show ?thesis by blast
  next
    case (poolAdvance i ts g s s' p)
    with own poolOwned_advance[OF _ _ _ _ ownStable] show ?thesis by metis
  qed
qed

text \<open>When all have returned, the state has no token left.\<close>

lemma pool_over:
  assumes "poolOwned D (ts, s) own" and "list_all (\<lambda>t. \<exists>a. t = Return a) ts"
  shows "dp_tokens D s = {}"
proof -
  have "own i = {}" if i: "i < length ts" for i
  proof -
    obtain a where "ts ! i = Return a" using assms(2) i by (auto simp: list_all_length)
    with assms(1) i obtain F where "owns D (\<lambda>_. {}) (\<lambda>_ _. True) (own i) F (Return a)" by (auto simp: poolOwned_def)
    then show ?thesis by (cases rule: owns.cases) auto
  qed
  with assms(1) show ?thesis by (auto simp: poolOwned_def)
qed


section \<open>Routines that never wait\<close>

text \<open>Every section goes on, and changes the state only as \<open>U\<close> allows.\<close>

inductive plain :: "('s \<Rightarrow> 's \<Rightarrow> bool) \<Rightarrow> ('s, 'a) routine \<Rightarrow> bool" for U where
  plain_Return: "plain U (Return a)"
| plain_Atomic: "(\<And>s. \<exists>s' p. g s = Some (s', p) \<and> U s s' \<and> plain U p) \<Longrightarrow> plain U (Atomic g)"

lemma plain_act: "(\<And>s. U s (fst (f s))) \<Longrightarrow> plain U (act f)"
  unfolding act_def case_prod_beta by (rule plain_Atomic) (simp add: plain_Return)

lemma plain_look: "(\<And>s. U s s) \<Longrightarrow> plain U (look f)"
  unfolding look_def by (rule plain_act) simp

lemma plain_change: "(\<And>s. U s (f s)) \<Longrightarrow> plain U (change f)"
  unfolding change_def by (rule plain_act) simp

lemma plain_andThen: "plain U p \<Longrightarrow> (\<And>a. plain U (f a)) \<Longrightarrow> plain U (andThen p f)"
proof (induction rule: plain.induct)
  case (plain_Atomic g)
  show ?case
    unfolding andThen.simps
  proof (rule plain.plain_Atomic)
    fix s
    obtain s' p where "g s = Some (s', p)" "U s s'" "plain U (andThen p f)" using plain_Atomic by blast
    then show "\<exists>s' q. map_option (map_prod id (\<lambda>p. andThen p f)) (g s) = Some (s', q) \<and> U s s' \<and> plain U q" by auto
  qed
qed simp

lemma plain_mono: "plain U p \<Longrightarrow> (\<And>s s'. U s s' \<Longrightarrow> V s s') \<Longrightarrow> plain V p"
  by (induction rule: plain.induct) (auto intro!: plain_Return plain_Atomic, meson)

lemma plain_run: "plain U p \<Longrightarrow> reflp U \<Longrightarrow> transp U \<Longrightarrow> \<exists>a s'. run p s = Some (a, s') \<and> U s s'"
proof (induction arbitrary: s rule: plain.induct)
  case (plain_Atomic g)
  then obtain s1 p where "g s = Some (s1, p)" "U s s1" "\<exists>a s'. run p s1 = Some (a, s') \<and> U s1 s'" by meson
  with plain_Atomic(3) show ?case by (auto simp: run_Atomic dest: transpD simp del: run.simps(2))
qed (auto dest: reflpD)

text \<open>\<open>P\<close> is kept, and holds of the result as \<open>Q\<close> says.\<close>

inductive always :: "('s \<Rightarrow> bool) \<Rightarrow> ('a \<Rightarrow> bool) \<Rightarrow> ('s, 'a) routine \<Rightarrow> bool" for P Q where
  always_Return: "Q a \<Longrightarrow> always P Q (Return a)"
| always_Atomic: "(\<And>s s' p. P s \<Longrightarrow> g s = Some (s', p) \<Longrightarrow> P s' \<and> always P Q p) \<Longrightarrow> always P Q (Atomic g)"

inductive_cases always_AtomicE: "always P Q (Atomic g)"

lemma always_act: "(\<And>s. P s \<Longrightarrow> P (fst (f s)) \<and> Q (snd (f s))) \<Longrightarrow> always P Q (act f)"
  unfolding act_def case_prod_beta by (rule always_Atomic) (auto intro: always_Return)

lemma always_andThen: "always P R p \<Longrightarrow> (\<And>a. R a \<Longrightarrow> always P Q (f a)) \<Longrightarrow> always P Q (andThen p f)"
proof (induction rule: always.induct)
  case (always_Atomic g)
  show ?case
    unfolding andThen.simps
  proof (rule always.always_Atomic)
    fix s s' q
    assume P: "P s" and "map_option (map_prod id (\<lambda>p. andThen p f)) (g s) = Some (s', q)"
    then obtain p where "g s = Some (s', p)" "q = andThen p f" by (auto simp: map_prod_def)
    with always_Atomic(1)[OF P] always_Atomic(2) show "P s' \<and> always P Q q" by blast
  qed
qed simp

lemma always_weaken: "always P Q p \<Longrightarrow> (\<And>a. Q a \<Longrightarrow> R a) \<Longrightarrow> always P R p"
  by (induction rule: always.induct) (auto intro: always_Return always_Atomic)

lemma always_plain: "plain U p \<Longrightarrow> (\<And>s s'. U s s' \<Longrightarrow> P s \<Longrightarrow> P s') \<Longrightarrow> always P (\<lambda>_. True) p"
proof (induction rule: plain.induct)
  case (plain_Atomic g)
  show ?case
  proof (rule always_Atomic)
    fix s s' p
    assume "P s" "g s = Some (s', p)"
    with plain_Atomic(1)[of s] plain_Atomic(2) show "P s' \<and> always P (\<lambda>_. True) p" by auto
  qed
qed (simp add: always_Return)

lemma pool_always:
  assumes "pool starts s0 c" and "P s0" and "\<And>p. p \<in> starts \<Longrightarrow> always P (\<lambda>_. True) p"
  shows "P (snd c) \<and> list_all (always P (\<lambda>_. True)) (fst c)"
  using assms(1)
proof induction
  case (pool_step c c')
  from pool_step(2) show ?case
  proof cases
    case (poolAdvance i ts g s s' p)
    then have "always P (\<lambda>_. True) (Atomic g)" "P s" using pool_step(3) by (auto simp: list_all_length)
    then have "P s'" "always P (\<lambda>_. True) p" using poolAdvance always_AtomicE by metis+
    with poolAdvance pool_step(3) show ?thesis by (auto simp: list_all_length nth_list_update)
  qed (use pool_step(3) assms(3) in auto)
qed (simp add: assms(2))

end
