(* ===== verification/Driver_Context.thy ===== *)
theory Driver_Context
  imports Collect
begin

text \<open>
  What a driver call needs before the plugin runs and what is made of its output (\<open>driver/manager_resolve.go\<close>,
  \<open>driver/executor_exec.go\<close>, \<open>driver/version.go\<close>, \<open>driver/serial_native.go\<close>): the kind of a device's resource, the
  device's configuration and call context, the plugin function that is called, the fields of a result and the arguments of
  \<open>stty\<close>. A nil map is the empty one.
\<close>

section \<open>The kind of the resource\<close>

record Resource =
  rs_ID :: int
  rs_Name :: string
  rs_Type :: string
  rs_Path :: string
  rs_Enabled :: int

record Driver =
  dm_ID :: int
  dm_Name :: string
  dm_FilePath :: string
  dm_Version :: string
  dm_ConfigSchema :: string
  dm_Enabled :: int

definition lowerTrim :: "golib \<Rightarrow> string \<Rightarrow> string" where
  "lowerTrim L s = ToLower (uniLower L) (TrimSpace s)"

definition resolveDeviceResourceID :: "Device \<Rightarrow> int" where
  "resolveDeviceResourceID device = (case dev_ResourceID device of None \<Rightarrow> 0 | Some r \<Rightarrow> r)"

definition inferExplicitResourceType :: "golib \<Rightarrow> Device \<Rightarrow> string" where
  "inferExplicitResourceType L device =
     (let driverType = lowerTrim L (dev_DriverType device)
      in if Contains driverType ''tcp'' \<or> Contains driverType ''udp'' \<or> Contains driverType ''net'' then ''net''
         else if Contains driverType ''serial'' \<or> Contains driverType ''rtu'' then ''serial''
         else if dev_IPAddress device \<noteq> [] \<or> dev_PortNum device > 0 then ''net''
         else if dev_SerialPort device \<noteq> [] then ''serial''
         else [])"

definition inferResourceType :: "golib \<Rightarrow> Device \<Rightarrow> string" where
  "inferResourceType L device =
     (if dev_ResourceType device \<noteq> [] then lowerTrim L (dev_ResourceType device)
      else if inferExplicitResourceType L device \<noteq> [] then inferExplicitResourceType L device
      else ''serial'')"

section \<open>The configuration and the call context\<close>

definition putField :: "string \<Rightarrow> string \<Rightarrow> fieldMap \<Rightarrow> fieldMap" where
  "putField k v m = AList.update k v m"

definition appendSerialDeviceConfig :: "Device \<Rightarrow> fieldMap \<Rightarrow> fieldMap" where
  "appendSerialDeviceConfig device m =
     putField ''parity'' (dev_Parity device)
       (putField ''stop_bits'' (FormatInt (dev_StopBits device))
         (putField ''data_bits'' (FormatInt (dev_DataBits device))
           (putField ''baud_rate'' (FormatInt (dev_BaudRate device))
             (putField ''serial_port'' (dev_SerialPort device) m))))"

definition appendNetworkDeviceConfig :: "Device \<Rightarrow> fieldMap \<Rightarrow> fieldMap" where
  "appendNetworkDeviceConfig device m =
     putField ''port_num'' (FormatInt (dev_PortNum device)) (putField ''ip_address'' (dev_IPAddress device) m)"

definition buildDeviceConfigForResourceType :: "Device \<Rightarrow> string \<Rightarrow> fieldMap" where
  "buildDeviceConfigForResourceType device resourceType =
     (let m = (if resourceType = ''serial'' then appendSerialDeviceConfig device [] else appendNetworkDeviceConfig device []);
          m = (if dev_DeviceAddress device \<noteq> [] then putField ''device_address'' (dev_DeviceAddress device) m else m)
      in putField ''func_name'' ''read'' m)"

record DriverContext =
  dx_DeviceID :: int
  dx_DeviceName :: string
  dx_ResourceID :: int
  dx_ResourceType :: string
  dx_Config :: fieldMap
  dx_DeviceConfig :: string

definition buildDriverContext :: "Device \<Rightarrow> int \<Rightarrow> string \<Rightarrow> fieldMap \<Rightarrow> DriverContext" where
  "buildDriverContext device resourceID resourceType deviceConfig =
     \<lparr>dx_DeviceID = dev_ID device, dx_DeviceName = dev_Name device, dx_ResourceID = resourceID,
      dx_ResourceType = resourceType, dx_Config = deviceConfig, dx_DeviceConfig = []\<rparr>"

text \<open>A prepared call; its parts can be missing.\<close>

record PreparedExecution =
  pe_ResourceID :: int
  pe_ResourceType :: string
  pe_Config :: "fieldMap option"
  pe_DriverContext :: "DriverContext option"
  pe_InputJSON :: "string option"

definition preparedFor :: "(DriverContext \<Rightarrow> string) \<Rightarrow> Device \<Rightarrow> int \<times> string \<Rightarrow> PreparedExecution" where
  "preparedFor marshal device resource =
     (let config = buildDeviceConfigForResourceType device (snd resource);
          ctx = buildDriverContext device (fst resource) (snd resource) config
      in \<lparr>pe_ResourceID = fst resource, pe_ResourceType = snd resource, pe_Config = Some config,
          pe_DriverContext = Some ctx, pe_InputJSON = Some (marshal ctx)\<rparr>)"

definition preparedComplete :: "PreparedExecution option \<Rightarrow> bool" where
  "preparedComplete prepared \<longleftrightarrow>
     (case prepared of
        None \<Rightarrow> False
      | Some p \<Rightarrow> pe_DriverContext p \<noteq> None \<and> pe_Config p \<noteq> None \<and> pe_InputJSON p \<noteq> None)"

definition cloneDeviceConfig :: "fieldMap \<Rightarrow> fieldMap" where
  "cloneDeviceConfig base = fold (\<lambda>(key, v). putField key v) base []"

definition cloneDriverContext :: "DriverContext \<Rightarrow> fieldMap \<Rightarrow> DriverContext" where
  "cloneDriverContext base deviceConfig = base\<lparr>dx_Config := deviceConfig\<rparr>"

definition mergeDeviceConfig :: "fieldMap \<Rightarrow> fieldMap \<Rightarrow> fieldMap" where
  "mergeDeviceConfig base overrides =
     fold (\<lambda>(key, v) m. if TrimSpace key = [] then m else putField (TrimSpace key) v m) overrides base"

text \<open>The context and input of a call with overrides.\<close>

definition overriddenCall :: "(DriverContext \<Rightarrow> string) \<Rightarrow> fieldMap \<Rightarrow> fieldMap \<Rightarrow> DriverContext \<Rightarrow> string \<Rightarrow> DriverContext \<times> string" where
  "overriddenCall marshal overrides config ctx input =
     (if overrides = [] then (ctx, input)
      else let ctx = cloneDriverContext ctx (mergeDeviceConfig (cloneDeviceConfig config) overrides) in (ctx, marshal ctx))"

section \<open>The function of the plugin\<close>

definition defaultDriverFunction :: string where
  "defaultDriverFunction = ''handle''"

definition resolveExecutionFunction :: "string \<Rightarrow> string" where
  "resolveExecutionFunction function = (let resolved = TrimSpace function in if resolved = [] then defaultDriverFunction else resolved)"

definition shouldFallbackToHandle :: "golib \<Rightarrow> string \<Rightarrow> DriverContext \<Rightarrow> bool" where
  "shouldFallbackToHandle L function ctx =
     (let f = lowerTrim L function; g = lowerTrim L (mapGet (dx_Config ctx) ''func_name'')
      in if f = [] \<or> f = defaultDriverFunction then False
         else if f = ''read'' \<or> f = ''collect'' \<or> f = ''write'' then True
         else g = ''read'' \<or> g = ''collect'' \<or> g = ''write'')"

definition resolvePluginCallFunction :: "golib \<Rightarrow> (string \<Rightarrow> bool) \<Rightarrow> string \<Rightarrow> DriverContext \<Rightarrow> string" where
  "resolvePluginCallFunction L hasFunction function ctx =
     (let resolved = resolveExecutionFunction function
      in if hasFunction resolved then resolved
         else if shouldFallbackToHandle L resolved ctx \<and> hasFunction defaultDriverFunction then defaultDriverFunction
         else resolved)"

definition buildRecoverableDriverNames :: "golib \<Rightarrow> string \<Rightarrow> string list" where
  "buildRecoverableDriverNames L driverType =
     (let n = lowerTrim L driverType
      in if n = [] then []
         else if n = ''modbus_rtu'' then [n, ''th_modbusrtu'']
         else if n = ''modbus_tcp'' then [n, ''th_modbustcp'']
         else [n])"

definition parseDriverResourceID :: "(string \<Rightarrow> int option) \<Rightarrow> string \<Rightarrow> int" where
  "parseDriverResourceID unmarshal configSchema =
     (if TrimSpace configSchema = [] then 0 else case unmarshal configSchema of None \<Rightarrow> 0 | Some r \<Rightarrow> r)"

section \<open>The version of a driver\<close>

record driverVersionPayload =
  vp_Success :: bool
  vp_Version :: string
  vp_ProductKey :: string
  vp_Data :: "(string \<times> any) list"
  vp_Error :: string

definition parseDriverVersionOutput ::
  "(any \<Rightarrow> string) \<Rightarrow> (string \<Rightarrow> string + driverVersionPayload) \<Rightarrow> string \<Rightarrow> string + string \<times> string" where
  "parseDriverVersionOutput sprint unmarshal out =
     (case unmarshal out of
        Inl e \<Rightarrow> Inl e
      | Inr p \<Rightarrow>
          if \<not> vp_Success p then Inl (if vp_Error p \<noteq> [] then vp_Error p else ''version response not success'')
          else Inr (if vp_Version p = [] then (case map_of (vp_Data p) ''version'' of None \<Rightarrow> [] | Some v \<Rightarrow> sprint v) else vp_Version p,
                    if vp_ProductKey p = [] then
                      (case map_of (vp_Data p) ''productKey'' of
                         Some v \<Rightarrow> sprint v
                       | None \<Rightarrow> (case map_of (vp_Data p) ''product_key'' of None \<Rightarrow> [] | Some v \<Rightarrow> sprint v))
                    else vp_ProductKey p))"

section \<open>The fields of a result\<close>

text \<open>\<open>strconv.FormatFloat\<close> with six digits after the point is the argument \<open>fixed\<close>.\<close>

definition formatDriverValue :: "(nat \<Rightarrow> float64 \<Rightarrow> string) \<Rightarrow> any \<Rightarrow> string" where
  "formatDriverValue fixed v =
     (case v of
        AnyNil \<Rightarrow> []
      | AnyString s \<Rightarrow> s
      | AnyBytes s \<Rightarrow> s
      | AnyBool b \<Rightarrow> FormatBool b
      | AnyInt _ i \<Rightarrow> FormatInt i
      | AnyUint _ n \<Rightarrow> FormatUint n
      | AnyFloat32 f \<Rightarrow> fixed 32 f
      | AnyFloat64 f \<Rightarrow> fixed 64 f
      | AnyOther s \<Rightarrow> s)"

definition canReuseResultData :: "fieldMap \<Rightarrow> bool" where
  "canReuseResultData data =
     list_all (\<lambda>(key, _). let name = trimDriverFieldName key in name \<noteq> [] \<and> key = name \<and> \<not> isNormalizedDriverIdentityField name) data"

definition putResultField :: "string \<Rightarrow> string \<Rightarrow> fieldMap \<Rightarrow> fieldMap" where
  "putResultField key v m =
     (let name = trimDriverFieldName key in if name = [] \<or> isNormalizedDriverIdentityField name then m else putField name v m)"

definition mapResultFields :: "(nat \<Rightarrow> float64 \<Rightarrow> string) \<Rightarrow> DriverResult option \<Rightarrow> fieldMap" where
  "mapResultFields fixed result =
     (case result of
        None \<Rightarrow> []
      | Some r \<Rightarrow>
          if dr_Points r \<noteq> [] then fold (\<lambda>p. putResultField (cp_FieldName p) (formatDriverValue fixed (cp_Value p))) (dr_Points r) []
          else if dr_Data r = [] then []
          else if canReuseResultData (dr_Data r) then dr_Data r
          else fold (\<lambda>(key, v). putResultField key v) (dr_Data r) [])"

section \<open>The serial port's settings\<close>

record serialOpenMode =
  sm_BaudRate :: int
  sm_DataBits :: int
  sm_Parity :: string
  sm_StopBits :: int

definition serialModeOf :: "golib \<Rightarrow> Device \<Rightarrow> serialOpenMode" where
  "serialModeOf L device =
     (let parity = ToUpper (uniUpper L) (TrimSpace (dev_Parity device))
      in \<lparr>sm_BaudRate = (if dev_BaudRate device = 0 then 9600 else dev_BaudRate device),
          sm_DataBits = (if dev_DataBits device < 5 \<or> dev_DataBits device > 8 then 8 else dev_DataBits device),
          sm_Parity = (if parity = [] then ''N'' else parity),
          sm_StopBits = (if dev_StopBits device \<noteq> 2 then 1 else dev_StopBits device)\<rparr>)"

definition buildSttyArgs :: "bool \<Rightarrow> string \<Rightarrow> serialOpenMode \<Rightarrow> string + string list" where
  "buildSttyArgs darwin path mode =
     (if path = [] then Inl ''serial path is empty''
      else let baud = (if sm_BaudRate mode \<le> 0 then 9600 else sm_BaudRate mode);
               bits = (if sm_DataBits mode < 5 \<or> sm_DataBits mode > 8 then 8 else sm_DataBits mode)
           in Inr ([if darwin then ''-f'' else ''-F'', path, FormatInt baud, ''cs'' @ FormatInt bits,
                    if sm_StopBits mode = 2 then ''cstopb'' else ''-cstopb''] @
                   (if sm_Parity mode = ''E'' \<or> sm_Parity mode = ''EVEN'' then [''parenb'', ''-parodd'']
                    else if sm_Parity mode = ''O'' \<or> sm_Parity mode = ''ODD'' then [''parenb'', ''parodd'']
                    else [''-parenb'']) @ [''raw'', ''-echo'']))"

section \<open>Lemmas\<close>

lemma putField_map [simp]: "map_of (putField k v m) = (map_of m)(k \<mapsto> v)"
  by (simp add: putField_def update_conv')

lemma putField_distinct [intro]: "distinct (map fst m) \<Longrightarrow> distinct (map fst (putField k v m))"
  by (simp add: putField_def distinct_update)

text \<open>The fields of a result: for every name the last value whose trimmed key it is.\<close>

definition cleanField :: "string \<times> string \<Rightarrow> (string \<times> string) option" where
  "cleanField kv = (let name = TrimSpace (fst kv) in if name = [] \<or> isNormalizedDriverIdentityField name then None else Some (name, snd kv))"

lemma putResultField_map:
  "map_of (putResultField k v m) = map_of m ++ (case cleanField (k, v) of None \<Rightarrow> Map.empty | Some (n, w) \<Rightarrow> [n \<mapsto> w])"
  by (simp add: putResultField_def cleanField_def Let_def trim_simps)

lemma fold_putResultField:
  "map_of (fold (\<lambda>(key, v). putResultField key v) data m) = map_of m ++ map_of (rev (List.map_filter cleanField data))"
proof (induction data arbitrary: m)
  case (Cons x xs)
  obtain k v where x: "x = (k, v)" by force
  have "map_of (rev (List.map_filter cleanField (x # xs))) =
      (case cleanField (k, v) of None \<Rightarrow> Map.empty | Some (n, w) \<Rightarrow> [n \<mapsto> w]) ++ map_of (rev (List.map_filter cleanField xs))"
    by (simp add: x map_filter_simps split: option.split)
  then show ?case by (simp add: Cons.IH x putResultField_map map_add_assoc)
qed (simp add: map_filter_simps)

text \<open>The reuse of the data map changes nothing: the loop would build the same map.\<close>

lemma reuse_transparent:
  assumes "canReuseResultData data" and "distinct (map fst data)"
  shows "map_of (rev (List.map_filter cleanField data)) = map_of data"
proof -
  have "List.map_filter cleanField data = data"
    using assms(1)
    by (induction data) (auto simp: map_filter_simps cleanField_def canReuseResultData_def Let_def trim_simps)
  then show ?thesis using map_of_inject_set[of "rev data" data] assms(2) by (simp add: rev_map[symmetric])
qed

definition resultPairs :: "(nat \<Rightarrow> float64 \<Rightarrow> string) \<Rightarrow> DriverResult \<Rightarrow> (string \<times> string) list" where
  "resultPairs fixed r =
     (if dr_Points r \<noteq> [] then map (\<lambda>p. (cp_FieldName p, formatDriverValue fixed (cp_Value p))) (dr_Points r) else dr_Data r)"

lemma mapResultFields_pairs:
  assumes "distinct (map fst (dr_Data r))"
  shows "map_of (mapResultFields fixed (Some r)) = map_of (rev (List.map_filter cleanField (resultPairs fixed r)))"
proof -
  have points: "fold (\<lambda>p. putResultField (cp_FieldName p) (f p)) ps m =
      fold (\<lambda>(key, v). putResultField key v) (map (\<lambda>p. (cp_FieldName p, f p)) ps) m" for ps m and f :: "CollectPoint \<Rightarrow> string"
    by (induction ps arbitrary: m) auto
  show ?thesis
    using reuse_transparent[OF _ assms]
    by (simp add: mapResultFields_def resultPairs_def points fold_putResultField map_filter_simps)
qed

end
