(* ===== verification/Driver_Runtime.thy ===== *)
theory Driver_Runtime
  imports Go_Routines Driver_Context
begin

text \<open>
  The driver manager and the driver executor as goroutines (\<open>driver/manager.go\<close>, \<open>executor.go\<close>, \<open>executor_exec.go\<close>,
  \<open>manager_resolve.go\<close>, the host functions \<open>hostfuncs_*.go\<close>, \<open>wasm_exec.go\<close>, \<open>wasm_loader.go\<close>). A section under \<open>e.mu\<close> or
  \<open>m.mu\<close> is one atomic step; the resource mutexes, which are held across a call of the plugin, block. The plugin's code is
  not under \<open>src/\<close>: it is any tree of host calls. The database, the serial ports, the network and the WebAssembly host answer
  from \<open>driverEnv\<close>, each answer with its number. Waiting between two tries is left out.
\<close>

section \<open>Plugins\<close>

type_synonym rawBytes = "8 word list"

text \<open>A host call: the words of its stack and, where it reads the plugin's memory, the bytes that are there.\<close>

datatype hostCall =
    SerialRead "64 word" "64 word"
  | SerialWrite "64 word" "64 word" rawBytes
  | SerialTransceive "64 word" "64 word" "64 word" "64 word" "64 word" rawBytes
  | TCPTransceive "64 word" "64 word" "64 word" "64 word" "64 word" rawBytes
  | SleepMs "64 word"

text \<open>The word it leaves on the stack, and what it writes to the memory and where.\<close>

type_synonym hostReply = "64 word \<times> (32 word \<times> rawBytes) option"

datatype callFailure = CallDeadline string | CallCanceled string | CallFailed string

text \<open>The code's return value and output, the output that \<open>GetOutput\<close> gives and the plugin's error text.\<close>

datatype wasm =
    Finish "callFailure + 32 word \<times> string \<times> string \<times> string"
  | HostCall hostCall "hostReply \<Rightarrow> wasm"

section \<open>The state\<close>

record tcpConn =
  cn_ref :: nat
  cn_address :: string

record WasmDriver =
  wd_ID :: int
  wd_Name :: string
  wd_plugin :: nat
  wd_config :: string
  wd_resourceID :: int
  wd_exportedFunctions :: "string list"
  wd_version :: string
  wd_productKey :: string

record executorTimes =
  et_serialTimeout :: duration
  et_serialOpenRetries :: int
  et_serialOpenBackoff :: duration
  et_tcpDialTimeout :: duration
  et_tcpDialRetries :: int
  et_tcpDialBackoff :: duration
  et_tcpReadTimeout :: duration

text \<open>A running call of a plugin: the device and resource of its context, the driver, the plugin's instance and the
  resource that the instance was made for.\<close>

record pluginCall =
  pc_device :: int
  pc_resource :: int
  pc_driver :: int
  pc_plugin :: nat
  pc_boundTo :: int

record world =
  w_serialPorts :: "int \<rightharpoonup> nat"
  w_tcpConns :: "int \<rightharpoonup> tcpConn"
  w_resourcePaths :: "int \<rightharpoonup> string"
  w_resourceMux :: "int \<rightharpoonup> nat"
  w_locked :: "nat set"
  w_executing :: "int set"
  w_times :: executorTimes
  w_drivers :: "int \<rightharpoonup> WasmDriver"
  w_callTimeout :: duration
  w_lastActive :: "nat \<rightharpoonup> gotime"
  w_closed :: "nat set"
  w_calls :: "nat \<rightharpoonup> pluginCall"
  w_next :: nat
  w_asked :: nat

datatype driverError =
    ErrDriverNotFound string
  | ErrDriverExecutionFailed string
  | ErrDriverTimeout string
  | ErrDriverCanceled string
  | ErrDriverBadOutput string
  | OtherError string

datatype driverQueryError = NoRows | QueryError string

record driverEnv =
  de_lib :: golib
  de_hasDB :: bool
  de_loadResource :: "nat \<Rightarrow> int \<Rightarrow> string + Resource"
  de_loadDriver :: "nat \<Rightarrow> int \<Rightarrow> driverQueryError + Driver"
  de_driverByName :: "nat \<Rightarrow> string \<Rightarrow> driverQueryError + Driver"
  de_updateDeviceDriverID :: "nat \<Rightarrow> int \<Rightarrow> int \<Rightarrow> string option"
  de_updateDriverVersion :: "nat \<Rightarrow> int \<Rightarrow> string \<Rightarrow> string option"
  de_openSerial :: "nat \<Rightarrow> string \<Rightarrow> serialOpenMode \<Rightarrow> string option"
  de_serialRead :: "nat \<Rightarrow> nat \<Rightarrow> nat \<Rightarrow> rawBytes \<times> string option"
  de_serialWrite :: "nat \<Rightarrow> nat \<Rightarrow> rawBytes \<Rightarrow> string + nat"
  de_serialReads :: "nat \<Rightarrow> nat \<Rightarrow> duration \<Rightarrow> (rawBytes \<times> string option \<times> duration) list"
  de_dial :: "nat \<Rightarrow> string \<Rightarrow> duration \<Rightarrow> string option"
  de_tcpWrite :: "nat \<Rightarrow> nat \<Rightarrow> rawBytes \<Rightarrow> string option"
  de_tcpStream :: "nat \<Rightarrow> nat \<Rightarrow> duration \<Rightarrow> rawBytes"
  de_readFile :: "nat \<Rightarrow> string \<Rightarrow> string option"
  de_cwd :: "string option"
  de_executableDir :: "string option"
  de_join :: "string list \<Rightarrow> string"
  de_newPlugin :: "nat \<Rightarrow> string \<Rightarrow> string \<Rightarrow> int \<Rightarrow> string option"
  de_exports :: "nat \<Rightarrow> string list"
  de_functionExists :: "nat \<Rightarrow> string \<Rightarrow> bool"
  de_versionCall :: "nat \<Rightarrow> nat \<Rightarrow> string + string \<times> string \<times> string"
  de_code :: "nat \<Rightarrow> nat \<Rightarrow> string \<Rightarrow> string \<Rightarrow> duration \<Rightarrow> wasm"
  de_marshalInput :: "DriverContext \<Rightarrow> string"
  de_unmarshalResult :: "string \<Rightarrow> string + DriverResult"
  de_unmarshalProbe :: "string \<Rightarrow> driverIdentityProbe option"
  de_unmarshalResourceID :: "string \<Rightarrow> int option"
  de_unmarshalVersion :: "string \<Rightarrow> string + driverVersionPayload"
  de_sprint :: "any \<Rightarrow> string"
  de_now :: "nat \<Rightarrow> gotime"

definition ask :: "(nat \<Rightarrow> 'b) \<Rightarrow> (world, 'b) routine" where
  "ask f = act (\<lambda>w. (w\<lparr>w_asked := Suc (w_asked w)\<rparr>, f (w_asked w)))"

section \<open>The executor's tables\<close>

definition GetSerialPort :: "int \<Rightarrow> (world, nat option) routine" where
  "GetSerialPort r = look (\<lambda>w. w_serialPorts w r)"

definition GetResourcePath :: "int \<Rightarrow> (world, string) routine" where
  "GetResourcePath r = look (\<lambda>w. case w_resourcePaths w r of None \<Rightarrow> [] | Some path \<Rightarrow> path)"

definition RegisterSerialPort :: "int \<Rightarrow> nat \<Rightarrow> (world, unit) routine" where
  "RegisterSerialPort r port = change (\<lambda>w. w\<lparr>w_serialPorts := (w_serialPorts w)(r \<mapsto> port)\<rparr>)"

definition closeSerial :: "int \<Rightarrow> world \<Rightarrow> world" where
  "closeSerial r w =
     (case w_serialPorts w r of
        None \<Rightarrow> w
      | Some port \<Rightarrow> w\<lparr>w_closed := insert port (w_closed w), w_serialPorts := (w_serialPorts w)(r := None)\<rparr>)"

definition closeTCP :: "int \<Rightarrow> world \<Rightarrow> world" where
  "closeTCP r w =
     (case w_tcpConns w r of
        None \<Rightarrow> w
      | Some c \<Rightarrow> w\<lparr>w_closed := insert (cn_ref c) (w_closed w), w_tcpConns := (w_tcpConns w)(r := None)\<rparr>)"

definition UnregisterSerialPort :: "int \<Rightarrow> (world, unit) routine" where
  "UnregisterSerialPort r = change (closeSerial r)"

definition RegisterTCP :: "int \<Rightarrow> tcpConn \<Rightarrow> (world, unit) routine" where
  "RegisterTCP r c = change (\<lambda>w. w\<lparr>w_tcpConns := (w_tcpConns w)(r \<mapsto> c)\<rparr>)"

definition UnregisterTCP :: "int \<Rightarrow> (world, unit) routine" where
  "UnregisterTCP r = change (closeTCP r)"

definition setPath :: "int \<Rightarrow> string \<Rightarrow> world \<Rightarrow> world" where
  "setPath r path w =
     (let path = TrimSpace path;
          w = (case w_resourcePaths w r of
                 None \<Rightarrow> w
               | Some prev \<Rightarrow> if prev \<noteq> [] \<and> prev \<noteq> path then closeTCP r w else w)
      in if path = [] then w\<lparr>w_resourcePaths := (w_resourcePaths w)(r := None)\<rparr>
         else w\<lparr>w_resourcePaths := (w_resourcePaths w)(r \<mapsto> path)\<rparr>)"

definition SetResourcePath :: "int \<Rightarrow> string \<Rightarrow> (world, unit) routine" where
  "SetResourcePath r path = change (setPath r path)"

definition CloseResource :: "int \<Rightarrow> (world, unit) routine" where
  "CloseResource r =
     change (\<lambda>w. let w = closeTCP r (closeSerial r w)
       in w\<lparr>w_resourcePaths := (w_resourcePaths w)(r := None), w_resourceMux := (w_resourceMux w)(r := None)\<rparr>)"

text \<open>\<open>CloseAllResources\<close> ranges over its tables: \<open>ids\<close> are their keys.\<close>

definition CloseAllResources :: "int list \<Rightarrow> (world, unit) routine" where
  "CloseAllResources ids =
     change (\<lambda>w. (fold closeTCP ids (fold closeSerial ids w))\<lparr>w_resourcePaths := Map.empty, w_resourceMux := Map.empty\<rparr>)"

definition RefreshResource :: "driverEnv \<Rightarrow> Resource option \<Rightarrow> (world, unit) routine" where
  "RefreshResource E resource =
     (case resource of
        None \<Rightarrow> Return ()
      | Some res \<Rightarrow>
          if rs_ID res \<le> 0 then Return ()
          else if rs_Enabled res \<noteq> 1 then CloseResource (rs_ID res)
          else if lowerTrim (de_lib E) (rs_Type res) \<noteq> ''net'' then CloseResource (rs_ID res)
          else SetResourcePath (rs_ID res) (rs_Path res))"

definition SetTimeouts :: "duration \<Rightarrow> duration \<Rightarrow> duration \<Rightarrow> (world, unit) routine" where
  "SetTimeouts serialRead tcpDial tcpRead =
     change (\<lambda>w. w\<lparr>w_times := (w_times w)\<lparr>et_serialTimeout := serialRead, et_tcpDialTimeout := tcpDial, et_tcpReadTimeout := tcpRead\<rparr>\<rparr>)"

definition SetRetries :: "int \<Rightarrow> int \<Rightarrow> duration \<Rightarrow> duration \<Rightarrow> (world, unit) routine" where
  "SetRetries serialOpen tcpDial serialBackoff tcpBackoff =
     change (\<lambda>w. w\<lparr>w_times := (w_times w)\<lparr>et_serialOpenRetries := max 0 serialOpen, et_tcpDialRetries := max 0 tcpDial,
       et_serialOpenBackoff := serialBackoff, et_tcpDialBackoff := tcpBackoff\<rparr>\<rparr>)"

definition serialReadTimeout :: "executorTimes \<Rightarrow> duration" where
  "serialReadTimeout t = (if et_serialTimeout t > 0 then et_serialTimeout t else 200 * Millisecond)"

definition serialOpenAttempts :: "executorTimes \<Rightarrow> int" where
  "serialOpenAttempts t = (if et_serialOpenRetries t < 0 then 1 else et_serialOpenRetries t + 1)"

definition tcpDialTimeout :: "executorTimes \<Rightarrow> duration" where
  "tcpDialTimeout t = (if et_tcpDialTimeout t > 0 then et_tcpDialTimeout t else 5 * Second)"

definition tcpDialAttempts :: "executorTimes \<Rightarrow> int" where
  "tcpDialAttempts t = (if et_tcpDialRetries t < 0 then 1 else et_tcpDialRetries t + 1)"

definition tcpReadTimeout :: "executorTimes \<Rightarrow> duration" where
  "tcpReadTimeout t = (if et_tcpReadTimeout t > 0 then et_tcpReadTimeout t else 500 * Millisecond)"

section \<open>The locks\<close>

definition lockMutex :: "nat \<Rightarrow> (world, unit) routine" where
  "lockMutex m = Atomic (\<lambda>w. if m \<in> w_locked w then None else Some (w\<lparr>w_locked := insert m (w_locked w)\<rparr>, Return ()))"

definition unlockMutex :: "nat \<Rightarrow> (world, unit) routine" where
  "unlockMutex m = change (\<lambda>w. w\<lparr>w_locked := w_locked w - {m}\<rparr>)"

definition loadOrStoreLock :: "int \<Rightarrow> (world, nat) routine" where
  "loadOrStoreLock r =
     act (\<lambda>w. case w_resourceMux w r of
       Some m \<Rightarrow> (w, m)
     | None \<Rightarrow> (w\<lparr>w_resourceMux := (w_resourceMux w)(r \<mapsto> w_next w), w_next := Suc (w_next w)\<rparr>, w_next w))"

definition getResourceLock :: "int \<Rightarrow> (world, nat) routine" where
  "getResourceLock r =
     andThen (look (\<lambda>w. w_resourceMux w r)) (\<lambda>l. case l of Some m \<Rightarrow> Return m | None \<Rightarrow> loadOrStoreLock r)"

definition lockResource :: "int \<Rightarrow> (world, nat option) routine" where
  "lockResource r =
     (if r \<le> 0 then Return None
      else andThen (getResourceLock r) (\<lambda>m. andThen (lockMutex m) (\<lambda>_. Return (Some m))))"

definition unlockResource :: "nat option \<Rightarrow> (world, unit) routine" where
  "unlockResource l = (case l of None \<Rightarrow> Return () | Some m \<Rightarrow> unlockMutex m)"

definition startExecution :: "Device \<Rightarrow> (world, driverError option) routine" where
  "startExecution device =
     act (\<lambda>w. if dev_ID device \<in> w_executing w
       then (w, Some (OtherError (''device '' @ dev_Name device @ '' is already being read'')))
       else (w\<lparr>w_executing := insert (dev_ID device) (w_executing w)\<rparr>, None))"

definition endExecution :: "Device \<Rightarrow> (world, unit) routine" where
  "endExecution device = change (\<lambda>w. w\<lparr>w_executing := w_executing w - {dev_ID device}\<rparr>)"

section \<open>Serial ports and connections\<close>

definition openSerialPort :: "driverEnv \<Rightarrow> string \<Rightarrow> serialOpenMode \<Rightarrow> (world, string + nat) routine" where
  "openSerialPort E path mode =
     act (\<lambda>w. case de_openSerial E (w_asked w) path mode of
       Some e \<Rightarrow> (w\<lparr>w_asked := Suc (w_asked w)\<rparr>, Inl e)
     | None \<Rightarrow> (w\<lparr>w_asked := Suc (w_asked w), w_next := Suc (w_next w)\<rparr>, Inr (w_next w)))"

primrec openTries :: "driverEnv \<Rightarrow> string \<Rightarrow> serialOpenMode \<Rightarrow> string \<Rightarrow> nat \<Rightarrow> (world, string + nat) routine" where
  "openTries E path mode err 0 = Return (Inl err)"
| "openTries E path mode err (Suc n) =
     andThen (openSerialPort E path mode)
       (\<lambda>r. case r of Inr port \<Rightarrow> Return (Inr port) | Inl e \<Rightarrow> openTries E path mode e n)"

definition ensureSerialPort :: "driverEnv \<Rightarrow> int \<Rightarrow> Device \<Rightarrow> (world, string option) routine" where
  "ensureSerialPort E r device =
     (if r \<le> 0 then Return (Some ''invalid resource id'')
      else andThen (GetSerialPort r) (\<lambda>port.
        if port \<noteq> None then Return None
        else andThen (ask (\<lambda>k. de_loadResource E k r)) (\<lambda>answer.
          case answer of
            Inl e \<Rightarrow> Return (Some (''get resource '' @ FormatInt r @ '' failed: '' @ e))
          | Inr res \<Rightarrow>
              if rs_Type res \<noteq> ''serial'' then Return (Some (''resource '' @ FormatInt r @ '' type '' @ rs_Type res @ '' is not serial''))
              else if rs_Path res = [] then Return (Some (''resource '' @ FormatInt r @ '' path is empty''))
              else andThen (look (\<lambda>w. serialOpenAttempts (w_times w))) (\<lambda>attempts.
                andThen (openTries E (rs_Path res) (serialModeOf (de_lib E) device) [] (nat attempts)) (\<lambda>opened.
                  case opened of
                    Inl e \<Rightarrow> Return (Some (''open serial '' @ rs_Path res @ '' failed: '' @ e))
                  | Inr port \<Rightarrow> andThen (RegisterSerialPort r port) (\<lambda>_. Return None))))))"

definition tcpDial :: "driverEnv \<Rightarrow> string \<Rightarrow> duration \<Rightarrow> (world, string + tcpConn) routine" where
  "tcpDial E address timeout =
     act (\<lambda>w. case de_dial E (w_asked w) address timeout of
       Some e \<Rightarrow> (w\<lparr>w_asked := Suc (w_asked w)\<rparr>, Inl e)
     | None \<Rightarrow> (w\<lparr>w_asked := Suc (w_asked w), w_next := Suc (w_next w)\<rparr>, Inr \<lparr>cn_ref = w_next w, cn_address = address\<rparr>))"

primrec dialTries :: "driverEnv \<Rightarrow> string \<Rightarrow> duration \<Rightarrow> nat \<Rightarrow> (world, tcpConn option) routine" where
  "dialTries E address timeout 0 = Return None"
| "dialTries E address timeout (Suc n) =
     andThen (tcpDial E address timeout) (\<lambda>r. case r of Inr c \<Rightarrow> Return (Some c) | Inl e \<Rightarrow> dialTries E address timeout n)"

text \<open>The second check after the dial: a connection that was registered meanwhile wins and the new one is closed.\<close>

definition registerDialled :: "int \<Rightarrow> tcpConn \<Rightarrow> (world, tcpConn) routine" where
  "registerDialled r c =
     act (\<lambda>w. case w_tcpConns w r of
       Some existing \<Rightarrow> (w\<lparr>w_closed := insert (cn_ref c) (w_closed w)\<rparr>, existing)
     | None \<Rightarrow> (w\<lparr>w_tcpConns := (w_tcpConns w)(r \<mapsto> c)\<rparr>, c))"

definition dialLocked :: "driverEnv \<Rightarrow> int \<Rightarrow> string \<Rightarrow> (world, tcpConn option) routine" where
  "dialLocked E r path =
     andThen (look (\<lambda>w. w_tcpConns w r)) (\<lambda>conn. case conn of Some c \<Rightarrow> Return (Some c) | None \<Rightarrow>
       andThen (look (\<lambda>w. tcpDialTimeout (w_times w))) (\<lambda>timeout.
         andThen (look (\<lambda>w. tcpDialAttempts (w_times w))) (\<lambda>attempts.
           andThen (dialTries E path timeout (nat attempts)) (\<lambda>dialled.
             case dialled of None \<Rightarrow> Return None
             | Some c \<Rightarrow> andThen (registerDialled r c) (\<lambda>c. Return (Some c))))))"

definition GetTCPConn :: "driverEnv \<Rightarrow> int \<Rightarrow> (world, tcpConn option) routine" where
  "GetTCPConn E r =
     andThen (look (\<lambda>w. w_tcpConns w r)) (\<lambda>conn. case conn of Some c \<Rightarrow> Return (Some c) | None \<Rightarrow>
       andThen (GetResourcePath r) (\<lambda>path.
         if path = [] then Return None
         else andThen (lockResource r) (\<lambda>l.
           andThen (dialLocked E r path) (\<lambda>c. andThen (unlockResource l) (\<lambda>_. Return c)))))"

section \<open>The host functions\<close>

definition validI64Ptr :: "64 word \<Rightarrow> bool" where
  "validI64Ptr ptr \<longleftrightarrow> ptr \<noteq> 0 \<and> ptr \<le> 0xFFFFFFFF"

definition validI64PtrSize :: "64 word \<Rightarrow> int \<Rightarrow> bool" where
  "validI64PtrSize ptr sz \<longleftrightarrow> validI64Ptr ptr \<and> sz > 0"

text \<open>\<open>readModbusTCPResponse\<close> on the bytes that arrive before the deadline or the end.\<close>

definition readModbusTCPResponse :: "rawBytes \<Rightarrow> nat \<Rightarrow> string + rawBytes" where
  "readModbusTCPResponse stream bufLen =
     (if bufLen < 9 then Inl ''short buffer''
      else if length stream < 7 then Inl ''unexpected EOF''
      else let len = 256 * unat (stream ! 4) + unat (stream ! 5); total = 6 + len
           in if len < 2 then Inl ''unexpected EOF''
              else if total > bufLen then Inl ''short buffer''
              else if length stream < total then Inl ''unexpected EOF''
              else Inr (take total stream))"

text \<open>The answers of the port: the bytes of a read, its error and the time that remains then.\<close>

fun readWithTimeout :: "(rawBytes \<times> string option \<times> duration) list \<Rightarrow> nat \<Rightarrow> rawBytes \<Rightarrow> rawBytes \<times> string option" where
  "readWithTimeout answers expect got =
     (if length got \<ge> expect then (got, None)
      else case answers of
        [] \<Rightarrow> (got, Some ''timeout'')
      | (bytes, err, remaining) # rest \<Rightarrow>
          let got = got @ take (expect - length got) bytes
          in if err \<noteq> None then (got, err)
             else if length got \<ge> expect then (got, None)
             else if bytes = [] \<and> remaining \<le> 0 then (got, Some ''timeout'')
             else readWithTimeout rest expect got)"

declare readWithTimeout.simps [simp del]

definition hostTimeout :: "64 word \<Rightarrow> duration \<Rightarrow> duration" where
  "hostTimeout ms other = (let t = wrap64 (sint ms * Millisecond) in if t \<le> 0 then other else t)"

definition hostReplyOf :: "64 word \<Rightarrow> rawBytes \<Rightarrow> hostReply" where
  "hostReplyOf ptr bytes = (of_nat (length bytes), Some (ucast ptr, bytes))"

definition serial_read :: "driverEnv \<Rightarrow> int \<Rightarrow> 64 word \<Rightarrow> 64 word \<Rightarrow> (world, hostReply) routine" where
  "serial_read E r ptr sz =
     (if \<not> validI64PtrSize ptr (sint sz) then Return (0, None)
      else andThen (GetSerialPort r) (\<lambda>port. case port of None \<Rightarrow> Return (0, None)
        | Some p \<Rightarrow> andThen (ask (\<lambda>k. de_serialRead E k p (nat (sint sz)))) (\<lambda>(bytes, err).
            if err \<noteq> None then Return (0, None) else Return (hostReplyOf ptr (take (nat (sint sz)) bytes)))))"

definition serial_write :: "driverEnv \<Rightarrow> int \<Rightarrow> 64 word \<Rightarrow> 64 word \<Rightarrow> rawBytes \<Rightarrow> (world, hostReply) routine" where
  "serial_write E r ptr sz data =
     (if \<not> validI64PtrSize ptr (sint sz) then Return (0, None)
      else andThen (GetSerialPort r) (\<lambda>port. case port of None \<Rightarrow> Return (0, None)
        | Some p \<Rightarrow> andThen (ask (\<lambda>k. de_serialWrite E k p data)) (\<lambda>answer.
            case answer of Inl e \<Rightarrow> Return (0, None) | Inr n \<Rightarrow> Return (of_nat n, None))))"

definition serial_transceive ::
  "driverEnv \<Rightarrow> int \<Rightarrow> 64 word \<Rightarrow> 64 word \<Rightarrow> 64 word \<Rightarrow> 64 word \<Rightarrow> 64 word \<Rightarrow> rawBytes \<Rightarrow> (world, hostReply) routine" where
  "serial_transceive E r wPtr wSize rPtr rCap timeoutMs req =
     andThen (GetSerialPort r) (\<lambda>port. case port of None \<Rightarrow> Return (0, None)
       | Some p \<Rightarrow>
           if sint wSize \<le> 0 \<or> sint rCap \<le> 0 then Return (0, None)
           else if \<not> validI64Ptr wPtr \<or> \<not> validI64Ptr rPtr then Return (0, None)
           else andThen (ask (\<lambda>k. de_serialWrite E k p req)) (\<lambda>answer. case answer of Inl e \<Rightarrow> Return (0, None)
             | Inr n \<Rightarrow>
                 andThen (look (\<lambda>w. hostTimeout timeoutMs (serialReadTimeout (w_times w)))) (\<lambda>tout.
                   andThen (ask (\<lambda>k. readWithTimeout (de_serialReads E k p tout) (nat (sint rCap)) [])) (\<lambda>(bytes, err).
                     if bytes = [] then Return (0, None) else Return (hostReplyOf rPtr bytes)))))"

definition tcp_transceive ::
  "driverEnv \<Rightarrow> int \<Rightarrow> 64 word \<Rightarrow> 64 word \<Rightarrow> 64 word \<Rightarrow> 64 word \<Rightarrow> 64 word \<Rightarrow> rawBytes \<Rightarrow> (world, hostReply) routine" where
  "tcp_transceive E r wPtr wSize rPtr rCap timeoutMs req =
     andThen (GetTCPConn E r) (\<lambda>conn. case conn of None \<Rightarrow> Return (0, None)
       | Some c \<Rightarrow>
           if sint wSize \<le> 0 \<or> sint rCap \<le> 0 then Return (0, None)
           else if \<not> validI64Ptr wPtr \<or> \<not> validI64Ptr rPtr then Return (0, None)
           else andThen (ask (\<lambda>k. de_tcpWrite E k (cn_ref c) req)) (\<lambda>err.
             if err \<noteq> None then andThen (UnregisterTCP r) (\<lambda>_. Return (0, None))
             else andThen (look (\<lambda>w. hostTimeout timeoutMs (tcpReadTimeout (w_times w)))) (\<lambda>tout.
               andThen (ask (\<lambda>k. readModbusTCPResponse (de_tcpStream E k (cn_ref c) tout) (nat (sint rCap)))) (\<lambda>answer.
                 case answer of
                   Inl e \<Rightarrow> andThen (UnregisterTCP r) (\<lambda>_. Return (0, None))
                 | Inr frame \<Rightarrow> Return (hostReplyOf rPtr frame)))))"

fun hostFunction :: "driverEnv \<Rightarrow> int \<Rightarrow> hostCall \<Rightarrow> (world, hostReply) routine" where
  "hostFunction E r (SerialRead ptr sz) = serial_read E r ptr sz"
| "hostFunction E r (SerialWrite ptr sz data) = serial_write E r ptr sz data"
| "hostFunction E r (SerialTransceive wPtr wSize rPtr rCap t req) = serial_transceive E r wPtr wSize rPtr rCap t req"
| "hostFunction E r (TCPTransceive wPtr wSize rPtr rCap t req) = tcp_transceive E r wPtr wSize rPtr rCap t req"
| "hostFunction E r (SleepMs ms) = Return (ms, None)"

primrec interp ::
  "driverEnv \<Rightarrow> int \<Rightarrow> wasm \<Rightarrow> (world, callFailure + 32 word \<times> string \<times> string \<times> string) routine" where
  "interp E r (Finish out) = Return out"
| "interp E r (HostCall c k) = andThen (hostFunction E r c) (\<lambda>reply. interp E r (k reply))"

section \<open>The driver manager\<close>

definition IsLoaded :: "int \<Rightarrow> (world, bool) routine" where
  "IsLoaded d = look (\<lambda>w. w_drivers w d \<noteq> None)"

definition GetDriver :: "int \<Rightarrow> (world, WasmDriver option) routine" where
  "GetDriver d = look (\<lambda>w. w_drivers w d)"

definition SetCallTimeout :: "duration \<Rightarrow> (world, unit) routine" where
  "SetCallTimeout t = change (\<lambda>w. w\<lparr>w_callTimeout := t\<rparr>)"

definition hasFunction :: "driverEnv \<Rightarrow> WasmDriver \<Rightarrow> string \<Rightarrow> bool" where
  "hasFunction E d name =
     (if wd_exportedFunctions d \<noteq> [] then name \<in> set (wd_exportedFunctions d) else de_functionExists E (wd_plugin d) name)"

text \<open>The version call of a plugin: an error, or its output, that of \<open>GetOutput\<close> and the error text.\<close>

definition extractDriverMetadataFromPlugin :: "driverEnv \<Rightarrow> nat \<Rightarrow> nat \<Rightarrow> string + string \<times> string" where
  "extractDriverMetadataFromPlugin E k plugin =
     (if \<not> de_functionExists E plugin ''version'' then Inr ([], [])
      else case de_versionCall E k plugin of
             Inl e \<Rightarrow> Inl e
           | Inr (out, alt, msg) \<Rightarrow>
               let out = (if out = [] then alt else out)
               in if out = [] then Inl (if msg \<noteq> [] then ''driver version error: '' @ msg else ''driver version output empty'')
                  else parseDriverVersionOutput (de_sprint E) (de_unmarshalVersion E) out)"

text \<open>\<open>LoadDriver\<close> keeps \<open>m.mu\<close> while it makes the plugin and asks for the version.\<close>

definition loadSection :: "driverEnv \<Rightarrow> Driver \<Rightarrow> string \<Rightarrow> int \<Rightarrow> world \<Rightarrow> world \<times> string option" where
  "loadSection E drv wasmData resourceID w =
     (if w_drivers w (dm_ID drv) \<noteq> None then (w, Some (''driver '' @ FormatInt (dm_ID drv) @ '' already loaded''))
      else let r = (if resourceID = 0 then parseDriverResourceID (de_unmarshalResourceID E) (dm_ConfigSchema drv) else resourceID);
               k = w_asked w; plugin = w_next w; w = w\<lparr>w_asked := k + 2, w_next := Suc plugin\<rparr>
           in case de_newPlugin E k (dm_Name drv) wasmData r of
                Some e \<Rightarrow> (w, Some (''failed to create plugin: '' @ e))
              | None \<Rightarrow>
                  (case extractDriverMetadataFromPlugin E (Suc k) plugin of
                     Inl e \<Rightarrow> (w\<lparr>w_closed := insert plugin (w_closed w)\<rparr>, Some (''failed to extract driver metadata: '' @ e))
                   | Inr (version, productKey) \<Rightarrow>
                       (w\<lparr>w_lastActive := (w_lastActive w)(plugin \<mapsto> de_now E k),
                          w_drivers := (w_drivers w)(dm_ID drv \<mapsto>
                            \<lparr>wd_ID = dm_ID drv, wd_Name = dm_Name drv, wd_plugin = plugin, wd_config = dm_ConfigSchema drv,
                             wd_resourceID = r, wd_exportedFunctions = de_exports E plugin, wd_version = version,
                             wd_productKey = productKey\<rparr>)\<rparr>, None)))"

definition LoadDriver :: "driverEnv \<Rightarrow> Driver \<Rightarrow> string \<Rightarrow> int \<Rightarrow> (world, string option) routine" where
  "LoadDriver E drv wasmData resourceID =
     (if wasmData = [] then Return (Some ''driver wasm is empty'') else act (loadSection E drv wasmData resourceID))"

definition UnloadDriver :: "int \<Rightarrow> (world, driverError option) routine" where
  "UnloadDriver d =
     act (\<lambda>w. case w_drivers w d of
       None \<Rightarrow> (w, Some (ErrDriverNotFound []))
     | Some drv \<Rightarrow> (w\<lparr>w_closed := insert (wd_plugin drv) (w_closed w), w_drivers := (w_drivers w)(d := None)\<rparr>, None))"

text \<open>The only error of \<open>UnloadDriver\<close> is the one that \<open>ReloadDriver\<close> ignores.\<close>

definition ReloadDriver :: "driverEnv \<Rightarrow> Driver \<Rightarrow> string \<Rightarrow> int \<Rightarrow> (world, string option) routine" where
  "ReloadDriver E drv wasmData resourceID =
     andThen (IsLoaded (dm_ID drv)) (\<lambda>loaded.
       if loaded then andThen (UnloadDriver (dm_ID drv)) (\<lambda>_. LoadDriver E drv wasmData resourceID)
       else LoadDriver E drv wasmData resourceID)"

text \<open>\<open>readWasmFile\<close> tries the path alone, below the working directory, and beside and above the executable.\<close>

definition wasmCandidates :: "driverEnv \<Rightarrow> string \<Rightarrow> string list" where
  "wasmCandidates E path =
     path # (case de_cwd E of None \<Rightarrow> [] | Some cwd \<Rightarrow> [de_join E [cwd, path]]) @
     (case de_executableDir E of None \<Rightarrow> [] | Some base \<Rightarrow> [de_join E [base, path], de_join E [base, ''..'', path]])"

primrec readFirst :: "driverEnv \<Rightarrow> string list \<Rightarrow> (world, string option) routine" where
  "readFirst E [] = Return None"
| "readFirst E (path # paths) =
     andThen (ask (\<lambda>k. de_readFile E k path)) (\<lambda>answer. case answer of Some data \<Rightarrow> Return (Some data) | None \<Rightarrow> readFirst E paths)"

definition readWasmFile :: "driverEnv \<Rightarrow> string \<Rightarrow> (world, string + string) routine" where
  "readWasmFile E path =
     (if path = [] then Return (Inl ''empty wasm path'')
      else andThen (readFirst E (wasmCandidates E path)) (\<lambda>answer.
        case answer of Some data \<Rightarrow> Return (Inr data) | None \<Rightarrow> Return (Inl (''cannot read wasm file: '' @ path))))"

definition LoadDriverFromModel :: "driverEnv \<Rightarrow> Driver \<Rightarrow> int \<Rightarrow> (world, string option) routine" where
  "LoadDriverFromModel E drv resourceID =
     (let r = (if resourceID = 0 then parseDriverResourceID (de_unmarshalResourceID E) (dm_ConfigSchema drv) else resourceID)
      in if dm_FilePath drv = [] then Return (Some ''driver file path is empty'')
         else andThen (readWasmFile E (dm_FilePath drv)) (\<lambda>wasmData. case wasmData of
           Inl e \<Rightarrow> Return (Some (''read driver wasm failed: '' @ e))
         | Inr bytes \<Rightarrow> andThen (ReloadDriver E drv bytes r) (\<lambda>err. case err of
             Some e \<Rightarrow> Return (Some (''reload driver failed: '' @ e)) | None \<Rightarrow> Return None)))"

definition GetDriverVersion :: "driverEnv \<Rightarrow> int \<Rightarrow> (world, driverError + string) routine" where
  "GetDriverVersion E d =
     andThen (GetDriver d) (\<lambda>drv. case drv of
       None \<Rightarrow> Return (Inl (ErrDriverNotFound []))
     | Some drv \<Rightarrow>
         if wd_version drv \<noteq> [] then Return (Inr (wd_version drv))
         else ask (\<lambda>k. case extractDriverMetadataFromPlugin E k (wd_plugin drv) of
                Inl e \<Rightarrow> Inl (OtherError e) | Inr (version, _) \<Rightarrow> Inr version))"

section \<open>A call of the plugin\<close>

definition beginCall :: "DriverContext \<Rightarrow> int \<Rightarrow> WasmDriver \<Rightarrow> (world, nat) routine" where
  "beginCall ctx d drv =
     act (\<lambda>w. (w\<lparr>w_calls := (w_calls w)(w_next w \<mapsto> \<lparr>pc_device = dx_DeviceID ctx, pc_resource = dx_ResourceID ctx, pc_driver = d,
       pc_plugin = wd_plugin drv, pc_boundTo = wd_resourceID drv\<rparr>), w_next := Suc (w_next w)\<rparr>, w_next w))"

definition endCall :: "nat \<Rightarrow> (world, unit) routine" where
  "endCall i = change (\<lambda>w. w\<lparr>w_calls := (w_calls w)(i := None)\<rparr>)"

definition callPlugin ::
  "driverEnv \<Rightarrow> DriverContext \<Rightarrow> int \<Rightarrow> WasmDriver \<Rightarrow> string \<Rightarrow> string \<Rightarrow> duration \<Rightarrow> (world, driverError + string) routine" where
  "callPlugin E ctx d drv function input timeout =
     andThen (beginCall ctx d drv) (\<lambda>i.
       andThen (ask (\<lambda>k. de_code E (wd_plugin drv) k function input timeout)) (\<lambda>code.
         andThen (interp E (wd_resourceID drv) code) (\<lambda>answer. andThen (endCall i) (\<lambda>_. Return (case answer of
           Inl (CallDeadline e) \<Rightarrow> Inl (ErrDriverTimeout e)
         | Inl (CallCanceled e) \<Rightarrow> Inl (ErrDriverCanceled e)
         | Inl (CallFailed e) \<Rightarrow> Inl (ErrDriverExecutionFailed e)
         | Inr (rc, out, alt, msg) \<Rightarrow>
             let out = (if out = [] then alt else out)
             in if out = [] then Inl (ErrDriverBadOutput (if msg \<noteq> [] then ''plugin returned empty output: '' @ msg else ''plugin returned empty output''))
                else Inr out)))))"

definition executeDriverWithInput ::
  "driverEnv \<Rightarrow> int \<Rightarrow> string \<Rightarrow> DriverContext \<Rightarrow> string \<Rightarrow> (world, driverError + DriverResult) routine" where
  "executeDriverWithInput E d function ctx input =
     andThen (look (\<lambda>w. (w_drivers w d, w_callTimeout w))) (\<lambda>(drv, timeout). case drv of
       None \<Rightarrow> Return (Inl (ErrDriverNotFound []))
     | Some drv \<Rightarrow>
         andThen (act (\<lambda>w. (w\<lparr>w_lastActive := (w_lastActive w)(wd_plugin drv \<mapsto> de_now E (w_asked w)), w_asked := Suc (w_asked w)\<rparr>, ()))) (\<lambda>_.
           let callFunction = resolvePluginCallFunction (de_lib E) (hasFunction E drv) function ctx
           in if \<not> hasFunction E drv callFunction then Return (Inl (OtherError (''plugin function not found: '' @ function)))
              else andThen (callPlugin E ctx d drv callFunction input timeout) (\<lambda>answer. case answer of
                Inl e \<Rightarrow> Return (Inl e)
              | Inr out \<Rightarrow>
                  (case de_unmarshalResult E out of
                     Inl e \<Rightarrow> Return (Inl (ErrDriverBadOutput e))
                   | Inr result \<Rightarrow>
                       ask (\<lambda>k. Inr ((normalizeDriverResultIdentity (de_unmarshalProbe E) out result)\<lparr>dr_Timestamp := de_now E k\<rparr>))))))"

definition ExecuteDriver :: "driverEnv \<Rightarrow> int \<Rightarrow> string \<Rightarrow> DriverContext \<Rightarrow> (world, driverError + DriverResult) routine" where
  "ExecuteDriver E d function ctx = executeDriverWithInput E d function ctx (de_marshalInput E ctx)"

section \<open>The driver of a device\<close>

definition syncRecoveredDriverBinding :: "driverEnv \<Rightarrow> Device \<Rightarrow> Driver \<Rightarrow> (world, Device) routine" where
  "syncRecoveredDriverBinding E device drv =
     andThen (ask (\<lambda>k. de_updateDeviceDriverID E k (dev_ID device) (dm_ID drv))) (\<lambda>err.
       Return (if err \<noteq> None then device else device\<lparr>dev_DriverID := Some (dm_ID drv)\<rparr>))"

primrec recoverByName :: "driverEnv \<Rightarrow> Device \<Rightarrow> string list \<Rightarrow> (world, (Driver \<times> Device) option) routine" where
  "recoverByName E device [] = Return None"
| "recoverByName E device (name # names) =
     andThen (ask (\<lambda>k. de_driverByName E k name)) (\<lambda>answer. case answer of
       Inl e \<Rightarrow> recoverByName E device names
     | Inr drv \<Rightarrow> andThen (syncRecoveredDriverBinding E device drv) (\<lambda>device'. Return (Some (drv, device'))))"

definition recoverMissingDriverBinding :: "driverEnv \<Rightarrow> Device \<Rightarrow> (world, (Driver \<times> Device) option) routine" where
  "recoverMissingDriverBinding E device = recoverByName E device (buildRecoverableDriverNames (de_lib E) (dev_DriverType device))"

definition loadResolved :: "driverEnv \<Rightarrow> int \<Rightarrow> Driver \<Rightarrow> int \<Rightarrow> (world, driverError option) routine" where
  "loadResolved E driverID drv resourceID =
     (let path = TrimSpace (dm_FilePath drv);
          path = (if path = [] then de_join E [''drivers'', TrimSpace (dm_Name drv) @ ''.wasm''] else path)
      in if TrimSpace path = [] then Return (Some (ErrDriverNotFound ''has empty file_path''))
         else andThen (LoadDriverFromModel E (drv\<lparr>dm_FilePath := path\<rparr>) resourceID) (\<lambda>err. case err of
           Some e \<Rightarrow> Return (Some (OtherError (''load driver '' @ FormatInt (dm_ID drv) @ '' failed: '' @ e)))
         | None \<Rightarrow> andThen (GetDriverVersion E driverID) (\<lambda>version. case version of
             Inl e \<Rightarrow> Return None
           | Inr v \<Rightarrow> if v = [] then Return None
               else andThen (ask (\<lambda>k. de_updateDriverVersion E k driverID v)) (\<lambda>_. Return None))))"

definition loadFromDatabase :: "driverEnv \<Rightarrow> Device \<Rightarrow> int \<Rightarrow> int \<Rightarrow> (world, driverError option \<times> Device) routine" where
  "loadFromDatabase E device driverID resourceID =
     andThen (ask (\<lambda>k. de_loadDriver E k driverID)) (\<lambda>answer. case answer of
       Inr drv \<Rightarrow> andThen (loadResolved E driverID drv resourceID) (\<lambda>err. Return (err, device))
     | Inl (QueryError e) \<Rightarrow> Return (Some (ErrDriverNotFound (''query driver failed: '' @ e)), device)
     | Inl NoRows \<Rightarrow> andThen (recoverMissingDriverBinding E device) (\<lambda>recovered. case recovered of
         None \<Rightarrow> Return (Some (ErrDriverNotFound ''not found in database''), device)
       | Some (drv, device') \<Rightarrow> andThen (loadResolved E (dm_ID drv) drv resourceID) (\<lambda>err. Return (err, device'))))"

definition ensureDriverLoaded :: "driverEnv \<Rightarrow> Device \<Rightarrow> int \<Rightarrow> (world, driverError option \<times> Device) routine" where
  "ensureDriverLoaded E device resourceID =
     (let driverID = the (dev_DriverID device)
      in andThen (IsLoaded driverID) (\<lambda>isLoaded.
        if \<not> isLoaded then loadFromDatabase E device driverID resourceID
        else andThen (GetDriver driverID) (\<lambda>loaded. case loaded of
          Some l \<Rightarrow> if resourceID \<le> 0 \<or> wd_resourceID l = resourceID then Return (None, device)
                    else loadFromDatabase E device driverID resourceID
        | None \<Rightarrow> loadFromDatabase E device driverID resourceID)))"

section \<open>Executing a device's driver\<close>

definition resolveResourceTypeFromDatabase :: "driverEnv \<Rightarrow> int \<Rightarrow> (world, string) routine" where
  "resolveResourceTypeFromDatabase E r =
     (if r \<le> 0 \<or> \<not> de_hasDB E then Return []
      else andThen (ask (\<lambda>k. de_loadResource E k r)) (\<lambda>answer. Return (case answer of
        Inl e \<Rightarrow> [] | Inr res \<Rightarrow> lowerTrim (de_lib E) (rs_Type res))))"

definition resolveDeviceResource :: "driverEnv \<Rightarrow> Device \<Rightarrow> (world, int \<times> string) routine" where
  "resolveDeviceResource E device =
     (let r = resolveDeviceResourceID device; given = lowerTrim (de_lib E) (dev_ResourceType device);
          inferred = inferExplicitResourceType (de_lib E) device
      in if given \<noteq> [] then Return (r, given)
         else if inferred \<noteq> [] then Return (r, inferred)
         else andThen (resolveResourceTypeFromDatabase E r) (\<lambda>t.
           Return (r, if t \<noteq> [] then t else inferResourceType (de_lib E) device)))"

definition NewPreparedExecution :: "driverEnv \<Rightarrow> Device \<Rightarrow> (world, PreparedExecution) routine" where
  "NewPreparedExecution E device =
     andThen (resolveDeviceResource E device) (\<lambda>resource. Return (preparedFor (de_marshalInput E) device resource))"

definition normalizePreparedExecution :: "driverEnv \<Rightarrow> Device \<Rightarrow> PreparedExecution option \<Rightarrow> (world, PreparedExecution) routine" where
  "normalizePreparedExecution E device prepared =
     (if preparedComplete prepared then Return (the prepared) else NewPreparedExecution E device)"

definition ensureResourcePath :: "driverEnv \<Rightarrow> int \<Rightarrow> string \<Rightarrow> Device \<Rightarrow> (world, unit) routine" where
  "ensureResourcePath E r resourceType device =
     (let fromDevice = andThen (GetResourcePath r) (\<lambda>path.
            if path = [] \<and> dev_IPAddress device \<noteq> []
            then SetResourcePath r (dev_IPAddress device @ '':'' @ FormatInt (dev_PortNum device)) else Return ())
      in if resourceType \<noteq> ''net'' \<or> r \<le> 0 then Return ()
         else andThen (GetResourcePath r) (\<lambda>path.
           if path \<noteq> [] then Return ()
           else andThen (ask (\<lambda>k. de_loadResource E k r)) (\<lambda>answer. case answer of
             Inl e \<Rightarrow> fromDevice
           | Inr res \<Rightarrow> if TrimSpace (rs_Path res) \<noteq> [] then SetResourcePath r (TrimSpace (rs_Path res)) else fromDevice)))"

definition ensureSerialResource :: "driverEnv \<Rightarrow> int \<Rightarrow> string \<Rightarrow> Device \<Rightarrow> (world, driverError option) routine" where
  "ensureSerialResource E r resourceType device =
     (if r \<le> 0 \<or> resourceType \<noteq> ''serial'' then Return None
      else andThen (ensureSerialPort E r device) (\<lambda>err. Return (case err of None \<Rightarrow> None
        | Some e \<Rightarrow> Some (OtherError (''open serial resource '' @ FormatInt r @ '' failed: '' @ e)))))"

definition executeLocked ::
  "driverEnv \<Rightarrow> Device \<Rightarrow> int \<Rightarrow> string \<Rightarrow> string \<Rightarrow> DriverContext \<Rightarrow> string \<Rightarrow> (world, driverError + DriverResult) routine" where
  "executeLocked E device r resourceType pluginFunc ctx input =
     andThen (ensureSerialResource E r resourceType device) (\<lambda>err. case err of Some e \<Rightarrow> Return (Inl e)
       | None \<Rightarrow> andThen (ensureDriverLoaded E device r) (\<lambda>(err, device'). case err of Some e \<Rightarrow> Return (Inl e)
           | None \<Rightarrow> executeDriverWithInput E (the (dev_DriverID device')) pluginFunc ctx input))"

definition executeStarted ::
  "driverEnv \<Rightarrow> Device \<Rightarrow> string \<Rightarrow> PreparedExecution option \<Rightarrow> fieldMap \<Rightarrow> (world, driverError + DriverResult) routine" where
  "executeStarted E device function prepared overrides =
     andThen (normalizePreparedExecution E device prepared) (\<lambda>p.
       andThen (ensureResourcePath E (pe_ResourceID p) (pe_ResourceType p) device) (\<lambda>_.
         case overriddenCall (de_marshalInput E) overrides (the (pe_Config p)) (the (pe_DriverContext p)) (the (pe_InputJSON p)) of
           (ctx, input) \<Rightarrow>
             andThen (lockResource (pe_ResourceID p)) (\<lambda>l.
               andThen (executeLocked E device (pe_ResourceID p) (pe_ResourceType p) (resolveExecutionFunction function) ctx input) (\<lambda>res.
                 andThen (unlockResource l) (\<lambda>_. Return res)))))"

text \<open>\<open>executePreparedWithContextAndConfig\<close>; the deferred calls run in reverse order.\<close>

definition executePrepared ::
  "driverEnv \<Rightarrow> Device \<Rightarrow> string \<Rightarrow> PreparedExecution option \<Rightarrow> fieldMap \<Rightarrow> (world, driverError + DriverResult) routine" where
  "executePrepared E device function prepared overrides =
     (if dev_DriverID device = None then Return (Inl (OtherError (''device '' @ dev_Name device @ '' has no driver'')))
      else andThen (startExecution device) (\<lambda>err. case err of Some e \<Rightarrow> Return (Inl e)
        | None \<Rightarrow> andThen (executeStarted E device function prepared overrides) (\<lambda>res.
            andThen (endExecution device) (\<lambda>_. Return res))))"

definition Execute_driver :: "driverEnv \<Rightarrow> Device \<Rightarrow> (world, driverError + DriverResult) routine" where
  "Execute_driver E device =
     andThen (NewPreparedExecution E device) (\<lambda>p. executePrepared E device defaultDriverFunction (Some p) [])"

definition ExecuteCommand :: "driverEnv \<Rightarrow> Device \<Rightarrow> string \<Rightarrow> fieldMap \<Rightarrow> (world, driverError + DriverResult) routine" where
  "ExecuteCommand E device function overrides =
     andThen (NewPreparedExecution E device) (\<lambda>p. executePrepared E device function (Some p) overrides)"

text \<open>\<open>CollectData\<close>: the sample of a successful result.\<close>

definition driverSample :: "(nat \<Rightarrow> float64 \<Rightarrow> string) \<Rightarrow> Device \<Rightarrow> driverError + DriverResult \<Rightarrow> driverError + int \<times> string \<times> gotime \<times> fieldMap" where
  "driverSample fixed device res =
     (case res of
        Inl e \<Rightarrow> Inl e
      | Inr result \<Rightarrow>
          if \<not> dr_Success result then Inl (OtherError (dr_Error result))
          else Inr (dev_ID device, dev_Name device, dr_Timestamp result, mapResultFields fixed (Some result)))"

definition ReloadDeviceDriver :: "driverEnv \<Rightarrow> Device \<Rightarrow> (world, driverError option) routine" where
  "ReloadDeviceDriver E device =
     (if dev_DriverID device = None then Return (Some (OtherError ''device has no driver''))
      else andThen (resolveDeviceResource E device) (\<lambda>(r, _). andThen (ensureDriverLoaded E device r) (\<lambda>(err, _). Return err)))"

section \<open>The state of the drivers\<close>

record DriverRuntime =
  rt_ID :: int
  rt_Name :: string
  rt_Loaded :: bool
  rt_ResourceID :: int
  rt_LastActive :: gotime
  rt_Version :: string
  rt_ProductKey :: string
  rt_ExportedFunctions :: "string list"

definition buildDriverRuntime :: "world \<Rightarrow> WasmDriver \<Rightarrow> DriverRuntime" where
  "buildDriverRuntime w d =
     \<lparr>rt_ID = wd_ID d, rt_Name = wd_Name d, rt_Loaded = True, rt_ResourceID = wd_resourceID d,
      rt_LastActive = (case w_lastActive w (wd_plugin d) of None \<Rightarrow> 0 | Some t \<Rightarrow> t), rt_Version = wd_version d,
      rt_ProductKey = wd_productKey d, rt_ExportedFunctions = wd_exportedFunctions d\<rparr>"

definition GetRuntime :: "int \<Rightarrow> world \<Rightarrow> DriverRuntime option" where
  "GetRuntime d w = map_option (buildDriverRuntime w) (w_drivers w d)"

text \<open>\<open>ids\<close> are the keys of the table in the order of its iteration.\<close>

definition ListRuntimes :: "int list \<Rightarrow> world \<Rightarrow> DriverRuntime list" where
  "ListRuntimes ids w = sort_key rt_ID (List.map_filter (\<lambda>d. GetRuntime d w) ids)"

end
