(* ===== verification/Driver_Safety.thy ===== *)
theory Driver_Safety
  imports Driver_Runtime
begin

text \<open>
  What holds of the driver runtime under every interleaving: the locks and flags of an execution belong to it, so two running
  calls never share a device or a resource, and nothing stays locked; and where this fails.
\<close>

section \<open>Operations\<close>

text \<open>What is called from outside: by the collector, the services and the bootstrap.\<close>

datatype driverOp =
    OpExecute Device
  | OpCommand Device string fieldMap
  | OpPrepared Device string "PreparedExecution option" fieldMap
  | OpReload Device
  | OpLoad Driver int
  | OpUnload int
  | OpRefresh "Resource option"
  | OpClose int
  | OpCloseAll "int list"
  | OpTimeouts duration duration duration
  | OpRetries int int duration duration
  | OpCallTimeout duration
  | OpDirectCall int string DriverContext

definition forget :: "('s, 'a) routine \<Rightarrow> ('s, unit) routine" where
  "forget p = andThen p (\<lambda>_. Return ())"

fun opRoutine :: "driverEnv \<Rightarrow> driverOp \<Rightarrow> (world, unit) routine" where
  "opRoutine E (OpExecute device) = forget (Execute_driver E device)"
| "opRoutine E (OpCommand device function overrides) = forget (ExecuteCommand E device function overrides)"
| "opRoutine E (OpPrepared device function prepared overrides) = forget (executePrepared E device function prepared overrides)"
| "opRoutine E (OpReload device) = forget (ReloadDeviceDriver E device)"
| "opRoutine E (OpLoad drv r) = forget (LoadDriverFromModel E drv r)"
| "opRoutine E (OpUnload d) = forget (UnloadDriver d)"
| "opRoutine E (OpRefresh resource) = RefreshResource E resource"
| "opRoutine E (OpClose r) = CloseResource r"
| "opRoutine E (OpCloseAll ids) = CloseAllResources ids"
| "opRoutine E (OpTimeouts a b c) = SetTimeouts a b c"
| "opRoutine E (OpRetries a b c d) = SetRetries a b c d"
| "opRoutine E (OpCallTimeout t) = SetCallTimeout t"
| "opRoutine E (OpDirectCall d function ctx) = forget (ExecuteDriver E d function ctx)"

text \<open>A prepared call is for the device and the resource that it names.\<close>

definition preparedMatches :: "Device \<Rightarrow> PreparedExecution \<Rightarrow> bool" where
  "preparedMatches device p \<longleftrightarrow>
     (case pe_DriverContext p of None \<Rightarrow> True | Some ctx \<Rightarrow> dx_DeviceID ctx = dev_ID device \<and> dx_ResourceID ctx = pe_ResourceID p)"

text \<open>The operations that leave the table of the resource mutexes alone, and do not go past them.\<close>

fun orderly :: "driverEnv \<Rightarrow> driverOp \<Rightarrow> bool" where
  "orderly E (OpPrepared device function prepared overrides) = (case prepared of None \<Rightarrow> True | Some p \<Rightarrow> preparedMatches device p)"
| "orderly E (OpRefresh resource) = (case resource of None \<Rightarrow> True
     | Some res \<Rightarrow> rs_Enabled res = 1 \<and> lowerTrim (de_lib E) (rs_Type res) = ''net'')"
| "orderly E (OpClose r) = False"
| "orderly E (OpCloseAll ids) = False"
| "orderly E (OpDirectCall d function ctx) = False"
| "orderly E _ = True"

section \<open>Tokens\<close>

datatype token = MutexToken nat | DeviceToken int | CallToken nat

definition worldTokens :: "world \<Rightarrow> token set" where
  "worldTokens w = MutexToken ` w_locked w \<union> DeviceToken ` w_executing w \<union> CallToken ` dom (w_calls w)"

definition worldInv :: "world \<Rightarrow> bool" where
  "worldInv w \<longleftrightarrow> (\<forall>r m. w_resourceMux w r = Some m \<longrightarrow> m < w_next w) \<and> (\<forall>i \<in> dom (w_calls w). i < w_next w) \<and>
     (\<forall>r r' m. w_resourceMux w r = Some m \<longrightarrow> w_resourceMux w r' = Some m \<longrightarrow> r = r')"

text \<open>The owner of a call owns the flag of its device and the mutex of its resource, and has no other call.\<close>

definition holdsFor :: "int \<Rightarrow> int \<Rightarrow> token set \<Rightarrow> world \<Rightarrow> bool" where
  "holdsFor device r X w \<longleftrightarrow> DeviceToken device \<in> X \<and> (0 < r \<longrightarrow> (\<exists>m. w_resourceMux w r = Some m \<and> MutexToken m \<in> X))"

definition worldOwn :: "token set \<Rightarrow> world \<Rightarrow> bool" where
  "worldOwn X w \<longleftrightarrow>
     (\<forall>i. CallToken i \<in> X \<longrightarrow> i < w_next w \<and> (\<forall>c. w_calls w i = Some c \<longrightarrow> holdsFor (pc_device c) (pc_resource c) X w)) \<and>
     (\<forall>i j. CallToken i \<in> X \<longrightarrow> CallToken j \<in> X \<longrightarrow> i = j)"

definition worldStep :: "world \<Rightarrow> world \<Rightarrow> bool" where
  "worldStep w w' \<longleftrightarrow> w_resourceMux w \<subseteq>\<^sub>m w_resourceMux w' \<and> w_next w \<le> w_next w' \<and>
     (\<forall>i c. w_calls w' i = Some c \<longrightarrow> i < w_next w \<longrightarrow> w_calls w i = Some c)"

definition driverRule :: "(world, token) discipline" where
  "driverRule = \<lparr>dp_tokens = worldTokens, dp_inv = worldInv, dp_own = worldOwn, dp_step = worldStep\<rparr>"

lemma driverRule_simps [simp]:
  "dp_tokens driverRule = worldTokens" "dp_inv driverRule = worldInv" "dp_own driverRule = worldOwn" "dp_step driverRule = worldStep"
  by (simp_all add: driverRule_def)

lemma worldStep_refl [simp]: "worldStep w w"
  by (simp add: worldStep_def)

lemma holdsFor_step: "holdsFor d r X w \<Longrightarrow> worldStep w w' \<Longrightarrow> holdsFor d r X w'"
  unfolding holdsFor_def worldStep_def map_le_def by (metis domI)

lemma stable_holdsFor: "stable worldStep (holdsFor d r X)"
  using holdsFor_step by (auto simp: stable_def)

lemma worldOwn_step: "worldOwn X w \<Longrightarrow> worldStep w w' \<Longrightarrow> worldOwn X w'"
proof -
  assume own: "worldOwn X w" and step: "worldStep w w'"
  have "i < w_next w' \<and> (\<forall>c. w_calls w' i = Some c \<longrightarrow> holdsFor (pc_device c) (pc_resource c) X w')" if "CallToken i \<in> X" for i
    using own step that holdsFor_step[OF _ step] by (fastforce simp: worldOwn_def worldStep_def)
  with own show ?thesis by (simp add: worldOwn_def)
qed

lemma stable_worldOwn: "stable worldStep (worldOwn X)"
  using worldOwn_step by (auto simp: stable_def)

lemma stable_True [simp]: "stable G (\<lambda>_. True)"
  by (simp add: stable_def)

lemma stable_conj: "stable G F \<Longrightarrow> stable G H \<Longrightarrow> stable G (\<lambda>w. F w \<and> H w)"
  by (auto simp: stable_def)

lemma stable_const [simp]: "stable G (\<lambda>_. P)"
  by (simp add: stable_def)

section \<open>Neutral routines\<close>

text \<open>Routines that leave the owner of the tokens where it was, whatever it owns and knows.\<close>

definition neutral :: "(world, 'a) routine \<Rightarrow> bool" where
  "neutral p \<longleftrightarrow> (\<forall>X F. stable worldStep F \<longrightarrow> owns driverRule (\<lambda>_. X) (\<lambda>_. F) X F p)"

definition untouched :: "world \<Rightarrow> world \<Rightarrow> bool" where
  "untouched w w' \<longleftrightarrow> w_resourceMux w' = w_resourceMux w \<and> w_locked w' = w_locked w \<and> w_executing w' = w_executing w \<and>
     w_calls w' = w_calls w \<and> w_next w \<le> w_next w'"

lemma untouched_step: "untouched w w' \<Longrightarrow> worldStep w w'"
  by (simp add: untouched_def worldStep_def)

lemma untouched_tokens: "untouched w w' \<Longrightarrow> worldTokens w' = worldTokens w"
  by (simp add: untouched_def worldTokens_def)

lemma untouched_inv: "untouched w w' \<Longrightarrow> worldInv w \<Longrightarrow> worldInv w'"
  unfolding untouched_def worldInv_def by (metis less_le_trans)

lemma handsOver_untouched:
  "untouched w w' \<Longrightarrow> worldInv w \<Longrightarrow> worldOwn X w \<Longrightarrow> X \<subseteq> worldTokens w \<Longrightarrow> handsOver driverRule X w X w'"
  using untouched_tokens untouched_inv untouched_step worldOwn_step by (auto simp: handsOver_def)

named_theorems neutral_intros \<open>routines that neither take nor give up a lock\<close>

lemma neutral_Return [neutral_intros]: "neutral (Return a)"
  by (auto simp: neutral_def intro: owns_Return)

lemma neutral_andThen [neutral_intros]: "neutral p \<Longrightarrow> (\<And>a. neutral (f a)) \<Longrightarrow> neutral (andThen p f)"
  unfolding neutral_def
proof (intro allI impI)
  fix X F
  assume a: "\<forall>X F. stable worldStep F \<longrightarrow> owns driverRule (\<lambda>_. X) (\<lambda>_. F) X F p"
    "\<And>a. \<forall>X F. stable worldStep F \<longrightarrow> owns driverRule (\<lambda>_. X) (\<lambda>_. F) X F (f a)" and F: "stable worldStep F"
  show "owns driverRule (\<lambda>_. X) (\<lambda>_. F) X F (andThen p f)"
    by (rule owns_andThen[where PO = "\<lambda>_. X" and PF = "\<lambda>_. F"]) (use a F in auto)
qed

lemma neutral_plain: "plain untouched p \<Longrightarrow> neutral p"
  unfolding neutral_def
proof (intro allI impI)
  fix X F
  assume p: "plain untouched p" and F: "stable worldStep F"
  from p show "owns driverRule (\<lambda>_. X) (\<lambda>_. F) X F p"
  proof (induction rule: plain.induct)
    case (plain_Atomic g)
    show ?case
    proof (rule owns_Atomic)
      fix w w' :: world and q :: "(world, 'a) routine"
      assume a: "dp_inv driverRule w" "dp_own driverRule X w" "F w" "X \<subseteq> dp_tokens driverRule w" "g w = Some (w', q)"
      with plain_Atomic[of w] have u: "untouched w w'" and q: "owns driverRule (\<lambda>_. X) (\<lambda>_. F) X F q" by auto
      show "\<exists>X' F'. handsOver driverRule X w X' w' \<and> stable (dp_step driverRule) F' \<and> F' w' \<and> owns driverRule (\<lambda>_. X) (\<lambda>_. F) X' F' q"
        using handsOver_untouched[OF u] stableD[OF F _ untouched_step[OF u]] a F q by (intro exI[of _ X] exI[of _ F]) simp
    qed
  qed (auto intro: owns_Return)
qed

text \<open>Most routines never wait; all but those of the manager also leave the drivers alone.\<close>

definition sameDrivers :: "world \<Rightarrow> world \<Rightarrow> bool" where
  "sameDrivers w w' \<longleftrightarrow> untouched w w' \<and> w_drivers w' = w_drivers w"

lemma untouched_refl [simp]: "untouched w w"
  by (simp add: untouched_def)

lemma sameDrivers_refl [simp]: "sameDrivers w w"
  by (simp add: sameDrivers_def)

lemma untouched_order: "reflp untouched" "transp untouched"
  by (auto simp: reflp_def transp_def untouched_def)

lemma sameDrivers_order: "reflp sameDrivers" "transp sameDrivers"
  by (auto simp: reflp_def transp_def sameDrivers_def untouched_def)

named_theorems plain_intros \<open>routines that never wait\<close>

lemma plain_same: "plain sameDrivers p \<Longrightarrow> plain untouched p"
  by (erule plain_mono) (simp add: sameDrivers_def)

lemma neutral_look [neutral_intros]: "neutral (look f)" and neutral_ask [neutral_intros]: "neutral (ask g)"
  by (auto intro!: neutral_plain plain_look plain_act simp: ask_def untouched_def)

lemma plain_basic [plain_intros]:
  "plain sameDrivers (Return a)" "plain sameDrivers (look f)" "plain sameDrivers (ask g)"
  by (auto intro!: plain_Return plain_look plain_act simp: ask_def sameDrivers_def untouched_def)

declare plain_andThen [plain_intros]

text \<open>A routine between taking and giving up.\<close>

definition ownsThrough :: "token set \<Rightarrow> (world \<Rightarrow> bool) \<Rightarrow> (world, 'a) routine \<Rightarrow> bool" where
  "ownsThrough X F p \<longleftrightarrow> owns driverRule (\<lambda>_. X) (\<lambda>_. F) X F p"

lemma handsOver_more:
  assumes "worldOwn X w" and "worldInv w'" and "worldStep w w'" and "t \<notin> worldTokens w" and "worldTokens w' = insert t (worldTokens w)"
    and "X \<subseteq> worldTokens w" and "worldOwn (insert t X) w'"
  shows "handsOver driverRule X w (insert t X) w'"
  using assms by (auto simp: handsOver_def)

lemma handsOver_less:
  assumes "worldOwn X w" and "worldInv w'" and "worldStep w w'" and "t \<notin> X" and "worldTokens w' = worldTokens w - {t}"
    and "insert t X \<subseteq> worldTokens w"
  shows "handsOver driverRule (insert t X) w X w'"
  using assms worldOwn_step by (auto simp: handsOver_def)

lemma holdsFor_mono: "X \<subseteq> Y \<Longrightarrow> holdsFor d r X w \<Longrightarrow> holdsFor d r Y w"
  unfolding holdsFor_def by blast

lemma worldOwn_more: "worldOwn X w \<Longrightarrow> (\<And>i. t \<noteq> CallToken i) \<Longrightarrow> worldOwn (insert t X) w"
  using holdsFor_mono[OF subset_insertI] by (auto simp: worldOwn_def)

lemma owns_lockMutex:
  assumes "stable worldStep F"
  shows "owns driverRule (\<lambda>_. insert (MutexToken m) X) (\<lambda>_ w. F w \<and> MutexToken m \<notin> X \<and> worldOwn X w) X F (lockMutex m)"
  unfolding lockMutex_def
proof (rule owns_Atomic)
  fix w w' :: world and p :: "(world, unit) routine"
  assume a: "dp_inv driverRule w" "dp_own driverRule X w" "F w" "X \<subseteq> dp_tokens driverRule w"
    "(if m \<in> w_locked w then None else Some (w\<lparr>w_locked := insert m (w_locked w)\<rparr>, Return ())) = Some (w', p)"
  then have m: "m \<notin> w_locked w" and w': "w' = w\<lparr>w_locked := insert m (w_locked w)\<rparr>" and p: "p = Return ()" by (auto split: if_splits)
  have step: "worldStep w w'" by (simp add: w' worldStep_def)
  have own: "worldOwn X w'" using worldOwn_step[OF _ step] a by simp
  have fresh: "MutexToken m \<notin> worldTokens w" using m by (auto simp: worldTokens_def)
  have h: "handsOver driverRule X w (insert (MutexToken m) X) w'"
    by (rule handsOver_more) (use a own step fresh worldOwn_more[OF own] in \<open>auto simp: w' worldInv_def worldTokens_def\<close>)
  have F: "F w'" using stableD[OF assms a(3) step] .
  have st: "stable worldStep (\<lambda>w. F w \<and> MutexToken m \<notin> X \<and> worldOwn X w)"
    by (intro stable_conj assms stable_const stable_worldOwn)
  have "owns driverRule (\<lambda>_. insert (MutexToken m) X) (\<lambda>_ w. F w \<and> MutexToken m \<notin> X \<and> worldOwn X w) (insert (MutexToken m) X)
      (\<lambda>w. F w \<and> MutexToken m \<notin> X \<and> worldOwn X w) p"
    unfolding p by (rule owns_Return) auto
  moreover have "MutexToken m \<notin> X" using fresh a(4) by auto
  ultimately show "\<exists>X' F'. handsOver driverRule X w X' w' \<and> stable (dp_step driverRule) F' \<and> F' w' \<and>
      owns driverRule (\<lambda>_. insert (MutexToken m) X) (\<lambda>_ w. F w \<and> MutexToken m \<notin> X \<and> worldOwn X w) X' F' p"
    using h F st own by (intro exI conjI) auto
qed

lemma owns_unlockMutex:
  assumes "stable worldStep F"
  shows "owns driverRule (\<lambda>_. X) (\<lambda>_. F) (insert (MutexToken m) X) (\<lambda>w. F w \<and> MutexToken m \<notin> X \<and> worldOwn X w) (unlockMutex m)"
  unfolding unlockMutex_def change_def
proof (rule owns_act)
  fix w :: world
  let ?w = "w\<lparr>w_locked := w_locked w - {m}\<rparr>"
  assume a: "dp_inv driverRule w" "dp_own driverRule (insert (MutexToken m) X) w" "F w \<and> MutexToken m \<notin> X \<and> worldOwn X w"
    "insert (MutexToken m) X \<subseteq> dp_tokens driverRule w"
  have step: "worldStep w ?w" by (simp add: worldStep_def)
  have "handsOver driverRule (insert (MutexToken m) X) w X ?w"
    by (rule handsOver_less) (use a step in \<open>auto simp: worldInv_def worldTokens_def\<close>)
  with stableD[OF assms _ step] a show "handsOver driverRule (insert (MutexToken m) X) w X (fst (?w, ())) \<and> F (fst (?w, ()))" by simp
qed (simp add: assms)

lemma owns_lockResource:
  assumes "stable worldStep F"
  shows "owns driverRule (\<lambda>l. case l of None \<Rightarrow> X | Some m \<Rightarrow> insert (MutexToken m) X)
    (\<lambda>l w. F w \<and> (case l of None \<Rightarrow> r \<le> 0 | Some m \<Rightarrow> w_resourceMux w r = Some m \<and> MutexToken m \<notin> X \<and> worldOwn X w)) X F (lockResource r)"
proof -
  let ?QO = "\<lambda>l. case l of None \<Rightarrow> X | Some m \<Rightarrow> insert (MutexToken m) X"
  let ?QF = "\<lambda>l w. F w \<and> (case l of None \<Rightarrow> r \<le> 0 | Some m \<Rightarrow> w_resourceMux w r = Some m \<and> MutexToken m \<notin> X \<and> worldOwn X w)"
  let ?H = "\<lambda>m w. F w \<and> w_resourceMux w r = Some m"
  have mux: "stable worldStep (\<lambda>w. w_resourceMux w r = Some m)" for m
    by (auto simp: stable_def worldStep_def map_le_def) (metis domI)
  have H: "stable worldStep (?H m)" for m by (intro stable_conj assms mux)
  have store: "owns driverRule (\<lambda>_. X) ?H X F (loadOrStoreLock r)"
    unfolding loadOrStoreLock_def
  proof (rule owns_act)
    fix w :: world
    let ?f = "\<lambda>w. case w_resourceMux w r of Some m \<Rightarrow> (w, m)
      | None \<Rightarrow> (w\<lparr>w_resourceMux := (w_resourceMux w)(r \<mapsto> w_next w), w_next := Suc (w_next w)\<rparr>, w_next w)"
    assume a: "dp_inv driverRule w" "dp_own driverRule X w" "F w" "X \<subseteq> dp_tokens driverRule w"
    have step: "worldStep w (fst (?f w))" by (auto simp: worldStep_def map_le_def split: option.split)
    have inv: "worldInv (fst (?f w))" using a(1) by (auto simp: worldInv_def less_Suc_eq split: option.split)
    have tok: "worldTokens (fst (?f w)) = worldTokens w" by (auto simp: worldTokens_def split: option.split)
    have "F (fst (?f w))" using stableD[OF assms a(3) step] .
    then show "handsOver driverRule X w X (fst (?f w)) \<and> ?H (snd (?f w)) (fst (?f w))"
      using step inv tok a(4) worldOwn_step[OF _ step] a(2) by (auto simp: handsOver_def split: option.split)
  qed (simp add: H)
  have get: "owns driverRule (\<lambda>_. X) ?H X F (getResourceLock r)"
    unfolding getResourceLock_def
  proof (rule owns_andThen[where PO = "\<lambda>_. X" and PF = "\<lambda>l w. F w \<and> (l \<noteq> None \<longrightarrow> w_resourceMux w r = l)"])
    have "stable worldStep (\<lambda>w. F w \<and> (l \<noteq> None \<longrightarrow> w_resourceMux w r = l))" for l
      using assms mux by (cases l) (auto intro: stable_conj)
    then show "owns driverRule (\<lambda>_. X) (\<lambda>l w. F w \<and> (l \<noteq> None \<longrightarrow> w_resourceMux w r = l)) X F (look (\<lambda>w. w_resourceMux w r))"
      unfolding look_def by (intro owns_act) (auto simp: handsOver_def)
    fix l
    show "owns driverRule (\<lambda>_. X) ?H X (\<lambda>w. F w \<and> (l \<noteq> None \<longrightarrow> w_resourceMux w r = l))
        (case l of Some m \<Rightarrow> Return m | None \<Rightarrow> loadOrStoreLock r)"
      using store by (cases l) (auto intro: owns_Return)
  qed
  have lock: "owns driverRule ?QO ?QF X (?H m) (andThen (lockMutex m) (\<lambda>_. Return (Some m)))" for m
    by (rule owns_andThen[OF owns_lockMutex[OF H]]) (auto intro: owns_Return)
  show ?thesis
  proof (cases "r \<le> 0")
    case True
    then show ?thesis by (auto simp: lockResource_def intro: owns_Return)
  next
    case False
    then show ?thesis using owns_andThen[OF get lock] by (simp add: lockResource_def)
  qed
qed

lemma owns_unlockResource:
  assumes "stable worldStep F"
  shows "owns driverRule (\<lambda>_. X) (\<lambda>_. F) (case l of None \<Rightarrow> X | Some m \<Rightarrow> insert (MutexToken m) X)
    (\<lambda>w. F w \<and> (case l of None \<Rightarrow> r \<le> 0 | Some m \<Rightarrow> w_resourceMux w r = Some m \<and> MutexToken m \<notin> X \<and> worldOwn X w)) (unlockResource l)"
proof (cases l)
  case None
  then show ?thesis by (auto simp: unlockResource_def intro: owns_Return)
next
  case (Some m)
  then show ?thesis by (auto simp: unlockResource_def intro: owns_weaken[OF owns_unlockMutex[OF assms]])
qed


section \<open>The routines of the executor and the manager\<close>

lemma same_close [simp]: "sameDrivers w (closeSerial r w)" "sameDrivers w (closeTCP r w)"
  by (auto simp: sameDrivers_def untouched_def closeSerial_def closeTCP_def split: option.split)

lemma same_setPath: "sameDrivers w (setPath r path w)"
  using same_close(2)[of w r] by (auto simp: sameDrivers_def untouched_def setPath_def Let_def split: option.split)

lemmas routine_splits = option.split sum.split prod.split if_split driverQueryError.split

lemma plain_tables [plain_intros]:
  "plain sameDrivers (GetSerialPort r)" "plain sameDrivers (GetResourcePath r)" "plain sameDrivers (RegisterSerialPort r port)"
  "plain sameDrivers (UnregisterTCP r)" "plain sameDrivers (SetResourcePath r path)" "plain sameDrivers (registerDialled r c)"
  "plain sameDrivers (openSerialPort E path mode)" "plain sameDrivers (tcpDial E path t)" "plain sameDrivers (SetTimeouts a b t)"
  "plain sameDrivers (SetRetries i j a b)" "plain sameDrivers (SetCallTimeout t)" "plain sameDrivers (IsLoaded d)" "plain sameDrivers (GetDriver d)"
  unfolding GetSerialPort_def GetResourcePath_def RegisterSerialPort_def UnregisterTCP_def SetResourcePath_def registerDialled_def
    openSerialPort_def tcpDial_def SetTimeouts_def SetRetries_def SetCallTimeout_def IsLoaded_def GetDriver_def
  by (auto intro!: plain_look plain_change plain_act same_setPath same_close) (auto simp: sameDrivers_def untouched_def split: option.split)

lemma plain_openTries [plain_intros]: "plain sameDrivers (openTries E path mode e n)"
  by (induction n arbitrary: e) (auto intro!: plain_intros split: routine_splits)

lemma plain_dialTries [plain_intros]: "plain sameDrivers (dialTries E path t n)"
  by (induction n) (auto intro!: plain_intros split: routine_splits)

lemma plain_serial [plain_intros]: "plain sameDrivers (ensureSerialPort E r device)" "plain sameDrivers (ensureSerialResource E r t device)"
  unfolding ensureSerialPort_def ensureSerialResource_def
  by (auto intro!: plain_intros split: routine_splits)

lemma plain_dialLocked [plain_intros]: "plain sameDrivers (dialLocked E r path)"
  unfolding dialLocked_def by (auto intro!: plain_intros split: routine_splits)

lemma plain_readFirst [plain_intros]: "plain sameDrivers (readFirst E paths)"
  by (induction paths) (auto intro!: plain_intros split: routine_splits)

lemma plain_recover [plain_intros]: "plain sameDrivers (recoverByName E device names)"
  by (induction names) (auto simp: syncRecoveredDriverBinding_def intro!: plain_intros split: routine_splits)

lemma plain_version [plain_intros]: "plain sameDrivers (GetDriverVersion E d)" "plain sameDrivers (readWasmFile E path)"
  unfolding GetDriverVersion_def readWasmFile_def by (auto intro!: plain_intros split: routine_splits)

lemma plain_resolve [plain_intros]: "plain sameDrivers (resolveDeviceResource E device)" "plain sameDrivers (NewPreparedExecution E device)"
  unfolding resolveDeviceResource_def resolveResourceTypeFromDatabase_def NewPreparedExecution_def Let_def
  by (auto intro!: plain_intros split: routine_splits)

lemma plain_ensureResourcePath [plain_intros]: "plain sameDrivers (ensureResourcePath E r t device)"
  unfolding ensureResourcePath_def Let_def by (auto intro!: plain_intros split: routine_splits)

text \<open>The host functions of the serial port; those of the network take the resource's mutex.\<close>

primrec noTCP :: "wasm \<Rightarrow> bool" where
  "noTCP (Finish out) = True"
| "noTCP (HostCall c k) = ((case c of TCPTransceive a b c d e f \<Rightarrow> False | _ \<Rightarrow> True) \<and> (\<forall>reply. noTCP (k reply)))"

lemma plain_hostFunction: "(case c of TCPTransceive a b c d e f \<Rightarrow> False | _ \<Rightarrow> True) \<Longrightarrow> plain sameDrivers (hostFunction E r c)"
  by (cases c) (auto simp: serial_read_def serial_write_def serial_transceive_def intro!: plain_intros split: routine_splits)

lemma plain_interp: "noTCP code \<Longrightarrow> plain sameDrivers (interp E r code)"
  by (induction code) (auto intro!: plain_intros plain_hostFunction)

text \<open>The manager's routines.\<close>

lemma untouched_loadSection: "untouched w (fst (loadSection E drv bytes r w))"
  by (auto simp: loadSection_def untouched_def Let_def split: option.split sum.split prod.split)

lemma plain_manager: "plain untouched (UnloadDriver d)" "plain untouched (LoadDriver E drv bytes r)"
  unfolding UnloadDriver_def LoadDriver_def
  by (auto intro!: plain_Return plain_act untouched_loadSection simp: untouched_def split: option.split)

lemma plain_load: "plain untouched (LoadDriverFromModel E drv r)"
  unfolding LoadDriverFromModel_def ReloadDriver_def Let_def
  by (auto intro!: plain_andThen plain_manager plain_same[OF plain_basic(1)] plain_same[OF plain_tables(12)] plain_same[OF plain_version(2)]
      split: routine_splits)

lemma plain_loadResolved: "plain untouched (loadResolved E d drv r)"
  unfolding loadResolved_def Let_def
  by (auto intro!: plain_andThen plain_load plain_same[OF plain_basic(1)] plain_same[OF plain_basic(3)] plain_same[OF plain_version(1)]
      split: routine_splits)

lemma plain_ensureDriverLoaded: "plain untouched (ensureDriverLoaded E device r)"
  unfolding ensureDriverLoaded_def loadFromDatabase_def recoverMissingDriverBinding_def Let_def
  by (auto intro!: plain_andThen plain_loadResolved plain_same[OF plain_basic(1)] plain_same[OF plain_basic(3)]
      plain_same[OF plain_tables(12)] plain_same[OF plain_tables(13)] plain_same[OF plain_recover] split: routine_splits)

text \<open>A routine between the lock of a resource and its release.\<close>

lemma neutral_locked:
  assumes "\<And>l. neutral (f l)"
  shows "neutral (andThen (lockResource r) (\<lambda>l. andThen (f l) (\<lambda>a. andThen (unlockResource l) (\<lambda>_. Return a))))"
  unfolding neutral_def
proof (intro allI impI)
  fix X F
  assume F: "stable worldStep F"
  let ?X = "\<lambda>l. case l of None \<Rightarrow> X | Some m \<Rightarrow> insert (MutexToken m) X"
  let ?F = "\<lambda>l w. F w \<and> (case l of None \<Rightarrow> r \<le> 0 | Some m \<Rightarrow> w_resourceMux w r = Some m \<and> MutexToken m \<notin> X \<and> worldOwn X w)"
  have st: "stable worldStep (?F l)" for l
    using F stable_worldOwn[of X] by (cases l) (auto simp: stable_def worldStep_def map_le_def, metis domI)
  have release: "owns driverRule (\<lambda>_. X) (\<lambda>_. F) (?X l) (?F l) (andThen (unlockResource l) (\<lambda>_. Return a))" for l a
    by (rule owns_andThen[OF owns_unlockResource[OF F]]) (auto intro: owns_Return)
  have "owns driverRule (\<lambda>_. X) (\<lambda>_. F) (?X l) (?F l) (andThen (f l) (\<lambda>a. andThen (unlockResource l) (\<lambda>_. Return a)))" for l
    by (rule owns_andThen[where PO = "\<lambda>_. ?X l" and PF = "\<lambda>_. ?F l"]) (use assms st release in \<open>auto simp: neutral_def\<close>)
  then show "owns driverRule (\<lambda>_. X) (\<lambda>_. F) X F (andThen (lockResource r) (\<lambda>l. andThen (f l) (\<lambda>a. andThen (unlockResource l) (\<lambda>_. Return a))))"
    by (rule owns_andThen[OF owns_lockResource[OF F]])
qed

lemma neutral_GetTCPConn [neutral_intros]: "neutral (GetTCPConn E r)"
  unfolding GetTCPConn_def
  by (auto intro!: neutral_intros neutral_locked neutral_plain[OF plain_same[OF plain_tables(2)]] neutral_plain[OF plain_same[OF plain_dialLocked]]
      split: routine_splits)

lemma neutral_hostFunction [neutral_intros]: "neutral (hostFunction E r c)"
proof (cases c)
  case (TCPTransceive a b e f g h)
  then show ?thesis
    by (auto simp: tcp_transceive_def intro!: neutral_intros neutral_plain[OF plain_same[OF plain_tables(4)]] split: routine_splits)
qed (auto intro!: neutral_plain plain_same plain_hostFunction simp del: hostFunction.simps)

lemma neutral_interp [neutral_intros]: "neutral (interp E r code)"
  by (induction code) (auto intro!: neutral_intros)

section \<open>The calls\<close>

text \<open>A routine of the owner of the flag of a device and of the mutex of a resource.\<close>

definition guardedBy :: "int \<Rightarrow> int \<Rightarrow> (world, 'a) routine \<Rightarrow> bool" where
  "guardedBy d r p \<longleftrightarrow> (\<forall>X F. stable worldStep F \<longrightarrow> (\<forall>i. CallToken i \<notin> X) \<longrightarrow>
     owns driverRule (\<lambda>_. X) (\<lambda>_. F) X (\<lambda>w. F w \<and> holdsFor d r X w) p)"

lemma guardedBy_neutral: "neutral p \<Longrightarrow> guardedBy d r p"
  unfolding guardedBy_def neutral_def by (blast intro: owns_weaken)

lemma guardedBy_andThen:
  assumes "guardedBy d r p" and "\<And>a. guardedBy d r (f a)"
  shows "guardedBy d r (andThen p f)"
  unfolding guardedBy_def
proof (intro allI impI)
  fix X F
  assume F: "stable worldStep F" and X: "\<forall>i. CallToken i \<notin> X"
  let ?H = "\<lambda>w. F w \<and> holdsFor d r X w"
  have H: "stable worldStep ?H" by (intro stable_conj F stable_holdsFor)
  have "owns driverRule (\<lambda>_. X) (\<lambda>_. ?H) X (\<lambda>w. ?H w \<and> holdsFor d r X w) p"
    by (rule assms(1)[unfolded guardedBy_def, rule_format, of ?H X]) (use H X in auto)
  then have "owns driverRule (\<lambda>_. X) (\<lambda>_. ?H) X ?H p" by (rule owns_weaken) simp
  then show "owns driverRule (\<lambda>_. X) (\<lambda>_. F) X ?H (andThen p f)"
    by (rule owns_andThen) (use assms(2) F X in \<open>simp add: guardedBy_def\<close>)
qed

lemma owns_beginCall:
  assumes F: "stable worldStep F" and X: "\<forall>i. CallToken i \<notin> X"
  shows "owns driverRule (\<lambda>i. insert (CallToken i) X) (\<lambda>i w. F w \<and> CallToken i \<notin> X \<and> worldOwn X w) X
    (\<lambda>w. F w \<and> holdsFor (dx_DeviceID ctx) (dx_ResourceID ctx) X w) (beginCall ctx d drv)"
  unfolding beginCall_def
proof (rule owns_act)
  fix w :: world
  let ?c = "\<lparr>pc_device = dx_DeviceID ctx, pc_resource = dx_ResourceID ctx, pc_driver = d, pc_plugin = wd_plugin drv, pc_boundTo = wd_resourceID drv\<rparr>"
  let ?w = "w\<lparr>w_calls := (w_calls w)(w_next w \<mapsto> ?c), w_next := Suc (w_next w)\<rparr>"
  assume a: "dp_inv driverRule w" "dp_own driverRule X w" "F w \<and> holdsFor (dx_DeviceID ctx) (dx_ResourceID ctx) X w"
    "X \<subseteq> dp_tokens driverRule w"
  have new: "w_calls w (w_next w) = None" using a(1) by (auto simp: worldInv_def)
  have step: "worldStep w ?w" by (auto simp: worldStep_def)
  have own: "worldOwn X ?w" using worldOwn_step[OF _ step] a(2) by simp
  have holds: "holdsFor (dx_DeviceID ctx) (dx_ResourceID ctx) (insert (CallToken (w_next w)) X) ?w"
    using holdsFor_mono[OF subset_insertI holdsFor_step[OF _ step]] a(3) by blast
  have "worldOwn (insert (CallToken (w_next w)) X) ?w" unfolding worldOwn_def using X holds by auto
  moreover have "CallToken (w_next w) \<notin> worldTokens w" using new by (auto simp: worldTokens_def)
  moreover have "worldInv ?w" using a(1) by (auto simp: worldInv_def less_Suc_eq)
  ultimately have "handsOver driverRule X w (insert (CallToken (w_next w)) X) ?w"
    using a(2,4) step by (intro handsOver_more) (auto simp: worldTokens_def)
  with own X stableD[OF F _ step] a(3)
  show "handsOver driverRule X w (insert (CallToken (snd (?w, w_next w))) X) (fst (?w, w_next w)) \<and>
      F (fst (?w, w_next w)) \<and> CallToken (snd (?w, w_next w)) \<notin> X \<and> worldOwn X (fst (?w, w_next w))" by simp
qed (auto intro!: stable_conj F stable_worldOwn)

lemma owns_endCall:
  assumes F: "stable worldStep F"
  shows "owns driverRule (\<lambda>_. X) (\<lambda>_. F) (insert (CallToken i) X) (\<lambda>w. F w \<and> CallToken i \<notin> X \<and> worldOwn X w) (endCall i)"
  unfolding endCall_def change_def
proof (rule owns_act)
  fix w :: world
  let ?w = "w\<lparr>w_calls := (w_calls w)(i := None)\<rparr>"
  assume a: "dp_inv driverRule w" "dp_own driverRule (insert (CallToken i) X) w" "F w \<and> CallToken i \<notin> X \<and> worldOwn X w"
    "insert (CallToken i) X \<subseteq> dp_tokens driverRule w"
  have step: "worldStep w ?w" by (auto simp: worldStep_def split: if_splits)
  have "worldTokens ?w = worldTokens w - {CallToken i}" by (auto simp: worldTokens_def)
  moreover have "worldInv ?w" using a(1) by (auto simp: worldInv_def)
  ultimately have "handsOver driverRule (insert (CallToken i) X) w X ?w" using a step by (intro handsOver_less) auto
  with stableD[OF F _ step] a show "handsOver driverRule (insert (CallToken i) X) w X (fst (?w, ())) \<and> F (fst (?w, ()))" by simp
qed (simp add: F)

lemma guardedBy_callPlugin: "guardedBy (dx_DeviceID ctx) (dx_ResourceID ctx) (callPlugin E ctx d drv function input timeout)"
  unfolding guardedBy_def
proof (intro allI impI)
  fix X F
  assume F: "stable worldStep F" and X: "\<forall>i. CallToken i \<notin> X"
  let ?X = "\<lambda>i. insert (CallToken i) X" and ?F = "\<lambda>i w. F w \<and> CallToken i \<notin> X \<and> worldOwn X w"
  have st: "stable worldStep (?F i)" for i by (intro stable_conj F stable_const stable_worldOwn)
  have over: "owns driverRule (\<lambda>_. X) (\<lambda>_. F) (?X i) (?F i) (andThen (endCall i) (\<lambda>_. Return b))" for i and b :: 'b
    by (rule owns_andThen[OF owns_endCall[OF F]]) (auto intro: owns_Return)
  have run: "owns driverRule (\<lambda>_. ?X i) (\<lambda>_. ?F i) (?X i) (?F i) p" if "neutral p" for i and p :: "(world, 'c) routine"
    using that st by (simp add: neutral_def)
  show "owns driverRule (\<lambda>_. X) (\<lambda>_. F) X (\<lambda>w. F w \<and> holdsFor (dx_DeviceID ctx) (dx_ResourceID ctx) X w) (callPlugin E ctx d drv function input timeout)"
    unfolding callPlugin_def
    by (intro owns_andThen[OF owns_beginCall[OF F X]] owns_andThen[OF run[OF neutral_ask]] owns_andThen[OF run[OF neutral_interp]] over)
qed

lemma owns_false: "owns D (\<lambda>_. X) QF X (\<lambda>_. False) p"
  by (cases p) (auto intro: owns_Return owns_Atomic)

lemma guardedBy_leaf:
  "guardedBy d r (Return a)" "guardedBy d r (look f)" "guardedBy d r (ask g)" "(\<And>w. untouched w (fst (h w))) \<Longrightarrow> guardedBy d r (act h)"
  by (auto intro!: guardedBy_neutral neutral_intros neutral_plain plain_act)

lemma guardedBy_execute:
  assumes "dx_DeviceID ctx = dev" and "dx_ResourceID ctx = r"
  shows "guardedBy dev r (executeDriverWithInput E d function ctx input)"
  unfolding executeDriverWithInput_def Let_def
  by (auto intro!: guardedBy_andThen guardedBy_leaf guardedBy_callPlugin[of ctx, unfolded assms] simp: untouched_def split: routine_splits)

lemma guardedBy_executeLocked:
  assumes "dx_DeviceID ctx = dev" and "dx_ResourceID ctx = r"
  shows "guardedBy dev r (executeLocked E device r' t f ctx input)"
  unfolding executeLocked_def
  by (auto intro!: guardedBy_andThen guardedBy_leaf guardedBy_execute[OF assms] guardedBy_neutral[OF neutral_plain[OF plain_same[OF plain_serial(2)]]]
      guardedBy_neutral[OF neutral_plain[OF plain_ensureDriverLoaded]] split: routine_splits)

section \<open>Executions\<close>

definition goodPrepared :: "Device \<Rightarrow> PreparedExecution \<Rightarrow> bool" where
  "goodPrepared device p \<longleftrightarrow> preparedComplete (Some p) \<and> preparedMatches device p"

lemma goodPrepared_new: "goodPrepared device (preparedFor marshal device resource)"
  by (simp add: goodPrepared_def preparedComplete_def preparedMatches_def preparedFor_def buildDriverContext_def Let_def)

lemma overridden_context:
  "overriddenCall marshal overrides config ctx input = (ctx', input') \<Longrightarrow> dx_DeviceID ctx' = dx_DeviceID ctx \<and> dx_ResourceID ctx' = dx_ResourceID ctx"
  by (auto simp: overriddenCall_def cloneDriverContext_def Let_def split: if_splits)

lemma owns_prepare:
  assumes F: "stable worldStep F"
  shows "owns driverRule (\<lambda>_. X) (\<lambda>p w. F w \<and> goodPrepared device p) X F (NewPreparedExecution E device)"
    and "(case prepared of None \<Rightarrow> True | Some p \<Rightarrow> preparedMatches device p) \<Longrightarrow>
      owns driverRule (\<lambda>_. X) (\<lambda>p w. F w \<and> goodPrepared device p) X F (normalizePreparedExecution E device prepared)"
proof -
  have r: "owns driverRule (\<lambda>_. X) (\<lambda>_. F) X F (resolveDeviceResource E device)" using neutral_plain[OF plain_same[OF plain_resolve(1)]] F by (simp add: neutral_def)
  show new: "owns driverRule (\<lambda>_. X) (\<lambda>p w. F w \<and> goodPrepared device p) X F (NewPreparedExecution E device)"
    unfolding NewPreparedExecution_def by (rule owns_andThen[OF r]) (auto intro!: owns_Return goodPrepared_new)
  assume "case prepared of None \<Rightarrow> True | Some p \<Rightarrow> preparedMatches device p"
  with new show "owns driverRule (\<lambda>_. X) (\<lambda>p w. F w \<and> goodPrepared device p) X F (normalizePreparedExecution E device prepared)"
    by (cases prepared) (auto simp: normalizePreparedExecution_def goodPrepared_def preparedComplete_def intro!: owns_Return)
qed

lemma owns_executeStarted:
  assumes F: "stable worldStep F" and d: "DeviceToken (dev_ID device) \<in> X" and X: "\<forall>i. CallToken i \<notin> X"
    and prep: "case prepared of None \<Rightarrow> True | Some p \<Rightarrow> preparedMatches device p"
  shows "owns driverRule (\<lambda>_. X) (\<lambda>_. F) X F (executeStarted E device function prepared overrides)"
  unfolding executeStarted_def
proof (rule owns_andThen[OF owns_prepare(2)[OF F prep]])
  fix p
  let ?r = "pe_ResourceID p" and ?G = "\<lambda>w. F w \<and> goodPrepared device p"
  let ?X = "\<lambda>l. case l of None \<Rightarrow> X | Some m \<Rightarrow> insert (MutexToken m) X"
  let ?F = "\<lambda>l w. F w \<and> (case l of None \<Rightarrow> ?r \<le> 0 | Some m \<Rightarrow> w_resourceMux w ?r = Some m \<and> MutexToken m \<notin> X \<and> worldOwn X w)"
  have G: "stable worldStep ?G" by (intro stable_conj F stable_const)
  obtain ctx input where call: "overriddenCall (de_marshalInput E) overrides (the (pe_Config p)) (the (pe_DriverContext p)) (the (pe_InputJSON p)) = (ctx, input)"
    by force
  have path: "owns driverRule (\<lambda>_. X) (\<lambda>_. ?G) X ?G (ensureResourcePath E ?r (pe_ResourceType p) device)"
    using neutral_plain[OF plain_same[OF plain_ensureResourcePath]] G by (simp add: neutral_def)
  show "owns driverRule (\<lambda>_. X) (\<lambda>_. F) X ?G
      (andThen (ensureResourcePath E ?r (pe_ResourceType p) device) (\<lambda>_.
         case overriddenCall (de_marshalInput E) overrides (the (pe_Config p)) (the (pe_DriverContext p)) (the (pe_InputJSON p)) of
           (ctx, input) \<Rightarrow> andThen (lockResource ?r) (\<lambda>l.
               andThen (executeLocked E device ?r (pe_ResourceType p) (resolveExecutionFunction function) ctx input) (\<lambda>res.
                 andThen (unlockResource l) (\<lambda>_. Return res)))))"
  proof (cases "goodPrepared device p")
    case False
    then show ?thesis by (intro owns_weaken[OF owns_false]) simp
  next
    case True
    then have ctx: "dx_DeviceID ctx = dev_ID device" "dx_ResourceID ctx = ?r"
      using overridden_context[OF call] by (auto simp: goodPrepared_def preparedComplete_def preparedMatches_def)
    have st: "stable worldStep (?F l)" for l
      using F stable_worldOwn[of X] by (cases l) (auto simp: stable_def worldStep_def map_le_def, metis domI)
    have holds: "?F l w \<Longrightarrow> holdsFor (dev_ID device) ?r (?X l) w" for l w using d by (cases l) (auto simp: holdsFor_def)
    have calls: "\<forall>i. CallToken i \<notin> ?X l" for l using X by (cases l) auto
    have run: "owns driverRule (\<lambda>_. ?X l) (\<lambda>_. ?F l) (?X l) (?F l)
        (executeLocked E device ?r (pe_ResourceType p) (resolveExecutionFunction function) ctx input)" for l
      by (rule owns_weaken[OF guardedBy_executeLocked[OF ctx, unfolded guardedBy_def, rule_format, OF st calls[rule_format]]])
        (use holds in blast)
    have release: "owns driverRule (\<lambda>_. X) (\<lambda>_. F) (?X l) (?F l) (andThen (unlockResource l) (\<lambda>_. Return a))" for l and a :: 'z
      by (rule owns_andThen[OF owns_unlockResource[OF F]]) (auto intro: owns_Return)
    have "owns driverRule (\<lambda>_. X) (\<lambda>_. F) X F (andThen (lockResource ?r) (\<lambda>l.
        andThen (executeLocked E device ?r (pe_ResourceType p) (resolveExecutionFunction function) ctx input) (\<lambda>res.
          andThen (unlockResource l) (\<lambda>_. Return res))))"
      by (rule owns_andThen[OF owns_lockResource[OF F] owns_andThen[OF run release]])
    then have "owns driverRule (\<lambda>_. X) (\<lambda>_. F) X ?G (andThen (lockResource ?r) (\<lambda>l.
        andThen (executeLocked E device ?r (pe_ResourceType p) (resolveExecutionFunction function) ctx input) (\<lambda>res.
          andThen (unlockResource l) (\<lambda>_. Return res))))" by (rule owns_weaken) simp
    with owns_andThen[OF path] call show ?thesis by simp
  qed
qed


lemma owns_executePrepared:
  assumes prep: "case prepared of None \<Rightarrow> True | Some p \<Rightarrow> preparedMatches device p"
  shows "owns driverRule (\<lambda>_. {}) (\<lambda>_ _. True) {} (\<lambda>_. True) (executePrepared E device function prepared overrides)"
proof -
  let ?d = "DeviceToken (dev_ID device)"
  let ?X = "\<lambda>e. if e = None then {?d} else ({} :: token set)"
  have enter: "owns driverRule ?X (\<lambda>_ _. True) {} (\<lambda>_. True) (startExecution device)"
    unfolding startExecution_def
  proof (rule owns_act)
    fix w :: world
    assume "dp_inv driverRule w"
    then show "handsOver driverRule {} w (?X (snd (if dev_ID device \<in> w_executing w
          then (w, Some (OtherError (''device '' @ dev_Name device @ '' is already being read'')))
          else (w\<lparr>w_executing := insert (dev_ID device) (w_executing w)\<rparr>, None))))
        (fst (if dev_ID device \<in> w_executing w then (w, Some (OtherError (''device '' @ dev_Name device @ '' is already being read'')))
          else (w\<lparr>w_executing := insert (dev_ID device) (w_executing w)\<rparr>, None))) \<and> True"
      by (auto simp: handsOver_def worldInv_def worldOwn_def worldStep_def worldTokens_def)
  qed simp
  have finish: "owns driverRule (\<lambda>_. {}) (\<lambda>_ _. True) {?d} (\<lambda>_. True) (endExecution device)"
    unfolding endExecution_def change_def
    by (rule owns_act) (auto simp: handsOver_def worldInv_def worldOwn_def worldStep_def worldTokens_def)
  have body: "owns driverRule (\<lambda>_. {?d}) (\<lambda>_ _. True) {?d} (\<lambda>_. True) (executeStarted E device function prepared overrides)"
    using owns_executeStarted[OF stable_True _ _ prep, of "{?d}"] by simp
  have ret: "owns driverRule (\<lambda>_. {}) (\<lambda>_ _. True) {} (\<lambda>_. True) (Return a)" for a :: "driverError + DriverResult"
    by (rule owns_Return) auto
  show ?thesis
    unfolding executePrepared_def
    by (auto intro!: ret owns_andThen[OF enter] owns_andThen[OF body] owns_andThen[OF finish] split: option.split)
qed

lemma owns_forget: "owns driverRule (\<lambda>_. {}) (\<lambda>_ _. True) {} (\<lambda>_. True) p \<Longrightarrow> owns driverRule (\<lambda>_. {}) (\<lambda>_ _. True) {} (\<lambda>_. True) (forget p)"
  unfolding forget_def by (rule owns_andThen) (auto intro: owns_Return)

lemma owns_neutral: "neutral p \<Longrightarrow> owns driverRule (\<lambda>_. {}) (\<lambda>_ _. True) {} (\<lambda>_. True) p"
  by (auto simp: neutral_def)

lemma owns_prepared_start:
  "owns driverRule (\<lambda>_. {}) (\<lambda>_ _. True) {} (\<lambda>_. True)
     (andThen (NewPreparedExecution E device) (\<lambda>p. executePrepared E device function (Some p) overrides))"
proof (rule owns_andThen[OF owns_prepare(1)[OF stable_True]])
  fix p
  show "owns driverRule (\<lambda>_. {}) (\<lambda>_ _. True) {} (\<lambda>w. True \<and> goodPrepared device p) (executePrepared E device function (Some p) overrides)"
  proof (cases "goodPrepared device p")
    case True
    then have "case Some p of None \<Rightarrow> True | Some p \<Rightarrow> preparedMatches device p" by (simp add: goodPrepared_def)
    then show ?thesis by (intro owns_weaken[OF owns_executePrepared]) auto
  qed (simp add: owns_false)
qed

lemma plain_opRoutine:
  "plain untouched (opRoutine E (OpReload device))" "plain untouched (opRoutine E (OpLoad drv r))" "plain untouched (opRoutine E (OpUnload d))"
  "plain untouched (opRoutine E (OpTimeouts a b t))" "plain untouched (opRoutine E (OpRetries i j a b))" "plain untouched (opRoutine E (OpCallTimeout t))"
  "orderly E (OpRefresh resource) \<Longrightarrow> plain untouched (opRoutine E (OpRefresh resource))"
  by (auto simp: forget_def ReloadDeviceDriver_def RefreshResource_def intro!: plain_andThen plain_load plain_manager plain_ensureDriverLoaded
      plain_same[OF plain_basic(1)] plain_same[OF plain_resolve(1)] plain_same[OF plain_tables(5)] plain_same[OF plain_tables(9)]
      plain_same[OF plain_tables(10)] plain_same[OF plain_tables(11)] split: routine_splits)

lemma owns_opRoutine: "orderly E oper \<Longrightarrow> owns driverRule (\<lambda>_. {}) (\<lambda>_ _. True) {} (\<lambda>_. True) (opRoutine E oper)"
proof (cases oper)
  case (OpPrepared device f prepared overrides)
  moreover assume "orderly E oper"
  ultimately show ?thesis using owns_forget[OF owns_executePrepared] by simp
qed (use owns_neutral[OF neutral_plain[OF plain_opRoutine(1)]] owns_neutral[OF neutral_plain[OF plain_opRoutine(2)]]
    owns_neutral[OF neutral_plain[OF plain_opRoutine(3)]] owns_neutral[OF neutral_plain[OF plain_opRoutine(4)]]
    owns_neutral[OF neutral_plain[OF plain_opRoutine(5)]] owns_neutral[OF neutral_plain[OF plain_opRoutine(6)]]
    owns_neutral[OF neutral_plain[OF plain_opRoutine(7)]]
    in \<open>auto simp: Execute_driver_def ExecuteCommand_def intro!: owns_forget[OF owns_prepared_start] simp del: forget_def\<close>)

section \<open>Exclusion\<close>

text \<open>Nothing runs and nothing is locked; drivers, paths and connections are any.\<close>

definition idle :: "world \<Rightarrow> bool" where
  "idle w \<longleftrightarrow> w_locked w = {} \<and> w_executing w = {} \<and> w_calls w = Map.empty \<and> w_resourceMux w = Map.empty"

lemma driver_pool_owned:
  assumes "pool (opRoutine E ` Collect (orderly E)) w0 c" and "idle w0"
  shows "\<exists>own. poolOwned driverRule c own"
  using assms by (intro pool_owned) (auto simp: idle_def worldInv_def worldTokens_def worldOwn_def stable_worldOwn intro: owns_opRoutine)

lemma owned_call:
  assumes "poolOwned driverRule (ts, w) own" and "w_calls w i = Some c"
  shows "\<exists>t < length ts. CallToken i \<in> own t \<and> holdsFor (pc_device c) (pc_resource c) (own t) w"
proof -
  have "CallToken i \<in> worldTokens w" using assms(2) by (auto simp: worldTokens_def)
  then obtain t where t: "t < length ts" "CallToken i \<in> own t" using assms(1) by (auto simp: poolOwned_def)
  then have "worldOwn (own t) w" using assms(1) by (auto simp: poolOwned_def)
  with t assms(2) show ?thesis by (auto simp: worldOwn_def)
qed

lemma same_owner: "poolOwned driverRule (ts, w) own \<Longrightarrow> s < length ts \<Longrightarrow> t < length ts \<Longrightarrow> x \<in> own s \<Longrightarrow> x \<in> own t \<Longrightarrow> s = t"
  by (auto simp: poolOwned_def)

text \<open>C21: Whatever the collector, the commands, the reloads, the timeouts and the changes of paths do beside each
  other: two different calls of plugins that run at one time are for different devices, and not on one resource
  (with a positive number). When all operations have returned, no device is marked as executing, no
  call runs and no mutex is locked.\<close>
theorem executions_exclusive:
  assumes "pool (opRoutine E ` Collect (orderly E)) w0 (ts, w)" and "idle w0"
  shows "(\<forall>i j c c'. w_calls w i = Some c \<and> w_calls w j = Some c' \<and>
       (pc_device c = pc_device c' \<or> 0 < pc_resource c \<and> pc_resource c = pc_resource c') \<longrightarrow> i = j) \<and>
     (list_all (\<lambda>t. t = Return ()) ts \<longrightarrow> w_executing w = {} \<and> w_calls w = Map.empty \<and> w_locked w = {})"
proof -
  obtain own where own: "poolOwned driverRule (ts, w) own" using driver_pool_owned[OF assms] by blast
  have "i = j" if c: "w_calls w i = Some c" "w_calls w j = Some c'" and same: "pc_device c = pc_device c' \<or> 0 < pc_resource c \<and> pc_resource c = pc_resource c'" for i j c c'
  proof -
    obtain s t where s: "s < length ts" "CallToken i \<in> own s" "holdsFor (pc_device c) (pc_resource c) (own s) w"
      and t: "t < length ts" "CallToken j \<in> own t" "holdsFor (pc_device c') (pc_resource c') (own t) w"
      using owned_call[OF own c(1)] owned_call[OF own c(2)] by blast
    have "\<exists>x. x \<in> own s \<and> x \<in> own t" using same s(3) t(3) by (auto simp: holdsFor_def)
    with same_owner[OF own s(1) t(1)] have "s = t" by blast
    moreover have "worldOwn (own t) w" using own t(1) by (auto simp: poolOwned_def)
    ultimately show ?thesis using s(2) t(2) by (auto simp: worldOwn_def)
  qed
  moreover have "w_executing w = {} \<and> w_calls w = Map.empty \<and> w_locked w = {}" if "list_all (\<lambda>t. t = Return ()) ts"
    using pool_over[OF own] that by (auto simp: worldTokens_def list_all_iff)
  ultimately show ?thesis by blast
qed

end
