(* ===== verification/Driver_Calls.thy ===== *)
theory Driver_Calls
  imports Driver_Safety
begin

text \<open>
  What one execution does alone: it returns and leaves nothing behind, or waits for ever; and which plugin instance a call
  reaches when executions are interleaved.
\<close>

section \<open>Alone\<close>

lemma run_ask [simp]: "run (ask f) w = Some (f (w_asked w), w\<lparr>w_asked := Suc (w_asked w)\<rparr>)"
  by (simp add: ask_def)

lemma run_lockMutex [simp]: "run (lockMutex m) w = (if m \<in> w_locked w then None else Some ((), w\<lparr>w_locked := insert m (w_locked w)\<rparr>))"
  by (simp add: lockMutex_def)

lemma run_unlockMutex [simp]: "run (unlockMutex m) w = Some ((), w\<lparr>w_locked := w_locked w - {m}\<rparr>)"
  by (simp add: unlockMutex_def)

lemma plain_runE:
  assumes "plain untouched p"
  obtains a w' where "run p w = Some (a, w')" "untouched w w'"
  using plain_run[OF assms untouched_order] by blast

text \<open>The mutex of a resource is free, and taken.\<close>

lemma run_lockResource:
  assumes "w_locked w = {}"
  shows "\<exists>l w'. run (lockResource r) w = Some (l, w') \<and> w_executing w' = w_executing w \<and> w_calls w' = w_calls w \<and> w_next w \<le> w_next w' \<and>
    w_drivers w' = w_drivers w \<and> w_tcpConns w' = w_tcpConns w \<and> w_resourcePaths w' = w_resourcePaths w \<and> w_callTimeout w' = w_callTimeout w \<and>
    (if r \<le> 0 then l = None \<and> w' = w else \<exists>m. l = Some m \<and> w_locked w' = {m} \<and> w_resourceMux w' r = Some m)"
  using assms
  by (cases "w_resourceMux w r")
    (auto simp: lockResource_def getResourceLock_def loadOrStoreLock_def run_andThen)

lemma run_unlockResource:
  "run (unlockResource l) w = Some ((), case l of None \<Rightarrow> w | Some m \<Rightarrow> w\<lparr>w_locked := w_locked w - {m}\<rparr>)"
  by (simp add: unlockResource_def split: option.split)

text \<open>A call of a plugin without network requests ends, and is then over.\<close>

lemma callPlugin_returns:
  assumes "\<And>p k f i t. noTCP (de_code E p k f i t)" and "w_calls w (w_next w) = None"
  shows "\<exists>res w'. run (callPlugin E ctx d drv f input t) w = Some (res, w') \<and> untouched w w'"
proof -
  let ?c = "\<lparr>pc_device = dx_DeviceID ctx, pc_resource = dx_ResourceID ctx, pc_driver = d, pc_plugin = wd_plugin drv, pc_boundTo = wd_resourceID drv\<rparr>"
  let ?w = "w\<lparr>w_calls := (w_calls w)(w_next w \<mapsto> ?c), w_next := Suc (w_next w), w_asked := Suc (w_asked w)\<rparr>"
  let ?code = "de_code E (wd_plugin drv) (w_asked w) f input t"
  obtain answer w1 where run: "run (interp E (wd_resourceID drv) ?code) ?w = Some (answer, w1)" and u: "untouched ?w w1"
    using plain_runE[OF plain_same[OF plain_interp[OF assms(1)]]] by blast
  have "w_calls w1 = w_calls ?w" "w_next w < w_next w1" using u by (auto simp: untouched_def)
  then have "(w_calls w1)(w_next w := None) = w_calls w" using assms(2) by auto
  with run u show ?thesis
    by (auto simp: callPlugin_def run_andThen beginCall_def endCall_def untouched_def intro: less_imp_le)
qed

lemma executeDriverWithInput_returns:
  assumes "\<And>p k f i t. noTCP (de_code E p k f i t)" and "worldInv w"
  shows "\<exists>res w'. run (executeDriverWithInput E d f ctx input) w = Some (res, w') \<and> untouched w w'"
proof (cases "w_drivers w d")
  case None
  then show ?thesis by (auto simp: executeDriverWithInput_def run_andThen)
next
  case (Some drv)
  let ?w = "w\<lparr>w_lastActive := (w_lastActive w)(wd_plugin drv \<mapsto> de_now E (w_asked w)), w_asked := Suc (w_asked w)\<rparr>"
  let ?f = "resolvePluginCallFunction (de_lib E) (hasFunction E drv) f ctx"
  have u: "untouched w ?w" by (simp add: untouched_def)
  have "w_calls ?w (w_next ?w) = None" using assms(2) by (auto simp: worldInv_def)
  from callPlugin_returns[OF assms(1) this] obtain answer w1
    where call: "run (callPlugin E ctx d drv ?f input (w_callTimeout w)) ?w = Some (answer, w1)" "untouched ?w w1" by blast
  have u1: "untouched w w1" using transpD[OF untouched_order(2) u call(2)] .
  have u2: "untouched w (w1\<lparr>w_asked := Suc (w_asked w1)\<rparr>)" using u1 by (simp add: untouched_def)
  from Some call u u1 u2 show ?thesis
    by (auto simp: executeDriverWithInput_def run_andThen Let_def split: sum.split)
qed

lemma executeLocked_returns:
  assumes code: "\<And>p k f i t. noTCP (de_code E p k f i t)" and "worldInv w"
  shows "\<exists>res w'. run (executeLocked E device r t f ctx input) w = Some (res, w') \<and> untouched w w'"
proof -
  obtain err w1 where a: "run (ensureSerialResource E r t device) w = Some (err, w1)" "untouched w w1"
    using plain_runE[OF plain_same[OF plain_serial(2)]] .
  obtain err2 device' w2 where b: "run (ensureDriverLoaded E device r) w1 = Some ((err2, device'), w2)" "untouched w1 w2"
    using plain_runE[OF plain_ensureDriverLoaded] by (metis prod.exhaust)
  have u: "untouched w w2" using transpD[OF untouched_order(2) a(2) b(2)] .
  have "worldInv w2" using untouched_inv[OF u] assms(2) .
  from executeDriverWithInput_returns[OF code this] obtain res w3
    where c: "run (executeDriverWithInput E (the (dev_DriverID device')) f ctx input) w2 = Some (res, w3)" "untouched w2 w3" by blast
  have "untouched w w3" using transpD[OF untouched_order(2) u c(2)] .
  with a b c u show ?thesis by (auto simp: executeLocked_def run_andThen split: option.split)
qed

lemma executeStarted_returns:
  assumes code: "\<And>p k f i t. noTCP (de_code E p k f i t)" and inv: "worldInv w" and free: "w_locked w = {}"
  shows "\<exists>res w'. run (executeStarted E device f prepared overrides) w = Some (res, w') \<and> w_locked w' = {} \<and>
    w_executing w' = w_executing w \<and> w_calls w' = w_calls w"
proof -
  have prep: "plain untouched (normalizePreparedExecution E device prepared)"
    by (auto simp: normalizePreparedExecution_def intro: plain_Return plain_same[OF plain_resolve(2)])
  obtain p w1 where a: "run (normalizePreparedExecution E device prepared) w = Some (p, w1)" "untouched w w1" using plain_runE[OF prep] .
  obtain b w2 where b: "run (ensureResourcePath E (pe_ResourceID p) (pe_ResourceType p) device) w1 = Some (b, w2)" "untouched w1 w2"
    using plain_runE[OF plain_same[OF plain_ensureResourcePath]] .
  have u: "untouched w w2" using transpD[OF untouched_order(2) a(2) b(2)] .
  obtain ctx input where call: "overriddenCall (de_marshalInput E) overrides (the (pe_Config p)) (the (pe_DriverContext p)) (the (pe_InputJSON p)) = (ctx, input)"
    by force
  have free2: "w_locked w2 = {}" using u free by (simp add: untouched_def)
  obtain l w3 where l: "run (lockResource (pe_ResourceID p)) w2 = Some (l, w3)"
    and w3: "w_executing w3 = w_executing w2" "w_calls w3 = w_calls w2" "w_locked w3 = (case l of None \<Rightarrow> {} | Some m \<Rightarrow> {m})"
    using run_lockResource[OF free2, of "pe_ResourceID p"] free2 by (auto split: if_splits)
  have inv3: "worldInv w3"
    using untouched_inv[OF u inv] l by (auto simp: lockResource_def getResourceLock_def loadOrStoreLock_def run_andThen worldInv_def less_Suc_eq
        split: if_splits option.splits) (auto simp: less_le)
  from executeLocked_returns[OF code inv3] obtain res w4
    where c: "run (executeLocked E device (pe_ResourceID p) (pe_ResourceType p) (resolveExecutionFunction f) ctx input) w3 = Some (res, w4)"
      "untouched w3 w4" by blast
  have "run (executeStarted E device f prepared overrides) w =
      Some (res, case l of None \<Rightarrow> w4 | Some m \<Rightarrow> w4\<lparr>w_locked := w_locked w4 - {m}\<rparr>)"
    using a b call l c by (simp add: executeStarted_def run_andThen run_unlockResource)
  then show ?thesis using u c(2) w3 by (auto simp: untouched_def split: option.splits)
qed

text \<open>C23: An execution that runs alone, with a plugin that makes no network request, returns, whatever the database, the
  ports and the plugin answer: at once with an error when the device has no driver or is being executed already, and in
  every case with all mutexes free, the device's flag as before and no call left over.\<close>
theorem execution_returns:
  assumes "\<And>p k f i t. noTCP (de_code E p k f i t)" and "worldInv w" and "w_locked w = {}"
  shows "\<exists>res w'. run (executePrepared E device f prepared overrides) w = Some (res, w') \<and> w_locked w' = {} \<and>
    w_executing w' = w_executing w \<and> w_calls w' = w_calls w \<and>
    (dev_DriverID device = None \<or> dev_ID device \<in> w_executing w \<longrightarrow> w' = w \<and> (\<exists>e. res = Inl e))"
proof (cases "dev_DriverID device = None \<or> dev_ID device \<in> w_executing w")
  case True
  with assms(3) show ?thesis by (auto simp: executePrepared_def startExecution_def run_andThen)
next
  case False
  let ?w = "w\<lparr>w_executing := insert (dev_ID device) (w_executing w)\<rparr>"
  have "worldInv ?w" "w_locked ?w = {}" using assms(2,3) by (simp_all add: worldInv_def)
  from executeStarted_returns[OF assms(1) this] obtain res w1
    where a: "run (executeStarted E device f prepared overrides) ?w = Some (res, w1)" "w_locked w1 = {}" "w_executing w1 = w_executing ?w"
      "w_calls w1 = w_calls ?w" by blast
  with False have "run (executePrepared E device f prepared overrides) w = Some (res, w1\<lparr>w_executing := w_executing w1 - {dev_ID device}\<rparr>)"
    by (auto simp: executePrepared_def startExecution_def endExecution_def run_andThen)
  with a False show ?thesis by (auto intro!: exI)
qed


section \<open>A request to the network\<close>

lemma GetTCPConn_blocks:
  assumes "w_tcpConns w r = None" and "w_resourcePaths w r = Some path" and "path \<noteq> []" and "0 < r"
    and "w_resourceMux w r = Some m" and "m \<in> w_locked w"
  shows "run (GetTCPConn E r) w = None"
  using assms by (simp add: GetTCPConn_def GetResourcePath_def lockResource_def getResourceLock_def run_andThen)

text \<open>C24: The first network request of a device on a net resource never returns: the execution holds the mutex of the
  resource while the plugin runs, and the host function \<open>tcp_transceive\<close> locks the same mutex before it dials. Even
  alone, with the driver loaded and the resource's path known, the execution waits for ever (no timeout of the call
  reaches a locked mutex); no other part of the program opens the connection, so this holds for every net resource
  that is not connected yet.\<close>
theorem net_request_deadlocks:
  assumes "dev_DriverID device = Some d" and "dev_ID device \<notin> w_executing w" and "w_locked w = {}"
    and "preparedComplete (Some p)" and "pe_ResourceID p = r" and "0 < r" and "pe_ResourceType p = ''net''"
    and "w_tcpConns w r = None" and "w_resourcePaths w r = Some path" and "path \<noteq> []"
    and "w_drivers w d = Some drv" and "wd_resourceID drv = r"
    and "hasFunction E drv (resolvePluginCallFunction (de_lib E) (hasFunction E drv) (resolveExecutionFunction f) (the (pe_DriverContext p)))"
    and "\<And>k g i t. \<exists>a b c e h j rest. de_code E (wd_plugin drv) k g i t = HostCall (TCPTransceive a b c e h j) rest"
  shows "run (executePrepared E device f (Some p) []) w = None"
proof -
  let ?w = "w\<lparr>w_executing := insert (dev_ID device) (w_executing w)\<rparr>" and ?ctx = "the (pe_DriverContext p)" and ?input = "the (pe_InputJSON p)"
  have "w_locked ?w = {}" using assms(3) by simp
  from run_lockResource[OF this, of r] assms(6) obtain m w1
    where l: "run (lockResource r) ?w = Some (Some m, w1)" and w1: "w_locked w1 = {m}" "w_resourceMux w1 r = Some m"
      "w_drivers w1 = w_drivers w" "w_tcpConns w1 = w_tcpConns w" "w_resourcePaths w1 = w_resourcePaths w" by auto
  have stuck: "run (interp E r (de_code E (wd_plugin drv) k g i t)) v = None"
    if "w_tcpConns v = w_tcpConns w" "w_resourcePaths v = w_resourcePaths w" "w_resourceMux v r = Some m" "m \<in> w_locked v" for k g i t v
  proof -
    have "run (GetTCPConn E r) v = None" using GetTCPConn_blocks[of v r path m E] that assms by simp
    moreover obtain a b c e h j rest where "de_code E (wd_plugin drv) k g i t = HostCall (TCPTransceive a b c e h j) rest"
      using assms(14) by blast
    ultimately show ?thesis by (simp add: tcp_transceive_def run_andThen)
  qed
  have call: "run (callPlugin E ?ctx d drv g i t) v = None"
    if "w_tcpConns v = w_tcpConns w" "w_resourcePaths v = w_resourcePaths w" "w_resourceMux v r = Some m" "m \<in> w_locked v" for g i t v
    using that assms(12) by (simp add: callPlugin_def beginCall_def run_andThen stuck)
  have "run (executeLocked E device r ''net'' (resolveExecutionFunction f) ?ctx ?input) w1 = None"
    using assms w1 by (simp add: executeLocked_def ensureSerialResource_def ensureDriverLoaded_def IsLoaded_def GetDriver_def
        executeDriverWithInput_def run_andThen Let_def call)
  then have "run (executeStarted E device f (Some p) []) ?w = None"
    using assms l by (simp add: executeStarted_def normalizePreparedExecution_def ensureResourcePath_def GetResourcePath_def overriddenCall_def
        run_andThen Let_def)
  then show ?thesis using assms(1,2) by (simp add: executePrepared_def startExecution_def run_andThen)
qed

section \<open>Which plugin a call reaches\<close>

text \<open>Every driver is used with one resource only.\<close>

definition boundWorld :: "(int \<Rightarrow> int) \<Rightarrow> world \<Rightarrow> bool" where
  "boundWorld R w \<longleftrightarrow> (\<forall>d drv. w_drivers w d = Some drv \<longrightarrow> wd_resourceID drv = R d) \<and>
     (\<forall>i c. w_calls w i = Some c \<longrightarrow> pc_resource c = R (pc_driver c) \<and> pc_boundTo c = R (pc_driver c))"

definition usesOwn :: "(int \<Rightarrow> int) \<Rightarrow> Device \<Rightarrow> bool" where
  "usesOwn R device \<longleftrightarrow> (case dev_DriverID device of None \<Rightarrow> True
     | Some d \<Rightarrow> 0 < resolveDeviceResourceID device \<and> resolveDeviceResourceID device = R d)"

definition loadsOwn :: "driverEnv \<Rightarrow> (int \<Rightarrow> int) \<Rightarrow> Driver \<Rightarrow> int \<Rightarrow> bool" where
  "loadsOwn E R drv r \<longleftrightarrow> R (dm_ID drv) \<noteq> 0 \<and>
     (if r = 0 then parseDriverResourceID (de_unmarshalResourceID E) (dm_ConfigSchema drv) else r) = R (dm_ID drv)"

fun ownResources :: "driverEnv \<Rightarrow> (int \<Rightarrow> int) \<Rightarrow> driverOp \<Rightarrow> bool" where
  "ownResources E R (OpExecute device) = usesOwn R device"
| "ownResources E R (OpCommand device f overrides) = usesOwn R device"
| "ownResources E R (OpPrepared device f prepared overrides) = (usesOwn R device \<and> (case prepared of None \<Rightarrow> True
     | Some p \<Rightarrow> preparedMatches device p \<and> pe_ResourceID p = resolveDeviceResourceID device))"
| "ownResources E R (OpReload device) = usesOwn R device"
| "ownResources E R (OpLoad drv r) = loadsOwn E R drv r"
| "ownResources E R (OpDirectCall d f ctx) = (dx_ResourceID ctx = R d)"
| "ownResources E R _ = True"

text \<open>The rows of the driver table are found by their id, and are there.\<close>

definition rowsFound :: "driverEnv \<Rightarrow> bool" where
  "rowsFound E \<longleftrightarrow> (\<forall>k d. (case de_loadDriver E k d of Inr drv \<Rightarrow> dm_ID drv = d | Inl NoRows \<Rightarrow> False | Inl (QueryError e) \<Rightarrow> True))"

lemma boundWorld_same: "sameDrivers w w' \<Longrightarrow> boundWorld R w \<Longrightarrow> boundWorld R w'"
  by (simp add: boundWorld_def sameDrivers_def untouched_def)

lemma always_same: "plain sameDrivers p \<Longrightarrow> always (boundWorld R) (\<lambda>_. True) p"
  by (rule always_plain[where U = sameDrivers]) (auto intro: boundWorld_same)

lemma always_step: "(\<And>w. w_drivers (fst (f w)) = w_drivers w \<and> w_calls (fst (f w)) = w_calls w) \<Longrightarrow> always (boundWorld R) (\<lambda>_. True) (act f)"
  by (rule always_act) (simp add: boundWorld_def)

lemma always_True: "always P (\<lambda>_. True) p \<Longrightarrow> (\<And>a. always P Q (f a)) \<Longrightarrow> always P Q (andThen p f)"
  by (rule always_andThen) auto

lemma always_lockMutex: "always (boundWorld R) (\<lambda>_. True) (lockMutex m)"
  unfolding lockMutex_def by (rule always_Atomic) (auto simp: boundWorld_def intro: always_Return split: if_splits)

lemma always_locks:
  "always (boundWorld R) (\<lambda>_. True) (lockResource r)" "always (boundWorld R) (\<lambda>_. True) (unlockResource l)"
proof -
  show "always (boundWorld R) (\<lambda>_. True) (lockResource r)"
    unfolding lockResource_def getResourceLock_def loadOrStoreLock_def
    by (auto intro!: always_True always_lockMutex always_step always_same[OF plain_basic(1)] always_same[OF plain_basic(2)] split: option.split)
  show "always (boundWorld R) (\<lambda>_. True) (unlockResource l)"
    unfolding unlockResource_def unlockMutex_def change_def
    by (auto intro!: always_step always_Return split: option.split)
qed

lemma always_GetTCPConn: "always (boundWorld R) (\<lambda>_. True) (GetTCPConn E r)"
  unfolding GetTCPConn_def
  by (auto intro!: always_True always_locks always_same[OF plain_basic(1)] always_same[OF plain_basic(2)] always_same[OF plain_tables(2)]
      always_same[OF plain_dialLocked] split: option.split)

lemma always_hostFunction: "always (boundWorld R) (\<lambda>_. True) (hostFunction E r c)"
proof (cases c)
  case (TCPTransceive a b e f g h)
  then show ?thesis
    by (auto simp: tcp_transceive_def intro!: always_True always_GetTCPConn always_same[OF plain_basic(1)] always_same[OF plain_basic(2)]
        always_same[OF plain_basic(3)] always_same[OF plain_tables(4)] split: routine_splits)
qed (auto intro!: always_same plain_hostFunction simp del: hostFunction.simps)

lemma always_interp: "always (boundWorld R) (\<lambda>_. True) (interp E r code)"
  by (induction code) (auto intro!: always_True always_hostFunction always_Return)

lemma always_callPlugin:
  assumes "dx_ResourceID ctx = R d" and "wd_resourceID drv = R d"
  shows "always (boundWorld R) (\<lambda>_. True) (callPlugin E ctx d drv f input t)"
proof -
  have "always (boundWorld R) (\<lambda>_. True) (beginCall ctx d drv)"
    unfolding beginCall_def by (rule always_act) (use assms in \<open>auto simp: boundWorld_def\<close>)
  moreover have "always (boundWorld R) (\<lambda>_. True) (endCall i)" for i
    unfolding endCall_def change_def by (rule always_act) (auto simp: boundWorld_def)
  ultimately show ?thesis
    unfolding callPlugin_def by (intro always_True always_interp always_same[OF plain_basic(3)]) (auto intro: always_Return)
qed

lemma always_execute:
  assumes "dx_ResourceID ctx = R d"
  shows "always (boundWorld R) (\<lambda>_. True) (executeDriverWithInput E d f ctx input)"
  unfolding executeDriverWithInput_def
proof (rule always_andThen)
  show "always (boundWorld R) (\<lambda>(drv, _). \<forall>l. drv = Some l \<longrightarrow> wd_resourceID l = R d) (look (\<lambda>w. (w_drivers w d, w_callTimeout w)))"
    unfolding look_def by (rule always_act) (auto simp: boundWorld_def)
qed (auto simp: Let_def intro!: always_True always_step always_callPlugin[where R = R and d = d and ctx = ctx, OF assms] always_same[OF plain_basic(1)] always_same[OF plain_basic(3)]
    split: routine_splits)

lemma always_manager:
  "always (boundWorld R) (\<lambda>_. True) (UnloadDriver d)"
  "r \<noteq> 0 \<Longrightarrow> r = R (dm_ID drv) \<Longrightarrow> always (boundWorld R) (\<lambda>_. True) (LoadDriver E drv bytes r)"
proof -
  show "always (boundWorld R) (\<lambda>_. True) (UnloadDriver d)"
    unfolding UnloadDriver_def by (rule always_act) (auto simp: boundWorld_def split: option.split)
  assume "r \<noteq> 0" "r = R (dm_ID drv)"
  then show "always (boundWorld R) (\<lambda>_. True) (LoadDriver E drv bytes r)"
    unfolding LoadDriver_def
    by (auto intro!: always_Return always_act simp: boundWorld_def loadSection_def Let_def split: option.split sum.split)
qed

lemma always_load: "loadsOwn E R drv r \<Longrightarrow> always (boundWorld R) (\<lambda>_. True) (LoadDriverFromModel E drv r)"
  unfolding LoadDriverFromModel_def ReloadDriver_def Let_def loadsOwn_def
  by (auto intro!: always_True always_manager always_same[OF plain_basic(1)] always_same[OF plain_tables(12)] always_same[OF plain_version(2)]
      split: routine_splits)

lemma always_loadResolved: "loadsOwn E R drv r \<Longrightarrow> always (boundWorld R) (\<lambda>_. True) (loadResolved E d drv r)"
  unfolding loadResolved_def Let_def
  by (auto intro!: always_True always_load always_same[OF plain_basic(1)] always_same[OF plain_basic(3)] always_same[OF plain_version(1)]
      simp: loadsOwn_def split: routine_splits)

lemma always_ensure:
  assumes "rowsFound E" and "dev_DriverID device = Some d" and "0 < r" and "r = R d"
  shows "always (boundWorld R) (\<lambda>(_, device'). device' = device) (ensureDriverLoaded E device r)"
proof -
  have answer: "always (boundWorld R) (\<lambda>a. \<exists>k. a = de_loadDriver E k d) (ask (\<lambda>k. de_loadDriver E k d))"
    unfolding ask_def by (rule always_act) (auto simp: boundWorld_def)
  have load: "always (boundWorld R) (\<lambda>(_, device'). device' = device) (loadFromDatabase E device d r)"
    unfolding loadFromDatabase_def
  proof (rule always_andThen[OF answer])
    fix a
    assume "\<exists>k. a = de_loadDriver E k d"
    then obtain k where k: "a = de_loadDriver E k d" by blast
    have row: "case a of Inr drv \<Rightarrow> dm_ID drv = d | Inl NoRows \<Rightarrow> False | Inl (QueryError e) \<Rightarrow> True"
      using assms(1) unfolding k rowsFound_def by blast
    show "always (boundWorld R) (\<lambda>(_, device'). device' = device) (case a of
          Inr drv \<Rightarrow> andThen (loadResolved E d drv r) (\<lambda>err. Return (err, device))
        | Inl (QueryError e) \<Rightarrow> Return (Some (ErrDriverNotFound (''query driver failed: '' @ e)), device)
        | Inl NoRows \<Rightarrow> andThen (recoverMissingDriverBinding E device) (\<lambda>recovered. case recovered of
            None \<Rightarrow> Return (Some (ErrDriverNotFound ''not found in database''), device)
          | Some (drv, device') \<Rightarrow> andThen (loadResolved E (dm_ID drv) drv r) (\<lambda>err. Return (err, device'))))"
      using row assms(3,4)
      by (auto simp: loadsOwn_def intro!: always_Return always_True always_loadResolved split: sum.splits driverQueryError.splits)
  qed
  show ?thesis
    unfolding ensureDriverLoaded_def Let_def assms(2)
    by (auto intro!: always_True[OF always_same[OF plain_tables(12)]] always_True[OF always_same[OF plain_tables(13)]] load[simplified] always_Return
        split: routine_splits)
qed


lemma preparedFor_resource [simp]: "pe_ResourceID (preparedFor marshal device resource) = fst resource"
  by (simp add: preparedFor_def Let_def)

lemma always_prepare:
  "always (boundWorld R) (\<lambda>p. goodPrepared device p \<and> pe_ResourceID p = resolveDeviceResourceID device) (NewPreparedExecution E device)"
proof -
  have "always (boundWorld R) (\<lambda>res. fst res = resolveDeviceResourceID device) (resolveDeviceResource E device)"
    unfolding resolveDeviceResource_def Let_def
    by (auto intro!: always_Return always_andThen[OF always_same] simp: resolveResourceTypeFromDatabase_def intro!: plain_intros split: if_splits)
  then show ?thesis
    unfolding NewPreparedExecution_def
    by (rule always_andThen) (auto intro!: always_Return goodPrepared_new)
qed

lemma always_executePrepared:
  assumes rows: "rowsFound E" and own: "usesOwn R device"
    and prep: "case prepared of None \<Rightarrow> True | Some p \<Rightarrow> preparedMatches device p \<and> pe_ResourceID p = resolveDeviceResourceID device"
  shows "always (boundWorld R) (\<lambda>_. True) (executePrepared E device f prepared overrides)"
proof (cases "dev_DriverID device")
  case None
  then show ?thesis by (simp add: executePrepared_def always_Return)
next
  case (Some d)
  let ?r = "resolveDeviceResourceID device"
  have r: "0 < ?r" "?r = R d" using own Some by (auto simp: usesOwn_def)
  have locked: "always (boundWorld R) (\<lambda>_. True) (executeLocked E device ?r t g ctx input)" if "dx_ResourceID ctx = ?r" for t g ctx input
  proof -
    have "always (boundWorld R) (\<lambda>_. True) (andThen (ensureDriverLoaded E device ?r) (\<lambda>(err, device'). case err of Some e \<Rightarrow> Return (Inl e)
        | None \<Rightarrow> executeDriverWithInput E (the (dev_DriverID device')) g ctx input))"
      by (rule always_andThen[OF always_ensure[where R = R, OF rows Some r]])
        (use that r(2) Some in \<open>auto intro!: always_Return always_execute split: option.split\<close>)
    then show ?thesis
      unfolding executeLocked_def
      by (auto intro!: always_True[OF always_same[OF plain_serial(2)]] always_Return split: option.split)
  qed
  have norm: "always (boundWorld R) (\<lambda>p. goodPrepared device p \<and> pe_ResourceID p = ?r) (normalizePreparedExecution E device prepared)"
  proof (cases "preparedComplete prepared")
    case True
    with prep show ?thesis
      by (cases prepared) (auto simp: normalizePreparedExecution_def goodPrepared_def preparedComplete_def intro!: always_Return)
  qed (simp add: normalizePreparedExecution_def always_prepare)
  have started: "always (boundWorld R) (\<lambda>_. True) (executeStarted E device f prepared overrides)"
    unfolding executeStarted_def
  proof (rule always_andThen[OF norm])
    fix p
    assume p: "goodPrepared device p \<and> pe_ResourceID p = ?r"
    obtain ctx input where call: "overriddenCall (de_marshalInput E) overrides (the (pe_Config p)) (the (pe_DriverContext p)) (the (pe_InputJSON p)) = (ctx, input)"
      by force
    have "dx_ResourceID ctx = ?r"
      using overridden_context[OF call] p by (auto simp: goodPrepared_def preparedComplete_def preparedMatches_def)
    note run = locked[OF this]
    show "always (boundWorld R) (\<lambda>_. True) (andThen (ensureResourcePath E (pe_ResourceID p) (pe_ResourceType p) device) (\<lambda>_.
         case overriddenCall (de_marshalInput E) overrides (the (pe_Config p)) (the (pe_DriverContext p)) (the (pe_InputJSON p)) of
           (ctx, input) \<Rightarrow> andThen (lockResource (pe_ResourceID p)) (\<lambda>l.
               andThen (executeLocked E device (pe_ResourceID p) (pe_ResourceType p) (resolveExecutionFunction f) ctx input) (\<lambda>res.
                 andThen (unlockResource l) (\<lambda>_. Return res)))))"
      using p run call
      by (auto intro!: always_True[OF always_same[OF plain_ensureResourcePath]] always_True[OF always_locks(1)] always_True[OF run]
          always_True[OF always_locks(2)] always_Return)
  qed
  have flags: "always (boundWorld R) (\<lambda>_. True) (startExecution device)" "always (boundWorld R) (\<lambda>_. True) (endExecution device)"
    unfolding startExecution_def endExecution_def change_def by (auto intro!: always_step)
  show ?thesis
    unfolding executePrepared_def
    by (auto intro!: always_True[OF flags(1)] always_True[OF started] always_True[OF flags(2)] always_Return split: option.split)
qed

lemma always_forget: "always P Q p \<Longrightarrow> always P (\<lambda>_. True) (forget p)"
  unfolding forget_def by (erule always_andThen) (auto intro: always_Return)

lemma always_change: "(\<And>w. w_drivers (f w) = w_drivers w \<and> w_calls (f w) = w_calls w) \<Longrightarrow> always (boundWorld R) (\<lambda>_. True) (change f)"
  unfolding change_def by (rule always_step) simp

lemma close_keeps: "w_drivers (fold closeTCP ids (fold closeSerial ids w)) = w_drivers w \<and> w_calls (fold closeTCP ids (fold closeSerial ids w)) = w_calls w"
proof -
  have a: "w_drivers (fold closeSerial ids w) = w_drivers w \<and> w_calls (fold closeSerial ids w) = w_calls w" for w
    by (induction ids arbitrary: w) (auto simp: closeSerial_def split: option.split)
  have b: "w_drivers (fold closeTCP ids w) = w_drivers w \<and> w_calls (fold closeTCP ids w) = w_calls w" for w
    by (induction ids arbitrary: w) (auto simp: closeTCP_def split: option.split)
  show ?thesis using a b by simp
qed

lemma always_opRoutine:
  assumes rows: "rowsFound E" and op: "ownResources E R oper"
  shows "always (boundWorld R) (\<lambda>_. True) (opRoutine E oper)"
proof -
  have start: "always (boundWorld R) (\<lambda>_. True)
      (andThen (NewPreparedExecution E device) (\<lambda>p. executePrepared E device f (Some p) overrides))" if "usesOwn R device" for device f overrides
    by (rule always_andThen[OF always_prepare]) (auto intro!: always_executePrepared rows that simp: goodPrepared_def)
  have close: "w_drivers (closeTCP r (closeSerial r w)) = w_drivers w \<and> w_calls (closeTCP r (closeSerial r w)) = w_calls w" for r w
    using close_keeps[of "[r]" w] by simp
  have resource: "always (boundWorld R) (\<lambda>_. True) (CloseResource r)" "always (boundWorld R) (\<lambda>_. True) (CloseAllResources ids)" for r ids
    unfolding CloseResource_def CloseAllResources_def by (auto intro!: always_change simp: Let_def close close_keeps)
  have reload: "always (boundWorld R) (\<lambda>_. True) (ReloadDeviceDriver E device)" if "usesOwn R device" for device
  proof (cases "dev_DriverID device")
    case (Some d)
    have "always (boundWorld R) (\<lambda>res. fst res = resolveDeviceResourceID device) (resolveDeviceResource E device)"
      unfolding resolveDeviceResource_def Let_def
      by (auto intro!: always_Return always_andThen[OF always_same] simp: resolveResourceTypeFromDatabase_def intro!: plain_intros split: if_splits)
    then show ?thesis
      unfolding ReloadDeviceDriver_def using Some that
      by (auto intro!: always_andThen always_Return always_weaken[OF always_ensure[where R = R, OF rows Some]] simp: usesOwn_def split: prod.split)
  qed (auto simp: ReloadDeviceDriver_def intro: always_Return)
  note same = always_same[OF plain_tables(5)] always_same[OF plain_tables(9)] always_same[OF plain_tables(10)] always_same[OF plain_tables(11)]
  have refresh: "always (boundWorld R) (\<lambda>_. True) (RefreshResource E res)" for res
    by (auto simp: RefreshResource_def intro!: always_Return same resource split: option.split)
  show ?thesis
    using op
    by (cases oper)
      (auto simp: Execute_driver_def ExecuteCommand_def ExecuteDriver_def refresh same resource intro!: always_forget[OF start]
        always_forget[OF always_executePrepared] always_forget[OF reload] always_forget[OF always_load] always_forget[OF always_manager(1)]
        always_forget[OF always_execute] rows)
qed

text \<open>C22: When every driver is used with one resource only (and the driver table answers), each running call has the
  plugin instance that was made for its own resource, under every interleaving, reloads,
  direct calls and closed resources included: its host functions reach no other port or connection.\<close>
theorem call_on_own_resource:
  assumes "pool (opRoutine E ` Collect (ownResources E R)) w0 (ts, w)" and "rowsFound E"
    and "w_drivers w0 = Map.empty" and "w_calls w0 = Map.empty" and "w_calls w i = Some c"
  shows "pc_boundTo c = pc_resource c"
proof -
  have "boundWorld R w0" using assms(3,4) by (simp add: boundWorld_def)
  with pool_always[OF assms(1), of "boundWorld R"] always_opRoutine[OF assms(2)] have "boundWorld R w" by auto
  with assms(5) show ?thesis by (auto simp: boundWorld_def)
qed

section \<open>Examples\<close>

text \<open>Two devices with one driver on two serial ports.\<close>

definition exampleDriverEnv :: driverEnv where
  "exampleDriverEnv = \<lparr>de_lib = \<lparr>uniLower = id, uniUpper = id, parseFloat = \<lambda>_. None, formatFloat = \<lambda>_ _. []\<rparr>, de_hasDB = True,
     de_loadResource = (\<lambda>k r. Inr \<lparr>rs_ID = r, rs_Name = ''bus'', rs_Type = ''serial'', rs_Path = ''/dev/ttyS0'', rs_Enabled = 1\<rparr>),
     de_loadDriver = (\<lambda>k d. Inr \<lparr>dm_ID = d, dm_Name = ''meter'', dm_FilePath = ''m.wasm'', dm_Version = [], dm_ConfigSchema = [], dm_Enabled = 1\<rparr>),
     de_driverByName = (\<lambda>k n. Inl NoRows), de_updateDeviceDriverID = (\<lambda>k d e. None), de_updateDriverVersion = (\<lambda>k d v. None),
     de_openSerial = (\<lambda>k path m. None), de_serialRead = (\<lambda>k port n. ([], None)), de_serialWrite = (\<lambda>k port b. Inr (length b)),
     de_serialReads = (\<lambda>k port t. []), de_dial = (\<lambda>k path t. None), de_tcpWrite = (\<lambda>k c b. None), de_tcpStream = (\<lambda>k c t. []),
     de_readFile = (\<lambda>k path. Some ''wasm''), de_cwd = None, de_executableDir = None, de_join = concat,
     de_newPlugin = (\<lambda>k n bytes r. None), de_exports = (\<lambda>plugin. [''handle'']), de_functionExists = (\<lambda>plugin f. False),
     de_versionCall = (\<lambda>k plugin. Inl []), de_code = (\<lambda>plugin k f input t. Finish (Inr (0, ''{}'', [], []))),
     de_marshalInput = (\<lambda>ctx. ''{}''), de_unmarshalResult = (\<lambda>out. Inr blankResult), de_unmarshalProbe = (\<lambda>out. None),
     de_unmarshalResourceID = (\<lambda>schema. None), de_unmarshalVersion = (\<lambda>out. Inl []), de_sprint = (\<lambda>v. []), de_now = int\<rparr>"

definition exampleMeter :: "int \<Rightarrow> int \<Rightarrow> string \<Rightarrow> Device" where
  "exampleMeter d r t = \<lparr>dev_ID = d, dev_Name = ''meter'', dev_Description = [], dev_ProductKey = [], dev_DeviceKey = [],
     dev_DriverType = [], dev_SerialPort = [], dev_BaudRate = 9600, dev_DataBits = 8, dev_StopBits = 1, dev_Parity = ''N'',
     dev_IPAddress = [], dev_PortNum = 0, dev_DeviceAddress = [], dev_CollectInterval = 1000, dev_StorageInterval = 60,
     dev_Timeout = 0, dev_DriverID = Some 7, dev_ResourceID = Some r, dev_ResourceType = t, dev_Enabled = 1\<rparr>"

definition exampleWorld :: world where
  "exampleWorld = \<lparr>w_serialPorts = Map.empty, w_tcpConns = Map.empty, w_resourcePaths = Map.empty, w_resourceMux = Map.empty,
     w_locked = {}, w_executing = {}, w_times = \<lparr>et_serialTimeout = 0, et_serialOpenRetries = 0, et_serialOpenBackoff = 0,
     et_tcpDialTimeout = 0, et_tcpDialRetries = 0, et_tcpDialBackoff = 0, et_tcpReadTimeout = 0\<rparr>, w_drivers = Map.empty,
     w_callTimeout = 0, w_lastActive = Map.empty, w_closed = {}, w_calls = Map.empty, w_next = 0, w_asked = 0\<rparr>"

lemma example_idle: "idle exampleWorld"
  by (simp add: idle_def exampleWorld_def)

lemma example_env [simp]:
  "de_hasDB exampleDriverEnv = True"
  "de_loadResource exampleDriverEnv k r = Inr \<lparr>rs_ID = r, rs_Name = ''bus'', rs_Type = ''serial'', rs_Path = ''/dev/ttyS0'', rs_Enabled = 1\<rparr>"
  "de_loadDriver exampleDriverEnv k d = Inr \<lparr>dm_ID = d, dm_Name = ''meter'', dm_FilePath = ''m.wasm'', dm_Version = [], dm_ConfigSchema = [], dm_Enabled = 1\<rparr>"
  "de_openSerial exampleDriverEnv k path m = None" "de_readFile exampleDriverEnv k path = Some ''wasm''"
  "de_newPlugin exampleDriverEnv k n bytes r = None" "de_exports exampleDriverEnv p = [''handle'']" "de_functionExists exampleDriverEnv p f = False"
  "de_code exampleDriverEnv p k f i t = Finish (Inr (0, ''{}'', [], []))" "de_marshalInput exampleDriverEnv ctx = ''{}''"
  by (simp_all add: exampleDriverEnv_def)

lemma example_strings [simp]: "lowerTrim (de_lib exampleDriverEnv) ''serial'' = ''serial''" "TrimSpace ''handle'' = ''handle''" "TrimSpace ''m.wasm'' = ''m.wasm''"
  by code_simp+

lemma example_device [simp]: "dev_ID (exampleMeter d r t) = d" "dev_DriverID (exampleMeter d r t) = Some 7" "dev_ResourceID (exampleMeter d r t) = Some r"
  "dev_ResourceType (exampleMeter d r t) = t" "dev_IPAddress (exampleMeter d r t) = []" "dev_Name (exampleMeter d r t) = ''meter''"
  by (simp_all add: exampleMeter_def)

lemmas routine_defs = forget_def Execute_driver_def NewPreparedExecution_def resolveDeviceResource_def resolveDeviceResourceID_def
  executePrepared_def startExecution_def act_def look_def change_def ask_def executeStarted_def normalizePreparedExecution_def preparedComplete_def
  preparedFor_def ensureResourcePath_def overriddenCall_def lockResource_def getResourceLock_def loadOrStoreLock_def lockMutex_def
  executeLocked_def ensureSerialResource_def ensureSerialPort_def GetSerialPort_def serialOpenAttempts_def openSerialPort_def RegisterSerialPort_def
  ensureDriverLoaded_def IsLoaded_def GetDriver_def loadFromDatabase_def loadResolved_def LoadDriverFromModel_def readWasmFile_def wasmCandidates_def
  ReloadDriver_def LoadDriver_def loadSection_def extractDriverMetadataFromPlugin_def UnloadDriver_def GetDriverVersion_def
  executeDriverWithInput_def resolveExecutionFunction_def defaultDriverFunction_def resolvePluginCallFunction_def hasFunction_def callPlugin_def beginCall_def
  buildDriverContext_def exampleWorld_def


definition twoMeters :: "(world, unit) routine list" where
  "twoMeters = map (opRoutine exampleDriverEnv) [OpExecute (exampleMeter 1 1 ''serial''), OpExecute (exampleMeter 2 2 ''serial'')]"

text \<open>The first meter's execution up to its call; and the two meters, where the second makes the driver its own
  between the first one's check of the driver and its call.\<close>

definition firstAlone :: "nat list" where
  "firstAlone = [0,0,0,0,0,0,0,0,0,0,0,0,0,0,0,0,0,0,0]"

definition bothInCall :: "nat list" where
  "bothInCall = firstAlone @ [1,1,1,1,1,1,1,1,1,1,1,1,1,1,1,1,1,1,1,1,1]"

definition driverStolen :: "nat list" where
  "driverStolen = [0,0,0,0,0,0,0,0,0,0,0,0,0,0,0,0, 1,1,1,1,1,1,1,1,1,1,1,1,1,1,1,1, 0,0,0]"

lemma first_in_call:
  "\<exists>ts w c. schedule firstAlone ([opRoutine exampleDriverEnv (OpExecute (exampleMeter 1 1 ''serial''))], exampleWorld) = Some (ts, w) \<and>
     w_calls w 3 = Some c \<and> pc_resource c = 1"
  by (simp add: firstAlone_def routine_defs Let_def)

lemma both_in_call:
  "\<exists>ts w c c'. schedule bothInCall (twoMeters, exampleWorld) = Some (ts, w) \<and> w_calls w 3 = Some c \<and> w_calls w 7 = Some c' \<and> 0 < pc_resource c"
  by (simp add: bothInCall_def firstAlone_def twoMeters_def routine_defs Let_def)

lemma stolen_call:
  "\<exists>ts w c. schedule driverStolen (twoMeters, exampleWorld) = Some (ts, w) \<and> w_calls w 6 = Some c \<and> pc_resource c = 1 \<and> pc_boundTo c = 2"
  by (simp add: driverStolen_def twoMeters_def routine_defs Let_def)

text \<open>A driver that two devices on different resources share is reloaded for each; a device whose execution has
  checked the driver but not yet called it then calls the instance of the other's resource, whose mutex it does not
  hold: its request goes to the wrong bus.\<close>
theorem shared_driver_wrong_resource:
  "\<exists>E w0 ts w i c. idle w0 \<and> pool (opRoutine E ` Collect (orderly E)) w0 (ts, w) \<and> w_calls w i = Some c \<and>
     0 < pc_resource c \<and> 0 < pc_boundTo c \<and> pc_resource c \<noteq> pc_boundTo c"
proof -
  obtain ts w c where run: "schedule driverStolen (twoMeters, exampleWorld) = Some (ts, w)" and c: "w_calls w 6 = Some c" "pc_resource c = 1" "pc_boundTo c = 2"
    using stolen_call by blast
  have "pool (opRoutine exampleDriverEnv ` Collect (orderly exampleDriverEnv)) exampleWorld (ts, w)"
    by (rule schedule_pool[OF pool_spawned run]) (auto simp: twoMeters_def simp del: opRoutine.simps)
  with c show ?thesis
    by (intro exI[of _ exampleDriverEnv] exI[of _ exampleWorld] exI[of _ ts] exI[of _ w] exI[of _ 6] exI[of _ c]) (simp add: example_idle)
qed


theorem executions_exclusive_witness:
  "\<exists>ts w c c'. schedule bothInCall (twoMeters, exampleWorld) = Some (ts, w) \<and> w_calls w 3 = Some c \<and> w_calls w 7 = Some c' \<and>
     pc_device c \<noteq> pc_device c' \<and> pc_resource c \<noteq> pc_resource c'"
proof -
  obtain ts w c c' where run: "schedule bothInCall (twoMeters, exampleWorld) = Some (ts, w)"
    and c: "w_calls w 3 = Some c" "w_calls w 7 = Some c'" "0 < pc_resource c" using both_in_call by blast
  have pool: "pool (opRoutine exampleDriverEnv ` Collect (orderly exampleDriverEnv)) exampleWorld (ts, w)"
    by (rule schedule_pool[OF pool_spawned run]) (auto simp: twoMeters_def simp del: opRoutine.simps)
  have "\<not> (pc_device c = pc_device c' \<or> 0 < pc_resource c \<and> pc_resource c = pc_resource c')"
  proof
    assume "pc_device c = pc_device c' \<or> 0 < pc_resource c \<and> pc_resource c = pc_resource c'"
    with c executions_exclusive[OF pool example_idle] have "(3::nat) = 7" by blast
    then show False by simp
  qed
  with run c show ?thesis by blast
qed

theorem execution_returns_witness:
  "\<exists>res w'. run (executePrepared exampleDriverEnv (exampleMeter 1 1 ''serial'') ''handle'' None []) exampleWorld = Some (res, w') \<and>
     w_locked w' = {} \<and> w_executing w' = {}"
proof -
  have "noTCP (de_code exampleDriverEnv p k f i t)" for p k f i t by simp
  moreover have "worldInv exampleWorld" "w_locked exampleWorld = {}" "w_executing exampleWorld = {}" by (simp_all add: exampleWorld_def worldInv_def)
  ultimately show ?thesis
    using execution_returns[of exampleDriverEnv exampleWorld "exampleMeter 1 1 ''serial''" "''handle''" None "[]"] by auto
qed

text \<open>A plugin that asks its device over the network.\<close>

definition networkEnv :: driverEnv where
  "networkEnv = exampleDriverEnv\<lparr>de_code := \<lambda>plugin k f input t. HostCall (TCPTransceive 8 12 64 256 0 []) (\<lambda>reply. Finish (Inr (0, ''{}'', [], [])))\<rparr>"

definition networkDriver :: WasmDriver where
  "networkDriver = \<lparr>wd_ID = 7, wd_Name = ''meter'', wd_plugin = 4, wd_config = [], wd_resourceID = 5, wd_exportedFunctions = [''handle''],
     wd_version = [], wd_productKey = []\<rparr>"

definition networkWorld :: world where
  "networkWorld = exampleWorld\<lparr>w_resourcePaths := [5 \<mapsto> ''10.0.0.1:502''], w_drivers := [7 \<mapsto> networkDriver]\<rparr>"

theorem net_request_deadlocks_witness:
  "run (executePrepared networkEnv (exampleMeter 1 5 ''net'') ''handle'' (Some (preparedFor (\<lambda>_. ''{}'') (exampleMeter 1 5 ''net'') (5, ''net''))) []) networkWorld = None"
proof -
  let ?m = "exampleMeter 1 5 ''net''" and ?p = "preparedFor (\<lambda>_. ''{}'') (exampleMeter 1 5 ''net'') (5, ''net'')"
  have w: "w_locked networkWorld = {}" "dev_ID ?m \<notin> w_executing networkWorld" "w_tcpConns networkWorld 5 = None"
    "w_resourcePaths networkWorld 5 = Some ''10.0.0.1:502''" "w_drivers networkWorld 7 = Some networkDriver"
    by (simp_all add: networkWorld_def exampleWorld_def)
  have p: "preparedComplete (Some ?p)" "pe_ResourceID ?p = 5" "pe_ResourceType ?p = ''net''"
    by (simp_all add: preparedFor_def preparedComplete_def Let_def)
  have fn: "hasFunction networkEnv networkDriver
      (resolvePluginCallFunction (de_lib networkEnv) (hasFunction networkEnv networkDriver) (resolveExecutionFunction ''handle'') (the (pe_DriverContext ?p)))"
    by (simp add: hasFunction_def networkDriver_def resolvePluginCallFunction_def resolveExecutionFunction_def Let_def)
  have code: "\<exists>a b c e h j rest. de_code networkEnv (wd_plugin networkDriver) k g i t = HostCall (TCPTransceive a b c e h j) rest" for k g i t
    by (simp add: networkEnv_def)
  show ?thesis
    using net_request_deadlocks[OF _ w(2,1) p(1,2) _ p(3) w(3,4) _ w(5) _ fn code] by (simp add: networkDriver_def)
qed

theorem call_on_own_resource_witness:
  "\<exists>ts w c. schedule firstAlone ([opRoutine exampleDriverEnv (OpExecute (exampleMeter 1 1 ''serial''))], exampleWorld) = Some (ts, w) \<and>
     w_calls w 3 = Some c \<and> pc_boundTo c = 1"
proof -
  let ?ts = "[opRoutine exampleDriverEnv (OpExecute (exampleMeter 1 1 ''serial''))]"
  obtain ts w c where run: "schedule firstAlone (?ts, exampleWorld) = Some (ts, w)" and c: "w_calls w 3 = Some c" "pc_resource c = 1"
    using first_in_call by blast
  have "ownResources exampleDriverEnv (\<lambda>_. 1) (OpExecute (exampleMeter 1 1 ''serial''))" by (simp add: usesOwn_def resolveDeviceResourceID_def)
  then have pool: "pool (opRoutine exampleDriverEnv ` Collect (ownResources exampleDriverEnv (\<lambda>_. 1))) exampleWorld (ts, w)"
    by (intro schedule_pool[OF pool_spawned run]) (auto simp del: opRoutine.simps ownResources.simps)
  have "rowsFound exampleDriverEnv" by (simp add: rowsFound_def)
  from call_on_own_resource[OF pool this _ _ c(1)] run c show ?thesis by (auto simp: exampleWorld_def)
qed


text \<open>Closing a resource, as every change of a serial resource does, forgets its mutex while an execution holds it; the
  next execution locks a new one, and two calls run on the resource.\<close>

definition closedMeanwhile :: "(world, unit) routine list" where
  "closedMeanwhile = map (opRoutine exampleDriverEnv)
     [OpExecute (exampleMeter 1 1 ''serial''), OpClose 1, OpExecute (exampleMeter 2 1 ''serial'')]"

lemma closed_calls:
  "\<exists>ts w c c'. schedule (firstAlone @ [1, 2,2,2,2,2,2,2,2,2,2,2,2,2,2]) (closedMeanwhile, exampleWorld) = Some (ts, w) \<and>
     w_calls w 3 = Some c \<and> w_calls w 6 = Some c' \<and> pc_resource c = 1 \<and> pc_resource c' = 1"
  by (simp add: firstAlone_def closedMeanwhile_def routine_defs CloseResource_def closeTCP_def closeSerial_def Let_def)

theorem closed_resource_shared:
  "\<exists>E w0 ts w i j c c'. idle w0 \<and> pool (range (opRoutine E)) w0 (ts, w) \<and> i \<noteq> j \<and> w_calls w i = Some c \<and> w_calls w j = Some c' \<and>
     0 < pc_resource c \<and> pc_resource c = pc_resource c'"
proof -
  obtain ts w c c' where run: "schedule (firstAlone @ [1, 2,2,2,2,2,2,2,2,2,2,2,2,2,2]) (closedMeanwhile, exampleWorld) = Some (ts, w)"
    and c: "w_calls w 3 = Some c" "w_calls w 6 = Some c'" "pc_resource c = 1" "pc_resource c' = 1" using closed_calls by blast
  have "pool (range (opRoutine exampleDriverEnv)) exampleWorld (ts, w)"
    by (rule schedule_pool[OF pool_spawned run]) (auto simp: closedMeanwhile_def simp del: opRoutine.simps)
  with c show ?thesis
    by (intro exI[of _ exampleDriverEnv] exI[of _ exampleWorld] exI[of _ ts] exI[of _ w] exI[of _ 3] exI[of _ 6] exI[of _ c] exI[of _ c'])
      (simp add: example_idle)
qed

text \<open>\<open>ReloadDeviceDriver\<close> reloads nothing when the driver is loaded for the device's resource.\<close>

lemma reload_keeps_loaded:
  assumes "dev_DriverID device = Some d" and "w_drivers w d = Some drv" and "lowerTrim (de_lib E) (dev_ResourceType device) \<noteq> []"
    and "wd_resourceID drv = resolveDeviceResourceID device"
  shows "run (ReloadDeviceDriver E device) w = Some (None, w)"
  using assms by (simp add: ReloadDeviceDriver_def resolveDeviceResource_def ensureDriverLoaded_def IsLoaded_def GetDriver_def run_andThen Let_def)

end
