(* ===== verification/Session_Token.thy ===== *)
theory Session_Token
  imports Go_Text Models
begin

text \<open>
  Sessions (\<open>platform/auth/auth.go\<close>, \<open>app/session_secret.go\<close>): the signing key, the tokens, the
  middleware that admits requests, and the middleware around the router
  (\<open>app/server_middleware.go\<close>, \<open>app/routes_page.go\<close>).

  SHA-256, HMAC and the JSON text of the two records are the fields of \<open>jwtlib\<close>; base 64 and the
  splitting of tokens are computed. A handler is a function of the request that reaches it; an
  error of Go is \<open>Inl\<close>. The theorems: a token gives its user's session for exactly seven days,
  whatever way a request carries it; no handler behind \<open>RequireAuth\<close> runs without a signed,
  unexpired token; the role is never looked at; the key survives a restart.
\<close>

section \<open>Keys\<close>

record jwtHeader =
  jh_Alg :: string
  jh_Typ :: string

record jwtClaims =
  jc_Subject :: int
  jc_Username :: string
  jc_Role :: string
  jc_IssuedAt :: int
  jc_ExpiresAt :: int

record jwtlib =
  sha256Sum :: "string \<Rightarrow> string"
  hmacSHA256 :: "string \<Rightarrow> string \<Rightarrow> string"
  marshalHeader :: "jwtHeader \<Rightarrow> string option"
  unmarshalHeader :: "string \<Rightarrow> jwtHeader option"
  marshalClaims :: "jwtClaims \<Rightarrow> string option"
  unmarshalClaims :: "string \<Rightarrow> jwtClaims option"

definition hashSessionSecret :: "jwtlib \<Rightarrow> string \<Rightarrow> string" where
  "hashSessionSecret L key = sha256Sum L key"

definition loadSecretKeyFromEnv :: "jwtlib \<Rightarrow> string \<Rightarrow> string option" where
  "loadSecretKeyFromEnv L envSecret = (if envSecret = [] then None else Some (hashSessionSecret L envSecret))"

text \<open>The key file is \<open>None\<close> when it cannot be read.\<close>

definition loadSecretKeyFromFile :: "jwtlib \<Rightarrow> string option \<Rightarrow> string option" where
  "loadSecretKeyFromFile L keyFile =
     (case keyFile of
        None \<Rightarrow> None
      | Some data \<Rightarrow> if length data < 32 then None else Some (hashSessionSecret L data))"

text \<open>The result is the key and the contents of the key file afterwards: \<open>random\<close> are the 32
  random bytes, \<open>writable\<close> whether the file can be written.\<close>

definition loadOrGenerateSecretKey ::
  "jwtlib \<Rightarrow> string \<Rightarrow> string \<Rightarrow> bool \<Rightarrow> string option \<Rightarrow> string \<times> string option" where
  "loadOrGenerateSecretKey L envSecret random writable keyFile =
     (case loadSecretKeyFromEnv L envSecret of
        Some key \<Rightarrow> (key, keyFile)
      | None \<Rightarrow>
          (case loadSecretKeyFromFile L keyFile of
             Some key \<Rightarrow> (key, keyFile)
           | None \<Rightarrow> (hashSessionSecret L random, if writable then Some random else keyFile)))"

section \<open>Tokens\<close>

datatype authError = ErrInvalidCredentials | ErrUserNotFound | ErrPasswordMismatch | ErrOther string

definition tokenTTL :: duration where
  "tokenTTL = 7 * 24 * Hour"

definition defaultCookieName :: string where
  "defaultCookieName = ''gogw_jwt''"

record JWTManager =
  jm_secret :: string
  jm_cookieName :: string

definition NewJWTManager :: "string \<Rightarrow> JWTManager" where
  "NewJWTManager secretKey =
     \<lparr>jm_secret = (if length secretKey < 16 then ''gogw-default-secret-please-change'' else secretKey),
      jm_cookieName = defaultCookieName\<rparr>"

record User =
  us_ID :: int
  us_Username :: string
  us_Password :: string
  us_Role :: string

record SessionInfo =
  si_UserID :: int
  si_Username :: string
  si_Role :: string

definition signHS256 :: "jwtlib \<Rightarrow> string \<Rightarrow> string \<Rightarrow> string" where
  "signHS256 L input secret = b64Encode (hmacSHA256 L secret input)"

definition signJWT :: "jwtlib \<Rightarrow> jwtClaims \<Rightarrow> string \<Rightarrow> authError + string" where
  "signJWT L claims secret =
     (case marshalHeader L \<lparr>jh_Alg = ''HS256'', jh_Typ = ''JWT''\<rparr> of
        None \<Rightarrow> Inl (ErrOther ''json'')
      | Some headerJSON \<Rightarrow>
          (case marshalClaims L claims of
             None \<Rightarrow> Inl (ErrOther ''json'')
           | Some claimsJSON \<Rightarrow>
               let signingInput = b64Encode headerJSON @ CHR ''.'' # b64Encode claimsJSON
               in Inr (signingInput @ CHR ''.'' # signHS256 L signingInput secret)))"

definition verifyJWT :: "jwtlib \<Rightarrow> string \<Rightarrow> string \<Rightarrow> gotime \<Rightarrow> authError + jwtClaims" where
  "verifyJWT L token secret now =
     (let parts = strSplit CHR ''.'' token in
      if length parts \<noteq> 3 then Inl ErrInvalidCredentials
      else case Option.bind (b64Decode (parts ! 0)) (unmarshalHeader L) of
          None \<Rightarrow> Inl ErrInvalidCredentials
        | Some header \<Rightarrow>
            if jh_Alg header \<noteq> ''HS256'' \<or> jh_Typ header \<noteq> ''JWT'' then Inl ErrInvalidCredentials
            else case b64Decode (parts ! 2) of
                None \<Rightarrow> Inl ErrInvalidCredentials
              | Some signatureGiven \<Rightarrow>
                  if signatureGiven \<noteq> hmacSHA256 L secret (parts ! 0 @ CHR ''.'' # parts ! 1)
                  then Inl ErrInvalidCredentials
                  else case Option.bind (b64Decode (parts ! 1)) (unmarshalClaims L) of
                      None \<Rightarrow> Inl ErrInvalidCredentials
                    | Some claims \<Rightarrow>
                        if jc_ExpiresAt claims \<le> 0 \<or> jc_ExpiresAt claims \<le> Unix now
                        then Inl ErrInvalidCredentials else Inr claims)"

definition issuedClaims :: "User \<Rightarrow> gotime \<Rightarrow> jwtClaims" where
  "issuedClaims user now =
     \<lparr>jc_Subject = us_ID user, jc_Username = us_Username user, jc_Role = us_Role user,
      jc_IssuedAt = Unix now, jc_ExpiresAt = Unix (time_Add now tokenTTL)\<rparr>"

definition GenerateToken :: "jwtlib \<Rightarrow> JWTManager \<Rightarrow> User \<Rightarrow> gotime \<Rightarrow> authError + string" where
  "GenerateToken L m user now = signJWT L (issuedClaims user now) (jm_secret m)"

definition sessionOf :: "jwtClaims \<Rightarrow> SessionInfo" where
  "sessionOf claims =
     \<lparr>si_UserID = jc_Subject claims, si_Username = jc_Username claims, si_Role = jc_Role claims\<rparr>"

definition ParseToken :: "jwtlib \<Rightarrow> JWTManager \<Rightarrow> string \<Rightarrow> gotime \<Rightarrow> authError + SessionInfo" where
  "ParseToken L m tokenStr now =
     (case verifyJWT L tokenStr (jm_secret m) now of
        Inl _ \<Rightarrow> Inl ErrInvalidCredentials
      | Inr claims \<Rightarrow> Inr (sessionOf claims))"

section \<open>Requests\<close>

text \<open>A request: \<open>rq_Authorization\<close> is empty when the header is missing, \<open>rq_Session\<close> is the
  session in its context.\<close>

record httpRequest =
  rq_Method :: string
  rq_Path :: string
  rq_Authorization :: string
  rq_Origin :: string
  rq_Cookies :: "(string \<times> string) list"
  rq_Session :: "SessionInfo option"

datatype httpResponse =
  Answer nat string
| RedirectTo string nat

definition resolveRequestToken :: "(string \<Rightarrow> string) \<Rightarrow> httpRequest \<Rightarrow> string \<Rightarrow> string" where
  "resolveRequestToken uni r cookieName =
     (let authz = rq_Authorization r in
      if prefix ''bearer '' (ToLower uni authz) then TrimSpace (drop 7 authz)
      else case map_of (rq_Cookies r) cookieName of None \<Rightarrow> [] | Some v \<Rightarrow> v)"

definition GetSession ::
  "jwtlib \<Rightarrow> (string \<Rightarrow> string) \<Rightarrow> JWTManager \<Rightarrow> httpRequest \<Rightarrow> gotime \<Rightarrow> authError + SessionInfo option" where
  "GetSession L uni m r now =
     (let tokenStr = resolveRequestToken uni r (jm_cookieName m)
      in if tokenStr = [] then Inr None else map_sum id Some (ParseToken L m tokenStr now))"

definition isAuthorizedSession :: "SessionInfo option \<Rightarrow> bool \<Rightarrow> bool" where
  "isAuthorizedSession info adminOnly =
     (case info of None \<Rightarrow> False | Some s \<Rightarrow> \<not> (adminOnly \<and> si_Role s \<noteq> ''admin''))"

definition isAPIPath :: "httpRequest \<Rightarrow> bool" where
  "isAPIPath r \<longleftrightarrow> prefix ''/api'' (rq_Path r)"

definition writeSessionFailure :: "httpRequest \<Rightarrow> bool \<Rightarrow> httpResponse" where
  "writeSessionFailure r adminOnly =
     (if isAPIPath r then (if adminOnly then Answer 403 ''forbidden'' else Answer 401 ''unauthorized'')
      else RedirectTo ''/login'' 303)"

definition withSessionInfo :: "httpRequest \<Rightarrow> SessionInfo option \<Rightarrow> httpRequest" where
  "withSessionInfo r info = r\<lparr>rq_Session := info\<rparr>"

text \<open>\<open>admit\<close> is what the middleware does with a request: it rejects it, or passes it on with
  its session.\<close>

definition requireSession ::
  "jwtlib \<Rightarrow> (string \<Rightarrow> string) \<Rightarrow> JWTManager \<Rightarrow> bool \<Rightarrow> httpRequest \<Rightarrow> gotime \<Rightarrow> httpResponse + httpRequest" where
  "requireSession L uni m adminOnly r now =
     (case GetSession L uni m r now of
        Inl _ \<Rightarrow> Inl (writeSessionFailure r adminOnly)
      | Inr info \<Rightarrow>
          if isAuthorizedSession info adminOnly then Inr (withSessionInfo r info)
          else Inl (writeSessionFailure r adminOnly))"

definition RequireAuth ::
  "jwtlib \<Rightarrow> (string \<Rightarrow> string) \<Rightarrow> JWTManager \<Rightarrow> httpRequest \<Rightarrow> gotime \<Rightarrow> httpResponse + httpRequest" where
  "RequireAuth L uni m r now = requireSession L uni m False r now"

record httpCookie =
  ck_Name :: string
  ck_Value :: string
  ck_Path :: string
  ck_HttpOnly :: bool
  ck_SameSiteLax :: bool
  ck_MaxAge :: int

definition buildSessionCookie :: "string \<Rightarrow> string \<Rightarrow> int \<Rightarrow> httpCookie" where
  "buildSessionCookie name val maxAge =
     \<lparr>ck_Name = name, ck_Value = val, ck_Path = ''/'', ck_HttpOnly = True, ck_SameSiteLax = True, ck_MaxAge = maxAge\<rparr>"

definition sessionCookie :: "JWTManager \<Rightarrow> string \<Rightarrow> httpCookie" where
  "sessionCookie m token = buildSessionCookie (jm_cookieName m) token (tokenTTL div Second)"

definition logoutCookie :: "JWTManager \<Rightarrow> httpCookie" where
  "logoutCookie m = buildSessionCookie (jm_cookieName m) [] (- 1)"

section \<open>The chain around the router\<close>

definition buildAllowedOriginSet :: "string list \<Rightarrow> string set \<times> bool" where
  "buildAllowedOriginSet origins =
     foldl (\<lambda>(allowSet, allowAll) origin.
       let trimmed = TrimSpace origin in
       if trimmed = [] then (allowSet, allowAll)
       else if trimmed = ''*'' then (allowSet, True)
       else (insert trimmed allowSet, allowAll)) ({}, False) origins"

definition isAllowedOrigin :: "string \<Rightarrow> string set \<Rightarrow> bool \<Rightarrow> bool" where
  "isAllowedOrigin origin allowSet allowAll =
     (if origin = [] then False else if allowAll then True else origin \<in> allowSet)"

text \<open>The value is always the word \<open>Origin\<close>, whose letters have no case variant beyond ASCII.\<close>

definition appendVaryHeader :: "string \<Rightarrow> string \<Rightarrow> string" where
  "appendVaryHeader existing val =
     (let trimmedValue = TrimSpace val in
      if trimmedValue = [] then existing
      else if existing = [] then trimmedValue
      else if list_ex (\<lambda>part. EqualFoldWord (TrimSpace part) (map asciiLower trimmedValue)) (strSplit CHR '','' existing)
        then existing
        else existing @ '', '' @ trimmedValue)"

text \<open>The headers that \<open>corsMiddleware\<close> sets before it passes a request on; a preflight is answered
  at once.\<close>

definition corsHeaders :: "string list \<Rightarrow> httpRequest \<Rightarrow> string \<Rightarrow> (string \<times> string) list" where
  "corsHeaders origins r vary =
     (let (allowSet, allowAll) = buildAllowedOriginSet origins; origin = TrimSpace (rq_Origin r) in
      if isAllowedOrigin origin allowSet allowAll
      then [(''Access-Control-Allow-Origin'', origin),
            (''Access-Control-Allow-Methods'', ''GET, POST, PUT, DELETE, OPTIONS''),
            (''Access-Control-Allow-Headers'', ''Content-Type, Authorization''),
            (''Access-Control-Allow-Credentials'', ''true''),
            (''Vary'', appendVaryHeader vary ''Origin'')]
      else [])"

definition corsMiddleware ::
  "string list \<Rightarrow> (httpRequest \<Rightarrow> httpResponse) \<Rightarrow> httpRequest \<Rightarrow> string \<Rightarrow> (string \<times> string) list \<times> httpResponse" where
  "corsMiddleware origins next_handler r vary =
     (corsHeaders origins r vary,
      if rq_Method r = ''OPTIONS'' then Answer 204 [] else next_handler r)"

definition shouldServeSPA :: "httpRequest \<Rightarrow> bool" where
  "shouldServeSPA r =
     (if rq_Method r \<noteq> ''GET'' then False
      else if list_ex (\<lambda>p. prefix p (rq_Path r)) [''/api'', ''/static/'', ''/ui/static/''] then False
      else rq_Path r \<notin> {''/health'', ''/ready'', ''/live'', ''/metrics'', ''/login'', ''/logout''})"

text \<open>The two protected mounts of the router: the API under \<open>/api/\<close>, with the prefix stripped, and
  the page at the root.\<close>

definition serveAPI ::
  "jwtlib \<Rightarrow> (string \<Rightarrow> string) \<Rightarrow> JWTManager \<Rightarrow> (httpRequest \<Rightarrow> httpResponse) \<Rightarrow> gotime \<Rightarrow> httpRequest \<Rightarrow> httpResponse" where
  "serveAPI L uni m api now r =
     (case RequireAuth L uni m r now of
        Inl failure \<Rightarrow> failure
      | Inr r' \<Rightarrow> if prefix ''/api'' (rq_Path r') then api (r'\<lparr>rq_Path := drop 4 (rq_Path r')\<rparr>)
                 else Answer 404 ''404 page not found'')"

definition servePage ::
  "jwtlib \<Rightarrow> (string \<Rightarrow> string) \<Rightarrow> JWTManager \<Rightarrow> (httpRequest \<Rightarrow> httpResponse) \<Rightarrow> gotime \<Rightarrow> httpRequest \<Rightarrow> httpResponse" where
  "servePage L uni m spa now r =
     (case RequireAuth L uni m r now of
        Inl failure \<Rightarrow> failure
      | Inr r' \<Rightarrow> if shouldServeSPA r' then spa r' else Answer 404 ''404 page not found'')"

section \<open>What a token is worth\<close>

lemma map_sum_Inr_Some: "map_sum id Some x = Inr y \<longleftrightarrow> (\<exists>z. x = Inr z \<and> y = Some z)"
  by (cases x) auto

lemma verifyJWT_sound:
  assumes "verifyJWT L token secret now = Inr claims"
  obtains h p s header headerJSON claimsJSON
  where "strSplit CHR ''.'' token = [h, p, s]" and "b64Decode s = Some (hmacSHA256 L secret (h @ CHR ''.'' # p))"
    and "b64Decode h = Some headerJSON" and "unmarshalHeader L headerJSON = Some header"
    and "jh_Alg header = ''HS256''"
    and "b64Decode p = Some claimsJSON" and "unmarshalClaims L claimsJSON = Some claims"
    and "Unix now < jc_ExpiresAt claims"
proof -
  from assms have "length (strSplit CHR ''.'' token) = 3"
    by (auto simp: verifyJWT_def Let_def split: if_splits)
  then obtain h p s where parts: "strSplit CHR ''.'' token = [h, p, s]"
    by (auto simp: numeral_3_eq_3 length_Suc_conv)
  from assms parts show ?thesis
    by (auto simp: verifyJWT_def Let_def bind_eq_Some_conv intro: that
        split: if_splits option.splits)
qed

text \<open>The text of a signed token.\<close>

definition tokenText :: "jwtlib \<Rightarrow> string \<Rightarrow> string \<Rightarrow> string \<Rightarrow> string" where
  "tokenText L secret headerJSON claimsJSON =
     (let signingInput = b64Encode headerJSON @ CHR ''.'' # b64Encode claimsJSON
      in signingInput @ CHR ''.'' # signHS256 L signingInput secret)"

lemma signHS256_no_dot [simp]: "CHR ''.'' \<notin> set (signHS256 L input secret)"
  by (simp add: signHS256_def)

lemma tokenText_parts:
  "strSplit CHR ''.'' (tokenText L secret hj cj) =
     [b64Encode hj, b64Encode cj, signHS256 L (b64Encode hj @ CHR ''.'' # b64Encode cj) secret]"
  by (simp add: tokenText_def Let_def)

lemma verifyJWT_tokenText:
  assumes "unmarshalHeader L hj = Some \<lparr>jh_Alg = ''HS256'', jh_Typ = ''JWT''\<rparr>"
    and "unmarshalClaims L cj = Some claims" and "0 < jc_ExpiresAt claims"
  shows "verifyJWT L (tokenText L secret hj cj) secret now =
           (if Unix now < jc_ExpiresAt claims then Inr claims else Inl ErrInvalidCredentials)"
  using assms by (simp add: verifyJWT_def tokenText_parts Let_def signHS256_def)

lemma b64_ascii: "c \<in> set b64Alphabet \<Longrightarrow> isASCII c \<and> \<not> asciiSpace c"
  by (auto simp: b64Alphabet_def isASCII_def runeSelf_def asciiSpace_def asciiSpaces_def)

lemma tokenText_chars: "c \<in> set (tokenText L secret hj cj) \<Longrightarrow> isASCII c \<and> \<not> asciiSpace c"
  using b64Encode_alphabet [THEN b64_ascii]
  by (auto simp: tokenText_def Let_def signHS256_def isASCII_def runeSelf_def asciiSpace_def asciiSpaces_def)

lemma strip_visible: "wide encs \<Longrightarrow> (\<And>c. c \<in> set s \<Longrightarrow> isASCII c \<and> \<not> asciiSpace c) \<Longrightarrow> strip encs s = s"
  by (cases s) (auto simp: strip_stop simp del: strip.simps(2))

lemma TrimSpace_visible:
  assumes "\<And>c. c \<in> set s \<Longrightarrow> isASCII c \<and> \<not> asciiSpace c"
  shows "TrimSpace s = s"
proof -
  have "strip wideSpaces s = s" and "strip (map rev wideSpaces) (rev s) = rev s"
    using assms by (intro strip_visible wide_wideSpaces wide_rev_wideSpaces; simp)+
  then show ?thesis by (simp add: TrimSpace_def TrimLeftSpace_def TrimRightSpace_def)
qed

lemma Unix_tokenTTL: "Unix (time_Add t tokenTTL) = Unix t + 604800"
  by (simp add: Unix_def time_Add_def tokenTTL_def unixEpoch_def)

lemma resolve_bearer:
  assumes "rq_Authorization r = ''Bearer '' @ tokenText L secret hj cj"
  shows "resolveRequestToken uni r name = tokenText L secret hj cj"
proof -
  have "list_all isASCII (''Bearer '' @ tokenText L secret hj cj)"
    using tokenText_chars by (auto simp: list_all_iff isASCII_def runeSelf_def)
  then have "prefix ''bearer '' (ToLower uni (rq_Authorization r))"
    by (simp add: assms ToLower_def ascii_eval)
  moreover have "TrimSpace (drop 7 (rq_Authorization r)) = tokenText L secret hj cj"
    using tokenText_chars by (simp add: assms TrimSpace_visible)
  ultimately show ?thesis
    by (simp add: resolveRequestToken_def Let_def)
qed

text \<open>How a request carries a token.\<close>

definition carries :: "(string \<Rightarrow> string) \<Rightarrow> JWTManager \<Rightarrow> httpRequest \<Rightarrow> string \<Rightarrow> bool" where
  "carries uni m r token \<longleftrightarrow>
     rq_Authorization r = ''Bearer '' @ token \<or>
     (\<not> prefix ''bearer '' (ToLower uni (rq_Authorization r)) \<and> map_of (rq_Cookies r) (jm_cookieName m) = Some token)"

lemma carries_resolve:
  "carries uni m r (tokenText L secret hj cj) \<Longrightarrow>
     resolveRequestToken uni r (jm_cookieName m) = tokenText L secret hj cj"
  by (auto simp: carries_def resolve_bearer) (simp add: resolveRequestToken_def Let_def)

lemma tokenText_not_Nil [simp]: "tokenText L secret hj cj \<noteq> []"
  by (simp add: tokenText_def Let_def)

lemma RequireAuth_outcomes:
  "RequireAuth L uni m r now =
     (case GetSession L uni m r now of
        Inr (Some info) \<Rightarrow> Inr (withSessionInfo r (Some info))
      | _ \<Rightarrow> Inl (writeSessionFailure r False))"
  by (auto simp: RequireAuth_def requireSession_def isAuthorizedSession_def split: sum.splits option.splits)

text \<open>C0: A token that \<open>GenerateToken\<close> issues for a user at instant \<open>t\<close> lets every request that carries
  it, as a bearer token or as the cookie, through \<open>RequireAuth\<close> with the user's identity, name and
  role for exactly seven days, whatever the role is; from then on the request is turned away. The JSON
  text of the header and of the claims only has to be read back as it was written.\<close>

theorem token_valid_seven_days:
  assumes "marshalHeader L \<lparr>jh_Alg = ''HS256'', jh_Typ = ''JWT''\<rparr> = Some hj"
    and "unmarshalHeader L hj = Some \<lparr>jh_Alg = ''HS256'', jh_Typ = ''JWT''\<rparr>"
    and "marshalClaims L (issuedClaims user t) = Some cj"
    and "unmarshalClaims L cj = Some (issuedClaims user t)"
    and "0 < Unix t"
  shows "\<exists>token. GenerateToken L m user t = Inr token \<and>
           (\<forall>r now. carries uni m r token \<longrightarrow>
              RequireAuth L uni m r now =
                (if Unix now < Unix t + 604800
                 then Inr (withSessionInfo r (Some \<lparr>si_UserID = us_ID user, si_Username = us_Username user, si_Role = us_Role user\<rparr>))
                 else Inl (writeSessionFailure r False)))"
proof (intro exI conjI allI impI)
  show "GenerateToken L m user t = Inr (tokenText L (jm_secret m) hj cj)"
    using assms(1,3) by (simp add: GenerateToken_def signJWT_def tokenText_def Let_def)
next
  fix r now assume "carries uni m r (tokenText L (jm_secret m) hj cj)"
  moreover have "verifyJWT L (tokenText L (jm_secret m) hj cj) (jm_secret m) now =
      (if Unix now < Unix t + 604800 then Inr (issuedClaims user t) else Inl ErrInvalidCredentials)"
    using assms by (subst verifyJWT_tokenText) (auto simp: issuedClaims_def Unix_tokenTTL)
  ultimately show "RequireAuth L uni m r now =
      (if Unix now < Unix t + 604800
       then Inr (withSessionInfo r (Some \<lparr>si_UserID = us_ID user, si_Username = us_Username user, si_Role = us_Role user\<rparr>))
       else Inl (writeSessionFailure r False))"
    by (simp add: RequireAuth_outcomes GetSession_def carries_resolve ParseToken_def sessionOf_def issuedClaims_def Let_def)
qed

text \<open>C0: A handler of the API and the page run only for a request whose token has a signature under the
  manager's key, the algorithm \<open>HS256\<close> and claims that have not expired; the handler then sees the
  session of exactly these claims. Every other request is answered by the middleware, whatever
  the handlers are.\<close>

theorem handlers_need_signed_token:
  "(\<forall>api spa. serveAPI L uni m api now r = writeSessionFailure r False \<and> servePage L uni m spa now r = writeSessionFailure r False)
   \<or> (\<exists>h p s header claims r'.
        strSplit CHR ''.'' (resolveRequestToken uni r (jm_cookieName m)) = [h, p, s]
        \<and> b64Decode s = Some (hmacSHA256 L (jm_secret m) (h @ CHR ''.'' # p))
        \<and> Option.bind (b64Decode h) (unmarshalHeader L) = Some header \<and> jh_Alg header = ''HS256''
        \<and> Option.bind (b64Decode p) (unmarshalClaims L) = Some claims \<and> Unix now < jc_ExpiresAt claims
        \<and> r' = withSessionInfo r (Some (sessionOf claims))
        \<and> (\<forall>api spa. serveAPI L uni m api now r =
             (if isAPIPath r then api (r'\<lparr>rq_Path := drop 4 (rq_Path r')\<rparr>) else Answer 404 ''404 page not found'')
           \<and> servePage L uni m spa now r = (if shouldServeSPA r then spa r' else Answer 404 ''404 page not found'')))"
proof (cases "RequireAuth L uni m r now")
  case (Inl failure)
  then show ?thesis
    by (auto simp: serveAPI_def servePage_def RequireAuth_outcomes split: sum.splits option.splits)
next
  case (Inr r')
  then obtain claims where v: "verifyJWT L (resolveRequestToken uni r (jm_cookieName m)) (jm_secret m) now = Inr claims"
    and r': "r' = withSessionInfo r (Some (sessionOf claims))"
    by (auto simp: RequireAuth_outcomes GetSession_def ParseToken_def map_sum_Inr_Some Let_def split: sum.splits option.splits if_splits)
  have "isAPIPath r = prefix ''/api'' (rq_Path r')" and "shouldServeSPA r' = shouldServeSPA r"
    by (simp_all add: r' withSessionInfo_def isAPIPath_def shouldServeSPA_def)
  then have answers: "\<forall>api spa. serveAPI L uni m api now r =
      (if isAPIPath r then api (r'\<lparr>rq_Path := drop 4 (rq_Path r')\<rparr>) else Answer 404 ''404 page not found'')
      \<and> servePage L uni m spa now r = (if shouldServeSPA r then spa r' else Answer 404 ''404 page not found'')"
    using Inr by (simp add: serveAPI_def servePage_def)
  from v obtain h p s header where "strSplit CHR ''.'' (resolveRequestToken uni r (jm_cookieName m)) = [h, p, s]"
    "b64Decode s = Some (hmacSHA256 L (jm_secret m) (h @ CHR ''.'' # p))"
    "Option.bind (b64Decode h) (unmarshalHeader L) = Some header" "jh_Alg header = ''HS256''"
    "Option.bind (b64Decode p) (unmarshalClaims L) = Some claims" "Unix now < jc_ExpiresAt claims"
    by (rule verifyJWT_sound) (auto simp: bind_eq_Some_conv)
  with r' answers show ?thesis by blast
qed

text \<open>C0: The signing key of a first start is the key of every later start that reads the file the first
  one wrote, whatever random bytes the later start would draw, so that sessions outlive a restart; a key
  from the environment takes precedence over the file.\<close>

theorem key_survives_restart:
  assumes "length random = 32"
  shows "(case loadOrGenerateSecretKey L [] random True keyFile of
            (key, keyFile') \<Rightarrow> loadOrGenerateSecretKey L [] random' writable keyFile' = (key, keyFile'))
       \<and> (envSecret \<noteq> [] \<longrightarrow> loadOrGenerateSecretKey L envSecret random writable keyFile = (sha256Sum L envSecret, keyFile))"
  using assms
  by (auto simp: loadOrGenerateSecretKey_def loadSecretKeyFromEnv_def loadSecretKeyFromFile_def hashSessionSecret_def
      split: option.splits if_splits)

section \<open>Origins\<close>

lemma buildAllowedOriginSet_eq:
  "buildAllowedOriginSet origins =
     ({TrimSpace origin | origin. origin \<in> set origins \<and> TrimSpace origin \<noteq> [] \<and> TrimSpace origin \<noteq> ''*''},
      \<exists>origin \<in> set origins. TrimSpace origin = ''*'')"
proof -
  have "foldl (\<lambda>(allowSet, allowAll) origin.
       let trimmed = TrimSpace origin in
       if trimmed = [] then (allowSet, allowAll)
       else if trimmed = ''*'' then (allowSet, True)
       else (insert trimmed allowSet, allowAll)) (A, b) origins =
     (A \<union> {TrimSpace origin | origin. origin \<in> set origins \<and> TrimSpace origin \<noteq> [] \<and> TrimSpace origin \<noteq> ''*''},
      b \<or> (\<exists>origin \<in> set origins. TrimSpace origin = ''*''))" for A b
    by (induction origins arbitrary: A b) (auto simp: Let_def)
  then show ?thesis
    by (simp add: buildAllowedOriginSet_def)
qed

text \<open>The configured list decides alone: a foreign origin gets no header. With the entry \<open>*\<close> every origin
  is named in the answer together with the permission to send the session cookie.\<close>

theorem origins_admitted:
  "(''Access-Control-Allow-Origin'', origin) \<in> set (corsHeaders origins r vary) \<longleftrightarrow>
     origin = TrimSpace (rq_Origin r) \<and> origin \<noteq> [] \<and>
     (\<exists>entry \<in> set origins. TrimSpace entry = origin \<or> TrimSpace entry = ''*'')"
proof -
  have "origin \<noteq> [] \<Longrightarrow> (if \<exists>entry \<in> set origins. TrimSpace entry = ''*'' then True
          else origin \<in> {TrimSpace e | e. e \<in> set origins \<and> TrimSpace e \<noteq> [] \<and> TrimSpace e \<noteq> ''*''}) \<longleftrightarrow>
        (\<exists>entry \<in> set origins. TrimSpace entry = origin \<or> TrimSpace entry = ''*'')"
    by auto
  then show ?thesis
    by (auto simp: corsHeaders_def buildAllowedOriginSet_eq isAllowedOrigin_def Let_def)
qed

theorem wildcard_admits_with_credentials:
  assumes "entry \<in> set origins" and "TrimSpace entry = ''*''" and "TrimSpace (rq_Origin r) \<noteq> []"
  shows "{(''Access-Control-Allow-Origin'', TrimSpace (rq_Origin r)), (''Access-Control-Allow-Credentials'', ''true'')}
           \<subseteq> set (corsHeaders origins r vary)"
  using assms by (auto simp: corsHeaders_def buildAllowedOriginSet_eq isAllowedOrigin_def Let_def)

end
