(* ===== verification/Spec2Isabelle.thy ===== *)
theory Spec2Isabelle
  imports Go_Prelude Go_Text Field_Names Circuit Models Alarm_State Threshold_Check Task_Heap Scheduler
    Collect Outbox Adapter_Life Adapters Delivery Downlink Northbound Modbus
    Sample_Store Sample_Writer Sample_Merge Sample_History Sample_Sync Sample_Latest
    Go_Routines Driver_Context Driver_Runtime Driver_Safety Driver_Calls Session_Token
begin

text \<open>
  A verification of the core of xunjiFsu, a gateway that reads field devices through plugin
  drivers, checks the samples against thresholds, stores them and reports them to cloud
  platforms. All file names are relative to \<open>src/internal\<close>.

  \<^bold>\<open>How the program works.\<close> \<open>collector/collector.go\<close> keeps a table of tasks, one per enabled device,
  and a priority queue of those that wait for their instant. Its loop takes due tasks under a
  concurrency limit and starts a collection for each. A collection
  (\<open>collector/modbus_collect.go\<close>) calls the device's driver, puts the result into the form of
  a sample (\<open>driver/result_identity.go\<close>), writes it to the history when the storage interval is
  over, hands it to the northbound manager and checks it against the thresholds
  (\<open>collector/threshold_*.go\<close>); alarms are throttled (\<open>collector/alarm_state.go\<close>). The northbound
  adapters (\<open>northbound/adapters\<close>) queue samples and alarms, publish them to an MQTT broker in
  their platform's format and take commands back, which \<open>collector/command_poll.go\<close> executes.
  \<open>circuit/circuit.go\<close> guards calls that may fail.

  \<^bold>\<open>The theories.\<close>
  \<^item> \<open>Go_Prelude\<close>: what the code uses of Go and its library: 64-bit integers with wrap-around,
    durations and instants, \<open>strings.TrimSpace\<close>, \<open>ToLower\<close>, number formatting; shared lemmas.
    Functions on Unicode and on floating point that are not spelled out are the fields of a record
    \<open>golib\<close>, an argument of the definitions that use them.
  \<^item> \<open>Field_Names\<close>: the hand-written fast trimmers, which equal \<open>strings.TrimSpace\<close>.
  \<^item> \<open>Circuit\<close>: the circuit breaker as a state machine; its invariant, when it opens, half-opens and
    closes.
  \<^item> \<open>Models\<close>: the records of \<open>models/models.go\<close>.
  \<^item> \<open>Alarm_State\<close>: the throttle of repeated alarms with its pruning; \<open>throttle\<close> is the interface of
    a throttle, interpreted on both kinds of keys.
  \<^item> \<open>Threshold_Check\<close>: the threshold cache, the numeric lookup with its memo tables, the comparison
    and the check of a sample.
  \<^item> \<open>Task_Heap\<close>: \<open>container/heap\<close> on the task queue with its recorded positions; \<open>priority_queue\<close> is
    the interface, with draining in order proved once.
  \<^item> \<open>Scheduler\<close>: the collector's state and its steps; reachable states, the invariant by rule
    induction, dispatch, synchronisation with the database.
  \<^item> \<open>Collect\<close>: one collection of a device, error classes, northbound commands, runtime status.
  \<^item> \<open>Outbox\<close>: the bounded queues of \<open>queue_append.go\<close> and the interfaces \<open>outbox\<close> (nothing is lost)
    and \<open>exact_outbox\<close> (nothing is lost or sent twice) over sequences of sends and flushes.
  \<^item> \<open>Adapter_Life\<close>: start, stop and close of an adapter with its channels and loop, the reconnect
    timer and back-off, the iteration of the event loop.
  \<^item> \<open>Adapters\<close>: the five adapters: MQTT, Xunji, Sagoo, PandaX and iThings.
  \<^item> \<open>Delivery\<close>: the adapters' queues implement the outbox interfaces; closing, draining; capacities.
  \<^item> \<open>Downlink\<close>: what the platforms send down: topics and their parsing, the commands built from a
    request, the command queues (interface \<open>command_stream\<close>), the replies to results.
  \<^item> \<open>Northbound\<close>: the adapters as one type and the manager over them (\<open>northbound/manager.go\<close>);
    \<open>stop_protocol\<close> is what an adapter's loop must do for its stop to end.
  \<^item> \<open>Modbus\<close>: the Modbus debugging tool of the HTTP interface (\<open>httpapi/debug_modbus_*.go\<close>,
    \<open>driver/serial_debug.go\<close>, \<open>driver/tcp_debug.go\<close>): checks, RTU and TCP frames, the CRC and what it
    detects, the exchange with a slave from the request to the answer shown.
  \<^item> \<open>Sample_Store\<close>: the two tables of samples with the statements that write them, the fast paths
    and batches (\<open>database/data_points*.go\<close>, \<open>data_cache.go\<close>), transactions whose statements may
    fail, the size limits; every successful write has the same result.
  \<^item> \<open>Sample_Writer\<close>: the asynchronous writer (\<open>database/collect_write_queue.go\<close>), its batches and
    its queue under any interleaving.
  \<^item> \<open>Sample_Merge\<close>, \<open>Sample_History\<close>, \<open>Sample_Sync\<close>: the merge of memory and disk rows against a
    reference, the history queries, the copying of the history to the disk beside its writers, the
    deletion of a point and the retention (\<open>data_sync.go\<close>, \<open>retention_job.go\<close>).
  \<^item> \<open>Sample_Latest\<close>: the latest values of all devices from the cache, the memory and the disk
    (\<open>data_points_query.go\<close>); the newest row of each field wins.
  \<^item> \<open>Go_Routines\<close>: goroutines as trees of atomic sections on a shared state, alone (\<open>run\<close>) and
    interleaved (\<open>pool\<close>); the discipline \<open>owns\<close> under which locks and flags belong to one of them.
  \<^item> \<open>Driver_Context\<close>: what a driver call needs and what is made of its output
    (\<open>driver/manager_resolve.go\<close>, \<open>executor_exec.go\<close>, \<open>version.go\<close>).
  \<^item> \<open>Driver_Runtime\<close>: the driver executor and manager (\<open>driver/executor.go\<close>, \<open>manager.go\<close>, the host
    functions) as goroutines; a plugin is any tree of host calls.
  \<^item> \<open>Driver_Safety\<close>: exclusion of executions under every interleaving. \<open>Driver_Calls\<close>: an
    execution returns, or waits for its own lock; the plugin instance that a call reaches; interleavings
    in which shared drivers and closed resources go wrong.

  \<^bold>\<open>Conventions.\<close> A mutex-protected section of the code is one step; goroutines are interleaved
  steps. A nil pointer is \<open>None\<close>; a Go error is a branch of a result; a panic is \<open>None\<close> where it
  can occur. Instants are nanoseconds since the zero time of Go, so that 0 is the zero time.
  \<open>time.Now()\<close> is an argument. Answers of the database, the driver plugin and the MQTT client are
  arguments: every theorem holds for all of them. Go's map iteration order is an argument where
  it matters and association lists elsewhere.

  \<^bold>\<open>Fuel.\<close> The only fuel is that of the alarm drains (\<open>drainAlarmQueueOnStop\<close>); one more than the number
  of queued alarms is enough (\<open>alarm_drains_end\<close>). All other loops are
  structural recursions or have a termination proof.

  \<^bold>\<open>Not modelled.\<close> Log lines; JSON text (the records are modelled); the MQTT, SQLite, WebAssembly
  and serial libraries; reading and normalising the adapters' configuration; the SQL of the
  configuration stores (\<open>database\<close>); the HTTP handlers, services and bootstrap (\<open>httpapi\<close>, \<open>service\<close>, \<open>app\<close>), which are
  glue; system statistics and the platform packages, which are input and output.
\<close>

end
